(* ===== verification/Prelude.thy ===== *)
theory Prelude
  imports
    Main
    "HOL-Library.Word"
    "HOL-Library.Char_ord"
    "HOL-Library.List_Lexorder"
    "HOL-Library.Multiset"
begin

text \<open>
  Shared material of the development: the machine types of the Rust sources and
  their saturating and checked arithmetic, the model of
  \<^verbatim>\<open>std::collections::BTreeMap\<close> as an abstract type with extensional
  equality, and the interface (locale) of a state machine that is driven by a
  sequence of inputs and keeps an invariant.
\<close>

named_theorems sat_simps \<open>saturating and checked machine arithmetic read as numbers\<close>
named_theorems bt_simps \<open>lookup and iteration laws of the ordered map\<close>

section \<open>Machine types\<close>

text \<open>
  Unsigned Rust integers are words of their width. \<^verbatim>\<open>usize\<close> values of the
  modelled code are sizes and capacities of in-memory collections; they are
  natural numbers. \<^verbatim>\<open>i64\<close> values are millisecond timestamps and scores;
  they are integers with the saturation of the source written out. Byte arrays
  of fixed length that the code uses as opaque identifiers (transaction hash,
  block hash, address) are words read big-endian: the derived \<^verbatim>\<open>Ord\<close> of
  a byte array is lexicographic, which is the unsigned order of that reading.
\<close>

type_synonym u8 = "8 word"
type_synonym u16 = "16 word"
type_synonym u32 = "32 word"
type_synonym u64 = "64 word"
type_synonym u128 = "128 word"
type_synonym i64 = int
type_synonym usize = nat

section \<open>Saturating and checked arithmetic\<close>

definition sat_add :: "'a::len word \<Rightarrow> 'a word \<Rightarrow> 'a word" where
  "sat_add a b = (if unat a + unat b < 2 ^ LENGTH('a) then a + b else - 1)"

definition sat_sub :: "'a::len word \<Rightarrow> 'a word \<Rightarrow> 'a word" where
  "sat_sub a b = (if b \<le> a then a - b else 0)"

definition sat_mul :: "'a::len word \<Rightarrow> 'a word \<Rightarrow> 'a word" where
  "sat_mul a b = (if unat a * unat b < 2 ^ LENGTH('a) then a * b else - 1)"

definition checked_add :: "'a::len word \<Rightarrow> 'a word \<Rightarrow> 'a word option" where
  "checked_add a b = (if unat a + unat b < 2 ^ LENGTH('a) then Some (a + b) else None)"

definition div_ceil :: "'a::len word \<Rightarrow> 'a word \<Rightarrow> 'a word" where
  "div_ceil a b = (if 0 < a mod b then a div b + 1 else a div b)"

definition i64_min :: i64 where
  "i64_min = - (2 ^ 63)"

definition i64_max :: i64 where
  "i64_max = 2 ^ 63 - 1"

definition i64_sat :: "int \<Rightarrow> i64" where
  "i64_sat x = max i64_min (min i64_max x)"

lemma unat_minus_one_max: "unat (- 1 :: 'a::len word) = 2 ^ LENGTH('a) - 1"
  by (simp add: unsigned_minus_1_eq_mask mask_eq_exp_minus_1)

lemma unat_le_max: "unat a \<le> 2 ^ LENGTH('a) - 1"
  for a :: "'a::len word"
  by (metis Suc_pred' less_Suc_eq_le unsigned_less zero_less_numeral zero_less_power)

lemma unat_sat_add [sat_simps]:
  "unat (sat_add a b) = min (2 ^ LENGTH('a) - 1) (unat a + unat b)"
  for a b :: "'a::len word"
  by (auto simp: sat_add_def unat_minus_one_max unat_word_ariths)

lemma unat_sat_sub [sat_simps]: "unat (sat_sub a b) = unat a - unat b"
  by (auto simp: sat_sub_def unat_sub word_le_nat_alt)

lemma unat_sat_mul [sat_simps]:
  "unat (sat_mul a b) = min (2 ^ LENGTH('a) - 1) (unat a * unat b)"
  for a b :: "'a::len word"
  by (auto simp: sat_mul_def unat_minus_one_max unat_word_ariths)

lemma checked_add_Some [sat_simps]:
  "checked_add a b = Some c \<longleftrightarrow>
    unat a + unat b < 2 ^ LENGTH('a) \<and> c = a + b"
  for a b :: "'a::len word"
  by (auto simp: checked_add_def)

lemma checked_add_None [sat_simps]:
  "checked_add a b = None \<longleftrightarrow> 2 ^ LENGTH('a) \<le> unat a + unat b"
  for a b :: "'a::len word"
  by (auto simp: checked_add_def)

text \<open>Evaluation compares in the integers, whose numerals are binary.\<close>

lemma unat_less_pow_code:
  "unat a + unat b < 2 ^ n \<longleftrightarrow> uint a + uint b < 2 ^ n"
  "unat a * unat b < 2 ^ n \<longleftrightarrow> uint a * uint b < 2 ^ n"
  for a b :: "'a::len word"
  by (simp_all only: uint_nat flip: of_nat_add of_nat_mult of_nat_less_iff [where 'a = int])
    simp_all

lemma sat_code [code]:
  "sat_add a b = (if uint a + uint b < 2 ^ LENGTH('a) then a + b else - 1)"
  "sat_mul a b = (if uint a * uint b < 2 ^ LENGTH('a) then a * b else - 1)"
  "checked_add a b = (if uint a + uint b < 2 ^ LENGTH('a) then Some (a + b) else None)"
  for a b :: "'a::len word"
  by (simp_all only: sat_add_def sat_mul_def checked_add_def unat_less_pow_code)

lemma sat_add_mono: "a \<le> sat_add a b"
  using unat_le_max [of a] by (simp add: word_le_nat_alt unat_sat_add)

lemma sat_add_zero [simp]: "sat_add a 0 = a" "sat_add 0 a = a"
  by (simp_all add: sat_add_def)

lemma sat_sub_self [simp]: "sat_sub a a = 0"
  by (simp add: sat_sub_def)

lemma sat_sub_zero [simp]: "sat_sub a 0 = a"
  by (simp add: sat_sub_def)

section \<open>Ordered maps\<close>

text \<open>
  \<^verbatim>\<open>BTreeMap<K, V>\<close> is the type of association lists with strictly
  increasing keys: iteration visits the entries in key order, and two maps are
  equal exactly when they hold the same entries. The same type models the hash
  maps of the sources; the code never depends on their iteration order (it sorts
  what it collects from them).
\<close>

fun al_insert :: "'k::linorder \<Rightarrow> 'v \<Rightarrow> ('k \<times> 'v) list \<Rightarrow> ('k \<times> 'v) list" where
  "al_insert k v [] = [(k, v)]"
| "al_insert k v ((a, b) # xs) =
     (if k < a then (k, v) # (a, b) # xs
      else if k = a then (k, v) # xs
      else (a, b) # al_insert k v xs)"

definition al_remove :: "'k \<Rightarrow> ('k \<times> 'v) list \<Rightarrow> ('k \<times> 'v) list" where
  "al_remove k xs = filter (\<lambda>p. fst p \<noteq> k) xs"

definition al_adjust :: "'k \<Rightarrow> ('v \<Rightarrow> 'v) \<Rightarrow> ('k \<times> 'v) list \<Rightarrow> ('k \<times> 'v) list" where
  "al_adjust k f xs = map (\<lambda>p. if fst p = k then (fst p, f (snd p)) else p) xs"

lemma set_al_insert_keys: "fst ` set (al_insert k v xs) = insert k (fst ` set xs)"
  by (induction k v xs rule: al_insert.induct) auto

lemma al_insert_sorted:
  "sorted_wrt (<) (map fst xs) \<Longrightarrow> sorted_wrt (<) (map fst (al_insert k v xs))"
proof (induction k v xs rule: al_insert.induct)
  case (2 k v a b xs)
  then show ?case
    using set_al_insert_keys [of k v xs] by (auto simp: image_iff)
qed simp

lemma al_remove_sorted:
  "sorted_wrt (<) (map fst xs) \<Longrightarrow> sorted_wrt (<) (map fst (al_remove k xs))"
  unfolding al_remove_def by (induction xs) auto

lemma al_adjust_keys: "map fst (al_adjust k f xs) = map fst xs"
  by (simp add: al_adjust_def)

lemma map_of_al_insert: "map_of (al_insert k v xs) = (map_of xs)(k \<mapsto> v)"
  by (induction k v xs rule: al_insert.induct) (auto simp: fun_eq_iff)

lemma map_of_al_remove: "map_of (al_remove k xs) = (map_of xs)(k := None)"
  unfolding al_remove_def by (induction xs) (auto simp: fun_eq_iff)

lemma map_of_al_adjust:
  "map_of (al_adjust k f xs) = (map_of xs)(k := map_option f (map_of xs k))"
  unfolding al_adjust_def by (induction xs) (auto simp: fun_eq_iff)

lemma sorted_keys_map_of_inject:
  fixes xs ys :: "('k::linorder \<times> 'v) list"
  assumes "sorted_wrt (<) (map fst xs)" and "sorted_wrt (<) (map fst ys)"
    and "map_of xs = map_of ys"
  shows "xs = ys"
proof -
  have d: "distinct (map fst xs)" "distinct (map fst ys)"
    and so: "sorted (map fst xs)" "sorted (map fst ys)"
    using assms(1,2) by (auto simp: strict_sorted_iff)
  have eq: "set xs = set ys"
    using d assms(3) by (metis map_of_eq_Some_iff subrelI subset_antisym)
  have "inj_on fst (set xs \<union> set ys)"
    using d eq by (simp add: distinct_map)
  then show ?thesis
    using d so eq by (metis map_sorted_distinct_set_unique)
qed

typedef (overloaded) ('k::linorder, 'v) btree_map =
  "{xs :: ('k \<times> 'v) list. sorted_wrt (<) (map fst xs)}"
  morphisms bt_entries Btree
  by (rule exI [of _ "[]"]) simp

setup_lifting type_definition_btree_map

lift_definition bt_empty :: "('k::linorder, 'v) btree_map" is "[]"
  by simp

lift_definition bt_insert :: "'k::linorder \<Rightarrow> 'v \<Rightarrow> ('k, 'v) btree_map \<Rightarrow> ('k, 'v) btree_map"
  is al_insert
  by (rule al_insert_sorted)

lift_definition bt_remove :: "'k::linorder \<Rightarrow> ('k, 'v) btree_map \<Rightarrow> ('k, 'v) btree_map"
  is al_remove
  by (rule al_remove_sorted)

lift_definition bt_adjust ::
  "'k::linorder \<Rightarrow> ('v \<Rightarrow> 'v) \<Rightarrow> ('k, 'v) btree_map \<Rightarrow> ('k, 'v) btree_map"
  is al_adjust
  by (simp add: al_adjust_keys)

definition bt_get :: "('k::linorder, 'v) btree_map \<Rightarrow> 'k \<Rightarrow> 'v option" where
  "bt_get m = map_of (bt_entries m)"

definition bt_contains :: "('k::linorder, 'v) btree_map \<Rightarrow> 'k \<Rightarrow> bool" where
  "bt_contains m k \<longleftrightarrow> bt_get m k \<noteq> None"

definition bt_keys :: "('k::linorder, 'v) btree_map \<Rightarrow> 'k list" where
  "bt_keys m = map fst (bt_entries m)"

definition bt_values :: "('k::linorder, 'v) btree_map \<Rightarrow> 'v list" where
  "bt_values m = map snd (bt_entries m)"

definition bt_len :: "('k::linorder, 'v) btree_map \<Rightarrow> usize" where
  "bt_len m = length (bt_entries m)"

definition bt_is_empty :: "('k::linorder, 'v) btree_map \<Rightarrow> bool" where
  "bt_is_empty m \<longleftrightarrow> bt_entries m = []"

text \<open>Keys are compared by their order alone, so that equality needs no more of them.\<close>

instantiation btree_map :: (linorder, equal) equal
begin

definition equal_btree_map :: "('a, 'b) btree_map \<Rightarrow> ('a, 'b) btree_map \<Rightarrow> bool" where
  "equal_btree_map m n \<longleftrightarrow>
    list_all2 (\<lambda>(k, v) (k', v'). k \<le> k' \<and> k' \<le> k \<and> v = v') (bt_entries m) (bt_entries n)"

instance
proof
  fix m n :: "('a, 'b) btree_map"
  have "(\<lambda>(k, v) (k', v'). k \<le> k' \<and> k' \<le> k \<and> v = v') = ((=) :: 'a \<times> 'b \<Rightarrow> _)"
    by (auto simp: fun_eq_iff)
  then show "HOL.equal m n \<longleftrightarrow> m = n"
    by (simp add: equal_btree_map_def bt_entries_inject list.rel_eq)
qed

end

subsection \<open>The interface of an ordered map\<close>

text \<open>
  What the clients of a \<^verbatim>\<open>BTreeMap\<close> rely on: what a lookup returns after
  each update, and that iteration lists every entry once, in key order. The facts
  below follow from these laws alone.
\<close>

locale ordered_map =
  fixes empty_map :: 'm
    and insert_map :: "'k::linorder \<Rightarrow> 'v \<Rightarrow> 'm \<Rightarrow> 'm"
    and remove_map :: "'k \<Rightarrow> 'm \<Rightarrow> 'm"
    and get_map :: "'m \<Rightarrow> 'k \<Rightarrow> 'v option"
    and entries_map :: "'m \<Rightarrow> ('k \<times> 'v) list"
  assumes get_empty: "get_map empty_map k = None"
    and get_insert: "get_map (insert_map k v m) k' = (if k' = k then Some v else get_map m k')"
    and get_remove: "get_map (remove_map k m) k' = (if k' = k then None else get_map m k')"
    and get_entries: "get_map m k = map_of (entries_map m) k"
    and entries_sorted: "sorted_wrt (<) (map fst (entries_map m))"
begin

lemma keys_distinct: "distinct (map fst (entries_map m))"
  using entries_sorted [of m] by (simp add: strict_sorted_iff)

lemma in_entries_iff: "(k, v) \<in> set (entries_map m) \<longleftrightarrow> get_map m k = Some v"
  using keys_distinct [of m] by (simp add: get_entries)

lemma entries_eqI: "(\<And>k. get_map m k = get_map n k) \<Longrightarrow> entries_map m = entries_map n"
  using entries_sorted by (intro sorted_keys_map_of_inject ext) (simp_all flip: get_entries)

lemma keys_set: "set (map fst (entries_map m)) = {k. get_map m k \<noteq> None}"
  by (auto simp: get_entries map_of_eq_None_iff image_iff)

lemma values_set: "set (map snd (entries_map m)) = {v. \<exists>k. get_map m k = Some v}"
  by (force simp: in_entries_iff [symmetric])

lemma entries_empty: "entries_map empty_map = []"
proof -
  have "set (map fst (entries_map empty_map)) = {}"
    by (simp only: keys_set get_empty) simp
  then show ?thesis by simp
qed

lemma length_entries: "length (entries_map m) = card {k. get_map m k \<noteq> None}"
  using distinct_card [OF keys_distinct [of m]] by (simp only: keys_set length_map)

lemma finite_keys: "finite {k. get_map m k \<noteq> None}"
  using keys_set [of m] by (metis List.finite_set)

lemma length_insert:
  "length (entries_map (insert_map k v m)) =
    (if get_map m k = None then Suc (length (entries_map m)) else length (entries_map m))"
proof -
  have "{j. get_map (insert_map k v m) j \<noteq> None} = insert k {j. get_map m j \<noteq> None}"
    by (auto simp: get_insert)
  then have "length (entries_map (insert_map k v m)) =
      card (insert k {j. get_map m j \<noteq> None})"
    by (simp only: length_entries)
  also have "\<dots> = (if get_map m k = None then Suc (card {j. get_map m j \<noteq> None})
      else card {j. get_map m j \<noteq> None})"
    using finite_keys [of m] by (simp add: card_insert_if)
  finally show ?thesis by (simp only: length_entries)
qed

lemma map_of_rev_entries: "map_of (rev (entries_map m)) k = get_map m k"
proof -
  have "distinct (map fst (rev (entries_map m)))" using keys_distinct by (simp flip: rev_map)
  then have "map_of (rev (entries_map m)) k = Some v \<longleftrightarrow> get_map m k = Some v" for v
    using in_entries_iff [of k v m] by simp
  then show ?thesis by (metis not_None_eq)
qed

text \<open>Inserting a list of entries one after the other, the last one of a key wins.\<close>

lemma get_fold_insert:
  "get_map (fold (\<lambda>(k, v). insert_map k v) xs m) k =
    (case map_of (rev xs) k of Some v \<Rightarrow> Some v | None \<Rightarrow> get_map m k)"
  by (induction xs arbitrary: m)
    (auto simp: get_insert map_add_def split: option.splits)

end

lemma bt_entries_sorted: "sorted_wrt (<) (map fst (bt_entries m))"
  using bt_entries [of m] by simp

interpretation bt: ordered_map bt_empty bt_insert bt_remove bt_get bt_entries
  by unfold_locales
    (simp_all add: bt_get_def bt_empty.rep_eq bt_insert.rep_eq bt_remove.rep_eq
      map_of_al_insert map_of_al_remove bt_entries_sorted)

lemmas bt_get_simps [simp] = bt.get_empty bt.get_insert bt.get_remove

lemma bt_get_adjust [simp]:
  "bt_get (bt_adjust k f m) k' = (if k' = k then map_option f (bt_get m k) else bt_get m k')"
  by (simp add: bt_get_def bt_adjust.rep_eq map_of_al_adjust)

lemma bt_ext: "(\<And>k. bt_get m k = bt_get n k) \<Longrightarrow> m = n"
  by (metis bt.entries_eqI bt_entries_inject)

lemma bt_eq_iff: "m = n \<longleftrightarrow> (\<forall>k. bt_get m k = bt_get n k)"
  by (auto intro: bt_ext)

lemma bt_keys_adjust [simp]: "bt_keys (bt_adjust k f m) = bt_keys m"
  by (simp add: bt_keys_def bt_adjust.rep_eq al_adjust_keys)

lemma bt_is_empty_iff [simp]: "bt_is_empty m \<longleftrightarrow> m = bt_empty"
  by (metis bt_entries_inject bt_is_empty_def bt_empty.rep_eq)

lemma bt_len_insert:
  "bt_len (bt_insert k v m) = (if bt_get m k = None then Suc (bt_len m) else bt_len m)"
  by (simp add: bt_len_def bt.length_insert)

lemma bt_insert_remove [simp]: "bt_insert k v (bt_remove k m) = bt_insert k v m"
  by (rule bt_ext) simp

lemma bt_remove_insert_absent: "bt_get m k = None \<Longrightarrow> bt_remove k (bt_insert k v m) = m"
  by (rule bt_ext) simp

lemma bt_entries_simps [bt_simps]:
  "bt_entries bt_empty = []"
  "bt_entries (bt_insert k v m) = al_insert k v (bt_entries m)"
  "bt_entries (bt_remove k m) = al_remove k (bt_entries m)"
  "bt_entries (bt_adjust k f m) = al_adjust k f (bt_entries m)"
  by (simp_all add: bt_empty.rep_eq bt_insert.rep_eq bt_remove.rep_eq bt_adjust.rep_eq)

lemma bt_keys_set: "k \<in> set (bt_keys m) \<longleftrightarrow> bt_get m k \<noteq> None"
  unfolding bt_keys_def by (simp only: bt.keys_set mem_Collect_eq)

lemma bt_keys_sorted: "sorted_wrt (<) (bt_keys m)"
  by (simp add: bt_keys_def bt_entries_sorted)

lemma bt_values_set: "v \<in> set (bt_values m) \<longleftrightarrow> (\<exists>k. bt_get m k = Some v)"
  unfolding bt_values_def by (simp only: bt.values_set mem_Collect_eq)

lemma bt_keys_empty_iff: "bt_keys m = [] \<longleftrightarrow> m = bt_empty"
  by (simp add: bt_keys_def flip: bt_is_empty_iff bt_is_empty_def)

lemma length_bt_keys [simp]: "length (bt_keys m) = bt_len m"
  by (simp add: bt_keys_def bt_len_def)

lemma bt_values_via_keys: "bt_values m = map (\<lambda>k. the (bt_get m k)) (bt_keys m)"
  using bt.in_entries_iff [of _ _ m] by (auto simp: bt_values_def bt_keys_def)

text \<open>Sums over the values of a map change at the updated key only.\<close>

lemma al_insert_sum:
  fixes f :: "'v \<Rightarrow> nat"
  assumes "sorted_wrt (<) (map fst xs)"
  shows "sum_list (map (f \<circ> snd) (al_insert k v xs)) +
      (case map_of xs k of Some w \<Rightarrow> f w | None \<Rightarrow> 0) =
    sum_list (map (f \<circ> snd) xs) + f v"
  using assms
proof (induction k v xs rule: al_insert.induct)
  case (2 k v a b xs)
  have "map_of xs k = None" if "k < a"
    using 2(2) that by (auto simp: map_of_eq_None_iff)
  moreover have "map_of xs k = None" if "k = a"
    using 2(2) that by (auto simp: map_of_eq_None_iff)
  ultimately show ?case
    using 2 by (cases "k < a"; cases "k = a") (auto split: option.splits)
qed simp

lemma bt_sum_insert:
  fixes f :: "'v \<Rightarrow> nat"
  shows "sum_list (map f (bt_values (bt_insert k v m))) +
      (case bt_get m k of Some w \<Rightarrow> f w | None \<Rightarrow> 0) =
    sum_list (map f (bt_values m)) + f v"
  using al_insert_sum [OF bt_entries_sorted [of m], of f k v]
  by (simp add: bt_values_def bt_get_def bt_insert.rep_eq)

lemma option_eqI: "(\<And>v. a = Some v \<longleftrightarrow> b = Some v) \<Longrightarrow> a = b"
  by (cases a; cases b) auto

lemma in_set_map_filter: "y \<in> set (List.map_filter f xs) \<longleftrightarrow> (\<exists>x \<in> set xs. f x = Some y)"
  by (force simp: List.map_filter_def)

lemma map_filter_concat: "List.map_filter f (xs @ ys) = List.map_filter f xs @ List.map_filter f ys"
  by (simp add: List.map_filter_def)

section \<open>Comparators and stable sorting\<close>

text \<open>
  \<^verbatim>\<open>std::cmp::Ordering\<close>, the order of a type as a comparator, and the
  lexicographic combination \<^verbatim>\<open>then_with\<close>. \<^verbatim>\<open>slice::sort_by\<close>
  is a stable sort: its result is determined by the comparator, and stable insertion
  computes it.
\<close>

datatype ordering = Less | Equal | Greater

definition cmp :: "'a::linorder \<Rightarrow> 'a \<Rightarrow> ordering" where
  "cmp a b = (if a < b then Less else if a = b then Equal else Greater)"

fun then_with :: "ordering \<Rightarrow> ordering \<Rightarrow> ordering" where
  "then_with Equal o2 = o2"
| "then_with o1 _ = o1"

fun insort_by :: "('a \<Rightarrow> 'a \<Rightarrow> ordering) \<Rightarrow> 'a \<Rightarrow> 'a list \<Rightarrow> 'a list" where
  "insort_by f x [] = [x]"
| "insort_by f x (y # ys) = (if f x y = Greater then y # insort_by f x ys else x # y # ys)"

definition sort_by :: "('a \<Rightarrow> 'a \<Rightarrow> ordering) \<Rightarrow> 'a list \<Rightarrow> 'a list" where
  "sort_by f xs = foldr (insort_by f) xs []"

fun reverse :: "ordering \<Rightarrow> ordering" where
  "reverse Less = Greater"
| "reverse Equal = Equal"
| "reverse Greater = Less"

lemma cmp_Greater: "cmp a b = Greater \<longleftrightarrow> b < a"
  and cmp_Equal: "cmp a b = Equal \<longleftrightarrow> a = b"
  and cmp_Less: "cmp a b = Less \<longleftrightarrow> a < b"
  by (auto simp: cmp_def)

lemmas cmp_simps = cmp_Greater cmp_Equal cmp_Less

lemma then_with_Greater:
  "then_with p q = Greater \<longleftrightarrow> p = Greater \<or> p = Equal \<and> q = Greater"
  by (cases p) simp_all

lemma then_with_Equal: "then_with p q = Equal \<longleftrightarrow> p = Equal \<and> q = Equal"
  by (cases p) simp_all

lemma mset_insort_by [simp]: "mset (insort_by f x xs) = add_mset x (mset xs)"
  by (induction xs) simp_all

lemma mset_sort_by [simp]: "mset (sort_by f xs) = mset xs"
  by (induction xs) (simp_all add: sort_by_def)

lemma set_sort_by [simp]: "set (sort_by f xs) = set xs"
  using mset_sort_by [of f xs] mset_eq_setD by blast

lemma length_sort_by [simp]: "length (sort_by f xs) = length xs"
  by (metis mset_sort_by size_mset)

lemma sort_by_key: "sort_by (\<lambda>a b. cmp (k a) (k b)) xs = sort_key k xs"
proof -
  have "insort_by (\<lambda>a b. cmp (k a) (k b)) x ys = insort_key k x ys" for x ys
    by (induction ys) (auto simp: cmp_simps)
  then have "insort_by (\<lambda>a b. cmp (k a) (k b)) = insort_key k" by (intro ext)
  then show ?thesis by (simp add: sort_by_def sort_key_def)
qed

text \<open>
  The contract of a comparator: swapping the arguments reverses the result, and not
  being greater is transitive.
\<close>

locale comparator =
  fixes comp :: "'a \<Rightarrow> 'a \<Rightarrow> ordering"
  assumes comp_flip: "comp y x = reverse (comp x y)"
    and comp_trans: "comp x y \<noteq> Greater \<Longrightarrow> comp y z \<noteq> Greater \<Longrightarrow> comp x z \<noteq> Greater"
begin

lemma comp_total: "comp x y = Greater \<Longrightarrow> comp y x \<noteq> Greater"
  by (simp add: comp_flip [of y x])

lemma comp_less_trans:
  assumes "comp x y = Less" and "comp y z \<noteq> Greater"
  shows "comp x z = Less"
proof (rule ccontr)
  assume "comp x z \<noteq> Less"
  moreover have "comp x z \<noteq> Greater"
    using comp_trans [of x y z] assms by simp
  ultimately have "comp z x \<noteq> Greater" by (cases "comp x z") (simp_all add: comp_flip [of z x])
  then have "comp y x \<noteq> Greater" using comp_trans assms(2) by blast
  then show False using assms(1) by (simp add: comp_flip [of y x])
qed

lemma comp_trans_less:
  assumes "comp x y \<noteq> Greater" and "comp y z = Less"
  shows "comp x z = Less"
proof (rule ccontr)
  assume "comp x z \<noteq> Less"
  moreover have "comp x z \<noteq> Greater"
    using comp_trans [of x y z] assms by simp
  ultimately have "comp z x \<noteq> Greater" by (cases "comp x z") (simp_all add: comp_flip [of z x])
  then have "comp z y \<noteq> Greater" using comp_trans assms(1) by blast
  then show False using assms(2) by (simp add: comp_flip [of z y])
qed

lemma sort_by_sorted: "sorted_wrt (\<lambda>a b. comp a b \<noteq> Greater) (sort_by comp xs)"
proof -
  have "sorted_wrt (\<lambda>a b. comp a b \<noteq> Greater) (insort_by comp x ys)"
    if "sorted_wrt (\<lambda>a b. comp a b \<noteq> Greater) ys" for x ys
    using that
  proof (induction ys)
    case (Cons y ys)
    have "set (insort_by comp x ys) = insert x (set ys)"
      using mset_insort_by [of comp x ys] by (metis set_mset_add_mset_insert set_mset_mset)
    moreover have "comp x z \<noteq> Greater" if "comp x y \<noteq> Greater" "z \<in> set ys" for z
      using comp_trans [OF that(1), of z] Cons.prems that(2) by simp
    ultimately show ?case
      using Cons comp_total [of x y] by (cases "comp x y = Greater") simp_all
  qed simp
  then show ?thesis by (induction xs) (simp_all add: sort_by_def)
qed

text \<open>Truncating a sorted list keeps the least elements.\<close>

lemma take_sort_least:
  assumes "x \<in> set (take n (sort_by comp xs))" and "y \<in> set (drop n (sort_by comp xs))"
  shows "comp x y \<noteq> Greater"
proof -
  have "sorted_wrt (\<lambda>a b. comp a b \<noteq> Greater)
      (take n (sort_by comp xs) @ drop n (sort_by comp xs))"
    by (simp add: sort_by_sorted)
  then show ?thesis using assms by (simp only: sorted_wrt_append) blast
qed

end

lemma cmp_reverse: "cmp b a = reverse (cmp a b)"
  by (auto simp: cmp_def)

lemma comparator_cmp: "comparator (\<lambda>x y. cmp (k x) (k y))"
  by unfold_locales (rule cmp_reverse, simp add: cmp_simps not_less)

lemma comparator_cmp_desc: "comparator (\<lambda>x y. cmp (k y) (k x))"
  by unfold_locales (rule cmp_reverse, simp add: cmp_simps not_less)

lemma comparator_then:
  assumes f: "comparator f" and g: "comparator g"
  shows "comparator (\<lambda>x y. then_with (f x y) (g x y))"
proof
  fix x y z
  show "then_with (f y x) (g y x) = reverse (then_with (f x y) (g x y))"
    by (cases "f x y")
      (simp_all add: comparator.comp_flip [OF f, of y x] comparator.comp_flip [OF g, of y x])
  assume xy: "then_with (f x y) (g x y) \<noteq> Greater" and yz: "then_with (f y z) (g y z) \<noteq> Greater"
  have fxy: "f x y \<noteq> Greater" and fyz: "f y z \<noteq> Greater"
    using xy yz by (auto simp: then_with_Greater)
  note less = comparator.comp_less_trans [OF f _ fyz] comparator.comp_trans_less [OF f fxy]
  have "f x z \<noteq> Greater" by (rule comparator.comp_trans [OF f fxy fyz])
  moreover have "g x z \<noteq> Greater" if "f x z = Equal"
  proof -
    have "f x y = Equal" "f y z = Equal"
      using that less fxy fyz by (cases "f x y"; cases "f y z"; force)+
    then show ?thesis
      using xy yz comparator.comp_trans [OF g] by (auto simp: then_with_Greater)
  qed
  ultimately show "then_with (f x z) (g x z) \<noteq> Greater" by (auto simp: then_with_Greater)
qed

section \<open>The end of a list\<close>

text \<open>What a ring buffer of \<open>n\<close> elements retains.\<close>

definition last_n :: "nat \<Rightarrow> 'a list \<Rightarrow> 'a list" where
  "last_n n xs = drop (length xs - n) xs"

lemma length_last_n [simp]: "length (last_n n xs) = min n (length xs)"
  by (simp add: last_n_def)

lemma last_n_push: "last_n n (last_n n xs @ [x]) = last_n n (xs @ [x])"
  by (cases "length xs < n") (auto simp: last_n_def Suc_diff_le)

lemma last_n_all: "length xs \<le> n \<Longrightarrow> last_n n xs = xs"
  by (simp add: last_n_def)

lemma last_n_Cons: "n \<le> length xs \<Longrightarrow> last_n n (x # xs) = last_n n xs"
  by (simp add: last_n_def Suc_diff_le)

section \<open>State machines driven by a sequence of inputs\<close>

text \<open>
  The components of the program are state machines: an actor that handles one
  command after the other, an engine that inserts one candidate after the other, a
  replay that applies one event after the other. The interface is a step function,
  an invariant and a start state; every run keeps the invariant, and so does every
  intermediate state of it.
\<close>

locale step_system =
  fixes step :: "'s \<Rightarrow> 'e \<Rightarrow> 's"
    and invar :: "'s \<Rightarrow> bool"
  assumes step_invar: "invar s \<Longrightarrow> invar (step s e)"
begin

lemma run_invar: "invar s \<Longrightarrow> invar (foldl step s es)"
  by (induction es arbitrary: s) (simp_all add: step_invar)

lemma run_prefix_invar: "invar s \<Longrightarrow> invar (foldl step s (take n es))"
  by (rule run_invar)

end

locale started_system = step_system step invar
  for step :: "'s \<Rightarrow> 'e \<Rightarrow> 's" and invar :: "'s \<Rightarrow> bool" +
  fixes init :: 's
  assumes init_invar: "invar init"
begin

lemma reachable_invar: "invar (foldl step init es)"
  by (rule run_invar [OF init_invar])

end

section \<open>State-threading iteration\<close>

text \<open>
  An iterator whose closure mutates captured state (\<^verbatim>\<open>into_iter().map(..)\<close>
  over \<^verbatim>\<open>&mut self\<close>), or a loop that collects one result per element.
\<close>

fun map_state :: "('s \<Rightarrow> 'a \<Rightarrow> 'b \<times> 's) \<Rightarrow> 's \<Rightarrow> 'a list \<Rightarrow> 'b list \<times> 's" where
  "map_state f s [] = ([], s)"
| "map_state f s (x # xs) =
     (let (y, s') = f s x; (ys, s'') = map_state f s' xs in (y # ys, s''))"

lemma map_state_Cons [simp]:
  "fst (map_state f s (x # xs)) = fst (f s x) # fst (map_state f (snd (f s x)) xs)"
  "snd (map_state f s (x # xs)) = snd (map_state f (snd (f s x)) xs)"
  by (simp_all add: case_prod_unfold Let_def)

declare map_state.simps(2) [simp del]

lemma length_map_state [simp]: "length (fst (map_state f s xs)) = length xs"
  by (induction xs arbitrary: s) simp_all

lemma snd_map_state: "snd (map_state f s xs) = foldl (\<lambda>s x. snd (f s x)) s xs"
  by (induction xs arbitrary: s) simp_all

text \<open>
  Functional refinement: a concrete step function with replies implements an abstract
  one when, on states that satisfy the invariant, the abstracted reply and the
  abstracted next state are those of the abstract step. Then whole runs agree, reply by
  reply.
\<close>

locale simulation =
  fixes cstep :: "'s \<Rightarrow> 'e \<Rightarrow> 'r \<times> 's"
    and astep :: "'a \<Rightarrow> 'e \<Rightarrow> 'q \<times> 'a"
    and invar :: "'s \<Rightarrow> bool"
    and abs :: "'s \<Rightarrow> 'a"
    and abs_reply :: "'r \<Rightarrow> 'q"
  assumes sim_invar: "invar s \<Longrightarrow> invar (snd (cstep s e))"
    and sim_reply: "invar s \<Longrightarrow> abs_reply (fst (cstep s e)) = fst (astep (abs s) e)"
    and sim_state: "invar s \<Longrightarrow> abs (snd (cstep s e)) = snd (astep (abs s) e)"
begin

lemma run_refines:
  "invar s \<Longrightarrow>
    map abs_reply (fst (map_state cstep s es)) = fst (map_state astep (abs s) es) \<and>
    abs (snd (map_state cstep s es)) = snd (map_state astep (abs s) es)"
  by (induction es arbitrary: s) (simp_all add: sim_invar sim_reply sim_state)

end

text \<open>
  The interface of a source of sequence ids: every element issued carries the
  current id and moves the source to the next one, as long as the 64-bit space is
  not exhausted. A run of such a source numbers its elements consecutively.
\<close>

locale id_source =
  fixes issue :: "'s \<Rightarrow> 'a \<Rightarrow> 'b \<times> 's"
    and id_of :: "'b \<Rightarrow> u64"
    and next_id :: "'s \<Rightarrow> u64"
  assumes issue_id: "id_of (fst (issue s a)) = next_id s"
    and issue_next: "unat (next_id s) + 1 < 2 ^ 64 \<Longrightarrow> next_id (snd (issue s a)) = next_id s + 1"
begin

lemma issued_ids:
  "unat (next_id s) + length xs \<le> 2 ^ 64 \<Longrightarrow>
    map (\<lambda>e. unat (id_of e)) (fst (map_state issue s xs)) =
      [unat (next_id s)..<unat (next_id s) + length xs]"
proof (induction xs arbitrary: s)
  case (Cons x xs)
  show ?case
  proof (cases xs)
    case Nil
    then show ?thesis by (simp add: issue_id)
  next
    case (Cons y ys)
    let ?s = "snd (issue s x)"
    have room: "unat (next_id s) + 1 < 2 ^ 64"
      using Cons.prems \<open>xs = y # ys\<close> by simp
    then have nx: "unat (next_id ?s) = unat (next_id s) + 1"
      by (simp add: issue_next unat_word_ariths)
    have "map (\<lambda>e. unat (id_of e)) (fst (map_state issue ?s xs)) =
        [unat (next_id ?s)..<unat (next_id ?s) + length xs]"
      using Cons.prems nx by (intro Cons.IH) simp
    moreover have "[unat (next_id s)..<unat (next_id s) + length (x # xs)] =
        unat (next_id s) # [unat (next_id ?s)..<unat (next_id ?s) + length xs]"
      by (simp add: nx upt_conv_Cons del: upt_Suc)
    ultimately show ?thesis
      by (simp only: map_state_Cons issue_id list.map)
  qed
qed simp

lemma issued_ids_increasing:
  assumes "unat (next_id s) + length xs \<le> 2 ^ 64"
  shows "sorted_wrt (<) (map id_of (fst (map_state issue s xs)))"
proof -
  have "sorted_wrt (<) (map unat (map id_of (fst (map_state issue s xs))))"
    using issued_ids [OF assms] by (simp add: comp_def)
  then show ?thesis
    by (simp add: sorted_wrt_map word_less_nat_alt)
qed

lemma issued_ids_fresh:
  assumes "unat (next_id s) + length xs \<le> 2 ^ 64"
    and "e \<in> set (fst (map_state issue s xs))"
  shows "next_id s \<le> id_of e"
proof -
  have "unat (id_of e) \<in> set (map (\<lambda>e. unat (id_of e)) (fst (map_state issue s xs)))"
    using assms(2) by simp
  then show ?thesis
    using issued_ids [OF assms(1)] by (simp add: word_le_nat_alt)
qed

end

section \<open>Results\<close>

text \<open>\<^verbatim>\<open>ok_or\<close>, the operator \<^verbatim>\<open>?\<close>, and collecting the results of a list.\<close>

definition ok_or :: "'a option \<Rightarrow> 'e \<Rightarrow> 'e + 'a" where
  "ok_or x e = (case x of None \<Rightarrow> Inl e | Some v \<Rightarrow> Inr v)"

definition result_bind :: "'e + 'a \<Rightarrow> ('a \<Rightarrow> 'e + 'b) \<Rightarrow> 'e + 'b" where
  "result_bind r f = (case r of Inl e \<Rightarrow> Inl e | Inr x \<Rightarrow> f x)"

fun map_result :: "('a \<Rightarrow> 'e + 'b) \<Rightarrow> 'a list \<Rightarrow> 'e + 'b list" where
  "map_result f [] = Inr []"
| "map_result f (x # xs) = result_bind (f x) (\<lambda>y. result_bind (map_result f xs) (\<lambda>ys. Inr (y # ys)))"

lemma result_bind_simps [simp]:
  "result_bind (Inl e) f = Inl e" "result_bind (Inr x) f = f x"
  "ok_or None e = Inl e" "ok_or (Some v) e = Inr v"
  by (simp_all add: result_bind_def ok_or_def)

lemma result_bind_Inr: "result_bind r f = Inr y \<longleftrightarrow> (\<exists>x. r = Inr x \<and> f x = Inr y)"
  by (cases r) simp_all

lemma ok_or_Inr: "ok_or x e = Inr v \<longleftrightarrow> x = Some v"
  by (cases x) simp_all

lemma map_result_Inr: "map_result f xs = Inr ys \<longleftrightarrow> list_all2 (\<lambda>x y. f x = Inr y) xs ys"
  by (induction xs arbitrary: ys) (auto simp: result_bind_Inr list_all2_Cons1)

text \<open>A loop that stops at the first error (\<^verbatim>\<open>?\<close> inside a \<^verbatim>\<open>for\<close>).\<close>

fun fold_result :: "('s \<Rightarrow> 'a \<Rightarrow> 'e + 's) \<Rightarrow> 's \<Rightarrow> 'a list \<Rightarrow> 'e + 's" where
  "fold_result f s [] = Inr s"
| "fold_result f s (x # xs) =
     (case f s x of Inl e \<Rightarrow> Inl e | Inr s' \<Rightarrow> fold_result f s' xs)"

lemma fold_result_append:
  "fold_result f s (xs @ ys) =
    (case fold_result f s xs of Inl e \<Rightarrow> Inl e | Inr s' \<Rightarrow> fold_result f s' ys)"
  by (induction xs arbitrary: s) (auto split: sum.splits)

lemma fold_result_nested:
  "fold_result (\<lambda>s b. fold_result (f (key b)) s (items b)) s bs =
    fold_result (\<lambda>s (k, x). f k s x) s (concat (map (\<lambda>b. map (Pair (key b)) (items b)) bs))"
proof -
  have "fold_result (f k) s xs = fold_result (\<lambda>s (k, x). f k s x) s (map (Pair k) xs)" for k s xs
    by (induction xs arbitrary: s) (auto split: sum.splits)
  then show ?thesis
    by (induction bs arbitrary: s) (auto simp: fold_result_append split: sum.splits)
qed

lemma fold_result_invar:
  assumes "fold_result f s xs = Inr s'" and "I s"
    and "\<And>s x t. x \<in> set xs \<Longrightarrow> I s \<Longrightarrow> f s x = Inr t \<Longrightarrow> I t"
  shows "I s'"
  using assms
proof (induction xs arbitrary: s)
  case (Cons x xs)
  then obtain t where t: "f s x = Inr t" and r: "fold_result f t xs = Inr s'"
    by (auto split: sum.splits)
  have "I t" using Cons.prems(2,3) t by (metis list.set_intros(1))
  then show ?case using r Cons.prems(3) by (intro Cons.IH) auto
qed simp

end
