(* ===== verification/Common.thy ===== *)
theory Common
  imports Prelude
begin

text \<open>
  The crate \<^verbatim>\<open>common\<close> (\<^verbatim>\<open>src/crates/common/src/lib.rs\<close>): canonical
  identifiers, the string newtypes with their derived order, and the alert gate
  that turns a metric snapshot into booleans. The coverage ratio of the alert gate
  is computed in \<^verbatim>\<open>f64\<close>; that expression is a parameter of the model.
\<close>

section \<open>Identifiers\<close>

type_synonym TxHash = "256 word"
type_synonym BlockHash = "256 word"
type_synonym Address = "160 word"
type_synonym PeerId = string

datatype source_id = SourceId (source_str: string)
datatype candidate_id = CandidateId (candidate_str: string)
datatype strategy_id = StrategyId (strategy_str: string)

instantiation source_id :: linorder
begin

definition less_eq_source_id :: "source_id \<Rightarrow> source_id \<Rightarrow> bool" where
  "less_eq_source_id a b \<longleftrightarrow> source_str a \<le> source_str b"

definition less_source_id :: "source_id \<Rightarrow> source_id \<Rightarrow> bool" where
  "less_source_id a b \<longleftrightarrow> source_str a < source_str b"

instance
  by standard (auto simp: less_eq_source_id_def less_source_id_def source_id.expand)

end

instantiation candidate_id :: linorder
begin

definition less_eq_candidate_id :: "candidate_id \<Rightarrow> candidate_id \<Rightarrow> bool" where
  "less_eq_candidate_id a b \<longleftrightarrow> candidate_str a \<le> candidate_str b"

definition less_candidate_id :: "candidate_id \<Rightarrow> candidate_id \<Rightarrow> bool" where
  "less_candidate_id a b \<longleftrightarrow> candidate_str a < candidate_str b"

instance
  by standard (auto simp: less_eq_candidate_id_def less_candidate_id_def candidate_id.expand)

end

instantiation strategy_id :: linorder
begin

definition less_eq_strategy_id :: "strategy_id \<Rightarrow> strategy_id \<Rightarrow> bool" where
  "less_eq_strategy_id a b \<longleftrightarrow> strategy_str a \<le> strategy_str b"

definition less_strategy_id :: "strategy_id \<Rightarrow> strategy_id \<Rightarrow> bool" where
  "less_strategy_id a b \<longleftrightarrow> strategy_str a < strategy_str b"

instance
  by standard (auto simp: less_eq_strategy_id_def less_strategy_id_def strategy_id.expand)

end

section \<open>Alert gate\<close>

record alert_threshold_config =
  th_peer_churn_spike :: u32
  th_ingest_lag_ms :: u64
  th_decode_failure_rate_bps :: u16
  th_coverage_drop_percent :: u8
  th_storage_write_latency_ms :: u32
  th_clock_skew_ms :: u32
  th_queue_saturation_percent :: u8

definition default_alert_thresholds :: alert_threshold_config where
  "default_alert_thresholds =
     \<lparr>th_peer_churn_spike = 25, th_ingest_lag_ms = 500, th_decode_failure_rate_bps = 100,
      th_coverage_drop_percent = 40, th_storage_write_latency_ms = 250,
      th_clock_skew_ms = 150, th_queue_saturation_percent = 90\<rparr>"

record metric_snapshot =
  ms_peer_disconnects_total :: u64
  ms_ingest_lag_ms :: u64
  ms_tx_decode_fail_total :: u64
  ms_tx_decode_total :: u64
  ms_tx_per_sec_current :: u64
  ms_tx_per_sec_baseline :: u64
  ms_storage_write_latency_ms :: u32
  ms_clock_skew_ms :: u32
  ms_queue_depth_current :: u64
  ms_queue_depth_capacity :: u64

record alert_decisions =
  al_peer_churn :: bool
  al_ingest_lag :: bool
  al_decode_failure :: bool
  al_coverage_collapse :: bool
  al_storage_latency :: bool
  al_clock_skew :: bool
  al_queue_saturation :: bool

text \<open>
  \<open>coverage_f64 current baseline\<close> stands for the \<^verbatim>\<open>f64\<close> expression of the
  source (one minus the clamped ratio, times one hundred, rounded, cast to
  \<^verbatim>\<open>u8\<close>), evaluated only for a non-zero baseline. The multiplication of the
  decode counters is the wrapping one of a release build; the casts truncate.
\<close>

definition evaluate_alerts ::
  "(u64 \<Rightarrow> u64 \<Rightarrow> u8) \<Rightarrow> metric_snapshot \<Rightarrow> alert_threshold_config \<Rightarrow> alert_decisions" where
  "evaluate_alerts coverage_f64 snapshot thresholds =
     (let decode_failure_bps =
            (if ms_tx_decode_total snapshot = 0 then 0
             else (ucast ((ms_tx_decode_fail_total snapshot * 10000)
                     div ms_tx_decode_total snapshot) :: u16));
          coverage_drop_percent =
            (if ms_tx_per_sec_baseline snapshot = 0 then 0
             else coverage_f64 (ms_tx_per_sec_current snapshot) (ms_tx_per_sec_baseline snapshot));
          queue_saturation_percent =
            (if ms_queue_depth_capacity snapshot = 0 then 0
             else (ucast (sat_mul (ms_queue_depth_current snapshot) 100
                     div ms_queue_depth_capacity snapshot) :: u8))
      in \<lparr>al_peer_churn =
            ms_peer_disconnects_total snapshot \<ge> ucast (th_peer_churn_spike thresholds),
          al_ingest_lag = ms_ingest_lag_ms snapshot \<ge> th_ingest_lag_ms thresholds,
          al_decode_failure = decode_failure_bps \<ge> th_decode_failure_rate_bps thresholds,
          al_coverage_collapse = coverage_drop_percent \<ge> th_coverage_drop_percent thresholds,
          al_storage_latency =
            ms_storage_write_latency_ms snapshot \<ge> th_storage_write_latency_ms thresholds,
          al_clock_skew = ms_clock_skew_ms snapshot \<ge> th_clock_skew_ms thresholds,
          al_queue_saturation =
            queue_saturation_percent \<ge> th_queue_saturation_percent thresholds\<rparr>)"

end
