(* ===== verification/Event_Log.thy ===== *)
theory Event_Log
  imports Common "HOL-Library.Multiset"
begin

text \<open>
  The crate \<^verbatim>\<open>event-log\<close> (\<^verbatim>\<open>src/crates/event-log/src/lib.rs\<close>): the
  payload structs and the payload enum, the event envelope with its deterministic
  order key, the canonical sort, and the global sequencer. A field \<open>f\<close> of a Rust
  struct is a record field with a prefix that names the struct.
\<close>

section \<open>Payloads\<close>

record tx_seen =
  seen_hash :: TxHash
  seen_peer_id :: PeerId
  seen_at_unix_ms :: i64
  seen_at_mono_ns :: u64

record tx_fetched =
  fetched_hash :: TxHash
  fetched_at_unix_ms :: i64

record tx_decoded =
  dec_hash :: TxHash
  dec_tx_type :: u8
  dec_sender :: Address
  dec_nonce :: u64
  dec_chain_id :: "u64 option"
  dec_to :: "Address option"
  dec_value_wei :: "u128 option"
  dec_gas_limit :: "u64 option"
  dec_gas_price_wei :: "u128 option"
  dec_max_fee_per_gas_wei :: "u128 option"
  dec_max_priority_fee_per_gas_wei :: "u128 option"
  dec_max_fee_per_blob_gas_wei :: "u128 option"
  dec_calldata_len :: "u32 option"

record tx_ready =
  ready_hash :: TxHash
  ready_sender :: Address
  ready_nonce :: u64

record tx_blocked =
  blocked_hash :: TxHash
  blocked_sender :: Address
  blocked_nonce :: u64
  blocked_expected_nonce :: "u64 option"

record candidate_queued =
  cq_candidate_id :: string
  cq_tx_hash :: TxHash
  cq_member_tx_hashes :: "TxHash list"
  cq_chain_id :: "u64 option"
  cq_strategy :: string
  cq_score :: u32
  cq_protocol :: string
  cq_category :: string
  cq_feature_engine_version :: string
  cq_scorer_version :: string
  cq_strategy_version :: string
  cq_reasons :: "string list"
  cq_detected_unix_ms :: i64

record sim_dispatched =
  sd_candidate_id :: string
  sd_tx_hash :: TxHash
  sd_member_tx_hashes :: "TxHash list"
  sd_block_number :: u64

record opp_detected =
  od_hash :: TxHash
  od_strategy :: string
  od_score :: u32
  od_protocol :: string
  od_category :: string
  od_feature_engine_version :: string
  od_scorer_version :: string
  od_strategy_version :: string
  od_reasons :: "string list"

record sim_completed =
  sc_hash :: TxHash
  sc_sim_id :: string
  sc_status :: string
  sc_feature_engine_version :: string
  sc_scorer_version :: string
  sc_strategy_version :: string
  sc_fail_category :: "string option"
  sc_latency_ms :: "u64 option"
  sc_tx_count :: "u32 option"

record assembly_decision_applied =
  ada_candidate_id :: string
  ada_tx_hash :: TxHash
  ada_decision :: string
  ada_replaced_candidate_ids :: "string list"
  ada_reason :: "string option"
  ada_block_number :: u64

record bundle_submitted =
  bs_hash :: TxHash
  bs_bundle_id :: string
  bs_sim_id :: string
  bs_relay :: string
  bs_accepted :: bool
  bs_feature_engine_version :: string
  bs_scorer_version :: string
  bs_strategy_version :: string

record tx_replaced =
  replaced_hash :: TxHash
  replaced_by :: TxHash

record tx_dropped =
  dropped_hash :: TxHash
  dropped_reason :: string

record tx_confirmed =
  confirmed_hash :: TxHash
  confirmed_block_number :: u64
  confirmed_block_hash :: BlockHash

record tx_reorged =
  reorged_hash :: TxHash
  reorged_old_block_hash :: BlockHash
  reorged_new_block_hash :: BlockHash

datatype event_payload =
    TxSeen tx_seen
  | TxFetched tx_fetched
  | TxDecoded tx_decoded
  | TxReady tx_ready
  | TxBlocked tx_blocked
  | CandidateQueued candidate_queued
  | SimDispatched sim_dispatched
  | OppDetected opp_detected
  | SimCompleted sim_completed
  | AssemblyDecisionApplied assembly_decision_applied
  | BundleSubmitted bundle_submitted
  | TxReplaced tx_replaced
  | TxDropped tx_dropped
  | TxConfirmedProvisional tx_confirmed
  | TxConfirmedFinal tx_confirmed
  | TxReorged tx_reorged

fun primary_hash :: "event_payload \<Rightarrow> TxHash" where
  "primary_hash (TxSeen e) = seen_hash e"
| "primary_hash (TxFetched e) = fetched_hash e"
| "primary_hash (TxDecoded e) = dec_hash e"
| "primary_hash (TxReady e) = ready_hash e"
| "primary_hash (TxBlocked e) = blocked_hash e"
| "primary_hash (CandidateQueued e) = cq_tx_hash e"
| "primary_hash (SimDispatched e) = sd_tx_hash e"
| "primary_hash (OppDetected e) = od_hash e"
| "primary_hash (SimCompleted e) = sc_hash e"
| "primary_hash (AssemblyDecisionApplied e) = ada_tx_hash e"
| "primary_hash (BundleSubmitted e) = bs_hash e"
| "primary_hash (TxReplaced e) = replaced_hash e"
| "primary_hash (TxDropped e) = dropped_hash e"
| "primary_hash (TxConfirmedProvisional e) = confirmed_hash e"
| "primary_hash (TxConfirmedFinal e) = confirmed_hash e"
| "primary_hash (TxReorged e) = reorged_hash e"

section \<open>Envelopes and the deterministic order\<close>

record event_envelope =
  ee_seq_id :: u64
  ee_ingest_ts_unix_ms :: i64
  ee_ingest_ts_mono_ns :: u64
  ee_source_id :: source_id
  ee_payload :: event_payload

datatype event_order_key =
  EventOrderKey (ok_seq_id: u64) (ok_source_id: source_id) (ok_hash: TxHash)

text \<open>The derived order of the key: sequence id, then source, then hash.\<close>

instantiation event_order_key :: linorder
begin

definition less_event_order_key :: "event_order_key \<Rightarrow> event_order_key \<Rightarrow> bool" where
  "less_event_order_key a b \<longleftrightarrow>
     ok_seq_id a < ok_seq_id b \<or>
     ok_seq_id a = ok_seq_id b \<and>
       (ok_source_id a < ok_source_id b \<or>
        ok_source_id a = ok_source_id b \<and> ok_hash a < ok_hash b)"

definition less_eq_event_order_key :: "event_order_key \<Rightarrow> event_order_key \<Rightarrow> bool" where
  "less_eq_event_order_key a b \<longleftrightarrow> a < b \<or> (a :: event_order_key) = b"

instance
proof
  fix x y z :: event_order_key
  show "(x < y) = (x \<le> y \<and> \<not> y \<le> x)"
    by (auto simp: less_eq_event_order_key_def less_event_order_key_def)
  show "x \<le> x"
    by (simp add: less_eq_event_order_key_def)
  show "x \<le> y \<Longrightarrow> y \<le> z \<Longrightarrow> x \<le> z"
    by (auto simp: less_eq_event_order_key_def less_event_order_key_def)
  show "x \<le> y \<Longrightarrow> y \<le> x \<Longrightarrow> x = y"
    by (auto simp: less_eq_event_order_key_def less_event_order_key_def)
  show "x \<le> y \<or> y \<le> x"
    by (auto simp: less_eq_event_order_key_def less_event_order_key_def
        intro: event_order_key.expand)
qed

end

definition order_key :: "event_envelope \<Rightarrow> event_order_key" where
  "order_key e = EventOrderKey (ee_seq_id e) (ee_source_id e) (primary_hash (ee_payload e))"

definition cmp_deterministic :: "event_envelope \<Rightarrow> event_envelope \<Rightarrow> ordering" where
  "cmp_deterministic a b = cmp (order_key a) (order_key b)"

text \<open>\<^verbatim>\<open>slice::sort_by\<close> is a stable sort.\<close>

definition sort_deterministic :: "event_envelope list \<Rightarrow> event_envelope list" where
  "sort_deterministic events = sort_by cmp_deterministic events"

section \<open>Global sequencer\<close>

record global_sequencer =
  gs_next_seq_id :: u64

definition default_sequencer :: global_sequencer where
  "default_sequencer = \<lparr>gs_next_seq_id = 1\<rparr>"

definition from_latest_seq_id :: "u64 option \<Rightarrow> global_sequencer" where
  "from_latest_seq_id latest =
     \<lparr>gs_next_seq_id =
        max (sat_add (case latest of Some i \<Rightarrow> i | None \<Rightarrow> 0) 1) 1\<rparr>"

definition next_seq_id :: "global_sequencer \<Rightarrow> u64 \<times> global_sequencer" where
  "next_seq_id gs =
     (gs_next_seq_id gs, gs\<lparr>gs_next_seq_id := sat_add (gs_next_seq_id gs) 1\<rparr>)"

definition assign :: "global_sequencer \<Rightarrow> event_envelope \<Rightarrow> event_envelope \<times> global_sequencer" where
  "assign gs event =
     (let (i, gs') = next_seq_id gs in (event\<lparr>ee_seq_id := i\<rparr>, gs'))"

section \<open>Facts about the deterministic order\<close>

lemma sort_deterministic_key: "sort_deterministic es = sort_key order_key es"
  unfolding sort_deterministic_def cmp_deterministic_def [abs_def] by (rule sort_by_key)

lemma mset_sort_deterministic [simp]: "mset (sort_deterministic es) = mset es"
  by (simp add: sort_deterministic_def)

lemma set_sort_deterministic [simp]: "set (sort_deterministic es) = set es"
  by (simp add: sort_deterministic_def)

lemma length_sort_deterministic [simp]: "length (sort_deterministic es) = length es"
  by (simp add: sort_deterministic_def)

lemma sorted_sort_deterministic: "sorted (map order_key (sort_deterministic es))"
  by (simp add: sort_deterministic_key)

lemma sort_deterministic_seq_sorted: "sorted (map ee_seq_id (sort_deterministic es))"
  using sorted_sort_deterministic [of es]
  by (auto simp: sorted_wrt_map order_key_def less_eq_event_order_key_def
      less_event_order_key_def elim!: sorted_wrt_mono_rel [rotated])

text \<open>
  The canonical sort returns a permutation of its input in which no
  event is greater than a later one, and it is stable: events with the same order
  key keep their relative order.
\<close>

theorem sort_deterministic_correct:
  "mset (sort_deterministic es) = mset es \<and>
   sorted_wrt (\<lambda>a b. cmp_deterministic a b \<noteq> Greater) (sort_deterministic es) \<and>
   filter (\<lambda>e. order_key e = k) (sort_deterministic es) = filter (\<lambda>e. order_key e = k) es"
proof (intro conjI)
  show "sorted_wrt (\<lambda>a b. cmp_deterministic a b \<noteq> Greater) (sort_deterministic es)"
    using sorted_sort_deterministic [of es]
    by (simp add: sorted_wrt_map cmp_deterministic_def cmp_simps not_less)
  show "filter (\<lambda>e. order_key e = k) (sort_deterministic es) = filter (\<lambda>e. order_key e = k) es"
    unfolding sort_deterministic_key by (rule sort_key_stable)
qed simp

lemma sort_deterministic_unique:
  assumes "mset es = mset es'" and "distinct (map order_key es)"
  shows "sort_deterministic es = sort_deterministic es'"
proof -
  have s: "set es = set es'"
    using assms(1) by (rule mset_eq_setD)
  have "mset (map order_key es) = mset (map order_key es')"
    using assms(1) by simp
  then have d: "distinct (map order_key es')"
    using assms(2) mset_eq_imp_distinct_iff by blast
  have keys: "distinct (map order_key (sort_deterministic xs))" if "distinct (map order_key xs)"
    for xs using that
    by (metis mset_eq_imp_distinct_iff mset_map mset_sort_deterministic)
  have "inj_on order_key (set es)"
    using assms(2) by (simp add: distinct_map)
  then show ?thesis
    using s keys [OF d] keys [OF assms(2)] sorted_sort_deterministic
    by (intro map_sorted_distinct_set_unique [of order_key]) auto
qed

text \<open>
  Replay order does not depend on insertion order: two streams with the
  same events sort to the same list, provided no two events share an order key.
\<close>

theorem sort_deterministic_canonical:
  assumes "mset es = mset es'" and "distinct (map order_key es)"
  shows "sort_deterministic es = sort_deterministic es'"
  using assms by (rule sort_deterministic_unique)

section \<open>Facts about the sequencer\<close>

interpretation sequencer: id_source assign ee_seq_id gs_next_seq_id
proof
  fix s :: global_sequencer and a :: event_envelope
  show "ee_seq_id (fst (assign s a)) = gs_next_seq_id s"
    by (simp add: assign_def next_seq_id_def)
  assume "unat (gs_next_seq_id s) + 1 < 2 ^ 64"
  then show "gs_next_seq_id (snd (assign s a)) = gs_next_seq_id s + 1"
    by (simp add: assign_def next_seq_id_def sat_add_def)
qed

lemma from_latest_next:
  "unat l + 1 < 2 ^ 64 \<Longrightarrow> gs_next_seq_id (from_latest_seq_id (Some l)) = l + 1"
  by (simp add: from_latest_seq_id_def sat_add_def max_def word_le_nat_alt unat_word_ariths unat_0_iff)

text \<open>
  A sequencer that resumes after the latest stored id numbers a batch with
  strictly increasing ids, all greater than that id, as long as the 64-bit id space
  is not exhausted; so ids stay unique across a restart.
\<close>

theorem sequencer_resume_fresh:
  assumes "unat latest + length es < 2 ^ 64"
  shows "sorted_wrt (<)
      (latest # map ee_seq_id (fst (map_state assign (from_latest_seq_id (Some latest)) es)))"
proof (cases es)
  case (Cons e es')
  let ?gs = "from_latest_seq_id (Some latest)"
  have n: "gs_next_seq_id ?gs = latest + 1" and u: "unat (latest + 1) = unat latest + 1"
    using assms Cons by (auto simp: from_latest_next unat_word_ariths)
  then have room: "unat (gs_next_seq_id ?gs) + length es \<le> 2 ^ 64"
    using assms by simp
  have "latest < ee_seq_id x" if "x \<in> set (fst (map_state assign ?gs es))" for x
    using sequencer.issued_ids_fresh [OF room that] n u by (simp add: word_le_nat_alt word_less_nat_alt)
  then show ?thesis
    using sequencer.issued_ids_increasing [OF room] by simp
qed simp

text \<open>Events numbered one after the other from \<open>n\<close> on, in the arithmetic of the ids.\<close>

definition consecutive :: "u64 \<Rightarrow> event_envelope list \<Rightarrow> bool" where
  "consecutive n es \<longleftrightarrow> map ee_seq_id es = map (\<lambda>i. n + of_nat i) [0..<length es]"

lemma consecutive_Nil [simp]: "consecutive n []"
  by (simp add: consecutive_def)

lemma consecutive_single [simp]: "consecutive n [e] \<longleftrightarrow> ee_seq_id e = n"
  by (simp add: consecutive_def)

lemma consecutive_append:
  "consecutive n (es @ fs) \<longleftrightarrow> consecutive n es \<and> consecutive (n + of_nat (length es)) fs"
proof -
  have "[0..<length es + length fs] = [0..<length es] @ [length es..<length es + length fs]"
    using upt_add_eq_append [of 0 "length es" "length fs"] by simp
  moreover have "map (\<lambda>i. n + of_nat i) [length es..<length es + length fs] =
      map (\<lambda>i. n + of_nat (length es) + of_nat i) [0..<length fs]"
    by (intro nth_equalityI) (simp_all add: algebra_simps)
  ultimately show ?thesis
    by (auto simp: consecutive_def append_eq_append_conv)
qed

theorem sort_deterministic_canonical_witness:
  "\<exists>es es' :: event_envelope list. es \<noteq> es' \<and> mset es = mset es' \<and>
     distinct (map order_key es) \<and> sort_deterministic es = sort_deterministic es'"
proof -
  define f where "f = (\<lambda>n h. \<lparr>ee_seq_id = n, ee_ingest_ts_unix_ms = 0, ee_ingest_ts_mono_ns = 0,
    ee_source_id = SourceId ''peer-a'',
    ee_payload = TxFetched \<lparr>fetched_hash = h, fetched_at_unix_ms = 0\<rparr>\<rparr>)"
  have "distinct (map order_key [f 10 2, f 9 3])" and "[f 10 2, f 9 3] \<noteq> [f 9 3, f 10 2]"
    and "mset [f 10 2, f 9 3] = mset [f 9 3, f 10 2]"
    by (simp_all add: f_def order_key_def)
  then show ?thesis
    using sort_deterministic_canonical [of "[f 10 2, f 9 3]" "[f 9 3, f 10 2]"]
    by (intro exI [of _ "[f 10 2, f 9 3]"] exI [of _ "[f 9 3, f 10 2]"] conjI)
qed

theorem sequencer_resume_fresh_witness:
  "sorted_wrt (<) ((41::u64) # map ee_seq_id (fst (map_state assign (from_latest_seq_id (Some 41))
     (replicate 2 \<lparr>ee_seq_id = 0, ee_ingest_ts_unix_ms = 0, ee_ingest_ts_mono_ns = 0,
        ee_source_id = SourceId ''rpc'',
        ee_payload = TxFetched \<lparr>fetched_hash = 7, fetched_at_unix_ms = 0\<rparr>\<rparr>))))"
  by (rule sequencer_resume_fresh) simp

end
