(* ===== verification/Scheduler.thy ===== *)
theory Scheduler
  imports Event_Log
begin

text \<open>
  The crate \<^verbatim>\<open>scheduler\<close> (\<^verbatim>\<open>src/crates/scheduler/src/lib.rs\<close>): the
  data types, the mutable scheduler state and every operation on it. Facts about
  these definitions are in the theories \<open>Scheduler_Queue\<close>, \<open>Scheduler_Admission\<close>,
  \<open>Scheduler_Candidates\<close> and \<open>Scheduler_Rehydration\<close>.

  A method that takes \<^verbatim>\<open>&mut self\<close> is a function that returns its result
  together with the new state. \<^verbatim>\<open>Result\<close> is a sum with the error on the left.
\<close>

section \<open>Data\<close>

record validated_transaction =
  vt_source_id :: source_id
  vt_observed_at_unix_ms :: i64
  vt_observed_at_mono_ns :: u64
  vt_calldata :: "u8 list"
  vt_decoded :: tx_decoded

definition vt_hash :: "validated_transaction \<Rightarrow> TxHash" where
  "vt_hash tx = dec_hash (vt_decoded tx)"

record scheduler_config =
  cfg_handoff_queue_capacity :: usize
  cfg_max_pending_per_sender :: usize
  cfg_replacement_fee_bump_bps :: u16

datatype scheduler_config_error = HandoffQueueCapacityZero | MaxPendingPerSenderZero

datatype scheduler_snapshot_error =
    DuplicatePendingHash TxHash
  | MissingPendingTransaction TxHash
  | DuplicateSenderNonce Address u64
  | QueueEntryMismatch TxHash
  | ExecutableFrontierMismatch

datatype scheduler_init_error =
    ConfigError scheduler_config_error
  | SnapshotError scheduler_snapshot_error

definition default_scheduler_config :: scheduler_config where
  "default_scheduler_config =
     \<lparr>cfg_handoff_queue_capacity = 1024, cfg_max_pending_per_sender = 64,
      cfg_replacement_fee_bump_bps = 1000\<rparr>"

record scheduler_candidate =
  cand_candidate_id :: candidate_id
  cand_tx_hash :: TxHash
  cand_member_tx_hashes :: "TxHash list"
  cand_score :: u32
  cand_strategy :: strategy_id
  cand_detected_unix_ms :: i64

record simulation_task_spec =
  spec_candidate_id :: candidate_id
  spec_tx_hash :: TxHash
  spec_member_tx_hashes :: "TxHash list"
  spec_block_number :: u64
  spec_generation :: u64

record scheduler_candidate_dispatch =
  cd_simulation_tasks :: "simulation_task_spec list"

record scheduler_simulation_result =
  sr_candidate_id :: candidate_id
  sr_tx_hash :: TxHash
  sr_member_tx_hashes :: "TxHash list"
  sr_block_number :: u64
  sr_generation :: u64
  sr_approved :: bool

record scheduler_builder_handoff =
  bh_candidate :: scheduler_candidate
  bh_block_number :: u64

record scheduler_simulation_apply_outcome =
  sao_builder_handoffs :: "scheduler_builder_handoff list"
  sao_stale_result_drop_total :: u64

record sender_queue_snapshot =
  sqs_sender :: Address
  sqs_queued :: "validated_transaction list"

record persisted_sender_queue_entry =
  pe_nonce :: u64
  pe_hash :: TxHash

record persisted_sender_queue_snapshot =
  pq_sender :: Address
  pq_queued :: "persisted_sender_queue_entry list"

record persisted_scheduler_snapshot =
  ps_captured_at_unix_ms :: i64
  ps_captured_at_mono_ns :: u64
  ps_event_seq_hi :: u64
  ps_pending :: "validated_transaction list"
  ps_executable_frontier :: "TxHash list"
  ps_sender_queues :: "persisted_sender_queue_snapshot list"

record scheduler_snapshot =
  sn_pending :: "validated_transaction list"
  sn_ready :: "validated_transaction list"
  sn_blocked :: "validated_transaction list"
  sn_sender_queues :: "sender_queue_snapshot list"
  sn_candidates :: "scheduler_candidate list"

record scheduler_metrics =
  sm_admitted_total :: u64
  sm_duplicate_total :: u64
  sm_replacement_total :: u64
  sm_underpriced_replacement_total :: u64
  sm_sender_limit_drop_total :: u64
  sm_queue_full_drop_total :: u64
  sm_pending_total :: usize
  sm_ready_total :: usize
  sm_blocked_total :: usize
  sm_sender_total :: usize
  sm_stale_simulation_drop_total :: u64
  sm_queue_depth :: usize
  sm_queue_depth_peak :: usize
  sm_handoff_queue_capacity :: usize

datatype scheduler_admission =
    Admitted
  | Duplicate
  | Replaced TxHash
  | UnderpricedReplacement
  | SenderLimitReached

fun is_admitted :: "scheduler_admission \<Rightarrow> bool" where
  "is_admitted Admitted = True"
| "is_admitted (Replaced _) = True"
| "is_admitted _ = False"

datatype scheduler_queue_state = Ready | Blocked u64

record scheduler_queue_transition =
  qt_hash :: TxHash
  qt_sender :: Address
  qt_nonce :: u64
  qt_state :: scheduler_queue_state

record scheduler_admission_outcome =
  ao_admission :: scheduler_admission
  ao_queue_transitions :: "scheduler_queue_transition list"

datatype scheduler_enqueue_error = QueueFull | QueueClosed

record candidate_entry =
  ce_candidate :: scheduler_candidate
  ce_block_number :: u64
  ce_generation :: u64

record sender_queue_counts =
  qc_ready :: usize
  qc_blocked :: usize

record sender_queue_position =
  pos_hash :: TxHash
  pos_nonce :: u64
  pos_state :: scheduler_queue_state

type_synonym pending_map = "(TxHash, validated_transaction) btree_map"
type_synonym nonce_queue = "(u64, TxHash) btree_map"
type_synonym queue_map = "(Address, nonce_queue) btree_map"

record scheduler_state =
  ss_pending :: pending_map
  ss_sender_queues :: queue_map
  ss_sender_queue_counts :: "(Address, sender_queue_counts) btree_map"
  ss_candidates :: "(candidate_id, candidate_entry) btree_map"
  ss_head_block_number :: u64
  ss_admitted_total :: u64
  ss_duplicate_total :: u64
  ss_replacement_total :: u64
  ss_underpriced_replacement_total :: u64
  ss_sender_limit_drop_total :: u64
  ss_stale_simulation_drop_total :: u64
  ss_ready_total :: usize
  ss_blocked_total :: usize

definition default_scheduler_state :: scheduler_state where
  "default_scheduler_state =
     \<lparr>ss_pending = bt_empty, ss_sender_queues = bt_empty, ss_sender_queue_counts = bt_empty,
      ss_candidates = bt_empty, ss_head_block_number = 0, ss_admitted_total = 0,
      ss_duplicate_total = 0, ss_replacement_total = 0, ss_underpriced_replacement_total = 0,
      ss_sender_limit_drop_total = 0, ss_stale_simulation_drop_total = 0,
      ss_ready_total = 0, ss_blocked_total = 0\<rparr>"

definition zero_counts :: sender_queue_counts where
  "zero_counts = \<lparr>qc_ready = 0, qc_blocked = 0\<rparr>"

section \<open>Configuration and fees\<close>

definition validate_config :: "scheduler_config \<Rightarrow> scheduler_config_error + scheduler_config" where
  "validate_config config =
     (if cfg_handoff_queue_capacity config = 0 then Inl HandoffQueueCapacityZero
      else if cfg_max_pending_per_sender config = 0 then Inl MaxPendingPerSenderZero
      else Inr config)"

definition replacement_fee :: "u8 \<Rightarrow> u128 option \<Rightarrow> u128 option \<Rightarrow> u128" where
  "replacement_fee tx_type gas_price_wei max_fee_per_gas_wei =
     (if tx_type = 0 \<or> tx_type = 1
      then (case gas_price_wei of Some p \<Rightarrow> p | None \<Rightarrow> 0)
      else (case max_fee_per_gas_wei of
              Some f \<Rightarrow> f
            | None \<Rightarrow> (case gas_price_wei of Some p \<Rightarrow> p | None \<Rightarrow> 0)))"

definition replacement_threshold_fee :: "validated_transaction \<Rightarrow> u16 \<Rightarrow> u128" where
  "replacement_threshold_fee incumbent fee_bump_bps =
     (let current_fee = replacement_fee (dec_tx_type (vt_decoded incumbent))
            (dec_gas_price_wei (vt_decoded incumbent))
            (dec_max_fee_per_gas_wei (vt_decoded incumbent))
      in div_ceil (sat_mul current_fee (sat_add 10000 (ucast fee_bump_bps))) 10000)"

definition normalized_member_hashes :: "TxHash \<Rightarrow> TxHash list \<Rightarrow> TxHash list" where
  "normalized_member_hashes tx_hash members = (if members = [] then [tx_hash] else members)"

section \<open>Queue traversal\<close>

text \<open>
  The nonce-gap state machine; its state is the pair of the two mutable arguments
  \<open>next_executable_nonce\<close> and \<open>gap_seen\<close>.
\<close>

fun queue_entry_state ::
  "u64 option \<times> bool \<Rightarrow> u64 \<Rightarrow> scheduler_queue_state \<times> (u64 option \<times> bool)" where
  "queue_entry_state (None, gap_seen) nonce = (Ready, (checked_add nonce 1, gap_seen))"
| "queue_entry_state (Some expected, gap_seen) nonce =
     (if \<not> gap_seen \<and> nonce = expected
      then (Ready, (checked_add nonce 1, gap_seen))
      else (Blocked expected, (Some expected, True)))"

fun positions_loop ::
  "pending_map \<Rightarrow> u64 option \<times> bool \<Rightarrow> (u64 \<times> TxHash) list \<Rightarrow> sender_queue_position list" where
  "positions_loop pending gap [] = []"
| "positions_loop pending gap ((nonce, hash) # queue) =
     (if \<not> bt_contains pending hash then positions_loop pending gap queue
      else let (state, gap') = queue_entry_state gap nonce
           in \<lparr>pos_hash = hash, pos_nonce = nonce, pos_state = state\<rparr>
                # positions_loop pending gap' queue)"

definition sender_queue_positions :: "scheduler_state \<Rightarrow> Address \<Rightarrow> sender_queue_position list" where
  "sender_queue_positions st sender =
     (case bt_get (ss_sender_queues st) sender of
        None \<Rightarrow> []
      | Some queue \<Rightarrow> positions_loop (ss_pending st) (None, False) (bt_entries queue))"

fun counts_loop ::
  "pending_map \<Rightarrow> u64 option \<times> bool \<Rightarrow> usize \<times> usize \<Rightarrow> (u64 \<times> TxHash) list \<Rightarrow> usize \<times> usize" where
  "counts_loop pending gap (ready, blocked) [] = (ready, blocked)"
| "counts_loop pending gap (ready, blocked) ((nonce, hash) # queue) =
     (if \<not> bt_contains pending hash then counts_loop pending gap (ready, blocked) queue
      else (case queue_entry_state gap nonce of
              (Ready, gap') \<Rightarrow> counts_loop pending gap' (ready + 1, blocked) queue
            | (Blocked _, gap') \<Rightarrow> counts_loop pending gap' (ready, blocked + 1) queue))"

definition classify_sender_queue_counts :: "scheduler_state \<Rightarrow> nonce_queue \<Rightarrow> sender_queue_counts" where
  "classify_sender_queue_counts st queue =
     (let (ready, blocked) = counts_loop (ss_pending st) (None, False) (0, 0) (bt_entries queue)
      in \<lparr>qc_ready = ready, qc_blocked = blocked\<rparr>)"

fun classify_loop ::
  "pending_map \<Rightarrow> u64 option \<times> bool \<Rightarrow> validated_transaction list \<times> validated_transaction list
    \<Rightarrow> (u64 \<times> TxHash) list \<Rightarrow> validated_transaction list \<times> validated_transaction list" where
  "classify_loop pending gap (ready, blocked) [] = (ready, blocked)"
| "classify_loop pending gap (ready, blocked) ((nonce, hash) # queue) =
     (case bt_get pending hash of
        None \<Rightarrow> classify_loop pending gap (ready, blocked) queue
      | Some tx \<Rightarrow>
          (case queue_entry_state gap nonce of
             (Ready, gap') \<Rightarrow> classify_loop pending gap' (ready @ [tx], blocked) queue
           | (Blocked _, gap') \<Rightarrow> classify_loop pending gap' (ready, blocked @ [tx]) queue))"

definition classify_by_sender ::
  "scheduler_state \<Rightarrow> validated_transaction list \<times> validated_transaction list" where
  "classify_by_sender st =
     foldl (\<lambda>acc queue. classify_loop (ss_pending st) (None, False) acc (bt_entries queue))
       ([], []) (bt_values (ss_sender_queues st))"

fun frontier_loop ::
  "pending_map \<Rightarrow> u64 option \<times> bool \<Rightarrow> (u64 \<times> TxHash) list \<Rightarrow> TxHash list" where
  "frontier_loop pending gap [] = []"
| "frontier_loop pending gap ((nonce, hash) # queue) =
     (if \<not> bt_contains pending hash then frontier_loop pending gap queue
      else (case queue_entry_state gap nonce of
              (Ready, gap') \<Rightarrow> hash # frontier_loop pending gap' queue
            | (Blocked _, gap') \<Rightarrow> frontier_loop pending gap' queue))"

definition executable_frontier_hashes :: "scheduler_state \<Rightarrow> TxHash list" where
  "executable_frontier_hashes st =
     concat (map (\<lambda>queue. frontier_loop (ss_pending st) (None, False) (bt_entries queue))
       (bt_values (ss_sender_queues st)))"

section \<open>Incremental ready and blocked counts\<close>

definition refresh_sender_counts :: "scheduler_state \<Rightarrow> Address \<Rightarrow> scheduler_state" where
  "refresh_sender_counts st sender =
     (let previous = (case bt_get (ss_sender_queue_counts st) sender of
                        Some c \<Rightarrow> c | None \<Rightarrow> zero_counts);
          st1 = st\<lparr>ss_sender_queue_counts := bt_remove sender (ss_sender_queue_counts st),
                   ss_ready_total := ss_ready_total st - qc_ready previous,
                   ss_blocked_total := ss_blocked_total st - qc_blocked previous\<rparr>;
          next_counts = (case bt_get (ss_sender_queues st1) sender of
                    Some queue \<Rightarrow> classify_sender_queue_counts st1 queue
                  | None \<Rightarrow> zero_counts);
          st2 = (if qc_ready next_counts \<noteq> 0 \<or> qc_blocked next_counts \<noteq> 0
                 then st1\<lparr>ss_sender_queue_counts :=
                            bt_insert sender next_counts (ss_sender_queue_counts st1)\<rparr>
                 else st1)
      in st2\<lparr>ss_ready_total := ss_ready_total st2 + qc_ready next_counts,
             ss_blocked_total := ss_blocked_total st2 + qc_blocked next_counts\<rparr>)"

definition recompute_queue_counts :: "scheduler_state \<Rightarrow> scheduler_state" where
  "recompute_queue_counts st =
     foldl refresh_sender_counts
       (st\<lparr>ss_sender_queue_counts := bt_empty, ss_ready_total := 0, ss_blocked_total := 0\<rparr>)
       (bt_keys (ss_sender_queues st))"

section \<open>Admission\<close>

definition queue_transitions ::
  "scheduler_state \<Rightarrow> Address \<Rightarrow> sender_queue_position list \<Rightarrow> scheduler_queue_transition list" where
  "queue_transitions st sender previous_positions =
     (let previous_by_hash =
            fold (\<lambda>p. bt_insert (pos_hash p) (pos_state p)) previous_positions bt_empty
      in List.map_filter
           (\<lambda>p. if bt_get previous_by_hash (pos_hash p) = Some (pos_state p) then None
                else Some \<lparr>qt_hash = pos_hash p, qt_sender = sender,
                           qt_nonce = pos_nonce p, qt_state = pos_state p\<rparr>)
           (sender_queue_positions st sender))"

text \<open>\<^verbatim>\<open>sender_queues.entry(sender).or_default().insert(nonce, hash)\<close>\<close>

definition queue_insert :: "Address \<Rightarrow> u64 \<Rightarrow> TxHash \<Rightarrow> queue_map \<Rightarrow> queue_map" where
  "queue_insert sender nonce hash queues =
     bt_insert sender
       (bt_insert nonce hash
          (case bt_get queues sender of Some queue \<Rightarrow> queue | None \<Rightarrow> bt_empty)) queues"

definition admit ::
  "scheduler_state \<Rightarrow> validated_transaction \<Rightarrow> scheduler_config
    \<Rightarrow> scheduler_admission_outcome \<times> scheduler_state" where
  "admit st tx config =
     (let hash = vt_hash tx in
      if bt_contains (ss_pending st) hash then
        (\<lparr>ao_admission = Duplicate, ao_queue_transitions = []\<rparr>,
         st\<lparr>ss_duplicate_total := sat_add (ss_duplicate_total st) 1\<rparr>)
      else
        let sender = dec_sender (vt_decoded tx);
            nonce = dec_nonce (vt_decoded tx);
            previous_positions = sender_queue_positions st sender
        in case Option.bind (bt_get (ss_sender_queues st) sender) (\<lambda>queue. bt_get queue nonce) of
             Some incumbent_hash \<Rightarrow>
               (case bt_get (ss_pending st) incumbent_hash of
                  None \<Rightarrow>
                    let st1 = st\<lparr>ss_sender_queues :=
                                   queue_insert sender nonce hash (ss_sender_queues st),
                                 ss_pending := bt_insert hash tx (ss_pending st),
                                 ss_admitted_total := sat_add (ss_admitted_total st) 1\<rparr>;
                        st2 = refresh_sender_counts st1 sender
                    in (\<lparr>ao_admission = Admitted,
                         ao_queue_transitions = queue_transitions st2 sender previous_positions\<rparr>,
                        st2)
                | Some incumbent \<Rightarrow>
                    if replacement_fee (dec_tx_type (vt_decoded tx))
                         (dec_gas_price_wei (vt_decoded tx))
                         (dec_max_fee_per_gas_wei (vt_decoded tx))
                       \<ge> replacement_threshold_fee incumbent (cfg_replacement_fee_bump_bps config)
                    then
                      let st1 = st\<lparr>ss_sender_queues :=
                                     queue_insert sender nonce hash (ss_sender_queues st),
                                   ss_pending := bt_insert hash tx
                                     (bt_remove incumbent_hash (ss_pending st)),
                                   ss_admitted_total := sat_add (ss_admitted_total st) 1,
                                   ss_replacement_total := sat_add (ss_replacement_total st) 1\<rparr>;
                          st2 = refresh_sender_counts st1 sender
                      in (\<lparr>ao_admission = Replaced incumbent_hash,
                           ao_queue_transitions = queue_transitions st2 sender previous_positions\<rparr>,
                          st2)
                    else
                      (\<lparr>ao_admission = UnderpricedReplacement, ao_queue_transitions = []\<rparr>,
                       st\<lparr>ss_underpriced_replacement_total :=
                            sat_add (ss_underpriced_replacement_total st) 1\<rparr>))
           | None \<Rightarrow>
               (let sender_queue_len = (case bt_get (ss_sender_queues st) sender of
                                          Some queue \<Rightarrow> bt_len queue | None \<Rightarrow> 0)
                in if sender_queue_len \<ge> cfg_max_pending_per_sender config then
                     (\<lparr>ao_admission = SenderLimitReached, ao_queue_transitions = []\<rparr>,
                      st\<lparr>ss_sender_limit_drop_total := sat_add (ss_sender_limit_drop_total st) 1\<rparr>)
                   else
                     let st1 = st\<lparr>ss_sender_queues :=
                                    queue_insert sender nonce hash (ss_sender_queues st),
                                  ss_pending := bt_insert hash tx (ss_pending st),
                                  ss_admitted_total := sat_add (ss_admitted_total st) 1\<rparr>;
                         st2 = refresh_sender_counts st1 sender
                     in (\<lparr>ao_admission = Admitted,
                          ao_queue_transitions = queue_transitions st2 sender previous_positions\<rparr>,
                         st2)))"

section \<open>Candidates and simulation results\<close>

definition next_generation :: "u64 \<Rightarrow> u64" where
  "next_generation g = max (sat_add g 1) 1"

definition register_candidate ::
  "scheduler_state \<Rightarrow> scheduler_candidate \<Rightarrow> simulation_task_spec \<times> scheduler_state" where
  "register_candidate st candidate =
     (let generation = (case bt_get (ss_candidates st) (cand_candidate_id candidate) of
                          Some entry \<Rightarrow> next_generation (ce_generation entry) | None \<Rightarrow> 1);
          task = \<lparr>spec_candidate_id = cand_candidate_id candidate,
                  spec_tx_hash = cand_tx_hash candidate,
                  spec_member_tx_hashes =
                    normalized_member_hashes (cand_tx_hash candidate)
                      (cand_member_tx_hashes candidate),
                  spec_block_number = ss_head_block_number st,
                  spec_generation = generation\<rparr>
      in (task,
          st\<lparr>ss_candidates :=
               bt_insert (cand_candidate_id candidate)
                 \<lparr>ce_candidate = candidate, ce_block_number = ss_head_block_number st,
                  ce_generation = generation\<rparr> (ss_candidates st)\<rparr>))"

definition register_candidates ::
  "scheduler_state \<Rightarrow> scheduler_candidate list \<Rightarrow> scheduler_candidate_dispatch \<times> scheduler_state" where
  "register_candidates st candidates =
     (let (tasks, st') = map_state register_candidate st candidates
      in (\<lparr>cd_simulation_tasks = tasks\<rparr>, st'))"

definition record_stale_simulation_result ::
  "scheduler_state \<Rightarrow> scheduler_simulation_apply_outcome \<times> scheduler_state" where
  "record_stale_simulation_result st =
     (\<lparr>sao_builder_handoffs = [], sao_stale_result_drop_total = 1\<rparr>,
      st\<lparr>ss_stale_simulation_drop_total := sat_add (ss_stale_simulation_drop_total st) 1\<rparr>)"

definition apply_simulation_result ::
  "scheduler_state \<Rightarrow> scheduler_simulation_result
    \<Rightarrow> scheduler_simulation_apply_outcome \<times> scheduler_state" where
  "apply_simulation_result st result =
     (case bt_get (ss_candidates st) (sr_candidate_id result) of
        None \<Rightarrow> record_stale_simulation_result st
      | Some entry \<Rightarrow>
          let expected_members = normalized_member_hashes (cand_tx_hash (ce_candidate entry))
                (cand_member_tx_hashes (ce_candidate entry));
              actual_members = normalized_member_hashes (sr_tx_hash result)
                (sr_member_tx_hashes result)
          in if cand_tx_hash (ce_candidate entry) \<noteq> sr_tx_hash result
               \<or> expected_members \<noteq> actual_members
               \<or> ce_block_number entry \<noteq> sr_block_number result
               \<or> ce_generation entry \<noteq> sr_generation result
               \<or> sr_block_number result \<noteq> ss_head_block_number st
             then record_stale_simulation_result st
             else
               let handoffs = (if sr_approved result
                     then [\<lparr>bh_candidate = ce_candidate entry,
                            bh_block_number = sr_block_number result\<rparr>] else []);
                   st' = st\<lparr>ss_candidates := bt_adjust (sr_candidate_id result)
                             (\<lambda>e. e\<lparr>ce_generation := next_generation (ce_generation entry)\<rparr>)
                             (ss_candidates st)\<rparr>
               in (\<lparr>sao_builder_handoffs = handoffs, sao_stale_result_drop_total = 0\<rparr>, st'))"

definition advance_head :: "scheduler_state \<Rightarrow> u64 \<Rightarrow> scheduler_state" where
  "advance_head st block_number = st\<lparr>ss_head_block_number := block_number\<rparr>"

definition candidate_involves :: "TxHash \<Rightarrow> candidate_entry \<Rightarrow> bool" where
  "candidate_involves hash entry \<longleftrightarrow>
     cand_tx_hash (ce_candidate entry) = hash \<or>
     hash \<in> set (normalized_member_hashes (cand_tx_hash (ce_candidate entry))
                   (cand_member_tx_hashes (ce_candidate entry)))"

definition invalidate_candidate_hash :: "scheduler_state \<Rightarrow> TxHash \<Rightarrow> scheduler_state" where
  "invalidate_candidate_hash st hash =
     (let candidate_ids = map fst (filter (\<lambda>(_, entry). candidate_involves hash entry)
            (bt_entries (ss_candidates st)))
      in st\<lparr>ss_candidates :=
              fold (\<lambda>cid. bt_adjust cid
                      (\<lambda>e. e\<lparr>ce_generation := next_generation (ce_generation e)\<rparr>))
                candidate_ids (ss_candidates st)\<rparr>)"

section \<open>Snapshots\<close>

definition sender_queue_snapshots :: "scheduler_state \<Rightarrow> sender_queue_snapshot list" where
  "sender_queue_snapshots st =
     map (\<lambda>(sender, queue).
            \<lparr>sqs_sender = sender,
             sqs_queued = List.map_filter (bt_get (ss_pending st)) (bt_values queue)\<rparr>)
       (bt_entries (ss_sender_queues st))"

definition persisted_sender_queue_snapshots ::
  "scheduler_state \<Rightarrow> persisted_sender_queue_snapshot list" where
  "persisted_sender_queue_snapshots st =
     map (\<lambda>(sender, queue).
            \<lparr>pq_sender = sender,
             pq_queued = map (\<lambda>(nonce, hash). \<lparr>pe_nonce = nonce, pe_hash = hash\<rparr>)
                           (bt_entries queue)\<rparr>)
       (bt_entries (ss_sender_queues st))"

definition scheduler_state_snapshot :: "scheduler_state \<Rightarrow> scheduler_snapshot" where
  "scheduler_state_snapshot st =
     (let (ready, blocked) = classify_by_sender st
      in \<lparr>sn_pending = bt_values (ss_pending st), sn_ready = ready, sn_blocked = blocked,
          sn_sender_queues = sender_queue_snapshots st,
          sn_candidates = map ce_candidate (bt_values (ss_candidates st))\<rparr>)"

definition pending_transactions :: "scheduler_state \<Rightarrow> TxHash list \<Rightarrow> validated_transaction list" where
  "pending_transactions st hashes = List.map_filter (bt_get (ss_pending st)) hashes"

definition persisted_snapshot ::
  "scheduler_state \<Rightarrow> i64 \<Rightarrow> u64 \<Rightarrow> persisted_scheduler_snapshot" where
  "persisted_snapshot st captured_at_unix_ms captured_at_mono_ns =
     \<lparr>ps_captured_at_unix_ms = captured_at_unix_ms,
      ps_captured_at_mono_ns = captured_at_mono_ns,
      ps_event_seq_hi = 0,
      ps_pending = bt_values (ss_pending st),
      ps_executable_frontier = executable_frontier_hashes st,
      ps_sender_queues = persisted_sender_queue_snapshots st\<rparr>"

section \<open>Rehydration\<close>

definition insert_sender_queue_entry ::
  "queue_map \<Rightarrow> Address \<Rightarrow> u64 \<Rightarrow> TxHash \<Rightarrow> scheduler_snapshot_error + queue_map" where
  "insert_sender_queue_entry queues sender nonce hash =
     (case Option.bind (bt_get queues sender) (\<lambda>queue. bt_get queue nonce) of
        Some _ \<Rightarrow> Inl (DuplicateSenderNonce sender nonce)
      | None \<Rightarrow> Inr (queue_insert sender nonce hash queues))"

definition build_sender_queues_from_pending ::
  "pending_map \<Rightarrow> scheduler_snapshot_error + queue_map" where
  "build_sender_queues_from_pending pending =
     fold_result
       (\<lambda>queues tx. insert_sender_queue_entry queues (dec_sender (vt_decoded tx))
                      (dec_nonce (vt_decoded tx)) (vt_hash tx))
       bt_empty (bt_values pending)"

definition load_queue_entry ::
  "pending_map \<Rightarrow> Address \<Rightarrow> queue_map \<Rightarrow> persisted_sender_queue_entry
    \<Rightarrow> scheduler_snapshot_error + queue_map" where
  "load_queue_entry pending sender queues entry =
     (case bt_get pending (pe_hash entry) of
        None \<Rightarrow> Inl (MissingPendingTransaction (pe_hash entry))
      | Some tx \<Rightarrow>
          if dec_sender (vt_decoded tx) \<noteq> sender \<or> dec_nonce (vt_decoded tx) \<noteq> pe_nonce entry
          then Inl (QueueEntryMismatch (pe_hash entry))
          else insert_sender_queue_entry queues sender (pe_nonce entry) (pe_hash entry))"

definition build_sender_queues_from_snapshot ::
  "persisted_sender_queue_snapshot list \<Rightarrow> pending_map \<Rightarrow> scheduler_snapshot_error + queue_map" where
  "build_sender_queues_from_snapshot persisted_sender_queues pending =
     fold_result
       (\<lambda>queues persisted_queue.
          fold_result (load_queue_entry pending (pq_sender persisted_queue)) queues
            (pq_queued persisted_queue))
       bt_empty persisted_sender_queues"

definition load_pending ::
  "validated_transaction list \<Rightarrow> scheduler_snapshot_error + pending_map" where
  "load_pending txs =
     fold_result
       (\<lambda>pending tx. if bt_contains pending (vt_hash tx)
                      then Inl (DuplicatePendingHash (vt_hash tx))
                      else Inr (bt_insert (vt_hash tx) tx pending))
       bt_empty txs"

definition from_persisted_snapshot ::
  "persisted_scheduler_snapshot \<Rightarrow> scheduler_snapshot_error + scheduler_state" where
  "from_persisted_snapshot snapshot =
     (case load_pending (ps_pending snapshot) of
        Inl err \<Rightarrow> Inl err
      | Inr pending \<Rightarrow>
          (case (if ps_sender_queues snapshot = [] then build_sender_queues_from_pending pending
                 else build_sender_queues_from_snapshot (ps_sender_queues snapshot) pending) of
             Inl err \<Rightarrow> Inl err
           | Inr sender_queues \<Rightarrow>
               let state = recompute_queue_counts
                     (default_scheduler_state\<lparr>ss_pending := pending,
                        ss_sender_queues := sender_queues\<rparr>);
                   restored_frontier = map vt_hash (fst (classify_by_sender state))
               in if ps_executable_frontier snapshot \<noteq> []
                    \<and> restored_frontier \<noteq> ps_executable_frontier snapshot
                  then Inl ExecutableFrontierMismatch
                  else Inr state))"

text \<open>
  The two constructors of the actor; the channel itself is created empty, so what
  they build is the validated configuration and the state.
\<close>

definition scheduler_channel ::
  "scheduler_config \<Rightarrow> scheduler_config_error + scheduler_config \<times> scheduler_state" where
  "scheduler_channel config =
     (case validate_config config of
        Inl err \<Rightarrow> Inl err
      | Inr config \<Rightarrow> Inr (config, default_scheduler_state))"

definition scheduler_channel_with_rehydration ::
  "scheduler_config \<Rightarrow> persisted_scheduler_snapshot option \<Rightarrow> validated_transaction list
    \<Rightarrow> scheduler_init_error + scheduler_config \<times> scheduler_state" where
  "scheduler_channel_with_rehydration config snapshot replay_transactions =
     (case validate_config config of
        Inl err \<Rightarrow> Inl (ConfigError err)
      | Inr config \<Rightarrow>
          (case (case snapshot of
                   Some snap \<Rightarrow> from_persisted_snapshot snap
                 | None \<Rightarrow> Inr default_scheduler_state) of
             Inl err \<Rightarrow> Inl (SnapshotError err)
           | Inr state \<Rightarrow>
               Inr (config, foldl (\<lambda>st tx. snd (admit st tx config)) state replay_transactions)))"

section \<open>The actor\<close>

datatype scheduler_command =
    Admit validated_transaction
  | RegisterCandidates "scheduler_candidate list"
  | ApplySimulationResult scheduler_simulation_result
  | InvalidateCandidateHash TxHash
  | AdvanceHead u64

datatype scheduler_reply =
    AdmitReply scheduler_admission_outcome
  | RegisterReply scheduler_candidate_dispatch
  | ApplyReply scheduler_simulation_apply_outcome
  | UnitReply

fun handle_command ::
  "scheduler_config \<Rightarrow> scheduler_state \<Rightarrow> scheduler_command \<Rightarrow> scheduler_reply \<times> scheduler_state" where
  "handle_command config st (Admit tx) = map_prod AdmitReply id (admit st tx config)"
| "handle_command config st (RegisterCandidates cs) =
     map_prod RegisterReply id (register_candidates st cs)"
| "handle_command config st (ApplySimulationResult r) =
     map_prod ApplyReply id (apply_simulation_result st r)"
| "handle_command config st (InvalidateCandidateHash h) =
     (UnitReply, invalidate_candidate_hash st h)"
| "handle_command config st (AdvanceHead n) = (UnitReply, advance_head st n)"

text \<open>The actor loop handles the received commands one after the other.\<close>

definition run_commands ::
  "scheduler_config \<Rightarrow> scheduler_state \<Rightarrow> scheduler_command list
    \<Rightarrow> scheduler_reply list \<times> scheduler_state" where
  "run_commands config = map_state (handle_command config)"

end
