(* ===== verification/Nonce_Gap.thy ===== *)
theory Nonce_Gap
  imports Prelude
begin

text \<open>
  The nonce-gap rule that the scheduler and the replay state share: walking the nonces
  of a sender in increasing order, the entries of the first run of consecutive nonces
  are ready and every later entry is blocked on the first missing nonce. The rule is
  the interface \<open>nonce_gap\<close>, which the two crates implement separately.
\<close>

section \<open>The nonce-gap machine\<close>

text \<open>The length of the longest prefix of consecutive nonces.\<close>

fun run_len :: "u64 list \<Rightarrow> nat" where
  "run_len [] = 0"
| "run_len [n] = 1"
| "run_len (n # m # ns) = (if unat m = unat n + 1 then Suc (run_len (m # ns)) else 1)"

lemma run_len_le: "run_len ns \<le> length ns"
  by (induction ns rule: run_len.induct) auto

lemma run_len_pos: "ns \<noteq> [] \<Longrightarrow> 0 < run_len ns"
  by (cases ns rule: run_len.cases) auto

lemma run_nth: "i < run_len ns \<Longrightarrow> unat (ns ! i) = unat (hd ns) + i"
proof (induction ns arbitrary: i rule: run_len.induct)
  case (3 n m ns)
  then show ?case by (cases i) (auto split: if_splits)
qed auto

lemma run_stop:
  assumes "sorted_wrt (<) ns" and "run_len ns < length ns"
  shows "unat (hd ns) + run_len ns < unat (ns ! run_len ns)"
  using assms
proof (induction ns rule: run_len.induct)
  case (3 n m ns)
  have lt: "unat n < unat m" using 3(2) by (simp add: word_less_nat_alt)
  show ?case
  proof (cases "unat m = unat n + 1")
    case True
    then show ?thesis using 3(1) 3(2) 3(3) by simp
  next
    case False
    then show ?thesis using lt by simp
  qed
qed auto

lemma run_covers:
  assumes "sorted_wrt (<) ns" and "i < run_len ns" and "hd ns \<le> n" and "n \<le> ns ! i"
  shows "n \<in> set ns"
proof -
  let ?k = "unat n - unat (hd ns)"
  have k: "?k \<le> i" "unat n = unat (hd ns) + ?k"
    using assms(3,4) run_nth [OF assms(2)] by (simp_all add: word_le_nat_alt)
  then have "?k < run_len ns" using assms(2) by simp
  then have "ns ! ?k = n" using run_nth [of ?k ns] k by (simp add: word_unat_eq_iff)
  moreover have "?k < length ns" using \<open>?k < run_len ns\<close> run_len_le [of ns] by simp
  ultimately show ?thesis by (metis nth_mem)
qed

text \<open>The nonce after the run is missing, and it is the first one that is.\<close>

lemma run_gap:
  assumes sorted: "sorted_wrt (<) ns" and "run_len ns < length ns"
  shows "hd ns < hd ns + of_nat (run_len ns)"
    and "hd ns + of_nat (run_len ns) < ns ! run_len ns"
    and "hd ns + of_nat (run_len ns) \<notin> set ns"
    and "hd ns \<le> n \<Longrightarrow> n < hd ns + of_nat (run_len ns) \<Longrightarrow> n \<in> set ns"
proof -
  let ?r = "run_len ns" and ?m = "hd ns + of_nat (run_len ns) :: u64"
  have pos: "0 < ?r" using assms(2) by (intro run_len_pos) auto
  have lt: "unat (hd ns) + ?r < unat (ns ! ?r)" by (rule run_stop [OF assms])
  then have bound: "unat (hd ns) + ?r < 2 ^ 64" using unat_le_max [of "ns ! ?r"] by simp
  then have m: "unat ?m = unat (hd ns) + ?r" by (simp add: unat_word_ariths unat_of_nat)
  show 1: "hd ns < ?m" and 2: "?m < ns ! ?r"
    using m lt pos by (simp_all add: word_less_nat_alt)
  show "n \<in> set ns" if "hd ns \<le> n" "n < ?m"
  proof (rule run_covers [OF sorted _ that(1), of "?r - 1"])
    show "?r - 1 < ?r" using pos by simp
    then show "n \<le> ns ! (?r - 1)"
      using run_nth [of "?r - 1" ns] that(2) m pos by (simp add: word_le_nat_alt word_less_nat_alt)
  qed
  show "?m \<notin> set ns"
  proof
    assume "?m \<in> set ns"
    then obtain k where k: "k < length ns" "ns ! k = ?m" by (auto simp: in_set_conv_nth)
    show False
    proof (cases "k < ?r")
      case True
      then show False using run_nth [OF True] k(2) m by simp
    next
      case False
      then have "ns ! ?r \<le> ns ! k"
        using sorted k(1) by (cases "?r = k") (auto simp: sorted_wrt_iff_nth_less less_imp_le)
      then show False using 2 k(2) by simp
    qed
  qed
qed

text \<open>
  The contract of a gap machine: the first entry is ready, an entry at the expected
  nonce is ready until a gap was seen, every other entry is blocked on the expected
  nonce. The scheduler and the replay state both implement it.
\<close>

locale nonce_gap =
  fixes entry_state :: "u64 option \<times> bool \<Rightarrow> u64 \<Rightarrow> 'st \<times> (u64 option \<times> bool)"
    and ready_state :: 'st
    and blocked_state :: "u64 \<Rightarrow> 'st"
  assumes gap_start: "entry_state (None, g) n = (ready_state, (checked_add n 1, g))"
    and gap_follow: "entry_state (Some e, g) n =
      (if \<not> g \<and> n = e then (ready_state, (checked_add n 1, g))
       else (blocked_state e, (Some e, True)))"
begin

lemma after_gap:
  "fst (map_state entry_state (Some e, True) ns) = replicate (length ns) (blocked_state e)"
  by (induction ns) (simp_all add: gap_follow)

lemma contiguous_tail:
  assumes "sorted_wrt (<) (n # ns)"
  shows "fst (map_state entry_state (checked_add n 1, False) ns) =
    replicate (run_len (n # ns) - 1) ready_state @
    replicate (Suc (length ns) - run_len (n # ns)) (blocked_state (n + of_nat (run_len (n # ns))))"
  using assms
proof (induction ns arbitrary: n)
  case (Cons m ns)
  have "unat n < unat m"
    using Cons.prems by (simp add: word_less_nat_alt)
  then have nmax: "unat n + 1 < 2 ^ 64"
    using unat_le_max [of m] by simp
  then have next_n: "checked_add n 1 = Some (n + 1)"
    by (simp add: checked_add_def)
  have eq: "m = n + 1 \<longleftrightarrow> unat m = unat n + 1"
    using nmax by (auto simp: unat_word_ariths word_unat_eq_iff)
  show ?case
  proof (cases "m = n + 1")
    case True
    then have u: "unat m = unat n + 1" using eq by simp
    have IH: "fst (map_state entry_state (checked_add m 1, False) ns) =
        replicate (run_len (m # ns) - 1) ready_state @
        replicate (Suc (length ns) - run_len (m # ns))
          (blocked_state (m + of_nat (run_len (m # ns))))"
      using Cons.prems by (intro Cons.IH) simp
    have r: "run_len (m # ns) = Suc (run_len (m # ns) - 1)"
      using run_len_pos [of "m # ns"] by simp
    have "fst (map_state entry_state (checked_add n 1, False) (m # ns)) =
        ready_state # fst (map_state entry_state (checked_add m 1, False) ns)"
      using True by (simp add: next_n gap_follow)
    moreover have "n + of_nat (run_len (n # m # ns)) = m + of_nat (run_len (m # ns))"
      using True u by simp
    moreover have "ready_state # replicate (run_len (m # ns) - 1) ready_state @ xs =
        replicate (run_len (n # m # ns) - 1) ready_state @ xs" for xs
      using u by (simp, subst (2) r) simp
    moreover have "Suc (length ns) - run_len (m # ns) =
        Suc (length (m # ns)) - run_len (n # m # ns)"
      using u by simp
    ultimately show ?thesis by (simp only: IH)
  next
    case False
    then have "run_len (n # m # ns) = 1" using eq by simp
    then show ?thesis
      using False by (simp add: next_n gap_follow after_gap)
  qed
qed simp

lemma classification:
  assumes "sorted_wrt (<) ns"
  shows "fst (map_state entry_state (None, False) ns) =
    replicate (run_len ns) ready_state @
    replicate (length ns - run_len ns) (blocked_state (hd ns + of_nat (run_len ns)))"
proof (cases ns)
  case (Cons n ms)
  have r: "run_len ns = Suc (run_len ns - 1)"
    using run_len_pos [of ns] Cons by simp
  have "fst (map_state entry_state (None, False) ns) =
      ready_state # fst (map_state entry_state (checked_add n 1, False) ms)"
    using Cons by (simp add: gap_start)
  also have "\<dots> = (ready_state # replicate (run_len ns - 1) ready_state) @
      replicate (length ns - run_len ns) (blocked_state (n + of_nat (run_len ns)))"
    using contiguous_tail [of n ms] assms Cons by simp
  also have "(ready_state # replicate (run_len ns - 1) ready_state) =
      replicate (run_len ns) ready_state"
    by (subst (2) r) simp
  finally show ?thesis using Cons by simp
qed simp

text \<open>What the verdicts mean for the set of queued nonces.\<close>

lemma entry_meaning:
  assumes "sorted_wrt (<) ns" and "i < length ns"
  shows "(fst (map_state entry_state (None, False) ns) ! i = ready_state \<and>
      (\<forall>n. hd ns \<le> n \<and> n \<le> ns ! i \<longrightarrow> n \<in> set ns)) \<or>
    (\<exists>m. fst (map_state entry_state (None, False) ns) ! i = blocked_state m \<and>
      hd ns < m \<and> m < ns ! i \<and> m \<notin> set ns \<and>
      (\<forall>n. hd ns \<le> n \<and> n < m \<longrightarrow> n \<in> set ns))"
proof (cases "i < run_len ns")
  case True
  then show ?thesis
    using run_covers [OF assms(1) True] assms by (auto simp: classification nth_append)
next
  case False
  then have r: "run_len ns < length ns" using assms(2) by simp
  have "ns ! run_len ns \<le> ns ! i"
    using assms False by (cases "run_len ns = i") (auto simp: sorted_wrt_iff_nth_less less_imp_le)
  then show ?thesis
    using run_gap [OF assms(1) r] False assms
    by (intro disjI2 exI [of _ "hd ns + of_nat (run_len ns)"])
      (auto simp: classification nth_append)
qed

end

end
