(* ===== verification/Scheduler_Queue.thy ===== *)
theory Scheduler_Queue
  imports Scheduler Nonce_Gap
begin

text \<open>
  Facts about the sender queues of the scheduler: what the nonce-gap machine computes
  on a queue, that the four queue traversals of the source agree with each other,
  and how the incremental ready/blocked counts follow a queue update.
\<close>

section \<open>The gap machine of the scheduler\<close>

interpretation sched_gap: nonce_gap queue_entry_state Ready Blocked
  by unfold_locales simp_all

section \<open>The queue traversals agree\<close>

abbreviation is_ready :: "sender_queue_position \<Rightarrow> bool" where
  "is_ready p \<equiv> pos_state p = Ready"

definition live :: "pending_map \<Rightarrow> (u64 \<times> TxHash) list \<Rightarrow> (u64 \<times> TxHash) list" where
  "live pending = filter (\<lambda>(_, hash). bt_contains pending hash)"

lemma positions_loop_states:
  "map pos_state (positions_loop pending gap xs) =
    fst (map_state queue_entry_state gap (map fst (live pending xs)))"
  by (induction xs arbitrary: gap) (auto simp: live_def split: prod.splits)

lemma positions_loop_entries:
  "map (\<lambda>p. (pos_nonce p, pos_hash p)) (positions_loop pending gap xs) = live pending xs"
  by (induction xs arbitrary: gap) (auto simp: live_def split: prod.splits)

lemma counts_loop_positions:
  "counts_loop pending gap (r, b) xs =
    (r + length (filter is_ready (positions_loop pending gap xs)),
     b + length (filter (\<lambda>p. \<not> is_ready p) (positions_loop pending gap xs)))"
  by (induction pending gap "(r, b)" xs arbitrary: r b rule: counts_loop.induct)
    (auto split: prod.splits scheduler_queue_state.splits)

lemma classify_loop_positions:
  "classify_loop pending gap (r, b) xs =
    (r @ map (\<lambda>p. the (bt_get pending (pos_hash p)))
       (filter is_ready (positions_loop pending gap xs)),
     b @ map (\<lambda>p. the (bt_get pending (pos_hash p)))
       (filter (\<lambda>p. \<not> is_ready p) (positions_loop pending gap xs)))"
  by (induction pending gap "(r, b)" xs arbitrary: r b rule: classify_loop.induct)
    (auto simp: bt_contains_def split: prod.splits scheduler_queue_state.splits option.splits)

lemma frontier_loop_positions:
  "frontier_loop pending gap xs = map pos_hash (filter is_ready (positions_loop pending gap xs))"
  by (induction pending gap xs rule: frontier_loop.induct)
    (auto split: prod.splits scheduler_queue_state.splits)

lemma positions_loop_pending:
  "p \<in> set (positions_loop pending gap xs) \<Longrightarrow> bt_contains pending (pos_hash p)"
  by (induction pending gap xs rule: positions_loop.induct)
    (auto split: prod.splits if_splits)

definition ready_positions :: "scheduler_state \<Rightarrow> nonce_queue \<Rightarrow> sender_queue_position list" where
  "ready_positions st queue =
     filter is_ready (positions_loop (ss_pending st) (None, False) (bt_entries queue))"

definition blocked_positions :: "scheduler_state \<Rightarrow> nonce_queue \<Rightarrow> sender_queue_position list" where
  "blocked_positions st queue =
     filter (\<lambda>p. \<not> is_ready p) (positions_loop (ss_pending st) (None, False) (bt_entries queue))"

lemma classify_by_sender_positions:
  "classify_by_sender st =
    (concat (map (\<lambda>q. map (\<lambda>p. the (bt_get (ss_pending st) (pos_hash p))) (ready_positions st q))
       (bt_values (ss_sender_queues st))),
     concat (map (\<lambda>q. map (\<lambda>p. the (bt_get (ss_pending st) (pos_hash p))) (blocked_positions st q))
       (bt_values (ss_sender_queues st))))"
proof -
  have "foldl (\<lambda>acc q. classify_loop (ss_pending st) (None, False) acc (bt_entries q)) (r, b) qs =
    (r @ concat (map (\<lambda>q. map (\<lambda>p. the (bt_get (ss_pending st) (pos_hash p)))
        (ready_positions st q)) qs),
     b @ concat (map (\<lambda>q. map (\<lambda>p. the (bt_get (ss_pending st) (pos_hash p)))
        (blocked_positions st q)) qs))" for r b qs
    by (induction qs arbitrary: r b)
      (simp_all add: classify_loop_positions ready_positions_def blocked_positions_def)
  then show ?thesis by (simp add: classify_by_sender_def)
qed

lemma executable_frontier_positions:
  "executable_frontier_hashes st =
    concat (map (\<lambda>q. map pos_hash (ready_positions st q)) (bt_values (ss_sender_queues st)))"
  by (simp add: executable_frontier_hashes_def frontier_loop_positions ready_positions_def)

lemma classify_counts_positions:
  "classify_sender_queue_counts st q =
    \<lparr>qc_ready = length (ready_positions st q), qc_blocked = length (blocked_positions st q)\<rparr>"
  by (simp add: classify_sender_queue_counts_def counts_loop_positions ready_positions_def
      blocked_positions_def)

section \<open>Queues whose entries are all pending\<close>

text \<open>The counts of a queue, read off its nonces.\<close>

definition queue_spec :: "nonce_queue \<Rightarrow> sender_queue_counts" where
  "queue_spec q =
     \<lparr>qc_ready = run_len (bt_keys q), qc_blocked = bt_len q - run_len (bt_keys q)\<rparr>"

definition all_live :: "pending_map \<Rightarrow> nonce_queue \<Rightarrow> bool" where
  "all_live pending q \<longleftrightarrow> (\<forall>n h. bt_get q n = Some h \<longrightarrow> bt_contains pending h)"

lemma live_entries: "all_live pending q \<Longrightarrow> live pending (bt_entries q) = bt_entries q"
  unfolding live_def all_live_def by (auto simp: filter_id_conv bt.in_entries_iff)

lemma positions_states_live:
  assumes "all_live pending q"
  shows "map pos_state (positions_loop pending (None, False) (bt_entries q)) =
    replicate (run_len (bt_keys q)) Ready @
    replicate (bt_len q - run_len (bt_keys q))
      (Blocked (hd (bt_keys q) + of_nat (run_len (bt_keys q))))"
  using sched_gap.classification [OF bt_keys_sorted [of q]] assms
  by (simp add: positions_loop_states live_entries flip: bt_keys_def)

lemma length_filter_states:
  "length (filter is_ready ps) = length (filter (\<lambda>s. s = Ready) (map pos_state ps))"
  "length (filter (\<lambda>p. \<not> is_ready p) ps) = length (filter (\<lambda>s. s \<noteq> Ready) (map pos_state ps))"
  by (simp_all add: filter_map comp_def)

lemma length_positions_live:
  assumes "all_live (ss_pending st) q"
  shows "length (ready_positions st q) = run_len (bt_keys q)"
    and "length (blocked_positions st q) = bt_len q - run_len (bt_keys q)"
  unfolding ready_positions_def blocked_positions_def
  by (simp_all only: length_filter_states positions_states_live [OF assms]) simp_all

lemma classify_counts_live:
  "all_live (ss_pending st) q \<Longrightarrow> classify_sender_queue_counts st q = queue_spec q"
  by (simp add: classify_counts_positions length_positions_live queue_spec_def)

lemma queue_spec_nonzero: "q \<noteq> bt_empty \<Longrightarrow> 0 < qc_ready (queue_spec q)"
  by (simp add: queue_spec_def run_len_pos bt_keys_empty_iff)

lemma queue_spec_total: "qc_ready (queue_spec q) + qc_blocked (queue_spec q) = bt_len q"
  using run_len_le [of "bt_keys q"] by (simp add: queue_spec_def)

section \<open>The incremental counts\<close>

lemma refresh_sender_counts_live:
  assumes "bt_get (ss_sender_queues st) s = Some q" and "q \<noteq> bt_empty"
    and "all_live (ss_pending st) q"
  shows "refresh_sender_counts st s =
    (let prev = (case bt_get (ss_sender_queue_counts st) s of Some c \<Rightarrow> c | None \<Rightarrow> zero_counts)
     in st\<lparr>ss_sender_queue_counts := bt_insert s (queue_spec q) (ss_sender_queue_counts st),
           ss_ready_total := ss_ready_total st - qc_ready prev + qc_ready (queue_spec q),
           ss_blocked_total := ss_blocked_total st - qc_blocked prev + qc_blocked (queue_spec q)\<rparr>)"
proof -
  have "classify_sender_queue_counts (st\<lparr>ss_sender_queue_counts := c, ss_ready_total := r,
      ss_blocked_total := b\<rparr>) q = queue_spec q" for c r b
    using assms(3) by (simp add: classify_counts_live)
  then show ?thesis
    using assms(1) queue_spec_nonzero [OF assms(2)]
    by (simp add: refresh_sender_counts_def Let_def)
qed

lemma refresh_sender_counts_frame [simp]:
  "ss_pending (refresh_sender_counts st s) = ss_pending st"
  "ss_sender_queues (refresh_sender_counts st s) = ss_sender_queues st"
  "ss_candidates (refresh_sender_counts st s) = ss_candidates st"
  "ss_head_block_number (refresh_sender_counts st s) = ss_head_block_number st"
  by (simp_all add: refresh_sender_counts_def Let_def)

definition counts_ok :: "scheduler_state \<Rightarrow> bool" where
  "counts_ok st \<longleftrightarrow>
     (\<forall>s. bt_get (ss_sender_queue_counts st) s =
        map_option queue_spec (bt_get (ss_sender_queues st) s)) \<and>
     ss_ready_total st =
       sum_list (map (\<lambda>q. qc_ready (queue_spec q)) (bt_values (ss_sender_queues st))) \<and>
     ss_blocked_total st =
       sum_list (map (\<lambda>q. qc_blocked (queue_spec q)) (bt_values (ss_sender_queues st)))"

text \<open>
  A refresh after the queue of one sender was replaced brings the counts back in line
  with all queues.
\<close>

lemma refresh_counts_ok:
  assumes ok: "counts_ok st"
    and q: "q \<noteq> bt_empty" "all_live p q"
    and st1: "ss_pending st1 = p" "ss_sender_queues st1 = bt_insert s q (ss_sender_queues st)"
      "ss_sender_queue_counts st1 = ss_sender_queue_counts st"
      "ss_ready_total st1 = ss_ready_total st" "ss_blocked_total st1 = ss_blocked_total st"
  shows "counts_ok (refresh_sender_counts st1 s)"
proof -
  let ?Q = "ss_sender_queues st"
  have sums: "sum_list (map f (bt_values (bt_insert s q ?Q))) =
      sum_list (map f (bt_values ?Q)) - (case bt_get ?Q s of Some w \<Rightarrow> f w | None \<Rightarrow> 0) + f q"
    for f :: "nonce_queue \<Rightarrow> nat"
  proof (cases "bt_get ?Q s")
    case None
    then show ?thesis using bt_sum_insert [of f s q ?Q] by simp
  next
    case (Some w)
    then have "w \<in> set (bt_values ?Q)" by (auto simp: bt_values_set)
    then have "f w \<le> sum_list (map f (bt_values ?Q))"
      by (intro member_le_sum_list) auto
    then show ?thesis using Some bt_sum_insert [of f s q ?Q] by simp
  qed
  have "bt_get (ss_sender_queues st1) s = Some q" using st1 by simp
  from refresh_sender_counts_live [OF this q(1)] q(2) st1(1)
  have r: "refresh_sender_counts st1 s =
    (let prev = (case bt_get (ss_sender_queue_counts st1) s of Some c \<Rightarrow> c | None \<Rightarrow> zero_counts)
     in st1\<lparr>ss_sender_queue_counts := bt_insert s (queue_spec q) (ss_sender_queue_counts st1),
           ss_ready_total := ss_ready_total st1 - qc_ready prev + qc_ready (queue_spec q),
           ss_blocked_total := ss_blocked_total st1 - qc_blocked prev + qc_blocked (queue_spec q)\<rparr>)"
    by simp
  show ?thesis
    using ok st1
    by (cases "bt_get ?Q s") (auto simp: counts_ok_def r Let_def sums zero_counts_def)
qed

end
