(* ===== verification/Scheduler_Admission.thy ===== *)
theory Scheduler_Admission
  imports Scheduler_Queue
begin

text \<open>
  Admission: the well-formedness invariant of the scheduler state, that every command
  of the actor keeps it, and that \<open>admit\<close> implements an abstract pool indexed by
  sender and nonce.
\<close>

section \<open>The invariant\<close>

definition queued :: "queue_map \<Rightarrow> Address \<Rightarrow> u64 \<Rightarrow> TxHash option" where
  "queued queues s n = Option.bind (bt_get queues s) (\<lambda>q. bt_get q n)"

abbreviation tx_sender :: "validated_transaction \<Rightarrow> Address" where
  "tx_sender tx \<equiv> dec_sender (vt_decoded tx)"

abbreviation tx_nonce :: "validated_transaction \<Rightarrow> u64" where
  "tx_nonce tx \<equiv> dec_nonce (vt_decoded tx)"

text \<open>
  Sound: the pending map is keyed by transaction hash, every queue entry is a pending
  transaction of that sender and nonce, and no sender has an empty queue. Complete:
  every pending transaction is queued.
\<close>

definition queues_sound :: "pending_map \<Rightarrow> queue_map \<Rightarrow> bool" where
  "queues_sound pending queues \<longleftrightarrow>
     (\<forall>h tx. bt_get pending h = Some tx \<longrightarrow> vt_hash tx = h) \<and>
     (\<forall>s n h. queued queues s n = Some h \<longrightarrow>
        (\<exists>tx. bt_get pending h = Some tx \<and> tx_sender tx = s \<and> tx_nonce tx = n)) \<and>
     (\<forall>s. bt_get queues s \<noteq> Some bt_empty)"

definition queues_complete :: "pending_map \<Rightarrow> queue_map \<Rightarrow> bool" where
  "queues_complete pending queues \<longleftrightarrow>
     (\<forall>h tx. bt_get pending h = Some tx \<longrightarrow> queued queues (tx_sender tx) (tx_nonce tx) = Some h)"

definition sched_inv :: "scheduler_state \<Rightarrow> bool" where
  "sched_inv st \<longleftrightarrow> queues_sound (ss_pending st) (ss_sender_queues st) \<and> counts_ok st"

definition sched_wf :: "scheduler_state \<Rightarrow> bool" where
  "sched_wf st \<longleftrightarrow> sched_inv st \<and> queues_complete (ss_pending st) (ss_sender_queues st)"

lemma bt_insert_not_empty [simp]: "bt_insert k v m \<noteq> bt_empty"
  by (auto simp: bt_eq_iff)

lemma queued_queue_insert [simp]:
  "queued (queue_insert s n h queues) s' n' =
    (if s' = s \<and> n' = n then Some h else queued queues s' n')"
  by (auto simp: queued_def queue_insert_def split: option.splits)

lemma queued_empty [simp]: "queued bt_empty s n = None"
  by (simp add: queued_def)

lemma queue_insert_not_empty: "bt_get (queue_insert s n h queues) s' = Some bt_empty \<Longrightarrow>
    bt_get queues s' = Some bt_empty"
  by (auto simp: queue_insert_def split: if_splits)

lemma queues_soundD:
  assumes "queues_sound pending queues"
  shows "bt_get pending h = Some tx \<Longrightarrow> vt_hash tx = h"
    and "queued queues s n = Some h \<Longrightarrow>
      \<exists>tx. bt_get pending h = Some tx \<and> tx_sender tx = s \<and> tx_nonce tx = n"
    and "bt_get queues s \<noteq> Some bt_empty"
  using assms by (auto simp: queues_sound_def)

lemma queues_sound_live:
  assumes "queues_sound pending queues" and "bt_get queues s = Some q"
  shows "all_live pending q"
  unfolding all_live_def bt_contains_def
proof (intro allI impI)
  fix n h assume "bt_get q n = Some h"
  then have "queued queues s n = Some h" using assms(2) by (simp add: queued_def)
  then show "bt_get pending h \<noteq> None" using queues_soundD(2) [OF assms(1)] by force
qed

section \<open>One queue update\<close>

text \<open>
  The update that every admitting branch makes: the incumbent of the slot, if any,
  leaves the pending map and the new transaction takes its slot.
\<close>

definition drop_incumbent :: "TxHash option \<Rightarrow> pending_map \<Rightarrow> pending_map" where
  "drop_incumbent inc pending = (case inc of Some i \<Rightarrow> bt_remove i pending | None \<Rightarrow> pending)"

lemma bt_get_drop_incumbent:
  "bt_get (drop_incumbent inc pending) h = (if inc = Some h then None else bt_get pending h)"
  by (auto simp: drop_incumbent_def split: option.splits)

lemma enqueue_sound:
  assumes "queues_sound pending queues" and "bt_get pending (vt_hash tx) = None"
  shows "queues_sound
      (bt_insert (vt_hash tx) tx
        (drop_incumbent (queued queues (tx_sender tx) (tx_nonce tx)) pending))
      (queue_insert (tx_sender tx) (tx_nonce tx) (vt_hash tx) queues)"
    (is "queues_sound ?p ?q")
  unfolding queues_sound_def
proof (intro conjI allI impI)
  note sound = queues_soundD [OF assms(1)]
  fix h t assume "bt_get ?p h = Some t"
  then show "vt_hash t = h"
    using sound(1) by (auto simp: bt_get_drop_incumbent split: if_splits)
next
  note sound = queues_soundD [OF assms(1)]
  fix s n h assume h: "queued ?q s n = Some h"
  show "\<exists>t. bt_get ?p h = Some t \<and> tx_sender t = s \<and> tx_nonce t = n"
  proof (cases "s = tx_sender tx \<and> n = tx_nonce tx")
    case False
    then have qh: "queued queues s n = Some h" using h by auto
    then obtain t where t: "bt_get pending h = Some t" "tx_sender t = s" "tx_nonce t = n"
      using sound(2) by blast
    have "queued queues (tx_sender tx) (tx_nonce tx) \<noteq> Some h"
      using sound(2) [of "tx_sender tx" "tx_nonce tx" h] t False by auto
    moreover have "h \<noteq> vt_hash tx" using t assms(2) by auto
    ultimately show ?thesis using t by (simp add: bt_get_drop_incumbent)
  qed (use h in simp)
next
  fix s show "bt_get ?q s \<noteq> Some bt_empty"
    using queue_insert_not_empty queues_soundD(3) [OF assms(1)] by blast
qed

lemma enqueue_complete:
  assumes "queues_complete pending queues"
  shows "queues_complete
      (bt_insert (vt_hash tx) tx
        (drop_incumbent (queued queues (tx_sender tx) (tx_nonce tx)) pending))
      (queue_insert (tx_sender tx) (tx_nonce tx) (vt_hash tx) queues)"
    (is "queues_complete ?p ?q")
  unfolding queues_complete_def
proof (intro allI impI)
  fix h t assume t: "bt_get ?p h = Some t"
  have compl: "bt_get pending h = Some t \<Longrightarrow> queued queues (tx_sender t) (tx_nonce t) = Some h"
    using assms(1) by (simp add: queues_complete_def)
  show "queued ?q (tx_sender t) (tx_nonce t) = Some h"
  proof (cases "h = vt_hash tx")
    case False
    then have "bt_get pending h = Some t" "queued queues (tx_sender tx) (tx_nonce tx) \<noteq> Some h"
      using t by (auto simp: bt_get_drop_incumbent split: if_splits)
    then show ?thesis using compl by auto
  qed (use t in simp)
qed

section \<open>The branches of admission\<close>

definition tx_fee :: "validated_transaction \<Rightarrow> u128" where
  "tx_fee tx = replacement_fee (dec_tx_type (vt_decoded tx)) (dec_gas_price_wei (vt_decoded tx))
     (dec_max_fee_per_gas_wei (vt_decoded tx))"

definition enqueue ::
  "scheduler_state \<Rightarrow> validated_transaction \<Rightarrow> TxHash option \<Rightarrow> scheduler_state" where
  "enqueue st tx inc =
     refresh_sender_counts
       (st\<lparr>ss_sender_queues :=
             queue_insert (tx_sender tx) (tx_nonce tx) (vt_hash tx) (ss_sender_queues st),
           ss_pending := bt_insert (vt_hash tx) tx (drop_incumbent inc (ss_pending st)),
           ss_admitted_total := sat_add (ss_admitted_total st) 1,
           ss_replacement_total :=
             (if inc = None then ss_replacement_total st
              else sat_add (ss_replacement_total st) 1)\<rparr>)
       (tx_sender tx)"

definition queue_len :: "queue_map \<Rightarrow> Address \<Rightarrow> usize" where
  "queue_len queues s = (case bt_get queues s of Some q \<Rightarrow> bt_len q | None \<Rightarrow> 0)"

text \<open>
  On a sound state the branch of the source where the queued incumbent is missing from
  the pending map cannot be taken; the other branches are as follows.
\<close>

lemma admit_branches:
  assumes "queues_sound (ss_pending st) (ss_sender_queues st)"
  shows "admit st tx config =
    (if bt_contains (ss_pending st) (vt_hash tx) then
       (\<lparr>ao_admission = Duplicate, ao_queue_transitions = []\<rparr>,
        st\<lparr>ss_duplicate_total := sat_add (ss_duplicate_total st) 1\<rparr>)
     else case queued (ss_sender_queues st) (tx_sender tx) (tx_nonce tx) of
       Some i \<Rightarrow>
         (if tx_fee tx \<ge> replacement_threshold_fee (the (bt_get (ss_pending st) i))
                (cfg_replacement_fee_bump_bps config)
          then (\<lparr>ao_admission = Replaced i,
                 ao_queue_transitions = queue_transitions (enqueue st tx (Some i)) (tx_sender tx)
                   (sender_queue_positions st (tx_sender tx))\<rparr>, enqueue st tx (Some i))
          else (\<lparr>ao_admission = UnderpricedReplacement, ao_queue_transitions = []\<rparr>,
                st\<lparr>ss_underpriced_replacement_total :=
                     sat_add (ss_underpriced_replacement_total st) 1\<rparr>))
     | None \<Rightarrow>
         (if queue_len (ss_sender_queues st) (tx_sender tx) \<ge> cfg_max_pending_per_sender config
          then (\<lparr>ao_admission = SenderLimitReached, ao_queue_transitions = []\<rparr>,
                st\<lparr>ss_sender_limit_drop_total := sat_add (ss_sender_limit_drop_total st) 1\<rparr>)
          else (\<lparr>ao_admission = Admitted,
                 ao_queue_transitions = queue_transitions (enqueue st tx None) (tx_sender tx)
                   (sender_queue_positions st (tx_sender tx))\<rparr>, enqueue st tx None)))"
proof (cases "bt_contains (ss_pending st) (vt_hash tx)")
  case False
  show ?thesis
  proof (cases "queued (ss_sender_queues st) (tx_sender tx) (tx_nonce tx)")
    case None
    then show ?thesis using False
      by (simp add: admit_def Let_def enqueue_def drop_incumbent_def queue_len_def
          flip: queued_def)
  next
    case (Some i)
    then obtain inc where "bt_get (ss_pending st) i = Some inc"
      using queues_soundD(2) [OF assms] by blast
    then show ?thesis using False Some
      by (simp add: admit_def Let_def enqueue_def drop_incumbent_def tx_fee_def
          flip: queued_def)
  qed
qed (simp add: admit_def Let_def)

lemma enqueue_frame [simp]:
  "ss_pending (enqueue st tx inc) =
    bt_insert (vt_hash tx) tx (drop_incumbent inc (ss_pending st))"
  "ss_sender_queues (enqueue st tx inc) =
    queue_insert (tx_sender tx) (tx_nonce tx) (vt_hash tx) (ss_sender_queues st)"
  by (simp_all add: enqueue_def)

lemma enqueue_counts_ok:
  assumes "sched_inv st" and "bt_get (ss_pending st) (vt_hash tx) = None"
    and inc: "inc = queued (ss_sender_queues st) (tx_sender tx) (tx_nonce tx)"
  shows "counts_ok (enqueue st tx inc)"
proof -
  let ?s = "tx_sender tx"
  let ?q = "bt_insert (tx_nonce tx) (vt_hash tx)
    (case bt_get (ss_sender_queues st) ?s of Some q \<Rightarrow> q | None \<Rightarrow> bt_empty)"
  have sound: "queues_sound (ss_pending (enqueue st tx inc)) (ss_sender_queues (enqueue st tx inc))"
    using enqueue_sound [of "ss_pending st" "ss_sender_queues st" tx] assms
    by (simp add: sched_inv_def)
  have "bt_get (ss_sender_queues (enqueue st tx inc)) ?s = Some ?q"
    by (simp add: queue_insert_def)
  then have "all_live (ss_pending (enqueue st tx inc)) ?q"
    by (rule queues_sound_live [OF sound])
  then show ?thesis
    unfolding enqueue_def using assms(1)
    by (intro refresh_counts_ok [of st ?q]) (simp_all add: sched_inv_def queue_insert_def)
qed

lemma enqueue_wf:
  assumes "sched_inv st" and "bt_get (ss_pending st) (vt_hash tx) = None"
    and "inc = queued (ss_sender_queues st) (tx_sender tx) (tx_nonce tx)"
  shows "sched_inv (enqueue st tx inc)"
    and "queues_complete (ss_pending st) (ss_sender_queues st) \<Longrightarrow>
      queues_complete (ss_pending (enqueue st tx inc)) (ss_sender_queues (enqueue st tx inc))"
  using assms enqueue_counts_ok [OF assms] enqueue_sound enqueue_complete
  by (simp_all add: sched_inv_def)


section \<open>Every command keeps the invariant\<close>

lemma admit_wf:
  assumes "sched_inv st"
  shows "sched_inv (snd (admit st tx config))"
    and "queues_complete (ss_pending st) (ss_sender_queues st) \<Longrightarrow>
      queues_complete (ss_pending (snd (admit st tx config)))
        (ss_sender_queues (snd (admit st tx config)))"
proof -
  have sound: "queues_sound (ss_pending st) (ss_sender_queues st)"
    using assms by (simp add: sched_inv_def)
  note wf = enqueue_wf [OF assms, of tx "queued (ss_sender_queues st) (tx_sender tx) (tx_nonce tx)"]
  show "sched_inv (snd (admit st tx config))"
    using assms wf(1) unfolding admit_branches [OF sound]
    by (auto simp: sched_inv_def counts_ok_def bt_contains_def split: option.splits)
  assume "queues_complete (ss_pending st) (ss_sender_queues st)"
  then show "queues_complete (ss_pending (snd (admit st tx config)))
      (ss_sender_queues (snd (admit st tx config)))"
    using wf(2) unfolding admit_branches [OF sound]
    by (auto simp: bt_contains_def split: option.splits)
qed

text \<open>The candidate operations and the head touch neither the queues nor the counts.\<close>

definition same_queues :: "scheduler_state \<Rightarrow> scheduler_state \<Rightarrow> bool" where
  "same_queues st st' \<longleftrightarrow>
     ss_pending st' = ss_pending st \<and> ss_sender_queues st' = ss_sender_queues st \<and>
     ss_sender_queue_counts st' = ss_sender_queue_counts st \<and>
     ss_ready_total st' = ss_ready_total st \<and> ss_blocked_total st' = ss_blocked_total st"

lemma same_queues_wf: "same_queues st st' \<Longrightarrow> sched_wf st' = sched_wf st"
  by (simp add: same_queues_def sched_wf_def sched_inv_def counts_ok_def)

lemma register_candidates_same_queues: "same_queues st (snd (register_candidates st cs))"
proof -
  have "same_queues st (foldl (\<lambda>s c. snd (register_candidate s c)) st' cs)"
    if "same_queues st st'" for st'
    using that
    by (induction cs arbitrary: st') (simp_all add: same_queues_def register_candidate_def Let_def)
  then show ?thesis
    by (simp add: register_candidates_def case_prod_unfold Let_def snd_map_state same_queues_def)
qed

lemma candidate_ops_same_queues:
  "same_queues st (snd (apply_simulation_result st r))"
  "same_queues st (invalidate_candidate_hash st h)"
  "same_queues st (advance_head st n)"
  by (auto simp: same_queues_def apply_simulation_result_def record_stale_simulation_result_def
      invalidate_candidate_hash_def advance_head_def Let_def split: option.splits)

lemma handle_command_wf: "sched_wf st \<Longrightarrow> sched_wf (snd (handle_command config st c))"
proof (cases c)
  case (Admit tx)
  then show "sched_wf st \<Longrightarrow> ?thesis" using admit_wf by (simp add: sched_wf_def)
qed (simp_all add: same_queues_wf [OF register_candidates_same_queues]
    same_queues_wf [OF candidate_ops_same_queues(1)]
    same_queues_wf [OF candidate_ops_same_queues(2)]
    same_queues_wf [OF candidate_ops_same_queues(3)])

lemma default_state_wf: "sched_wf default_scheduler_state"
  by (simp add: sched_wf_def sched_inv_def queues_sound_def queues_complete_def counts_ok_def
      default_scheduler_state_def bt_values_def bt_simps)

interpretation sched: started_system "\<lambda>st c. snd (handle_command config st c)" sched_wf
    default_scheduler_state for config
  by unfold_locales (simp_all add: handle_command_wf default_state_wf)

lemma run_commands_wf: "sched_wf (snd (run_commands config default_scheduler_state cmds))"
  by (simp add: run_commands_def snd_map_state sched.reachable_invar)

section \<open>Every pending transaction is counted once\<close>

lemma wf_queued_iff:
  assumes "sched_wf st"
  shows "queued (ss_sender_queues st) s n = Some h \<longleftrightarrow>
    (\<exists>tx. bt_get (ss_pending st) h = Some tx \<and> tx_sender tx = s \<and> tx_nonce tx = n)"
  using assms queues_soundD(2) by (auto simp: sched_wf_def sched_inv_def queues_complete_def)

lemma wf_hash: "sched_wf st \<Longrightarrow> bt_get (ss_pending st) h = Some tx \<Longrightarrow> vt_hash tx = h"
  by (auto simp: sched_wf_def sched_inv_def dest: queues_soundD)

lemma card_slots:
  "card {(s, n). queued queues s n \<noteq> None} = sum_list (map bt_len (bt_values queues))"
proof -
  let ?K = "\<lambda>s. set (bt_keys (the (bt_get queues s)))"
  have eq: "{(s, n). queued queues s n \<noteq> None} = (SIGMA s : set (bt_keys queues). ?K s)"
    by (auto simp: queued_def bt_keys_set split: bind_splits)
  have "card (?K s) = bt_len (the (bt_get queues s))" for s
    using distinct_card [of "bt_keys (the (bt_get queues s))"] bt_keys_sorted
    by (metis length_bt_keys strict_sorted_iff)
  then have "card (SIGMA s : set (bt_keys queues). ?K s) =
      (\<Sum>s\<in>set (bt_keys queues). bt_len (the (bt_get queues s)))"
    by simp
  also have "\<dots> = sum_list (map (\<lambda>s. bt_len (the (bt_get queues s))) (bt_keys queues))"
    using bt_keys_sorted [of queues]
    by (simp add: sum_list_distinct_conv_sum_set strict_sorted_iff)
  finally show ?thesis
    by (simp only: eq bt_values_via_keys map_map comp_def)
qed

lemma wf_slots_pending:
  assumes "sched_wf st"
  shows "bt_len (ss_pending st) = sum_list (map bt_len (bt_values (ss_sender_queues st)))"
proof -
  let ?Q = "queued (ss_sender_queues st)"
  note q = wf_queued_iff [OF assms]
  have "{h. bt_get (ss_pending st) h \<noteq> None} =
      (\<lambda>(s, n). the (?Q s n)) ` {(s, n). ?Q s n \<noteq> None}"
    using q by (force simp: image_iff)
  moreover have "inj_on (\<lambda>(s, n). the (?Q s n)) {(s, n). ?Q s n \<noteq> None}"
  proof (rule inj_onI, clarify)
    fix s n s' n' h h'
    assume "?Q s n = Some h" "?Q s' n' = Some h'" "the (?Q s n) = the (?Q s' n')"
    then show "s = s' \<and> n = n'" using q [of s n h] q [of s' n' h'] by auto
  qed
  ultimately have "card {h. bt_get (ss_pending st) h \<noteq> None} =
      card {(s, n). ?Q s n \<noteq> None}"
    by (simp add: card_image)
  then show ?thesis
    unfolding card_slots by (metis bt_len_def bt.length_entries)
qed

lemma inv_totals:
  assumes "sched_inv st"
  shows "ss_ready_total st = length (fst (classify_by_sender st))"
    and "ss_blocked_total st = length (snd (classify_by_sender st))"
proof -
  have live: "all_live (ss_pending st) q" if "q \<in> set (bt_values (ss_sender_queues st))" for q
    using that assms queues_sound_live
    by (auto simp: bt_values_set sched_inv_def)
  have maps: "map (\<lambda>q. length (ready_positions st q)) (bt_values (ss_sender_queues st)) =
      map (\<lambda>q. qc_ready (queue_spec q)) (bt_values (ss_sender_queues st))"
    "map (\<lambda>q. length (blocked_positions st q)) (bt_values (ss_sender_queues st)) =
      map (\<lambda>q. qc_blocked (queue_spec q)) (bt_values (ss_sender_queues st))"
    using live by (simp_all add: length_positions_live queue_spec_def)
  show "ss_ready_total st = length (fst (classify_by_sender st))"
    and "ss_blocked_total st = length (snd (classify_by_sender st))"
    using assms
    by (simp_all add: classify_by_sender_positions length_concat comp_def sched_inv_def
        counts_ok_def maps cong: map_cong)
qed

lemma wf_total:
  assumes "sched_wf st"
  shows "ss_ready_total st + ss_blocked_total st = bt_len (ss_pending st)"
  using assms
  by (simp add: wf_slots_pending sched_wf_def sched_inv_def counts_ok_def queue_spec_total
      flip: sum_list_addf)

lemma wf_inv: "sched_wf st \<Longrightarrow> sched_inv st"
  by (simp add: sched_wf_def)

lemma inv_frontier:
  assumes "sched_inv st"
  shows "executable_frontier_hashes st = map vt_hash (fst (classify_by_sender st))"
proof -
  have "vt_hash (the (bt_get (ss_pending st) (pos_hash p))) = pos_hash p"
    if "p \<in> set (ready_positions st q)" for p q
    using that queues_soundD(1) assms positions_loop_pending
    by (force simp: ready_positions_def bt_contains_def sched_inv_def)
  then have eq: "map (\<lambda>p. vt_hash (the (bt_get (ss_pending st) (pos_hash p)))) (ready_positions st q) =
      map pos_hash (ready_positions st q)" for q
    by simp
  show ?thesis
    by (simp add: executable_frontier_positions classify_by_sender_positions map_concat comp_def eq
        cong: map_cong)
qed

end
