(* ===== verification/Scheduler_Pool.thy ===== *)
theory Scheduler_Pool
  imports Scheduler_Admission
begin

text \<open>
  What the scheduler promises to its clients: the pool of pending transactions as an
  abstract map from sender and nonce to transactions, refined by the actor; the bound
  on the number of transactions of a sender; the meaning of ready and blocked; and the
  replacement fee threshold.
\<close>

section \<open>The abstract pool\<close>

type_synonym pool = "Address \<times> u64 \<rightharpoonup> validated_transaction"

definition pool_of :: "scheduler_state \<Rightarrow> pool" where
  "pool_of st = (\<lambda>(s, n). Option.bind (queued (ss_sender_queues st) s n) (bt_get (ss_pending st)))"

definition pool_admit ::
  "scheduler_config \<Rightarrow> pool \<Rightarrow> validated_transaction \<Rightarrow> scheduler_admission \<times> pool" where
  "pool_admit config pool tx =
     (if \<exists>t \<in> ran pool. vt_hash t = vt_hash tx then (Duplicate, pool)
      else case pool (tx_sender tx, tx_nonce tx) of
        Some incumbent \<Rightarrow>
          if replacement_threshold_fee incumbent (cfg_replacement_fee_bump_bps config) \<le> tx_fee tx
          then (Replaced (vt_hash incumbent), pool((tx_sender tx, tx_nonce tx) \<mapsto> tx))
          else (UnderpricedReplacement, pool)
      | None \<Rightarrow>
          if cfg_max_pending_per_sender config \<le> card {n. pool (tx_sender tx, n) \<noteq> None}
          then (SenderLimitReached, pool)
          else (Admitted, pool((tx_sender tx, tx_nonce tx) \<mapsto> tx)))"

fun pool_command ::
  "scheduler_config \<Rightarrow> pool \<Rightarrow> scheduler_command \<Rightarrow> scheduler_admission option \<times> pool" where
  "pool_command config pool (Admit tx) = map_prod Some id (pool_admit config pool tx)"
| "pool_command config pool _ = (None, pool)"

fun reply_admission :: "scheduler_reply \<Rightarrow> scheduler_admission option" where
  "reply_admission (AdmitReply outcome) = Some (ao_admission outcome)"
| "reply_admission _ = None"

lemma pool_of_queued:
  assumes "sched_wf st"
  shows "pool_of st (s, n) = Some tx \<longleftrightarrow>
    queued (ss_sender_queues st) s n = Some (vt_hash tx) \<and>
    bt_get (ss_pending st) (vt_hash tx) = Some tx"
  using wf_hash [OF assms] by (auto simp: pool_of_def bind_eq_Some_conv)

lemma pool_of_none:
  assumes "sched_wf st"
  shows "pool_of st (s, n) = None \<longleftrightarrow> queued (ss_sender_queues st) s n = None"
proof (cases "queued (ss_sender_queues st) s n")
  case (Some h)
  then obtain t where "bt_get (ss_pending st) h = Some t" using wf_queued_iff [OF assms] by blast
  then show ?thesis using Some by (simp add: pool_of_def)
qed (simp add: pool_of_def)

lemma pool_of_ran:
  assumes "sched_wf st"
  shows "(\<exists>t \<in> ran (pool_of st). vt_hash t = h) \<longleftrightarrow> bt_contains (ss_pending st) h"
proof
  assume "\<exists>t \<in> ran (pool_of st). vt_hash t = h"
  then show "bt_contains (ss_pending st) h"
    using pool_of_queued [OF assms] by (auto simp: ran_def bt_contains_def)
next
  assume "bt_contains (ss_pending st) h"
  then obtain t where t: "bt_get (ss_pending st) h = Some t" by (auto simp: bt_contains_def)
  then have "pool_of st (tx_sender t, tx_nonce t) = Some t"
    using wf_queued_iff [OF assms] wf_hash [OF assms t] pool_of_queued [OF assms] by blast
  then show "\<exists>t \<in> ran (pool_of st). vt_hash t = h"
    using wf_hash [OF assms t] by (auto simp: ran_def)
qed

lemma pool_queue_len:
  assumes "sched_wf st"
  shows "card {n. pool_of st (s, n) \<noteq> None} = queue_len (ss_sender_queues st) s"
proof (cases "bt_get (ss_sender_queues st) s")
  case None
  then show ?thesis by (simp add: pool_of_none [OF assms] queued_def queue_len_def)
next
  case (Some q)
  then have "{n. pool_of st (s, n) \<noteq> None} = {n. bt_get q n \<noteq> None}"
    by (simp add: pool_of_none [OF assms] queued_def)
  then have "card {n. pool_of st (s, n) \<noteq> None} = bt_len q"
    unfolding bt_len_def by (simp only: bt.length_entries)
  then show ?thesis using Some by (simp add: queue_len_def)
qed

lemma pool_of_enqueue:
  assumes "sched_wf st" and "bt_get (ss_pending st) (vt_hash tx) = None"
    and inc: "inc = queued (ss_sender_queues st) (tx_sender tx) (tx_nonce tx)"
  shows "pool_of (enqueue st tx inc) = (pool_of st)((tx_sender tx, tx_nonce tx) \<mapsto> tx)"
proof (rule ext, clarify)
  fix s n
  show "pool_of (enqueue st tx inc) (s, n) =
      ((pool_of st)((tx_sender tx, tx_nonce tx) \<mapsto> tx)) (s, n)"
  proof (cases "s = tx_sender tx \<and> n = tx_nonce tx")
    case False
    have "bt_get (ss_pending (enqueue st tx inc)) h = bt_get (ss_pending st) h"
      if h: "queued (ss_sender_queues st) s n = Some h" for h
    proof -
      obtain t where t: "bt_get (ss_pending st) h = Some t" "tx_sender t = s" "tx_nonce t = n"
        using wf_queued_iff [OF assms(1)] h by blast
      then have "inc \<noteq> Some h"
        using wf_queued_iff [OF assms(1)] False inc by auto
      moreover have "h \<noteq> vt_hash tx" using t assms(2) by auto
      ultimately show ?thesis by (simp add: bt_get_drop_incumbent)
    qed
    then show ?thesis
      using False by (cases "queued (ss_sender_queues st) s n") (auto simp: pool_of_def)
  qed (simp add: pool_of_def)
qed

lemma pool_of_same_queues: "same_queues st st' \<Longrightarrow> pool_of st' = pool_of st"
  by (simp add: pool_of_def same_queues_def)

lemma pool_of_counters [simp]:
  "pool_of (st\<lparr>ss_duplicate_total := x\<rparr>) = pool_of st"
  "pool_of (st\<lparr>ss_underpriced_replacement_total := x\<rparr>) = pool_of st"
  "pool_of (st\<lparr>ss_sender_limit_drop_total := x\<rparr>) = pool_of st"
  by (simp_all add: pool_of_def)

lemma admit_refines:
  assumes wf: "sched_wf st"
  shows "(ao_admission (fst (admit st tx config)), pool_of (snd (admit st tx config))) =
    pool_admit config (pool_of st) tx"
proof -
  let ?slot = "queued (ss_sender_queues st) (tx_sender tx) (tx_nonce tx)"
  have sound: "queues_sound (ss_pending st) (ss_sender_queues st)"
    using wf by (simp add: sched_wf_def sched_inv_def)
  show ?thesis
  proof (cases "bt_contains (ss_pending st) (vt_hash tx)")
    case True
    then show ?thesis
      by (simp add: admit_branches [OF sound] pool_admit_def pool_of_ran [OF wf])
  next
    case False
    then have new: "bt_get (ss_pending st) (vt_hash tx) = None" by (simp add: bt_contains_def)
    show ?thesis
    proof (cases ?slot)
      case None
      then show ?thesis
        using False pool_of_enqueue [OF wf new] pool_of_none [OF wf, of "tx_sender tx" "tx_nonce tx"]
        by (simp add: admit_branches [OF sound] pool_admit_def pool_of_ran [OF wf]
            pool_queue_len [OF wf, simplified])
    next
      case (Some i)
      then obtain inc where inc: "bt_get (ss_pending st) i = Some inc"
        using wf_queued_iff [OF wf] by blast
      then have "pool_of st (tx_sender tx, tx_nonce tx) = Some inc"
        using Some by (simp add: pool_of_def)
      then show ?thesis
        using False Some inc wf_hash [OF wf inc] pool_of_enqueue [OF wf new]
        by (simp add: admit_branches [OF sound] pool_admit_def pool_of_ran [OF wf])
    qed
  qed
qed

interpretation sched_pool: simulation "handle_command config" "pool_command config" sched_wf
    pool_of reply_admission for config
proof unfold_locales
  fix st c assume wf: "sched_wf st"
  show "sched_wf (snd (handle_command config st c))" by (rule handle_command_wf [OF wf])
  have "reply_admission (fst (handle_command config st c)) = fst (pool_command config (pool_of st) c)
      \<and> pool_of (snd (handle_command config st c)) = snd (pool_command config (pool_of st) c)"
  proof (cases c)
    case (Admit tx)
    then show ?thesis using admit_refines [OF wf, of tx config] by (simp add: prod_eq_iff)
  qed (simp_all add: pool_of_same_queues [OF register_candidates_same_queues]
      pool_of_same_queues [OF candidate_ops_same_queues(1)]
      pool_of_same_queues [OF candidate_ops_same_queues(2)]
      pool_of_same_queues [OF candidate_ops_same_queues(3)])
  then show "reply_admission (fst (handle_command config st c)) =
      fst (pool_command config (pool_of st) c)"
    and "pool_of (snd (handle_command config st c)) = snd (pool_command config (pool_of st) c)"
    by simp_all
qed

lemma pool_of_default: "pool_of default_scheduler_state = Map.empty"
  by (auto simp: pool_of_def default_scheduler_state_def)

text \<open>
  Property C1. The scheduler actor refines the abstract pool: from the initial state,
  for every sequence of commands (admissions interleaved with candidate registrations,
  simulation results, invalidations and head changes), the admission verdicts are those of the
  abstract pool indexed by sender and nonce, and so is the pool at the end.
\<close>

theorem scheduler_refines_pool:
  "map reply_admission (fst (run_commands config default_scheduler_state cmds)) =
      fst (map_state (pool_command config) Map.empty cmds) \<and>
   pool_of (snd (run_commands config default_scheduler_state cmds)) =
      snd (map_state (pool_command config) Map.empty cmds)"
  using sched_pool.run_refines [OF default_state_wf, of config cmds]
  by (simp add: run_commands_def pool_of_default)

text \<open>
  After any sequence of commands the pending map is keyed by transaction
  hash, and the sender queues index exactly the pending transactions: the slot of a
  sender and nonce holds a hash if and only if that hash is pending with that sender
  and nonce.
\<close>

theorem scheduler_index_exact:
  "let st = snd (run_commands config default_scheduler_state cmds)
   in (\<forall>h. pred_option (\<lambda>tx. vt_hash tx = h) (bt_get (ss_pending st) h)) \<and>
      (\<forall>s n h. queued (ss_sender_queues st) s n = Some h \<longleftrightarrow>
         (\<exists>tx. bt_get (ss_pending st) h = Some tx \<and> tx_sender tx = s \<and> tx_nonce tx = n))"
  unfolding Let_def
  using wf_hash [OF run_commands_wf] wf_queued_iff [OF run_commands_wf]
  by (auto simp: option.pred_set)

text \<open>
  Property C9. The counters that the actor maintains incrementally are exact after any
  sequence of commands: they are the lengths of the ready and blocked lists that a full
  classification computes, together they count every pending transaction once, and the
  executable frontier lists the hashes of the ready transactions.
\<close>

theorem scheduler_counts_exact:
  "let st = snd (run_commands config default_scheduler_state cmds)
   in ss_ready_total st = length (fst (classify_by_sender st)) \<and>
      ss_blocked_total st = length (snd (classify_by_sender st)) \<and>
      ss_ready_total st + ss_blocked_total st = bt_len (ss_pending st) \<and>
      executable_frontier_hashes st = map vt_hash (fst (classify_by_sender st))"
  unfolding Let_def
  using inv_totals [OF wf_inv [OF run_commands_wf]] wf_total [OF run_commands_wf]
    inv_frontier [OF wf_inv [OF run_commands_wf]] by blast


section \<open>The bound on a sender\<close>

lemma queue_len_queue_insert:
  "queue_len (queue_insert s n h queues) s' =
    (if s' = s
     then queue_len queues s + (if queued queues s n = None then 1 else 0)
     else queue_len queues s')"
  by (auto simp: queue_len_def queue_insert_def queued_def bt_len_insert split: option.splits)
    (simp_all add: bt_len_def bt.entries_empty)

definition within_limit :: "scheduler_config \<Rightarrow> scheduler_state \<Rightarrow> bool" where
  "within_limit config st \<longleftrightarrow>
     (\<forall>s. queue_len (ss_sender_queues st) s \<le> cfg_max_pending_per_sender config)"

lemma admit_within_limit:
  assumes "sched_wf st" and "within_limit config st"
  shows "within_limit config (snd (admit st tx config))"
proof -
  have sound: "queues_sound (ss_pending st) (ss_sender_queues st)"
    using assms by (simp add: sched_wf_def sched_inv_def)
  show ?thesis
    using assms(2) unfolding admit_branches [OF sound] within_limit_def
    by (auto simp: queue_len_queue_insert split: option.splits)
qed

lemma handle_command_within_limit:
  assumes "sched_wf st \<and> within_limit config st"
  shows "sched_wf (snd (handle_command config st c)) \<and>
    within_limit config (snd (handle_command config st c))"
proof
  show "sched_wf (snd (handle_command config st c))" using assms handle_command_wf by blast
  have same: "within_limit config st'" if "same_queues st st'" for st'
    using assms that by (simp add: within_limit_def same_queues_def)
  show "within_limit config (snd (handle_command config st c))"
    using assms
    by (cases c) (simp_all add: admit_within_limit same register_candidates_same_queues
        candidate_ops_same_queues)
qed

interpretation sched_limit: started_system "\<lambda>st c. snd (handle_command config st c)"
    "\<lambda>st. sched_wf st \<and> within_limit config st" default_scheduler_state for config
proof unfold_locales
  show "sched_wf default_scheduler_state \<and> within_limit config default_scheduler_state"
    using default_state_wf
    by (simp add: within_limit_def queue_len_def default_scheduler_state_def)
qed (rule handle_command_within_limit)

text \<open>
  No sender ever has more pending transactions than the configured limit,
  whatever the sequence of commands.
\<close>

theorem sender_limit_respected:
  "queue_len (ss_sender_queues (snd (run_commands config default_scheduler_state cmds))) s
    \<le> cfg_max_pending_per_sender config"
  using sched_limit.reachable_invar [of config cmds]
  by (simp add: run_commands_def snd_map_state within_limit_def)

section \<open>Ready and blocked\<close>

lemma positions_nonces:
  assumes "all_live (ss_pending st) q" and "bt_get (ss_sender_queues st) s = Some q"
  shows "map pos_nonce (sender_queue_positions st s) = bt_keys q"
    and "map pos_state (sender_queue_positions st s) =
      fst (map_state queue_entry_state (None, False) (bt_keys q))"
  using assms positions_loop_entries [of "ss_pending st" "(None, False)" "bt_entries q"]
    positions_loop_states [of "ss_pending st" "(None, False)" "bt_entries q"]
  by (simp_all add: sender_queue_positions_def live_entries bt_keys_def flip: map_map)
    (metis (no_types, lifting) comp_apply fst_conv map_eq_conv map_map)

lemma queued_in_keys:
  "bt_get queues s = Some q \<Longrightarrow> n \<in> set (bt_keys q) \<longleftrightarrow> queued queues s n \<noteq> None"
  by (simp add: queued_def bt_keys_set)

text \<open>
  What ready and blocked mean, after any sequence of commands: an entry is
  reported ready only if every nonce from the sender's lowest queued one up to its own
  is queued, and blocked on m only if m is the first missing nonce above the
  lowest one and lies below the entry.
\<close>

theorem sender_queue_classification:
  fixes config cmds s
  defines "st \<equiv> snd (run_commands config default_scheduler_state cmds)"
  defines "ps \<equiv> sender_queue_positions st s"
  assumes "i < length ps"
  shows "case pos_state (ps ! i) of
      Ready \<Rightarrow> \<forall>n. pos_nonce (hd ps) \<le> n \<and> n \<le> pos_nonce (ps ! i) \<longrightarrow>
        queued (ss_sender_queues st) s n \<noteq> None
    | Blocked m \<Rightarrow> pos_nonce (hd ps) < m \<and> m < pos_nonce (ps ! i) \<and>
        queued (ss_sender_queues st) s m = None \<and>
        (\<forall>n. pos_nonce (hd ps) \<le> n \<and> n < m \<longrightarrow> queued (ss_sender_queues st) s n \<noteq> None)"
proof -
  have wf: "sched_wf st" unfolding st_def by (rule run_commands_wf)
  obtain q where q: "bt_get (ss_sender_queues st) s = Some q"
    using assms(3) unfolding ps_def sender_queue_positions_def by (auto split: option.splits)
  have live: "all_live (ss_pending st) q"
    using wf q queues_sound_live by (auto simp: sched_wf_def sched_inv_def)
  note pos = positions_nonces [OF live q, folded ps_def]
  have len: "i < length (bt_keys q)" using assms(3) pos(1) by (metis length_map)
  have nth: "pos_nonce (ps ! i) = bt_keys q ! i" "pos_nonce (hd ps) = hd (bt_keys q)"
    "pos_state (ps ! i) = fst (map_state queue_entry_state (None, False) (bt_keys q)) ! i"
    using pos assms(3) by (metis nth_map, metis hd_map length_greater_0_conv not_less_zero
      list.size(3), metis nth_map)
  show ?thesis
    using sched_gap.entry_meaning [OF bt_keys_sorted len]
    unfolding nth queued_in_keys [OF q] by auto
qed


text \<open>A legacy transaction, for the concrete runs below.\<close>

definition legacy_tx :: "TxHash \<Rightarrow> Address \<Rightarrow> u64 \<Rightarrow> u128 \<Rightarrow> validated_transaction" where
  "legacy_tx hash sender nonce fee =
     \<lparr>vt_source_id = SourceId ''rpc'', vt_observed_at_unix_ms = 0, vt_observed_at_mono_ns = 0,
      vt_calldata = [],
      vt_decoded = \<lparr>dec_hash = hash, dec_tx_type = 0, dec_sender = sender, dec_nonce = nonce,
        dec_chain_id = Some 1, dec_to = None, dec_value_wei = None, dec_gas_limit = Some 21000,
        dec_gas_price_wei = Some fee, dec_max_fee_per_gas_wei = None,
        dec_max_priority_fee_per_gas_wei = None, dec_max_fee_per_blob_gas_wei = None,
        dec_calldata_len = Some 0\<rparr>\<rparr>"

theorem sender_queue_classification_witness:
  "let st = snd (run_commands default_scheduler_config default_scheduler_state
       [Admit (legacy_tx 1 7 3 5), Admit (legacy_tx 2 7 6 5)])
   in pos_state (sender_queue_positions st 7 ! 1) = Blocked 4 \<and>
      queued (ss_sender_queues st) 7 4 = None"
proof -
  let ?cmds = "[Admit (legacy_tx 1 7 3 5), Admit (legacy_tx 2 7 6 5)]"
  let ?st = "snd (run_commands default_scheduler_config default_scheduler_state ?cmds)"
  have 1: "pos_state (sender_queue_positions ?st 7 ! 1) = Blocked 4" by code_simp
  have "1 < length (sender_queue_positions ?st 7)" by code_simp
  from sender_queue_classification [OF this]
  have "queued (ss_sender_queues ?st) 7 4 = None" by (simp only: 1 scheduler_queue_state.case)
  with 1 show ?thesis by (simp only: Let_def simp_thms)
qed

section \<open>Reported transitions\<close>

lemma positions_hashes_distinct:
  assumes "sched_wf st"
  shows "distinct (map pos_hash (sender_queue_positions st s))"
proof (cases "bt_get (ss_sender_queues st) s")
  case (Some q)
  have live: "all_live (ss_pending st) q"
    using assms Some queues_sound_live by (auto simp: sched_wf_def sched_inv_def)
  have "inj_on snd (set (bt_entries q))"
  proof (rule inj_onI, clarsimp simp: bt.in_entries_iff)
    fix n n' h assume "bt_get q n = Some h" "bt_get q n' = Some h"
    then have "queued (ss_sender_queues st) s n = Some h" "queued (ss_sender_queues st) s n' = Some h"
      using Some by (simp_all add: queued_def)
    then show "n = n'" using wf_queued_iff [OF assms] by auto
  qed
  then have "distinct (map snd (bt_entries q))"
    using bt.keys_distinct [of q] by (simp add: distinct_map)
  moreover have "map pos_hash (sender_queue_positions st s) = map snd (bt_entries q)"
    using positions_loop_entries [of "ss_pending st" "(None, False)" "bt_entries q"] Some live
    by (simp add: sender_queue_positions_def live_entries flip: map_map)
      (metis (no_types, lifting) comp_apply map_eq_conv map_map snd_conv)
  ultimately show ?thesis by simp
qed (simp add: sender_queue_positions_def)

lemma get_states_by_hash:
  assumes "distinct (map pos_hash ps)"
  shows "bt_get (fold (\<lambda>p. bt_insert (pos_hash p) (pos_state p)) ps m) h = Some x \<longleftrightarrow>
    (\<exists>p \<in> set ps. pos_hash p = h \<and> pos_state p = x) \<or>
    (bt_get m h = Some x \<and> h \<notin> pos_hash ` set ps)"
  using assms by (induction ps arbitrary: m) (auto simp: rev_image_eqI)

lemma queue_transitions_set:
  assumes "distinct (map pos_hash prev)"
  shows "t \<in> set (queue_transitions st s prev) \<longleftrightarrow>
    (\<exists>p \<in> set (sender_queue_positions st s).
       t = \<lparr>qt_hash = pos_hash p, qt_sender = s, qt_nonce = pos_nonce p, qt_state = pos_state p\<rparr> \<and>
       \<not> (\<exists>p0 \<in> set prev. pos_hash p0 = pos_hash p \<and> pos_state p0 = pos_state p))"
  using get_states_by_hash [OF assms, of bt_empty]
  by (auto simp: queue_transitions_def in_set_map_filter Let_def)

text \<open>
  When a reachable scheduler admits a transaction, the transitions it
  reports are exactly the queue positions of that sender whose hash is new or whose
  state changed; when it does not admit the transaction it reports none.
\<close>

theorem admit_transitions_exact:
  fixes config cmds tx
  defines "st \<equiv> snd (run_commands config default_scheduler_state cmds)"
  defines "out \<equiv> fst (admit st tx config)"
  defines "st' \<equiv> snd (admit st tx config)"
  shows "t \<in> set (ao_queue_transitions out) \<longleftrightarrow>
    is_admitted (ao_admission out) \<and>
    (\<exists>p \<in> set (sender_queue_positions st' (tx_sender tx)).
       t = \<lparr>qt_hash = pos_hash p, qt_sender = tx_sender tx, qt_nonce = pos_nonce p,
            qt_state = pos_state p\<rparr> \<and>
       \<not> (\<exists>p0 \<in> set (sender_queue_positions st (tx_sender tx)).
            pos_hash p0 = pos_hash p \<and> pos_state p0 = pos_state p))"
proof -
  have wf: "sched_wf st" unfolding st_def by (rule run_commands_wf)
  then have sound: "queues_sound (ss_pending st) (ss_sender_queues st)"
    by (simp add: sched_wf_def sched_inv_def)
  show ?thesis
    unfolding out_def st'_def admit_branches [OF sound]
    by (simp add: queue_transitions_set [OF positions_hashes_distinct [OF wf]] split: option.split)
qed

section \<open>Replacement fees\<close>

lemma unat_div_ceil:
  fixes x b :: u128
  assumes "unat b = 10000"
  shows "unat (div_ceil x b) = (unat x + 9999) div 10000"
proof -
  have "unat (x div b) = unat x div 10000" "unat (x mod b) = unat x mod 10000"
    by (simp_all add: unat_div unat_mod assms)
  moreover have "unat x div 10000 + 1 < 2 ^ 128" using unat_le_max [of x] by simp
  then have "unat (x div b + 1) = unat x div 10000 + 1"
    by (simp add: unat_word_ariths unat_div assms)
  moreover have "(n + 9999) div 10000 = (if 0 < n mod 10000 then n div 10000 + 1 else n div 10000)"
    for n :: nat
  proof -
    have "n = 10000 * (n div 10000) + n mod 10000" "n mod 10000 < 10000" by simp_all
    then show ?thesis
      by (cases "0 < n mod 10000"; simp only: if_True if_False; intro div_nat_eqI; linarith)
  qed
  ultimately show ?thesis by (simp add: div_ceil_def word_less_nat_alt)
qed

lemma unat_threshold:
  assumes "unat (tx_fee inc) * (10000 + unat bps) < 2 ^ 128"
  shows "unat (replacement_threshold_fee inc bps) =
    (unat (tx_fee inc) * (10000 + unat bps) + 9999) div 10000"
proof -
  have "unat bps < 2 ^ 16" using unsigned_less [of bps] by simp
  then have "unat (sat_add 10000 (ucast bps) :: u128) = 10000 + unat bps"
    by (simp add: unat_sat_add unsigned_ucast_eq take_bit_nat_eq_self)
  then have m: "unat (sat_mul (tx_fee inc) (sat_add 10000 (ucast bps))) =
      unat (tx_fee inc) * (10000 + unat bps)"
    using assms by (simp add: unat_sat_mul)
  have "unat (div_ceil x 10000 :: u128) = (unat x + 9999) div 10000" for x :: u128
    by (rule unat_div_ceil) simp
  then show ?thesis
    using m by (simp add: replacement_threshold_fee_def tx_fee_def Let_def)
qed

text \<open>
  A replacement pays the configured bump: when a reachable scheduler
  replaces an incumbent whose fee times (10000 + bump) fits in 128 bits, the new fee is
  at least the incumbent's fee raised by the bump in basis points. The incumbent is gone
  and the replacement holds its slot.
\<close>

theorem replacement_pays_bump:
  fixes config cmds
  defines "st \<equiv> snd (run_commands config default_scheduler_state cmds)"
  assumes "ao_admission (fst (admit st tx config)) = Replaced i"
    and "bt_get (ss_pending st) i = Some inc"
    and "unat (tx_fee inc) * (10000 + unat (cfg_replacement_fee_bump_bps config)) < 2 ^ 128"
  shows "unat (tx_fee inc) * (10000 + unat (cfg_replacement_fee_bump_bps config))
      \<le> unat (tx_fee tx) * 10000 \<and>
    bt_get (ss_pending (snd (admit st tx config))) i = None \<and>
    queued (ss_sender_queues (snd (admit st tx config))) (tx_sender inc) (tx_nonce inc) =
      Some (vt_hash tx)"
proof -
  have wf: "sched_wf st" unfolding st_def by (rule run_commands_wf)
  then have sound: "queues_sound (ss_pending st) (ss_sender_queues st)"
    by (simp add: sched_wf_def sched_inv_def)
  have new: "\<not> bt_contains (ss_pending st) (vt_hash tx)"
    and slot: "queued (ss_sender_queues st) (tx_sender tx) (tx_nonce tx) = Some i"
    and fee: "replacement_threshold_fee inc (cfg_replacement_fee_bump_bps config) \<le> tx_fee tx"
    and st': "snd (admit st tx config) = enqueue st tx (Some i)"
    using assms(2,3) unfolding admit_branches [OF sound]
    by (auto split: if_splits option.splits)
  have "i \<noteq> vt_hash tx" using new assms(3) by (auto simp: bt_contains_def)
  moreover have "tx_sender inc = tx_sender tx" "tx_nonce inc = tx_nonce tx"
    using slot assms(3) wf_queued_iff [OF wf] by auto
  moreover have "unat (tx_fee inc) * (10000 + unat (cfg_replacement_fee_bump_bps config))
      \<le> unat (tx_fee tx) * 10000"
    using fee unat_threshold [OF assms(4)] by (simp add: word_le_nat_alt)
  ultimately show ?thesis by (simp add: st' bt_get_drop_incumbent)
qed

theorem replacement_pays_bump_witness:
  "let st = snd (run_commands default_scheduler_config default_scheduler_state
       [Admit (legacy_tx 1 7 3 1000)])
   in ao_admission (fst (admit st (legacy_tx 2 7 3 1100) default_scheduler_config)) = Replaced 1 \<and>
      bt_get (ss_pending (snd (admit st (legacy_tx 2 7 3 1100) default_scheduler_config))) 1 = None"
proof -
  let ?st = "snd (run_commands default_scheduler_config default_scheduler_state
     [Admit (legacy_tx 1 7 3 1000)])"
  have 1: "ao_admission (fst (admit ?st (legacy_tx 2 7 3 1100) default_scheduler_config)) = Replaced 1"
    by code_simp
  have 2: "bt_get (ss_pending ?st) 1 = Some (legacy_tx 1 7 3 1000)" by code_simp
  have "unat (tx_fee (legacy_tx 1 7 3 1000)) *
      (10000 + unat (cfg_replacement_fee_bump_bps default_scheduler_config)) < 2 ^ 128"
    by (simp add: tx_fee_def legacy_tx_def replacement_fee_def default_scheduler_config_def)
  from replacement_pays_bump [OF 1 2 this] 1 show ?thesis by (simp only: Let_def simp_thms)
qed

text \<open>
  Outside that range the threshold saturates: with the default bump of 10\%,
  an incumbent whose fee is the largest 128-bit value is replaced by a transaction that
  offers less than a thousandth of it.
\<close>

theorem replacement_saturation_underbid:
  "let st = snd (run_commands default_scheduler_config default_scheduler_state
       [Admit (legacy_tx 1 7 3 (- 1))])
   in ao_admission (fst (admit st (legacy_tx 2 7 3 (2 ^ 115)) default_scheduler_config)) =
        Replaced 1 \<and>
      tx_fee (legacy_tx 2 7 3 (2 ^ 115)) < tx_fee (legacy_tx 1 7 3 (- 1)) div 1000"
  by code_simp

end
