(* ===== verification/Scheduler_Candidates.thy ===== *)
theory Scheduler_Candidates
  imports Scheduler_Pool
begin

text \<open>
  Candidates and their simulation results: the generation counter of a candidate never
  moves back, so that a result which was superseded (by a re-registration, by the
  invalidation of a transaction, or by an earlier result of the same generation) is
  dropped as stale whatever happens in between, and only a current result reaches the
  builder.
\<close>

section \<open>Generations\<close>

definition generation_of :: "scheduler_state \<Rightarrow> candidate_id \<Rightarrow> u64 option" where
  "generation_of st cid = map_option ce_generation (bt_get (ss_candidates st) cid)"

definition generation_after :: "candidate_id \<Rightarrow> u64 \<Rightarrow> scheduler_state \<Rightarrow> bool" where
  "generation_after cid g st \<longleftrightarrow> (\<exists>g'. generation_of st cid = Some g' \<and> g < g')"

lemma next_generation_ge: "g \<le> next_generation g"
  unfolding next_generation_def by (meson max.coboundedI1 sat_add_mono)

lemma next_generation_gt: "g \<noteq> - 1 \<Longrightarrow> g < next_generation g"
proof -
  assume "g \<noteq> - 1"
  then have "unat g \<noteq> unat (- 1 :: u64)" using word_unat_eq_iff by blast
  then have "unat g \<noteq> 2 ^ 64 - 1" by (simp add: unat_minus_one_max)
  then have "unat g < unat (sat_add g 1)"
    using unat_le_max [of g] by (simp add: unat_sat_add)
  then show ?thesis
    unfolding next_generation_def less_max_iff_disj by (simp add: word_less_nat_alt)
qed

lemma bt_get_fold_bump:
  "distinct cids \<Longrightarrow>
    bt_get (fold (\<lambda>cid. bt_adjust cid f) cids m) cid =
      (if cid \<in> set cids then map_option f (bt_get m cid) else bt_get m cid)"
  by (induction cids arbitrary: m) auto

lemma generation_of_invalidate:
  "generation_of (invalidate_candidate_hash st h) cid =
    (case bt_get (ss_candidates st) cid of
       None \<Rightarrow> None
     | Some entry \<Rightarrow> Some (if candidate_involves h entry then next_generation (ce_generation entry)
                           else ce_generation entry))"
proof -
  let ?ids = "map fst (filter (\<lambda>(_, entry). candidate_involves h entry)
    (bt_entries (ss_candidates st)))"
  have "distinct ?ids" using bt.keys_distinct [of "ss_candidates st"] by (rule distinct_map_filter)
  moreover have "cid \<in> set ?ids \<longleftrightarrow>
      (\<exists>entry. bt_get (ss_candidates st) cid = Some entry \<and> candidate_involves h entry)"
    by (force simp: bt.in_entries_iff)
  ultimately show ?thesis
    by (auto simp: generation_of_def invalidate_candidate_hash_def bt_get_fold_bump Let_def
        split: option.splits)
qed

lemma generation_of_register:
  "generation_of (snd (register_candidate st c)) cid =
    (if cid = cand_candidate_id c
     then Some (case generation_of st cid of Some g \<Rightarrow> next_generation g | None \<Rightarrow> 1)
     else generation_of st cid)"
  by (auto simp: generation_of_def register_candidate_def Let_def split: option.splits)

lemma generation_of_apply:
  "generation_of (snd (apply_simulation_result st r)) cid =
    (if cid = sr_candidate_id r \<and> sao_stale_result_drop_total (fst (apply_simulation_result st r)) = 0
     then map_option next_generation (generation_of st cid)
     else generation_of st cid)"
  by (auto simp: generation_of_def apply_simulation_result_def record_stale_simulation_result_def
      Let_def split: option.splits)

lemma generation_of_admit: "generation_of (snd (admit st tx config)) cid = generation_of st cid"
  by (simp add: admit_def Let_def generation_of_def split: option.splits)

lemma generation_after_map:
  "generation_after cid g st \<Longrightarrow>
    generation_of st' cid \<in> {generation_of st cid, map_option next_generation (generation_of st cid)}
    \<Longrightarrow> generation_after cid g st'"
  by (auto simp: generation_after_def intro: less_le_trans [OF _ next_generation_ge])

lemma generation_after_step:
  assumes "generation_after cid g st"
  shows "generation_after cid g (snd (handle_command config st c))"
proof (cases c)
  case (RegisterCandidates cs)
  have "generation_after cid g (foldl (\<lambda>s c. snd (register_candidate s c)) st cs)"
    using assms
  proof (induction cs arbitrary: st)
    case (Cons c cs)
    have "generation_after cid g (snd (register_candidate st c))"
      using Cons.prems by (rule generation_after_map)
        (use Cons.prems in \<open>auto simp: generation_of_register generation_after_def\<close>)
    then show ?case using Cons.IH by simp
  qed simp
  then show ?thesis
    using RegisterCandidates
    by (simp add: register_candidates_def case_prod_unfold Let_def snd_map_state)
next
  case (Admit tx)
  then show ?thesis using assms by (simp add: generation_after_def generation_of_admit)
next
  case (ApplySimulationResult r)
  then show ?thesis
    using generation_after_map [OF assms] by (simp add: generation_of_apply)
next
  case (InvalidateCandidateHash h)
  have "generation_of (invalidate_candidate_hash st h) cid
      \<in> {generation_of st cid, map_option next_generation (generation_of st cid)}"
    unfolding generation_of_invalidate by (auto simp: generation_of_def split: option.splits)
  then show ?thesis
    using generation_after_map [OF assms] InvalidateCandidateHash by simp
next
  case (AdvanceHead n)
  then show ?thesis
    using assms by (simp add: generation_after_def generation_of_def advance_head_def)
qed

interpretation sched_generation: step_system "\<lambda>st c. snd (handle_command config st c)"
    "generation_after cid g" for config cid g
  by unfold_locales (rule generation_after_step)

text \<open>A result is dropped, and counted, as stale.\<close>

definition dropped_stale :: "scheduler_state \<Rightarrow> scheduler_simulation_result \<Rightarrow> bool" where
  "dropped_stale st r \<longleftrightarrow>
     apply_simulation_result st r =
       (\<lparr>sao_builder_handoffs = [], sao_stale_result_drop_total = 1\<rparr>,
        st\<lparr>ss_stale_simulation_drop_total := sat_add (ss_stale_simulation_drop_total st) 1\<rparr>)"

lemma older_generation_stale:
  "generation_after (sr_candidate_id r) g st \<Longrightarrow> sr_generation r \<le> g \<Longrightarrow> dropped_stale st r"
  by (auto simp: generation_after_def generation_of_def dropped_stale_def
      apply_simulation_result_def record_stale_simulation_result_def Let_def)

lemma superseded_stale:
  assumes "generation_after (sr_candidate_id r) g st" and "sr_generation r \<le> g"
  shows "dropped_stale (snd (run_commands config st cmds)) r"
  using older_generation_stale [OF sched_generation.run_invar [OF assms(1)] assms(2)]
  by (simp add: run_commands_def snd_map_state)

section \<open>What reaches the builder\<close>

text \<open>
  Property C5. At most one builder handoff per generation: once a simulation result of a
  candidate has been accepted, every later result for that candidate with the same or an
  older generation is dropped as stale, whatever commands are handled in between (the
  generation counter being below its 64-bit maximum).
\<close>

theorem accepted_result_only_once:
  assumes "sao_stale_result_drop_total (fst (apply_simulation_result st r)) = 0"
    and "sr_generation r \<noteq> - 1"
    and "sr_candidate_id r' = sr_candidate_id r" and "sr_generation r' \<le> sr_generation r"
  shows "dropped_stale (snd (run_commands config (snd (apply_simulation_result st r)) cmds)) r'"
proof -
  have "generation_of st (sr_candidate_id r) = Some (sr_generation r)"
    using assms(1)
    by (auto simp: apply_simulation_result_def record_stale_simulation_result_def Let_def
        generation_of_def split: option.splits if_splits)
  then have "generation_after (sr_candidate_id r) (sr_generation r)
      (snd (apply_simulation_result st r))"
    using assms(1) next_generation_gt [OF assms(2)]
    by (simp add: generation_after_def generation_of_apply)
  then show ?thesis using assms(3,4) by (intro superseded_stale [of r' "sr_generation r"]) simp_all
qed

text \<open>
  Invalidating a transaction makes every outstanding simulation result of a
  candidate that contains it stale, for good: no command sequence afterwards lets a
  result of the invalidated generation through.
\<close>

theorem invalidated_result_stale:
  assumes "bt_get (ss_candidates st) (sr_candidate_id r) = Some entry"
    and "candidate_involves h entry"
    and "ce_generation entry \<noteq> - 1" and "sr_generation r \<le> ce_generation entry"
  shows "dropped_stale (snd (run_commands config (invalidate_candidate_hash st h) cmds)) r"
proof -
  have "generation_after (sr_candidate_id r) (ce_generation entry) (invalidate_candidate_hash st h)"
    using assms(1,2) next_generation_gt [OF assms(3)]
    by (simp add: generation_after_def generation_of_invalidate)
  then show ?thesis using assms(4) by (intro superseded_stale) simp_all
qed

definition echo_result :: "simulation_task_spec \<Rightarrow> bool \<Rightarrow> scheduler_simulation_result" where
  "echo_result task approved =
     \<lparr>sr_candidate_id = spec_candidate_id task, sr_tx_hash = spec_tx_hash task,
      sr_member_tx_hashes = spec_member_tx_hashes task, sr_block_number = spec_block_number task,
      sr_generation = spec_generation task, sr_approved = approved\<rparr>"

text \<open>
  A dispatched task that comes back approved reaches the builder: the result
  that echoes the task of a registration is accepted, and its handoff carries the
  registered candidate and the head block. A second result for the same task is dropped
  unless the generation is saturated.
\<close>

theorem registered_candidate_handoff:
  "let (task, st') = register_candidate st c
   in fst (apply_simulation_result st' (echo_result task approved)) =
        \<lparr>sao_builder_handoffs =
           (if approved then [\<lparr>bh_candidate = c, bh_block_number = ss_head_block_number st\<rparr>]
            else []),
         sao_stale_result_drop_total = 0\<rparr>"
  by (simp add: register_candidate_def echo_result_def apply_simulation_result_def
      normalized_member_hashes_def Let_def)

section \<open>Concrete runs\<close>

definition sample_candidate :: scheduler_candidate where
  "sample_candidate =
     \<lparr>cand_candidate_id = CandidateId ''c1'', cand_tx_hash = 1, cand_member_tx_hashes = [1, 2],
      cand_score = 10, cand_strategy = StrategyId ''arb'', cand_detected_unix_ms = 0\<rparr>"

definition sample_state :: scheduler_state where
  "sample_state = snd (register_candidate default_scheduler_state sample_candidate)"

definition sample_result :: scheduler_simulation_result where
  "sample_result =
     \<lparr>sr_candidate_id = CandidateId ''c1'', sr_tx_hash = 1, sr_member_tx_hashes = [1, 2],
      sr_block_number = 0, sr_generation = 1, sr_approved = True\<rparr>"

theorem accepted_result_only_once_witness:
  "dropped_stale
     (snd (run_commands default_scheduler_config
        (snd (apply_simulation_result sample_state sample_result))
        [RegisterCandidates [sample_candidate]])) sample_result"
  by (rule accepted_result_only_once) code_simp+

theorem invalidated_result_stale_witness:
  "dropped_stale
     (snd (run_commands default_scheduler_config (invalidate_candidate_hash sample_state 2)
        [AdvanceHead 0])) sample_result"
proof (rule invalidated_result_stale)
  show "bt_get (ss_candidates sample_state) (sr_candidate_id sample_result) =
      Some \<lparr>ce_candidate = sample_candidate, ce_block_number = 0, ce_generation = 1\<rparr>"
    by code_simp
qed code_simp+

end
