(* ===== verification/Scheduler_Rehydration.thy ===== *)
theory Scheduler_Rehydration
  imports Scheduler_Candidates
begin

text \<open>
  Persistence of the scheduler: a snapshot of a well-formed state rehydrates to the same
  pending set, queues and counts; whatever snapshot is accepted, the state it gives
  satisfies the invariant; and the states reached from it by commands do too.
\<close>

section \<open>Recomputing the counts\<close>

text \<open>The counts of the senders in \<open>S\<close> are in place.\<close>

definition counts_of :: "Address set \<Rightarrow> scheduler_state \<Rightarrow> bool" where
  "counts_of S st \<longleftrightarrow>
     (\<forall>s. bt_get (ss_sender_queue_counts st) s =
        (if s \<in> S then map_option queue_spec (bt_get (ss_sender_queues st) s) else None)) \<and>
     ss_ready_total st = (\<Sum>s\<in>S. qc_ready (queue_spec (the (bt_get (ss_sender_queues st) s)))) \<and>
     ss_blocked_total st = (\<Sum>s\<in>S. qc_blocked (queue_spec (the (bt_get (ss_sender_queues st) s))))"

lemma refresh_counts_of:
  assumes "queues_sound (ss_pending st) (ss_sender_queues st)" and "counts_of S st"
    and "finite S" and "s \<notin> S" and "bt_get (ss_sender_queues st) s = Some q"
  shows "counts_of (insert s S) (refresh_sender_counts st s)"
proof -
  have "q \<noteq> bt_empty" using queues_soundD(3) [OF assms(1)] assms(5) by blast
  from refresh_sender_counts_live [OF assms(5) this queues_sound_live [OF assms(1,5)]]
  show ?thesis using assms(2-5) by (auto simp: counts_of_def zero_counts_def Let_def)
qed

lemma refresh_all_counts_of:
  assumes "queues_sound (ss_pending st) (ss_sender_queues st)" and "counts_of S st"
    and "finite S" and "distinct ss" and "S \<inter> set ss = {}"
    and "\<And>s. s \<in> set ss \<Longrightarrow> bt_get (ss_sender_queues st) s \<noteq> None"
  shows "counts_of (S \<union> set ss) (foldl refresh_sender_counts st ss)"
  using assms
proof (induction ss arbitrary: S st)
  case (Cons s ss)
  then obtain q where "bt_get (ss_sender_queues st) s = Some q" by fastforce
  then have "counts_of (insert s S) (refresh_sender_counts st s)"
    using Cons.prems by (intro refresh_counts_of) auto
  then have "counts_of (insert s S \<union> set ss) (foldl refresh_sender_counts (refresh_sender_counts st s) ss)"
    using Cons.prems by (intro Cons.IH) auto
  then show ?case by simp
qed simp

lemma foldl_refresh_frame [simp]:
  "ss_pending (foldl refresh_sender_counts st ss) = ss_pending st"
  "ss_sender_queues (foldl refresh_sender_counts st ss) = ss_sender_queues st"
  "ss_candidates (foldl refresh_sender_counts st ss) = ss_candidates st"
  "ss_head_block_number (foldl refresh_sender_counts st ss) = ss_head_block_number st"
  by (induction ss arbitrary: st) simp_all

lemma recompute_frame [simp]:
  "ss_pending (recompute_queue_counts st) = ss_pending st"
  "ss_sender_queues (recompute_queue_counts st) = ss_sender_queues st"
  "ss_candidates (recompute_queue_counts st) = ss_candidates st"
  "ss_head_block_number (recompute_queue_counts st) = ss_head_block_number st"
  by (simp_all add: recompute_queue_counts_def)

lemma recompute_counts_ok:
  assumes "queues_sound (ss_pending st) (ss_sender_queues st)"
  shows "counts_ok (recompute_queue_counts st)"
proof -
  let ?Q = "ss_sender_queues st"
  let ?st0 = "st\<lparr>ss_sender_queue_counts := bt_empty, ss_ready_total := 0, ss_blocked_total := 0\<rparr>"
  have d: "distinct (bt_keys ?Q)" using bt_keys_sorted [of ?Q] by (simp add: strict_sorted_iff)
  have "counts_of ({} \<union> set (bt_keys ?Q)) (foldl refresh_sender_counts ?st0 (bt_keys ?Q))"
    using assms d by (intro refresh_all_counts_of) (auto simp: counts_of_def bt_keys_set)
  then have "counts_of (set (bt_keys ?Q)) (recompute_queue_counts st)"
    by (simp add: recompute_queue_counts_def)
  then show ?thesis
    using d by (auto simp: counts_of_def counts_ok_def bt_keys_set bt_values_via_keys comp_def
        sum_list_distinct_conv_sum_set)
qed

section \<open>Loading the pending transactions\<close>

lemma load_pending_loop:
  "fold_result (\<lambda>pending tx. if bt_contains pending (vt_hash tx)
      then Inl (DuplicatePendingHash (vt_hash tx)) else Inr (bt_insert (vt_hash tx) tx pending))
     m txs = Inr pending \<longleftrightarrow>
    distinct (map vt_hash txs) \<and> (\<forall>tx \<in> set txs. \<not> bt_contains m (vt_hash tx)) \<and>
    pending = fold (\<lambda>tx. bt_insert (vt_hash tx) tx) txs m"
  by (induction txs arbitrary: m) (auto simp: bt_contains_def image_iff)

lemma load_pending_iff:
  "load_pending txs = Inr pending \<longleftrightarrow>
    distinct (map vt_hash txs) \<and> pending = fold (\<lambda>tx. bt_insert (vt_hash tx) tx) txs bt_empty"
  unfolding load_pending_def load_pending_loop by (simp add: bt_contains_def)

lemma load_pending_keyed:
  assumes "load_pending txs = Inr pending" and "bt_get pending h = Some tx"
  shows "vt_hash tx = h"
proof -
  have "\<forall>h tx. bt_get pending h = Some tx \<longrightarrow> vt_hash tx = h"
    using assms(1) unfolding load_pending_def
    by (rule fold_result_invar) (auto split: if_splits)
  then show ?thesis using assms(2) by blast
qed

lemma load_pending_roundtrip:
  assumes keyed: "\<And>h tx. bt_get pending h = Some tx \<Longrightarrow> vt_hash tx = h"
  shows "load_pending (bt_values pending) = Inr pending"
proof -
  have eq: "map vt_hash (bt_values pending) = bt_keys pending"
    using keyed by (auto simp: bt_values_via_keys comp_def bt_keys_set intro!: map_idI)
  then have d: "distinct (map vt_hash (bt_values pending))"
    using bt_keys_sorted [of pending] by (simp add: strict_sorted_iff)
  have "bt_entries pending = map (\<lambda>tx. (vt_hash tx, tx)) (bt_values pending)"
    using keyed by (auto simp: bt_values_def bt.in_entries_iff intro!: map_idI [symmetric])
  then have "fold (\<lambda>tx. bt_insert (vt_hash tx) tx) (bt_values pending) bt_empty =
      fold (\<lambda>(k, v). bt_insert k v) (bt_entries pending) bt_empty"
    by (simp add: fold_map comp_def)
  also have "\<dots> = pending"
    by (rule bt_ext) (simp add: bt.get_fold_insert bt.map_of_rev_entries split: option.split)
  finally show ?thesis using d by (simp add: load_pending_iff)
qed


section \<open>Loading the queues\<close>

text \<open>Without empty queues, a queue map is determined by its slots.\<close>

lemma queue_map_ext:
  assumes "\<And>s n. queued q1 s n = queued q2 s n"
    and "\<And>s. bt_get q1 s \<noteq> Some bt_empty" and "\<And>s. bt_get q2 s \<noteq> Some bt_empty"
  shows "q1 = q2"
proof (rule bt_ext)
  fix s
  have get: "Option.bind (bt_get q1 s) (\<lambda>q. bt_get q n) = Option.bind (bt_get q2 s) (\<lambda>q. bt_get q n)"
    for n using assms(1) [of s n] by (simp add: queued_def)
  have ne: "q = bt_empty" if "\<And>n. None = bt_get q n" for q :: nonce_queue
    using that by (auto intro!: bt_ext)
  show "bt_get q1 s = bt_get q2 s"
  proof (cases "bt_get q1 s")
    case None
    then show ?thesis using get assms(3) [of s] ne by (cases "bt_get q2 s") simp_all
  next
    case (Some a)
    then show ?thesis
      using get assms(2) [of s] ne [of a] by (cases "bt_get q2 s") (auto intro!: bt_ext)
  qed
qed

text \<open>A queue entry of a snapshot that names a pending transaction of its slot.\<close>

definition entry_valid :: "pending_map \<Rightarrow> Address \<times> persisted_sender_queue_entry \<Rightarrow> bool" where
  "entry_valid pending = (\<lambda>(s, e). \<exists>tx. bt_get pending (pe_hash e) = Some tx \<and>
     tx_sender tx = s \<and> tx_nonce tx = pe_nonce e)"

abbreviation slot :: "Address \<times> persisted_sender_queue_entry \<Rightarrow> Address \<times> u64" where
  "slot x \<equiv> (fst x, pe_nonce (snd x))"

lemma load_queue_entry_Inr:
  "load_queue_entry pending s queues e = Inr q \<longleftrightarrow>
    entry_valid pending (s, e) \<and> queued queues s (pe_nonce e) = None \<and>
    q = queue_insert s (pe_nonce e) (pe_hash e) queues"
  by (auto simp: load_queue_entry_def insert_sender_queue_entry_def entry_valid_def
      simp flip: queued_def split: option.splits)

lemma load_entries_Inr:
  "fold_result (\<lambda>q (s, e). load_queue_entry pending s q e) queues xs = Inr q \<longleftrightarrow>
    (\<forall>x \<in> set xs. entry_valid pending x \<and> queued queues (fst x) (pe_nonce (snd x)) = None) \<and>
    distinct (map slot xs) \<and>
    q = fold (\<lambda>(s, e). queue_insert s (pe_nonce e) (pe_hash e)) xs queues"
proof (induction xs arbitrary: queues)
  case (Cons x xs)
  obtain s e where x: "x = (s, e)" by force
  show ?case
  proof (cases "entry_valid pending x \<and> queued queues s (pe_nonce e) = None")
    case True
    then have "load_queue_entry pending s queues e =
        Inr (queue_insert s (pe_nonce e) (pe_hash e) queues)"
      by (simp add: load_queue_entry_Inr x)
    then show ?thesis using True x by (force simp: Cons.IH split: if_splits)
  next
    case False
    then have "\<nexists>q. load_queue_entry pending s queues e = Inr q"
      by (simp add: load_queue_entry_Inr x)
    then obtain err where "load_queue_entry pending s queues e = Inl err"
      by (metis Inl_Inr_False sum.exhaust_sel)
    then show ?thesis using False x by auto
  qed
qed auto

lemma queued_fold_insert:
  assumes "distinct (map slot xs)"
  shows "queued (fold (\<lambda>(s, e). queue_insert s (pe_nonce e) (pe_hash e)) xs queues) s n = Some h \<longleftrightarrow>
    (\<exists>e. (s, e) \<in> set xs \<and> pe_nonce e = n \<and> pe_hash e = h) \<or>
    (queued queues s n = Some h \<and> (s, n) \<notin> set (map slot xs))"
  using assms by (induction xs arbitrary: queues) (auto simp: image_iff split: if_splits)

lemma fold_insert_not_empty:
  "bt_get (fold (\<lambda>(s, e). queue_insert s (pe_nonce e) (pe_hash e)) xs queues) s = Some bt_empty \<Longrightarrow>
    bt_get queues s = Some bt_empty"
  by (induction xs arbitrary: queues) (auto dest: queue_insert_not_empty)

definition snapshot_entries ::
  "persisted_sender_queue_snapshot list \<Rightarrow> (Address \<times> persisted_sender_queue_entry) list" where
  "snapshot_entries qs = concat (map (\<lambda>q. map (Pair (pq_sender q)) (pq_queued q)) qs)"

lemma build_from_snapshot_iff:
  "build_sender_queues_from_snapshot qs pending = Inr queues \<longleftrightarrow>
    (\<forall>x \<in> set (snapshot_entries qs). entry_valid pending x) \<and>
    distinct (map slot (snapshot_entries qs)) \<and>
    queues = fold (\<lambda>(s, e). queue_insert s (pe_nonce e) (pe_hash e)) (snapshot_entries qs) bt_empty"
  unfolding build_sender_queues_from_snapshot_def fold_result_nested load_entries_Inr
    snapshot_entries_def by auto


section \<open>Every accepted snapshot gives a sound state\<close>

lemma build_from_snapshot_sound:
  assumes "build_sender_queues_from_snapshot qs pending = Inr queues"
    and keyed: "\<And>h tx. bt_get pending h = Some tx \<Longrightarrow> vt_hash tx = h"
  shows "queues_sound pending queues"
proof -
  have valid: "\<forall>x \<in> set (snapshot_entries qs). entry_valid pending x"
    and d: "distinct (map slot (snapshot_entries qs))"
    and q: "queues = fold (\<lambda>(s, e). queue_insert s (pe_nonce e) (pe_hash e))
      (snapshot_entries qs) bt_empty"
    using assms(1) by (simp_all add: build_from_snapshot_iff)
  have "\<exists>tx. bt_get pending h = Some tx \<and> tx_sender tx = s \<and> tx_nonce tx = n"
    if "queued queues s n = Some h" for s n h
    using that valid unfolding q queued_fold_insert [OF d] by (auto simp: entry_valid_def)
  moreover have "bt_get queues s \<noteq> Some bt_empty" for s
    using fold_insert_not_empty [of "snapshot_entries qs" bt_empty s] by (auto simp: q)
  ultimately show ?thesis using keyed by (simp add: queues_sound_def)
qed

text \<open>
  Building from the pending set only is the special case of a snapshot with one entry
  per pending transaction.
\<close>

definition pending_entry :: "validated_transaction \<Rightarrow> Address \<times> persisted_sender_queue_entry" where
  "pending_entry tx = (tx_sender tx, \<lparr>pe_nonce = tx_nonce tx, pe_hash = vt_hash tx\<rparr>)"

lemma build_from_pending_entries:
  assumes keyed: "\<And>h tx. bt_get pending h = Some tx \<Longrightarrow> vt_hash tx = h"
  shows "build_sender_queues_from_pending pending =
    fold_result (\<lambda>q (s, e). load_queue_entry pending s q e) bt_empty
      (map pending_entry (bt_values pending))"
proof -
  have "fold_result
      (\<lambda>queues tx. insert_sender_queue_entry queues (tx_sender tx) (tx_nonce tx) (vt_hash tx)) q txs =
    fold_result (\<lambda>q (s, e). load_queue_entry pending s q e) q (map pending_entry txs)"
    if "\<forall>tx \<in> set txs. bt_get pending (vt_hash tx) = Some tx" for q txs
    using that
    by (induction txs arbitrary: q)
      (auto simp: pending_entry_def load_queue_entry_def split: sum.splits)
  moreover have "\<forall>tx \<in> set (bt_values pending). bt_get pending (vt_hash tx) = Some tx"
    using keyed by (auto simp: bt_values_set)
  ultimately show ?thesis by (simp add: build_sender_queues_from_pending_def)
qed

lemma build_from_pending_iff:
  assumes keyed: "\<And>h tx. bt_get pending h = Some tx \<Longrightarrow> vt_hash tx = h"
  shows "build_sender_queues_from_pending pending = Inr queues \<longleftrightarrow>
    distinct (map (\<lambda>tx. (tx_sender tx, tx_nonce tx)) (bt_values pending)) \<and>
    queues = fold (\<lambda>(s, e). queue_insert s (pe_nonce e) (pe_hash e))
      (map pending_entry (bt_values pending)) bt_empty"
proof -
  have "\<forall>tx \<in> set (bt_values pending). entry_valid pending (pending_entry tx)"
    using keyed by (auto simp: bt_values_set entry_valid_def pending_entry_def)
  moreover have "build_sender_queues_from_pending pending =
      fold_result (\<lambda>q (s, e). load_queue_entry pending s q e) bt_empty
        (map pending_entry (bt_values pending))"
    using keyed by (rule build_from_pending_entries)
  ultimately show ?thesis
    by (simp add: load_entries_Inr comp_def) (simp add: pending_entry_def)
qed

lemma build_from_pending_wf:
  assumes "build_sender_queues_from_pending pending = Inr queues"
    and keyed: "\<And>h tx. bt_get pending h = Some tx \<Longrightarrow> vt_hash tx = h"
  shows "queues_sound pending queues" and "queues_complete pending queues"
proof -
  let ?xs = "map pending_entry (bt_values pending)"
  have d: "distinct (map slot ?xs)"
    and q: "queues = fold (\<lambda>(s, e). queue_insert s (pe_nonce e) (pe_hash e)) ?xs bt_empty"
    using assms(1) by (simp_all add: build_from_pending_iff [OF keyed] comp_def pending_entry_def)
  have "queued queues s n = Some h \<longleftrightarrow>
      (\<exists>tx. bt_get pending h = Some tx \<and> tx_sender tx = s \<and> tx_nonce tx = n)" for s n h
    unfolding q queued_fold_insert [OF d]
    using keyed by (force simp: pending_entry_def bt_values_set)
  moreover have "bt_get queues s \<noteq> Some bt_empty" for s
    using fold_insert_not_empty [of ?xs bt_empty s] by (auto simp: q)
  ultimately show "queues_sound pending queues" and "queues_complete pending queues"
    using keyed by (auto simp: queues_sound_def queues_complete_def)
qed

lemma from_persisted_snapshot_inv:
  assumes "from_persisted_snapshot snapshot = Inr st"
  shows "sched_inv st"
    and "ps_sender_queues snapshot = [] \<Longrightarrow> sched_wf st"
proof -
  obtain pending queues where p: "load_pending (ps_pending snapshot) = Inr pending"
    and q: "(if ps_sender_queues snapshot = [] then build_sender_queues_from_pending pending
      else build_sender_queues_from_snapshot (ps_sender_queues snapshot) pending) = Inr queues"
    and st: "st = recompute_queue_counts
      (default_scheduler_state\<lparr>ss_pending := pending, ss_sender_queues := queues\<rparr>)"
    using assms by (auto simp: from_persisted_snapshot_def Let_def split: sum.splits if_splits)
  note keyed = load_pending_keyed [OF p]
  have "queues_sound pending queues"
    using q build_from_pending_wf [of pending queues] build_from_snapshot_sound [of _ pending queues]
      keyed by (auto split: if_splits)
  then show inv: "sched_inv st"
    by (simp add: st sched_inv_def recompute_counts_ok)
  assume "ps_sender_queues snapshot = []"
  then show "sched_wf st"
    using inv q build_from_pending_wf(2) [of pending queues] keyed by (simp add: st sched_wf_def)
qed


section \<open>Snapshot and rehydrate\<close>

lemma persisted_entries:
  "(s, e) \<in> set (snapshot_entries (persisted_sender_queue_snapshots st)) \<longleftrightarrow>
    queued (ss_sender_queues st) s (pe_nonce e) = Some (pe_hash e)"
proof -
  have eq: "snapshot_entries (persisted_sender_queue_snapshots st) =
      concat (map (\<lambda>(s, q). map (\<lambda>(n, h). (s, \<lparr>pe_nonce = n, pe_hash = h\<rparr>)) (bt_entries q))
        (bt_entries (ss_sender_queues st)))"
    by (simp add: snapshot_entries_def persisted_sender_queue_snapshots_def comp_def
        case_prod_unfold)
  have "(s, e) \<in> set (snapshot_entries (persisted_sender_queue_snapshots st)) \<longleftrightarrow>
      (\<exists>q. bt_get (ss_sender_queues st) s = Some q \<and> bt_get q (pe_nonce e) = Some (pe_hash e))"
    unfolding eq by (cases e) (force simp: bt.in_entries_iff)
  then show ?thesis by (auto simp: queued_def bind_eq_Some_conv)
qed

lemma persisted_slots_distinct:
  "distinct (map slot (snapshot_entries (persisted_sender_queue_snapshots st)))"
proof -
  have eq: "map slot (snapshot_entries (persisted_sender_queue_snapshots st)) =
      concat (map (\<lambda>(s, q). map (Pair s) (bt_keys q)) (bt_entries (ss_sender_queues st)))"
    by (simp add: snapshot_entries_def persisted_sender_queue_snapshots_def comp_def
        case_prod_unfold map_concat bt_keys_def)
  have "distinct (concat (map (\<lambda>(s, q). map (Pair s) (bt_keys q)) xs))"
    if "distinct (map fst xs)" for xs :: "(Address \<times> nonce_queue) list"
    using that
  proof (induction xs)
    case (Cons x xs)
    obtain s q where x: "x = (s, q)" by force
    have "distinct (map (Pair s) (bt_keys q))"
      using bt_keys_sorted [of q] by (simp add: distinct_map inj_on_def strict_sorted_iff)
    moreover have "set (map (Pair s) (bt_keys q)) \<inter>
        set (concat (map (\<lambda>(s, q). map (Pair s) (bt_keys q)) xs)) = {}"
      using Cons.prems x by (auto simp: image_iff)
    ultimately show ?case using Cons x by simp
  qed simp
  then show ?thesis unfolding eq by (simp add: bt.keys_distinct)
qed

lemma persisted_queues_roundtrip:
  assumes "queues_sound (ss_pending st) (ss_sender_queues st)"
  shows "build_sender_queues_from_snapshot (persisted_sender_queue_snapshots st) (ss_pending st) =
    Inr (ss_sender_queues st)"
proof -
  let ?xs = "snapshot_entries (persisted_sender_queue_snapshots st)"
  let ?q = "fold (\<lambda>(s, e). queue_insert s (pe_nonce e) (pe_hash e)) ?xs bt_empty"
  have "queued ?q s n = Some h \<longleftrightarrow> queued (ss_sender_queues st) s n = Some h" for s n h
    unfolding queued_fold_insert [OF persisted_slots_distinct] persisted_entries
    using exI [of "\<lambda>e. queued (ss_sender_queues st) s (pe_nonce e) = Some (pe_hash e) \<and>
      pe_nonce e = n \<and> pe_hash e = h" "\<lparr>pe_nonce = n, pe_hash = h\<rparr>"] by auto
  then have same: "queued ?q s n = queued (ss_sender_queues st) s n" for s n
    by (rule option_eqI)
  have "bt_get ?q s \<noteq> Some bt_empty" for s
    using fold_insert_not_empty [of ?xs bt_empty s] by auto
  with same have "?q = ss_sender_queues st"
    using queues_soundD(3) [OF assms] by (rule queue_map_ext)
  moreover have "entry_valid (ss_pending st) x" if "x \<in> set ?xs" for x
    using that queues_soundD(2) [OF assms] persisted_entries [of "fst x" "snd x" st]
    by (auto simp: entry_valid_def)
  ultimately show ?thesis
    by (simp add: build_from_snapshot_iff persisted_slots_distinct)
qed

lemma frontier_cong:
  "ss_pending st' = ss_pending st \<Longrightarrow> ss_sender_queues st' = ss_sender_queues st \<Longrightarrow>
    executable_frontier_hashes st' = executable_frontier_hashes st"
  by (simp add: executable_frontier_hashes_def)

lemma counts_ok_unique:
  assumes "counts_ok st" and "counts_ok st'" and "ss_sender_queues st' = ss_sender_queues st"
  shows "ss_sender_queue_counts st' = ss_sender_queue_counts st \<and>
    ss_ready_total st' = ss_ready_total st \<and> ss_blocked_total st' = ss_blocked_total st"
  using assms by (auto simp: counts_ok_def intro!: bt_ext)

lemma rehydrate_wf:
  assumes wf: "sched_wf st"
  shows "from_persisted_snapshot (persisted_snapshot st ms ns) =
    Inr (recompute_queue_counts (default_scheduler_state\<lparr>ss_pending := ss_pending st,
      ss_sender_queues := ss_sender_queues st\<rparr>))"
proof -
  let ?st' = "recompute_queue_counts (default_scheduler_state\<lparr>ss_pending := ss_pending st,
    ss_sender_queues := ss_sender_queues st\<rparr>)"
  have sound: "queues_sound (ss_pending st) (ss_sender_queues st)"
    using wf by (simp add: sched_wf_def sched_inv_def)
  then have "sched_inv ?st'" by (simp add: sched_inv_def recompute_counts_ok)
  then have frontier: "map vt_hash (fst (classify_by_sender ?st')) = executable_frontier_hashes st"
    using inv_frontier [of ?st'] frontier_cong [of ?st' st] by simp
  have load: "load_pending (bt_values (ss_pending st)) = Inr (ss_pending st)"
    using wf_hash [OF wf] by (rule load_pending_roundtrip)
  have queues: "(if persisted_sender_queue_snapshots st = []
      then build_sender_queues_from_pending (ss_pending st)
      else build_sender_queues_from_snapshot (persisted_sender_queue_snapshots st) (ss_pending st)) =
    Inr (ss_sender_queues st)"
  proof (cases "persisted_sender_queue_snapshots st = []")
    case True
    then have empty: "ss_sender_queues st = bt_empty"
      by (simp add: persisted_sender_queue_snapshots_def flip: bt_is_empty_iff bt_is_empty_def)
    then have "bt_get (ss_pending st) h = None" for h
      using wf by (cases "bt_get (ss_pending st) h") (auto simp: sched_wf_def queues_complete_def)
    then have "ss_pending st = bt_empty" by (auto intro: bt_ext)
    then show ?thesis
      using True empty
      by (simp add: build_sender_queues_from_pending_def bt_values_def bt_simps)
  qed (simp add: persisted_queues_roundtrip [OF sound])
  have sel: "ps_pending (persisted_snapshot st ms ns) = bt_values (ss_pending st)"
    "ps_sender_queues (persisted_snapshot st ms ns) = persisted_sender_queue_snapshots st"
    "ps_executable_frontier (persisted_snapshot st ms ns) = executable_frontier_hashes st"
    by (simp_all add: persisted_snapshot_def)
  show ?thesis
    by (simp only: from_persisted_snapshot_def sel load queues sum.case Let_def frontier) simp
qed


section \<open>Properties\<close>

text \<open>
  Property C3. Snapshot and rehydrate: the snapshot of any state that the actor reaches
  is accepted, and the rehydrated state has the same pending transactions, queues,
  counts and totals, no candidates and head block 0. Its own snapshot is the same again.
\<close>

theorem snapshot_rehydrate_roundtrip:
  "let st = snd (run_commands config default_scheduler_state cmds)
   in \<exists>st'. from_persisted_snapshot (persisted_snapshot st ms ns) = Inr st' \<and>
      ss_pending st' = ss_pending st \<and> ss_sender_queues st' = ss_sender_queues st \<and>
      ss_sender_queue_counts st' = ss_sender_queue_counts st \<and>
      ss_ready_total st' = ss_ready_total st \<and> ss_blocked_total st' = ss_blocked_total st \<and>
      ss_candidates st' = bt_empty \<and> ss_head_block_number st' = 0 \<and>
      persisted_snapshot st' ms ns = persisted_snapshot st ms ns"
proof -
  define st where "st = snd (run_commands config default_scheduler_state cmds)"
  define st' where "st' = recompute_queue_counts (default_scheduler_state
    \<lparr>ss_pending := ss_pending st, ss_sender_queues := ss_sender_queues st\<rparr>)"
  have wf: "sched_wf st" unfolding st_def by (rule run_commands_wf)
  then have "counts_ok st" "queues_sound (ss_pending st) (ss_sender_queues st)"
    by (simp_all add: sched_wf_def sched_inv_def)
  then have counts: "ss_sender_queue_counts st' = ss_sender_queue_counts st \<and>
      ss_ready_total st' = ss_ready_total st \<and> ss_blocked_total st' = ss_blocked_total st"
    by (intro counts_ok_unique) (simp_all add: st'_def recompute_counts_ok)
  have "persisted_snapshot st' ms ns = persisted_snapshot st ms ns"
    by (simp add: persisted_snapshot_def persisted_sender_queue_snapshots_def
        executable_frontier_hashes_def st'_def)
  moreover have "ss_candidates st' = bt_empty" "ss_head_block_number st' = 0"
    by (simp_all add: st'_def default_scheduler_state_def)
  ultimately show ?thesis
    using rehydrate_wf [OF wf, of ms ns] counts
    by (auto simp: Let_def st'_def simp flip: st_def)
qed

lemma foldl_admit_inv:
  "sched_inv st \<Longrightarrow> sched_inv (foldl (\<lambda>st tx. snd (admit st tx config)) st txs)"
  by (induction txs arbitrary: st) (simp_all add: admit_wf)

text \<open>
  Whatever snapshot and replay transactions the actor is started with, if
  the start succeeds the state is sound: queue entries name pending transactions of their
  sender and nonce, and the ready and blocked totals are those of a full classification.
\<close>

theorem rehydration_sound:
  assumes "scheduler_channel_with_rehydration config snapshot txs = Inr (config', st)"
  shows "config' = config \<and>
    (\<forall>s n h. queued (ss_sender_queues st) s n = Some h \<longrightarrow>
       (\<exists>tx. bt_get (ss_pending st) h = Some tx \<and> tx_sender tx = s \<and> tx_nonce tx = n \<and>
          vt_hash tx = h)) \<and>
    ss_ready_total st = length (fst (classify_by_sender st)) \<and>
    ss_blocked_total st = length (snd (classify_by_sender st))"
proof -
  let ?start = "case snapshot of Some snap \<Rightarrow> from_persisted_snapshot snap
    | None \<Rightarrow> Inr default_scheduler_state"
  have "validate_config config = Inr config"
    using assms
    by (cases "cfg_handoff_queue_capacity config = 0"; cases "cfg_max_pending_per_sender config = 0")
      (simp_all add: scheduler_channel_with_rehydration_def validate_config_def)
  then have res: "(case ?start of Inl err \<Rightarrow> Inl (SnapshotError err)
      | Inr st0 \<Rightarrow> Inr (config, foldl (\<lambda>st tx. snd (admit st tx config)) st0 txs)) =
    Inr (config', st)"
    using assms by (simp add: scheduler_channel_with_rehydration_def)
  then obtain st0 where start: "?start = Inr st0" by (cases ?start) (simp_all only: sum.case, blast)
  then have st: "st = foldl (\<lambda>st tx. snd (admit st tx config)) st0 txs" and "config' = config"
    using res by (auto simp only: start sum.case sum.inject prod.inject)
  have "sched_inv st0"
    using start from_persisted_snapshot_inv(1) wf_inv [OF default_state_wf]
    by (cases snapshot) auto
  then have inv: "sched_inv st" unfolding st by (rule foldl_admit_inv)
  then have "queues_sound (ss_pending st) (ss_sender_queues st)" by (simp add: sched_inv_def)
  then show ?thesis
    using \<open>config' = config\<close> inv_totals [OF inv] unfolding queues_sound_def by blast
qed

definition sample_entry :: "u64 \<Rightarrow> TxHash \<Rightarrow> persisted_sender_queue_entry" where
  "sample_entry n h = \<lparr>pe_nonce = n, pe_hash = h\<rparr>"

definition sample_snapshot ::
  "validated_transaction list \<Rightarrow> TxHash list \<Rightarrow> persisted_sender_queue_snapshot list
    \<Rightarrow> persisted_scheduler_snapshot" where
  "sample_snapshot txs frontier queues =
     \<lparr>ps_captured_at_unix_ms = 0, ps_captured_at_mono_ns = 0, ps_event_seq_hi = 0,
      ps_pending = txs, ps_executable_frontier = frontier, ps_sender_queues = queues\<rparr>"

theorem rehydration_sound_witness:
  "let st = snd (projr (scheduler_channel_with_rehydration default_scheduler_config
      (Some (sample_snapshot [legacy_tx 1 7 3 5] [1]
         [\<lparr>pq_sender = 7, pq_queued = [sample_entry 3 1]\<rparr>]))
      [legacy_tx 2 7 4 5, legacy_tx 3 7 9 5]))
   in ss_ready_total st = length (fst (classify_by_sender st)) \<and> ss_ready_total st = 2"
proof -
  let ?r = "scheduler_channel_with_rehydration default_scheduler_config
    (Some (sample_snapshot [legacy_tx 1 7 3 5] [1]
       [\<lparr>pq_sender = 7, pq_queued = [sample_entry 3 1]\<rparr>]))
    [legacy_tx 2 7 4 5, legacy_tx 3 7 9 5]"
  have 1: "\<not> isl ?r" by code_simp
  have 2: "ss_ready_total (snd (projr ?r)) = 2" by code_simp
  have "\<exists>c st. x = Inr (c, st)" if "\<not> isl x" for x :: "'e + 'c \<times> 's"
    using that by (cases x) auto
  from this [OF 1] obtain c st where r: "?r = Inr (c, st)" by blast
  show ?thesis
    using rehydration_sound [OF r] 2 unfolding r Let_def sum.sel snd_conv by blast
qed

text \<open>
  What a snapshot is rejected for, in the order of the checks: a repeated
  pending hash; a queue entry whose transaction is not pending, belongs to another slot,
  or repeats a slot; a frontier that is not the restored one. Everything else is accepted.
\<close>

theorem from_persisted_snapshot_accepts:
  "(\<exists>st. from_persisted_snapshot snap = Inr st) \<longleftrightarrow>
    distinct (map vt_hash (ps_pending snap)) \<and>
    (let pending = fold (\<lambda>tx. bt_insert (vt_hash tx) tx) (ps_pending snap) bt_empty;
         entries = (if ps_sender_queues snap = [] then map pending_entry (bt_values pending)
                    else snapshot_entries (ps_sender_queues snap));
         queues = fold (\<lambda>(s, e). queue_insert s (pe_nonce e) (pe_hash e)) entries bt_empty
     in list_all (entry_valid pending) entries \<and> distinct (map slot entries) \<and>
        ps_executable_frontier snap \<in>
          {[], executable_frontier_hashes (default_scheduler_state
                 \<lparr>ss_pending := pending, ss_sender_queues := queues\<rparr>)})"
proof (cases "distinct (map vt_hash (ps_pending snap))")
  case True
  define pending where
    "pending = fold (\<lambda>tx. bt_insert (vt_hash tx) tx) (ps_pending snap) bt_empty"
  define entries where
    "entries = (if ps_sender_queues snap = [] then map pending_entry (bt_values pending)
       else snapshot_entries (ps_sender_queues snap))"
  define queues where
    "queues = fold (\<lambda>(s, e). queue_insert s (pe_nonce e) (pe_hash e)) entries bt_empty"
  define built where
    "built = (if ps_sender_queues snap = [] then build_sender_queues_from_pending pending
       else build_sender_queues_from_snapshot (ps_sender_queues snap) pending)"
  let ?st = "recompute_queue_counts
    (default_scheduler_state\<lparr>ss_pending := pending, ss_sender_queues := queues\<rparr>)"
  have load: "load_pending (ps_pending snap) = Inr pending"
    using True by (simp add: load_pending_iff pending_def)
  note keyed = load_pending_keyed [OF load]
  have "built = fold_result (\<lambda>q (s, e). load_queue_entry pending s q e) bt_empty entries"
    using build_from_pending_entries [of pending] keyed
    by (auto simp: built_def entries_def build_sender_queues_from_snapshot_def fold_result_nested
        snapshot_entries_def)
  then have built: "built = Inr q \<longleftrightarrow>
      list_all (entry_valid pending) entries \<and> distinct (map slot entries) \<and> q = queues" for q
    by (auto simp: load_entries_Inr list_all_iff queues_def)
  have snap: "from_persisted_snapshot snap = (case built of Inl err \<Rightarrow> Inl err
      | Inr q \<Rightarrow> let state = recompute_queue_counts (default_scheduler_state
            \<lparr>ss_pending := pending, ss_sender_queues := q\<rparr>)
          in if ps_executable_frontier snap \<noteq> [] \<and>
               map vt_hash (fst (classify_by_sender state)) \<noteq> ps_executable_frontier snap
             then Inl ExecutableFrontierMismatch else Inr state)"
    by (simp only: from_persisted_snapshot_def load sum.case built_def Let_def)
  have frontier: "map vt_hash (fst (classify_by_sender ?st)) =
      executable_frontier_hashes (default_scheduler_state
        \<lparr>ss_pending := pending, ss_sender_queues := queues\<rparr>)" if "built = Inr queues"
  proof -
    have "queues_sound pending queues"
      using that keyed build_from_pending_wf(1) [of pending queues]
        build_from_snapshot_sound [of _ pending queues]
      by (auto simp: built_def split: if_splits)
    then have "sched_inv ?st" by (simp add: sched_inv_def recompute_counts_ok)
    from inv_frontier [OF this] show ?thesis by (simp add: executable_frontier_hashes_def)
  qed
  show ?thesis
  proof (cases "built = Inr queues")
    case True': True
    then show ?thesis
      using True built [of queues] frontier
      by (auto simp: snap Let_def simp flip: pending_def entries_def queues_def)
  next
    case False
    then obtain err where "built = Inl err" using built by (cases built) auto
    then show ?thesis
      using False built [of queues]
      by (auto simp: snap Let_def simp flip: pending_def entries_def queues_def)
  qed
next
  case False
  then have "\<nexists>p. load_pending (ps_pending snap) = Inr p" by (simp add: load_pending_iff)
  then obtain err where "load_pending (ps_pending snap) = Inl err"
    by (metis sum.exhaust_sel)
  then show ?thesis using False by (simp add: from_persisted_snapshot_def)
qed

text \<open>
  The checks do not ask that the queues cover the pending set: a snapshot
  with two pending transactions whose queues list only one of them is accepted; the
  other one is pending but in no queue, and submitting it again is a duplicate.
\<close>

theorem partial_queues_accepted:
  "let st = projr (from_persisted_snapshot
       (sample_snapshot [legacy_tx 1 7 3 5, legacy_tx 2 7 4 5] [1]
          [\<lparr>pq_sender = 7, pq_queued = [sample_entry 3 1]\<rparr>]))
   in bt_contains (ss_pending st) 2 \<and> queued (ss_sender_queues st) 7 4 = None \<and>
      ss_ready_total st + ss_blocked_total st = 1 \<and>
      ao_admission (fst (admit st (legacy_tx 2 7 4 5) default_scheduler_config)) = Duplicate"
  by code_simp

end
