(* ===== verification/Scheduler_Actor.thy ===== *)
theory Scheduler_Actor
  imports Scheduler_Rehydration
begin

text \<open>
  The actor around the scheduler state: the handle that enqueues commands on the bounded
  ingress channel, the counters that handle and runtime share, the runtime loop, and the
  metrics. The channel is \<^verbatim>\<open>tokio::sync::mpsc\<close>; of it the model uses the
  documented behaviour: at most \<open>handoff_queue_capacity\<close> commands are buffered,
  \<^verbatim>\<open>try_send\<close> fails when they are, or when the receiver is gone, and commands are
  received in the order they were sent.
\<close>

section \<open>Handle, runtime and metrics\<close>

record scheduler_actor =
  sa_config :: scheduler_config
  sa_state :: scheduler_state
  sa_buffer :: "scheduler_command list"
  sa_receiver_open :: bool
  sa_queue_full_drop_total :: u64
  sa_queue_depth_peak :: usize

definition scheduler_channel_with_state :: "scheduler_config \<Rightarrow> scheduler_state \<Rightarrow> scheduler_actor" where
  "scheduler_channel_with_state config state =
     \<lparr>sa_config = config, sa_state = state, sa_buffer = [], sa_receiver_open = True,
      sa_queue_full_drop_total = 0, sa_queue_depth_peak = 0\<rparr>"

definition channel_capacity :: "scheduler_actor \<Rightarrow> usize" where
  "channel_capacity a = cfg_handoff_queue_capacity (sa_config a) - length (sa_buffer a)"

text \<open>\<^verbatim>\<open>fetch_add\<close> wraps around.\<close>

definition try_send_command ::
  "scheduler_actor \<Rightarrow> scheduler_command \<Rightarrow> (scheduler_enqueue_error + unit) \<times> scheduler_actor" where
  "try_send_command a command =
     (let max_capacity = cfg_handoff_queue_capacity (sa_config a)
      in if \<not> sa_receiver_open a then (Inl QueueClosed, a)
         else if channel_capacity a = 0 then
           (Inl QueueFull,
            a\<lparr>sa_queue_full_drop_total := sa_queue_full_drop_total a + 1,
              sa_queue_depth_peak := max (sa_queue_depth_peak a) max_capacity\<rparr>)
         else
           let a' = a\<lparr>sa_buffer := sa_buffer a @ [command]\<rparr>;
               current_depth = max_capacity - channel_capacity a'
           in (Inr (), a'\<lparr>sa_queue_depth_peak := max (sa_queue_depth_peak a') current_depth\<rparr>))"

text \<open>One iteration of the runtime loop.\<close>

definition runtime_step :: "scheduler_actor \<Rightarrow> (scheduler_reply \<times> scheduler_actor) option" where
  "runtime_step a =
     (case sa_buffer a of
        [] \<Rightarrow> None
      | command # rest \<Rightarrow>
          (case handle_command (sa_config a) (sa_state a) command of
             (reply, state) \<Rightarrow> Some (reply, a\<lparr>sa_buffer := rest, sa_state := state\<rparr>)))"

definition actor_metrics :: "scheduler_actor \<Rightarrow> scheduler_metrics" where
  "actor_metrics a =
     (let state = sa_state a;
          handoff_queue_capacity = cfg_handoff_queue_capacity (sa_config a);
          queue_depth = handoff_queue_capacity - channel_capacity a
      in \<lparr>sm_admitted_total = ss_admitted_total state,
          sm_duplicate_total = ss_duplicate_total state,
          sm_replacement_total = ss_replacement_total state,
          sm_underpriced_replacement_total = ss_underpriced_replacement_total state,
          sm_sender_limit_drop_total = ss_sender_limit_drop_total state,
          sm_queue_full_drop_total = sa_queue_full_drop_total a,
          sm_pending_total = bt_len (ss_pending state),
          sm_ready_total = ss_ready_total state,
          sm_blocked_total = ss_blocked_total state,
          sm_sender_total = bt_len (ss_sender_queues state),
          sm_stale_simulation_drop_total = ss_stale_simulation_drop_total state,
          sm_queue_depth = queue_depth,
          sm_queue_depth_peak = sa_queue_depth_peak a,
          sm_handoff_queue_capacity = handoff_queue_capacity\<rparr>)"

section \<open>Runs of the actor\<close>

text \<open>
  \<open>actor_run a0 accepted a\<close>: from \<open>a0\<close>, some interleaving of sends (accepted or refused)
  and iterations of the runtime leads to \<open>a\<close>; \<open>accepted\<close> lists the accepted commands in
  the order they were sent.
\<close>

inductive actor_run :: "scheduler_actor \<Rightarrow> scheduler_command list \<Rightarrow> scheduler_actor \<Rightarrow> bool"
  for a0 where
  start: "actor_run a0 [] a0"
| sent: "actor_run a0 cs a \<Longrightarrow> try_send_command a c = (Inr (), a') \<Longrightarrow> actor_run a0 (cs @ [c]) a'"
| refused: "actor_run a0 cs a \<Longrightarrow> try_send_command a c = (Inl e, a') \<Longrightarrow> actor_run a0 cs a'"
| handled: "actor_run a0 cs a \<Longrightarrow> runtime_step a = Some (r, a') \<Longrightarrow> actor_run a0 cs a'"
| closed: "actor_run a0 cs a \<Longrightarrow> actor_run a0 cs (a\<lparr>sa_receiver_open := False\<rparr>)"

inductive_cases actor_run_startE: "actor_run a0 [] a"

lemma try_send_accepted:
  "try_send_command a c = (Inr (), a') \<Longrightarrow>
    sa_receiver_open a \<and> length (sa_buffer a) < cfg_handoff_queue_capacity (sa_config a) \<and>
    a' = a\<lparr>sa_buffer := sa_buffer a @ [c],
           sa_queue_depth_peak := max (sa_queue_depth_peak a) (Suc (length (sa_buffer a)))\<rparr>"
  by (auto simp: try_send_command_def channel_capacity_def Let_def split: if_splits)

lemma try_send_refused:
  "try_send_command a c = (Inl e, a') \<Longrightarrow>
    sa_config a' = sa_config a \<and> sa_state a' = sa_state a \<and> sa_buffer a' = sa_buffer a \<and>
    sa_queue_depth_peak a' \<le> max (sa_queue_depth_peak a) (cfg_handoff_queue_capacity (sa_config a))"
  by (auto simp: try_send_command_def Let_def split: if_splits)

lemma runtime_step_Some:
  "runtime_step a = Some (r, a') \<Longrightarrow>
    \<exists>c. sa_buffer a = c # sa_buffer a' \<and> sa_config a' = sa_config a \<and>
      handle_command (sa_config a) (sa_state a) c = (r, sa_state a') \<and>
      sa_queue_depth_peak a' = sa_queue_depth_peak a"
  by (auto simp: runtime_step_def split: list.splits prod.splits)

lemma run_commands_snoc:
  "snd (run_commands config st (cs @ [c])) = snd (handle_command config (snd (run_commands config st cs)) c)"
  by (simp add: run_commands_def snd_map_state)

lemma run_commands_Cons:
  "snd (run_commands config st (c # cs)) = snd (run_commands config (snd (handle_command config st c)) cs)"
  by (simp add: run_commands_def)

text \<open>
  Property C13. The actor is sequential: whatever the interleaving of senders and runtime,
  draining the buffered commands brings the state to what handling all accepted
  commands, in the order they were accepted, gives; refused commands have no effect.
\<close>

theorem actor_applies_accepted_in_order:
  assumes "actor_run (scheduler_channel_with_state config st0) accepted a"
  shows "snd (run_commands config (sa_state a) (sa_buffer a)) = snd (run_commands config st0 accepted)"
proof -
  have "sa_config a = config \<and>
    snd (run_commands config (sa_state a) (sa_buffer a)) = snd (run_commands config st0 accepted)"
    using assms
  proof (induction rule: actor_run.induct)
    case start
    then show ?case by (simp add: scheduler_channel_with_state_def run_commands_def)
  next
    case (sent cs a c a')
    then show ?case using try_send_accepted [OF sent.hyps(2)] by (simp add: run_commands_snoc)
  next
    case (refused cs a c e a')
    then show ?case using try_send_refused [OF refused.hyps(2)] by simp
  next
    case (handled cs a r a')
    then show ?case
      using runtime_step_Some [OF handled.hyps(2)] run_commands_Cons by (metis snd_conv)
  qed simp
  then show ?thesis by blast
qed

text \<open>
  Backpressure: the ingress buffer never holds more commands than the
  configured capacity, and the reported peak depth never exceeds it either and is never
  below the current depth.
\<close>

theorem actor_buffer_bounded:
  assumes "actor_run (scheduler_channel_with_state config st0) accepted a"
  shows "length (sa_buffer a) \<le> sm_queue_depth_peak (actor_metrics a) \<and>
    sm_queue_depth_peak (actor_metrics a) \<le> cfg_handoff_queue_capacity config \<and>
    sm_queue_depth (actor_metrics a) = length (sa_buffer a)"
proof -
  have "sa_config a = config \<and> length (sa_buffer a) \<le> sa_queue_depth_peak a \<and>
    sa_queue_depth_peak a \<le> cfg_handoff_queue_capacity config"
    using assms
  proof (induction rule: actor_run.induct)
    case start
    then show ?case by (simp add: scheduler_channel_with_state_def)
  next
    case (sent cs a c a')
    then show ?case using try_send_accepted [OF sent.hyps(2)] by auto
  next
    case (refused cs a c e a')
    then show ?case by (auto simp: try_send_command_def Let_def split: if_splits)
  next
    case (handled cs a r a')
    then show ?case using runtime_step_Some [OF handled.hyps(2)] by fastforce
  qed simp
  then show ?thesis by (simp add: actor_metrics_def channel_capacity_def Let_def)
qed

section \<open>A concrete run\<close>

definition small_config :: scheduler_config where
  "small_config = \<lparr>cfg_handoff_queue_capacity = 1, cfg_max_pending_per_sender = 2,
     cfg_replacement_fee_bump_bps = 1000\<rparr>"

text \<open>Two sends into a channel of capacity one: the second is refused; then one is handled.\<close>

definition sample_actor :: scheduler_actor where
  "sample_actor =
     snd (the (runtime_step
       (snd (try_send_command
         (snd (try_send_command (scheduler_channel_with_state small_config default_scheduler_state)
            (Admit (legacy_tx 1 7 3 5)))) (AdvanceHead 9)))))"

lemma sample_actor_run:
  "actor_run (scheduler_channel_with_state small_config default_scheduler_state)
     [Admit (legacy_tx 1 7 3 5)] sample_actor"
proof -
  let ?a0 = "scheduler_channel_with_state small_config default_scheduler_state"
  let ?a1 = "snd (try_send_command ?a0 (Admit (legacy_tx 1 7 3 5)))"
  let ?a2 = "snd (try_send_command ?a1 (AdvanceHead 9))"
  have 1: "try_send_command ?a0 (Admit (legacy_tx 1 7 3 5)) = (Inr (), ?a1)"
    by (simp add: try_send_command_def scheduler_channel_with_state_def small_config_def
        channel_capacity_def)
  have 2: "try_send_command ?a1 (AdvanceHead 9) = (Inl QueueFull, ?a2)"
    by (simp add: try_send_command_def scheduler_channel_with_state_def small_config_def
        channel_capacity_def)
  have "runtime_step ?a2 \<noteq> None"
    by (simp add: runtime_step_def try_send_command_def scheduler_channel_with_state_def
        small_config_def channel_capacity_def split: prod.split)
  then have 3: "runtime_step ?a2 = Some (fst (the (runtime_step ?a2)), sample_actor)"
    by (auto simp: sample_actor_def)
  have "actor_run ?a0 ([] @ [Admit (legacy_tx 1 7 3 5)]) ?a1"
    using actor_run.start 1 by (rule actor_run.sent)
  from actor_run.refused [OF this 2] have "actor_run ?a0 [Admit (legacy_tx 1 7 3 5)] ?a2" by simp
  then show ?thesis using 3 by (rule actor_run.handled)
qed

theorem actor_applies_accepted_in_order_witness:
  "snd (run_commands small_config (sa_state sample_actor) (sa_buffer sample_actor)) =
   snd (run_commands small_config default_scheduler_state [Admit (legacy_tx 1 7 3 5)])"
  using sample_actor_run by (rule actor_applies_accepted_in_order)

theorem actor_buffer_bounded_witness:
  "length (sa_buffer sample_actor) \<le> sm_queue_depth_peak (actor_metrics sample_actor) \<and>
   sm_queue_depth_peak (actor_metrics sample_actor) \<le> cfg_handoff_queue_capacity small_config \<and>
   sm_queue_depth (actor_metrics sample_actor) = length (sa_buffer sample_actor)"
  using sample_actor_run by (rule actor_buffer_bounded)

end
