(* ===== verification/Text.thy ===== *)
theory Text
  imports Prelude
begin

text \<open>
  The text functions of the Rust standard library that the sources use: decimal
  rendering of integers, the \<^verbatim>\<open>Debug\<close> rendering of byte arrays, hexadecimal
  digits and \<^verbatim>\<open>u8::from_str_radix\<close>. Text is a list of characters; the
  inputs of the parsers are ASCII.
\<close>

section \<open>Decimal rendering\<close>

definition digit_char :: "nat \<Rightarrow> char" where
  "digit_char d = char_of (48 + d)"

fun dec_string :: "nat \<Rightarrow> string" where
  "dec_string n = (if n < 10 then [digit_char n] else dec_string (n div 10) @ [digit_char (n mod 10)])"

declare dec_string.simps [simp del]

definition show_word :: "'a::len word \<Rightarrow> string" where
  "show_word w = dec_string (unat w)"

text \<open>The same on the integers, whose numerals are binary, for evaluation.\<close>

function dec_int :: "int \<Rightarrow> string" where
  "dec_int n = (if n < 10 then [digit_char (nat n)] else dec_int (n div 10) @ [digit_char (nat (n mod 10))])"
  by auto
termination by (relation "measure nat") auto

declare dec_int.simps [simp del]

lemma dec_int_nat: "dec_int (int n) = dec_string n"
proof (induction n rule: dec_string.induct)
  case (1 n)
  have "nat (int n mod 10) = n mod 10" "int n div 10 = int (n div 10)"
    by (simp_all add: nat_mod_distrib)
  then show ?case
    using 1 by (subst dec_int.simps, subst dec_string.simps) simp
qed

lemma show_word_code [code]: "show_word w = dec_int (uint w)"
  using dec_int_nat [of "unat w"] by (simp only: show_word_def uint_nat)

text \<open>\<^verbatim>\<open>{:?}\<close> of a byte array: the decimal bytes, separated and in brackets.\<close>

fun join :: "string \<Rightarrow> string list \<Rightarrow> string" where
  "join sep [] = []"
| "join sep [x] = x"
| "join sep (x # y # xs) = x @ sep @ join sep (y # xs)"

text \<open>
  The bytes of a machine integer or of an identifier that is modelled as a word, least
  significant first (\<^verbatim>\<open>to_le_bytes\<close>) and most significant first.
\<close>

fun byte_loop :: "nat \<Rightarrow> int \<Rightarrow> u8 list" where
  "byte_loop 0 x = []"
| "byte_loop (Suc n) x = word_of_int (x mod 256) # byte_loop n (x div 256)"

definition le_bytes :: "nat \<Rightarrow> 'a::len word \<Rightarrow> u8 list" where
  "le_bytes n w = byte_loop n (uint w)"

definition be_bytes :: "nat \<Rightarrow> 'a::len word \<Rightarrow> u8 list" where
  "be_bytes n w = rev (le_bytes n w)"

abbreviation hash_bytes :: "256 word \<Rightarrow> u8 list" where
  "hash_bytes \<equiv> be_bytes 32"

text \<open>The identifier that a byte array is.\<close>

definition be_word :: "u8 list \<Rightarrow> 'a::len word" where
  "be_word bs = foldl (\<lambda>acc b. acc * 256 + ucast b) 0 bs"

definition debug_bytes :: "u8 list \<Rightarrow> string" where
  "debug_bytes bs = ''['' @ join '', '' (map show_word bs) @ '']''"

definition dec_value :: "string \<Rightarrow> nat" where
  "dec_value s = foldl (\<lambda>acc c. 10 * acc + (of_char c - 48)) 0 s"

definition is_digit :: "char \<Rightarrow> bool" where
  "is_digit c = (let n = of_char c :: nat in 48 \<le> n \<and> n \<le> 57)"

text \<open>\<^verbatim>\<open>str::parse::<u64>\<close>: an optional plus sign, digits, no overflow.\<close>

definition parse_u64 :: "string \<Rightarrow> u64 option" where
  "parse_u64 s =
     (let digits = (if s \<noteq> [] \<and> hd s = CHR ''+'' then tl s else s)
      in if digits = [] \<or> \<not> list_all is_digit digits then None
         else if dec_value digits < 2 ^ 64 then Some (of_nat (dec_value digits)) else None)"

text \<open>The rendering of a signed integer.\<close>

definition show_int :: "int \<Rightarrow> string" where
  "show_int n = (if n < 0 then ''-'' @ dec_string (nat (- n)) else dec_string (nat n))"

lemma dec_value_string: "dec_value (dec_string n) = n"
proof (induction n rule: dec_string.induct)
  case (1 n)
  have d: "of_char (digit_char k) = 48 + k" if "k < 10" for k
    using that by (simp add: digit_char_def)
  show ?case
  proof (cases "n < 10")
    case True
    then show ?thesis by (subst dec_string.simps) (simp add: dec_value_def d)
  next
    case False
    then have "dec_value (dec_string n) = 10 * dec_value (dec_string (n div 10)) + n mod 10"
      by (subst dec_string.simps) (simp add: dec_value_def d)
    then show ?thesis using 1 False by simp
  qed
qed

lemma dec_string_inj: "dec_string m = dec_string n \<Longrightarrow> m = n"
  by (metis dec_value_string)

section \<open>Hexadecimal\<close>

definition hex_digit :: "char \<Rightarrow> u8 option" where
  "hex_digit c =
     (let n = of_char c :: nat
      in if 48 \<le> n \<and> n \<le> 57 then Some (of_nat (n - 48))
         else if 97 \<le> n \<and> n \<le> 102 then Some (of_nat (n - 87))
         else if 65 \<le> n \<and> n \<le> 70 then Some (of_nat (n - 55))
         else None)"

text \<open>
  \<^verbatim>\<open>u8::from_str_radix(s, 16)\<close> on the two-character slices the sources pass:
  a leading plus sign is accepted.
\<close>

definition hex_pair :: "char \<Rightarrow> char \<Rightarrow> u8 option" where
  "hex_pair a b =
     (if a = CHR ''+'' then hex_digit b
      else Option.bind (hex_digit a) (\<lambda>hi. map_option (\<lambda>lo. 16 * hi + lo) (hex_digit b)))"

definition hex_char :: "u8 \<Rightarrow> char" where
  "hex_char d = (if d < 10 then char_of (48 + unat d) else char_of (87 + unat d))"

definition hex_lower :: "u8 list \<Rightarrow> string" where
  "hex_lower bs = concat (map (\<lambda>b. [hex_char (b div 16), hex_char (b mod 16)]) bs)"

lemma length_hex_lower [simp]: "length (hex_lower bs) = 2 * length bs"
  by (induction bs) (simp_all add: hex_lower_def)

lemma hex_digit_char: "d < 16 \<Longrightarrow> hex_digit (hex_char d) = Some d"
  by (auto simp: hex_digit_def hex_char_def word_less_nat_alt Let_def word_unat_eq_iff)

lemma hex_char_not_plus: "d < 16 \<Longrightarrow> hex_char d \<noteq> CHR ''+''"
proof
  assume "d < 16" "hex_char d = CHR ''+''"
  then have "(of_char (hex_char d) :: nat) = 43" by simp
  then show False
    using \<open>d < 16\<close> by (auto simp: hex_char_def word_less_nat_alt split: if_splits)
qed

lemma hex_pair_chars: "hex_pair (hex_char (b div 16)) (hex_char (b mod 16)) = Some b"
proof -
  have "b div 16 < 16" "b mod 16 < 16"
    using unat_le_max [of b] by (auto simp: word_less_nat_alt unat_div unat_mod)
  moreover have "16 * (b div 16) + b mod 16 = b"
    by (metis mult_div_mod_eq)
  ultimately show ?thesis
    by (simp add: hex_pair_def hex_char_not_plus hex_digit_char)
qed

section \<open>White space and prefixes\<close>

definition is_space :: "char \<Rightarrow> bool" where
  "is_space c = (let n = of_char c :: nat in n = 32 \<or> (9 \<le> n \<and> n \<le> 13))"

definition trim :: "string \<Rightarrow> string" where
  "trim s = rev (dropWhile is_space (rev (dropWhile is_space s)))"

fun strip_prefix :: "string \<Rightarrow> string \<Rightarrow> string option" where
  "strip_prefix [] s = Some s"
| "strip_prefix (p # ps) [] = None"
| "strip_prefix (p # ps) (c # s) = (if p = c then strip_prefix ps s else None)"

definition starts_with :: "string \<Rightarrow> string \<Rightarrow> bool" where
  "starts_with s p \<longleftrightarrow> strip_prefix p s \<noteq> None"

lemma dropWhile_no_space: "(\<forall>c \<in> set s. \<not> is_space c) \<Longrightarrow> dropWhile is_space s = s"
  by (cases s) simp_all

lemma trim_padded:
  assumes "\<forall>c \<in> set pre \<union> set post. is_space c" and "\<forall>c \<in> set s. \<not> is_space c"
  shows "trim (pre @ s @ post) = s"
proof -
  have "dropWhile is_space (pre @ s @ post) = dropWhile is_space (s @ post)"
    using assms(1) by (simp add: dropWhile_append2)
  moreover have "dropWhile is_space (s @ post) = (if s = [] then [] else s @ post)"
    using assms by (cases s) (simp_all add: dropWhile_eq_Nil_conv)
  moreover have "dropWhile is_space (rev post @ rev s) = rev s"
    using assms dropWhile_no_space [of "rev s"] by (subst dropWhile_append2) auto
  ultimately show ?thesis by (simp add: trim_def)
qed

lemma strip_prefix_append [simp]: "strip_prefix p (p @ s) = Some s"
  by (induction p) simp_all

end
