(* ===== verification/Feature_Engine.thy ===== *)
theory Feature_Engine
  imports Event_Log Text
begin

text \<open>
  The crate \<^verbatim>\<open>feature-engine\<close>: the protocol registry
  (\<^verbatim>\<open>registry.rs\<close>) and the classification of one transaction
  (\<^verbatim>\<open>lib.rs\<close>). Parsing JSON text into a registry configuration is
  the work of \<^verbatim>\<open>serde_json\<close>; the definitions start from its result.
  A four-byte method selector is a list of four bytes.
\<close>

section \<open>Protocol registry\<close>

type_synonym selector = "u8 list"

datatype registry_error = RegistryError string

record protocol_config_entry =
  pce_name :: string
  pce_addresses :: "string list"

record selector_protocol_entry =
  spe_selector :: string
  spe_protocol :: string

record registry_config =
  rc_protocols :: "protocol_config_entry list"
  rc_selector_protocols :: "selector_protocol_entry list"

record protocol_registry =
  pr_by_address :: "(Address, string) btree_map"
  pr_by_selector :: "(selector, string) btree_map"

fun hex_loop :: "string \<Rightarrow> string \<Rightarrow> registry_error + u8 list" where
  "hex_loop value [] = Inr []"
| "hex_loop value (a # b # rest) =
     (case hex_pair a b of
        None \<Rightarrow> Inl (RegistryError (''invalid hex string: '' @ value))
      | Some byte \<Rightarrow> map_sum id ((#) byte) (hex_loop value rest))"
| "hex_loop value [a] = Inl (RegistryError (''invalid hex string: '' @ value))"

definition parse_hex_bytes :: "string \<Rightarrow> registry_error + u8 list" where
  "parse_hex_bytes value =
     (let trimmed = (case strip_prefix ''0x'' (trim value) of Some s \<Rightarrow> s | None \<Rightarrow> trim value)
      in if trimmed = [] then Inr []
         else if odd (length trimmed)
         then Inl (RegistryError (''odd-length hex string: '' @ value))
         else hex_loop value trimmed)"

definition parse_hex_array :: "nat \<Rightarrow> string \<Rightarrow> registry_error + u8 list" where
  "parse_hex_array n value =
     (case parse_hex_bytes value of
        Inl err \<Rightarrow> Inl err
      | Inr bytes \<Rightarrow>
          if length bytes \<noteq> n
          then Inl (RegistryError (''expected '' @ dec_string n @ '' bytes but found '' @
                 dec_string (length bytes) @ '' in '' @ value))
          else Inr bytes)"

fun error_text :: "registry_error \<Rightarrow> string" where
  "error_text (RegistryError t) = t"

definition add_address ::
  "string \<Rightarrow> protocol_registry \<Rightarrow> string \<Rightarrow> registry_error + protocol_registry" where
  "add_address name reg address =
     (case parse_hex_array 20 address of
        Inl err \<Rightarrow> Inl (RegistryError (''invalid protocol address: '' @ error_text err))
      | Inr bytes \<Rightarrow>
          Inr (reg\<lparr>pr_by_address := bt_insert (be_word bytes) name (pr_by_address reg)\<rparr>))"

definition add_selector ::
  "protocol_registry \<Rightarrow> selector_protocol_entry \<Rightarrow> registry_error + protocol_registry" where
  "add_selector reg entry =
     (case parse_hex_array 4 (spe_selector entry) of
        Inl err \<Rightarrow> Inl (RegistryError (''invalid selector: '' @ error_text err))
      | Inr bytes \<Rightarrow>
          Inr (reg\<lparr>pr_by_selector := bt_insert bytes (spe_protocol entry) (pr_by_selector reg)\<rparr>))"

text \<open>
  \<^verbatim>\<open>from_json\<close> on the parsed configuration; a parse failure of the JSON
  text is the left value of \<open>parsed\<close>.
\<close>

definition from_json :: "string + registry_config \<Rightarrow> registry_error + protocol_registry" where
  "from_json parsed =
     (case parsed of
        Inl err \<Rightarrow> Inl (RegistryError (''invalid protocol registry json: '' @ err))
      | Inr config \<Rightarrow>
          (case fold_result
                  (\<lambda>reg protocol. fold_result (add_address (pce_name protocol)) reg
                     (pce_addresses protocol))
                  \<lparr>pr_by_address = bt_empty, pr_by_selector = bt_empty\<rparr>
                  (rc_protocols config) of
             Inl err \<Rightarrow> Inl err
           | Inr reg \<Rightarrow> fold_result add_selector reg (rc_selector_protocols config)))"

definition classify :: "protocol_registry \<Rightarrow> Address option \<Rightarrow> selector option \<Rightarrow> string" where
  "classify reg to sel =
     (case Option.bind to (bt_get (pr_by_address reg)) of
        Some protocol \<Rightarrow> protocol
      | None \<Rightarrow>
          (case Option.bind sel (bt_get (pr_by_selector reg)) of
             Some protocol \<Rightarrow> protocol
           | None \<Rightarrow> ''unknown''))"

section \<open>Analysis of one transaction\<close>

definition feature_engine_version :: string where
  "feature_engine_version = ''feature-engine.v1''"

record feature_input =
  fi_to :: "Address option"
  fi_calldata :: "u8 list"
  fi_tx_type :: u8
  fi_chain_id :: "u64 option"
  fi_gas_limit :: "u64 option"
  fi_value_wei :: "u128 option"
  fi_gas_price_wei :: "u128 option"
  fi_max_fee_per_gas_wei :: "u128 option"
  fi_max_priority_fee_per_gas_wei :: "u128 option"
  fi_max_fee_per_blob_gas_wei :: "u128 option"

record feature_analysis =
  fa_protocol :: string
  fa_category :: string
  fa_mev_score :: u16
  fa_urgency_score :: u16
  fa_method_selector :: "selector option"

record featured_transaction =
  ft_hash :: TxHash
  ft_analysis :: feature_analysis
  ft_tx_type :: u8
  ft_to :: "Address option"
  ft_gas_limit :: "u64 option"
  ft_calldata_len :: usize

definition wei_per_gwei :: u128 where
  "wei_per_gwei = 1000000000"

definition unwrap_or_default :: "'a::zero option \<Rightarrow> 'a" where
  "unwrap_or_default x = (case x of Some v \<Rightarrow> v | None \<Rightarrow> 0)"

definition selector :: "u8 list \<Rightarrow> selector option" where
  "selector calldata = (if length calldata < 4 then None else Some (take 4 calldata))"

definition swap_selectors :: "selector list" where
  "swap_selectors =
     [[0x38, 0xed, 0x17, 0x39], [0x88, 0x03, 0xdb, 0xee], [0x7f, 0xf3, 0x6a, 0xb5],
      [0x18, 0xcb, 0xaf, 0xe5], [0x4a, 0x25, 0xd9, 0x4a], [0xfb, 0x3b, 0xdb, 0x41],
      [0x04, 0xe4, 0x5a, 0xaf], [0xb8, 0x58, 0x18, 0x3f], [0x50, 0x23, 0xb4, 0xdf],
      [0x09, 0xb8, 0x13, 0x46]]"

definition transfer_selectors :: "selector list" where
  "transfer_selectors = [[0xa9, 0x05, 0x9c, 0xbb], [0x23, 0xb8, 0x72, 0xdd]]"

definition classify_category :: "selector option \<Rightarrow> string" where
  "classify_category sel =
     (case sel of
        None \<Rightarrow> ''pending''
      | Some s \<Rightarrow>
          if s \<in> set swap_selectors then ''swap''
          else if s \<in> set transfer_selectors then ''transfer''
          else if s = [0x09, 0x5e, 0xa7, 0xb3] then ''approval''
          else ''pending'')"

text \<open>The casts of the gwei amounts to sixteen bits truncate.\<close>

definition compute_urgency_score :: "feature_input \<Rightarrow> u16" where
  "compute_urgency_score input =
     (let urgency0 =
            (case fi_max_priority_fee_per_gas_wei input of
               Some priority \<Rightarrow> sat_add 0 (min (ucast (priority div wei_per_gwei)) 60)
             | None \<Rightarrow>
                 (case fi_gas_price_wei input of
                    Some gas_price \<Rightarrow> sat_add 0 (min (ucast (gas_price div wei_per_gwei) div 2) 40)
                  | None \<Rightarrow> 0));
          urgency1 = (if fi_tx_type input = 2 then sat_add urgency0 6 else urgency0);
          urgency2 = (if unwrap_or_default (fi_max_fee_per_gas_wei input) > 0
                      then sat_add urgency1 4 else urgency1)
      in min urgency2 100)"

definition base_mev_score :: "string \<Rightarrow> string \<Rightarrow> u16" where
  "base_mev_score protocol category =
     (let score = (if category = ''swap'' then 55 else if category = ''approval'' then 16
                   else if category = ''transfer'' then 10 else 8)
      in if protocol \<in> {''uniswap-v2'', ''uniswap-v3'', ''uniswap-universal'', ''1inch''}
         then sat_add score 12 else score)"

definition analyze_transaction :: "protocol_registry \<Rightarrow> feature_input \<Rightarrow> feature_analysis" where
  "analyze_transaction reg input =
     (let method_selector = selector (fi_calldata input);
          protocol = classify reg (fi_to input) method_selector;
          category = classify_category method_selector;
          urgency_score = compute_urgency_score input;
          m0 = base_mev_score protocol category;
          m1 = (if length (fi_calldata input) > 132 then sat_add m0 5 else m0);
          m2 = (if unwrap_or_default (fi_value_wei input) > 0 then sat_add m1 3 else m1);
          m3 = (if unwrap_or_default (fi_gas_limit input) \<ge> 200000 then sat_add m2 4 else m2);
          m4 = (if fi_max_fee_per_blob_gas_wei input \<noteq> None then sat_add m3 2 else m3);
          m5 = sat_add m4 (urgency_score div 2);
          m6 = (if fi_chain_id input \<noteq> Some 1 then sat_sub m5 15 else m5)
      in \<lparr>fa_protocol = protocol, fa_category = category, fa_mev_score = min m6 100,
          fa_urgency_score = urgency_score, fa_method_selector = method_selector\<rparr>)"

definition analyze_decoded_transaction ::
  "protocol_registry \<Rightarrow> tx_decoded \<Rightarrow> u8 list \<Rightarrow> featured_transaction" where
  "analyze_decoded_transaction reg tx calldata =
     (let analysis = analyze_transaction reg
            \<lparr>fi_to = dec_to tx, fi_calldata = calldata, fi_tx_type = dec_tx_type tx,
             fi_chain_id = dec_chain_id tx, fi_gas_limit = dec_gas_limit tx,
             fi_value_wei = dec_value_wei tx, fi_gas_price_wei = dec_gas_price_wei tx,
             fi_max_fee_per_gas_wei = dec_max_fee_per_gas_wei tx,
             fi_max_priority_fee_per_gas_wei = dec_max_priority_fee_per_gas_wei tx,
             fi_max_fee_per_blob_gas_wei = dec_max_fee_per_blob_gas_wei tx\<rparr>
      in \<lparr>ft_hash = dec_hash tx, ft_analysis = analysis, ft_tx_type = dec_tx_type tx,
          ft_to = dec_to tx, ft_gas_limit = dec_gas_limit tx, ft_calldata_len = length calldata\<rparr>)"

section \<open>Facts about the registry\<close>

lemma hex_loop_lower: "hex_loop value (hex_lower bs) = Inr bs"
  by (induction bs) (simp_all add: hex_lower_def hex_pair_chars)

lemma hex_lower_chars: "c \<in> set (hex_lower bs) \<Longrightarrow> \<exists>d < 16. c = hex_char d"
proof -
  assume "c \<in> set (hex_lower bs)"
  then obtain b where "c = hex_char (b div 16) \<or> c = hex_char (b mod 16)"
    by (auto simp: hex_lower_def)
  moreover have "b div 16 < 16" "b mod 16 < 16"
    using unat_le_max [of b] by (auto simp: word_less_nat_alt unat_div unat_mod)
  ultimately show ?thesis by blast
qed

lemma hex_char_code:
  "d < 16 \<Longrightarrow> (of_char (hex_char d) :: nat) \<in> {48..57} \<union> {97..102}"
  by (auto simp: hex_char_def word_less_nat_alt)

lemma hex_lower_no_space: "c \<in> set (hex_lower bs) \<Longrightarrow> \<not> is_space c"
  using hex_lower_chars hex_char_code by (fastforce simp: is_space_def Let_def)

text \<open>
  Hexadecimal round trip: the parser of addresses and selectors reads back
  every byte array of the expected length from its lower-case rendering, with surrounding
  blanks and the 0x prefix.
\<close>

theorem parse_hex_array_roundtrip:
  "parse_hex_array (length bs) (''  0x'' @ hex_lower bs @ '' '') = Inr bs"
proof -
  let ?v = "''  0x'' @ hex_lower bs @ '' ''"
  have "\<forall>c \<in> set (''0x'' @ hex_lower bs). \<not> is_space c"
    using hex_lower_no_space by (auto simp: is_space_def)
  then have "trim (''  '' @ (''0x'' @ hex_lower bs) @ '' '') = ''0x'' @ hex_lower bs"
    by (intro trim_padded) (simp add: is_space_def)
  then have "trim ?v = ''0x'' @ hex_lower bs" by simp
  then have "strip_prefix ''0x'' (trim ?v) = Some (hex_lower bs)" by simp
  moreover have "bs = []" if "hex_lower bs = []" using that length_hex_lower [of bs] by simp
  ultimately have "parse_hex_bytes ?v = Inr bs"
    by (auto simp: parse_hex_bytes_def Let_def hex_loop_lower)
  then show ?thesis by (simp add: parse_hex_array_def)
qed

section \<open>Bounds of the scores\<close>

lemma unat_min_word: "unat (min a b) = min (unat a) (unat b)"
  by (simp add: min_def word_le_nat_alt)

lemma urgency_bound: "unat (compute_urgency_score input) \<le> 70"
proof -
  define u0 :: u16 where
    "u0 = (case fi_max_priority_fee_per_gas_wei input of
       Some priority \<Rightarrow> sat_add 0 (min (ucast (priority div wei_per_gwei)) 60)
     | None \<Rightarrow> (case fi_gas_price_wei input of
         Some gas_price \<Rightarrow> sat_add 0 (min (ucast (gas_price div wei_per_gwei) div 2) 40)
       | None \<Rightarrow> 0))"
  have "unat u0 \<le> 60"
    by (simp add: u0_def unat_min_word split: option.split) linarith
  then show ?thesis
    unfolding compute_urgency_score_def Let_def u0_def [symmetric]
    by (simp add: unat_min_word unat_sat_add)
qed

text \<open>
  The scores are percentages: the MEV score of any analysed transaction is at
  most 100 and its urgency score at most 70.
\<close>

theorem analysis_bounds:
  "fa_mev_score (analyze_transaction reg input) \<le> 100 \<and>
   fa_urgency_score (analyze_transaction reg input) \<le> 70"
proof
  show "fa_mev_score (analyze_transaction reg input) \<le> 100"
    unfolding analyze_transaction_def Let_def feature_analysis.simps by (rule min.cobounded2)
  show "fa_urgency_score (analyze_transaction reg input) \<le> 70"
    using urgency_bound [of input]
    by (simp only: analyze_transaction_def Let_def feature_analysis.simps word_le_nat_alt) simp
qed

definition tip_input :: "u128 \<Rightarrow> feature_input" where
  "tip_input tip =
     \<lparr>fi_to = None, fi_calldata = [], fi_tx_type = 0, fi_chain_id = Some 1, fi_gas_limit = None,
      fi_value_wei = None, fi_gas_price_wei = None, fi_max_fee_per_gas_wei = None,
      fi_max_priority_fee_per_gas_wei = Some tip, fi_max_fee_per_blob_gas_wei = None\<rparr>"

text \<open>
  The urgency score falls when the priority fee grows past 16 bits of gwei:
  a tip of 65535 gwei scores the full 60 points and a tip of 65536 gwei scores none.
\<close>

theorem urgency_truncates:
  "compute_urgency_score (tip_input (65535 * wei_per_gwei)) = 60 \<and>
   compute_urgency_score (tip_input (65536 * wei_per_gwei)) = 0"
  by code_simp

end
