(* ===== verification/Searcher.thy ===== *)
theory Searcher
  imports Feature_Engine
begin

text \<open>
  The crate \<^verbatim>\<open>searcher\<close>: the score of a candidate (\<^verbatim>\<open>scoring.rs\<close>), the
  three per-transaction strategies (\<^verbatim>\<open>strategies.rs\<close>), and the ranking of a
  batch with its synthesized two-transaction bundles (\<^verbatim>\<open>lib.rs\<close>).
\<close>

section \<open>Scores\<close>

definition scorer_version :: string where
  "scorer_version = ''scorer.v1''"

record score_breakdown =
  sb_mev_component :: u32
  sb_urgency_component :: u32
  sb_structural_component :: u32
  sb_strategy_bonus :: u32

definition total_score :: "score_breakdown \<Rightarrow> u32" where
  "total_score b =
     sat_add (sat_add (sat_add (sb_mev_component b) (sb_urgency_component b))
       (sb_structural_component b)) (sb_strategy_bonus b)"

section \<open>Strategies\<close>

datatype strategy_kind = SandwichCandidate | BackrunCandidate | ArbCandidate | BundleCandidate

text \<open>The derived order is the order of the constructors.\<close>

fun strategy_index :: "strategy_kind \<Rightarrow> nat" where
  "strategy_index SandwichCandidate = 0"
| "strategy_index BackrunCandidate = 1"
| "strategy_index ArbCandidate = 2"
| "strategy_index BundleCandidate = 3"

lemma strategy_index_inj: "strategy_index a = strategy_index b \<longleftrightarrow> a = b"
  by (cases a; cases b) simp_all

instantiation strategy_kind :: linorder
begin

definition less_eq_strategy_kind :: "strategy_kind \<Rightarrow> strategy_kind \<Rightarrow> bool" where
  "less_eq_strategy_kind a b \<longleftrightarrow> strategy_index a \<le> strategy_index b"

definition less_strategy_kind :: "strategy_kind \<Rightarrow> strategy_kind \<Rightarrow> bool" where
  "less_strategy_kind a b \<longleftrightarrow> strategy_index a < strategy_index b"

instance
  by standard (auto simp: less_eq_strategy_kind_def less_strategy_kind_def strategy_index_inj)

end

fun strategy_version :: "strategy_kind \<Rightarrow> string" where
  "strategy_version SandwichCandidate = ''strategy.sandwich.v1''"
| "strategy_version BackrunCandidate = ''strategy.backrun.v1''"
| "strategy_version ArbCandidate = ''strategy.arb.v1''"
| "strategy_version BundleCandidate = ''strategy.bundle.v1''"

record opportunity_candidate =
  oc_tx_hash :: TxHash
  oc_member_tx_hashes :: "TxHash list"
  oc_strategy :: strategy_kind
  oc_feature_engine_version :: string
  oc_scorer_version :: string
  oc_strategy_version :: string
  oc_score :: u32
  oc_protocol :: string
  oc_category :: string
  oc_breakdown :: score_breakdown
  oc_reasons :: "string list"

definition structural_bonus :: "featured_transaction \<Rightarrow> u32" where
  "structural_bonus featured =
     (let calldata_bonus = of_nat (min (ft_calldata_len featured) 512);
          gas_bonus = ucast (min (unwrap_or_default (ft_gas_limit featured)) 500000) div 1000
      in calldata_bonus + gas_bonus)"

definition candidate ::
  "strategy_kind \<Rightarrow> featured_transaction \<Rightarrow> score_breakdown \<Rightarrow> string list \<Rightarrow> opportunity_candidate" where
  "candidate strategy featured breakdown reasons =
     \<lparr>oc_tx_hash = ft_hash featured, oc_member_tx_hashes = [ft_hash featured],
      oc_strategy = strategy, oc_feature_engine_version = feature_engine_version,
      oc_scorer_version = scorer_version, oc_strategy_version = strategy_version strategy,
      oc_score = total_score breakdown,
      oc_protocol = fa_protocol (ft_analysis featured),
      oc_category = fa_category (ft_analysis featured),
      oc_breakdown = breakdown, oc_reasons = reasons\<rparr>"

definition evaluate_sandwich_candidate :: "featured_transaction \<Rightarrow> opportunity_candidate option" where
  "evaluate_sandwich_candidate featured =
     (let analysis = ft_analysis featured
      in if fa_category analysis \<noteq> ''swap'' \<or> fa_mev_score analysis < 70 then None
         else if \<not> starts_with (fa_protocol analysis) ''uniswap'' \<and> fa_protocol analysis \<noteq> ''1inch''
         then None
         else
           let breakdown = \<lparr>sb_mev_component = ucast (fa_mev_score analysis) * 120,
                 sb_urgency_component = ucast (fa_urgency_score analysis) * 25,
                 sb_structural_component = structural_bonus featured,
                 sb_strategy_bonus = 500\<rparr>
           in Some (candidate SandwichCandidate featured breakdown
                [''mev_score='' @ show_word (fa_mev_score analysis) @ ''*120'',
                 ''urgency_score='' @ show_word (fa_urgency_score analysis) @ ''*25'',
                 ''calldata/gas structural bonus='' @
                   show_word (sb_structural_component breakdown),
                 ''strategy bonus=500'']))"

definition evaluate_backrun_candidate :: "featured_transaction \<Rightarrow> opportunity_candidate option" where
  "evaluate_backrun_candidate featured =
     (let analysis = ft_analysis featured
      in if fa_category analysis \<noteq> ''swap'' \<or> fa_mev_score analysis < 55
            \<or> fa_urgency_score analysis < 12 then None
         else
           let breakdown = \<lparr>sb_mev_component = ucast (fa_mev_score analysis) * 100,
                 sb_urgency_component = ucast (fa_urgency_score analysis) * 20,
                 sb_structural_component = structural_bonus featured,
                 sb_strategy_bonus = 300\<rparr>
           in Some (candidate BackrunCandidate featured breakdown
                [''mev_score='' @ show_word (fa_mev_score analysis) @ ''*100'',
                 ''urgency_score='' @ show_word (fa_urgency_score analysis) @ ''*20'',
                 ''calldata/gas structural bonus='' @
                   show_word (sb_structural_component breakdown),
                 ''strategy bonus=300'']))"

definition evaluate_arb_candidate :: "featured_transaction \<Rightarrow> opportunity_candidate option" where
  "evaluate_arb_candidate featured =
     (let analysis = ft_analysis featured
      in if fa_category analysis \<noteq> ''swap'' \<or> fa_mev_score analysis < 50 then None
         else
           let breakdown = \<lparr>sb_mev_component = ucast (fa_mev_score analysis) * 90,
                 sb_urgency_component = ucast (fa_urgency_score analysis) * 15,
                 sb_structural_component = structural_bonus featured,
                 sb_strategy_bonus = 200\<rparr>
           in Some (candidate ArbCandidate featured breakdown
                [''mev_score='' @ show_word (fa_mev_score analysis) @ ''*90'',
                 ''urgency_score='' @ show_word (fa_urgency_score analysis) @ ''*15'',
                 ''calldata/gas structural bonus='' @
                   show_word (sb_structural_component breakdown),
                 ''strategy bonus=200'']))"

definition rank_transaction :: "featured_transaction \<Rightarrow> u32 \<Rightarrow> opportunity_candidate list" where
  "rank_transaction featured min_score =
     filter (\<lambda>c. oc_score c \<ge> min_score)
       (List.map_filter id [evaluate_sandwich_candidate featured,
          evaluate_backrun_candidate featured, evaluate_arb_candidate featured])"

section \<open>Ranking a batch\<close>

record searcher_input_tx =
  si_decoded :: tx_decoded
  si_calldata :: "u8 list"

record searcher_config =
  sc_min_score :: u32
  sc_max_candidates :: usize

definition default_searcher_config :: searcher_config where
  "default_searcher_config = \<lparr>sc_min_score = 0, sc_max_candidates = 64\<rparr>"

record searcher_batch_metrics =
  sbm_input_transactions :: usize
  sbm_generated_candidates :: usize
  sbm_returned_candidates :: usize
  sbm_truncated_candidates :: usize
  sbm_bundle_candidates_generated :: usize

record searcher_batch_result =
  sbr_candidates :: "opportunity_candidate list"
  sbr_metrics :: searcher_batch_metrics

record bundle_input =
  bi_sender :: Address
  bi_nonce :: u64
  bi_candidate :: opportunity_candidate

definition candidate_sort_key :: "opportunity_candidate \<Rightarrow> opportunity_candidate \<Rightarrow> ordering" where
  "candidate_sort_key left right =
     then_with (then_with (cmp (oc_score right) (oc_score left))
       (cmp (oc_strategy left) (oc_strategy right)))
       (cmp (oc_tx_hash left) (oc_tx_hash right))"

definition bundle_sort_key :: "bundle_input \<Rightarrow> bundle_input \<Rightarrow> ordering" where
  "bundle_sort_key left right =
     then_with (then_with (cmp (bi_sender left) (bi_sender right))
       (cmp (bi_nonce left) (bi_nonce right)))
       (candidate_sort_key (bi_candidate left) (bi_candidate right))"

definition bundle_breakdown :: "score_breakdown \<Rightarrow> score_breakdown \<Rightarrow> score_breakdown" where
  "bundle_breakdown l r =
     \<lparr>sb_mev_component = sat_add (sb_mev_component l) (sb_mev_component r),
      sb_urgency_component = sat_add (sb_urgency_component l) (sb_urgency_component r),
      sb_structural_component = sat_add (sb_structural_component l) (sb_structural_component r),
      sb_strategy_bonus = sat_add (sat_add (sb_strategy_bonus l) (sb_strategy_bonus r)) 400\<rparr>"

text \<open>The body of the loop over adjacent pairs; \<^verbatim>\<open>continue\<close> yields nothing.\<close>

definition bundle_pair :: "bundle_input \<Rightarrow> bundle_input \<Rightarrow> opportunity_candidate option" where
  "bundle_pair left right =
     (if bi_sender left \<noteq> bi_sender right
         \<or> bi_nonce right \<noteq> sat_add (bi_nonce left) 1
         \<or> oc_protocol (bi_candidate left) \<noteq> oc_protocol (bi_candidate right)
         \<or> oc_category (bi_candidate left) \<noteq> oc_category (bi_candidate right)
      then None
      else
        let l = bi_candidate left; r = bi_candidate right;
            breakdown = bundle_breakdown (oc_breakdown l) (oc_breakdown r)
        in Some
             \<lparr>oc_tx_hash = oc_tx_hash l,
              oc_member_tx_hashes = [oc_tx_hash l, oc_tx_hash r],
              oc_strategy = BundleCandidate,
              oc_feature_engine_version = feature_engine_version,
              oc_scorer_version = scorer_version,
              oc_strategy_version = strategy_version BundleCandidate,
              oc_score = total_score breakdown,
              oc_protocol = oc_protocol l, oc_category = oc_category l,
              oc_breakdown = breakdown,
              oc_reasons =
                [''bundle_size=2'',
                 ''contiguous_nonces='' @ show_word (bi_nonce left) @ ''..'' @
                   show_word (bi_nonce right),
                 ''member_hashes='' @ debug_bytes (hash_bytes (oc_tx_hash l)) @ ''+'' @
                   debug_bytes (hash_bytes (oc_tx_hash r)),
                 ''member_scores='' @ show_word (oc_score l) @ ''+'' @ show_word (oc_score r),
                 ''bundle bonus=400'']\<rparr>)"

definition build_bundle_candidates :: "bundle_input list \<Rightarrow> opportunity_candidate list" where
  "build_bundle_candidates inputs =
     (let sorted = sort_by bundle_sort_key inputs
      in List.map_filter (\<lambda>(left, right). bundle_pair left right) (zip sorted (tl sorted)))"

text \<open>The candidates of one transaction of the batch, best first.\<close>

definition input_candidates ::
  "protocol_registry \<Rightarrow> searcher_config \<Rightarrow> searcher_input_tx \<Rightarrow> opportunity_candidate list" where
  "input_candidates reg config input =
     sort_by candidate_sort_key
       (rank_transaction (analyze_decoded_transaction reg (si_decoded input) (si_calldata input))
          (sc_min_score config))"

definition bundle_input_of ::
  "protocol_registry \<Rightarrow> searcher_config \<Rightarrow> searcher_input_tx \<Rightarrow> bundle_input option" where
  "bundle_input_of reg config input =
     (case input_candidates reg config input of
        [] \<Rightarrow> None
      | top_candidate # _ \<Rightarrow>
          Some \<lparr>bi_sender = dec_sender (si_decoded input), bi_nonce = dec_nonce (si_decoded input),
                bi_candidate = top_candidate\<rparr>)"

definition rank_opportunity_batch ::
  "protocol_registry \<Rightarrow> searcher_input_tx list \<Rightarrow> searcher_config \<Rightarrow> searcher_batch_result" where
  "rank_opportunity_batch reg batch config =
     (let candidates = concat (map (input_candidates reg config) batch);
          bundle_inputs = List.map_filter (bundle_input_of reg config) batch;
          bundle_candidates = build_bundle_candidates bundle_inputs;
          sorted = sort_by candidate_sort_key (candidates @ bundle_candidates);
          generated_candidates = length sorted;
          returned = take (sc_max_candidates config) sorted
      in \<lparr>sbr_candidates = returned,
          sbr_metrics =
            \<lparr>sbm_input_transactions = length batch,
             sbm_generated_candidates = generated_candidates,
             sbm_returned_candidates = length returned,
             sbm_truncated_candidates = generated_candidates - length returned,
             sbm_bundle_candidates_generated = length bundle_candidates\<rparr>\<rparr>)"

section \<open>The two sort orders\<close>

interpretation candidate_order: comparator candidate_sort_key
  unfolding candidate_sort_key_def [abs_def]
  by (intro comparator_then comparator_cmp comparator_cmp_desc)

interpretation bundle_order: comparator bundle_sort_key
  unfolding bundle_sort_key_def [abs_def]
proof (intro comparator_then comparator_cmp)
  show "comparator (\<lambda>left right. candidate_sort_key (bi_candidate left) (bi_candidate right))"
    by unfold_locales (rule candidate_order.comp_flip, erule (1) candidate_order.comp_trans)
qed


section \<open>Exact scores\<close>

text \<open>The weights of the strategies: of the MEV score, of the urgency score, and the bonus.\<close>

fun weights :: "strategy_kind \<Rightarrow> nat \<times> nat \<times> nat" where
  "weights SandwichCandidate = (120, 25, 500)"
| "weights BackrunCandidate = (100, 20, 300)"
| "weights ArbCandidate = (90, 15, 200)"
| "weights BundleCandidate = (0, 0, 0)"

definition structural_points :: "featured_transaction \<Rightarrow> nat" where
  "structural_points featured =
     min (ft_calldata_len featured) 512
       + min (unat (unwrap_or_default (ft_gas_limit featured))) 500000 div 1000"

definition weighted_score :: "strategy_kind \<Rightarrow> featured_transaction \<Rightarrow> nat" where
  "weighted_score strategy featured =
     (let (mw, uw, bonus) = weights strategy
      in mw * unat (fa_mev_score (ft_analysis featured))
           + uw * unat (fa_urgency_score (ft_analysis featured))
           + structural_points featured + bonus)"

definition small :: "score_breakdown \<Rightarrow> bool" where
  "small b \<longleftrightarrow> unat (sb_mev_component b) \<le> 20000 \<and> unat (sb_urgency_component b) \<le> 20000 \<and>
     unat (sb_structural_component b) \<le> 20000 \<and> unat (sb_strategy_bonus b) \<le> 20000"

lemma total_score_small:
  "small b \<Longrightarrow> unat (total_score b) =
    unat (sb_mev_component b) + unat (sb_urgency_component b) +
    unat (sb_structural_component b) + unat (sb_strategy_bonus b)"
  by (simp add: small_def total_score_def unat_sat_add)

lemma unat_structural_bonus: "unat (structural_bonus featured) = structural_points featured"
proof -
  let ?g = "min (unwrap_or_default (ft_gas_limit featured)) 500000"
  have g: "unat ?g \<le> 500000" by (simp add: unat_min_word)
  then have "unat (ucast ?g :: u32) = unat ?g"
    by (simp add: unsigned_ucast_eq take_bit_nat_eq_self)
  then have 1: "unat (ucast ?g div 1000 :: u32) =
      min (unat (unwrap_or_default (ft_gas_limit featured))) 500000 div 1000"
    by (simp add: unat_div unat_min_word)
  have 2: "unat (of_nat (min (ft_calldata_len featured) 512) :: u32) =
      min (ft_calldata_len featured) 512"
    by (simp add: unat_of_nat)
  have "min (unat (unwrap_or_default (ft_gas_limit featured))) 500000 div 1000 \<le> 500"
    using div_le_mono [of "min (unat (unwrap_or_default (ft_gas_limit featured))) 500000" 500000 1000]
    by simp
  then show ?thesis
    by (simp only: structural_bonus_def structural_points_def Let_def unat_word_ariths(1) 1 2) simp
qed

lemma structural_points_bound: "structural_points featured \<le> 1012"
  using div_le_mono [of "min (unat (unwrap_or_default (ft_gas_limit featured))) 500000" 500000 1000]
  by (simp add: structural_points_def)

lemma unat_scaled:
  "unat (ucast (x :: u16) * k :: u32) = unat x * unat k" if "unat x \<le> 100" "unat k \<le> 120"
proof -
  have "unat (ucast x :: u32) = unat x"
    using that(1) by (simp add: unsigned_ucast_eq take_bit_nat_eq_self)
  moreover have "unat x * unat k \<le> 100 * 120" using that by (rule mult_le_mono)
  ultimately show ?thesis by (simp add: unat_word_ariths)
qed

definition scores_bounded :: "featured_transaction \<Rightarrow> bool" where
  "scores_bounded featured \<longleftrightarrow> unat (fa_mev_score (ft_analysis featured)) \<le> 100 \<and>
     unat (fa_urgency_score (ft_analysis featured)) \<le> 100"

lemma rank_transaction_cases:
  assumes "c \<in> set (rank_transaction featured min_score)" and "scores_bounded featured"
  shows "oc_tx_hash c = ft_hash featured" and "oc_member_tx_hashes c = [ft_hash featured]"
    and "min_score \<le> oc_score c" and "oc_strategy c \<noteq> BundleCandidate"
    and "oc_score c = total_score (oc_breakdown c)" and "small (oc_breakdown c)"
    and "unat (oc_score c) = weighted_score (oc_strategy c) featured"
proof -
  note defs = evaluate_sandwich_candidate_def evaluate_backrun_candidate_def
    evaluate_arb_candidate_def
  have b: "unat (fa_mev_score (ft_analysis featured)) \<le> 100"
    "unat (fa_urgency_score (ft_analysis featured)) \<le> 100"
    using assms(2) by (simp_all add: scores_bounded_def)
  have c: "evaluate_sandwich_candidate featured = Some c \<or>
      evaluate_backrun_candidate featured = Some c \<or> evaluate_arb_candidate featured = Some c"
    and "min_score \<le> oc_score c"
    using assms(1) unfolding rank_transaction_def set_filter mem_Collect_eq in_set_map_filter
    by auto
  then show "min_score \<le> oc_score c" by simp
  show "oc_tx_hash c = ft_hash featured" "oc_member_tx_hashes c = [ft_hash featured]"
    and strat: "oc_strategy c \<noteq> BundleCandidate"
    and total: "oc_score c = total_score (oc_breakdown c)"
    using c by (auto simp: defs Let_def candidate_def split: if_splits)
  obtain mw uw bonus where w: "weights (oc_strategy c) = (mw, uw, bonus)"
    by (cases "weights (oc_strategy c)") auto
  have comps: "sb_structural_component (oc_breakdown c) = structural_bonus featured"
      "unat (sb_mev_component (oc_breakdown c)) = mw * unat (fa_mev_score (ft_analysis featured))"
      "unat (sb_urgency_component (oc_breakdown c)) =
        uw * unat (fa_urgency_score (ft_analysis featured))"
      "unat (sb_strategy_bonus (oc_breakdown c)) = bonus" "mw \<le> 120" "uw \<le> 120" "bonus \<le> 500"
    using c w b
    by (auto simp: defs Let_def candidate_def unat_scaled split: if_splits)
  have "mw * unat (fa_mev_score (ft_analysis featured)) \<le> 120 * 100"
    "uw * unat (fa_urgency_score (ft_analysis featured)) \<le> 120 * 100"
    using comps b by (intro mult_le_mono; simp)+
  then show s: "small (oc_breakdown c)"
    using comps structural_points_bound [of featured]
    by (simp add: small_def unat_structural_bonus)
  show "unat (oc_score c) = weighted_score (oc_strategy c) featured"
    using comps w by (simp add: total total_score_small [OF s] unat_structural_bonus weighted_score_def)
qed

lemma analyzed_bounded: "scores_bounded (analyze_decoded_transaction reg tx calldata)"
proof -
  have "unat (min w 100) \<le> 100" for w :: u16 by (simp add: unat_min_word)
  then show ?thesis
    using urgency_bound
    by (simp add: scores_bounded_def analyze_decoded_transaction_def analyze_transaction_def Let_def
        order_trans [OF urgency_bound])
qed

abbreviation featured_of :: "protocol_registry \<Rightarrow> searcher_input_tx \<Rightarrow> featured_transaction" where
  "featured_of reg input \<equiv> analyze_decoded_transaction reg (si_decoded input) (si_calldata input)"

lemmas input_candidate_cases =
  rank_transaction_cases [OF _ analyzed_bounded]

lemma in_input_candidates:
  "c \<in> set (input_candidates reg config input) \<longleftrightarrow>
    c \<in> set (rank_transaction (featured_of reg input) (sc_min_score config))"
  by (simp add: input_candidates_def)

section \<open>Bundles\<close>

lemma bundle_inputE:
  assumes "bi \<in> set (List.map_filter (bundle_input_of reg config) batch)"
  obtains input where "input \<in> set batch" and "bi_sender bi = dec_sender (si_decoded input)"
    and "bi_nonce bi = dec_nonce (si_decoded input)"
    and "bi_candidate bi \<in> set (input_candidates reg config input)"
    and "bi_candidate bi = hd (input_candidates reg config input)"
proof -
  obtain input where i: "input \<in> set batch" "bundle_input_of reg config input = Some bi"
    using assms by (auto simp: in_set_map_filter)
  then show ?thesis
    using that [of input] by (auto simp: bundle_input_of_def split: list.splits)
qed

lemma in_build_bundles:
  assumes "c \<in> set (build_bundle_candidates inputs)"
  obtains l r where "l \<in> set inputs" and "r \<in> set inputs" and "bundle_pair l r = Some c"
proof -
  let ?s = "sort_by bundle_sort_key inputs"
  obtain l r where lr: "(l, r) \<in> set (zip ?s (tl ?s))" "bundle_pair l r = Some c"
    using assms by (auto simp: build_bundle_candidates_def Let_def in_set_map_filter)
  have "set (tl xs) \<subseteq> set xs" for xs :: "bundle_input list"
    by (cases xs) auto
  then have "l \<in> set ?s" "r \<in> set ?s"
    using set_zip_leftD [OF lr(1)] set_zip_rightD [OF lr(1)] by blast+
  then show ?thesis using lr(2) that by simp
qed

lemma bundle_pair_score:
  assumes "bundle_pair l r = Some c"
    and "small (oc_breakdown (bi_candidate l))" and "small (oc_breakdown (bi_candidate r))"
    and "oc_score (bi_candidate l) = total_score (oc_breakdown (bi_candidate l))"
    and "oc_score (bi_candidate r) = total_score (oc_breakdown (bi_candidate r))"
  shows "unat (oc_score c) = unat (oc_score (bi_candidate l)) + unat (oc_score (bi_candidate r)) + 400"
proof -
  have "oc_score c = total_score (bundle_breakdown (oc_breakdown (bi_candidate l))
      (oc_breakdown (bi_candidate r)))"
    using assms(1) by (auto simp: bundle_pair_def Let_def split: if_splits)
  also have "unat \<dots> = unat (total_score (oc_breakdown (bi_candidate l))) +
      unat (total_score (oc_breakdown (bi_candidate r))) + 400"
    using assms(2,3) unfolding total_score_small [OF assms(2)] total_score_small [OF assms(3)]
    by (simp add: total_score_def bundle_breakdown_def unat_sat_add small_def)
  finally show ?thesis using assms(4,5) by simp
qed


section \<open>Properties of the ranking\<close>


lemma returned_cases:
  assumes "c \<in> set (sbr_candidates (rank_opportunity_batch reg batch config))"
  obtains (single) input where "input \<in> set batch" and "c \<in> set (input_candidates reg config input)"
  | (pair) l r where "l \<in> set (List.map_filter (bundle_input_of reg config) batch)"
      and "r \<in> set (List.map_filter (bundle_input_of reg config) batch)"
      and "bundle_pair l r = Some c"
proof -
  have "c \<in> set (concat (map (input_candidates reg config) batch)) \<union>
      set (build_bundle_candidates (List.map_filter (bundle_input_of reg config) batch))"
    using assms by (auto simp: rank_opportunity_batch_def Let_def dest: in_set_takeD)
  then show ?thesis using single pair by (auto elim: in_build_bundles)
qed

text \<open>
  Every returned candidate reaches the configured minimum score, and all its
  member hashes are hashes of transactions of the batch.
\<close>

theorem returned_candidates_qualify:
  assumes "c \<in> set (sbr_candidates (rank_opportunity_batch reg batch config))"
  shows "sc_min_score config \<le> oc_score c \<and>
    set (oc_member_tx_hashes c) \<subseteq> (\<lambda>i. dec_hash (si_decoded i)) ` set batch \<and>
    oc_member_tx_hashes c \<noteq> [] \<and> oc_tx_hash c = hd (oc_member_tx_hashes c)"
proof -
  have hash: "ft_hash (featured_of reg i) = dec_hash (si_decoded i)" for i
    by (simp add: analyze_decoded_transaction_def Let_def)
  show ?thesis
    using assms
  proof (cases rule: returned_cases)
    case (single input)
    then have c: "c \<in> set (rank_transaction (featured_of reg input) (sc_min_score config))"
      by (simp add: in_input_candidates)
    show ?thesis using input_candidate_cases [OF c] single(1) hash by auto
  next
    case (pair l r)
    obtain il where l: "il \<in> set batch" "bi_candidate l \<in> set (input_candidates reg config il)"
      using pair(1) by (rule bundle_inputE)
    obtain ir where r: "ir \<in> set batch" "bi_candidate r \<in> set (input_candidates reg config ir)"
      using pair(2) by (rule bundle_inputE)
    note cl = input_candidate_cases [OF l(2) [unfolded in_input_candidates]]
    note cr = input_candidate_cases [OF r(2) [unfolded in_input_candidates]]
    have "unat (oc_score c) = unat (oc_score (bi_candidate l)) + unat (oc_score (bi_candidate r)) + 400"
      using pair(3) cl(6) cr(6) cl(5) cr(5) by (rule bundle_pair_score)
    moreover have "oc_member_tx_hashes c = [oc_tx_hash (bi_candidate l), oc_tx_hash (bi_candidate r)]"
        "oc_tx_hash c = oc_tx_hash (bi_candidate l)"
      using pair(3) by (auto simp: bundle_pair_def Let_def split: if_splits)
    ultimately show ?thesis
      using cl(1,3) cr(1) l(1) r(1) hash by (auto simp: word_le_nat_alt)
  qed
qed

text \<open>
  A returned single-transaction candidate scores exactly the weighted sum of
  its analysis, computed without overflow or saturation.
\<close>

theorem candidate_score_exact:
  assumes "c \<in> set (sbr_candidates (rank_opportunity_batch reg batch config))"
    and "oc_strategy c \<noteq> BundleCandidate"
  shows "\<exists>input \<in> set batch. oc_tx_hash c = dec_hash (si_decoded input) \<and>
    unat (oc_score c) = weighted_score (oc_strategy c)
      (analyze_decoded_transaction reg (si_decoded input) (si_calldata input))"
  using assms(1)
proof (cases rule: returned_cases)
  case (single input)
  note c = input_candidate_cases [OF single(2) [unfolded in_input_candidates]]
  show ?thesis using single(1) c(1,7)
    by (intro bexI [of _ input]) (simp_all add: analyze_decoded_transaction_def Let_def)
next
  case (pair l r)
  then show ?thesis using assms(2) by (auto simp: bundle_pair_def Let_def split: if_splits)
qed

text \<open>
  A returned bundle joins the best candidates of two transactions of the batch
  with the same sender, the nonce of the second following that of the first, and the same
  protocol and category; its score is the sum of the two scores plus 400, without saturation.
\<close>

theorem bundle_well_formed:
  assumes "c \<in> set (sbr_candidates (rank_opportunity_batch reg batch config))"
    and "oc_strategy c = BundleCandidate"
  shows "\<exists>i \<in> set batch. \<exists>j \<in> set batch.
    oc_member_tx_hashes c = [dec_hash (si_decoded i), dec_hash (si_decoded j)] \<and>
    dec_sender (si_decoded i) = dec_sender (si_decoded j) \<and>
    dec_nonce (si_decoded j) = sat_add (dec_nonce (si_decoded i)) 1 \<and>
    oc_protocol (hd (input_candidates reg config i)) = oc_protocol (hd (input_candidates reg config j)) \<and>
    unat (oc_score c) = unat (oc_score (hd (input_candidates reg config i)))
      + unat (oc_score (hd (input_candidates reg config j))) + 400"
  using assms(1)
proof (cases rule: returned_cases)
  case (single input)
  then show ?thesis
    using input_candidate_cases(4) [OF single(2) [unfolded in_input_candidates]] assms(2) by simp
next
  case (pair l r)
  have hash: "ft_hash (featured_of reg i) = dec_hash (si_decoded i)" for i
    by (simp add: analyze_decoded_transaction_def Let_def)
  obtain i where i: "i \<in> set batch" "bi_sender l = dec_sender (si_decoded i)"
    "bi_nonce l = dec_nonce (si_decoded i)" "bi_candidate l \<in> set (input_candidates reg config i)"
    "bi_candidate l = hd (input_candidates reg config i)"
    using pair(1) by (rule bundle_inputE)
  obtain j where j: "j \<in> set batch" "bi_sender r = dec_sender (si_decoded j)"
    "bi_nonce r = dec_nonce (si_decoded j)" "bi_candidate r \<in> set (input_candidates reg config j)"
    "bi_candidate r = hd (input_candidates reg config j)"
    using pair(2) by (rule bundle_inputE)
  note cl = input_candidate_cases [OF i(4) [unfolded in_input_candidates]]
  note cr = input_candidate_cases [OF j(4) [unfolded in_input_candidates]]
  have "unat (oc_score c) = unat (oc_score (bi_candidate l)) + unat (oc_score (bi_candidate r)) + 400"
    using pair(3) cl(6) cr(6) cl(5) cr(5) by (rule bundle_pair_score)
  moreover have "bi_sender l = bi_sender r" "bi_nonce r = sat_add (bi_nonce l) 1"
    "oc_protocol (bi_candidate l) = oc_protocol (bi_candidate r)"
    "oc_member_tx_hashes c = [oc_tx_hash (bi_candidate l), oc_tx_hash (bi_candidate r)]"
    using pair(3) by (auto simp: bundle_pair_def Let_def split: if_splits)
  ultimately show ?thesis
    using i j cl(1) cr(1) hash by (intro bexI [of _ i] bexI [of _ j] conjI) simp_all
qed


section \<open>A concrete batch\<close>

text \<open>Two consecutive swaps of one sender, and a transfer.\<close>

definition sample_input :: "TxHash \<Rightarrow> u64 \<Rightarrow> u8 list \<Rightarrow> searcher_input_tx" where
  "sample_input hash nonce calldata =
     \<lparr>si_decoded = \<lparr>dec_hash = hash, dec_tx_type = 2, dec_sender = 7, dec_nonce = nonce,
        dec_chain_id = Some 1, dec_to = Some 11, dec_value_wei = Some 1,
        dec_gas_limit = Some 250000, dec_gas_price_wei = None,
        dec_max_fee_per_gas_wei = Some 65000000000,
        dec_max_priority_fee_per_gas_wei = Some 4000000000, dec_max_fee_per_blob_gas_wei = None,
        dec_calldata_len = Some 4\<rparr>,
      si_calldata = calldata\<rparr>"

definition sample_registry :: protocol_registry where
  "sample_registry = \<lparr>pr_by_address = bt_insert 11 ''uniswap-v2'' bt_empty, pr_by_selector = bt_empty\<rparr>"

definition sample_batch :: "searcher_input_tx list" where
  "sample_batch = [sample_input 1 5 [0x38, 0xed, 0x17, 0x39], sample_input 2 6 [0x38, 0xed, 0x17, 0x39],
     sample_input 3 9 [0xa9, 0x05, 0x9c, 0xbb]]"

lemma sample_scores:
  "map (\<lambda>c. (oc_strategy c, oc_tx_hash c, oc_score c))
     (sbr_candidates (rank_opportunity_batch sample_registry sample_batch default_searcher_config)) =
   [(BundleCandidate, 1, 22048), (SandwichCandidate, 1, 10824), (SandwichCandidate, 2, 10824),
    (BackrunCandidate, 1, 8934), (BackrunCandidate, 2, 8934),
    (ArbCandidate, 1, 7954), (ArbCandidate, 2, 7954)]"
  by code_simp

lemma sample_candidateE:
  assumes "(strategy, hash, score) \<in> {(BundleCandidate, 1, 22048), (SandwichCandidate, 1, 10824)}"
  obtains c where "c \<in> set (sbr_candidates (rank_opportunity_batch sample_registry sample_batch
      default_searcher_config))"
    and "oc_strategy c = strategy" and "oc_tx_hash c = hash" and "oc_score c = score"
proof -
  have "(strategy, hash, score) \<in> set (map (\<lambda>c. (oc_strategy c, oc_tx_hash c, oc_score c))
     (sbr_candidates (rank_opportunity_batch sample_registry sample_batch default_searcher_config)))"
    using assms unfolding sample_scores by auto
  then show ?thesis using that by auto
qed

theorem returned_candidates_qualify_witness:
  "\<exists>c :: opportunity_candidate. oc_score c = 22048 \<and>
     set (oc_member_tx_hashes c) \<subseteq> (\<lambda>i. dec_hash (si_decoded i)) ` set sample_batch"
proof -
  obtain c where c: "c \<in> set (sbr_candidates (rank_opportunity_batch sample_registry sample_batch
      default_searcher_config))" and "oc_score c = 22048"
    by (rule sample_candidateE [of BundleCandidate 1 22048]) auto
  then show ?thesis using returned_candidates_qualify [OF c] by blast
qed

theorem candidate_score_exact_witness:
  "\<exists>input \<in> set sample_batch. weighted_score SandwichCandidate
     (analyze_decoded_transaction sample_registry (si_decoded input) (si_calldata input)) = 10824"
proof -
  obtain c where c: "c \<in> set (sbr_candidates (rank_opportunity_batch sample_registry sample_batch
      default_searcher_config))" and s: "oc_strategy c = SandwichCandidate" "oc_score c = 10824"
    by (rule sample_candidateE [of SandwichCandidate 1 10824]) auto
  have "oc_strategy c \<noteq> BundleCandidate" using s by simp
  from candidate_score_exact [OF c this] show ?thesis using s by auto
qed

theorem bundle_well_formed_witness:
  "\<exists>i \<in> set sample_batch. \<exists>j \<in> set sample_batch.
     dec_nonce (si_decoded j) = sat_add (dec_nonce (si_decoded i)) 1 \<and>
     22048 = unat (oc_score (hd (input_candidates sample_registry default_searcher_config i)))
      + unat (oc_score (hd (input_candidates sample_registry default_searcher_config j))) + 400"
proof -
  obtain c where c: "c \<in> set (sbr_candidates (rank_opportunity_batch sample_registry sample_batch
      default_searcher_config))" and s: "oc_strategy c = BundleCandidate" "oc_score c = 22048"
    by (rule sample_candidateE [of BundleCandidate 1 22048]) auto
  have "unat (oc_score c) = 22048" using s(2) by simp
  with bundle_well_formed [OF c s(1)] show ?thesis by metis
qed

end
