(* ===== verification/Sim_Engine.thy ===== *)
theory Sim_Engine
  imports Event_Log Text
begin

text \<open>
  The crate \<^verbatim>\<open>sim-engine\<close>: preparing a batch for the EVM, executing it
  transaction by transaction, and digesting the outcomes. The EVM itself
  (\<^verbatim>\<open>revm\<close>), its database and SHA-256 are not code of the repository: they
  are the parameters \<open>insert_account\<close>, \<open>transact\<close>, \<open>commit\<close> and \<open>sha256\<close>.
\<close>

section \<open>Data\<close>

record chain_context =
  cc_chain_id :: u64
  cc_block_number :: u64
  cc_block_timestamp :: u64
  cc_gas_limit :: u64
  cc_base_fee_wei :: u128
  cc_coinbase :: Address
  cc_state_root :: TxHash

datatype simulation_fail_category =
  Revert | OutOfGas | NonceMismatch | StateMismatch | UnknownFailure

record tx_simulation_result =
  tsr_hash :: TxHash
  tsr_success :: bool
  tsr_gas_used :: u64
  tsr_state_diff_hash :: TxHash
  tsr_fail_category :: "simulation_fail_category option"
  tsr_trace_id :: u64

record simulation_batch_result =
  sbr_chain_context :: chain_context
  sbr_tx_results :: "tx_simulation_result list"
  sbr_final_state_diff_hash :: TxHash

record simulation_tx_input =
  sti_decoded :: tx_decoded
  sti_calldata :: "u8 list option"

record account_seed =
  as_balance_wei :: u128
  as_nonce :: u64

text \<open>
  The mode of a batch; a state provider answers an address with an account, with
  nothing, or with an error.
\<close>

datatype 'err simulation_mode =
    SyntheticDeterministic
  | RpcBacked "Address \<Rightarrow> 'err + account_seed option"

text \<open>What the EVM reports, as far as the sources look at it.\<close>

datatype halt_reason = HaltOutOfGas | HaltOther

datatype execution_kind = ExecSuccess | ExecRevert | ExecHalt halt_reason

datatype invalid_transaction =
    NonceTooHigh | NonceTooLow | CallGasCostMoreThanGasLimit | GasFloorMoreThanGasLimit
  | GasPriceLessThanBasefee | OtherInvalid

datatype evm_error = TransactionError invalid_transaction | DatabaseError | HeaderError | CustomError

record evm_account =
  ea_balance :: "256 word"
  ea_nonce :: u64
  ea_code_hash :: TxHash
  ea_status :: u8
  ea_changed_slots :: "(256 word \<times> 256 word) list"

type_synonym evm_state = "(Address \<times> evm_account) list"

record execution_outcome =
  eo_kind :: execution_kind
  eo_gas_used :: u64
  eo_debug :: "u8 list"
  eo_state :: evm_state

record tx_env =
  te_tx_type :: u8
  te_caller :: Address
  te_gas_limit :: u64
  te_gas_price :: u128
  te_kind :: "Address option"
  te_value :: "256 word"
  te_data :: "u8 list"
  te_nonce :: u64
  te_chain_id :: u64
  te_gas_priority_fee :: "u128 option"
  te_max_fee_per_blob_gas :: u128

section \<open>Preparing a batch\<close>

definition max_synthetic_calldata_bytes :: u32 where
  "max_synthetic_calldata_bytes = 8192"

definition seeded_balance_wei :: u128 where
  "seeded_balance_wei = 1000000000000000000000000000000"

definition sender_start_nonces :: "simulation_tx_input list \<Rightarrow> (Address, u64) btree_map" where
  "sender_start_nonces txs =
     foldl (\<lambda>nonces tx.
        let sender = dec_sender (sti_decoded tx); nonce = dec_nonce (sti_decoded tx)
        in bt_insert sender
             (case bt_get nonces sender of Some n \<Rightarrow> min n nonce | None \<Rightarrow> nonce) nonces)
       bt_empty txs"

definition seed_account ::
  "(Address \<Rightarrow> u128 \<Rightarrow> u64 \<Rightarrow> 'db \<Rightarrow> 'db) \<Rightarrow> 'err simulation_mode \<Rightarrow> 'db \<Rightarrow> Address \<times> u64 \<Rightarrow> 'err + 'db" where
  "seed_account insert_account mode db entry =
     (case entry of (sender, nonce) \<Rightarrow>
        (case (case mode of
                 SyntheticDeterministic \<Rightarrow> Inr None
               | RpcBacked provider \<Rightarrow> provider sender) of
           Inl err \<Rightarrow> Inl err
         | Inr seeded \<Rightarrow>
             let balance = (case seeded of Some a \<Rightarrow> as_balance_wei a | None \<Rightarrow> seeded_balance_wei);
                 account_nonce = (case seeded of Some a \<Rightarrow> as_nonce a | None \<Rightarrow> nonce)
             in Inr (insert_account sender balance account_nonce db)))"

definition seed_sender_accounts ::
  "(Address \<Rightarrow> u128 \<Rightarrow> u64 \<Rightarrow> 'db \<Rightarrow> 'db) \<Rightarrow> 'db \<Rightarrow> simulation_tx_input list \<Rightarrow> 'err simulation_mode
    \<Rightarrow> 'err + 'db" where
  "seed_sender_accounts insert_account db txs mode =
     fold_result (seed_account insert_account mode) db (bt_entries (sender_start_nonces txs))"

definition tx_env_from_input :: "chain_context \<Rightarrow> simulation_tx_input \<Rightarrow> tx_env" where
  "tx_env_from_input ctx input =
     (let tx = sti_decoded input;
          gas_limit = max (case dec_gas_limit tx of Some g \<Rightarrow> g | None \<Rightarrow> 210000) 21000;
          gas_price0 = (case dec_gas_price_wei tx of
              Some p \<Rightarrow> p
            | None \<Rightarrow> (case dec_max_fee_per_gas_wei tx of
                  Some f \<Rightarrow> f | None \<Rightarrow> max (cc_base_fee_wei ctx) 1));
          gas_price = (if gas_price0 < cc_base_fee_wei ctx then cc_base_fee_wei ctx else gas_price0);
          gas_priority_fee = (case dec_max_priority_fee_per_gas_wei tx of
              None \<Rightarrow> None
            | Some v \<Rightarrow> if min v gas_price > 0 then Some (min v gas_price) else None);
          calldata_len = min (case dec_calldata_len tx of Some n \<Rightarrow> n | None \<Rightarrow> 0)
            max_synthetic_calldata_bytes;
          data = (case sti_calldata input of
              Some bytes \<Rightarrow> take (min (length bytes) (unat max_synthetic_calldata_bytes)) bytes
            | None \<Rightarrow> replicate (unat calldata_len) 0)
      in \<lparr>te_tx_type = dec_tx_type tx, te_caller = dec_sender tx, te_gas_limit = gas_limit,
          te_gas_price = gas_price, te_kind = dec_to tx,
          te_value = ucast (case dec_value_wei tx of Some v \<Rightarrow> v | None \<Rightarrow> 0),
          te_data = data, te_nonce = dec_nonce tx,
          te_chain_id = (case dec_chain_id tx of Some c \<Rightarrow> c | None \<Rightarrow> cc_chain_id ctx),
          te_gas_priority_fee = gas_priority_fee,
          te_max_fee_per_blob_gas =
            (case dec_max_fee_per_blob_gas_wei tx of Some f \<Rightarrow> f | None \<Rightarrow> 0)\<rparr>)"

section \<open>Digests and categories\<close>

definition text_bytes :: "string \<Rightarrow> u8 list" where
  "text_bytes s = map (\<lambda>c. of_nat (of_char c)) s"

definition account_preimage :: "Address \<times> evm_account \<Rightarrow> u8 list" where
  "account_preimage entry =
     (case entry of (address, account) \<Rightarrow>
        be_bytes 20 address @ text_bytes (show_word (ea_balance account)) @
        le_bytes 8 (ea_nonce account) @ be_bytes 32 (ea_code_hash account) @
        [ea_status account] @
        concat (map (\<lambda>(slot, present). text_bytes (show_word slot) @ text_bytes (show_word present))
          (sort_by (\<lambda>l r. cmp (fst l) (fst r)) (ea_changed_slots account))))"

definition hash_state_diff :: "(u8 list \<Rightarrow> TxHash) \<Rightarrow> evm_state \<Rightarrow> TxHash" where
  "hash_state_diff sha256 state =
     sha256 (concat (map account_preimage (sort_by (\<lambda>l r. cmp (fst l) (fst r)) state)))"

fun categorize_execution_result :: "execution_kind \<Rightarrow> simulation_fail_category option" where
  "categorize_execution_result ExecSuccess = None"
| "categorize_execution_result ExecRevert = Some Revert"
| "categorize_execution_result (ExecHalt HaltOutOfGas) = Some OutOfGas"
| "categorize_execution_result (ExecHalt HaltOther) = Some UnknownFailure"

fun categorize_simulation_error :: "evm_error \<Rightarrow> simulation_fail_category" where
  "categorize_simulation_error (TransactionError NonceTooHigh) = NonceMismatch"
| "categorize_simulation_error (TransactionError NonceTooLow) = NonceMismatch"
| "categorize_simulation_error (TransactionError CallGasCostMoreThanGasLimit) = OutOfGas"
| "categorize_simulation_error (TransactionError GasFloorMoreThanGasLimit) = OutOfGas"
| "categorize_simulation_error (TransactionError GasPriceLessThanBasefee) = OutOfGas"
| "categorize_simulation_error (TransactionError OtherInvalid) = UnknownFailure"
| "categorize_simulation_error DatabaseError = StateMismatch"
| "categorize_simulation_error HeaderError = UnknownFailure"
| "categorize_simulation_error CustomError = UnknownFailure"

fun fail_category_tag :: "simulation_fail_category \<Rightarrow> u8" where
  "fail_category_tag Revert = 1"
| "fail_category_tag OutOfGas = 2"
| "fail_category_tag NonceMismatch = 3"
| "fail_category_tag StateMismatch = 4"
| "fail_category_tag UnknownFailure = 5"

text \<open>The first eight bytes of a digest, read little-endian.\<close>

definition digest_trace_id :: "TxHash \<Rightarrow> u64" where
  "digest_trace_id digest = be_word (rev (take 8 (be_bytes 32 digest)))"

definition trace_id_from_execution ::
  "(u8 list \<Rightarrow> TxHash) \<Rightarrow> TxHash \<Rightarrow> u8 list \<Rightarrow> TxHash \<Rightarrow> u64" where
  "trace_id_from_execution sha256 hash debug state_diff_hash =
     digest_trace_id (sha256 (be_bytes 32 hash @ debug @ be_bytes 32 state_diff_hash))"

definition trace_id_from_error :: "(u8 list \<Rightarrow> TxHash) \<Rightarrow> TxHash \<Rightarrow> u8 list \<Rightarrow> u64" where
  "trace_id_from_error sha256 hash debug = digest_trace_id (sha256 (be_bytes 32 hash @ debug))"

section \<open>Executing a batch\<close>

text \<open>
  One iteration of the loop over the transactions; the state is the database and the
  bytes fed to the aggregate digest so far.
\<close>

definition simulate_tx ::
  "(u8 list \<Rightarrow> TxHash) \<Rightarrow> ('db \<Rightarrow> tx_env \<Rightarrow> (evm_error \<times> u8 list) + execution_outcome)
    \<Rightarrow> ('db \<Rightarrow> evm_state \<Rightarrow> 'db) \<Rightarrow> chain_context \<Rightarrow> 'db \<times> u8 list \<Rightarrow> simulation_tx_input
    \<Rightarrow> tx_simulation_result \<times> ('db \<times> u8 list)" where
  "simulate_tx sha256 transact commit ctx st tx =
     (case st of (db, aggregate) \<Rightarrow>
        let hash = dec_hash (sti_decoded tx)
        in (case transact db (tx_env_from_input ctx tx) of
              Inr outcome \<Rightarrow>
                let gas_used = eo_gas_used outcome;
                    success = (eo_kind outcome = ExecSuccess);
                    state_diff_hash = hash_state_diff sha256 (eo_state outcome);
                    fail_category = categorize_execution_result (eo_kind outcome);
                    trace_id = trace_id_from_execution sha256 hash (eo_debug outcome) state_diff_hash;
                    fail_tag = (case fail_category of Some c \<Rightarrow> fail_category_tag c | None \<Rightarrow> 0)
                in (\<lparr>tsr_hash = hash, tsr_success = success, tsr_gas_used = gas_used,
                     tsr_state_diff_hash = state_diff_hash, tsr_fail_category = fail_category,
                     tsr_trace_id = trace_id\<rparr>,
                    (commit db (eo_state outcome),
                     aggregate @ be_bytes 32 hash @ le_bytes 8 gas_used @
                       [if success then 1 else 0] @ be_bytes 32 state_diff_hash @
                       le_bytes 8 trace_id @ [fail_tag]))
            | Inl (err, debug) \<Rightarrow>
                let fail_category = categorize_simulation_error err;
                    trace_id = trace_id_from_error sha256 hash debug
                in (\<lparr>tsr_hash = hash, tsr_success = False, tsr_gas_used = 0,
                     tsr_state_diff_hash = 0, tsr_fail_category = Some fail_category,
                     tsr_trace_id = trace_id\<rparr>,
                    (db,
                     aggregate @ be_bytes 32 hash @ le_bytes 8 (0 :: u64) @ [0] @
                       be_bytes 32 (0 :: TxHash) @ le_bytes 8 trace_id @
                       [fail_category_tag fail_category]))))"

definition simulate_with_mode ::
  "(u8 list \<Rightarrow> TxHash) \<Rightarrow> 'db \<Rightarrow> (Address \<Rightarrow> u128 \<Rightarrow> u64 \<Rightarrow> 'db \<Rightarrow> 'db)
    \<Rightarrow> (chain_context \<Rightarrow> 'db \<Rightarrow> tx_env \<Rightarrow> (evm_error \<times> u8 list) + execution_outcome)
    \<Rightarrow> ('db \<Rightarrow> evm_state \<Rightarrow> 'db) \<Rightarrow> chain_context \<Rightarrow> simulation_tx_input list
    \<Rightarrow> 'err simulation_mode \<Rightarrow> 'err + simulation_batch_result" where
  "simulate_with_mode sha256 empty_db insert_account transact commit ctx txs mode =
     (case seed_sender_accounts insert_account empty_db txs mode of
        Inl err \<Rightarrow> Inl err
      | Inr db \<Rightarrow>
          let aggregate = be_bytes 32 (cc_state_root ctx) @ le_bytes 8 (cc_chain_id ctx) @
                le_bytes 8 (cc_block_number ctx) @ le_bytes 8 (cc_block_timestamp ctx);
              (tx_results, (_, aggregate)) =
                map_state (simulate_tx sha256 (transact ctx) commit ctx) (db, aggregate) txs
          in Inr \<lparr>sbr_chain_context = ctx, sbr_tx_results = tx_results,
                  sbr_final_state_diff_hash = sha256 aggregate\<rparr>)"

definition simulate_deterministic ::
  "(u8 list \<Rightarrow> TxHash) \<Rightarrow> 'db \<Rightarrow> (Address \<Rightarrow> u128 \<Rightarrow> u64 \<Rightarrow> 'db \<Rightarrow> 'db)
    \<Rightarrow> (chain_context \<Rightarrow> 'db \<Rightarrow> tx_env \<Rightarrow> (evm_error \<times> u8 list) + execution_outcome)
    \<Rightarrow> ('db \<Rightarrow> evm_state \<Rightarrow> 'db) \<Rightarrow> chain_context \<Rightarrow> tx_decoded list
    \<Rightarrow> 'err + simulation_batch_result" where
  "simulate_deterministic sha256 empty_db insert_account transact commit ctx txs =
     simulate_with_mode sha256 empty_db insert_account transact commit ctx
       (map (\<lambda>decoded. \<lparr>sti_decoded = decoded, sti_calldata = None\<rparr>) txs) SyntheticDeterministic"

section \<open>Properties\<close>

definition nonces_of :: "simulation_tx_input list \<Rightarrow> Address \<Rightarrow> u64 list" where
  "nonces_of txs s = map (\<lambda>tx. dec_nonce (sti_decoded tx))
     (filter (\<lambda>tx. dec_sender (sti_decoded tx) = s) txs)"

lemma nonces_of_snoc:
  "nonces_of (txs @ [tx]) s =
    nonces_of txs s @ (if dec_sender (sti_decoded tx) = s then [dec_nonce (sti_decoded tx)] else [])"
  by (simp add: nonces_of_def)

lemma start_nonces_get:
  "bt_get (sender_start_nonces txs) s =
    (if nonces_of txs s = [] then None else Some (Min (set (nonces_of txs s))))"
proof (induction txs rule: rev_induct)
  case (snoc tx txs)
  let ?s = "dec_sender (sti_decoded tx)" and ?n = "dec_nonce (sti_decoded tx)"
  have step: "sender_start_nonces (txs @ [tx]) =
      bt_insert ?s (case bt_get (sender_start_nonces txs) ?s of Some n \<Rightarrow> min n ?n | None \<Rightarrow> ?n)
        (sender_start_nonces txs)"
    by (simp add: sender_start_nonces_def Let_def)
  show ?case
  proof (cases "s = ?s")
    case True
    then show ?thesis
      using snoc by (cases "nonces_of txs s = []") (simp_all add: step nonces_of_snoc min.commute)
  next
    case False
    then show ?thesis using snoc by (auto simp: step nonces_of_snoc)
  qed
qed (simp add: sender_start_nonces_def nonces_of_def)

text \<open>
  Deterministic mode funds every sender: each sender of the batch, and nobody
  else, is seeded exactly once, in address order, with the fixed balance and with the
  smallest nonce of its transactions.
\<close>

theorem deterministic_seeding:
  fixes txs :: "simulation_tx_input list"
  defines "senders \<equiv> sorted_list_of_set ((\<lambda>tx. dec_sender (sti_decoded tx)) ` set txs)"
  shows "seed_sender_accounts insert_account db txs SyntheticDeterministic =
    Inr (fold (\<lambda>s. insert_account s seeded_balance_wei
      (Min {dec_nonce (sti_decoded tx) |tx. tx \<in> set txs \<and> dec_sender (sti_decoded tx) = s}))
      senders db)"
proof -
  let ?m = "sender_start_nonces txs"
  let ?min = "\<lambda>s. Min {dec_nonce (sti_decoded tx) |tx. tx \<in> set txs \<and> dec_sender (sti_decoded tx) = s}"
  have in_senders: "nonces_of txs s \<noteq> [] \<longleftrightarrow> s \<in> (\<lambda>tx. dec_sender (sti_decoded tx)) ` set txs" for s
    by (auto simp: nonces_of_def filter_empty_conv)
  have "set (nonces_of txs s) =
      {dec_nonce (sti_decoded tx) |tx. tx \<in> set txs \<and> dec_sender (sti_decoded tx) = s}" for s
    by (auto simp: nonces_of_def)
  then have get: "bt_get ?m s = (if nonces_of txs s = [] then None else Some (?min s))" for s
    by (simp add: start_nonces_get)
  have "set (bt_keys ?m) = (\<lambda>tx. dec_sender (sti_decoded tx)) ` set txs"
    by (rule set_eqI) (simp only: bt_keys_set get in_senders [symmetric], simp)
  then have keys: "bt_keys ?m = senders"
    using bt_keys_sorted [of ?m]
    by (metis senders_def sorted_list_of_set.idem_if_sorted_distinct strict_sorted_iff)
  have entries: "bt_entries ?m = map (\<lambda>s. (s, ?min s)) senders"
  proof -
    have "map (\<lambda>s. (s, ?min s)) (bt_keys ?m) = bt_entries ?m"
      unfolding bt_keys_def map_map
      by (rule map_idI) (auto simp: bt.in_entries_iff get split: if_splits)
    then show ?thesis by (simp add: keys)
  qed
  have "fold_result (seed_account insert_account SyntheticDeterministic) d (map (\<lambda>s. (s, f s)) ss) =
    Inr (fold (\<lambda>s. insert_account s seeded_balance_wei (f s)) ss d)" for d f ss
    by (induction ss arbitrary: d) (simp_all add: seed_account_def)
  then show ?thesis by (simp add: seed_sender_accounts_def entries)
qed

text \<open>
  The environment handed to the EVM is within bounds whatever the decoded
  transaction says: intrinsic gas is covered, the gas price is at least the base fee, a
  priority fee is positive and at most the gas price, and the calldata is capped.
\<close>

theorem tx_env_bounds:
  "let env = tx_env_from_input ctx input
   in 21000 \<le> te_gas_limit env \<and> cc_base_fee_wei ctx \<le> te_gas_price env \<and>
      pred_option (\<lambda>fee. 0 < fee \<and> fee \<le> te_gas_price env) (te_gas_priority_fee env) \<and>
      length (te_data env) \<le> 8192"
proof -
  have "unat (min n max_synthetic_calldata_bytes) \<le> 8192" for n
    by (simp add: max_synthetic_calldata_bytes_def min_def word_le_nat_alt)
  then show ?thesis
    by (auto simp: tx_env_from_input_def Let_def max_synthetic_calldata_bytes_def
        split: option.splits)
qed

text \<open>
  A successful simulation reports one result per transaction, in order and
  under its hash; a result without success carries a failure category, one with success
  carries none.
\<close>

theorem simulation_reports_every_tx:
  assumes "simulate_with_mode sha256 db insert_account transact commit ctx txs mode = Inr result"
  shows "map tsr_hash (sbr_tx_results result) = map (\<lambda>tx. dec_hash (sti_decoded tx)) txs \<and>
    list_all (\<lambda>r. tsr_success r = (tsr_fail_category r = None)) (sbr_tx_results result) \<and>
    sbr_chain_context result = ctx"
proof -
  let ?step = "simulate_tx sha256 (transact ctx) commit ctx"
  obtain s where r: "sbr_tx_results result = fst (map_state ?step s txs)"
    and c: "sbr_chain_context result = ctx"
    using assms by (auto simp: simulate_with_mode_def case_prod_unfold Let_def split: sum.splits)
  have categorized: "categorize_execution_result k = None \<longleftrightarrow> k = ExecSuccess" for k
    by (cases k rule: categorize_execution_result.cases) simp_all
  have hash: "tsr_hash (fst (?step s tx)) = dec_hash (sti_decoded tx)"
    and succ: "tsr_success (fst (?step s tx)) = (tsr_fail_category (fst (?step s tx)) = None)" for s tx
    by (auto simp: simulate_tx_def case_prod_unfold Let_def categorized split: sum.splits)
  have "map tsr_hash (fst (map_state ?step s txs)) = map (\<lambda>tx. dec_hash (sti_decoded tx)) txs \<and>
    list_all (\<lambda>r. tsr_success r = (tsr_fail_category r = None)) (fst (map_state ?step s txs))"
    by (induction txs arbitrary: s) (simp_all add: hash succ)
  then show ?thesis using r c by simp
qed


section \<open>A concrete batch\<close>

text \<open>
  An instance of the parameters: a database that is a list of funded accounts, an EVM
  that runs every transfer of a funded sender at the intrinsic gas cost and rejects the
  others, and a digest that counts.
\<close>

definition toy_transact ::
  "chain_context \<Rightarrow> (Address \<times> u64) list \<Rightarrow> tx_env \<Rightarrow> (evm_error \<times> u8 list) + execution_outcome" where
  "toy_transact ctx db env =
     (if (te_caller env, te_nonce env) \<in> set db
      then Inr \<lparr>eo_kind = ExecSuccess, eo_gas_used = 21000, eo_debug = [], eo_state = []\<rparr>
      else Inl (TransactionError NonceTooHigh, []))"

definition sample_context :: chain_context where
  "sample_context = \<lparr>cc_chain_id = 1, cc_block_number = 10, cc_block_timestamp = 0,
     cc_gas_limit = 30000000, cc_base_fee_wei = 7, cc_coinbase = 0, cc_state_root = 0\<rparr>"

definition sample_sim_tx :: "TxHash \<Rightarrow> u64 \<Rightarrow> simulation_tx_input" where
  "sample_sim_tx hash nonce =
     \<lparr>sti_decoded = \<lparr>dec_hash = hash, dec_tx_type = 2, dec_sender = 7, dec_nonce = nonce,
        dec_chain_id = Some 1, dec_to = Some 11, dec_value_wei = Some 1,
        dec_gas_limit = Some 21000, dec_gas_price_wei = Some 9, dec_max_fee_per_gas_wei = None,
        dec_max_priority_fee_per_gas_wei = None, dec_max_fee_per_blob_gas_wei = None,
        dec_calldata_len = Some 0\<rparr>, sti_calldata = None\<rparr>"

definition sample_simulation :: "unit + simulation_batch_result" where
  "sample_simulation = simulate_with_mode (\<lambda>bs. of_nat (length bs)) []
     (\<lambda>s balance nonce db. (s, nonce) # db) toy_transact (\<lambda>db state. db) sample_context
     [sample_sim_tx 1 5, sample_sim_tx 2 6] SyntheticDeterministic"

theorem simulation_reports_every_tx_witness:
  "map tsr_hash (sbr_tx_results (projr sample_simulation)) = [1, 2] \<and>
   map tsr_success (sbr_tx_results (projr sample_simulation)) = [True, False]"
proof -
  have "\<not> isl sample_simulation" by code_simp
  then have "sample_simulation = Inr (projr sample_simulation)"
    by (cases sample_simulation) simp_all
  from simulation_reports_every_tx [OF this [unfolded sample_simulation_def]]
  have "map tsr_hash (sbr_tx_results (projr sample_simulation)) = [1, 2]"
    by (simp add: sample_simulation_def sample_sim_tx_def)
  moreover have "map tsr_success (sbr_tx_results (projr sample_simulation)) = [True, False]"
    by code_simp
  ultimately show ?thesis by blast
qed

end
