(* ===== verification/Builder_Assembly.thy ===== *)
theory Builder_Assembly
  imports Searcher Sim_Engine
begin

text \<open>
  The assembly engine of the crate \<^verbatim>\<open>builder\<close> (\<^verbatim>\<open>assembly.rs\<close>): joining a
  ranked opportunity with its simulation, and the incremental set of non-conflicting
  candidates of a block template. The elapsed time of an operation, SHA-256
  (\<open>sha256\<close>) and \<^verbatim>\<open>hex::encode\<close> (\<open>hex\<close>) are parameters.
\<close>

section \<open>Candidates\<close>

datatype assembly_candidate_kind = TransactionKind | BundleKind

record simulation_approval =
  sa_sim_id :: string
  sa_block_number :: u64
  sa_approved :: bool

record assembly_candidate =
  ac_candidate_id :: string
  ac_tx_hashes :: "TxHash list"
  ac_priority_score :: u32
  ac_gas_used :: u64
  ac_kind :: assembly_candidate_kind
  ac_simulation :: simulation_approval

datatype assembly_candidate_build_error = MissingSimulationResult TxHash

fun debug_strategy :: "strategy_kind \<Rightarrow> string" where
  "debug_strategy SandwichCandidate = ''SandwichCandidate''"
| "debug_strategy BackrunCandidate = ''BackrunCandidate''"
| "debug_strategy ArbCandidate = ''ArbCandidate''"
| "debug_strategy BundleCandidate = ''BundleCandidate''"

definition assembly_kind :: "strategy_kind \<Rightarrow> usize \<Rightarrow> assembly_candidate_kind" where
  "assembly_kind strategy member_count =
     (if strategy = BundleCandidate \<or> member_count > 1 then BundleKind else TransactionKind)"

text \<open>The body of the loop over the member hashes, on (\<open>approved\<close>, \<open>gas_used\<close>).\<close>

definition join_result ::
  "simulation_batch_result \<Rightarrow> bool \<times> u64 \<Rightarrow> TxHash \<Rightarrow> assembly_candidate_build_error + bool \<times> u64" where
  "join_result sim acc tx_hash =
     (case find (\<lambda>r. tsr_hash r = tx_hash) (sbr_tx_results sim) of
        None \<Rightarrow> Inl (MissingSimulationResult tx_hash)
      | Some r \<Rightarrow> Inr (fst acc \<and> tsr_success r, sat_add (snd acc) (tsr_gas_used r)))"

definition from_simulated_opportunity ::
  "(u8 list \<Rightarrow> string) \<Rightarrow> opportunity_candidate \<Rightarrow> simulation_batch_result
    \<Rightarrow> assembly_candidate_build_error + assembly_candidate" where
  "from_simulated_opportunity hex opportunity sim =
     (let tx_hashes =
            (if oc_member_tx_hashes opportunity = [] then [oc_tx_hash opportunity]
             else oc_member_tx_hashes opportunity)
      in case fold_result (join_result sim) (True, 0) tx_hashes of
           Inl e \<Rightarrow> Inl e
         | Inr (approved, gas_used) \<Rightarrow> Inr
             \<lparr>ac_candidate_id =
                debug_strategy (oc_strategy opportunity) @ '':0x'' @
                hex (hash_bytes (oc_tx_hash opportunity)),
              ac_tx_hashes = tx_hashes,
              ac_priority_score = oc_score opportunity,
              ac_gas_used = gas_used,
              ac_kind = assembly_kind (oc_strategy opportunity)
                (length (oc_member_tx_hashes opportunity)),
              ac_simulation =
                \<lparr>sa_sim_id = ''0x'' @ hex (hash_bytes (sbr_final_state_diff_hash sim)),
                 sa_block_number = cc_block_number (sbr_chain_context sim),
                 sa_approved = approved\<rparr>\<rparr>)"

section \<open>The engine\<close>

record assembly_config =
  cfg_block_gas_limit :: u64

definition default_assembly_config :: assembly_config where
  "default_assembly_config = \<lparr>cfg_block_gas_limit = 30000000\<rparr>"

record assembly_objective =
  ob_total_priority_score :: u64
  ob_total_gas_used :: u64
  ob_total_candidates :: usize

record assembly_snapshot =
  asn_candidates :: "assembly_candidate list"
  asn_objective :: assembly_objective

record assembly_metrics =
  am_inserted_total :: u64
  am_replaced_total :: u64
  am_rejected_total :: u64
  am_rejected_simulation_not_approved_total :: u64
  am_rejected_objective_not_improved_total :: u64
  am_rejected_gas_limit_total :: u64
  am_rollback_total :: u64
  am_active_candidate_total :: usize
  am_total_priority_score :: u64
  am_total_gas_used :: u64
  am_last_decision_latency_ns :: u64
  am_max_decision_latency_ns :: u64
  am_total_decision_latency_ns :: u64

definition default_assembly_metrics :: assembly_metrics where
  "default_assembly_metrics =
     \<lparr>am_inserted_total = 0, am_replaced_total = 0, am_rejected_total = 0,
      am_rejected_simulation_not_approved_total = 0,
      am_rejected_objective_not_improved_total = 0, am_rejected_gas_limit_total = 0,
      am_rollback_total = 0, am_active_candidate_total = 0, am_total_priority_score = 0,
      am_total_gas_used = 0, am_last_decision_latency_ns = 0,
      am_max_decision_latency_ns = 0, am_total_decision_latency_ns = 0\<rparr>"

datatype assembly_decision =
    Inserted string "string list"
  | Rejected string string

datatype assembly_rollback_decision = RolledBack string | RollbackNotFound string

datatype rejection_reason = SimulationNotApproved | ObjectiveNotImproved | BlockGasLimitExceeded

fun reason_str :: "rejection_reason \<Rightarrow> string" where
  "reason_str SimulationNotApproved = ''simulation_not_approved''"
| "reason_str ObjectiveNotImproved = ''objective_not_improved''"
| "reason_str BlockGasLimitExceeded = ''block_gas_limit_exceeded''"

record assembly_engine =
  ae_config :: assembly_config
  ae_candidates :: "assembly_candidate list"
  ae_metrics :: assembly_metrics

definition new_assembly_engine :: "assembly_config \<Rightarrow> assembly_engine" where
  "new_assembly_engine config =
     \<lparr>ae_config = config, ae_candidates = [], ae_metrics = default_assembly_metrics\<rparr>"

definition candidates_conflict :: "assembly_candidate \<Rightarrow> assembly_candidate \<Rightarrow> bool" where
  "candidates_conflict left right \<longleftrightarrow>
     list_ex (\<lambda>h. List.member (ac_tx_hashes right) h) (ac_tx_hashes left)"

definition compute_objective :: "assembly_engine \<Rightarrow> assembly_objective" where
  "compute_objective engine =
     foldl (\<lambda>ob c.
        \<lparr>ob_total_priority_score = sat_add (ob_total_priority_score ob) (ucast (ac_priority_score c)),
         ob_total_gas_used = sat_add (ob_total_gas_used ob) (ac_gas_used c),
         ob_total_candidates = ob_total_candidates ob + 1\<rparr>)
       \<lparr>ob_total_priority_score = 0, ob_total_gas_used = 0, ob_total_candidates = 0\<rparr>
       (ae_candidates engine)"

definition refresh_live_metrics :: "assembly_engine \<Rightarrow> assembly_engine" where
  "refresh_live_metrics engine =
     (let objective = compute_objective engine
      in engine\<lparr>ae_metrics := (ae_metrics engine)
           \<lparr>am_active_candidate_total := length (ae_candidates engine),
            am_total_priority_score := ob_total_priority_score objective,
            am_total_gas_used := ob_total_gas_used objective\<rparr>\<rparr>)"

definition live_objective :: "assembly_engine \<Rightarrow> assembly_objective" where
  "live_objective engine =
     \<lparr>ob_total_priority_score = am_total_priority_score (ae_metrics engine),
      ob_total_gas_used = am_total_gas_used (ae_metrics engine),
      ob_total_candidates = am_active_candidate_total (ae_metrics engine)\<rparr>"

definition assembly_snapshot_of :: "assembly_engine \<Rightarrow> assembly_snapshot" where
  "assembly_snapshot_of engine =
     \<lparr>asn_candidates = ae_candidates engine, asn_objective = live_objective engine\<rparr>"

definition record_decision_latency :: "u128 \<Rightarrow> assembly_engine \<Rightarrow> assembly_engine" where
  "record_decision_latency elapsed_ns engine =
     (let latency_ns = (ucast (max 1 (min (ucast (- 1 :: u64)) elapsed_ns)) :: u64);
          m = ae_metrics engine
      in engine\<lparr>ae_metrics := m
           \<lparr>am_last_decision_latency_ns := latency_ns,
            am_max_decision_latency_ns := max (am_max_decision_latency_ns m) latency_ns,
            am_total_decision_latency_ns := sat_add (am_total_decision_latency_ns m) latency_ns\<rparr>\<rparr>)"

definition bump_reason :: "rejection_reason \<Rightarrow> assembly_metrics \<Rightarrow> assembly_metrics" where
  "bump_reason reason m =
     (case reason of
        SimulationNotApproved \<Rightarrow> m\<lparr>am_rejected_simulation_not_approved_total :=
          sat_add (am_rejected_simulation_not_approved_total m) 1\<rparr>
      | ObjectiveNotImproved \<Rightarrow> m\<lparr>am_rejected_objective_not_improved_total :=
          sat_add (am_rejected_objective_not_improved_total m) 1\<rparr>
      | BlockGasLimitExceeded \<Rightarrow> m\<lparr>am_rejected_gas_limit_total :=
          sat_add (am_rejected_gas_limit_total m) 1\<rparr>)"

definition reject ::
  "assembly_engine \<Rightarrow> string \<Rightarrow> rejection_reason \<Rightarrow> assembly_decision \<times> assembly_engine" where
  "reject engine candidate_id reason =
     (let m = ae_metrics engine
      in (Rejected candidate_id (reason_str reason),
          engine\<lparr>ae_metrics :=
            bump_reason reason (m\<lparr>am_rejected_total := sat_add (am_rejected_total m) 1\<rparr>)\<rparr>))"

text \<open>\<^verbatim>\<open>Vec::remove\<close> at an index in range.\<close>

definition remove_at :: "nat \<Rightarrow> 'a list \<Rightarrow> 'a list" where
  "remove_at i xs = take i xs @ drop (Suc i) xs"

definition conflicts_of ::
  "assembly_engine \<Rightarrow> assembly_candidate \<Rightarrow> (nat \<times> string \<times> u32 \<times> u64) list" where
  "conflicts_of engine cand =
     map (\<lambda>(index, existing).
        (index, ac_candidate_id existing, ac_priority_score existing, ac_gas_used existing))
       (filter (\<lambda>(_, existing). candidates_conflict existing cand)
         (enumerate 0 (ae_candidates engine)))"

definition insert_inner ::
  "assembly_engine \<Rightarrow> assembly_candidate \<Rightarrow> assembly_decision \<times> assembly_engine" where
  "insert_inner engine cand =
     (if \<not> sa_approved (ac_simulation cand)
      then reject engine (ac_candidate_id cand) SimulationNotApproved
      else
        let conflicts = conflicts_of engine cand;
            replaced_candidate_ids = map (\<lambda>(_, candidate_id, _, _). candidate_id) conflicts;
            conflicted_priority_score =
              foldl (\<lambda>acc (_, _, score, _). sat_add acc (ucast score :: u64)) 0 conflicts;
            conflicted_gas_used = foldl (\<lambda>acc (_, _, _, gas_used). sat_add acc gas_used) 0 conflicts
        in if replaced_candidate_ids \<noteq> [] \<and>
              ucast (ac_priority_score cand) \<le> conflicted_priority_score
           then reject engine (ac_candidate_id cand) ObjectiveNotImproved
           else
             let next_gas_used =
                   sat_add (sat_sub (ob_total_gas_used (live_objective engine)) conflicted_gas_used)
                     (ac_gas_used cand)
             in if next_gas_used > cfg_block_gas_limit (ae_config engine)
                then reject engine (ac_candidate_id cand) BlockGasLimitExceeded
                else
                  let remaining =
                        foldl (\<lambda>cs (index, _). remove_at index cs) (ae_candidates engine) (rev conflicts);
                      m = ae_metrics engine;
                      engine' = engine\<lparr>ae_candidates := remaining @ [cand],
                        ae_metrics := m
                          \<lparr>am_inserted_total := sat_add (am_inserted_total m) 1,
                           am_replaced_total := sat_add (am_replaced_total m)
                             (of_nat (length replaced_candidate_ids))\<rparr>\<rparr>
                  in (Inserted (ac_candidate_id cand) replaced_candidate_ids,
                      refresh_live_metrics engine'))"

definition insert_candidate ::
  "u128 \<Rightarrow> assembly_engine \<Rightarrow> assembly_candidate \<Rightarrow> assembly_decision \<times> assembly_engine" where
  "insert_candidate elapsed_ns engine cand =
     (let (decision, engine') = insert_inner engine cand
      in (decision, record_decision_latency elapsed_ns engine'))"

text \<open>\<^verbatim>\<open>Iterator::position\<close>\<close>

fun position :: "('a \<Rightarrow> bool) \<Rightarrow> 'a list \<Rightarrow> nat option" where
  "position p [] = None"
| "position p (x # xs) = (if p x then Some 0 else map_option Suc (position p xs))"

definition remove_candidate_inner ::
  "assembly_engine \<Rightarrow> string \<Rightarrow> assembly_rollback_decision \<times> assembly_engine" where
  "remove_candidate_inner engine candidate_id =
     (case position (\<lambda>c. ac_candidate_id c = candidate_id) (ae_candidates engine) of
        None \<Rightarrow> (RollbackNotFound candidate_id, engine)
      | Some index \<Rightarrow>
          let m = ae_metrics engine
          in (RolledBack candidate_id,
              refresh_live_metrics (engine\<lparr>ae_candidates := remove_at index (ae_candidates engine),
                ae_metrics := m\<lparr>am_rollback_total := sat_add (am_rollback_total m) 1\<rparr>\<rparr>)))"

definition remove_candidate ::
  "u128 \<Rightarrow> assembly_engine \<Rightarrow> string \<Rightarrow> assembly_rollback_decision \<times> assembly_engine" where
  "remove_candidate elapsed_ns engine candidate_id =
     (let (decision, engine') = remove_candidate_inner engine candidate_id
      in (decision, record_decision_latency elapsed_ns engine'))"

section \<open>The relay template\<close>

record relay_build_context =
  rb_slot :: u64
  rb_parent_hash :: string
  rb_builder_pubkey :: string

record block_template =
  bk_slot :: u64
  bk_parent_hash :: string
  bk_block_hash :: string
  bk_builder_pubkey :: string
  bk_tx_count :: u32
  bk_gas_used :: u64

definition block_hash_preimage :: "relay_build_context \<Rightarrow> assembly_candidate list \<Rightarrow> u8 list" where
  "block_hash_preimage ctx candidates =
     le_bytes 8 (rb_slot ctx) @ text_bytes (rb_parent_hash ctx) @ text_bytes (rb_builder_pubkey ctx) @
     concat (map (\<lambda>c. text_bytes (ac_candidate_id c) @ le_bytes 4 (ac_priority_score c) @
       le_bytes 8 (ac_gas_used c) @ concat (map hash_bytes (ac_tx_hashes c))) candidates)"

definition compute_block_hash ::
  "(u8 list \<Rightarrow> u8 list) \<Rightarrow> (u8 list \<Rightarrow> string) \<Rightarrow> relay_build_context \<Rightarrow> assembly_candidate list \<Rightarrow> string" where
  "compute_block_hash sha256 hex ctx candidates =
     ''0x'' @ hex (sha256 (block_hash_preimage ctx candidates))"

definition build_relay_template ::
  "(u8 list \<Rightarrow> u8 list) \<Rightarrow> (u8 list \<Rightarrow> string) \<Rightarrow> assembly_engine \<Rightarrow> relay_build_context \<Rightarrow> block_template option" where
  "build_relay_template sha256 hex engine ctx =
     (if ae_candidates engine = [] then None
      else
        let tx_count = foldl (\<lambda>acc c. sat_add acc (of_nat (length (ac_tx_hashes c)))) (0 :: u32)
              (ae_candidates engine)
        in Some \<lparr>bk_slot = rb_slot ctx, bk_parent_hash = rb_parent_hash ctx,
             bk_block_hash = compute_block_hash sha256 hex ctx (ae_candidates engine),
             bk_builder_pubkey = rb_builder_pubkey ctx, bk_tx_count = tx_count,
             bk_gas_used = ob_total_gas_used (live_objective engine)\<rparr>)"

section \<open>Objective sums\<close>

text \<open>The sums the engine keeps saturated, over the naturals.\<close>

definition total_gas :: "assembly_candidate list \<Rightarrow> nat" where
  "total_gas cs = sum_list (map (unat \<circ> ac_gas_used) cs)"

definition summed_score :: "assembly_candidate list \<Rightarrow> nat" where
  "summed_score cs = sum_list (map (unat \<circ> ac_priority_score) cs)"

lemma total_gas_simps [simp]:
  "total_gas [] = 0"
  "total_gas (c # cs) = unat (ac_gas_used c) + total_gas cs"
  "total_gas (cs @ ds) = total_gas cs + total_gas ds"
  by (simp_all add: total_gas_def)

lemma summed_score_simps [simp]:
  "summed_score [] = 0"
  "summed_score (c # cs) = unat (ac_priority_score c) + summed_score cs"
  "summed_score (cs @ ds) = summed_score cs + summed_score ds"
  by (simp_all add: summed_score_def)

lemma total_gas_split: "total_gas (filter P cs) + total_gas (filter (\<lambda>c. \<not> P c) cs) = total_gas cs"
  by (induction cs) simp_all

lemma summed_score_split:
  "summed_score (filter P cs) + summed_score (filter (\<lambda>c. \<not> P c) cs) = summed_score cs"
  by (induction cs) simp_all

lemma unat_foldl_sat_add:
  "unat (foldl (\<lambda>acc x. sat_add acc (f x)) a xs) =
    min (2 ^ LENGTH('w) - 1) (unat a + sum_list (map (\<lambda>x. unat (f x)) xs))"
  for a :: "'w::len word"
proof (induction xs arbitrary: a)
  case Nil
  then show ?case using unat_le_max [of a] by simp
next
  case (Cons x xs)
  show ?case by (simp add: Cons.IH unat_sat_add)
qed

lemma unat_score [simp]: "unat (ucast s :: u64) = unat s" for s :: u32
  using unat_le_max [of s] by (simp add: unsigned_ucast_eq take_bit_nat_eq_self)

lemma objective_fold:
  "foldl (\<lambda>ob c.
      \<lparr>ob_total_priority_score = sat_add (ob_total_priority_score ob) (ucast (ac_priority_score c)),
       ob_total_gas_used = sat_add (ob_total_gas_used ob) (ac_gas_used c),
       ob_total_candidates = ob_total_candidates ob + 1\<rparr>) ob cs =
    \<lparr>ob_total_priority_score =
       foldl (\<lambda>acc c. sat_add acc (ucast (ac_priority_score c))) (ob_total_priority_score ob) cs,
     ob_total_gas_used = foldl (\<lambda>acc c. sat_add acc (ac_gas_used c)) (ob_total_gas_used ob) cs,
     ob_total_candidates = ob_total_candidates ob + length cs\<rparr>"
  by (induction cs arbitrary: ob) simp_all

lemma compute_objective_sums:
  "unat (ob_total_gas_used (compute_objective e)) = min (2 ^ 64 - 1) (total_gas (ae_candidates e))"
  "unat (ob_total_priority_score (compute_objective e)) =
    min (2 ^ 64 - 1) (summed_score (ae_candidates e))"
  "ob_total_candidates (compute_objective e) = length (ae_candidates e)"
  unfolding compute_objective_def objective_fold
  by (simp_all add: unat_foldl_sat_add total_gas_def summed_score_def comp_def)

lemma compute_objective_words:
  "compute_objective e =
    \<lparr>ob_total_priority_score = of_nat (min (2 ^ 64 - 1) (summed_score (ae_candidates e))),
     ob_total_gas_used = of_nat (min (2 ^ 64 - 1) (total_gas (ae_candidates e))),
     ob_total_candidates = length (ae_candidates e)\<rparr>"
  by (rule assembly_objective.equality)
    (simp_all only: assembly_objective.simps compute_objective_sums(3) unit.exhaust
      flip: compute_objective_sums(1,2) word_unat_eq_iff, simp_all)

section \<open>Conflicts\<close>

abbreviation clash :: "assembly_candidate \<Rightarrow> assembly_candidate \<Rightarrow> bool" where
  "clash cand \<equiv> \<lambda>existing. candidates_conflict existing cand"

lemma candidates_conflict_iff:
  "candidates_conflict a b \<longleftrightarrow> set (ac_tx_hashes a) \<inter> set (ac_tx_hashes b) \<noteq> {}"
  by (auto simp: candidates_conflict_def list_ex_iff)

text \<open>Removing the conflicting indices from the last to the first drops exactly them.\<close>

lemma remove_marked:
  "foldl (\<lambda>cs p. remove_at (fst p) cs) (ys @ xs)
     (rev (filter (\<lambda>p. P (snd p)) (enumerate (length ys) xs))) = ys @ filter (\<lambda>x. \<not> P x) xs"
proof (induction xs arbitrary: ys)
  case (Cons x xs)
  have "foldl (\<lambda>cs p. remove_at (fst p) cs) ((ys @ [x]) @ xs)
      (rev (filter (\<lambda>p. P (snd p)) (enumerate (length (ys @ [x])) xs))) =
    (ys @ [x]) @ filter (\<lambda>x. \<not> P x) xs"
    by (rule Cons.IH)
  then show ?case by (simp add: remove_at_def)
qed simp

lemma conflicts_pairs:
  "conflicts_of e cand =
    map (\<lambda>p. (fst p, ac_candidate_id (snd p), ac_priority_score (snd p), ac_gas_used (snd p)))
      (filter (\<lambda>p. clash cand (snd p)) (enumerate 0 (ae_candidates e)))"
  by (simp add: conflicts_of_def case_prod_unfold)

lemma marked_elements:
  "map (\<lambda>p. f (snd p)) (filter (\<lambda>p. P (snd p)) (enumerate n xs)) = map f (filter P xs)"
  by (induction xs arbitrary: n) simp_all

lemma conflicts_remaining:
  "foldl (\<lambda>cs (index, _). remove_at index cs) (ae_candidates e) (rev (conflicts_of e cand)) =
    filter (\<lambda>c. \<not> clash cand c) (ae_candidates e)"
  using remove_marked [of "[]" "ae_candidates e" "clash cand"]
  by (simp add: conflicts_pairs rev_map foldl_map case_prod_unfold)

lemma conflicts_ids:
  "map (\<lambda>(_, candidate_id, _, _). candidate_id) (conflicts_of e cand) =
    map ac_candidate_id (filter (clash cand) (ae_candidates e))"
  by (simp add: conflicts_pairs case_prod_unfold comp_def marked_elements [where P = "clash cand"])

lemma conflicts_empty: "conflicts_of e cand = [] \<longleftrightarrow> filter (clash cand) (ae_candidates e) = []"
  using conflicts_ids [of e cand] by (metis map_is_Nil_conv)

lemma conflicts_sums:
  "unat (foldl (\<lambda>acc (_, _, score, _). sat_add acc (ucast score :: u64)) 0 (conflicts_of e cand)) =
    min (2 ^ 64 - 1) (summed_score (filter (clash cand) (ae_candidates e)))"
  "unat (foldl (\<lambda>acc (_, _, _, gas_used). sat_add acc gas_used) 0 (conflicts_of e cand)) =
    min (2 ^ 64 - 1) (total_gas (filter (clash cand) (ae_candidates e)))"
  by (simp_all add: conflicts_pairs foldl_map case_prod_unfold unat_foldl_sat_add comp_def
      marked_elements [of "\<lambda>c. unat (ac_priority_score c)" "clash cand"]
      marked_elements [of "\<lambda>c. unat (ac_gas_used c)" "clash cand"] summed_score_def total_gas_def)

section \<open>Runs of the engine\<close>

datatype assembly_op = InsertOp u128 assembly_candidate | RemoveOp u128 string

definition engine_step :: "assembly_engine \<Rightarrow> assembly_op \<Rightarrow> assembly_engine" where
  "engine_step engine operation =
     (case operation of
        InsertOp elapsed cand \<Rightarrow> snd (insert_candidate elapsed engine cand)
      | RemoveOp elapsed candidate_id \<Rightarrow> snd (remove_candidate elapsed engine candidate_id))"

text \<open>
  The invariant: approved candidates without a common transaction, live metrics that are
  those of the candidate set, and a gas sum within the limit; with the largest limit the
  saturated sum cannot exceed it and the limit is void.
\<close>

definition engine_ok :: "assembly_engine \<Rightarrow> bool" where
  "engine_ok e \<longleftrightarrow>
     (\<forall>c \<in> set (ae_candidates e). sa_approved (ac_simulation c)) \<and>
     sorted_wrt (\<lambda>a b. \<not> candidates_conflict a b) (ae_candidates e) \<and>
     live_objective e = compute_objective e \<and>
     (cfg_block_gas_limit (ae_config e) = - 1 \<or>
      total_gas (ae_candidates e) \<le> unat (cfg_block_gas_limit (ae_config e)))"

lemma refresh_live [simp]:
  "ae_candidates (refresh_live_metrics e) = ae_candidates e"
  "ae_config (refresh_live_metrics e) = ae_config e"
  "compute_objective (refresh_live_metrics e) = compute_objective e"
  "live_objective (refresh_live_metrics e) = compute_objective e"
proof -
  show frame: "ae_candidates (refresh_live_metrics e) = ae_candidates e"
    "ae_config (refresh_live_metrics e) = ae_config e"
    by (simp_all add: refresh_live_metrics_def Let_def)
  show "compute_objective (refresh_live_metrics e) = compute_objective e"
    by (simp add: compute_objective_def frame)
  show "live_objective (refresh_live_metrics e) = compute_objective e"
    by (simp add: live_objective_def refresh_live_metrics_def Let_def
        flip: compute_objective_sums(3))
qed

lemma latency_frame [simp]:
  "ae_candidates (record_decision_latency t e) = ae_candidates e"
  "ae_config (record_decision_latency t e) = ae_config e"
  "compute_objective (record_decision_latency t e) = compute_objective e"
  "live_objective (record_decision_latency t e) = live_objective e"
  by (simp_all add: record_decision_latency_def live_objective_def compute_objective_def Let_def)

lemma reject_frame [simp]:
  "fst (reject e i r) = Rejected i (reason_str r)"
  "ae_candidates (snd (reject e i r)) = ae_candidates e"
  "ae_config (snd (reject e i r)) = ae_config e"
  "compute_objective (snd (reject e i r)) = compute_objective e"
  "live_objective (snd (reject e i r)) = live_objective e"
  by (simp_all add: reject_def bump_reason_def live_objective_def compute_objective_def Let_def
      split: rejection_reason.splits)

text \<open>
  The decision in unbounded arithmetic. It is the decision of the code on a state of the
  invariant unless the limit is the largest number.
\<close>

fun select_candidate ::
  "nat \<Rightarrow> assembly_candidate list \<Rightarrow> assembly_candidate \<Rightarrow> rejection_reason + assembly_candidate list" where
  "select_candidate limit cs cand =
     (let old = filter (clash cand) cs; kept = filter (\<lambda>c. \<not> clash cand c) cs
      in if \<not> sa_approved (ac_simulation cand) then Inl SimulationNotApproved
         else if old \<noteq> [] \<and> unat (ac_priority_score cand) \<le> summed_score old
         then Inl ObjectiveNotImproved
         else if limit < total_gas kept + unat (ac_gas_used cand) then Inl BlockGasLimitExceeded
         else Inr (kept @ [cand]))"

text \<open>The branches of an insertion, without the sums' saturation.\<close>

lemma score_not_improved:
  "ucast (ac_priority_score cand) \<le>
     foldl (\<lambda>acc (_, _, score, _). sat_add acc (ucast score :: u64)) 0 (conflicts_of e cand) \<longleftrightarrow>
   unat (ac_priority_score cand) \<le> summed_score (filter (clash cand) (ae_candidates e))"
  using unat_le_max [of "ac_priority_score cand"] by (simp add: word_le_nat_alt conflicts_sums)

lemma next_gas:
  assumes "live_objective e = compute_objective e"
    and "total_gas (ae_candidates e) < 2 ^ 64 - 1"
  shows "unat (sat_add (sat_sub (ob_total_gas_used (live_objective e))
      (foldl (\<lambda>acc (_, _, _, gas_used). sat_add acc gas_used) 0 (conflicts_of e cand)))
        (ac_gas_used cand)) =
    min (2 ^ 64 - 1)
      (total_gas (filter (\<lambda>c. \<not> clash cand c) (ae_candidates e)) + unat (ac_gas_used cand))"
  using assms total_gas_split [of "clash cand" "ae_candidates e"]
  by (simp add: unat_sat_add unat_sat_sub conflicts_sums compute_objective_sums)

lemma insert_inner_branches:
  obtains (rejected) r where "insert_inner e cand = reject e (ac_candidate_id cand) r"
  | (inserted) e' where
      "insert_inner e cand = (Inserted (ac_candidate_id cand)
        (map ac_candidate_id (filter (clash cand) (ae_candidates e))), e')"
      "sa_approved (ac_simulation cand)"
      "filter (clash cand) (ae_candidates e) = [] \<or>
        summed_score (filter (clash cand) (ae_candidates e)) < unat (ac_priority_score cand)"
      "sat_add (sat_sub (ob_total_gas_used (live_objective e))
         (foldl (\<lambda>acc (_, _, _, gas_used). sat_add acc gas_used) 0 (conflicts_of e cand)))
           (ac_gas_used cand) \<le> cfg_block_gas_limit (ae_config e)"
      "ae_candidates e' = filter (\<lambda>c. \<not> clash cand c) (ae_candidates e) @ [cand]"
      "ae_config e' = ae_config e" "live_objective e' = compute_objective e'"
proof (cases "\<exists>r. insert_inner e cand = reject e (ac_candidate_id cand) r")
  case True
  then show ?thesis using rejected by blast
next
  case False
  then show ?thesis
    by (intro inserted [of "snd (insert_inner e cand)"])
      (auto simp: insert_inner_def Let_def conflicts_ids conflicts_remaining conflicts_empty
        score_not_improved
        not_le not_less split: if_splits)
qed

lemma engine_ok_insert:
  assumes "engine_ok e"
  shows "engine_ok (snd (insert_inner e cand))"
proof (cases rule: insert_inner_branches [of e cand])
  case (rejected r)
  then show ?thesis using assms by (simp add: engine_ok_def)
next
  case (inserted e')
  let ?limit = "cfg_block_gas_limit (ae_config e)"
  have gas: "total_gas (ae_candidates e') \<le> unat ?limit" if lim: "?limit \<noteq> - 1"
  proof -
    have "unat ?limit < 2 ^ 64 - 1"
      using lim unat_le_max [of ?limit] unat_minus_one_max [where 'a = 64]
      by (simp add: word_unat_eq_iff)
    moreover have "total_gas (ae_candidates e) \<le> unat ?limit"
      using assms lim by (simp add: engine_ok_def)
    moreover have "live_objective e = compute_objective e"
      using assms by (simp add: engine_ok_def)
    ultimately show ?thesis
      using inserted(4,5) next_gas [of e cand] by (simp add: word_le_nat_alt)
  qed
  have "sorted_wrt (\<lambda>a b. \<not> candidates_conflict a b) (ae_candidates e')"
    using assms inserted(5) by (auto simp: engine_ok_def sorted_wrt_append sorted_wrt_filter)
  then show ?thesis
    using assms inserted gas by (auto simp: engine_ok_def)
qed

lemma position_Some: "position p xs = Some i \<Longrightarrow> remove_at i xs = remove1 (xs ! i) xs \<and> i < length xs \<and> p (xs ! i)"
proof (induction xs arbitrary: i)
  case (Cons x xs)
  show ?case
  proof (cases "p x")
    case True
    then show ?thesis using Cons.prems by (simp add: remove_at_def)
  next
    case False
    then obtain j where j: "i = Suc j" "position p xs = Some j"
      using Cons.prems by auto
    then have "x \<noteq> xs ! j" using Cons.IH False by auto
    then show ?thesis using Cons.IH [OF j(2)] j(1) by (auto simp: remove_at_def)
  qed
qed simp

lemma position_None: "position p xs = None \<longleftrightarrow> (\<forall>x \<in> set xs. \<not> p x)"
  by (induction xs) auto

lemma total_gas_remove1_le: "total_gas (remove1 c cs) \<le> total_gas cs"
  by (induction cs) auto

lemma sorted_wrt_remove1: "sorted_wrt P cs \<Longrightarrow> sorted_wrt P (remove1 c cs)"
  by (induction cs) (auto dest: in_set_remove1 [THEN iffD1, rotated] notin_set_remove1)

lemma engine_ok_remove:
  assumes "engine_ok e"
  shows "engine_ok (snd (remove_candidate_inner e candidate_id))"
proof (cases "position (\<lambda>c. ac_candidate_id c = candidate_id) (ae_candidates e)")
  case None
  then show ?thesis using assms by (simp add: remove_candidate_inner_def)
next
  case (Some i)
  let ?c = "ae_candidates e ! i"
  have "set (remove1 ?c (ae_candidates e)) \<subseteq> set (ae_candidates e)"
    by (rule set_remove1_subset)
  then show ?thesis
    using assms Some position_Some [OF Some] total_gas_remove1_le [of ?c "ae_candidates e"]
    by (auto simp: remove_candidate_inner_def engine_ok_def Let_def sorted_wrt_remove1)
qed

lemma engine_ok_latency: "engine_ok (record_decision_latency t e) \<longleftrightarrow> engine_ok e"
  by (simp add: engine_ok_def)

lemma engine_ok_step: "engine_ok e \<Longrightarrow> engine_ok (engine_step e operation)"
  using engine_ok_insert engine_ok_remove
  by (simp add: engine_step_def insert_candidate_def remove_candidate_def case_prod_unfold
      engine_ok_latency Let_def split: assembly_op.split)

lemma engine_ok_new: "engine_ok (new_assembly_engine config)"
  by (simp add: engine_ok_def new_assembly_engine_def live_objective_def compute_objective_def
      default_assembly_metrics_def)

interpretation assembly: started_system engine_step engine_ok "new_assembly_engine config"
  for config
  by unfold_locales (rule engine_ok_step engine_ok_new; assumption?)+

lemma step_config [simp]: "ae_config (engine_step e operation) = ae_config e"
proof -
  have "ae_config (snd (insert_inner e cand)) = ae_config e" for cand
    by (cases rule: insert_inner_branches [of e cand]) simp_all
  moreover have "ae_config (snd (remove_candidate_inner e i)) = ae_config e" for i
    by (simp add: remove_candidate_inner_def Let_def split: option.split)
  ultimately show ?thesis
    by (simp add: engine_step_def insert_candidate_def remove_candidate_def case_prod_unfold
        Let_def split: assembly_op.split)
qed

lemma run_config [simp]: "ae_config (foldl engine_step e ops) = ae_config e"
  by (induction ops arbitrary: e) simp_all

lemma insert_inner_selects:
  assumes ok: "engine_ok e" and lim: "cfg_block_gas_limit (ae_config e) \<noteq> - 1"
  shows "case select_candidate (unat (cfg_block_gas_limit (ae_config e))) (ae_candidates e) cand of
      Inl reason \<Rightarrow> insert_inner e cand = reject e (ac_candidate_id cand) reason
    | Inr cs \<Rightarrow>
        fst (insert_inner e cand) = Inserted (ac_candidate_id cand)
          (map ac_candidate_id (filter (clash cand) (ae_candidates e))) \<and>
        ae_candidates (snd (insert_inner e cand)) = cs"
proof -
  have "unat (cfg_block_gas_limit (ae_config e)) < 2 ^ 64 - 1"
    using lim unat_le_max [of "cfg_block_gas_limit (ae_config e)"]
      unat_minus_one_max [where 'a = 64]
    by (simp add: word_unat_eq_iff)
  then have gas: "cfg_block_gas_limit (ae_config e) <
      sat_add (sat_sub (ob_total_gas_used (live_objective e))
        (foldl (\<lambda>acc (_, _, _, gas_used). sat_add acc gas_used) 0 (conflicts_of e cand)))
          (ac_gas_used cand) \<longleftrightarrow>
      unat (cfg_block_gas_limit (ae_config e)) <
        total_gas (filter (\<lambda>c. \<not> clash cand c) (ae_candidates e)) + unat (ac_gas_used cand)"
    using ok lim next_gas [of e cand] by (auto simp: word_less_nat_alt engine_ok_def)
  show ?thesis
    unfolding select_candidate.simps insert_inner_def Let_def gas score_not_improved
      conflicts_ids conflicts_remaining
    by simp
qed

section \<open>Properties\<close>

text \<open>
  Property C22. After any sequence of insertions and removals the engine holds approved
  candidates only, no two of which contain the same transaction; its snapshot reports the
  saturated score and gas sums and the size of exactly this set; and the gas sum, taken
  without saturation, is within the block gas limit, unless the configured limit is the
  largest 64-bit number.
\<close>

theorem assembly_engine_invariant:
  "let e = foldl engine_step (new_assembly_engine config) ops; cs = ae_candidates e
   in list_all (\<lambda>c. sa_approved (ac_simulation c)) cs \<and>
      sorted_wrt (\<lambda>a b. set (ac_tx_hashes a) \<inter> set (ac_tx_hashes b) = {}) cs \<and>
      assembly_snapshot_of e =
        \<lparr>asn_candidates = cs,
         asn_objective =
           \<lparr>ob_total_priority_score = of_nat (min (2 ^ 64 - 1) (summed_score cs)),
            ob_total_gas_used = of_nat (min (2 ^ 64 - 1) (total_gas cs)),
            ob_total_candidates = length cs\<rparr>\<rparr> \<and>
      (cfg_block_gas_limit config = - 1 \<or> total_gas cs \<le> unat (cfg_block_gas_limit config))"
proof -
  let ?e = "foldl engine_step (new_assembly_engine config) ops"
  have ok: "engine_ok ?e" by (rule assembly.reachable_invar)
  have config: "ae_config ?e = config" by (simp add: new_assembly_engine_def)
  then show ?thesis
    using ok by (simp add: Let_def engine_ok_def assembly_snapshot_of_def compute_objective_words
        list_all_iff candidates_conflict_iff)
qed

text \<open>
  Property C23. On every reachable state an insertion decides as the selection in unbounded
  arithmetic does, as long as the limit is not the largest 64-bit number: a candidate that
  was not approved, that does not beat the summed score of the candidates it shares a
  transaction with, or that does not fit into the gas left without them is rejected with
  that reason and changes no candidate; any other candidate takes the place of exactly the
  candidates it conflicts with, which the decision names.
\<close>

theorem assembly_insert_refines_selection:
  assumes "cfg_block_gas_limit config \<noteq> - 1"
  shows "let e = foldl engine_step (new_assembly_engine config) ops;
      (decision, e') = insert_candidate elapsed e cand
    in case select_candidate (unat (cfg_block_gas_limit config)) (ae_candidates e) cand of
         Inl reason \<Rightarrow>
           decision = Rejected (ac_candidate_id cand) (reason_str reason) \<and>
           ae_candidates e' = ae_candidates e
       | Inr cs \<Rightarrow>
           decision = Inserted (ac_candidate_id cand)
             (map ac_candidate_id
               (filter (\<lambda>c. set (ac_tx_hashes c) \<inter> set (ac_tx_hashes cand) \<noteq> {}) (ae_candidates e))) \<and>
           ae_candidates e' = cs"
proof -
  let ?e = "foldl engine_step (new_assembly_engine config) ops"
  have ok: "engine_ok ?e" by (rule assembly.reachable_invar)
  have config: "ae_config ?e = config" by (simp add: new_assembly_engine_def)
  show ?thesis
    using insert_inner_selects [OF ok, of cand] assms config
    by (simp add: Let_def insert_candidate_def case_prod_unfold candidates_conflict_iff
        del: select_candidate.simps split: sum.splits)
qed

theorem assembly_insert_refines_selection_witness:
  "let e = foldl engine_step (new_assembly_engine default_assembly_config) [];
      cand = \<lparr>ac_candidate_id = ''a'', ac_tx_hashes = [1], ac_priority_score = 5,
        ac_gas_used = 21000, ac_kind = TransactionKind,
        ac_simulation = \<lparr>sa_sim_id = ''s'', sa_block_number = 1, sa_approved = True\<rparr>\<rparr>
   in fst (insert_candidate 7 e cand) = Inserted ''a'' []"
  using assembly_insert_refines_selection [of default_assembly_config "[]" 7
    "\<lparr>ac_candidate_id = ''a'', ac_tx_hashes = [1], ac_priority_score = 5,
      ac_gas_used = 21000, ac_kind = TransactionKind,
      ac_simulation = \<lparr>sa_sim_id = ''s'', sa_block_number = 1, sa_approved = True\<rparr>\<rparr>"]
  by (simp add: Let_def default_assembly_config_def new_assembly_engine_def case_prod_unfold)

text \<open>
  No insertion lowers the summed priority score of the selected candidates: a
  rejected one leaves the candidates and the objective as they are, an insertion without a
  conflict adds the score of the candidate, and a replacement raises the sum.
\<close>

theorem assembly_never_loses_score:
  "let (decision, e') = insert_candidate elapsed e cand; before = summed_score (ae_candidates e);
      after = summed_score (ae_candidates e')
   in case decision of
        Rejected _ _ \<Rightarrow>
          ae_candidates e' = ae_candidates e \<and> live_objective e' = live_objective e
      | Inserted _ replaced \<Rightarrow>
          (if replaced = [] then after = before + unat (ac_priority_score cand) else before < after)"
proof (cases rule: insert_inner_branches [of e cand])
  case (rejected r)
  then show ?thesis by (simp add: insert_candidate_def case_prod_unfold Let_def)
next
  case (inserted e')
  then show ?thesis
    using summed_score_split [of "clash cand" "ae_candidates e"]
    by (auto simp: insert_candidate_def)
qed

text \<open>
  Joining an opportunity with a simulation fails on the first member without a
  result, and names it; otherwise the candidate covers exactly the members (the transaction
  itself when there are none), is approved when all of them succeeded, and carries their gas
  sum, saturated, and the score of the opportunity.
\<close>

theorem simulated_opportunity_join:
  "let hs = (if oc_member_tx_hashes opp = [] then [oc_tx_hash opp] else oc_member_tx_hashes opp);
      result = (\<lambda>h. find (\<lambda>r. tsr_hash r = h) (sbr_tx_results sim))
   in case from_simulated_opportunity hex opp sim of
        Inl (MissingSimulationResult h) \<Rightarrow> find (\<lambda>h. result h = None) hs = Some h
      | Inr c \<Rightarrow>
          find (\<lambda>h. result h = None) hs = None \<and> ac_tx_hashes c = hs \<and>
          (sa_approved (ac_simulation c) \<longleftrightarrow> list_all (\<lambda>h. tsr_success (the (result h))) hs) \<and>
          unat (ac_gas_used c) =
            min (2 ^ 64 - 1) (sum_list (map (\<lambda>h. unat (tsr_gas_used (the (result h)))) hs)) \<and>
          ac_priority_score c = oc_score opp"
proof -
  let ?result = "\<lambda>h. find (\<lambda>r. tsr_hash r = h) (sbr_tx_results sim)"
  have join: "case fold_result (join_result sim) (a, g) hs of
      Inl (MissingSimulationResult h) \<Rightarrow> find (\<lambda>h. ?result h = None) hs = Some h
    | Inr (approved, gas) \<Rightarrow>
        find (\<lambda>h. ?result h = None) hs = None \<and>
        (approved \<longleftrightarrow> a \<and> list_all (\<lambda>h. tsr_success (the (?result h))) hs) \<and>
        unat gas = min (2 ^ 64 - 1)
          (unat g + sum_list (map (\<lambda>h. unat (tsr_gas_used (the (?result h)))) hs))" for a g hs
  proof (induction hs arbitrary: a g)
    case Nil
    then show ?case using unat_le_max [of g] by simp
  next
    case (Cons h hs)
    show ?case
    proof (cases "?result h")
      case None
      then show ?thesis by (simp add: join_result_def)
    next
      case (Some r)
      then show ?thesis
        using Cons.IH [of "a \<and> tsr_success r" "sat_add g (tsr_gas_used r)"]
        by (auto simp: join_result_def unat_sat_add split: sum.splits
            assembly_candidate_build_error.splits)
    qed
  qed
  show ?thesis
    using join [where a = True and g = 0 and hs = "if oc_member_tx_hashes opp = [] then [oc_tx_hash opp]
      else oc_member_tx_hashes opp"]
    by (auto simp: Let_def from_simulated_opportunity_def split: sum.splits
        assembly_candidate_build_error.splits)
qed

text \<open>
  The parent hash and the builder key are hashed one after the other without a length, so
  two contexts that split the same text differently get the same template identifier,
  whatever the hash function is.
\<close>

theorem block_hash_not_delimited:
  "compute_block_hash sha256 hex
      \<lparr>rb_slot = 1, rb_parent_hash = ''0xaa'', rb_builder_pubkey = ''bb''\<rparr> cs =
    compute_block_hash sha256 hex
      \<lparr>rb_slot = 1, rb_parent_hash = ''0xaab'', rb_builder_pubkey = ''b''\<rparr> cs"
  by (simp add: compute_block_hash_def block_hash_preimage_def text_bytes_def)

end
