(* ===== verification/Builder_Relay.thy ===== *)
theory Builder_Relay
  imports Builder_Assembly
begin

text \<open>
  The relay client of the crate \<^verbatim>\<open>builder\<close> (\<^verbatim>\<open>relay_client.rs\<close>): the
  retry loop of a dry-run submission with its exponential backoff, the health record that
  opens a circuit after consecutive failures, and the totals over submissions. What the
  network and the clocks answer is a parameter (\<open>relay_world\<close>); a status counts as a
  success when \<open>is_success\<close>, the predicate of the HTTP library, says so. The mutex around
  the health record makes each reading and each update of it atomic.
\<close>

section \<open>Data\<close>

definition downweight_failure_threshold :: u32 where
  "downweight_failure_threshold = 1"

definition downweight_window_ms :: i64 where
  "downweight_window_ms = 2000"

definition circuit_breaker_failure_threshold :: u32 where
  "circuit_breaker_failure_threshold = 2"

definition circuit_breaker_window_ms :: i64 where
  "circuit_breaker_window_ms = 5000"

record relay_attempt_trace =
  ra_attempt :: u32
  ra_endpoint :: string
  ra_http_status :: "u16 option"
  ra_error :: "string option"
  ra_latency_ms :: u64
  ra_backoff_ms :: u64

record relay_dry_run_result =
  rr_relay_url :: string
  rr_accepted :: bool
  rr_final_state :: string
  rr_attempts :: "relay_attempt_trace list"
  rr_started_unix_ms :: i64
  rr_finished_unix_ms :: i64

record relay_client_config =
  rc_relay_url :: string
  rc_max_retries :: u32
  rc_initial_backoff_ms :: u64
  rc_request_timeout_ms :: u64

record relay_dry_run_status =
  rs_latest :: "relay_dry_run_result option"
  rs_total_submissions :: u64
  rs_total_accepted :: u64
  rs_total_failed :: u64

definition default_relay_status :: relay_dry_run_status where
  "default_relay_status =
     \<lparr>rs_latest = None, rs_total_submissions = 0, rs_total_accepted = 0, rs_total_failed = 0\<rparr>"

definition record_status ::
  "relay_dry_run_status \<Rightarrow> relay_dry_run_result \<Rightarrow> relay_dry_run_status" where
  "record_status status result =
     (let status = status\<lparr>rs_total_submissions := sat_add (rs_total_submissions status) 1\<rparr>;
          status = (if rr_accepted result
            then status\<lparr>rs_total_accepted := sat_add (rs_total_accepted status) 1\<rparr>
            else status\<lparr>rs_total_failed := sat_add (rs_total_failed status) 1\<rparr>)
      in status\<lparr>rs_latest := Some result\<rparr>)"

record relay_health_state =
  rh_consecutive_failures :: u32
  rh_downweighted_until_unix_ms :: i64
  rh_circuit_open_until_unix_ms :: i64

definition default_relay_health :: relay_health_state where
  "default_relay_health = \<lparr>rh_consecutive_failures = 0, rh_downweighted_until_unix_ms = 0,
     rh_circuit_open_until_unix_ms = 0\<rparr>"

record relay_client =
  rcl_config :: relay_client_config
  rcl_health :: relay_health_state

text \<open>Building the HTTP client with a timeout may fail; the result is \<open>build_http\<close>.\<close>

datatype 'err relay_error = EmptyRelayUrl | HttpBuildError 'err

definition new_relay_client ::
  "(u64 \<Rightarrow> 'err option) \<Rightarrow> relay_client_config \<Rightarrow> 'err relay_error + relay_client" where
  "new_relay_client build_http config =
     (if trim (rc_relay_url config) = [] then Inl EmptyRelayUrl
      else case build_http (max (rc_request_timeout_ms config) 1) of
          Some err \<Rightarrow> Inl (HttpBuildError err)
        | None \<Rightarrow> Inr \<lparr>rcl_config = config, rcl_health = default_relay_health\<rparr>)"

section \<open>Health\<close>

definition is_circuit_open :: "relay_health_state \<Rightarrow> i64 \<Rightarrow> bool" where
  "is_circuit_open state now_unix_ms \<longleftrightarrow> now_unix_ms < rh_circuit_open_until_unix_ms state"

definition record_submission_result ::
  "relay_health_state \<Rightarrow> bool \<Rightarrow> i64 \<Rightarrow> relay_health_state" where
  "record_submission_result state accepted now_unix_ms =
     (if accepted
      then state\<lparr>rh_consecutive_failures := 0, rh_downweighted_until_unix_ms := 0,
        rh_circuit_open_until_unix_ms := 0\<rparr>
      else
        let state = state\<lparr>rh_consecutive_failures := sat_add (rh_consecutive_failures state) 1\<rparr>;
            state = (if rh_consecutive_failures state \<ge> downweight_failure_threshold
              then state\<lparr>rh_downweighted_until_unix_ms :=
                i64_sat (now_unix_ms + downweight_window_ms)\<rparr>
              else state)
        in if rh_consecutive_failures state \<ge> circuit_breaker_failure_threshold
           then state\<lparr>rh_circuit_open_until_unix_ms :=
             i64_sat (now_unix_ms + circuit_breaker_window_ms)\<rparr>
           else state)"

section \<open>Submission\<close>

definition backoff_delay_ms :: "u64 \<Rightarrow> u32 \<Rightarrow> u64" where
  "backoff_delay_ms initial_backoff_ms retry_index =
     (let retry_shift = min retry_index 16
      in sat_mul (max initial_backoff_ms 1) (push_bit (unat retry_shift) 1))"

text \<open>What one attempt gets back, with the elapsed milliseconds.\<close>

datatype relay_response = HttpStatus u16 | TransportError string

record relay_world =
  rw_started :: i64
  rw_attempt :: "u32 \<Rightarrow> relay_response \<times> u128"
  rw_recorded :: i64
  rw_finished :: i64

definition attempt_trace ::
  "(u16 \<Rightarrow> bool) \<Rightarrow> relay_client_config \<Rightarrow> u32 \<Rightarrow> relay_response \<times> u128 \<Rightarrow> bool \<times> relay_attempt_trace" where
  "attempt_trace is_success config attempt answer =
     (let (response, elapsed) = answer;
          success = (case response of HttpStatus status \<Rightarrow> is_success status | TransportError _ \<Rightarrow> False);
          backoff_ms = (if success \<or> attempt = rc_max_retries config then 0
            else backoff_delay_ms (rc_initial_backoff_ms config) attempt)
      in (success,
          \<lparr>ra_attempt = sat_add attempt 1, ra_endpoint = rc_relay_url config,
           ra_http_status = (case response of HttpStatus status \<Rightarrow> Some status | TransportError _ \<Rightarrow> None),
           ra_error = (case response of HttpStatus _ \<Rightarrow> None | TransportError msg \<Rightarrow> Some msg),
           ra_latency_ms = ucast elapsed, ra_backoff_ms = backoff_ms\<rparr>))"

text \<open>The loop over the attempts; a success returns from it.\<close>

fun attempt_loop ::
  "(u16 \<Rightarrow> bool) \<Rightarrow> relay_client_config \<Rightarrow> (u32 \<Rightarrow> relay_response \<times> u128) \<Rightarrow> u32 list
    \<Rightarrow> relay_attempt_trace list \<Rightarrow> bool \<times> relay_attempt_trace list" where
  "attempt_loop is_success config world [] attempts = (False, attempts)"
| "attempt_loop is_success config world (attempt # rest) attempts =
     (let (success, trace) = attempt_trace is_success config attempt (world attempt)
      in if success then (True, attempts @ [trace])
         else attempt_loop is_success config world rest (attempts @ [trace]))"

definition attempt_range :: "relay_client_config \<Rightarrow> u32 list" where
  "attempt_range config = map of_nat [0..<Suc (unat (rc_max_retries config))]"

definition submit_dry_run ::
  "(u16 \<Rightarrow> bool) \<Rightarrow> relay_world \<Rightarrow> relay_client \<Rightarrow> relay_dry_run_result \<times> relay_client" where
  "submit_dry_run is_success world client =
     (let config = rcl_config client; started = rw_started world
      in if is_circuit_open (rcl_health client) started
         then (\<lparr>rr_relay_url = rc_relay_url config, rr_accepted = False,
                rr_final_state = ''circuit_open'',
                rr_attempts = [\<lparr>ra_attempt = 1, ra_endpoint = rc_relay_url config,
                  ra_http_status = None, ra_error = Some ''circuit_open'', ra_latency_ms = 0,
                  ra_backoff_ms = 0\<rparr>],
                rr_started_unix_ms = started, rr_finished_unix_ms = started\<rparr>, client)
         else
           let (accepted, attempts) =
                 attempt_loop is_success config (rw_attempt world) (attempt_range config) [];
               health = record_submission_result (rcl_health client) accepted (rw_recorded world)
           in (\<lparr>rr_relay_url = rc_relay_url config, rr_accepted = accepted,
                rr_final_state = (if accepted then ''accepted'' else ''exhausted''),
                rr_attempts = attempts, rr_started_unix_ms = started,
                rr_finished_unix_ms = rw_finished world\<rparr>,
               client\<lparr>rcl_health := health\<rparr>))"

definition submit_relay_dry_run ::
  "(u16 \<Rightarrow> bool) \<Rightarrow> (u8 list \<Rightarrow> u8 list) \<Rightarrow> (u8 list \<Rightarrow> string) \<Rightarrow> relay_world \<Rightarrow> assembly_engine
    \<Rightarrow> relay_build_context \<Rightarrow> relay_client \<Rightarrow> relay_dry_run_result option \<times> relay_client" where
  "submit_relay_dry_run is_success sha256 hex world engine ctx client =
     (case build_relay_template sha256 hex engine ctx of
        None \<Rightarrow> (None, client)
      | Some template \<Rightarrow>
          (let (result, client') = submit_dry_run is_success world client
           in (Some result, client')))"

section \<open>The backoff\<close>

lemma unat_backoff:
  "unat (backoff_delay_ms initial i) =
    min (2 ^ 64 - 1) (max (unat initial) 1 * 2 ^ min (unat i) 16)"
proof -
  have "unat (push_bit (unat (min i 16)) (1 :: u64)) = 2 ^ min (unat i) 16"
  proof -
    have k: "unat (min i 16) = min (unat i) 16"
      by (simp add: min_def word_le_nat_alt)
    have "(2 :: nat) ^ min (unat i) 16 \<le> 2 ^ 16" by (rule power_increasing) simp_all
    then have "(2 :: nat) ^ min (unat i) 16 < 2 ^ 64" by simp
    then show ?thesis
      unfolding k unsigned_push_bit_eq by (simp add: push_bit_eq_mult take_bit_nat_eq_self)
  qed
  moreover have "unat (max initial 1) = max (unat initial) 1"
    by (simp add: max_def word_le_nat_alt)
  ultimately show ?thesis by (simp add: backoff_delay_ms_def Let_def unat_sat_mul)
qed

section \<open>The retry loop\<close>

text \<open>
  The loop tries the attempts in order up to and including the first success; each step
  appends the trace of its attempt.
\<close>

lemma attempt_loop_traces:
  "attempt_loop is_success config world xs acc =
    (let results = map (\<lambda>i. attempt_trace is_success config i (world i)) xs;
         failures = takeWhile (\<lambda>r. \<not> fst r) results
     in if length failures = length xs then (False, acc @ map snd failures)
        else (True, acc @ map snd failures @ [snd (results ! length failures)]))"
proof (induction xs arbitrary: acc)
  case (Cons i xs)
  obtain ok t where t: "attempt_trace is_success config i (world i) = (ok, t)"
    by (cases "attempt_trace is_success config i (world i)")
  show ?case using Cons.IH [of "acc @ [t]"] by (simp add: t Let_def)
qed simp

lemma unat_attempt: "i \<in> set (attempt_range config) \<Longrightarrow> unat i \<le> unat (rc_max_retries config)"
  by (auto simp: attempt_range_def unat_of_nat intro: order_trans [OF mod_less_eq_dividend])

lemma attempt_nth:
  assumes "k \<le> unat (rc_max_retries config)"
  shows "attempt_range config ! k = of_nat k" "unat (of_nat k :: u32) = k"
proof -
  show "unat (of_nat k :: u32) = k"
    using assms unat_le_max [of "rc_max_retries config"]
    by (simp add: unat_of_nat take_bit_nat_eq_self)
  show "attempt_range config ! k = of_nat k"
    using assms by (simp add: attempt_range_def del: upt_Suc)
qed

lemma length_attempt_range [simp]:
  "length (attempt_range config) = Suc (unat (rc_max_retries config))"
  by (simp add: attempt_range_def del: upt_Suc)

definition attempt_succeeds :: "(u16 \<Rightarrow> bool) \<Rightarrow> (u32 \<Rightarrow> relay_response \<times> u128) \<Rightarrow> nat \<Rightarrow> bool" where
  "attempt_succeeds is_success world k \<longleftrightarrow>
     (case fst (world (of_nat k)) of HttpStatus s \<Rightarrow> is_success s | TransportError _ \<Rightarrow> False)"

lemma fst_attempt_trace [simp]:
  "fst (attempt_trace is_success config (of_nat k) (world (of_nat k))) =
    attempt_succeeds is_success world k"
  by (simp add: attempt_trace_def attempt_succeeds_def case_prod_unfold Let_def)

text \<open>The number of failing attempts before the first success, at most all of them.\<close>

fun failing :: "(nat \<Rightarrow> bool) \<Rightarrow> nat \<Rightarrow> nat \<Rightarrow> nat" where
  "failing p k 0 = 0"
| "failing p k (Suc n) = (if p k then 0 else Suc (failing p (Suc k) n))"

lemma failing_le: "failing p k n \<le> n"
  by (induction p k n rule: failing.induct) auto

lemma failing_before: "i < failing p k n \<Longrightarrow> \<not> p (k + i)"
proof (induction p k n arbitrary: i rule: failing.induct)
  case (2 p k n)
  then show ?case by (cases i) (auto split: if_splits)
qed simp

lemma failing_at: "failing p k n < n \<Longrightarrow> p (k + failing p k n)"
  by (induction p k n rule: failing.induct) auto

lemma takeWhile_failing:
  "takeWhile (\<lambda>x. \<not> p x) [k..<k + n] = [k..<k + failing p k n]"
  by (induction p k n rule: failing.induct) (auto simp: upt_rec)

lemma attempt_loop_range:
  assumes n_def: "n = Suc (unat (rc_max_retries config))"
    and k_def: "k = failing (attempt_succeeds is_success world) 0 n"
  shows "attempt_loop is_success config world (attempt_range config) [] =
    (k < n, map (\<lambda>i. snd (attempt_trace is_success config (of_nat i) (world (of_nat i))))
       [0..<min n (Suc k)])"
proof -
  let ?f = "\<lambda>i. attempt_trace is_success config (of_nat i) (world (of_nat i))"
  have res: "map (\<lambda>i. attempt_trace is_success config i (world i)) (attempt_range config) =
      map ?f [0..<n]"
    by (simp add: attempt_range_def n_def del: upt_Suc)
  have tw: "takeWhile (\<lambda>r. \<not> fst r) (map ?f [0..<n]) = map ?f [0..<k]"
    using takeWhile_failing [of "attempt_succeeds is_success world" 0 n]
    by (simp add: takeWhile_map comp_def k_def)
  have kn: "k \<le> n" unfolding k_def by (rule failing_le)
  show ?thesis
  proof (cases "k = n")
    case True
    then show ?thesis unfolding attempt_loop_traces res Let_def tw by (simp add: n_def del: upt_Suc)
  next
    case False
    then have "min n (Suc k) = Suc k" using kn by simp
    then show ?thesis
      unfolding attempt_loop_traces res Let_def tw using False kn n_def by (simp del: upt_Suc)
        (simp add: comp_def)
  qed
qed

section \<open>Runs of a client\<close>

text \<open>The health record over a sequence of recorded submission results.\<close>

definition health_after :: "(bool \<times> i64) list \<Rightarrow> relay_health_state" where
  "health_after results =
     foldl (\<lambda>h (accepted, now). record_submission_result h accepted now) default_relay_health results"

text \<open>The failures at the end of the sequence.\<close>

definition trailing_failures :: "(bool \<times> i64) list \<Rightarrow> (bool \<times> i64) list" where
  "trailing_failures results = takeWhile (\<lambda>r. \<not> fst r) (rev results)"

lemma health_after_snoc:
  "health_after (results @ [(accepted, now)]) =
    record_submission_result (health_after results) accepted now"
  by (simp add: health_after_def)

lemma trailing_snoc:
  "trailing_failures (results @ [r]) = (if fst r then [] else r # trailing_failures results)"
  by (simp add: trailing_failures_def)

lemma health_after_eq:
  "health_after results =
    \<lparr>rh_consecutive_failures = of_nat (min (2 ^ 32 - 1) (length (trailing_failures results))),
     rh_downweighted_until_unix_ms =
       (case trailing_failures results of [] \<Rightarrow> 0 | f # _ \<Rightarrow> i64_sat (snd f + 2000)),
     rh_circuit_open_until_unix_ms =
       (case trailing_failures results of f # _ # _ \<Rightarrow> i64_sat (snd f + 5000) | _ \<Rightarrow> 0)\<rparr>"
proof (induction results rule: rev_induct)
  case Nil
  then show ?case
    by (simp add: health_after_def trailing_failures_def default_relay_health_def)
next
  case (snoc r results)
  obtain accepted now where r: "r = (accepted, now)" by (cases r)
  let ?n = "length (trailing_failures results)"
  let ?c = "of_nat (min (2 ^ 32 - 1) ?n) :: u32"
  have small: "unat (of_nat (min (2 ^ 32 - 1) k) :: u32) = min (2 ^ 32 - 1) k" for k
    by (subst unat_of_nat) (rule mod_less, simp)
  note c = small [of ?n]
  have "unat (sat_add ?c 1) = min (2 ^ 32 - 1) (Suc ?n)"
    by (simp only: unat_sat_add c) simp
  then have next_c: "sat_add ?c 1 = of_nat (min (2 ^ 32 - 1) (Suc ?n))"
    by (simp only: word_unat_eq_iff small)
  have "1 \<le> sat_add ?c 1" "2 \<le> sat_add ?c 1 \<longleftrightarrow> ?n \<noteq> 0"
    using \<open>unat (sat_add ?c 1) = _\<close> by (simp_all add: word_le_nat_alt Suc_le_eq)
  then show ?case
    using next_c unfolding r health_after_snoc trailing_snoc snoc.IH
    by (auto simp: record_submission_result_def Let_def downweight_failure_threshold_def
        circuit_breaker_failure_threshold_def downweight_window_ms_def
        circuit_breaker_window_ms_def split: list.splits)
qed

text \<open>
  A sequence of submissions of one client, each with what the world answers; the recorded
  results are those of the submissions that were not short-circuited.
\<close>

definition relay_step :: "(u16 \<Rightarrow> bool) \<Rightarrow> relay_client \<Rightarrow> relay_world \<Rightarrow> relay_client" where
  "relay_step is_success client world = snd (submit_dry_run is_success world client)"

fun recorded ::
  "(u16 \<Rightarrow> bool) \<Rightarrow> relay_client \<Rightarrow> relay_world list \<Rightarrow> (bool \<times> i64) list" where
  "recorded is_success client [] = []"
| "recorded is_success client (w # ws) =
     (if is_circuit_open (rcl_health client) (rw_started w) then []
      else [(rr_accepted (fst (submit_dry_run is_success w client)), rw_recorded w)]) @
     recorded is_success (relay_step is_success client w) ws"

lemma relay_step_health:
  "rcl_health (relay_step is_success client w) =
    (if is_circuit_open (rcl_health client) (rw_started w) then rcl_health client
     else record_submission_result (rcl_health client)
       (rr_accepted (fst (submit_dry_run is_success w client))) (rw_recorded w))"
  by (simp add: relay_step_def submit_dry_run_def Let_def case_prod_unfold)

lemma relay_run_health:
  "rcl_health (foldl (relay_step is_success) client ws) =
    foldl (\<lambda>h (accepted, now). record_submission_result h accepted now) (rcl_health client)
      (recorded is_success client ws)"
  by (induction ws arbitrary: client) (simp_all add: relay_step_health)

lemma new_relay_client_health:
  "new_relay_client build_http config = Inr client \<Longrightarrow> rcl_health client = default_relay_health"
  by (auto simp: new_relay_client_def split: if_splits option.splits)

section \<open>Properties\<close>

text \<open>
  A submission through a closed circuit makes at least one and at most
  one more than the configured number of retries, numbered from one; it stops at the first success and
  reports acceptance exactly then. It backs off after every failed attempt but the last
  possible one, for the configured delay (at least one millisecond) doubled with every
  attempt up to the sixteenth, saturating, and never after a success.
\<close>

theorem relay_retry_schedule:
  assumes "\<not> is_circuit_open (rcl_health client) (rw_started world)"
  shows "let config = rcl_config client; limit = Suc (unat (rc_max_retries config));
      ok = attempt_succeeds is_success (rw_attempt world);
      result = fst (submit_dry_run is_success world client); attempts = rr_attempts result;
      failed = failing ok 0 limit
    in length attempts = min limit (Suc failed) \<and>
       (rr_accepted result \<longleftrightarrow> (\<exists>k < limit. ok k)) \<and>
       map (unat \<circ> ra_attempt) attempts = map (\<lambda>k. min (2 ^ 32 - 1) (Suc k)) [0..<length attempts] \<and>
       map (unat \<circ> ra_backoff_ms) attempts =
         map (\<lambda>k. if ok k \<or> Suc k = limit then 0
            else min (2 ^ 64 - 1) (max (unat (rc_initial_backoff_ms config)) 1 * 2 ^ min k 16))
           [0..<length attempts]"
proof -
  let ?config = "rcl_config client"
  let ?limit = "Suc (unat (rc_max_retries ?config))"
  let ?ok = "attempt_succeeds is_success (rw_attempt world)"
  let ?k = "failing ?ok 0 ?limit"
  let ?trace = "\<lambda>i. snd (attempt_trace is_success ?config (of_nat i) (rw_attempt world (of_nat i)))"
  let ?result = "fst (submit_dry_run is_success world client)"
  have res: "rr_accepted ?result = (?k < ?limit)"
      "rr_attempts ?result = map ?trace [0..<min ?limit (Suc ?k)]"
    using assms attempt_loop_range [OF refl refl, of is_success ?config "rw_attempt world"]
    by (simp_all add: submit_dry_run_def Let_def del: upt_Suc failing.simps)
  have word: "unat (of_nat i :: u32) = i" if "i < ?limit" for i
    using that attempt_nth(2) [of i ?config] by simp
  have last: "(of_nat i :: u32) = rc_max_retries ?config \<longleftrightarrow> Suc i = ?limit" if "i < ?limit" for i
    using word [OF that] by (auto simp: word_unat_eq_iff)
  have number: "unat (ra_attempt (?trace i)) = min (2 ^ 32 - 1) (Suc i)" if "i < ?limit" for i
    using word [OF that] by (simp add: attempt_trace_def case_prod_unfold Let_def unat_sat_add)
  have backoff: "unat (ra_backoff_ms (?trace i)) =
      (if ?ok i \<or> Suc i = ?limit then 0
       else min (2 ^ 64 - 1) (max (unat (rc_initial_backoff_ms ?config)) 1 * 2 ^ min i 16))"
    if "i < ?limit" for i
    using word [OF that] last [OF that] unat_backoff [of "rc_initial_backoff_ms ?config" "of_nat i"]
    by (simp add: attempt_trace_def case_prod_unfold Let_def attempt_succeeds_def)
  have accepted: "?k < ?limit \<longleftrightarrow> (\<exists>k < ?limit. ?ok k)"
    using failing_at [of ?ok 0 ?limit] failing_before [of _ ?ok 0 ?limit] failing_le [of ?ok 0 ?limit]
    by (metis add_0 le_neq_implies_less)
  show ?thesis
    unfolding Let_def res using accepted number backoff
    by (simp add: comp_def del: upt_Suc failing.simps)
qed

text \<open>
  Property C37. The circuit breaker over any sequence of submissions of a new client: the
  next submission is refused without any attempt, and changes nothing, exactly when the
  last two or more recorded submissions failed and it starts within five seconds of the
  last of them.
\<close>

theorem relay_circuit_breaker:
  assumes "new_relay_client build_http config = Inr client"
  shows "let client' = foldl (relay_step is_success) client ws;
      failures = trailing_failures (recorded is_success client ws);
      (result, client'') = submit_dry_run is_success world client'
    in if (case failures of f # _ # _ \<Rightarrow> rw_started world < i64_sat (snd f + 5000)
           | _ \<Rightarrow> rw_started world < 0)
       then rr_final_state result = ''circuit_open'' \<and> \<not> rr_accepted result \<and> client'' = client'
       else rr_final_state result = (if rr_accepted result then ''accepted'' else ''exhausted'')"
proof -
  have "rcl_health (foldl (relay_step is_success) client ws) =
      health_after (recorded is_success client ws)"
    using new_relay_client_health [OF assms] by (simp add: relay_run_health health_after_def)
  then show ?thesis
    by (simp add: submit_dry_run_def Let_def case_prod_unfold is_circuit_open_def health_after_eq
        split: list.split)
qed

definition sample_relay_config :: relay_client_config where
  "sample_relay_config = \<lparr>rc_relay_url = ''http://relay'', rc_max_retries = 2,
     rc_initial_backoff_ms = 100, rc_request_timeout_ms = 500\<rparr>"

definition sample_relay_world :: "i64 \<Rightarrow> relay_world" where
  "sample_relay_world t =
     \<lparr>rw_started = t, rw_attempt = (\<lambda>i. (TransportError ''refused'', 3)), rw_recorded = t + 700,
      rw_finished = t + 700\<rparr>"

theorem relay_retry_schedule_witness:
  "map (unat \<circ> ra_backoff_ms)
     (rr_attempts (fst (submit_dry_run (\<lambda>s. s = 200) (sample_relay_world 1000)
       \<lparr>rcl_config = sample_relay_config, rcl_health = default_relay_health\<rparr>))) = [100, 200, 0]"
proof -
  let ?client = "\<lparr>rcl_config = sample_relay_config, rcl_health = default_relay_health\<rparr>"
  have closed: "\<not> is_circuit_open (rcl_health ?client) (rw_started (sample_relay_world 1000))"
    by (simp add: is_circuit_open_def default_relay_health_def sample_relay_world_def)
  have ok: "attempt_succeeds (\<lambda>s. s = 200) (rw_attempt (sample_relay_world 1000)) = (\<lambda>_. False)"
    by (simp add: fun_eq_iff attempt_succeeds_def sample_relay_world_def)
  have config: "unat (rc_max_retries sample_relay_config) = 2"
      "unat (rc_initial_backoff_ms sample_relay_config) = 100"
    by (simp_all add: sample_relay_config_def)
  have upt: "[0..<3] = [0, 1, 2 :: nat]" by (simp add: upt_rec)
  have three: "failing (\<lambda>_. False) 0 (Suc 2) = 3" by (simp add: eval_nat_numeral)
  show ?thesis
    using relay_retry_schedule [OF closed, of "\<lambda>s. s = 200"]
    unfolding Let_def ok relay_client.simps config three by (simp add: upt del: upt_Suc)
qed

theorem relay_circuit_breaker_witness:
  "let client = \<lparr>rcl_config = sample_relay_config, rcl_health = default_relay_health\<rparr>;
       client' = foldl (relay_step (\<lambda>s. s = 200)) client [sample_relay_world 1000, sample_relay_world 2000]
   in rr_final_state (fst (submit_dry_run (\<lambda>s. s = 200) (sample_relay_world 7000) client')) =
     ''circuit_open''"
proof -
  let ?client = "\<lparr>rcl_config = sample_relay_config, rcl_health = default_relay_health\<rparr>"
  let ?ws = "[sample_relay_world 1000, sample_relay_world 2000]"
  have new: "new_relay_client (\<lambda>_. None :: unit option) sample_relay_config = Inr ?client"
    by code_simp
  have failures: "trailing_failures (recorded (\<lambda>s. s = 200) ?client ?ws) = [(False, 2700), (False, 1700)]"
    by code_simp
  show ?thesis
    using relay_circuit_breaker [OF new, of "\<lambda>s. s = 200" ?ws "sample_relay_world 7000"]
    unfolding Let_def failures
    by (simp add: case_prod_unfold sample_relay_world_def i64_sat_def i64_min_def i64_max_def)
qed

text \<open>
  The totals of the status are the numbers of recorded, accepted and refused results, up to
  saturation.
\<close>

lemma record_status_fields [simp]:
  "rs_total_submissions (record_status s r) = sat_add (rs_total_submissions s) 1"
  "rs_total_accepted (record_status s r) =
    (if rr_accepted r then sat_add (rs_total_accepted s) 1 else rs_total_accepted s)"
  "rs_total_failed (record_status s r) =
    (if rr_accepted r then rs_total_failed s else sat_add (rs_total_failed s) 1)"
  "rs_latest (record_status s r) = Some r"
  by (simp_all add: record_status_def Let_def)

lemma relay_status_totals:
  "let status = foldl record_status default_relay_status results;
       total = (\<lambda>p. min (2 ^ 64 - 1) (length (filter p results)))
   in unat (rs_total_submissions status) = total (\<lambda>_. True) \<and>
      unat (rs_total_accepted status) = total rr_accepted \<and>
      unat (rs_total_failed status) = total (\<lambda>r. \<not> rr_accepted r) \<and>
      rs_latest status = (if results = [] then None else Some (last results))"
  by (induction results rule: rev_induct)
    (simp_all add: default_relay_status_def Let_def unat_sat_add flip: min.assoc)

end
