(* ===== verification/Replay_State.thy ===== *)
theory Replay_State
  imports Event_Log Nonce_Gap
begin

text \<open>
  The mempool state of the crate \<^verbatim>\<open>replay\<close> (\<^verbatim>\<open>mempool_state.rs\<close>): the
  transaction entries, the sender queues and the block confirmations that replaying an
  event updates, the report of the sender queues, and the two ways of seeding a state from
  a checkpoint. The hash maps and sets of the source are ordered maps and sets.
\<close>

section \<open>Data\<close>

datatype replay_queue_state = ReplayReady | ReplayBlocked u64

record replay_sender_queue_entry =
  rqe_hash :: TxHash
  rqe_nonce :: u64
  rqe_state :: replay_queue_state

record replay_sender_queue =
  rsq_sender :: Address
  rsq_queued :: "replay_sender_queue_entry list"

datatype tx_lifecycle_status =
    Pending
  | Replaced TxHash
  | Dropped string
  | ConfirmedProvisional u64 BlockHash
  | ConfirmedFinal u64 BlockHash

datatype state_transition =
    ToPending TxHash
  | ToReplaced TxHash TxHash
  | ToDropped TxHash string
  | ToConfirmedProvisional TxHash BlockHash
  | ToConfirmedFinal TxHash BlockHash
  | ReorgReopened TxHash BlockHash BlockHash
  | QueueReady TxHash Address u64
  | QueueBlocked TxHash Address u64 "u64 option"

record tx_entry =
  me_sender :: "Address option"
  me_nonce :: "u64 option"
  me_status :: tx_lifecycle_status
  me_queue_state :: "replay_queue_state option"

type_synonym tx_map = "(TxHash, tx_entry) btree_map"
type_synonym slot_map = "(Address, (u64, TxHash) btree_map) btree_map"

record mempool_state =
  mp_txs :: tx_map
  mp_sender_queues :: slot_map
  mp_block_confirmations :: "(BlockHash, TxHash set) btree_map"

definition default_mempool_state :: mempool_state where
  "default_mempool_state =
     \<lparr>mp_txs = bt_empty, mp_sender_queues = bt_empty, mp_block_confirmations = bt_empty\<rparr>"

definition unplaced_entry :: tx_entry where
  "unplaced_entry = \<lparr>me_sender = None, me_nonce = None, me_status = Pending, me_queue_state = None\<rparr>"

text \<open>\<^verbatim>\<open>entry(k).or_insert(v)\<close> and \<^verbatim>\<open>entry(k).or_default()\<close>, as the map with the entry.\<close>

definition or_insert :: "'k::linorder \<Rightarrow> 'v \<Rightarrow> ('k, 'v) btree_map \<Rightarrow> ('k, 'v) btree_map" where
  "or_insert k v m = (if bt_contains m k then m else bt_insert k v m)"

section \<open>The nonce-gap rule\<close>

text \<open>The match on the next executable nonce, shared by the report and the recomputation.\<close>

fun replay_entry_state ::
  "u64 option \<times> bool \<Rightarrow> u64 \<Rightarrow> replay_queue_state \<times> (u64 option \<times> bool)" where
  "replay_entry_state (None, gap_seen) nonce = (ReplayReady, (checked_add nonce 1, gap_seen))"
| "replay_entry_state (Some expected, gap_seen) nonce =
     (if \<not> gap_seen \<and> nonce = expected then (ReplayReady, (checked_add nonce 1, gap_seen))
      else (ReplayBlocked expected, (Some expected, True)))"

interpretation replay_gap: nonce_gap replay_entry_state ReplayReady ReplayBlocked
  by unfold_locales simp_all

definition pending_in :: "tx_map \<Rightarrow> TxHash \<Rightarrow> bool" where
  "pending_in txs hash \<longleftrightarrow> (case bt_get txs hash of Some entry \<Rightarrow> me_status entry = Pending | None \<Rightarrow> False)"

section \<open>Seeding\<close>

definition from_pending_hashes :: "TxHash list \<Rightarrow> mempool_state" where
  "from_pending_hashes pending_hashes =
     foldl (\<lambda>state hash. state\<lparr>mp_txs := bt_insert hash unplaced_entry (mp_txs state)\<rparr>)
       default_mempool_state pending_hashes"

definition seed_queue_entry ::
  "Address \<Rightarrow> mempool_state \<Rightarrow> replay_sender_queue_entry \<Rightarrow> mempool_state" where
  "seed_queue_entry sender state entry =
     state\<lparr>mp_txs := or_insert (rqe_hash entry)
         \<lparr>me_sender = Some sender, me_nonce = Some (rqe_nonce entry), me_status = Pending,
          me_queue_state = Some (rqe_state entry)\<rparr> (mp_txs state),
       mp_sender_queues := bt_adjust sender (bt_insert (rqe_nonce entry) (rqe_hash entry))
         (or_insert sender bt_empty (mp_sender_queues state))\<rparr>"

definition from_checkpoint :: "TxHash list \<Rightarrow> replay_sender_queue list \<Rightarrow> mempool_state" where
  "from_checkpoint pending_hashes sender_queues =
     foldl (\<lambda>state queue. foldl (seed_queue_entry (rsq_sender queue)) state (rsq_queued queue))
       (from_pending_hashes pending_hashes) sender_queues"

section \<open>Queue maintenance\<close>

definition ensure_sender_queue_entry ::
  "mempool_state \<Rightarrow> TxHash \<Rightarrow> Address \<Rightarrow> u64 \<Rightarrow> mempool_state" where
  "ensure_sender_queue_entry state hash sender nonce =
     state\<lparr>mp_txs := bt_adjust hash
         (\<lambda>e. e\<lparr>me_sender := Some sender, me_nonce := Some nonce, me_status := Pending\<rparr>)
         (or_insert hash \<lparr>me_sender = Some sender, me_nonce = Some nonce, me_status = Pending,
            me_queue_state = None\<rparr> (mp_txs state)),
       mp_sender_queues := bt_adjust sender (bt_insert nonce hash)
         (or_insert sender bt_empty (mp_sender_queues state))\<rparr>"

text \<open>A queue is put back, or its sender is removed when it is empty.\<close>

definition store_queue :: "Address \<Rightarrow> (u64, TxHash) btree_map \<Rightarrow> slot_map \<Rightarrow> slot_map" where
  "store_queue sender queue queues =
     (if bt_is_empty queue then bt_remove sender queues else bt_insert sender queue queues)"

definition remove_sender_queue_entry ::
  "mempool_state \<Rightarrow> TxHash \<Rightarrow> Address \<Rightarrow> u64 \<Rightarrow> mempool_state" where
  "remove_sender_queue_entry state hash sender nonce =
     (case bt_get (mp_sender_queues state) sender of
        None \<Rightarrow> state
      | Some queue \<Rightarrow>
          let queue' = (if bt_get queue nonce = Some hash then bt_remove nonce queue else queue)
          in state\<lparr>mp_sender_queues := store_queue sender queue' (mp_sender_queues state)\<rparr>)"

text \<open>The loop of the recomputation: the stale nonces and the new states.\<close>

fun recompute_loop ::
  "tx_map \<Rightarrow> u64 option \<times> bool \<Rightarrow> (u64 \<times> TxHash) list \<Rightarrow> u64 list \<times> (TxHash \<times> replay_queue_state) list" where
  "recompute_loop txs gap [] = ([], [])"
| "recompute_loop txs gap ((nonce, hash) # entries) =
     (if pending_in txs hash
      then let (st, gap') = replay_entry_state gap nonce;
               (stale, updates) = recompute_loop txs gap' entries
           in (stale, (hash, st) # updates)
      else let (stale, updates) = recompute_loop txs gap entries in (nonce # stale, updates))"

definition recompute_sender_queue_states :: "mempool_state \<Rightarrow> Address \<Rightarrow> mempool_state" where
  "recompute_sender_queue_states state sender =
     (case bt_get (mp_sender_queues state) sender of
        None \<Rightarrow> state
      | Some queue \<Rightarrow>
          let entries = bt_entries queue;
              cleared = foldl (\<lambda>txs (_, hash). bt_adjust hash (\<lambda>e. e\<lparr>me_queue_state := None\<rparr>) txs)
                (mp_txs state) entries;
              (stale_nonces, updates) = recompute_loop cleared (None, False) entries;
              queue' = foldl (\<lambda>q nonce. bt_remove nonce q) queue stale_nonces;
              txs' = foldl (\<lambda>txs (hash, st). bt_adjust hash (\<lambda>e. e\<lparr>me_queue_state := Some st\<rparr>) txs)
                cleared updates
          in state\<lparr>mp_sender_queues := store_queue sender queue' (mp_sender_queues state),
               mp_txs := txs'\<rparr>)"

section \<open>Events\<close>

definition location_of :: "mempool_state \<Rightarrow> TxHash \<Rightarrow> Address option \<times> u64 option" where
  "location_of state hash =
     (case bt_get (mp_txs state) hash of
        Some entry \<Rightarrow> (me_sender entry, me_nonce entry) | None \<Rightarrow> (None, None))"

text \<open>\<^verbatim>\<open>if let (Some(sender), Some(nonce)) = (sender, nonce)\<close> with the removal it guards\<close>

definition leave_queue ::
  "Address option \<times> u64 option \<Rightarrow> TxHash \<Rightarrow> mempool_state \<Rightarrow> mempool_state" where
  "leave_queue location hash state =
     (case location of
        (Some sender, Some nonce) \<Rightarrow>
          recompute_sender_queue_states (remove_sender_queue_entry state hash sender nonce) sender
      | _ \<Rightarrow> state)"

definition close_entry :: "tx_lifecycle_status \<Rightarrow> tx_entry \<Rightarrow> tx_entry" where
  "close_entry status entry = entry\<lparr>me_status := status, me_queue_state := None\<rparr>"

definition apply_decoded :: "mempool_state \<Rightarrow> tx_decoded \<Rightarrow> mempool_state \<times> state_transition list" where
  "apply_decoded state decoded =
     (let occupant = (case bt_get (mp_sender_queues state) (dec_sender decoded) of
            None \<Rightarrow> None | Some queue \<Rightarrow> bt_get queue (dec_nonce decoded));
          (state, transitions) =
            (case occupant of
               Some old_hash \<Rightarrow>
                 if old_hash \<noteq> dec_hash decoded
                 then (state\<lparr>mp_txs :=
                         bt_adjust old_hash (close_entry (Replaced (dec_hash decoded))) (mp_txs state)\<rparr>,
                       [ToReplaced old_hash (dec_hash decoded)])
                 else (state, [])
             | None \<Rightarrow> (state, []));
          state = ensure_sender_queue_entry state (dec_hash decoded) (dec_sender decoded) (dec_nonce decoded);
          state = recompute_sender_queue_states state (dec_sender decoded)
      in (state, transitions @ [ToPending (dec_hash decoded)]))"

definition apply_dropped :: "mempool_state \<Rightarrow> tx_dropped \<Rightarrow> mempool_state \<times> state_transition list" where
  "apply_dropped state dropped =
     (let hash = dropped_hash dropped; status = Dropped (dropped_reason dropped);
          location = location_of state hash;
          state = state\<lparr>mp_txs := bt_adjust hash (close_entry status)
            (or_insert hash (unplaced_entry\<lparr>me_status := status\<rparr>) (mp_txs state))\<rparr>
      in (leave_queue location hash state, [ToDropped hash (dropped_reason dropped)]))"

definition apply_confirmed ::
  "(u64 \<Rightarrow> BlockHash \<Rightarrow> tx_lifecycle_status) \<Rightarrow> mempool_state \<Rightarrow> tx_confirmed \<Rightarrow> mempool_state" where
  "apply_confirmed status_of state confirmed =
     (let hash = confirmed_hash confirmed; block = confirmed_block_hash confirmed;
          location = location_of state hash;
          state = state\<lparr>mp_txs :=
            bt_adjust hash (close_entry (status_of (confirmed_block_number confirmed) block))
              (or_insert hash unplaced_entry (mp_txs state))\<rparr>;
          state = leave_queue location hash state
      in state\<lparr>mp_block_confirmations := bt_adjust block (insert hash)
           (or_insert block {} (mp_block_confirmations state))\<rparr>)"

definition apply_replaced :: "mempool_state \<Rightarrow> tx_replaced \<Rightarrow> mempool_state \<times> state_transition list" where
  "apply_replaced state replaced =
     (let hash = replaced_hash replaced; location = location_of state hash;
          state = state\<lparr>mp_txs :=
            bt_adjust hash (close_entry (Replaced (replaced_by replaced))) (mp_txs state)\<rparr>
      in (leave_queue location hash state, [ToReplaced hash (replaced_by replaced)]))"

fun confirmed_in :: "BlockHash \<Rightarrow> tx_lifecycle_status \<Rightarrow> bool" where
  "confirmed_in block (ConfirmedProvisional _ b) \<longleftrightarrow> b = block"
| "confirmed_in block (ConfirmedFinal _ b) \<longleftrightarrow> b = block"
| "confirmed_in block _ \<longleftrightarrow> False"

definition apply_reorg :: "mempool_state \<Rightarrow> tx_reorged \<Rightarrow> mempool_state \<times> state_transition list" where
  "apply_reorg state reorged =
     (let hash = reorged_hash reorged; old_block = reorged_old_block_hash reorged
      in case bt_get (mp_txs state) hash of
           None \<Rightarrow> (state, [])
         | Some entry \<Rightarrow>
             if confirmed_in old_block (me_status entry)
             then
               let state = state\<lparr>mp_txs := bt_adjust hash (\<lambda>e. e\<lparr>me_status := Pending\<rparr>) (mp_txs state)\<rparr>;
                   state =
                     (case (me_sender entry, me_nonce entry) of
                        (Some sender, Some nonce) \<Rightarrow>
                          recompute_sender_queue_states
                            (ensure_sender_queue_entry state hash sender nonce) sender
                      | _ \<Rightarrow> state);
                   state = state\<lparr>mp_block_confirmations :=
                     bt_adjust old_block (\<lambda>hashes. hashes - {hash}) (mp_block_confirmations state)\<rparr>
               in (state, [ReorgReopened hash old_block (reorged_new_block_hash reorged)])
             else (state, []))"

definition apply_ready :: "mempool_state \<Rightarrow> tx_ready \<Rightarrow> mempool_state \<times> state_transition list" where
  "apply_ready state ready =
     (let hash = ready_hash ready; sender = ready_sender ready; nonce = ready_nonce ready;
          state = recompute_sender_queue_states (ensure_sender_queue_entry state hash sender nonce) sender;
          state = state\<lparr>mp_txs :=
            bt_adjust hash (\<lambda>e. e\<lparr>me_queue_state := Some ReplayReady\<rparr>) (mp_txs state)\<rparr>
      in (state, [QueueReady hash sender nonce]))"

definition apply_blocked :: "mempool_state \<Rightarrow> tx_blocked \<Rightarrow> mempool_state \<times> state_transition list" where
  "apply_blocked state blocked =
     (let hash = blocked_hash blocked; sender = blocked_sender blocked; nonce = blocked_nonce blocked;
          state = recompute_sender_queue_states (ensure_sender_queue_entry state hash sender nonce) sender;
          state = (case blocked_expected_nonce blocked of
              Some expected_nonce \<Rightarrow> state\<lparr>mp_txs :=
                bt_adjust hash (\<lambda>e. e\<lparr>me_queue_state := Some (ReplayBlocked expected_nonce)\<rparr>) (mp_txs state)\<rparr>
            | None \<Rightarrow> state)
      in (state, [QueueBlocked hash sender nonce (blocked_expected_nonce blocked)]))"

definition apply_event :: "mempool_state \<Rightarrow> event_envelope \<Rightarrow> mempool_state \<times> state_transition list" where
  "apply_event state event =
     (case ee_payload event of
        TxDecoded decoded \<Rightarrow> apply_decoded state decoded
      | TxDropped dropped \<Rightarrow> apply_dropped state dropped
      | TxReady ready \<Rightarrow> apply_ready state ready
      | TxBlocked blocked \<Rightarrow> apply_blocked state blocked
      | TxConfirmedProvisional confirmed \<Rightarrow>
          (apply_confirmed ConfirmedProvisional state confirmed,
           [ToConfirmedProvisional (confirmed_hash confirmed) (confirmed_block_hash confirmed)])
      | TxConfirmedFinal confirmed \<Rightarrow>
          (apply_confirmed ConfirmedFinal state confirmed,
           [ToConfirmedFinal (confirmed_hash confirmed) (confirmed_block_hash confirmed)])
      | TxReorged reorged \<Rightarrow> apply_reorg state reorged
      | TxReplaced replaced \<Rightarrow> apply_replaced state replaced
      | TxSeen _ \<Rightarrow> (state, [])
      | TxFetched _ \<Rightarrow> (state, [])
      | CandidateQueued _ \<Rightarrow> (state, [])
      | SimDispatched _ \<Rightarrow> (state, [])
      | OppDetected _ \<Rightarrow> (state, [])
      | SimCompleted _ \<Rightarrow> (state, [])
      | AssemblyDecisionApplied _ \<Rightarrow> (state, [])
      | BundleSubmitted _ \<Rightarrow> (state, []))"

definition apply_events :: "mempool_state \<Rightarrow> event_envelope list \<Rightarrow> mempool_state" where
  "apply_events state events = foldl (\<lambda>s e. fst (apply_event s e)) state events"

section \<open>Reports\<close>

definition lifecycle :: "mempool_state \<Rightarrow> TxHash \<Rightarrow> tx_lifecycle_status option" where
  "lifecycle state hash = map_option me_status (bt_get (mp_txs state) hash)"

definition pending_hashes :: "mempool_state \<Rightarrow> TxHash list" where
  "pending_hashes state =
     List.map_filter (\<lambda>(hash, entry). if me_status entry = Pending then Some hash else None)
       (bt_entries (mp_txs state))"

fun report_loop ::
  "tx_map \<Rightarrow> u64 option \<times> bool \<Rightarrow> (u64 \<times> TxHash) list \<Rightarrow> replay_sender_queue_entry list" where
  "report_loop txs gap [] = []"
| "report_loop txs gap ((nonce, hash) # entries) =
     (case bt_get txs hash of
        None \<Rightarrow> report_loop txs gap entries
      | Some entry \<Rightarrow>
          if me_status entry = Pending
          then let (computed, gap') = replay_entry_state gap nonce
               in \<lparr>rqe_hash = hash, rqe_nonce = nonce,
                   rqe_state = (case me_queue_state entry of Some st \<Rightarrow> st | None \<Rightarrow> computed)\<rparr> #
                  report_loop txs gap' entries
          else report_loop txs gap entries)"

definition sender_queues :: "mempool_state \<Rightarrow> replay_sender_queue list" where
  "sender_queues state =
     List.map_filter (\<lambda>(sender, queue).
        let queued = report_loop (mp_txs state) (None, False) (bt_entries queue)
        in if queued = [] then None else Some \<lparr>rsq_sender = sender, rsq_queued = queued\<rparr>)
       (bt_entries (mp_sender_queues state))"

end
