(* ===== verification/Replay_Invariant.thy ===== *)
theory Replay_Invariant
  imports Replay_State
begin

text \<open>
  What every sequence of events keeps of the replayed mempool state: the shape of the sender
  queues for any stream, and their agreement with the transaction entries for streams that
  name each transaction with one sender and nonce.
\<close>

section \<open>Views of the state\<close>

text \<open>The transaction in a sender's slot, and what an entry says beside its queue state.\<close>

definition slot_in :: "slot_map \<Rightarrow> Address \<Rightarrow> u64 \<Rightarrow> TxHash option" where
  "slot_in queues sender nonce = Option.bind (bt_get queues sender) (\<lambda>q. bt_get q nonce)"

abbreviation slot_of :: "mempool_state \<Rightarrow> Address \<Rightarrow> u64 \<Rightarrow> TxHash option" where
  "slot_of state \<equiv> slot_in (mp_sender_queues state)"

abbreviation is_pending :: "mempool_state \<Rightarrow> TxHash \<Rightarrow> bool" where
  "is_pending state \<equiv> pending_in (mp_txs state)"

definition core :: "tx_entry \<Rightarrow> Address option \<times> u64 option \<times> tx_lifecycle_status" where
  "core e = (me_sender e, me_nonce e, me_status e)"

definition core_in :: "tx_map \<Rightarrow> TxHash \<Rightarrow> (Address option \<times> u64 option \<times> tx_lifecycle_status) option" where
  "core_in txs h = map_option core (bt_get txs h)"

lemma pending_in_core: "pending_in txs h \<longleftrightarrow> (\<exists>a n. core_in txs h = Some (a, n, Pending))"
  by (auto simp: pending_in_def core_in_def core_def split: option.splits)

lemma location_core:
  "location_of s h = (case core_in (mp_txs s) h of Some (a, n, _) \<Rightarrow> (a, n) | None \<Rightarrow> (None, None))"
  by (simp add: location_of_def core_in_def core_def split: option.split)

lemma lifecycle_core: "lifecycle s h = map_option (snd \<circ> snd) (core_in (mp_txs s) h)"
  by (simp add: lifecycle_def core_in_def core_def option.map_comp comp_def)

lemma core_in_adjust:
  assumes "\<And>e. core (f e) = g (core e)"
  shows "core_in (bt_adjust h f txs) h' =
    (if h' = h then map_option g (core_in txs h) else core_in txs h')"
  using assms by (simp add: core_in_def option.map_comp comp_def)

lemma core_in_adjust_state [simp]:
  "core_in (bt_adjust h (\<lambda>e. e\<lparr>me_queue_state := st\<rparr>) txs) h' = core_in txs h'"
  by (subst core_in_adjust [where g = "\<lambda>c. c"]) (auto simp: core_def option.map_ident)

lemma core_in_close [simp]:
  "core_in (bt_adjust h (close_entry status) txs) h' =
    (if h' = h then map_option (\<lambda>(a, n, _). (a, n, status)) (core_in txs h) else core_in txs h')"
  by (rule core_in_adjust) (simp add: core_def close_entry_def)

lemma core_in_reopen [simp]:
  "core_in (bt_adjust h (\<lambda>e. e\<lparr>me_status := Pending\<rparr>) txs) h' =
    (if h' = h then map_option (\<lambda>(a, n, _). (a, n, Pending)) (core_in txs h) else core_in txs h')"
  by (rule core_in_adjust) (simp add: core_def)

lemma core_in_or_insert [simp]:
  "core_in (or_insert h e txs) h' =
    (if h' = h \<and> core_in txs h = None then Some (core e) else core_in txs h')"
  by (simp add: core_in_def or_insert_def bt_contains_def)

section \<open>The slots\<close>

lemma slot_in_store:
  "slot_in (store_queue sender queue queues) s n =
    (if s = sender then bt_get queue n else slot_in queues s n)"
  by (simp add: slot_in_def store_queue_def)

lemma slot_of_ensure [simp]:
  "slot_of (ensure_sender_queue_entry state h sender nonce) s n =
    (if s = sender \<and> n = nonce then Some h else slot_of state s n)"
  by (auto simp: slot_in_def ensure_sender_queue_entry_def or_insert_def bt_contains_def)

lemma core_ensure [simp]:
  "core_in (mp_txs (ensure_sender_queue_entry state h sender nonce)) h' =
    (if h' = h then Some (Some sender, Some nonce, Pending) else core_in (mp_txs state) h')"
proof -
  have "core_in (bt_adjust h
      (\<lambda>e. e\<lparr>me_sender := Some sender, me_nonce := Some nonce, me_status := Pending\<rparr>) txs) h' =
    (if h' = h then map_option (\<lambda>_. (Some sender, Some nonce, Pending)) (core_in txs h)
     else core_in txs h')" for txs
    by (rule core_in_adjust) (simp add: core_def)
  then show ?thesis by (auto simp: ensure_sender_queue_entry_def core_def)
qed

lemma slot_of_remove [simp]:
  "slot_of (remove_sender_queue_entry state h sender nonce) s n =
    (if s = sender \<and> n = nonce \<and> slot_of state s n = Some h then None else slot_of state s n)"
  by (auto simp: remove_sender_queue_entry_def slot_in_store Let_def split: option.split)
    (auto simp: slot_in_def)

lemma txs_remove [simp]: "mp_txs (remove_sender_queue_entry state h sender nonce) = mp_txs state"
  by (simp add: remove_sender_queue_entry_def Let_def split: option.split)

section \<open>The recomputation\<close>

lemma core_fold_adjust_state [simp]:
  "core_in (foldl (\<lambda>txs (h, st). bt_adjust h (\<lambda>e. e\<lparr>me_queue_state := Some st\<rparr>) txs) txs us) h =
    core_in txs h"
  "core_in (foldl (\<lambda>txs (n, h). bt_adjust h (\<lambda>e. e\<lparr>me_queue_state := None\<rparr>) txs) txs es) h =
    core_in txs h"
  by (induction us arbitrary: txs, simp_all add: case_prod_unfold)
    (induction es arbitrary: txs, simp_all add: case_prod_unfold)

lemma recompute_loop_stale:
  "fst (recompute_loop txs gap es) = map fst (filter (\<lambda>(n, h). \<not> pending_in txs h) es)"
proof (induction es arbitrary: gap)
  case (Cons e es)
  then show ?case by (cases e) (simp add: case_prod_unfold Let_def)
qed simp

lemma recompute_loop_updates:
  "snd (recompute_loop txs gap es) =
    (let live = filter (\<lambda>(n, h). pending_in txs h) es
     in zip (map snd live) (fst (map_state replay_entry_state gap (map fst live))))"
proof (induction es arbitrary: gap)
  case (Cons e es)
  then show ?case by (cases e) (simp add: case_prod_unfold Let_def)
qed simp

lemma bt_get_foldl_remove:
  "bt_get (foldl (\<lambda>q n. bt_remove n q) q ns) n = (if n \<in> set ns then None else bt_get q n)"
  by (induction ns arbitrary: q) simp_all

lemma core_recompute [simp]:
  "core_in (mp_txs (recompute_sender_queue_states state sender)) h = core_in (mp_txs state) h"
  by (simp add: recompute_sender_queue_states_def case_prod_unfold Let_def split: option.split)
    (metis core_fold_adjust_state [unfolded case_prod_unfold])

lemma pending_in_cong: "core_in txs h = core_in txs' h \<Longrightarrow> pending_in txs h = pending_in txs' h"
  by (simp add: pending_in_core)

lemma slot_of_recompute [simp]:
  "slot_of (recompute_sender_queue_states state sender) s n =
    (case slot_of state s n of
       None \<Rightarrow> None
     | Some h \<Rightarrow> if s = sender \<and> \<not> is_pending state h then None else Some h)"
proof (cases "bt_get (mp_sender_queues state) sender")
  case None
  then show ?thesis
    by (auto simp: recompute_sender_queue_states_def slot_in_def split: option.split)
next
  case (Some queue)
  let ?txs = "foldl (\<lambda>txs (_, hash). bt_adjust hash (\<lambda>e. e\<lparr>me_queue_state := None\<rparr>) txs)
    (mp_txs state) (bt_entries queue)"
  have "pending_in ?txs h = is_pending state h" for h by (rule pending_in_cong) simp
  then have stale: "n \<in> set (fst (recompute_loop ?txs (None, False) (bt_entries queue))) \<longleftrightarrow>
      (\<exists>h. bt_get queue n = Some h \<and> \<not> is_pending state h)"
    by (force simp: recompute_loop_stale bt.in_entries_iff)
  have "slot_of (recompute_sender_queue_states state sender) s n =
      (if s = sender then (if n \<in> set (fst (recompute_loop ?txs (None, False) (bt_entries queue)))
         then None else bt_get queue n) else slot_of state s n)"
    using Some
    by (simp add: recompute_sender_queue_states_def case_prod_unfold Let_def slot_in_store
        bt_get_foldl_remove)
  then show ?thesis
    using Some stale by (auto simp: slot_in_def split: option.split)
qed

section \<open>Events on the views\<close>

lemma core_leave [simp]: "core_in (mp_txs (leave_queue loc h state)) h' = core_in (mp_txs state) h'"
  by (simp add: leave_queue_def split: prod.split option.split)

text \<open>The transactions that a purge of a sender's queue keeps.\<close>

definition purge :: "mempool_state \<Rightarrow> Address \<Rightarrow> Address \<Rightarrow> TxHash option \<Rightarrow> TxHash option" where
  "purge state sender s occupant =
     (case occupant of None \<Rightarrow> None
      | Some h \<Rightarrow> if s = sender \<and> \<not> is_pending state h then None else Some h)"

lemma purge_Some:
  "purge state sender s occupant = Some h \<longleftrightarrow>
    occupant = Some h \<and> (s = sender \<longrightarrow> is_pending state h)"
  by (auto simp: purge_def split: option.splits)

lemma slot_of_leave:
  "slot_of (leave_queue loc h state) s n =
    (case loc of
       (Some sender, Some nonce) \<Rightarrow>
         purge state sender s
           (if s = sender \<and> n = nonce \<and> slot_of state s n = Some h then None else slot_of state s n)
     | _ \<Rightarrow> slot_of state s n)"
  by (simp add: leave_queue_def purge_def split: prod.split option.split)

text \<open>
  What an operation does to the slots and to the entries, by the kind of the event: a
  transaction is placed, closed with a final status, or reopened.
\<close>

lemma slot_place:
  "slot_of (recompute_sender_queue_states (ensure_sender_queue_entry state h sender nonce) sender) s n =
    purge (ensure_sender_queue_entry state h sender nonce) sender s
      (if s = sender \<and> n = nonce then Some h else slot_of state s n)"
  by (simp add: purge_def)

definition rename_status ::
  "tx_lifecycle_status \<Rightarrow> Address option \<times> u64 option \<times> tx_lifecycle_status
    \<Rightarrow> Address option \<times> u64 option \<times> tx_lifecycle_status" where
  "rename_status st c = (fst c, fst (snd c), st)"

text \<open>The entries after an event, without their queue states.\<close>

fun core_after ::
  "mempool_state \<Rightarrow> event_payload \<Rightarrow> TxHash
    \<Rightarrow> (Address option \<times> u64 option \<times> tx_lifecycle_status) option" where
  "core_after s (TxDecoded d) h =
     (if h = dec_hash d then Some (Some (dec_sender d), Some (dec_nonce d), Pending)
      else if slot_of s (dec_sender d) (dec_nonce d) = Some h
      then map_option (rename_status (Replaced (dec_hash d))) (core_in (mp_txs s) h)
      else core_in (mp_txs s) h)"
| "core_after s (TxReady r) h =
     (if h = ready_hash r then Some (Some (ready_sender r), Some (ready_nonce r), Pending)
      else core_in (mp_txs s) h)"
| "core_after s (TxBlocked b) h =
     (if h = blocked_hash b then Some (Some (blocked_sender b), Some (blocked_nonce b), Pending)
      else core_in (mp_txs s) h)"
| "core_after s (TxDropped d) h =
     (if h = dropped_hash d
      then Some (rename_status (Dropped (dropped_reason d))
        (case core_in (mp_txs s) h of Some c \<Rightarrow> c | None \<Rightarrow> (None, None, Pending)))
      else core_in (mp_txs s) h)"
| "core_after s (TxConfirmedProvisional c) h =
     (if h = confirmed_hash c
      then Some (rename_status (ConfirmedProvisional (confirmed_block_number c) (confirmed_block_hash c))
        (case core_in (mp_txs s) h of Some c \<Rightarrow> c | None \<Rightarrow> (None, None, Pending)))
      else core_in (mp_txs s) h)"
| "core_after s (TxConfirmedFinal c) h =
     (if h = confirmed_hash c
      then Some (rename_status (ConfirmedFinal (confirmed_block_number c) (confirmed_block_hash c))
        (case core_in (mp_txs s) h of Some c \<Rightarrow> c | None \<Rightarrow> (None, None, Pending)))
      else core_in (mp_txs s) h)"
| "core_after s (TxReplaced r) h =
     (if h = replaced_hash r
      then map_option (rename_status (Replaced (replaced_by r))) (core_in (mp_txs s) h)
      else core_in (mp_txs s) h)"
| "core_after s (TxReorged r) h =
     (if h = reorged_hash r
      then map_option (\<lambda>c. if confirmed_in (reorged_old_block_hash r) (snd (snd c))
         then rename_status Pending c else c) (core_in (mp_txs s) h)
      else core_in (mp_txs s) h)"
| "core_after s _ h = core_in (mp_txs s) h"

text \<open>The slot that an event fills.\<close>

fun placed_by :: "mempool_state \<Rightarrow> event_payload \<Rightarrow> (TxHash \<times> Address \<times> u64) option" where
  "placed_by s (TxDecoded d) = Some (dec_hash d, dec_sender d, dec_nonce d)"
| "placed_by s (TxReady r) = Some (ready_hash r, ready_sender r, ready_nonce r)"
| "placed_by s (TxBlocked b) = Some (blocked_hash b, blocked_sender b, blocked_nonce b)"
| "placed_by s (TxReorged r) =
     (case core_in (mp_txs s) (reorged_hash r) of
        Some (Some a, Some n, st) \<Rightarrow>
          if confirmed_in (reorged_old_block_hash r) st then Some (reorged_hash r, a, n) else None
      | _ \<Rightarrow> None)"
| "placed_by s _ = None"

definition slot_after :: "mempool_state \<Rightarrow> event_payload \<Rightarrow> Address \<Rightarrow> u64 \<Rightarrow> TxHash option" where
  "slot_after s p a n =
     (case placed_by s p of
        Some (h, a', n') \<Rightarrow> if a = a' \<and> n = n' then Some h else slot_of s a n
      | None \<Rightarrow> slot_of s a n)"

lemma core_in_None: "core_in txs h = None \<longleftrightarrow> bt_get txs h = None"
  by (simp add: core_in_def)

lemma core_apply:
  "core_in (mp_txs (fst (apply_event s e))) h = core_after s (ee_payload e) h"
proof (cases "ee_payload e")
  case (TxDecoded d)
  have occupant: "(case bt_get (mp_sender_queues s) (dec_sender d) of
      None \<Rightarrow> None | Some queue \<Rightarrow> bt_get queue (dec_nonce d)) =
    slot_of s (dec_sender d) (dec_nonce d)"
    by (simp add: slot_in_def split: option.split)
  show ?thesis
    by (auto simp: TxDecoded apply_event_def apply_decoded_def occupant Let_def
        rename_status_def [abs_def] case_prod_unfold split: option.split)
next
  case (TxReorged r)
  show ?thesis
  proof (cases "bt_get (mp_txs s) (reorged_hash r)")
    case None
    then have "core_in (mp_txs s) (reorged_hash r) = None" by (simp add: core_in_def)
    then show ?thesis using None by (simp add: TxReorged apply_event_def apply_reorg_def)
  next
    case (Some entry)
    then have "core_in (mp_txs s) (reorged_hash r) =
        Some (me_sender entry, me_nonce entry, me_status entry)"
      by (simp add: core_in_def core_def)
    then show ?thesis
      using Some by (simp add: TxReorged apply_event_def apply_reorg_def Let_def rename_status_def
          split: option.split)
  qed
qed (auto simp: apply_event_def apply_dropped_def apply_confirmed_def apply_replaced_def
    apply_ready_def apply_blocked_def Let_def rename_status_def [abs_def] unplaced_entry_def core_def
    case_prod_unfold split: option.split)

text \<open>
  An event fills its slot, and otherwise a slot only ever loses a transaction that is not
  pending any more.
\<close>

definition slots_follow :: "mempool_state \<Rightarrow> event_payload \<Rightarrow> mempool_state \<Rightarrow> bool" where
  "slots_follow s p s' \<longleftrightarrow>
     (\<forall>a n h. (slot_of s' a n = Some h \<longrightarrow> slot_after s p a n = Some h) \<and>
        (slot_after s p a n = Some h \<and> is_pending s' h \<longrightarrow> slot_of s' a n = Some h))"

lemma slots_follow_place:
  assumes "placed_by s p = Some (h, a, n)" and "slot_of t = slot_of s"
    and "slot_of s' = slot_of (recompute_sender_queue_states (ensure_sender_queue_entry t h a n) a)"
    and "\<And>h'. is_pending s' h' = is_pending (ensure_sender_queue_entry t h a n) h'"
  shows "slots_follow s p s'"
  using assms(1,4)
  by (auto simp: slots_follow_def slot_after_def assms(2,3) split: option.splits if_splits)

lemma slots_follow_leave:
  assumes "placed_by s p = None" and "slot_of t = slot_of s"
    and "slot_of s' = slot_of (leave_queue loc h t)"
    and "\<And>h'. is_pending s' h' = is_pending t h'" and "\<not> is_pending t h \<or> loc = (None, None)"
  shows "slots_follow s p s'"
  using assms(1,4,5)
  by (auto simp: slots_follow_def slot_after_def assms(2,3) slot_of_leave purge_Some
      split: option.splits prod.splits if_splits)

lemma slots_follow_same:
  assumes "placed_by s p = None" and "slot_of s' = slot_of s"
  shows "slots_follow s p s'"
  using assms by (simp add: slots_follow_def slot_after_def)

lemma is_pending_leave: "is_pending (leave_queue loc h t) h' = is_pending t h'"
  by (simp add: pending_in_core)

lemma slot_apply: "slots_follow s (ee_payload e) (fst (apply_event s e))"
proof (cases "ee_payload e")
  case (TxDecoded d)
  let ?t = "fst (case (case bt_get (mp_sender_queues s) (dec_sender d) of
      None \<Rightarrow> None | Some queue \<Rightarrow> bt_get queue (dec_nonce d)) of
    Some old_hash \<Rightarrow>
      if old_hash \<noteq> dec_hash d
      then (s\<lparr>mp_txs := bt_adjust old_hash (close_entry (Replaced (dec_hash d))) (mp_txs s)\<rparr>,
        [ToReplaced old_hash (dec_hash d)])
      else (s, [])
    | None \<Rightarrow> (s, []))"
  have "fst (apply_event s e) = recompute_sender_queue_states
      (ensure_sender_queue_entry ?t (dec_hash d) (dec_sender d) (dec_nonce d)) (dec_sender d)"
    by (simp add: TxDecoded apply_event_def apply_decoded_def Let_def case_prod_unfold)
  moreover have "slot_of ?t = slot_of s" by (simp split: option.split)
  ultimately show ?thesis
    by (intro slots_follow_place [of _ _ _ _ _ ?t]) (simp_all add: TxDecoded pending_in_core)
next
  case (TxReady r)
  then show ?thesis
    by (intro slots_follow_place [of _ _ _ _ _ s])
      (simp_all add: apply_event_def apply_ready_def Let_def pending_in_core)
next
  case (TxBlocked b)
  then show ?thesis
    by (intro slots_follow_place [of _ _ _ _ _ s])
      (auto simp: apply_event_def apply_blocked_def Let_def pending_in_core split: option.split)
next
  case (TxDropped d)
  let ?h = "dropped_hash d" and ?st = "Dropped (dropped_reason d)"
  let ?t = "s\<lparr>mp_txs := bt_adjust ?h (close_entry ?st)
    (or_insert ?h (unplaced_entry\<lparr>me_status := ?st\<rparr>) (mp_txs s))\<rparr>"
  have "fst (apply_event s e) = leave_queue (location_of s ?h) ?h ?t"
    by (simp add: TxDropped apply_event_def apply_dropped_def Let_def)
  then show ?thesis
    by (intro slots_follow_leave [of _ _ ?t _ "location_of s ?h" ?h])
      (auto simp: TxDropped pending_in_core)
next
  case (TxConfirmedProvisional c)
  then show ?thesis
    by (intro slots_follow_leave [of _ _ "s\<lparr>mp_txs := bt_adjust (confirmed_hash c)
        (close_entry (ConfirmedProvisional (confirmed_block_number c) (confirmed_block_hash c)))
        (or_insert (confirmed_hash c) unplaced_entry (mp_txs s))\<rparr>"
        _ "location_of s (confirmed_hash c)" "confirmed_hash c"])
      (auto simp: apply_event_def apply_confirmed_def Let_def pending_in_core)
next
  case (TxConfirmedFinal c)
  then show ?thesis
    by (intro slots_follow_leave [of _ _ "s\<lparr>mp_txs := bt_adjust (confirmed_hash c)
        (close_entry (ConfirmedFinal (confirmed_block_number c) (confirmed_block_hash c)))
        (or_insert (confirmed_hash c) unplaced_entry (mp_txs s))\<rparr>"
        _ "location_of s (confirmed_hash c)" "confirmed_hash c"])
      (auto simp: apply_event_def apply_confirmed_def Let_def pending_in_core)
next
  case (TxReplaced r)
  then show ?thesis
    by (intro slots_follow_leave [of _ _ "s\<lparr>mp_txs := bt_adjust (replaced_hash r)
        (close_entry (Replaced (replaced_by r))) (mp_txs s)\<rparr>"
        _ "location_of s (replaced_hash r)" "replaced_hash r"])
      (auto simp: apply_event_def apply_replaced_def Let_def pending_in_core)
next
  case (TxReorged r)
  let ?h = "reorged_hash r"
  show ?thesis
  proof (cases "placed_by s (TxReorged r)")
    case None
    then show ?thesis
      by (intro slots_follow_same)
        (auto simp: TxReorged apply_event_def apply_reorg_def Let_def core_in_def core_def
          split: option.splits)
  next
    case (Some place)
    then obtain a n entry where place: "place = (?h, a, n)" and
      entry: "bt_get (mp_txs s) ?h = Some entry" "me_sender entry = Some a" "me_nonce entry = Some n"
        "confirmed_in (reorged_old_block_hash r) (me_status entry)"
      by (auto simp: core_in_def core_def split: option.splits if_splits)
    show ?thesis
      by (intro slots_follow_place [of _ _ ?h a n
            "s\<lparr>mp_txs := bt_adjust ?h (\<lambda>e. e\<lparr>me_status := Pending\<rparr>) (mp_txs s)\<rparr>"])
        (use Some entry in \<open>simp_all add: TxReorged place apply_event_def apply_reorg_def Let_def pending_in_core\<close>)
  qed
qed (rule slots_follow_same; simp add: apply_event_def)+

lemma slot_applyE:
  assumes "slot_of (fst (apply_event s e)) a n = Some h"
  obtains "placed_by s (ee_payload e) = Some (h, a, n)" | "slot_of s a n = Some h"
proof -
  have after: "slot_after s (ee_payload e) a n = Some h"
    using slot_apply [of s e] assms unfolding slots_follow_def by blast
  show ?thesis
  proof (cases "placed_by s (ee_payload e)")
    case None
    then show ?thesis using after that(2) by (simp add: slot_after_def)
  next
    case (Some place)
    then show ?thesis
      using after that by (cases place) (auto simp: slot_after_def split: if_splits)
  qed
qed

section \<open>Invariants\<close>

text \<open>No sender keeps an empty queue, and every queued transaction is known.\<close>

definition no_empty_queue :: "mempool_state \<Rightarrow> bool" where
  "no_empty_queue s \<longleftrightarrow> (\<forall>a. bt_get (mp_sender_queues s) a \<noteq> Some bt_empty)"

lemma no_empty_store: 
  "\<forall>a. bt_get queues a \<noteq> Some bt_empty \<Longrightarrow> bt_get (store_queue sender q queues) a \<noteq> Some bt_empty"
  by (simp add: store_queue_def)

lemma insert_not_empty: "bt_insert k v m \<noteq> bt_empty"
  by (metis bt.get_empty bt.get_insert option.distinct(1))

lemma no_empty_ops:
  assumes "no_empty_queue s"
  shows "no_empty_queue (ensure_sender_queue_entry s h a n)"
    and "no_empty_queue (recompute_sender_queue_states s a)"
    and "no_empty_queue (leave_queue loc h s)"
    and "no_empty_queue (s\<lparr>mp_txs := txs\<rparr>)"
    and "no_empty_queue (s\<lparr>mp_block_confirmations := bs\<rparr>)"
proof -
  show "no_empty_queue (s\<lparr>mp_txs := txs\<rparr>)" "no_empty_queue (s\<lparr>mp_block_confirmations := bs\<rparr>)"
    using assms by (simp_all add: no_empty_queue_def)
  show "no_empty_queue (ensure_sender_queue_entry s h a n)"
    using assms by (auto simp: no_empty_queue_def ensure_sender_queue_entry_def or_insert_def
        insert_not_empty)
  have recompute: "no_empty_queue (recompute_sender_queue_states t a)" if "no_empty_queue t" for t a
    using that no_empty_store [of "mp_sender_queues t"]
    by (simp add: no_empty_queue_def recompute_sender_queue_states_def case_prod_unfold Let_def
        split: option.split)
  then show "no_empty_queue (recompute_sender_queue_states s a)" using assms by blast
  have "no_empty_queue (remove_sender_queue_entry s h a n)" for a n
    using assms no_empty_store [of "mp_sender_queues s"]
    by (simp add: no_empty_queue_def remove_sender_queue_entry_def Let_def split: option.split)
  then show "no_empty_queue (leave_queue loc h s)"
    using assms recompute by (simp add: leave_queue_def split: prod.split option.split)
qed

lemma no_empty_apply: "no_empty_queue s \<Longrightarrow> no_empty_queue (fst (apply_event s e))"
  by (cases "ee_payload e")
    (simp_all add: apply_event_def apply_decoded_def apply_dropped_def apply_ready_def
      apply_blocked_def apply_confirmed_def apply_reorg_def apply_replaced_def Let_def
      no_empty_ops split: option.split)

definition queues_known :: "mempool_state \<Rightarrow> bool" where
  "queues_known s \<longleftrightarrow>
     no_empty_queue s \<and> (\<forall>a n h. slot_of s a n = Some h \<longrightarrow> core_in (mp_txs s) h \<noteq> None)"

lemma core_after_known: "core_after s p h = None \<Longrightarrow> core_in (mp_txs s) h = None"
  by (cases p) (auto split: if_splits)

lemma placed_pending:
  assumes "placed_by s p = Some (h, a, n)"
  shows "core_after s p h = Some (Some a, Some n, Pending)"
proof (cases p)
  case (TxReorged r)
  then obtain st where "core_in (mp_txs s) (reorged_hash r) = Some (Some a, Some n, st)"
    and "confirmed_in (reorged_old_block_hash r) st" and "h = reorged_hash r"
    using assms by (auto split: option.splits if_splits)
  then show ?thesis by (simp add: TxReorged rename_status_def)
qed (use assms in auto)

lemma queues_knownD: "queues_known s \<Longrightarrow> slot_of s a n = Some h \<Longrightarrow> core_in (mp_txs s) h \<noteq> None"
  unfolding queues_known_def by (elim conjE allE [of _ a] allE [of _ n] allE [of _ h] mp)

lemma queues_known_apply:
  assumes "queues_known s"
  shows "queues_known (fst (apply_event s e))"
proof -
  let ?s' = "fst (apply_event s e)"
  have "core_in (mp_txs ?s') h \<noteq> None" if slot: "slot_of ?s' a n = Some h" for a n h
  proof -
    consider "placed_by s (ee_payload e) = Some (h, a, n)" | "slot_of s a n = Some h"
      using slot by (rule slot_applyE)
    then show ?thesis
    proof cases
      case 1
      then show ?thesis by (simp add: core_apply placed_pending)
    next
      case 2
      have "core_in (mp_txs s) h \<noteq> None" by (rule queues_knownD [OF assms 2])
      then show ?thesis unfolding core_apply by (rule contrapos_nn) (rule core_after_known)
    qed
  qed
  then show ?thesis using assms no_empty_apply by (simp add: queues_known_def)
qed

interpretation replay: started_system "\<lambda>s e. fst (apply_event s e)" queues_known default_mempool_state
proof
  show "queues_known (fst (apply_event s e))" if "queues_known s" for s e
    using that by (rule queues_known_apply)
  show "queues_known default_mempool_state"
    by (simp add: queues_known_def no_empty_queue_def default_mempool_state_def slot_in_def)
qed

text \<open>
  A stream that names every transaction with one sender and nonce: then a queued
  transaction is pending and stands in its own slot.
\<close>

fun named_at :: "(TxHash \<Rightarrow> Address \<times> u64) \<Rightarrow> event_payload \<Rightarrow> bool" where
  "named_at loc (TxDecoded d) \<longleftrightarrow> loc (dec_hash d) = (dec_sender d, dec_nonce d)"
| "named_at loc (TxReady r) \<longleftrightarrow> loc (ready_hash r) = (ready_sender r, ready_nonce r)"
| "named_at loc (TxBlocked b) \<longleftrightarrow> loc (blocked_hash b) = (blocked_sender b, blocked_nonce b)"
| "named_at loc _ \<longleftrightarrow> True"

definition at_home ::
  "(TxHash \<Rightarrow> Address \<times> u64) \<Rightarrow> TxHash \<Rightarrow> Address option \<times> u64 option \<times> tx_lifecycle_status \<Rightarrow> bool" where
  "at_home loc h c \<longleftrightarrow>
     fst c = None \<and> fst (snd c) = None \<or>
     fst c = Some (fst (loc h)) \<and> fst (snd c) = Some (snd (loc h))"

definition located :: "(TxHash \<Rightarrow> Address \<times> u64) \<Rightarrow> mempool_state \<Rightarrow> bool" where
  "located loc s \<longleftrightarrow>
     (\<forall>a n h. slot_of s a n = Some h \<longrightarrow> loc h = (a, n)) \<and>
     (\<forall>h. pred_option (at_home loc h) (core_in (mp_txs s) h))"

lemma at_home_rename [simp]: "at_home loc h (rename_status st c) \<longleftrightarrow> at_home loc h c"
  by (simp add: at_home_def rename_status_def)

definition queued_pending :: "mempool_state \<Rightarrow> bool" where
  "queued_pending s \<longleftrightarrow>
     (\<forall>a n h. slot_of s a n = Some h \<longrightarrow> core_in (mp_txs s) h = Some (Some a, Some n, Pending))"

lemma core_after_located:
  assumes "located loc s" and "named_at loc p"
  shows "pred_option (at_home loc h) (core_after s p h)"
proof -
  have "pred_option (at_home loc h) (core_in (mp_txs s) h)" using assms(1) by (simp add: located_def)
  then show ?thesis
    using assms(2)
    by (cases p; cases "core_in (mp_txs s) h")
      (auto simp: at_home_def [of _ _ "(Some _, _)"] at_home_def [of _ _ "(None, _)"])
qed

lemma located_apply:
  assumes "located loc s" and "named_at loc (ee_payload e)"
  shows "located loc (fst (apply_event s e))"
  unfolding located_def
proof (intro conjI allI impI)
  fix h
  show "pred_option (at_home loc h) (core_in (mp_txs (fst (apply_event s e))) h)"
    unfolding core_apply by (rule core_after_located [OF assms])
next
  fix a n h
  assume "slot_of (fst (apply_event s e)) a n = Some h"
  then consider "placed_by s (ee_payload e) = Some (h, a, n)" | "slot_of s a n = Some h"
    by (rule slot_applyE)
  then show "loc h = (a, n)"
  proof cases
    case 1
    then show ?thesis
      using core_after_located [OF assms, of h] by (simp add: placed_pending at_home_def prod_eq_iff)
  next
    case 2
    then show ?thesis using assms(1) by (simp add: located_def)
  qed
qed

lemma leave_gone: "slot_of (leave_queue (Some a, Some n) h t) a n \<noteq> Some h"
  by (simp add: slot_of_leave purge_Some)

text \<open>A queued transaction that an event closes leaves its slot.\<close>

lemma closed_leaves:
  assumes loc: "located loc s" and q: "queued_pending s" and named: "named_at loc (ee_payload e)"
    and slot: "slot_of s a n = Some h" and stays: "slot_of (fst (apply_event s e)) a n = Some h"
    and unplaced: "placed_by s (ee_payload e) \<noteq> Some (h, a, n)"
  shows "core_after s (ee_payload e) h = Some (Some a, Some n, Pending)"
proof -
  have core: "core_in (mp_txs s) h = Some (Some a, Some n, Pending)"
    using q slot by (simp add: queued_pending_def)
  then have home: "location_of s h = (Some a, Some n)" by (simp add: location_core)
  have at: "loc h = (a, n)" using loc slot by (simp add: located_def)
  have after: "slot_after s (ee_payload e) a n = Some h"
    using slot_apply [of s e] stays unfolding slots_follow_def by blast
  show ?thesis
  proof (cases "ee_payload e")
    case (TxDecoded d)
    have home: "h = dec_hash d \<longrightarrow> a = dec_sender d \<and> n = dec_nonce d"
      using named at by (auto simp: TxDecoded)
    then have other: "h \<noteq> dec_hash d" using unplaced by (auto simp: TxDecoded)
    have "slot_of s (dec_sender d) (dec_nonce d) \<noteq> Some h"
    proof
      assume "slot_of s (dec_sender d) (dec_nonce d) = Some h"
      then have "(dec_sender d, dec_nonce d) = (a, n)" using loc at by (simp add: located_def)
      then show False using after other by (simp add: TxDecoded slot_after_def)
    qed
    then show ?thesis using core other by (simp add: TxDecoded)
  next
    case (TxDropped d)
    have "h \<noteq> dropped_hash d"
      using stays leave_gone home by (auto simp: TxDropped apply_event_def apply_dropped_def Let_def)
    then show ?thesis using core by (simp add: TxDropped)
  next
    case (TxConfirmedProvisional c)
    have "h \<noteq> confirmed_hash c"
      using stays leave_gone home
      by (auto simp: TxConfirmedProvisional apply_event_def apply_confirmed_def Let_def)
    then show ?thesis using core by (simp add: TxConfirmedProvisional)
  next
    case (TxConfirmedFinal c)
    have "h \<noteq> confirmed_hash c"
      using stays leave_gone home
      by (auto simp: TxConfirmedFinal apply_event_def apply_confirmed_def Let_def)
    then show ?thesis using core by (simp add: TxConfirmedFinal)
  next
    case (TxReplaced r)
    have "h \<noteq> replaced_hash r"
      using stays leave_gone home by (auto simp: TxReplaced apply_event_def apply_replaced_def Let_def)
    then show ?thesis using core by (simp add: TxReplaced)
  next
    case (TxReady r)
    then have "h \<noteq> ready_hash r" using named at unplaced by auto
    then show ?thesis using core by (simp add: TxReady)
  next
    case (TxBlocked b)
    then have "h \<noteq> blocked_hash b" using named at unplaced by auto
    then show ?thesis using core by (simp add: TxBlocked)
  next
    case (TxReorged r)
    then show ?thesis using core by (cases "h = reorged_hash r") simp_all
  qed (use core in auto)
qed

lemma queued_pending_apply:
  assumes "located loc s" and "queued_pending s" and "named_at loc (ee_payload e)"
  shows "queued_pending (fst (apply_event s e))"
  unfolding queued_pending_def
proof (intro allI impI)
  fix a n h
  assume slot: "slot_of (fst (apply_event s e)) a n = Some h"
  show "core_in (mp_txs (fst (apply_event s e))) h = Some (Some a, Some n, Pending)"
  proof (cases "placed_by s (ee_payload e) = Some (h, a, n)")
    case True
    then show ?thesis by (simp add: core_apply placed_pending)
  next
    case False
    then have "slot_of s a n = Some h" using slot by (auto elim: slot_applyE)
    then show ?thesis using closed_leaves [OF assms _ slot False] by (simp add: core_apply)
  qed
qed

lemma located_default: "located loc default_mempool_state"
  and queued_pending_default: "queued_pending default_mempool_state"
  by (simp_all add: located_def queued_pending_def default_mempool_state_def slot_in_def core_in_def)

lemma located_run:
  assumes "list_all (\<lambda>e. named_at loc (ee_payload e)) es"
  shows "located loc (apply_events default_mempool_state es) \<and>
    queued_pending (apply_events default_mempool_state es)"
  using assms
proof (induction es rule: rev_induct)
  case Nil
  then show ?case by (simp add: apply_events_def located_default queued_pending_default)
next
  case (snoc e es)
  then show ?case by (simp add: apply_events_def located_apply queued_pending_apply [of loc])
qed

section \<open>The report\<close>

lemma report_loop_entries:
  "map (\<lambda>r. (rqe_nonce r, rqe_hash r)) (report_loop txs gap es) =
    filter (\<lambda>(n, h). pending_in txs h) es"
proof (induction es arbitrary: gap)
  case (Cons e es)
  then show ?case
    by (cases e) (simp add: pending_in_def case_prod_unfold Let_def split: option.split)
qed simp

lemma bt_entries_slot:
  "bt_get (mp_sender_queues s) a = Some q \<Longrightarrow> (n, h) \<in> set (bt_entries q) \<longleftrightarrow> slot_of s a n = Some h"
  by (simp add: bt.in_entries_iff slot_in_def)

lemma in_map_filter_entries:
  "y \<in> set (List.map_filter f (bt_entries m)) \<longleftrightarrow> (\<exists>k v. bt_get m k = Some v \<and> f (k, v) = Some y)"
  by (force simp: in_set_map_filter bt.in_entries_iff [symmetric])

lemma in_sender_queues:
  "r \<in> set (sender_queues s) \<longleftrightarrow>
    (\<exists>q. bt_get (mp_sender_queues s) (rsq_sender r) = Some q \<and> rsq_queued r \<noteq> [] \<and>
      rsq_queued r = report_loop (mp_txs s) (None, False) (bt_entries q))"
  by (cases r) (auto simp: sender_queues_def in_map_filter_entries Let_def split: if_splits)

lemma reported_iff:
  "(\<exists>r \<in> set (sender_queues s). rsq_sender r = a \<and>
      (\<exists>x \<in> set (rsq_queued r). rqe_nonce x = n \<and> rqe_hash x = h)) \<longleftrightarrow>
    slot_of s a n = Some h \<and> is_pending s h"
proof -
  have loop: "(\<exists>x \<in> set (report_loop (mp_txs s) (None, False) (bt_entries q)).
      rqe_nonce x = n \<and> rqe_hash x = h) \<longleftrightarrow> (n, h) \<in> set (bt_entries q) \<and> is_pending s h" for q
    using arg_cong [OF report_loop_entries [of "mp_txs s" "(None, False)" "bt_entries q"],
      of "\<lambda>xs. (n, h) \<in> set xs"] by auto
  show ?thesis
  proof
    assume "\<exists>r \<in> set (sender_queues s). rsq_sender r = a \<and>
      (\<exists>x \<in> set (rsq_queued r). rqe_nonce x = n \<and> rqe_hash x = h)"
    then obtain r x where r: "r \<in> set (sender_queues s)" "rsq_sender r = a"
      and x: "x \<in> set (rsq_queued r)" "rqe_nonce x = n" "rqe_hash x = h" by blast
    obtain q where q: "bt_get (mp_sender_queues s) a = Some q"
        "rsq_queued r = report_loop (mp_txs s) (None, False) (bt_entries q)"
      using r unfolding in_sender_queues by blast
    then have "(n, h) \<in> set (bt_entries q) \<and> is_pending s h" using loop [of q] x by auto
    then show "slot_of s a n = Some h \<and> is_pending s h" using bt_entries_slot [OF q(1)] by simp
  next
    assume slot: "slot_of s a n = Some h \<and> is_pending s h"
    then obtain q where q: "bt_get (mp_sender_queues s) a = Some q"
      by (auto simp: slot_in_def bind_eq_Some_conv)
    let ?rs = "report_loop (mp_txs s) (None, False) (bt_entries q)"
    obtain x where x: "x \<in> set ?rs" "rqe_nonce x = n" "rqe_hash x = h"
      using loop [of q] bt_entries_slot [OF q] slot by blast
    then have "\<lparr>rsq_sender = a, rsq_queued = ?rs\<rparr> \<in> set (sender_queues s)"
      using q by (auto simp: in_sender_queues)
    then show "\<exists>r \<in> set (sender_queues s). rsq_sender r = a \<and>
      (\<exists>x \<in> set (rsq_queued r). rqe_nonce x = n \<and> rqe_hash x = h)"
      using x by force
  qed
qed

lemma pending_hashes_set: "h \<in> set (pending_hashes s) \<longleftrightarrow> is_pending s h"
  by (auto simp: pending_hashes_def in_map_filter_entries pending_in_def
      split: option.splits if_splits)

lemma pending_hashes_sorted: "sorted_wrt (<) (pending_hashes s)"
proof -
  have "sorted_wrt (<) (List.map_filter
      (\<lambda>(h, e). if me_status e = Pending then Some h else None) xs)"
    if "sorted_wrt (<) (map fst xs)" for xs :: "(TxHash \<times> tx_entry) list"
    using that by (induction xs) (force simp: map_filter_simps in_set_map_filter split: if_splits)+
  then show ?thesis by (simp add: pending_hashes_def bt_entries_sorted)
qed

section \<open>Classification of a queue\<close>

lemma adjust_states_distinct:
  assumes "distinct (map fst us)"
  shows "bt_get (foldl (\<lambda>txs (h, st). bt_adjust h (\<lambda>e. e\<lparr>me_queue_state := Some st\<rparr>) txs) txs us) h =
    (case map_of us h of
       None \<Rightarrow> bt_get txs h
     | Some st \<Rightarrow> map_option (\<lambda>e. e\<lparr>me_queue_state := Some st\<rparr>) (bt_get txs h))"
  using assms
proof (induction us arbitrary: txs)
  case (Cons u us)
  obtain g st where u: "u = (g, st)" by (cases u)
  have "map_of us g = None" using Cons.prems u by (simp add: map_of_eq_None_iff)
  then show ?case
    using Cons.IH [of "bt_adjust g (\<lambda>e. e\<lparr>me_queue_state := Some st\<rparr>) txs"] Cons.prems u
    by (auto split: option.split)
qed simp

definition in_state :: "tx_map \<Rightarrow> u64 \<times> TxHash \<Rightarrow> replay_queue_state \<Rightarrow> bool" where
  "in_state txs e st \<longleftrightarrow>
     (case bt_get txs (snd e) of
        Some entry \<Rightarrow> me_status entry = Pending \<and> me_queue_state entry = Some st | None \<Rightarrow> False)"

lemma report_loop_states:
  "list_all2 (in_state txs) es sts \<Longrightarrow>
    map rqe_state (report_loop txs gap es) = sts \<and> map rqe_nonce (report_loop txs gap es) = map fst es"
proof (induction es sts arbitrary: gap rule: list_all2_induct)
  case (Cons e es st sts)
  then show ?case
    by (cases e) (auto simp: in_state_def case_prod_unfold Let_def split: option.splits)
qed simp

text \<open>
  After a recomputation of a sender whose queued transactions are pending and distinct, the
  report shows the verdicts of the nonce-gap rule.
\<close>

lemma recompute_reported:
  assumes q: "bt_get (mp_sender_queues s) a = Some q" "q \<noteq> bt_empty"
    and pending: "\<And>n h. slot_of s a n = Some h \<Longrightarrow> is_pending s h"
    and inj: "\<And>n m h. slot_of s a n = Some h \<Longrightarrow> slot_of s a m = Some h \<Longrightarrow> n = m"
  defines "s' \<equiv> recompute_sender_queue_states s a"
  shows "bt_get (mp_sender_queues s') a = Some q \<and>
    list_all2 (in_state (mp_txs s')) (bt_entries q)
      (fst (map_state replay_entry_state (None, False) (map fst (bt_entries q))))"
proof -
  let ?es = "bt_entries q"
  let ?sts = "fst (map_state replay_entry_state (None, False) (map fst ?es))"
  let ?cleared = "foldl (\<lambda>txs (_, hash). bt_adjust hash (\<lambda>e. e\<lparr>me_queue_state := None\<rparr>) txs)
    (mp_txs s) ?es"
  have entry: "(n, h) \<in> set ?es \<longleftrightarrow> slot_of s a n = Some h" for n h
    by (rule bt_entries_slot [OF q(1)])
  have cleared: "pending_in ?cleared h = is_pending s h" for h by (rule pending_in_cong) simp
  then have all: "\<forall>x \<in> set ?es. pending_in ?cleared (snd x)"
    using pending entry by fastforce
  then have live: "filter (\<lambda>(n, h). pending_in ?cleared h) ?es = ?es"
      "filter (\<lambda>(n, h). \<not> pending_in ?cleared h) ?es = []"
    by (auto simp: filter_id_conv case_prod_unfold)
  have loop: "recompute_loop ?cleared (None, False) ?es = ([], zip (map snd ?es) ?sts)"
    using recompute_loop_stale [of ?cleared "(None, False)" ?es]
      recompute_loop_updates [of ?cleared "(None, False)" ?es] live
    by (simp add: prod_eq_iff Let_def)
  let ?txs = "foldl (\<lambda>txs (h, st). bt_adjust h (\<lambda>e. e\<lparr>me_queue_state := Some st\<rparr>) txs)
    ?cleared (zip (map snd ?es) ?sts)"
  have s': "s' = s\<lparr>mp_sender_queues := bt_insert a q (mp_sender_queues s), mp_txs := ?txs\<rparr>"
    using q by (simp add: s'_def recompute_sender_queue_states_def Let_def loop store_queue_def)
  have dist: "distinct (map snd ?es)"
  proof -
    have "inj_on snd (set ?es)"
      using inj entry by (auto simp: inj_on_def)
    moreover have "distinct ?es" using bt.keys_distinct [of q] by (rule distinct_map [THEN iffD1, THEN conjunct1])
    ultimately show ?thesis by (simp add: distinct_map)
  qed
  have "in_state ?txs (?es ! i) (?sts ! i)" if i: "i < length ?es" for i
  proof -
    have "map_of (zip (map snd ?es) ?sts) (snd (?es ! i)) = Some (?sts ! i)"
      using map_of_zip_nth [of "map snd ?es" ?sts i] dist i by simp
    moreover have "pending_in ?cleared (snd (?es ! i))" using all i by simp
    ultimately show ?thesis
      using dist by (auto simp: in_state_def adjust_states_distinct pending_in_def split: option.splits)
  qed
  then show ?thesis by (simp add: s' list_all2_conv_all_nth)
qed

text \<open>What decoding a transaction leaves of the queue of its sender.\<close>

lemma decoded_report:
  assumes named: "list_all (\<lambda>e. named_at loc (ee_payload e)) es" and e: "ee_payload e = TxDecoded d"
    and at: "loc (dec_hash d) = (dec_sender d, dec_nonce d)"
  obtains q where "slot_of (apply_events default_mempool_state (es @ [e])) (dec_sender d) (dec_nonce d) =
      Some (dec_hash d)"
    and "bt_get (mp_sender_queues (apply_events default_mempool_state (es @ [e]))) (dec_sender d) = Some q"
    and "list_all2 (in_state (mp_txs (apply_events default_mempool_state (es @ [e])))) (bt_entries q)
      (fst (map_state replay_entry_state (None, False) (map fst (bt_entries q))))"
proof -
  let ?s = "apply_events default_mempool_state es" and ?a = "dec_sender d"
  let ?s' = "apply_events default_mempool_state (es @ [e])"
  obtain t where s': "?s' = recompute_sender_queue_states
      (ensure_sender_queue_entry t (dec_hash d) ?a (dec_nonce d)) ?a"
    and t: "slot_of t = slot_of ?s"
    by (simp add: apply_events_def apply_event_def e apply_decoded_def Let_def case_prod_unfold)
      (auto split: option.split)
  let ?u = "ensure_sender_queue_entry t (dec_hash d) ?a (dec_nonce d)"
  have run: "located loc ?s'" "queued_pending ?s'"
    using located_run [of loc "es @ [e]"] named e at by simp_all
  have s: "located loc ?s" using located_run [OF named] by simp
  have pending: "is_pending ?u h" if slot: "slot_of ?u ?a n = Some h" for n h
  proof (rule ccontr)
    assume closed: "\<not> is_pending ?u h"
    then have other: "\<not> (n = dec_nonce d)" using slot by (auto simp: pending_in_core)
    then have old: "slot_of ?s ?a n = Some h" using slot t by simp
    have "queued_pending ?s" using located_run [OF named] by simp
    then have "core_in (mp_txs ?s) h = Some (Some ?a, Some n, Pending)"
      using old by (simp add: queued_pending_def)
    moreover have "core_in (mp_txs ?s') h = core_after ?s (TxDecoded d) h"
      using core_apply [of ?s e h] e by (simp add: apply_events_def)
    moreover have "loc h = (?a, n)" using s old by (simp add: located_def)
    then have "h \<noteq> dec_hash d" "slot_of ?s ?a (dec_nonce d) \<noteq> Some h"
      using at other s by (auto simp: located_def)
    ultimately have "core_in (mp_txs ?s') h = Some (Some ?a, Some n, Pending)" by simp
    then show False using closed unfolding s' by (simp add: pending_in_core)
  qed
  have inj: "n = m" if "slot_of ?u ?a n = Some h" "slot_of ?u ?a m = Some h" for n m h
  proof -
    have "loc h = (?a, k)" if "slot_of ?u ?a k = Some h" for k
      using that t s at by (auto simp: located_def split: if_splits)
    then show ?thesis using that by (metis prod.inject)
  qed
  have "slot_of ?u ?a (dec_nonce d) = Some (dec_hash d)" by simp
  then obtain q where q: "bt_get (mp_sender_queues ?u) ?a = Some q" "bt_get q (dec_nonce d) = Some (dec_hash d)"
    by (auto simp: slot_in_def bind_eq_Some_conv)
  then have "q \<noteq> bt_empty" by auto
  from recompute_reported [OF q(1) this pending inj] q show ?thesis
    unfolding s' [symmetric] by (intro that [of q]) (simp_all add: slot_in_def)
qed

section \<open>Properties\<close>

text \<open>
  Property C38. For every stream that names each transaction with one sender and nonce: no
  sender has an empty queue; every queued transaction is pending and stands in the slot of
  its own sender and nonce; and the report lists exactly the queued transactions.
\<close>

theorem replay_queues_consistent:
  assumes "list_all (\<lambda>e. named_at loc (ee_payload e)) es"
  shows "let s = apply_events default_mempool_state es in
    list_all (\<lambda>(a, q). q \<noteq> bt_empty \<and>
      list_all (\<lambda>(n, h). loc h = (a, n) \<and> lifecycle s h = Some Pending) (bt_entries q))
      (bt_entries (mp_sender_queues s)) \<and>
    {(rsq_sender r, rqe_nonce x, rqe_hash x) | r x. r \<in> set (sender_queues s) \<and> x \<in> set (rsq_queued r)} =
      {(a, n, h) | a n h. slot_of s a n = Some h}"
proof -
  let ?s = "apply_events default_mempool_state es"
  have run: "located loc ?s" "queued_pending ?s" using located_run [OF assms] by simp_all
  have known: "no_empty_queue ?s"
    using replay.reachable_invar [of es] by (simp add: queues_known_def apply_events_def)
  have entry: "loc h = (a, n) \<and> lifecycle ?s h = Some Pending"
    if "bt_get (mp_sender_queues ?s) a = Some q" "(n, h) \<in> set (bt_entries q)" for a q n h
    using bt_entries_slot [OF that(1)] that(2) run
    by (simp add: located_def queued_pending_def lifecycle_core)
  have "\<forall>x \<in> set (bt_entries (mp_sender_queues ?s)). snd x \<noteq> bt_empty \<and>
      (\<forall>y \<in> set (bt_entries (snd x)). loc (snd y) = (fst x, fst y) \<and> lifecycle ?s (snd y) = Some Pending)"
    using known entry by (force simp: no_empty_queue_def bt.in_entries_iff)
  moreover have pending: "is_pending ?s h" if "slot_of ?s a n = Some h" for a n h
    using run(2) that by (auto simp: queued_pending_def pending_in_core)
  have "{(rsq_sender r, rqe_nonce x, rqe_hash x) | r x.
        r \<in> set (sender_queues ?s) \<and> x \<in> set (rsq_queued r)} =
      {(a, n, h) | a n h. slot_of ?s a n = Some h}"
  proof (rule set_eqI)
    fix y :: "Address \<times> u64 \<times> TxHash"
    obtain a n h where y: "y = (a, n, h)" by (cases y)
    show "y \<in> {(rsq_sender r, rqe_nonce x, rqe_hash x) | r x.
        r \<in> set (sender_queues ?s) \<and> x \<in> set (rsq_queued r)} \<longleftrightarrow>
      y \<in> {(a, n, h) | a n h. slot_of ?s a n = Some h}"
      using reported_iff [of ?s a n h] pending unfolding y by blast
  qed
  ultimately show ?thesis by (simp add: Let_def list_all_iff case_prod_unfold)
qed

text \<open>
  Decoding a transaction re-classifies the queue of its sender: it is reported,
  with the transaction, as its nonces in increasing order, an entry being ready when every
  nonce from the lowest queued one is queued, and blocked on the first missing nonce
  otherwise.
\<close>

theorem decoded_queue_classified:
  assumes "list_all (\<lambda>e. named_at loc (ee_payload e)) (es @ [e])" and "ee_payload e = TxDecoded d"
  shows "\<exists>r \<in> set (sender_queues (apply_events default_mempool_state (es @ [e]))).
    rsq_sender r = dec_sender d \<and>
    (let ns = map rqe_nonce (rsq_queued r)
     in (dec_nonce d, dec_hash d) \<in> set (map (\<lambda>x. (rqe_nonce x, rqe_hash x)) (rsq_queued r)) \<and>
        sorted_wrt (<) ns \<and>
        (\<forall>x \<in> set (rsq_queued r).
           rqe_state x = ReplayReady \<and>
             (\<forall>n. hd ns \<le> n \<and> n \<le> rqe_nonce x \<longrightarrow> n \<in> set ns) \<or>
           (\<exists>m. rqe_state x = ReplayBlocked m \<and> hd ns < m \<and> m < rqe_nonce x \<and> m \<notin> set ns \<and>
             (\<forall>n. hd ns \<le> n \<and> n < m \<longrightarrow> n \<in> set ns))))"
proof -
  let ?s = "apply_events default_mempool_state (es @ [e])"
  have at: "loc (dec_hash d) = (dec_sender d, dec_nonce d)" using assms by simp
  obtain q where slot: "slot_of ?s (dec_sender d) (dec_nonce d) = Some (dec_hash d)"
    and q: "bt_get (mp_sender_queues ?s) (dec_sender d) = Some q"
    and st: "list_all2 (in_state (mp_txs ?s)) (bt_entries q)
      (fst (map_state replay_entry_state (None, False) (map fst (bt_entries q))))"
    by (rule decoded_report [of loc es e d]) (use assms at in simp_all)
  let ?rs = "report_loop (mp_txs ?s) (None, False) (bt_entries q)" and ?ns = "map fst (bt_entries q)"
  have rs: "map rqe_state ?rs = fst (map_state replay_entry_state (None, False) ?ns)"
      "map rqe_nonce ?rs = ?ns"
    using report_loop_states [OF st, of "(None, False)"] by simp_all
  have sorted: "sorted_wrt (<) ?ns" by (rule bt_entries_sorted)
  have member: "(dec_nonce d, dec_hash d) \<in> set (map (\<lambda>x. (rqe_nonce x, rqe_hash x)) ?rs)"
  proof -
    have "is_pending ?s (dec_hash d)"
      using core_apply [of "apply_events default_mempool_state es" e "dec_hash d"] assms(2)
      by (simp add: apply_events_def pending_in_core)
    then show ?thesis
      unfolding report_loop_entries using bt_entries_slot [OF q] slot by simp
  qed
  have verdict: "rqe_state x = ReplayReady \<and> (\<forall>n. hd ?ns \<le> n \<and> n \<le> rqe_nonce x \<longrightarrow> n \<in> set ?ns) \<or>
      (\<exists>m. rqe_state x = ReplayBlocked m \<and> hd ?ns < m \<and> m < rqe_nonce x \<and> m \<notin> set ?ns \<and>
        (\<forall>n. hd ?ns \<le> n \<and> n < m \<longrightarrow> n \<in> set ?ns))" if mem: "x \<in> set ?rs" for x
  proof -
    obtain i where i: "i < length ?rs" "x = ?rs ! i" using mem unfolding in_set_conv_nth by blast
    have "length ?rs = length ?ns" using rs(2) by (metis length_map)
    moreover have "rqe_state x = fst (map_state replay_entry_state (None, False) ?ns) ! i"
        "rqe_nonce x = ?ns ! i"
      using i rs by (metis nth_map)+
    ultimately show ?thesis using replay_gap.entry_meaning [OF sorted, of i] i(1) by simp
  qed
  have "?rs \<noteq> []" using member by auto
  then have "\<lparr>rsq_sender = dec_sender d, rsq_queued = ?rs\<rparr> \<in> set (sender_queues ?s)"
    using q by (auto simp: in_sender_queues)
  then show ?thesis
    by (rule rev_bexI) (use verdict member sorted in \<open>simp add: Let_def rs(2)\<close>)
qed

section \<open>Examples\<close>

definition event_at :: "u64 \<Rightarrow> event_payload \<Rightarrow> event_envelope" where
  "event_at seq payload =
     \<lparr>ee_seq_id = seq, ee_ingest_ts_unix_ms = 0, ee_ingest_ts_mono_ns = 0,
      ee_source_id = SourceId ''rpc'', ee_payload = payload\<rparr>"

definition decoded_at :: "TxHash \<Rightarrow> Address \<Rightarrow> u64 \<Rightarrow> event_payload" where
  "decoded_at hash sender nonce = TxDecoded
     \<lparr>dec_hash = hash, dec_tx_type = 2, dec_sender = sender, dec_nonce = nonce,
      dec_chain_id = Some 1, dec_to = None, dec_value_wei = None, dec_gas_limit = None,
      dec_gas_price_wei = None, dec_max_fee_per_gas_wei = None,
      dec_max_priority_fee_per_gas_wei = None, dec_max_fee_per_blob_gas_wei = None,
      dec_calldata_len = None\<rparr>"

definition sample_stream :: "event_envelope list" where
  "sample_stream =
     [event_at 1 (decoded_at 11 9 5), event_at 2 (decoded_at 12 9 7),
      event_at 3 (TxDropped \<lparr>dropped_hash = 11, dropped_reason = ''evicted''\<rparr>),
      event_at 4 (decoded_at 13 9 6)]"

definition sample_location :: "TxHash \<Rightarrow> Address \<times> u64" where
  "sample_location h = (9, if h = 11 then 5 else if h = 12 then 7 else 6)"

theorem replay_queues_consistent_witness:
  "let s = apply_events default_mempool_state sample_stream in
    list_all (\<lambda>(a, q). q \<noteq> bt_empty \<and>
      list_all (\<lambda>(n, h). sample_location h = (a, n) \<and> lifecycle s h = Some Pending) (bt_entries q))
      (bt_entries (mp_sender_queues s)) \<and>
    {(rsq_sender r, rqe_nonce x, rqe_hash x) | r x. r \<in> set (sender_queues s) \<and> x \<in> set (rsq_queued r)} =
      {(a, n, h) | a n h. slot_of s a n = Some h}"
  by (rule replay_queues_consistent) code_simp

theorem decoded_queue_classified_witness:
  "\<exists>r \<in> set (sender_queues (apply_events default_mempool_state sample_stream)).
    rsq_sender r = 9 \<and> (6, 13) \<in> set (map (\<lambda>x. (rqe_nonce x, rqe_hash x)) (rsq_queued r))"
proof -
  have split: "sample_stream = take 3 sample_stream @ [event_at 4 (decoded_at 13 9 6)]"
    by (simp add: sample_stream_def)
  have named: "list_all (\<lambda>e. named_at sample_location (ee_payload e))
      (take 3 sample_stream @ [event_at 4 (decoded_at 13 9 6)])"
    by code_simp
  show ?thesis
    using decoded_queue_classified [OF named, of "case decoded_at 13 9 6 of TxDecoded d \<Rightarrow> d"]
    unfolding split [symmetric] by (auto simp: event_at_def decoded_at_def Let_def)
qed

end
