(* ===== verification/Replay.thy ===== *)
theory Replay
  imports Replay_Invariant Text
begin

text \<open>
  The crate \<^verbatim>\<open>replay\<close> (\<^verbatim>\<open>lib.rs\<close>): frames of a replayed stream in the two
  modes, lifecycle checkpoints, replay from a checkpoint, the summary of the difference of
  two checkpoints, and the parity checks. SHA-256 is the parameter \<open>sha256\<close>, and the
  \<^verbatim>\<open>f64\<close> percentage of the parity check is a parameter too.
\<close>

section \<open>Data\<close>

datatype replay_error = CheckpointMismatch u64 "u8 list" "u8 list"

datatype replay_mode = DeterministicEventReplay | SnapshotReplay

record replay_frame =
  rf_seq_hi :: u64
  rf_timestamp_unix_ms :: i64
  rf_pending :: "TxHash list"
  rf_sender_queues :: "replay_sender_queue list"

record lifecycle_checkpoint =
  lc_seq_id :: u64
  lc_pending_hashes :: "TxHash list"
  lc_sender_queues :: "replay_sender_queue list"

record checkpoint_hash =
  ch_seq_id :: u64
  ch_pending_count :: usize
  ch_checkpoint_hash :: "u8 list"

record replay_diff_summary =
  rds_from_seq_id :: u64
  rds_to_seq_id :: u64
  rds_from_pending_count :: usize
  rds_to_pending_count :: usize
  rds_from_checkpoint_hash :: "u8 list"
  rds_to_checkpoint_hash :: "u8 list"
  rds_added_pending :: "TxHash list"
  rds_removed_pending :: "TxHash list"

section \<open>Frames\<close>

definition frame_of :: "mempool_state \<Rightarrow> event_envelope \<Rightarrow> replay_frame" where
  "frame_of state event =
     \<lparr>rf_seq_hi = ee_seq_id event, rf_timestamp_unix_ms = ee_ingest_ts_unix_ms event,
      rf_pending = sort (pending_hashes state), rf_sender_queues = sender_queues state\<rparr>"

text \<open>The loop over the enumerated events, on the state and the frames so far.\<close>

definition deterministic_loop ::
  "mempool_state \<Rightarrow> event_envelope list \<Rightarrow> usize \<Rightarrow> replay_frame list" where
  "deterministic_loop state events stride =
     snd (foldl (\<lambda>(state, frames) (idx, event).
        let state = fst (apply_event state event);
            should_emit = ((idx + 1) mod stride = 0 \<or> idx + 1 = length events)
        in (state, if should_emit then frames @ [frame_of state event] else frames))
       (state, []) (enumerate 0 events))"

definition replay_deterministic :: "event_envelope list \<Rightarrow> usize \<Rightarrow> replay_frame list" where
  "replay_deterministic events stride =
     deterministic_loop default_mempool_state (sort_deterministic events) stride"

definition replay_snapshot :: "event_envelope list \<Rightarrow> usize \<Rightarrow> replay_frame list" where
  "replay_snapshot events stride =
     (let events = sort_deterministic events
      in snd (snd (foldl (\<lambda>(count, state, frames) event.
           let count = count + 1; state = fst (apply_event state event)
           in (count, state,
               if stride dvd count \<or> count = length events
               then frames @ [frame_of state event] else frames))
          (0, default_mempool_state, []) events)))"

definition replay_frames :: "event_envelope list \<Rightarrow> replay_mode \<Rightarrow> usize \<Rightarrow> replay_frame list" where
  "replay_frames events mode stride =
     (case mode of
        DeterministicEventReplay \<Rightarrow> replay_deterministic events (max stride 1)
      | SnapshotReplay \<Rightarrow> replay_snapshot events (max stride 1))"

definition current_lifecycle :: "event_envelope list \<Rightarrow> TxHash \<Rightarrow> tx_lifecycle_status option" where
  "current_lifecycle events hash =
     lifecycle (apply_events default_mempool_state (sort_deterministic events)) hash"

section \<open>Checkpoints\<close>

definition checkpoint_of :: "mempool_state \<Rightarrow> u64 \<Rightarrow> lifecycle_checkpoint" where
  "checkpoint_of state seq_id =
     \<lparr>lc_seq_id = seq_id, lc_pending_hashes = sort (pending_hashes state),
      lc_sender_queues = sender_queues state\<rparr>"

definition lifecycle_checkpoints :: "event_envelope list \<Rightarrow> u64 list \<Rightarrow> lifecycle_checkpoint list" where
  "lifecycle_checkpoints events checkpoint_seq_ids =
     snd (foldl (\<lambda>(state, out) event.
        let state = fst (apply_event state event)
        in (state,
            if List.member checkpoint_seq_ids (ee_seq_id event)
            then out @ [checkpoint_of state (ee_seq_id event)] else out))
       (default_mempool_state, []) (sort_deterministic events))"

definition lifecycle_snapshot :: "event_envelope list \<Rightarrow> u64 \<Rightarrow> lifecycle_checkpoint option" where
  "lifecycle_snapshot events checkpoint_seq_id =
     (case lifecycle_checkpoints events [checkpoint_seq_id] of [] \<Rightarrow> None | c # _ \<Rightarrow> Some c)"

definition tail_state :: "lifecycle_checkpoint \<Rightarrow> mempool_state" where
  "tail_state checkpoint =
     (if lc_sender_queues checkpoint = [] then from_pending_hashes (lc_pending_hashes checkpoint)
      else from_checkpoint (lc_pending_hashes checkpoint) (lc_sender_queues checkpoint))"

definition replay_from_checkpoint ::
  "event_envelope list \<Rightarrow> lifecycle_checkpoint \<Rightarrow> usize \<Rightarrow> replay_frame list" where
  "replay_from_checkpoint events checkpoint stride =
     (let sorted_tail = filter (\<lambda>e. ee_seq_id e > lc_seq_id checkpoint) (sort_deterministic events)
      in if sorted_tail = [] then []
         else deterministic_loop (tail_state checkpoint) sorted_tail (max stride 1))"

section \<open>Hashes\<close>

definition state_bytes :: "replay_queue_state \<Rightarrow> u8 list" where
  "state_bytes state =
     (case state of ReplayReady \<Rightarrow> [0] | ReplayBlocked expected \<Rightarrow> [1] @ le_bytes 8 expected)"

definition queue_bytes :: "replay_sender_queue list \<Rightarrow> u8 list" where
  "queue_bytes queues =
     le_bytes 8 (of_nat (length queues) :: u64) @
     concat (map (\<lambda>q. be_bytes 20 (rsq_sender q) @
       le_bytes 8 (of_nat (length (rsq_queued q)) :: u64) @
       concat (map (\<lambda>x. hash_bytes (rqe_hash x) @ le_bytes 8 (rqe_nonce x) @ state_bytes (rqe_state x))
         (rsq_queued q))) queues)"

definition checkpoint_preimage :: "lifecycle_checkpoint \<Rightarrow> u8 list" where
  "checkpoint_preimage checkpoint =
     (let pending = sort (lc_pending_hashes checkpoint)
      in le_bytes 8 (lc_seq_id checkpoint) @ le_bytes 8 (of_nat (length pending) :: u64) @
         concat (map hash_bytes pending) @ queue_bytes (lc_sender_queues checkpoint))"

definition lifecycle_checkpoint_hash :: "(u8 list \<Rightarrow> u8 list) \<Rightarrow> lifecycle_checkpoint \<Rightarrow> u8 list" where
  "lifecycle_checkpoint_hash sha256 checkpoint = sha256 (checkpoint_preimage checkpoint)"

definition verify_lifecycle_checkpoint_hash ::
  "(u8 list \<Rightarrow> u8 list) \<Rightarrow> lifecycle_checkpoint \<Rightarrow> u8 list \<Rightarrow> replay_error + u8 list" where
  "verify_lifecycle_checkpoint_hash sha256 checkpoint expected =
     (let actual = lifecycle_checkpoint_hash sha256 checkpoint
      in if actual \<noteq> expected then Inl (CheckpointMismatch (lc_seq_id checkpoint) expected actual)
         else Inr actual)"

definition frame_preimage :: "replay_frame \<Rightarrow> u8 list" where
  "frame_preimage frame =
     le_bytes 8 (rf_seq_hi frame) @ le_bytes 8 (word_of_int (rf_timestamp_unix_ms frame) :: u64) @
     le_bytes 8 (of_nat (length (rf_pending frame)) :: u64) @
     concat (map hash_bytes (rf_pending frame)) @ queue_bytes (rf_sender_queues frame)"

definition frame_checkpoint_hash :: "(u8 list \<Rightarrow> u8 list) \<Rightarrow> replay_frame \<Rightarrow> u8 list" where
  "frame_checkpoint_hash sha256 frame = sha256 (frame_preimage frame)"

definition deterministic_checkpoint_hashes ::
  "(u8 list \<Rightarrow> u8 list) \<Rightarrow> event_envelope list \<Rightarrow> usize \<Rightarrow> checkpoint_hash list" where
  "deterministic_checkpoint_hashes sha256 events stride =
     map (\<lambda>frame. \<lparr>ch_seq_id = rf_seq_hi frame, ch_pending_count = length (rf_pending frame),
        ch_checkpoint_hash = frame_checkpoint_hash sha256 frame\<rparr>)
       (replay_frames events DeterministicEventReplay (max stride 1))"

section \<open>Differences and parity\<close>

definition replay_diff_summary_of ::
  "(u8 list \<Rightarrow> u8 list) \<Rightarrow> event_envelope list \<Rightarrow> u64 \<Rightarrow> u64 \<Rightarrow> replay_diff_summary option" where
  "replay_diff_summary_of sha256 events from to =
     (let (from_seq_id, to_seq_id) = (if from \<le> to then (from, to) else (to, from))
      in Option.bind (lifecycle_snapshot events from_seq_id) (\<lambda>from_checkpoint.
         Option.bind (lifecycle_snapshot events to_seq_id) (\<lambda>to_checkpoint.
           let from_set = lc_pending_hashes from_checkpoint; to_set = lc_pending_hashes to_checkpoint
           in Some \<lparr>rds_from_seq_id = from_seq_id, rds_to_seq_id = to_seq_id,
                rds_from_pending_count = length from_set, rds_to_pending_count = length to_set,
                rds_from_checkpoint_hash = lifecycle_checkpoint_hash sha256 from_checkpoint,
                rds_to_checkpoint_hash = lifecycle_checkpoint_hash sha256 to_checkpoint,
                rds_added_pending = sorted_list_of_set (set to_set - set from_set),
                rds_removed_pending = sorted_list_of_set (set from_set - set to_set)\<rparr>)))"

definition lifecycle_parity :: "event_envelope list \<Rightarrow> u64 list \<Rightarrow> (u64, bool) btree_map" where
  "lifecycle_parity events checkpoint_seq_ids =
     (let expected = lifecycle_checkpoints events checkpoint_seq_ids;
          deterministic = replay_frames events DeterministicEventReplay 1;
          by_seq = foldl (\<lambda>m f. bt_insert (rf_seq_hi f) (rf_pending f) m) bt_empty deterministic
      in foldl (\<lambda>m c. bt_insert (lc_seq_id c)
             ((case bt_get by_seq (lc_seq_id c) of Some p \<Rightarrow> p | None \<Rightarrow> []) = lc_pending_hashes c) m)
           bt_empty expected)"

definition checkpoint_hash_parity_percent ::
  "(u8 list \<Rightarrow> u8 list) \<Rightarrow> (nat \<Rightarrow> nat \<Rightarrow> 'f64) \<Rightarrow> 'f64 \<Rightarrow> 'f64 \<Rightarrow> event_envelope list
    \<Rightarrow> event_envelope list \<Rightarrow> usize \<Rightarrow> 'f64" where
  "checkpoint_hash_parity_percent sha256 percent hundred zero reference_events candidate_events stride =
     (let reference = deterministic_checkpoint_hashes sha256 reference_events (max stride 1);
          candidate = deterministic_checkpoint_hashes sha256 candidate_events (max stride 1)
      in if reference = [] then (if candidate = [] then hundred else zero)
         else
           let by_seq = foldl (\<lambda>m c. bt_insert (ch_seq_id c) (ch_checkpoint_hash c) m) bt_empty candidate;
               matched = length (filter (\<lambda>c. bt_get by_seq (ch_seq_id c) = Some (ch_checkpoint_hash c))
                 reference)
           in percent matched (length reference))"

section \<open>The loops\<close>

text \<open>A loop that updates a state and emits what it derives from it at some elements.\<close>

lemma emit_loop:
  "foldl (\<lambda>(st, out) x. let st = f st x in (st, if p x then out @ [g st x] else out)) (s, out) xs =
    (foldl f s xs,
     out @ map (\<lambda>i. g (foldl f s (take (Suc i) xs)) (xs ! i)) (filter (\<lambda>i. p (xs ! i)) [0..<length xs]))"
proof (induction xs rule: rev_induct)
  case (snoc x xs)
  have "map (\<lambda>i. g (foldl f s (take (Suc i) (xs @ [x]))) ((xs @ [x]) ! i))
      (filter (\<lambda>i. p ((xs @ [x]) ! i)) [0..<length xs]) =
    map (\<lambda>i. g (foldl f s (take (Suc i) xs)) (xs ! i)) (filter (\<lambda>i. p (xs ! i)) [0..<length xs])"
  proof (intro map_cong)
    show "filter (\<lambda>i. p ((xs @ [x]) ! i)) [0..<length xs] = filter (\<lambda>i. p (xs ! i)) [0..<length xs]"
      by (rule filter_cong) (simp_all add: nth_append)
  qed (auto simp: nth_append)
  then show ?case using snoc by (simp add: Let_def)
qed simp

abbreviation state_at :: "mempool_state \<Rightarrow> event_envelope list \<Rightarrow> nat \<Rightarrow> mempool_state" where
  "state_at s es i \<equiv> apply_events s (take (Suc i) es)"

lemma deterministic_loop_frames:
  "deterministic_loop s es stride =
    map (\<lambda>i. frame_of (state_at s es i) (es ! i))
      (filter (\<lambda>i. (i + 1) mod stride = 0 \<or> i + 1 = length es) [0..<length es])"
proof -
  let ?p = "\<lambda>i. (i + 1) mod stride = 0 \<or> i + 1 = length es"
  have run: "foldl (\<lambda>st q. fst (apply_event st (snd q))) s ps = apply_events s (map snd ps)" for ps
    by (simp add: apply_events_def foldl_map)
  have "deterministic_loop s es stride =
      snd (foldl (\<lambda>(st, out) q. let st = fst (apply_event st (snd q))
        in (st, if ?p (fst q) then out @ [frame_of st (snd q)] else out)) (s, []) (enumerate 0 es))"
    by (simp add: deterministic_loop_def case_prod_unfold Let_def)
  also have "\<dots> = map (\<lambda>i. frame_of (apply_events s (map snd (take (Suc i) (enumerate 0 es))))
      (snd (enumerate 0 es ! i))) (filter (\<lambda>i. ?p (fst (enumerate 0 es ! i))) [0..<length es])"
    by (subst emit_loop) (simp add: run)
  also have "\<dots> = map (\<lambda>i. frame_of (state_at s es i) (es ! i)) (filter ?p [0..<length es])"
  proof (intro map_cong)
    show "filter (\<lambda>i. ?p (fst (enumerate 0 es ! i))) [0..<length es] = filter ?p [0..<length es]"
      by (rule filter_cong) (simp_all add: nth_enumerate_eq)
    show "frame_of (apply_events s (map snd (take (Suc i) (enumerate 0 es)))) (snd (enumerate 0 es ! i)) =
        frame_of (state_at s es i) (es ! i)" if "i \<in> set (filter ?p [0..<length es])" for i
      using that by (simp add: nth_enumerate_eq flip: take_map)
  qed
  finally show ?thesis .
qed

lemma snapshot_loop:
  "foldl (\<lambda>(count, state, frames) event.
      let count = count + 1; state = fst (apply_event state event)
      in (count, state,
          if stride dvd count \<or> count = n then frames @ [frame_of state event] else frames))
    (0, s, []) es =
    (length es, apply_events s es,
     map (\<lambda>i. frame_of (state_at s es i) (es ! i))
       (filter (\<lambda>i. (i + 1) mod stride = 0 \<or> i + 1 = n) [0..<length es]))"
proof (induction es rule: rev_induct)
  case Nil
  then show ?case by (simp add: apply_events_def)
next
  case (snoc e es)
  have "map (\<lambda>i. frame_of (state_at s (es @ [e]) i) ((es @ [e]) ! i))
      (filter (\<lambda>i. (i + 1) mod stride = 0 \<or> i + 1 = n) [0..<length es]) =
    map (\<lambda>i. frame_of (state_at s es i) (es ! i))
      (filter (\<lambda>i. (i + 1) mod stride = 0 \<or> i + 1 = n) [0..<length es])"
    by (rule map_cong) (auto simp: nth_append)
  then show ?case using snoc by (simp add: Let_def apply_events_def dvd_eq_mod_eq_0)
qed

lemma replay_frames_at:
  "replay_frames events mode stride =
    (let es = sort_deterministic events
     in map (\<lambda>i. frame_of (state_at default_mempool_state es i) (es ! i))
          (filter (\<lambda>i. (i + 1) mod max stride 1 = 0 \<or> i + 1 = length es) [0..<length es]))"
  by (cases mode)
    (simp_all only: replay_frames_def replay_deterministic_def replay_snapshot_def Let_def
      deterministic_loop_frames snapshot_loop [unfolded Let_def] replay_mode.case snd_conv)

lemma checkpoints_at:
  "lifecycle_checkpoints events ids =
    (let es = sort_deterministic events
     in map (\<lambda>i. checkpoint_of (state_at default_mempool_state es i) (ee_seq_id (es ! i)))
          (filter (\<lambda>i. ee_seq_id (es ! i) \<in> set ids) [0..<length es]))"
  unfolding lifecycle_checkpoints_def Let_def
  using emit_loop [of "\<lambda>s e. fst (apply_event s e)" "\<lambda>e. ee_seq_id e \<in> set ids"
      "\<lambda>s e. checkpoint_of s (ee_seq_id e)" default_mempool_state "[]" "sort_deterministic events"]
  by (simp add: apply_events_def Let_def)

section \<open>Maps that are collected from a list\<close>

lemma bt_get_foldl_insert:
  "bt_get (foldl (\<lambda>m x. bt_insert (k x) (v x) m) m xs) q =
    (case find (\<lambda>x. k x = q) (rev xs) of Some x \<Rightarrow> Some (v x) | None \<Rightarrow> bt_get m q)"
  by (induction xs rule: rev_induct) auto

lemma find_map: "find p (map f xs) = map_option f (find (p \<circ> f) xs)"
  by (induction xs) auto

lemma find_filter: "(\<And>x. p x \<Longrightarrow> q x) \<Longrightarrow> find p (filter q xs) = find p xs"
  by (induction xs) auto

section \<open>Resuming from a checkpoint\<close>

text \<open>
  The full and the resumed state agree on what is pending and, for pending transactions, on
  the slots; the resumed state may keep closed transactions in slots and lacks locations.
\<close>

definition agree :: "(TxHash \<Rightarrow> Address \<times> u64) \<Rightarrow> mempool_state \<Rightarrow> mempool_state \<Rightarrow> bool" where
  "agree loc s t \<longleftrightarrow>
     located loc s \<and> located loc t \<and>
     (\<forall>h. is_pending s h = is_pending t h) \<and>
     (\<forall>a n h. is_pending s h \<longrightarrow> (slot_of s a n = Some h) = (slot_of t a n = Some h))"

fun reorg_free :: "event_payload \<Rightarrow> bool" where
  "reorg_free (TxReorged _) = False"
| "reorg_free _ = True"

text \<open>The transaction that an event closes, beside a reorganisation.\<close>

fun closes :: "mempool_state \<Rightarrow> event_payload \<Rightarrow> TxHash \<Rightarrow> bool" where
  "closes s (TxDecoded d) h \<longleftrightarrow> h \<noteq> dec_hash d \<and> slot_of s (dec_sender d) (dec_nonce d) = Some h"
| "closes s (TxDropped d) h \<longleftrightarrow> h = dropped_hash d"
| "closes s (TxConfirmedProvisional c) h \<longleftrightarrow> h = confirmed_hash c"
| "closes s (TxConfirmedFinal c) h \<longleftrightarrow> h = confirmed_hash c"
| "closes s (TxReplaced r) h \<longleftrightarrow> h = replaced_hash r"
| "closes s _ h \<longleftrightarrow> False"

lemma pending_apply:
  assumes "reorg_free (ee_payload e)"
  shows "is_pending (fst (apply_event s e)) h \<longleftrightarrow>
    (\<exists>a n. placed_by s (ee_payload e) = Some (h, a, n)) \<or>
    is_pending s h \<and> \<not> closes s (ee_payload e) h"
  using assms unfolding pending_in_core core_apply
  by (cases "ee_payload e") (auto simp: rename_status_def)

lemma agree_closes: "agree loc s t \<Longrightarrow> is_pending s h \<Longrightarrow> closes s p h \<longleftrightarrow> closes t p h"
  by (cases p) (simp_all add: agree_def)

lemma placed_same: "reorg_free p \<Longrightarrow> placed_by s p = placed_by t p"
  by (cases p) simp_all

lemma agree_apply:
  assumes "agree loc s t" and "named_at loc (ee_payload e)" and "reorg_free (ee_payload e)"
  shows "agree loc (fst (apply_event s e)) (fst (apply_event t e))"
proof -
  let ?p = "ee_payload e" and ?s = "fst (apply_event s e)" and ?t = "fst (apply_event t e)"
  have place: "placed_by s ?p = placed_by t ?p" by (rule placed_same [OF assms(3)])
  have pend: "is_pending ?s h = is_pending ?t h" for h
  proof -
    have "is_pending s h = is_pending t h" using assms(1) by (simp add: agree_def)
    moreover have "is_pending s h \<Longrightarrow> closes s ?p h = closes t ?p h"
      by (rule agree_closes [OF assms(1)])
    ultimately show ?thesis unfolding pending_apply [OF assms(3)] place by blast
  qed
  have follow: "slot_of (fst (apply_event u e)) a n = Some h \<longleftrightarrow> slot_after u ?p a n = Some h"
    if "is_pending (fst (apply_event u e)) h" for u a n h
    using slot_apply [of u e] that unfolding slots_follow_def by blast
  have after: "slot_after s ?p a n = Some h \<longleftrightarrow> slot_after t ?p a n = Some h"
    if h: "is_pending ?s h" for a n h
  proof (cases "is_pending s h")
    case True
    then have "slot_of s a n = Some h \<longleftrightarrow> slot_of t a n = Some h"
      using assms(1) unfolding agree_def by blast
    then show ?thesis by (simp add: slot_after_def place split: option.split)
  next
    case False
    then obtain a' n' where placed: "placed_by s ?p = Some (h, a', n')"
      using h unfolding pending_apply [OF assms(3)] by blast
    have home: "(a, n) = (a', n')" if "located loc u" "slot_of u a n = Some h" for u
    proof -
      have "loc h = (a, n)" using that by (simp add: located_def)
      moreover have "located loc s" using assms(1) by (simp add: agree_def)
      then have "loc h = (a', n')"
        using core_after_located [of loc s ?p h] assms(2) placed
        by (simp add: placed_pending at_home_def prod_eq_iff)
      ultimately show ?thesis by simp
    qed
    have loc: "located loc s" "located loc t" using assms(1) by (simp_all add: agree_def)
    show ?thesis
    proof (cases "(a, n) = (a', n')")
      case True
      then show ?thesis using placed place by (simp add: slot_after_def)
    next
      case False
      then have "slot_of s a n \<noteq> Some h" "slot_of t a n \<noteq> Some h"
        using home [OF loc(1)] home [OF loc(2)] by blast+
      then show ?thesis
        using False placed place unfolding slot_after_def by (auto simp only: option.case prod.case split: if_splits)
    qed
  qed
  have "located loc ?s" "located loc ?t"
    using assms(1,2) by (simp_all add: agree_def located_apply)
  moreover have "(slot_of ?s a n = Some h) = (slot_of ?t a n = Some h)" if "is_pending ?s h" for a n h
    using follow [of s h a n] follow [of t h a n] after [OF that, of a n] pend [of h] that by blast
  ultimately show ?thesis using pend unfolding agree_def by blast
qed

lemma agree_run:
  assumes "agree loc s t" and "list_all (\<lambda>e. named_at loc (ee_payload e) \<and> reorg_free (ee_payload e)) es"
  shows "agree loc (apply_events s es) (apply_events t es)"
  using assms(2)
proof (induction es rule: rev_induct)
  case Nil
  then show ?case using assms(1) by (simp add: apply_events_def)
next
  case (snoc e es)
  then show ?case by (simp add: apply_events_def agree_apply)
qed

lemma from_pending_core:
  "core_in (mp_txs (from_pending_hashes hs)) h = (if h \<in> set hs then Some (None, None, Pending) else None)"
  "slot_of (from_pending_hashes hs) a n = None"
proof -
  show "core_in (mp_txs (from_pending_hashes hs)) h = (if h \<in> set hs then Some (None, None, Pending) else None)"
    by (induction hs rule: rev_induct)
      (auto simp: from_pending_hashes_def default_mempool_state_def core_in_def core_def unplaced_entry_def)
  show "slot_of (from_pending_hashes hs) a n = None"
    by (induction hs rule: rev_induct)
      (simp_all add: from_pending_hashes_def default_mempool_state_def slot_in_def)
qed

lemma seed_core:
  "core_in (mp_txs (seed_queue_entry a s x)) h =
    (if h = rqe_hash x \<and> core_in (mp_txs s) h = None then Some (Some a, Some (rqe_nonce x), Pending)
     else core_in (mp_txs s) h)"
  by (auto simp: seed_queue_entry_def core_def)

lemma seed_slot:
  "slot_of (seed_queue_entry a s x) a' n =
    (if a' = a \<and> n = rqe_nonce x then Some (rqe_hash x) else slot_of s a' n)"
  by (auto simp: seed_queue_entry_def slot_in_def or_insert_def bt_contains_def)

definition queue_pairs :: "replay_sender_queue list \<Rightarrow> (Address \<times> replay_sender_queue_entry) list" where
  "queue_pairs queues = concat (map (\<lambda>q. map (Pair (rsq_sender q)) (rsq_queued q)) queues)"

lemma from_checkpoint_pairs:
  "from_checkpoint hs queues =
    foldl (\<lambda>s (a, x). seed_queue_entry a s x) (from_pending_hashes hs) (queue_pairs queues)"
proof -
  have "foldl (seed_queue_entry a) s xs = foldl (\<lambda>s (a, x). seed_queue_entry a s x) s (map (Pair a) xs)"
    for a s xs by (simp add: foldl_map)
  then have "foldl (\<lambda>state queue. foldl (seed_queue_entry (rsq_sender queue)) state (rsq_queued queue)) s qs =
      foldl (\<lambda>s (a, x). seed_queue_entry a s x) s (queue_pairs qs)" for s qs
    by (induction qs arbitrary: s) (simp_all add: queue_pairs_def)
  then show ?thesis by (simp add: from_checkpoint_def)
qed

abbreviation seed_pairs ::
  "mempool_state \<Rightarrow> (Address \<times> replay_sender_queue_entry) list \<Rightarrow> mempool_state" where
  "seed_pairs t ps \<equiv> foldl (\<lambda>s (a, x). seed_queue_entry a s x) t ps"

definition known_in :: "mempool_state \<Rightarrow> Address \<times> replay_sender_queue_entry \<Rightarrow> bool" where
  "known_in t p \<longleftrightarrow> core_in (mp_txs t) (rqe_hash (snd p)) \<noteq> None"

lemma seed_pairs_core: "\<forall>p \<in> set ps. known_in t p \<Longrightarrow> core_in (mp_txs (seed_pairs t ps)) = core_in (mp_txs t)"
proof (induction ps arbitrary: t)
  case (Cons p ps)
  have eq: "core_in (mp_txs (seed_queue_entry (fst p) t (snd p))) = core_in (mp_txs t)"
    using Cons.prems by (auto simp: fun_eq_iff seed_core known_in_def)
  have "core_in (mp_txs (seed_pairs (seed_queue_entry (fst p) t (snd p)) ps)) =
      core_in (mp_txs (seed_queue_entry (fst p) t (snd p)))"
    using Cons.prems by (intro Cons.IH) (simp add: known_in_def eq)
  then show ?case by (simp add: eq case_prod_unfold)
qed simp

lemma seed_pairs_slot:
  "\<forall>p \<in> set ps. f (fst p) (rqe_nonce (snd p)) = Some (rqe_hash (snd p)) \<Longrightarrow>
    slot_of (seed_pairs t ps) a n =
      (if (a, n) \<in> (\<lambda>p. (fst p, rqe_nonce (snd p))) ` set ps then f a n else slot_of t a n)"
proof (induction ps rule: rev_induct)
  case (snoc p ps)
  then show ?case by (auto simp: case_prod_unfold seed_slot)
qed simp

lemma queue_pairs_report:
  "(a, x) \<in> set (queue_pairs (sender_queues s)) \<longleftrightarrow>
    (\<exists>r \<in> set (sender_queues s). rsq_sender r = a \<and> x \<in> set (rsq_queued r))"
  by (auto simp: queue_pairs_def)

lemma agree_checkpoint:
  assumes "located loc s"
  shows "agree loc s (tail_state (checkpoint_of s seq))"
proof -
  let ?hs = "sort (pending_hashes s)" and ?ps = "queue_pairs (sender_queues s)"
  let ?t = "seed_pairs (from_pending_hashes ?hs) ?ps"
  have t: "tail_state (checkpoint_of s seq) = ?t"
    by (simp add: tail_state_def checkpoint_of_def from_checkpoint_pairs queue_pairs_def)
  have reported: "slot_of s a (rqe_nonce x) = Some (rqe_hash x) \<and> is_pending s (rqe_hash x)"
    if "(a, x) \<in> set ?ps" for a x
    using that reported_iff [of s a "rqe_nonce x" "rqe_hash x"] unfolding queue_pairs_report by blast
  have "\<forall>p \<in> set ?ps. known_in (from_pending_hashes ?hs) p"
    using reported by (fastforce simp: known_in_def from_pending_core pending_hashes_set)
  from seed_pairs_core [OF this]
  have core: "core_in (mp_txs ?t) h = (if is_pending s h then Some (None, None, Pending) else None)" for h
    by (simp add: from_pending_core pending_hashes_set)
  have filled: "(a, n) \<in> (\<lambda>p. (fst p, rqe_nonce (snd p))) ` set ?ps \<longleftrightarrow>
      (\<exists>h. slot_of s a n = Some h \<and> is_pending s h)" for a n
  proof
    assume "(a, n) \<in> (\<lambda>p. (fst p, rqe_nonce (snd p))) ` set ?ps"
    then obtain x where "(a, x) \<in> set ?ps" "n = rqe_nonce x" by auto
    then show "\<exists>h. slot_of s a n = Some h \<and> is_pending s h" using reported by blast
  next
    assume "\<exists>h. slot_of s a n = Some h \<and> is_pending s h"
    then obtain x where "(a, x) \<in> set ?ps" "rqe_nonce x = n"
      using reported_iff [of s a n] unfolding queue_pairs_report by blast
    then show "(a, n) \<in> (\<lambda>p. (fst p, rqe_nonce (snd p))) ` set ?ps"
      by (intro image_eqI [of _ _ "(a, x)"]) simp_all
  qed
  have "\<forall>p \<in> set ?ps. slot_of s (fst p) (rqe_nonce (snd p)) = Some (rqe_hash (snd p))"
    using reported by force
  note slots = seed_pairs_slot [where f = "slot_of s", OF this, of "from_pending_hashes ?hs"]
  have slot: "slot_of ?t a n = Some h \<longleftrightarrow> slot_of s a n = Some h \<and> is_pending s h" for a n h
    unfolding slots filled from_pending_core by auto
  have "located loc ?t"
    using assms slot by (simp add: located_def core at_home_def)
  moreover have "is_pending s h = is_pending ?t h" for h by (simp add: pending_in_core [of "mp_txs ?t"] core)
  ultimately show ?thesis
    using assms slot unfolding agree_def t by blast
qed

lemma agree_pending: "agree loc s t \<Longrightarrow> sort (pending_hashes s) = sort (pending_hashes t)"
proof -
  assume "agree loc s t"
  then have "set (pending_hashes s) = set (pending_hashes t)"
    by (auto simp: pending_hashes_set agree_def)
  moreover have "distinct (pending_hashes u)" for u
    using pending_hashes_sorted [of u] by (simp add: strict_sorted_iff)
  ultimately show ?thesis
    by (intro sorted_distinct_set_unique) simp_all
qed

lemma filter_after:
  fixes k :: "'a \<Rightarrow> 'b::linorder"
  assumes "sorted_wrt (<) (map k xs)" and "i < length xs"
  shows "filter (\<lambda>x. k (xs ! i) < k x) xs = drop (Suc i) xs"
    and "filter (\<lambda>j. k (xs ! i) < k (xs ! j)) [0..<length xs] = [Suc i..<length xs]"
proof -
  have less: "k (xs ! a) < k (xs ! b)" if "a < b" "b < length xs" for a b
    using assms(1) that by (simp add: sorted_wrt_iff_nth_less)
  have iff: "k (xs ! i) < k (xs ! j) \<longleftrightarrow> i < j" if "j < length xs" for j
    using less [of i j] less [of j i] assms(2) that by (cases i j rule: linorder_cases) auto
  have "[0..<length xs] = [0..<Suc i] @ [Suc i..<length xs]"
    using upt_add_eq_append [of 0 "Suc i" "length xs - Suc i",
      unfolded le_add_diff_inverse [OF Suc_leI [OF assms(2)]]] by simp
  moreover have "filter (\<lambda>j. k (xs ! i) < k (xs ! j)) [0..<Suc i] = []"
    using iff assms(2) by (simp add: filter_empty_conv del: upt_Suc)
  moreover have "filter (\<lambda>j. k (xs ! i) < k (xs ! j)) [Suc i..<length xs] = [Suc i..<length xs]"
    using iff by (auto simp: filter_id_conv)
  ultimately show idx: "filter (\<lambda>j. k (xs ! i) < k (xs ! j)) [0..<length xs] = [Suc i..<length xs]"
    by (simp only: filter_append append_Nil)
  have "filter (\<lambda>x. k (xs ! i) < k x) xs =
      map (nth xs) (filter (\<lambda>j. k (xs ! i) < k (xs ! j)) [0..<length xs])"
    by (subst (2) map_nth [symmetric]) (simp add: filter_map comp_def)
  also have "\<dots> = drop (Suc i) xs" unfolding idx using map_nth [of xs] by (metis drop_map drop_upt add_0)
  finally show "filter (\<lambda>x. k (xs ! i) < k x) xs = drop (Suc i) xs" .
qed

lemma apply_events_append: "apply_events s (xs @ ys) = apply_events (apply_events s xs) ys"
  by (simp add: apply_events_def)

lemma snapshot_position:
  assumes "lifecycle_snapshot events c = Some cp"
  obtains i where "i < length (sort_deterministic events)"
    and "ee_seq_id (sort_deterministic events ! i) = c"
    and "cp = checkpoint_of (state_at default_mempool_state (sort_deterministic events) i) c"
proof -
  let ?es = "sort_deterministic events"
  obtain i js where f: "filter (\<lambda>i. ee_seq_id (?es ! i) = c) [0..<length ?es] = i # js"
    and cp: "cp = checkpoint_of (state_at default_mempool_state ?es i) (ee_seq_id (?es ! i))"
    using assms by (auto simp: lifecycle_snapshot_def checkpoints_at Let_def map_eq_Cons_conv
        split: list.splits)
  have "i \<in> set (filter (\<lambda>i. ee_seq_id (?es ! i) = c) [0..<length ?es])" unfolding f by simp
  then have "i < length ?es" "ee_seq_id (?es ! i) = c" by simp_all
  then show ?thesis using that [of i] cp by simp
qed

section \<open>Properties\<close>

text \<open>
  Property C17. In either mode a replay emits, at every stride-th event of the sorted stream
  and at its last event, the frame of the state after the events up to that one; so the two
  modes yield the same frames.
\<close>

theorem replay_modes_equivalent:
  "let es = sort_deterministic events; k = max stride 1
   in replay_frames events DeterministicEventReplay stride =
        map (\<lambda>i. frame_of (apply_events default_mempool_state (take (Suc i) es)) (es ! i))
          (filter (\<lambda>i. k dvd Suc i \<or> Suc i = length es) [0..<length es]) \<and>
      replay_frames events SnapshotReplay stride = replay_frames events DeterministicEventReplay stride"
  by (simp add: replay_frames_at Let_def dvd_eq_mod_eq_0)

text \<open>
  The parity check holds for any stream, even with duplicate sequence ids: it
  reports exactly the requested ids that occur in the stream, and reports parity for each.
\<close>

theorem lifecycle_parity_total:
  "bt_get (lifecycle_parity events ids) q =
    (if q \<in> set ids \<and> q \<in> set (map ee_seq_id events) then Some True else None)"
proof -
  let ?es = "sort_deterministic events"
  let ?s = "state_at default_mempool_state ?es"
  let ?last = "find (\<lambda>i. ee_seq_id (?es ! i) = q) (rev [0..<length ?es])"
  have frames: "replay_frames events DeterministicEventReplay 1 =
      map (\<lambda>i. frame_of (?s i) (?es ! i)) [0..<length ?es]"
    by (simp add: replay_frames_at Let_def)
  have by_seq: "bt_get (foldl (\<lambda>m f. bt_insert (rf_seq_hi f) (rf_pending f) m) bt_empty
      (replay_frames events DeterministicEventReplay 1)) q =
    map_option (\<lambda>i. sort (pending_hashes (?s i))) ?last"
    unfolding frames bt_get_foldl_insert rev_map find_map
    by (simp add: frame_of_def comp_def split: option.split)
  have absent: "?last = None \<longleftrightarrow> q \<notin> set (map ee_seq_id events)"
  proof -
    have "q \<in> set (map ee_seq_id events) \<longleftrightarrow> q \<in> set (map ee_seq_id ?es)" by simp
    also have "\<dots> \<longleftrightarrow> (\<exists>i < length ?es. ee_seq_id (?es ! i) = q)"
      by (auto simp only: in_set_conv_nth length_map nth_map)
    finally show ?thesis by (auto simp: find_None_iff)
  qed
  show ?thesis
  proof (cases "q \<in> set ids")
    case True
    have "find (\<lambda>i. ee_seq_id (?es ! i) = q) (filter (\<lambda>i. ee_seq_id (?es ! i) \<in> set ids)
        (rev [0..<length ?es])) = ?last"
      using True by (intro find_filter) simp
    then have last: "find (\<lambda>c. lc_seq_id c = q) (rev (lifecycle_checkpoints events ids)) =
        map_option (\<lambda>i. checkpoint_of (?s i) (ee_seq_id (?es ! i))) ?last"
      by (simp add: checkpoints_at Let_def rev_map rev_filter find_map checkpoint_of_def comp_def)
    show ?thesis
    proof (cases ?last)
      case None
      then show ?thesis
        using absent last by (simp add: lifecycle_parity_def Let_def bt_get_foldl_insert)
    next
      case (Some i)
      then have "ee_seq_id (?es ! i) = q" by (auto simp: find_Some_iff)
      then show ?thesis
        using Some True absent last by_seq
        by (simp add: lifecycle_parity_def Let_def bt_get_foldl_insert [where k = lc_seq_id]
            checkpoint_of_def)
    qed
  next
    case False
    then have "find (\<lambda>c. lc_seq_id c = q) (rev (lifecycle_checkpoints events ids)) = None"
      by (auto simp: find_None_iff checkpoints_at Let_def checkpoint_of_def)
    then show ?thesis
      using False by (simp add: lifecycle_parity_def Let_def bt_get_foldl_insert)
  qed
qed

text \<open>
  Property C16. Resuming from a checkpoint agrees with the full replay on the pending set
  after every later event, for a stream that names each transaction with one sender and
  nonce and has distinct sequence ids, when no reorganisation follows the checkpoint.
\<close>

theorem resume_agrees_with_replay:
  assumes "lifecycle_snapshot events c = Some cp"
    and "list_all (\<lambda>e. named_at loc (ee_payload e)) events"
    and "distinct (map ee_seq_id events)"
    and "list_all (\<lambda>e. reorg_free (ee_payload e)) (filter (\<lambda>e. c < ee_seq_id e) events)"
  shows "map (\<lambda>f. (rf_seq_hi f, rf_pending f)) (replay_from_checkpoint events cp 1) =
    map (\<lambda>f. (rf_seq_hi f, rf_pending f))
      (filter (\<lambda>f. c < rf_seq_hi f) (replay_frames events DeterministicEventReplay 1))"
proof -
  let ?es = "sort_deterministic events" and ?s0 = default_mempool_state
  obtain i where i: "i < length ?es" "ee_seq_id (?es ! i) = c"
    and cp: "cp = checkpoint_of (state_at ?s0 ?es i) c"
    by (rule snapshot_position [OF assms(1)])
  let ?F = "state_at ?s0 ?es i" and ?R = "tail_state cp" and ?tail = "drop (Suc i) ?es"
  have "distinct (map ee_seq_id ?es)"
    using assms(3) by (metis mset_eq_imp_distinct_iff mset_map mset_sort_deterministic)
  then have sorted: "sorted_wrt (<) (map ee_seq_id ?es)"
    using sort_deterministic_seq_sorted by (simp add: strict_sorted_iff)
  note after = filter_after [OF sorted i(1), unfolded i(2)]
  have named: "\<forall>e \<in> set ?es. named_at loc (ee_payload e)"
    using assms(2) by (simp add: list_all_iff)
  have tail_ok: "list_all (\<lambda>e. named_at loc (ee_payload e) \<and> reorg_free (ee_payload e)) (take n ?tail)" for n
    using assms(4) named set_take_subset [of n ?tail]
    by (auto simp: list_all_iff simp flip: after(1))
  have "list_all (\<lambda>e. named_at loc (ee_payload e)) (take (Suc i) ?es)"
    using named by (auto simp: list_all_iff dest: in_set_takeD)
  then have "agree loc ?F ?R"
    unfolding cp using located_run by (intro agree_checkpoint) blast
  then have run: "agree loc (state_at ?s0 ?es (Suc i + k)) (state_at ?R ?tail k)" for k
    using agree_run [OF _ tail_ok, of ?F ?R "Suc k"]
    by (simp add: take_add [of "Suc i" "Suc k" ?es, simplified] flip: apply_events_append)
  let ?f = "\<lambda>f. (rf_seq_hi f, rf_pending f)"
  let ?g = "\<lambda>j. (ee_seq_id (?es ! j), sort (pending_hashes (state_at ?s0 ?es j)))"
  have full: "map ?f (filter (\<lambda>f. c < rf_seq_hi f) (replay_frames events DeterministicEventReplay 1)) =
      map ?g [Suc i..<length ?es]"
    by (simp add: replay_frames_at Let_def filter_map comp_def frame_of_def after(2) [simplified])
  have "map ?f (replay_from_checkpoint events cp 1) =
      map (\<lambda>k. (ee_seq_id (?tail ! k), sort (pending_hashes (state_at ?R ?tail k)))) [0..<length ?tail]"
    by (simp add: replay_from_checkpoint_def cp checkpoint_of_def after(1) deterministic_loop_frames
        frame_of_def comp_def)
  also have "\<dots> = map (\<lambda>k. ?g (Suc i + k)) [0..<length ?tail]"
    using i(1) by (intro map_cong refl) (simp add: agree_pending [OF run, simplified])
  also have "\<dots> = map ?g [Suc i..<length ?es]"
  proof -
    have len: "length ?tail + Suc i = length ?es" using i(1) by simp
    have "[Suc i..<length ?es] = map (\<lambda>k. Suc i + k) [0..<length ?tail]"
      using map_add_upt [of "Suc i" "length ?tail"] unfolding len by (simp only: add.commute)
    then show ?thesis by (simp only: map_map comp_def)
  qed
  finally show ?thesis using full by simp
qed

text \<open>
  The summary of a difference is symmetric in the two sequence ids, lists in
  increasing order what is pending at the later checkpoint only and at the earlier one
  only, and its counts balance; it is missing exactly when one of the ids does not occur.
\<close>

theorem diff_summary_exact:
  "replay_diff_summary_of sha256 events a b = replay_diff_summary_of sha256 events b a \<and>
   (replay_diff_summary_of sha256 events a b = None \<longleftrightarrow>
      lifecycle_snapshot events a = None \<or> lifecycle_snapshot events b = None) \<and>
   (case replay_diff_summary_of sha256 events a b of
      None \<Rightarrow> True
    | Some d \<Rightarrow>
        rds_from_seq_id d = min a b \<and> rds_to_seq_id d = max a b \<and>
        (let old = lc_pending_hashes (the (lifecycle_snapshot events (min a b)));
             new = lc_pending_hashes (the (lifecycle_snapshot events (max a b)))
         in sorted_wrt (<) (rds_added_pending d) \<and> set (rds_added_pending d) = set new - set old \<and>
            sorted_wrt (<) (rds_removed_pending d) \<and> set (rds_removed_pending d) = set old - set new \<and>
            rds_from_pending_count d + length (rds_added_pending d) =
              rds_to_pending_count d + length (rds_removed_pending d)))"
proof -
  have distinct: "distinct (lc_pending_hashes cp)" if "lifecycle_snapshot events c = Some cp" for c cp
    using snapshot_position [OF that] pending_hashes_sorted
    by (metis checkpoint_of_def distinct_sort lifecycle_checkpoint.select_convs(2) strict_sorted_iff)
  have balance: "length xs + card (set ys - set xs) = length ys + card (set xs - set ys)"
    if "distinct xs" "distinct ys" for xs ys :: "TxHash list"
  proof -
    have "card (set zs - set ws) + card (set zs \<inter> set ws) = length zs" if "distinct zs"
      for zs ws :: "TxHash list"
      using card_Diff_subset_Int [of "set zs" "set ws"] card_mono [of "set zs" "set zs \<inter> set ws"]
      by (simp add: distinct_card [OF that])
    from this [OF that(1), of ys] this [OF that(2), of xs] show ?thesis by (simp add: Int_commute)
  qed
  have summary: "a \<le> b \<Longrightarrow> (case replay_diff_summary_of sha256 events a b of
      None \<Rightarrow> True
    | Some d \<Rightarrow>
        rds_from_seq_id d = a \<and> rds_to_seq_id d = b \<and>
        (let old = lc_pending_hashes (the (lifecycle_snapshot events a));
             new = lc_pending_hashes (the (lifecycle_snapshot events b))
         in sorted_wrt (<) (rds_added_pending d) \<and> set (rds_added_pending d) = set new - set old \<and>
            sorted_wrt (<) (rds_removed_pending d) \<and> set (rds_removed_pending d) = set old - set new \<and>
            rds_from_pending_count d + length (rds_added_pending d) =
              rds_to_pending_count d + length (rds_removed_pending d)))" for a b
    using distinct balance
    by (auto simp: replay_diff_summary_of_def Let_def split: option.splits bind_splits)
  have sym: "replay_diff_summary_of sha256 events a b = replay_diff_summary_of sha256 events b a"
    by (auto simp: replay_diff_summary_of_def)
  have "replay_diff_summary_of sha256 events a b = None \<longleftrightarrow>
      lifecycle_snapshot events a = None \<or> lifecycle_snapshot events b = None"
    by (auto simp: replay_diff_summary_of_def Let_def bind_eq_None_conv split: option.splits)
  moreover have "case replay_diff_summary_of sha256 events a b of
      None \<Rightarrow> True
    | Some d \<Rightarrow>
        rds_from_seq_id d = min a b \<and> rds_to_seq_id d = max a b \<and>
        (let old = lc_pending_hashes (the (lifecycle_snapshot events (min a b)));
             new = lc_pending_hashes (the (lifecycle_snapshot events (max a b)))
         in sorted_wrt (<) (rds_added_pending d) \<and> set (rds_added_pending d) = set new - set old \<and>
            sorted_wrt (<) (rds_removed_pending d) \<and> set (rds_removed_pending d) = set old - set new \<and>
            rds_from_pending_count d + length (rds_added_pending d) =
              rds_to_pending_count d + length (rds_removed_pending d))"
  proof (cases "a \<le> b")
    case True
    then have "min a b = a" "max a b = b" by simp_all
    then show ?thesis using summary [OF True] by (simp only:)
  next
    case False
    then have "min a b = b" "max a b = a" by simp_all
    then show ?thesis using summary [of b a] False unfolding sym by (simp only: linear)
  qed
  ultimately show ?thesis using sym by blast
qed

section \<open>Examples\<close>

theorem resume_agrees_with_replay_witness:
  "\<exists>cp. lifecycle_snapshot sample_stream 2 = Some cp \<and>
    map (\<lambda>f. (rf_seq_hi f, rf_pending f)) (replay_from_checkpoint sample_stream cp 1) =
    map (\<lambda>f. (rf_seq_hi f, rf_pending f))
      (filter (\<lambda>f. 2 < rf_seq_hi f) (replay_frames sample_stream DeterministicEventReplay 1))"
proof -
  have "lifecycle_snapshot sample_stream 2 \<noteq> None" by code_simp
  then obtain cp where cp: "lifecycle_snapshot sample_stream 2 = Some cp" by blast
  have "list_all (\<lambda>e. named_at sample_location (ee_payload e)) sample_stream" by code_simp
  moreover have "distinct (map ee_seq_id sample_stream)" by code_simp
  moreover have "list_all (\<lambda>e. reorg_free (ee_payload e)) (filter (\<lambda>e. 2 < ee_seq_id e) sample_stream)"
    by code_simp
  ultimately show ?thesis using resume_agrees_with_replay [OF cp] cp by blast
qed

text \<open>
  The checkpoint holds neither confirmed transactions nor their blocks: a reorganisation
  after it does not reopen a transaction that was confirmed before it, while the full replay
  does.
\<close>

definition reorg_stream :: "event_envelope list" where
  "reorg_stream =
     [event_at 1 (decoded_at 11 9 5),
      event_at 2 (TxConfirmedProvisional
        \<lparr>confirmed_hash = 11, confirmed_block_number = 100, confirmed_block_hash = 77\<rparr>),
      event_at 3 (TxReorged
        \<lparr>reorged_hash = 11, reorged_old_block_hash = 77, reorged_new_block_hash = 78\<rparr>)]"

theorem resume_forgets_confirmations:
  "map rf_pending (replay_frames reorg_stream DeterministicEventReplay 1) = [[11], [], [11]] \<and>
   map rf_pending (replay_from_checkpoint reorg_stream (the (lifecycle_snapshot reorg_stream 2)) 1) = [[]]"
  by code_simp

text \<open>
  The pending hashes are inserted first, so the queue states of the checkpoint are never
  taken over: a transaction that was explicitly blocked is reported ready after resuming.
\<close>

definition blocked_stream :: "event_envelope list" where
  "blocked_stream =
     [event_at 1 (TxBlocked \<lparr>blocked_hash = 11, blocked_sender = 9, blocked_nonce = 5,
        blocked_expected_nonce = Some 3\<rparr>),
      event_at 2 (TxFetched \<lparr>fetched_hash = 12, fetched_at_unix_ms = 0\<rparr>)]"

theorem resume_forgets_queue_states:
  "rf_sender_queues (last (replay_frames blocked_stream DeterministicEventReplay 1)) =
     [\<lparr>rsq_sender = 9, rsq_queued = [\<lparr>rqe_hash = 11, rqe_nonce = 5, rqe_state = ReplayBlocked 3\<rparr>]\<rparr>] \<and>
   rf_sender_queues (last (replay_from_checkpoint blocked_stream
     (the (lifecycle_snapshot blocked_stream 1)) 1)) =
     [\<lparr>rsq_sender = 9, rsq_queued = [\<lparr>rqe_hash = 11, rqe_nonce = 5, rqe_state = ReplayReady\<rparr>]\<rparr>]"
  by code_simp

text \<open>
  A ready event for an occupied slot takes the slot over without closing its occupant, which
  stays pending in no queue.
\<close>

theorem ready_displaces_pending:
  "let s = apply_events default_mempool_state
      [event_at 1 (decoded_at 11 9 5),
       event_at 2 (TxReady \<lparr>ready_hash = 12, ready_sender = 9, ready_nonce = 5\<rparr>)]
   in pending_hashes s = [11, 12] \<and> map (map rqe_hash \<circ> rsq_queued) (sender_queues s) = [[12]]"
  by code_simp

end
