(* ===== verification/Replay_Hash.thy ===== *)
theory Replay_Hash
  imports Replay
begin

text \<open>
  The digests of checkpoints and frames identify what they digest: the byte encodings of the
  crate \<^verbatim>\<open>replay\<close> (\<^verbatim>\<open>lifecycle_checkpoint_hash\<close>,
  \<^verbatim>\<open>frame_checkpoint_hash\<close>) are prefix codes, built from fixed-length fields,
  tags and length-prefixed sequences.
\<close>

section \<open>Prefix codes\<close>

text \<open>
  The contract of an encoder on the values of a domain: what follows an encoded value never
  changes which value it is.
\<close>

locale prefix_code =
  fixes enc :: "'a \<Rightarrow> u8 list" and valid :: "'a \<Rightarrow> bool"
  assumes prefix_free: "valid x \<Longrightarrow> valid y \<Longrightarrow> enc x @ r = enc y @ s \<Longrightarrow> x = y \<and> r = s"
begin

lemma enc_inject: "valid x \<Longrightarrow> valid y \<Longrightarrow> enc x @ r = enc y @ s \<longleftrightarrow> x = y \<and> r = s"
  using prefix_free by blast

lemma concat_inject:
  "length xs = length ys \<Longrightarrow> list_all valid xs \<Longrightarrow> list_all valid ys \<Longrightarrow>
    concat (map enc xs) @ r = concat (map enc ys) @ s \<longleftrightarrow> xs = ys \<and> r = s"
  by (induction xs ys rule: list_induct2) (auto simp: enc_inject)

end

lemma prefix_code_fixed:
  assumes "\<And>x. length (enc x) = n" and "\<And>x y. valid x \<Longrightarrow> valid y \<Longrightarrow> enc x = enc y \<Longrightarrow> x = y"
  shows "prefix_code enc valid"
  by unfold_locales (use assms in auto)

lemma length_byte_loop [simp]: "length (byte_loop n x) = n"
  by (induction n arbitrary: x) simp_all

lemma length_le_bytes [simp]: "length (le_bytes n w) = n"
  by (simp add: le_bytes_def)

lemma length_be_bytes [simp]: "length (be_bytes n w) = n"
  by (simp add: be_bytes_def)

lemma byte_loop_inj:
  "0 \<le> x \<Longrightarrow> x < 256 ^ n \<Longrightarrow> 0 \<le> y \<Longrightarrow> y < 256 ^ n \<Longrightarrow> byte_loop n x = byte_loop n y \<Longrightarrow> x = y"
proof (induction n arbitrary: x y)
  case (Suc n)
  have head: "(word_of_int (x mod 256) :: u8) = word_of_int (y mod 256)"
    and tail: "byte_loop n (x div 256) = byte_loop n (y div 256)"
    using Suc.prems(5) by simp_all
  have "uint (word_of_int (z mod 256) :: u8) = z mod 256" for z
    by (simp add: uint_word_of_int)
  then have "x mod 256 = y mod 256" using head by metis
  moreover have "x div 256 = y div 256"
    using Suc.prems by (intro Suc.IH [OF _ _ _ _ tail]) (simp_all add: div_less_iff_less_mult)
  ultimately show ?case by (metis mult_div_mod_eq)
qed simp

lemma le_bytes_inj:
  fixes v w :: "'a::len word"
  assumes "LENGTH('a) \<le> 8 * n" and "le_bytes n v = le_bytes n w"
  shows "v = w"
proof -
  have "uint u < 256 ^ n" for u :: "'a word"
  proof -
    have "uint u < 2 ^ LENGTH('a)" by simp
    also have "\<dots> \<le> 2 ^ (8 * n)" using assms(1) by (rule power_increasing) simp
    finally show ?thesis by (simp add: power_mult)
  qed
  then show ?thesis
    using byte_loop_inj [of "uint v" n "uint w"] assms(2) by (simp add: le_bytes_def word_uint_eq_iff)
qed

lemma le_bytes_eq [simp]: "LENGTH('a) \<le> 8 * n \<Longrightarrow> le_bytes n v = le_bytes n w \<longleftrightarrow> v = w"
  for v w :: "'a::len word"
  using le_bytes_inj by blast

lemma be_bytes_eq [simp]: "LENGTH('a) \<le> 8 * n \<Longrightarrow> be_bytes n v = be_bytes n w \<longleftrightarrow> v = w"
  for v w :: "'a::len word"
  by (simp add: be_bytes_def)

interpretation u64_code: prefix_code "le_bytes 8 :: u64 \<Rightarrow> u8 list" "\<lambda>_. True"
  by (rule prefix_code_fixed [of _ 8]) simp_all

interpretation hash_code: prefix_code hash_bytes "\<lambda>_. True"
  by (rule prefix_code_fixed [of _ 32]) simp_all

interpretation address_code: prefix_code "be_bytes 20 :: Address \<Rightarrow> u8 list" "\<lambda>_. True"
  by (rule prefix_code_fixed [of _ 20]) simp_all

interpretation state_code: prefix_code state_bytes "\<lambda>_. True"
  by unfold_locales (auto simp: state_bytes_def u64_code.enc_inject split: replay_queue_state.splits)

text \<open>A sequence behind its length.\<close>

definition counted :: "('a \<Rightarrow> u8 list) \<Rightarrow> 'a list \<Rightarrow> u8 list" where
  "counted enc xs = le_bytes 8 (of_nat (length xs) :: u64) @ concat (map enc xs)"

lemma length_word_inj:
  assumes "m < 2 ^ 64" and "n < 2 ^ 64"
  shows "(of_nat m :: u64) = of_nat n \<longleftrightarrow> m = n"
proof -
  have "unat (of_nat k :: u64) = k" if "k < 2 ^ 64" for k
    using that by (simp add: unat_of_nat)
  then show ?thesis using assms by metis
qed

lemma prefix_code_counted:
  assumes "prefix_code enc valid"
  shows "prefix_code (counted enc) (\<lambda>xs. length xs < 2 ^ 64 \<and> list_all valid xs)"
proof
  fix xs ys r s
  assume xs: "length xs < 2 ^ 64 \<and> list_all valid xs" and ys: "length ys < 2 ^ 64 \<and> list_all valid ys"
    and eq: "counted enc xs @ r = counted enc ys @ s"
  then have len: "length xs = length ys"
    and rest: "concat (map enc xs) @ r = concat (map enc ys) @ s"
    by (simp_all add: counted_def u64_code.enc_inject length_word_inj)
  show "xs = ys \<and> r = s"
    using rest prefix_code.concat_inject [OF assms len] xs ys by blast
qed

section \<open>The queue encoding\<close>

definition entry_bytes :: "replay_sender_queue_entry \<Rightarrow> u8 list" where
  "entry_bytes x = hash_bytes (rqe_hash x) @ le_bytes 8 (rqe_nonce x) @ state_bytes (rqe_state x)"

definition sender_bytes :: "replay_sender_queue \<Rightarrow> u8 list" where
  "sender_bytes q = be_bytes 20 (rsq_sender q) @ counted entry_bytes (rsq_queued q)"

lemma queue_bytes_counted: "queue_bytes = counted sender_bytes"
proof
  show "queue_bytes qs = counted sender_bytes qs" for qs
    unfolding queue_bytes_def counted_def sender_bytes_def entry_bytes_def [abs_def] by simp
qed

interpretation entry_code: prefix_code entry_bytes "\<lambda>_. True"
proof
  show "x = y \<and> r = s" if "entry_bytes x @ r = entry_bytes y @ s" for x y r s
    using that by (cases x; cases y)
      (simp add: entry_bytes_def hash_code.enc_inject u64_code.enc_inject state_code.enc_inject)
qed

definition fits_queue :: "replay_sender_queue \<Rightarrow> bool" where
  "fits_queue q \<longleftrightarrow> length (rsq_queued q) < 2 ^ 64"

interpretation sender_code: prefix_code sender_bytes fits_queue
proof
  fix x y r s
  assume "fits_queue x" "fits_queue y" and eq: "sender_bytes x @ r = sender_bytes y @ s"
  then show "x = y \<and> r = s"
    using prefix_code.enc_inject [OF prefix_code_counted [OF entry_code.prefix_code_axioms],
      of "rsq_queued x" "rsq_queued y" r s]
    by (cases x; cases y) (auto simp: sender_bytes_def address_code.enc_inject fits_queue_def list_all_iff)
qed

lemma queue_bytes_inject:
  assumes "length qs < 2 ^ 64 \<and> list_all fits_queue qs" and "length ps < 2 ^ 64 \<and> list_all fits_queue ps"
  shows "queue_bytes qs = queue_bytes ps \<longleftrightarrow> qs = ps"
  using prefix_code.enc_inject [OF prefix_code_counted [OF sender_code.prefix_code_axioms], OF assms,
    of "[]" "[]"]
  by (simp add: queue_bytes_counted)

section \<open>Properties\<close>

text \<open>Lengths of in-memory collections are below the range of \<^verbatim>\<open>usize\<close>.\<close>

definition fits_checkpoint :: "lifecycle_checkpoint \<Rightarrow> bool" where
  "fits_checkpoint cp \<longleftrightarrow>
     length (lc_pending_hashes cp) < 2 ^ 64 \<and> length (lc_sender_queues cp) < 2 ^ 64 \<and>
     list_all fits_queue (lc_sender_queues cp)"

lemma checkpoint_preimage_inject:
  assumes "fits_checkpoint a" and "fits_checkpoint b"
  shows "checkpoint_preimage a = checkpoint_preimage b \<longleftrightarrow>
    lc_seq_id a = lc_seq_id b \<and> mset (lc_pending_hashes a) = mset (lc_pending_hashes b) \<and>
    lc_sender_queues a = lc_sender_queues b"
proof -
  let ?code = "\<lambda>cp. counted hash_bytes (sort (lc_pending_hashes cp)) @ queue_bytes (lc_sender_queues cp)"
  have pre: "checkpoint_preimage cp = le_bytes 8 (lc_seq_id cp) @ ?code cp" for cp
    by (simp add: checkpoint_preimage_def counted_def Let_def)
  have "sort xs = sort ys \<longleftrightarrow> mset xs = mset ys" for xs ys :: "TxHash list"
  proof
    show "mset xs = mset ys" if "sort xs = sort ys" using arg_cong [OF that, of mset] by simp
    show "sort xs = sort ys" if "mset xs = mset ys" by (rule properties_for_sort) (simp_all add: that)
  qed
  then have sort: "sort (lc_pending_hashes a) = sort (lc_pending_hashes b) \<longleftrightarrow>
      mset (lc_pending_hashes a) = mset (lc_pending_hashes b)" .
  have valid: "length (sort (lc_pending_hashes cp)) < 2 ^ 64 \<and> list_all (\<lambda>_. True) (sort (lc_pending_hashes cp))"
    if "fits_checkpoint cp" for cp
    using that by (simp add: fits_checkpoint_def list_all_iff)
  have queues: "queue_bytes (lc_sender_queues a) = queue_bytes (lc_sender_queues b) \<longleftrightarrow>
      lc_sender_queues a = lc_sender_queues b"
    using assms by (intro queue_bytes_inject) (simp_all add: fits_checkpoint_def)
  have "?code a = ?code b \<longleftrightarrow> sort (lc_pending_hashes a) = sort (lc_pending_hashes b) \<and>
      queue_bytes (lc_sender_queues a) = queue_bytes (lc_sender_queues b)"
    by (rule prefix_code.enc_inject [OF prefix_code_counted [OF hash_code.prefix_code_axioms]
          valid [OF assms(1)] valid [OF assms(2)]])
  then show ?thesis
    unfolding pre u64_code.enc_inject [OF TrueI TrueI] sort queues by simp
qed

text \<open>
  Verifying a checkpoint against the hash of another one succeeds exactly when
  both have the same sequence id, the same pending hashes in any order, and the same sender
  queues, and reports both hashes otherwise, provided that the hash function does not collide
  on the two encodings.
\<close>

theorem checkpoint_hash_identifies:
  assumes "fits_checkpoint a" and "fits_checkpoint b"
    and "sha256 (checkpoint_preimage a) = sha256 (checkpoint_preimage b) \<Longrightarrow>
      checkpoint_preimage a = checkpoint_preimage b"
  shows "verify_lifecycle_checkpoint_hash sha256 a (lifecycle_checkpoint_hash sha256 b) =
    (if lc_seq_id a = lc_seq_id b \<and> mset (lc_pending_hashes a) = mset (lc_pending_hashes b) \<and>
        lc_sender_queues a = lc_sender_queues b
     then Inr (lifecycle_checkpoint_hash sha256 b)
     else Inl (CheckpointMismatch (lc_seq_id a) (lifecycle_checkpoint_hash sha256 b)
       (lifecycle_checkpoint_hash sha256 a)))"
proof -
  have "lifecycle_checkpoint_hash sha256 a = lifecycle_checkpoint_hash sha256 b \<longleftrightarrow>
      checkpoint_preimage a = checkpoint_preimage b"
    using assms(3) by (auto simp: lifecycle_checkpoint_hash_def)
  then show ?thesis
    unfolding checkpoint_preimage_inject [OF assms(1,2)]
    by (auto simp: verify_lifecycle_checkpoint_hash_def Let_def)
qed

text \<open>
  A replay does not depend on the order in which the events are handed over:
  with distinct order keys, any permutation of them gives the same frames, checkpoints and
  checkpoint hashes, and full parity of the hashes.
\<close>

theorem replay_order_independent:
  assumes "mset events = mset events'" and "distinct (map order_key events)"
  shows "replay_frames events mode stride = replay_frames events' mode stride \<and>
    lifecycle_checkpoints events ids = lifecycle_checkpoints events' ids \<and>
    deterministic_checkpoint_hashes sha256 events stride =
      deterministic_checkpoint_hashes sha256 events' stride \<and>
    current_lifecycle events h = current_lifecycle events' h"
proof -
  have sort: "sort_deterministic events' = sort_deterministic events"
    using sort_deterministic_unique [OF assms] by simp
  have frames: "replay_frames events' m k = replay_frames events m k" for m k
    by (simp add: replay_frames_at sort)
  then show ?thesis
    by (simp add: deterministic_checkpoint_hashes_def checkpoints_at current_lifecycle_def sort)
qed

lemma find_distinct: "distinct (map k xs) \<Longrightarrow> x \<in> set xs \<Longrightarrow> find (\<lambda>y. k y = k x) xs = Some x"
  by (induction xs) (auto simp: image_iff)

lemma hash_seq_ids_distinct:
  assumes "distinct (map ee_seq_id events)"
  shows "distinct (map ch_seq_id (deterministic_checkpoint_hashes sha256 events stride))"
proof -
  let ?es = "sort_deterministic events"
  have "distinct (map ee_seq_id ?es)"
    using assms by (metis mset_eq_imp_distinct_iff mset_map mset_sort_deterministic)
  moreover have "map (\<lambda>i. ee_seq_id (?es ! i)) [0..<length ?es] = map ee_seq_id ?es"
    by (metis comp_apply map_map map_nth map_eq_conv)
  ultimately show ?thesis
    by (simp add: deterministic_checkpoint_hashes_def replay_frames_at Let_def comp_def frame_of_def
        distinct_map_filter)
qed

text \<open>
  The parity check compares a stream with any permutation of it as fully
  matching when the sequence ids are distinct; only the empty stream takes the special value.
\<close>

theorem permuted_stream_full_parity:
  assumes "mset events = mset events'" and "distinct (map ee_seq_id events)" and "events \<noteq> []"
  shows "\<exists>n > 0. checkpoint_hash_parity_percent sha256 percent hundred zero events events' stride =
    percent n n"
proof -
  let ?ref = "deterministic_checkpoint_hashes sha256 events (max stride 1)"
  let ?by_seq = "foldl (\<lambda>m c. bt_insert (ch_seq_id c) (ch_checkpoint_hash c) m) bt_empty ?ref"
  have keys: "distinct (map order_key events)"
    using assms(2) by (auto simp: distinct_map inj_on_def order_key_def)
  have hashes: "deterministic_checkpoint_hashes sha256 events' (max stride 1) = ?ref"
    using sort_deterministic_unique [OF assms(1) keys]
    by (simp add: deterministic_checkpoint_hashes_def replay_frames_at)
  let ?k = "max (max stride 1) 1"
  have last: "length events - 1 \<in> set (filter (\<lambda>i. (i + 1) mod ?k = 0 \<or> i + 1 = length events)
      [0..<length events])"
    using assms(3) by simp
  have "filter (\<lambda>i. (i + 1) mod ?k = 0 \<or> i + 1 = length events) [0..<length events] \<noteq> []"
    using last by (metis empty_iff empty_set)
  then have ne: "?ref \<noteq> []"
    by (simp add: deterministic_checkpoint_hashes_def replay_frames_at Let_def)
  have "distinct (map ch_seq_id (rev ?ref))"
    using hash_seq_ids_distinct [OF assms(2)] by (simp flip: rev_map)
  then have "bt_get ?by_seq (ch_seq_id c) = Some (ch_checkpoint_hash c)" if "c \<in> set ?ref" for c
    using find_distinct [of ch_seq_id "rev ?ref" c] that by (simp add: bt_get_foldl_insert)
  then have "filter (\<lambda>c. bt_get ?by_seq (ch_seq_id c) = Some (ch_checkpoint_hash c)) ?ref = ?ref"
    by (simp add: filter_id_conv)
  then have "checkpoint_hash_parity_percent sha256 percent hundred zero events events' stride =
      percent (length ?ref) (length ?ref)"
    using ne by (simp only: checkpoint_hash_parity_percent_def Let_def hashes if_False)
  then show ?thesis using ne by (intro exI [of _ "length ?ref"]) simp
qed

section \<open>Examples\<close>

theorem replay_order_independent_witness:
  "replay_frames sample_stream SnapshotReplay 2 = replay_frames (rev sample_stream) SnapshotReplay 2 \<and>
   lifecycle_checkpoints sample_stream [2, 4] = lifecycle_checkpoints (rev sample_stream) [2, 4] \<and>
   deterministic_checkpoint_hashes id sample_stream 2 =
     deterministic_checkpoint_hashes id (rev sample_stream) 2 \<and>
   current_lifecycle sample_stream 11 = current_lifecycle (rev sample_stream) 11"
proof (rule replay_order_independent)
  show "distinct (map order_key sample_stream)" by code_simp
qed simp

theorem permuted_stream_full_parity_witness:
  "\<exists>n > 0. checkpoint_hash_parity_percent id (\<lambda>m n. 100 * m div n) 100 0 sample_stream
     (rev sample_stream) 2 = 100 * n div (n :: nat)"
proof (rule permuted_stream_full_parity)
  show "distinct (map ee_seq_id sample_stream)" by code_simp
  show "sample_stream \<noteq> []" by (simp add: sample_stream_def)
qed simp

definition sample_checkpoint :: "TxHash list \<Rightarrow> lifecycle_checkpoint" where
  "sample_checkpoint pending =
     \<lparr>lc_seq_id = 4, lc_pending_hashes = pending,
      lc_sender_queues =
        [\<lparr>rsq_sender = 9, rsq_queued = [\<lparr>rqe_hash = 11, rqe_nonce = 5, rqe_state = ReplayReady\<rparr>]\<rparr>]\<rparr>"

theorem checkpoint_hash_identifies_witness:
  "verify_lifecycle_checkpoint_hash id (sample_checkpoint [11, 12])
     (lifecycle_checkpoint_hash id (sample_checkpoint [12, 11])) =
   Inr (lifecycle_checkpoint_hash id (sample_checkpoint [12, 11]))"
proof -
  have "fits_checkpoint (sample_checkpoint [a, b])" for a b
    by (simp add: fits_checkpoint_def fits_queue_def sample_checkpoint_def)
  then show ?thesis
    using checkpoint_hash_identifies [of "sample_checkpoint [11, 12]" "sample_checkpoint [12, 11]" id]
    by (simp add: sample_checkpoint_def)
qed

end
