(* ===== verification/Replay_Candidates.thy ===== *)
theory Replay_Candidates
  imports Event_Log
begin

text \<open>
  The candidate lifecycle of the crate \<^verbatim>\<open>replay\<close> (\<^verbatim>\<open>mempool_state.rs\<close>,
  \<^verbatim>\<open>CandidateLifecycleState\<close>): what the event stream says of a searcher candidate
  through queueing, simulation and assembly.
\<close>

section \<open>State\<close>

record candidate_lifecycle_entry =
  cle_tx_hash :: TxHash
  cle_member_tx_hashes :: "TxHash list"
  cle_chain_id :: "u64 option"
  cle_strategy :: string
  cle_score :: u32
  cle_protocol :: string
  cle_category :: string
  cle_feature_engine_version :: string
  cle_scorer_version :: string
  cle_strategy_version :: string
  cle_reasons :: "string list"
  cle_detected_unix_ms :: i64
  cle_simulation_status :: "string option"
  cle_assembly_status :: "string option"
  cle_simulation_block_number :: "u64 option"
  cle_assembly_block_number :: "u64 option"
  cle_assembly_reason :: "string option"
  cle_replaced_candidate_ids :: "string list"

definition default_candidate_entry :: candidate_lifecycle_entry where
  "default_candidate_entry =
     \<lparr>cle_tx_hash = 0, cle_member_tx_hashes = [], cle_chain_id = None, cle_strategy = [],
      cle_score = 0, cle_protocol = [], cle_category = [], cle_feature_engine_version = [],
      cle_scorer_version = [], cle_strategy_version = [], cle_reasons = [],
      cle_detected_unix_ms = 0, cle_simulation_status = None, cle_assembly_status = None,
      cle_simulation_block_number = None, cle_assembly_block_number = None,
      cle_assembly_reason = None, cle_replaced_candidate_ids = []\<rparr>"

record candidate_lifecycle_snapshot =
  cls_seq_id :: u64
  cls_candidates :: "(string, candidate_lifecycle_entry) btree_map"

text \<open>The index of a transaction is a \<^verbatim>\<open>BTreeSet\<close> of candidate ids.\<close>

record candidate_lifecycle_state =
  cs_candidates :: "(string, candidate_lifecycle_entry) btree_map"
  cs_tx_candidates :: "(TxHash, (string, unit) btree_map) btree_map"

definition default_candidate_state :: candidate_lifecycle_state where
  "default_candidate_state = \<lparr>cs_candidates = bt_empty, cs_tx_candidates = bt_empty\<rparr>"

section \<open>Events\<close>

text \<open>\<^verbatim>\<open>entry(k).or_default()\<close> with the update that follows it.\<close>

definition update_or :: "'v \<Rightarrow> 'k::linorder \<Rightarrow> ('v \<Rightarrow> 'v) \<Rightarrow> ('k, 'v) btree_map \<Rightarrow> ('k, 'v) btree_map" where
  "update_or d k f m = bt_insert k (f (case bt_get m k of Some v \<Rightarrow> v | None \<Rightarrow> d)) m"

definition index_candidate ::
  "string \<Rightarrow> TxHash \<Rightarrow> candidate_lifecycle_state \<Rightarrow> candidate_lifecycle_state" where
  "index_candidate candidate_id tx_hash state =
     state\<lparr>cs_tx_candidates :=
       update_or bt_empty tx_hash (bt_insert candidate_id ()) (cs_tx_candidates state)\<rparr>"

definition update_candidate ::
  "string \<Rightarrow> (candidate_lifecycle_entry \<Rightarrow> candidate_lifecycle_entry) \<Rightarrow> candidate_lifecycle_state
    \<Rightarrow> candidate_lifecycle_state" where
  "update_candidate candidate_id f state =
     state\<lparr>cs_candidates := update_or default_candidate_entry candidate_id f (cs_candidates state)\<rparr>"

definition record_queued :: "candidate_queued \<Rightarrow> candidate_lifecycle_entry \<Rightarrow> candidate_lifecycle_entry" where
  "record_queued q entry =
     entry\<lparr>cle_tx_hash := cq_tx_hash q, cle_member_tx_hashes := cq_member_tx_hashes q,
       cle_chain_id := cq_chain_id q, cle_strategy := cq_strategy q, cle_score := cq_score q,
       cle_protocol := cq_protocol q, cle_category := cq_category q,
       cle_feature_engine_version := cq_feature_engine_version q,
       cle_scorer_version := cq_scorer_version q, cle_strategy_version := cq_strategy_version q,
       cle_reasons := cq_reasons q, cle_detected_unix_ms := cq_detected_unix_ms q\<rparr>"

definition record_dispatched :: "sim_dispatched \<Rightarrow> candidate_lifecycle_entry \<Rightarrow> candidate_lifecycle_entry" where
  "record_dispatched d entry =
     entry\<lparr>cle_tx_hash := sd_tx_hash d,
       cle_member_tx_hashes :=
         (if cle_member_tx_hashes entry = [] then sd_member_tx_hashes d else cle_member_tx_hashes entry),
       cle_simulation_block_number := Some (sd_block_number d)\<rparr>"

definition record_completed :: "sim_completed \<Rightarrow> candidate_lifecycle_entry \<Rightarrow> candidate_lifecycle_entry" where
  "record_completed c entry =
     entry\<lparr>cle_tx_hash := sc_hash c, cle_simulation_status := Some (sc_status c)\<rparr>"

definition record_applied ::
  "assembly_decision_applied \<Rightarrow> candidate_lifecycle_entry \<Rightarrow> candidate_lifecycle_entry" where
  "record_applied a entry =
     entry\<lparr>cle_tx_hash := ada_tx_hash a, cle_assembly_status := Some (ada_decision a),
       cle_assembly_block_number := Some (ada_block_number a), cle_assembly_reason := ada_reason a,
       cle_replaced_candidate_ids := ada_replaced_candidate_ids a\<rparr>"

definition indexed :: "candidate_lifecycle_state \<Rightarrow> TxHash \<Rightarrow> string list" where
  "indexed state hash =
     (case bt_get (cs_tx_candidates state) hash of Some ids \<Rightarrow> bt_keys ids | None \<Rightarrow> [])"

definition apply_candidate_event ::
  "candidate_lifecycle_state \<Rightarrow> event_envelope \<Rightarrow> candidate_lifecycle_state" where
  "apply_candidate_event state event =
     (case ee_payload event of
        CandidateQueued q \<Rightarrow>
          update_candidate (cq_candidate_id q) (record_queued q)
            (index_candidate (cq_candidate_id q) (cq_tx_hash q) state)
      | SimDispatched d \<Rightarrow>
          update_candidate (sd_candidate_id d) (record_dispatched d)
            (index_candidate (sd_candidate_id d) (sd_tx_hash d) state)
      | SimCompleted c \<Rightarrow>
          foldl (\<lambda>state candidate_id. update_candidate candidate_id (record_completed c) state)
            state (indexed state (sc_hash c))
      | AssemblyDecisionApplied a \<Rightarrow>
          update_candidate (ada_candidate_id a) (record_applied a)
            (index_candidate (ada_candidate_id a) (ada_tx_hash a) state)
      | _ \<Rightarrow> state)"

definition candidate_snapshot :: "candidate_lifecycle_state \<Rightarrow> u64 \<Rightarrow> candidate_lifecycle_snapshot" where
  "candidate_snapshot state seq_id = \<lparr>cls_seq_id = seq_id, cls_candidates = cs_candidates state\<rparr>"

section \<open>The latest event of a kind\<close>

text \<open>
  The entry of a candidate is determined by the events that name it: the last one of each
  kind, a completed simulation naming every candidate that an earlier event tied to its
  transaction.
\<close>

definition entry_of :: "candidate_lifecycle_state \<Rightarrow> string \<Rightarrow> candidate_lifecycle_entry" where
  "entry_of state i =
     (case bt_get (cs_candidates state) i of Some e \<Rightarrow> e | None \<Rightarrow> default_candidate_entry)"

fun ties :: "string \<Rightarrow> TxHash \<Rightarrow> event_payload \<Rightarrow> bool" where
  "ties i h (CandidateQueued q) \<longleftrightarrow> cq_candidate_id q = i \<and> cq_tx_hash q = h"
| "ties i h (SimDispatched d) \<longleftrightarrow> sd_candidate_id d = i \<and> sd_tx_hash d = h"
| "ties i h (AssemblyDecisionApplied a) \<longleftrightarrow> ada_candidate_id a = i \<and> ada_tx_hash a = h"
| "ties i h _ \<longleftrightarrow> False"

fun queued_for :: "string \<Rightarrow> event_payload \<Rightarrow> candidate_queued option" where
  "queued_for i (CandidateQueued q) = (if cq_candidate_id q = i then Some q else None)"
| "queued_for i _ = None"

fun decided_for :: "string \<Rightarrow> event_payload \<Rightarrow> assembly_decision_applied option" where
  "decided_for i (AssemblyDecisionApplied a) = (if ada_candidate_id a = i then Some a else None)"
| "decided_for i _ = None"

text \<open>The last element on which a partial function is defined, and the elements before it.\<close>

definition last_by :: "('a \<Rightarrow> 'b option) \<Rightarrow> 'a list \<Rightarrow> 'b option" where
  "last_by f xs = (case List.map_filter f (rev xs) of [] \<Rightarrow> None | y # _ \<Rightarrow> Some y)"

lemma last_by_snoc: "last_by f (xs @ [x]) = (case f x of Some y \<Rightarrow> Some y | None \<Rightarrow> last_by f xs)"
  by (simp add: last_by_def map_filter_simps split: option.split)

lemma last_by_Nil [simp]: "last_by f [] = None"
  by (simp add: last_by_def map_filter_simps)

lemma entry_update:
  "entry_of (update_candidate i f s) j = (if j = i then f (entry_of s i) else entry_of s j)"
  by (simp add: entry_of_def update_candidate_def update_or_def)

lemma entry_index [simp]: "entry_of (index_candidate i h s) j = entry_of s j"
  by (simp add: entry_of_def index_candidate_def)

lemma indexed_index:
  "i \<in> set (indexed (index_candidate j h s) g) \<longleftrightarrow> i = j \<and> g = h \<or> i \<in> set (indexed s g)"
  by (auto simp: indexed_def index_candidate_def update_or_def bt_keys_set split: option.split)

lemma indexed_update [simp]: "indexed (update_candidate i f s) g = indexed s g"
  by (simp add: indexed_def update_candidate_def)

lemma entry_completed:
  "entry_of (foldl (\<lambda>s i. update_candidate i (record_completed c) s) s is) j =
    (if j \<in> set is then record_completed c (entry_of s j) else entry_of s j)"
  by (induction "is" arbitrary: s) (auto simp: entry_update record_completed_def)

lemma indexed_completed [simp]:
  "indexed (foldl (\<lambda>s i. update_candidate i (record_completed c) s) s is) g = indexed s g"
  by (induction "is" arbitrary: s) simp_all

definition apply_candidate_events :: "event_envelope list \<Rightarrow> candidate_lifecycle_state" where
  "apply_candidate_events es = foldl apply_candidate_event default_candidate_state es"

lemma candidate_events_snoc:
  "apply_candidate_events (es @ [e]) = apply_candidate_event (apply_candidate_events es) e"
  by (simp add: apply_candidate_events_def)

lemma indexed_iff:
  "i \<in> set (indexed (apply_candidate_events es) h) \<longleftrightarrow> list_ex (\<lambda>e. ties i h (ee_payload e)) es"
proof (induction es rule: rev_induct)
  case Nil
  then show ?case by (simp add: apply_candidate_events_def default_candidate_state_def indexed_def)
next
  case (snoc e es)
  then show ?case
    by (cases "ee_payload e")
      (auto simp: candidate_events_snoc apply_candidate_event_def indexed_index)
qed

lemma entry_step:
  "entry_of (apply_candidate_events (es @ [e])) i =
    (let entry = entry_of (apply_candidate_events es) i in
     case ee_payload e of
       CandidateQueued q \<Rightarrow> if i = cq_candidate_id q then record_queued q entry else entry
     | SimDispatched d \<Rightarrow> if i = sd_candidate_id d then record_dispatched d entry else entry
     | SimCompleted c \<Rightarrow>
         if list_ex (\<lambda>e. ties i (sc_hash c) (ee_payload e)) es then record_completed c entry else entry
     | AssemblyDecisionApplied a \<Rightarrow> if i = ada_candidate_id a then record_applied a entry else entry
     | _ \<Rightarrow> entry)"
  by (cases "ee_payload e")
    (simp_all add: candidate_events_snoc apply_candidate_event_def entry_update entry_completed
      indexed_iff Let_def)

lemma entry_Nil: "entry_of (apply_candidate_events []) i = default_candidate_entry"
  by (simp add: apply_candidate_events_def default_candidate_state_def entry_of_def)

text \<open>The status that an event after the events before it gives to a candidate.\<close>

definition completes ::
  "string \<Rightarrow> event_envelope list \<Rightarrow> event_envelope \<Rightarrow> string option" where
  "completes i before e =
     (case ee_payload e of
        SimCompleted c \<Rightarrow>
          if list_ex (\<lambda>e. ties i (sc_hash c) (ee_payload e)) before then Some (sc_status c) else None
      | _ \<Rightarrow> None)"

lemma last_by_cong: "(\<And>x. x \<in> set xs \<Longrightarrow> f x = g x) \<Longrightarrow> last_by f xs = last_by g xs"
  by (induction xs rule: rev_induct) (auto simp: last_by_snoc split: option.split)

lemma simulation_status_latest:
  "cle_simulation_status (entry_of (apply_candidate_events es) i) =
    last_by (\<lambda>n. completes i (take n es) (es ! n)) [0..<length es]"
proof (induction es rule: rev_induct)
  case Nil
  then show ?case by (simp add: entry_Nil default_candidate_entry_def)
next
  case (snoc e es)
  have "last_by (\<lambda>n. completes i (take n (es @ [e])) ((es @ [e]) ! n)) [0..<length es] =
      last_by (\<lambda>n. completes i (take n es) (es ! n)) [0..<length es]"
    by (rule last_by_cong) (simp add: nth_append)
  then show ?case
    using snoc by (cases "ee_payload e")
      (auto simp: entry_step Let_def last_by_snoc completes_def [of i es e] record_queued_def
        record_dispatched_def record_completed_def record_applied_def)
qed

section \<open>Properties\<close>

text \<open>
  After any stream the entry of a candidate shows what its last queueing event
  said, the decision of its last assembly event, and the status of the last completed
  simulation of a transaction that an earlier event had tied to the candidate.
\<close>

theorem candidate_entry_latest:
  "let entry = entry_of (apply_candidate_events es) i in
   (case last_by (\<lambda>e. queued_for i (ee_payload e)) es of
      None \<Rightarrow> cle_score entry = 0 \<and> cle_strategy entry = [] \<and> cle_detected_unix_ms entry = 0
    | Some q \<Rightarrow> cle_score entry = cq_score q \<and> cle_strategy entry = cq_strategy q \<and>
        cle_protocol entry = cq_protocol q \<and> cle_category entry = cq_category q \<and>
        cle_chain_id entry = cq_chain_id q \<and> cle_reasons entry = cq_reasons q \<and>
        cle_detected_unix_ms entry = cq_detected_unix_ms q) \<and>
   (case last_by (\<lambda>e. decided_for i (ee_payload e)) es of
      None \<Rightarrow> cle_assembly_status entry = None \<and> cle_replaced_candidate_ids entry = []
    | Some a \<Rightarrow> cle_assembly_status entry = Some (ada_decision a) \<and>
        cle_assembly_reason entry = ada_reason a \<and>
        cle_assembly_block_number entry = Some (ada_block_number a) \<and>
        cle_replaced_candidate_ids entry = ada_replaced_candidate_ids a) \<and>
   cle_simulation_status entry = last_by (\<lambda>n. completes i (take n es) (es ! n)) [0..<length es]"
proof -
  have queued: "case last_by (\<lambda>e. queued_for i (ee_payload e)) es of
      None \<Rightarrow> cle_score entry = 0 \<and> cle_strategy entry = [] \<and> cle_detected_unix_ms entry = 0
    | Some q \<Rightarrow> cle_score entry = cq_score q \<and> cle_strategy entry = cq_strategy q \<and>
        cle_protocol entry = cq_protocol q \<and> cle_category entry = cq_category q \<and>
        cle_chain_id entry = cq_chain_id q \<and> cle_reasons entry = cq_reasons q \<and>
        cle_detected_unix_ms entry = cq_detected_unix_ms q"
    if "entry = entry_of (apply_candidate_events es) i" for entry
    using that
  proof (induction es arbitrary: entry rule: rev_induct)
    case (snoc e es)
    then show ?case
      by (cases "ee_payload e")
        (auto simp: entry_step Let_def last_by_snoc record_queued_def record_dispatched_def
          record_completed_def record_applied_def split: option.splits)
  qed (simp add: entry_Nil default_candidate_entry_def)
  have decided: "case last_by (\<lambda>e. decided_for i (ee_payload e)) es of
      None \<Rightarrow> cle_assembly_status entry = None \<and> cle_replaced_candidate_ids entry = []
    | Some a \<Rightarrow> cle_assembly_status entry = Some (ada_decision a) \<and>
        cle_assembly_reason entry = ada_reason a \<and>
        cle_assembly_block_number entry = Some (ada_block_number a) \<and>
        cle_replaced_candidate_ids entry = ada_replaced_candidate_ids a"
    if "entry = entry_of (apply_candidate_events es) i" for entry
    using that
  proof (induction es arbitrary: entry rule: rev_induct)
    case (snoc e es)
    then show ?case
      by (cases "ee_payload e")
        (auto simp: entry_step Let_def last_by_snoc record_queued_def record_dispatched_def
          record_completed_def record_applied_def split: option.splits)
  qed (simp add: entry_Nil default_candidate_entry_def)
  show ?thesis
    using queued [OF refl] decided [OF refl] simulation_status_latest [of es i] by (simp add: Let_def)
qed

end
