(* ===== verification/Storage_Index.thy ===== *)
theory Storage_Index
  imports Event_Log
begin

text \<open>
  The ordered event index of the crate \<^verbatim>\<open>storage\<close>
  (\<^verbatim>\<open>src/crates/storage/src/lib.rs\<close>): the binary searches of the standard
  library that it calls, the cursor of a scan, and the insertion into and the removal
  from the sorted vector of retained events. The removal and the insertion meet the
  laws of an ordered index, from which follows that index and ring buffer hold the same
  events.
\<close>

section \<open>Binary search\<close>

text \<open>
  \<^verbatim>\<open>slice::binary_search_by\<close>: \<open>f i\<close> compares the element at \<open>i\<close> with
  what is searched. The result is the index of a match (\<open>Inr\<close>) or the position at
  which the searched element belongs (\<open>Inl\<close>).
\<close>

function search_loop :: "(nat \<Rightarrow> ordering) \<Rightarrow> nat \<Rightarrow> nat \<Rightarrow> nat" where
  "search_loop f base len =
     (if len \<le> 1 then base
      else let half = len div 2; mid = base + half
           in search_loop f (if f mid = Greater then base else mid) (len - half))"
  by auto
termination by (relation "measure (\<lambda>(f, base, len). len)") auto

declare search_loop.simps [simp del]

definition binary_search_by :: "('a \<Rightarrow> ordering) \<Rightarrow> 'a list \<Rightarrow> nat + nat" where
  "binary_search_by f xs =
     (if xs = [] then Inl 0
      else let base = search_loop (\<lambda>i. f (xs ! i)) 0 (length xs)
           in case f (xs ! base) of
                Equal \<Rightarrow> Inr base | Less \<Rightarrow> Inl (base + 1) | Greater \<Rightarrow> Inl base)"

definition partition_point :: "('a \<Rightarrow> bool) \<Rightarrow> 'a list \<Rightarrow> nat" where
  "partition_point p xs =
     (case binary_search_by (\<lambda>x. if p x then Less else Greater) xs of Inl i \<Rightarrow> i | Inr i \<Rightarrow> i)"

lemma search_loop_step:
  assumes "1 < len"
  shows "search_loop f base len =
    (if f (base + len div 2) = Greater then search_loop f base (len - len div 2)
     else search_loop f (base + len div 2) (len - len div 2))"
  using assms by (subst search_loop.simps) (simp add: Let_def)

lemma search_loop_one: "len \<le> 1 \<Longrightarrow> search_loop f base len = base"
  by (subst search_loop.simps) simp

text \<open>
  When the comparisons with the elements are first not greater and then greater, the
  loop stops at the last element that is not greater, if there is one.
\<close>

definition greater_from :: "(nat \<Rightarrow> ordering) \<Rightarrow> nat \<Rightarrow> nat \<Rightarrow> bool" where
  "greater_from f k n \<longleftrightarrow> (\<forall>i. k \<le> i \<longrightarrow> i < n \<longrightarrow> f i = Greater)"

lemma greater_from_mono: "greater_from f k n \<Longrightarrow> k \<le> l \<Longrightarrow> greater_from f l n"
  unfolding greater_from_def by (meson le_trans)

lemma search_loop_last:
  assumes mono: "\<And>i. i < n \<Longrightarrow> f i = Greater \<Longrightarrow> greater_from f i n"
    and "0 < len" and "base + len \<le> n"
    and "base = 0 \<or> f base \<noteq> Greater" and "greater_from f (base + len) n"
  defines "r \<equiv> search_loop f base len"
  shows "r < n \<and> (r = 0 \<or> f r \<noteq> Greater) \<and> greater_from f (r + 1) n"
  using assms(2-5) unfolding r_def
proof (induction len arbitrary: base rule: less_induct)
  case (less len)
  let ?half = "len div 2"
  show ?case
  proof (cases "len \<le> 1")
    case True
    then have "len = 1" using less.prems(1) by simp
    then show ?thesis using less.prems by (simp add: search_loop_one)
  next
    case big: False
    show ?thesis
    proof (cases "f (base + ?half) = Greater")
      case True
      then have "greater_from f (base + ?half) n"
        using less.prems(2) big by (intro mono) auto
      then have "greater_from f (base + (len - ?half)) n"
        by (rule greater_from_mono) simp
      then show ?thesis
        using less.IH [of "len - ?half" base] less.prems big True
        by (simp add: search_loop_step)
    next
      case False
      have "base + ?half + (len - ?half) = base + len" by simp
      then show ?thesis
        using less.IH [of "len - ?half" "base + ?half"] less.prems big False
        by (simp add: search_loop_step del: add_diff_cancel_left')
    qed
  qed
qed

text \<open>A comparison that is first less, then equal, then greater along the list.\<close>

definition graded :: "('a \<Rightarrow> ordering) \<Rightarrow> 'a list \<Rightarrow> bool" where
  "graded f xs \<longleftrightarrow> sorted_wrt (\<lambda>x y. (f x = Greater \<longrightarrow> f y = Greater) \<and> (f y = Less \<longrightarrow> f x = Less)) xs"

lemma gradedD:
  assumes "graded f xs" and "i \<le> j" and "j < length xs"
  shows "f (xs ! i) = Greater \<Longrightarrow> f (xs ! j) = Greater"
    and "f (xs ! j) = Less \<Longrightarrow> f (xs ! i) = Less"
proof -
  have "i = j \<or> (f (xs ! i) = Greater \<longrightarrow> f (xs ! j) = Greater) \<and> (f (xs ! j) = Less \<longrightarrow> f (xs ! i) = Less)"
    using assms unfolding graded_def sorted_wrt_iff_nth_less by (metis le_neq_implies_less)
  then show "f (xs ! i) = Greater \<Longrightarrow> f (xs ! j) = Greater"
    and "f (xs ! j) = Less \<Longrightarrow> f (xs ! i) = Less" by blast+
qed

lemma binary_search_cases:
  assumes g: "graded f xs"
  shows "\<exists>i. binary_search_by f xs = Inr i \<and> i < length xs \<and> f (xs ! i) = Equal \<or>
    binary_search_by f xs = Inl i \<and> i \<le> length xs \<and> (\<forall>j < i. f (xs ! j) = Less) \<and>
      greater_from (\<lambda>i. f (xs ! i)) i (length xs)"
proof (cases "xs = []")
  case True
  then show ?thesis by (simp add: binary_search_by_def greater_from_def)
next
  case False
  define r where "r = search_loop (\<lambda>i. f (xs ! i)) 0 (length xs)"
  have mono: "greater_from (\<lambda>i. f (xs ! i)) i (length xs)" if "f (xs ! i) = Greater" for i
    unfolding greater_from_def using gradedD(1) [OF g _ _ that] by blast
  have r: "r < length xs" "r = 0 \<or> f (xs ! r) \<noteq> Greater"
      "greater_from (\<lambda>i. f (xs ! i)) (r + 1) (length xs)"
    using search_loop_last [of "length xs" "\<lambda>i. f (xs ! i)" "length xs" 0, OF mono] False
    unfolding r_def by (simp_all add: greater_from_def)
  have b: "binary_search_by f xs = (case f (xs ! r) of
      Equal \<Rightarrow> Inr r | Less \<Rightarrow> Inl (r + 1) | Greater \<Rightarrow> Inl r)"
    using False by (simp only: binary_search_by_def r_def Let_def if_False)
  show ?thesis
  proof (cases "f (xs ! r)")
    case Less
    have "f (xs ! j) = Less" if "j < r + 1" for j
      using that r(1) Less by (intro gradedD(2) [OF g, of j r]) auto
    then show ?thesis using r b Less by (intro exI [of _ "r + 1"]) auto
  next
    case Equal
    then show ?thesis using r b by (intro exI [of _ r]) auto
  next
    case Greater
    then show ?thesis using r b mono by (intro exI [of _ 0]) auto
  qed
qed

text \<open>On a list that is partitioned by the predicate, \<open>partition_point\<close> is the linear search.\<close>

lemma partition_point_takeWhile:
  assumes "sorted_wrt (\<lambda>x y. p y \<longrightarrow> p x) xs"
  shows "partition_point p xs = length (takeWhile p xs)"
proof -
  let ?f = "\<lambda>x. if p x then Less else Greater"
  have g: "graded ?f xs"
    using assms by (auto simp: graded_def elim!: sorted_wrt_mono_rel [rotated])
  obtain i where i: "binary_search_by ?f xs = Inl i" "i \<le> length xs" "\<forall>j < i. p (xs ! j)"
      "\<forall>j. i \<le> j \<longrightarrow> j < length xs \<longrightarrow> \<not> p (xs ! j)"
    using binary_search_cases [OF g] unfolding greater_from_def by (metis ordering.distinct)
  have "length (takeWhile p xs) = i"
  proof (rule antisym)
    show "i \<le> length (takeWhile p xs)"
      using i(2,3) by (intro length_takeWhile_less_P_nth) auto
    show "length (takeWhile p xs) \<le> i"
    proof (rule ccontr)
      assume "\<not> ?thesis"
      then have "i < length (takeWhile p xs)" by simp
      then have "p (xs ! i)" "i < length xs"
        using nth_mem [of i "takeWhile p xs"] takeWhile_nth [of i p xs]
          length_takeWhile_le [of p xs] by (auto dest: set_takeWhileD)
      then show False using i(4) by blast
    qed
  qed
  then show ?thesis by (simp add: partition_point_def i(1))
qed

section \<open>Scans and the sorted vector\<close>

definition scan_events_cursor_start :: "event_envelope list \<Rightarrow> u64 \<Rightarrow> nat" where
  "scan_events_cursor_start events from_seq_id =
     partition_point (\<lambda>event. ee_seq_id event \<le> from_seq_id) events"

definition index_insert :: "event_envelope list \<Rightarrow> event_envelope \<Rightarrow> event_envelope list" where
  "index_insert event_index event =
     (let append_to_tail =
            (event_index = [] \<or> cmp_deterministic (last event_index) event \<noteq> Greater)
      in if append_to_tail then event_index @ [event]
         else let insert_at =
                partition_point (\<lambda>existing. cmp_deterministic existing event = Less) event_index
              in take insert_at event_index @ event # drop insert_at event_index)"

fun walk_back :: "event_envelope list \<Rightarrow> event_envelope \<Rightarrow> nat \<Rightarrow> nat" where
  "walk_back events target 0 = 0"
| "walk_back events target (Suc i) =
     (if cmp_deterministic (events ! i) target = Equal then walk_back events target i else Suc i)"

function remove_from :: "event_envelope list \<Rightarrow> event_envelope \<Rightarrow> nat \<Rightarrow> event_envelope list" where
  "remove_from events target index =
     (if index < length events \<and> cmp_deterministic (events ! index) target = Equal then
        if events ! index = target then take index events @ drop (Suc index) events
        else remove_from events target (Suc index)
      else events)"
  by auto
termination by (relation "measure (\<lambda>(events, target, index). length events - index)") auto

declare remove_from.simps [simp del]

definition remove_event_from_sorted_index ::
  "event_envelope list \<Rightarrow> event_envelope \<Rightarrow> event_envelope list" where
  "remove_event_from_sorted_index events target =
     (case binary_search_by (\<lambda>existing. cmp_deterministic existing target) events of
        Inl _ \<Rightarrow> events
      | Inr index \<Rightarrow> remove_from events target (walk_back events target index))"

text \<open>The eviction loop of \<^verbatim>\<open>append_event\<close>: ring buffer and index.\<close>

fun trim_events ::
  "usize \<Rightarrow> event_envelope list \<Rightarrow> event_envelope list \<Rightarrow> event_envelope list \<times> event_envelope list" where
  "trim_events capacity [] event_index = ([], event_index)"
| "trim_events capacity (old_event # events) event_index =
     (if capacity < Suc (length events)
      then trim_events capacity events (remove_event_from_sorted_index event_index old_event)
      else (old_event # events, event_index))"

section \<open>The laws of the ordered index\<close>

lemma cmp_deterministic_simps:
  "cmp_deterministic a b = Less \<longleftrightarrow> order_key a < order_key b"
  "cmp_deterministic a b = Equal \<longleftrightarrow> order_key a = order_key b"
  "cmp_deterministic a b = Greater \<longleftrightarrow> order_key b < order_key a"
  by (simp_all add: cmp_deterministic_def cmp_simps)

lemma sorted_graded:
  "sorted (map order_key es) \<Longrightarrow> graded (\<lambda>e. cmp_deterministic e t) es"
  unfolding graded_def sorted_wrt_map
  by (erule sorted_wrt_mono_rel [rotated]) (auto simp: cmp_deterministic_simps)

lemma sorted_insert_at:
  fixes f :: "'a \<Rightarrow> 'k::linorder" and y :: 'a
  assumes "sorted (map f xs)"
  defines "i \<equiv> length (takeWhile (\<lambda>x. f x < f y) xs)"
  shows "sorted (map f (take i xs @ y # drop i xs))"
proof -
  have split: "take i xs = takeWhile (\<lambda>x. f x < f y) xs" "drop i xs = dropWhile (\<lambda>x. f x < f y) xs"
    unfolding i_def by (rule takeWhile_eq_take [symmetric], rule dropWhile_eq_drop [symmetric])
  have low: "f x < f y" if "x \<in> set (take i xs)" for x
    using that by (auto simp: split dest: set_takeWhileD)
  have high: "f y \<le> f x" if "x \<in> set (drop i xs)" for x
  proof (cases "drop i xs")
    case (Cons z zs)
    have "sorted (map f (drop i xs))"
      using assms(1) by (simp flip: drop_map add: sorted_wrt_drop)
    moreover have "\<not> f z < f y"
      using Cons hd_dropWhile [of "\<lambda>x. f x < f y" xs] by (simp add: split)
    ultimately show ?thesis using that Cons by auto
  qed (use that in simp)
  have "sorted (map f (take i xs @ drop i xs))"
    using assms(1) by simp
  then show ?thesis
    using low high by (auto simp: sorted_append order.trans less_imp_le simp del: append_take_drop_id)
qed

lemma index_insert_cases:
  assumes "sorted (map order_key ix)"
  obtains "index_insert ix e = ix @ [e]" and "ix = [] \<or> order_key (last ix) \<le> order_key e"
  | i where "index_insert ix e = take i ix @ e # drop i ix"
      and "i = length (takeWhile (\<lambda>x. order_key x < order_key e) ix)"
proof (cases "ix = [] \<or> cmp_deterministic (last ix) e \<noteq> Greater")
  case True
  then show ?thesis
    by (intro that(1)) (auto simp: index_insert_def cmp_deterministic_simps not_less)
next
  case False
  have "partition_point (\<lambda>x. cmp_deterministic x e = Less) ix =
      length (takeWhile (\<lambda>x. order_key x < order_key e) ix)"
    using assms unfolding cmp_deterministic_simps
    by (intro partition_point_takeWhile)
      (auto simp: sorted_wrt_map elim!: sorted_wrt_mono_rel [rotated])
  then show ?thesis
    using False by (intro that(2)) (simp_all add: index_insert_def Let_def)
qed

lemma index_insert_sorted:
  assumes "sorted (map order_key ix)"
  shows "sorted (map order_key (index_insert ix e))"
proof (cases rule: index_insert_cases [OF assms, of e])
  case 1
  have "order_key x \<le> order_key e" if "x \<in> set ix" for x
  proof -
    have "ix \<noteq> []" using that by auto
    then have "x \<in> set (butlast ix @ [last ix])" and "sorted (map order_key (butlast ix @ [last ix]))"
      using that assms by simp_all
    then have "order_key x \<le> order_key (last ix)"
      by (auto simp: sorted_append simp del: append_butlast_last_id)
    then show ?thesis using 1 \<open>ix \<noteq> []\<close> by auto
  qed
  then show ?thesis using assms 1 by (auto simp: sorted_append)
next
  case (2 i)
  then show ?thesis using sorted_insert_at [OF assms] by simp
qed

lemma index_insert_mset: "mset (index_insert ix e) = add_mset e (mset ix)"
proof -
  have "mset (take i ix @ e # drop i ix) = add_mset e (mset ix)" for i
    by (metis append_take_drop_id mset.simps(2) mset_append union_mset_add_mset_right)
  then show ?thesis by (simp add: index_insert_def Let_def)
qed

text \<open>
  From the first of the equal keys the search runs forward to the event itself: the
  removal is \<open>remove1\<close>.
\<close>

lemma walk_back_first:
  assumes "i < length es" and "order_key (es ! i) = order_key t"
  shows "walk_back es t i \<le> i \<and>
    (\<forall>j. walk_back es t i \<le> j \<longrightarrow> j \<le> i \<longrightarrow> order_key (es ! j) = order_key t) \<and>
    (walk_back es t i = 0 \<or> order_key (es ! (walk_back es t i - 1)) \<noteq> order_key t)"
  using assms
proof (induction i)
  case (Suc i)
  show ?case
  proof (cases "order_key (es ! i) = order_key t")
    case True
    then show ?thesis
      using Suc by (auto simp: cmp_deterministic_simps le_Suc_eq)
  next
    case False
    then show ?thesis using Suc.prems by (auto simp: cmp_deterministic_simps le_antisym)
  qed
qed auto

lemma key_mono:
  "sorted (map order_key es) \<Longrightarrow> i \<le> j \<Longrightarrow> j < length es \<Longrightarrow> order_key (es ! i) \<le> order_key (es ! j)"
  using sorted_nth_mono [of "map order_key es" i j] by simp

lemma remove_from_remove1:
  assumes "sorted (map order_key es)" and "t \<notin> set (take i es)"
    and "i < length es \<Longrightarrow> order_key t \<le> order_key (es ! i)"
  shows "remove_from es t i = remove1 t es"
  using assms
proof (induction es t i rule: remove_from.induct)
  case (1 es t i)
  consider "length es \<le> i" | "i < length es" "es ! i = t"
    | "i < length es" "es ! i \<noteq> t" "order_key (es ! i) = order_key t"
    | "i < length es" "order_key t < order_key (es ! i)"
    using "1.prems"(3) by force
  then show ?case
  proof cases
    case 1
    then show ?thesis using "1.prems"(2) by (simp add: remove_from.simps remove1_idem)
  next
    case 2
    then have "es = take i es @ t # drop (Suc i) es" by (metis id_take_nth_drop)
    then have "remove1 t es = take i es @ drop (Suc i) es"
      using "1.prems"(2) by (metis remove1.simps(2) remove1_append)
    then show ?thesis using 2 by (simp add: remove_from.simps cmp_deterministic_simps)
  next
    case 3
    then have "t \<notin> set (take (Suc i) es)"
      using "1.prems"(2) by (simp add: take_Suc_conv_app_nth)
    moreover have "order_key t \<le> order_key (es ! Suc i)" if "Suc i < length es"
      using key_mono [OF "1.prems"(1), of i "Suc i"] that 3 by simp
    ultimately have "remove_from es t (Suc i) = remove1 t es"
      using "1.IH" 3 "1.prems"(1) by (simp add: cmp_deterministic_simps)
    then show ?thesis
      using 3 by (subst remove_from.simps) (simp add: cmp_deterministic_simps)
  next
    case 4
    have "es ! j \<noteq> t" if "j < length es" for j
    proof (cases "j < i")
      case True
      then show ?thesis using "1.prems"(2) 4 by (auto simp: in_set_conv_nth)
    next
      case False
      then show ?thesis using key_mono [OF "1.prems"(1), of i j] 4 that by auto
    qed
    then have "t \<notin> set es" by (auto simp: in_set_conv_nth)
    then show ?thesis
      using 4 by (subst remove_from.simps) (simp add: cmp_deterministic_simps remove1_idem)
  qed
qed

lemma remove_event_remove1:
  assumes s: "sorted (map order_key es)"
  shows "remove_event_from_sorted_index es t = remove1 t es"
proof (cases "binary_search_by (\<lambda>e. cmp_deterministic e t) es")
  case (Inl i)
  then have "\<forall>j < length es. cmp_deterministic (es ! j) t \<noteq> Equal"
    using binary_search_cases [OF sorted_graded [OF s], of t] unfolding greater_from_def
    by (metis Inl_Inr_False not_le_imp_less ordering.distinct(1,5) sum.inject(1))
  then have "t \<notin> set es" by (auto simp: in_set_conv_nth cmp_deterministic_simps)
  then show ?thesis by (simp add: remove_event_from_sorted_index_def Inl remove1_idem)
next
  case (Inr i)
  then have i: "i < length es" "order_key (es ! i) = order_key t"
    using binary_search_cases [OF sorted_graded [OF s], of t] by (auto simp: cmp_deterministic_simps)
  let ?w = "walk_back es t i"
  note w = walk_back_first [OF i]
  have kw: "order_key (es ! ?w) = order_key t" and "?w < length es"
    using w i(1) by auto
  have "es ! j \<noteq> t" if "j < ?w" for j
  proof
    assume j: "es ! j = t"
    have b: "j \<le> ?w - 1" "?w - 1 < length es" "?w - 1 \<le> ?w" "?w \<noteq> 0"
      using that \<open>?w < length es\<close> by simp_all
    have "order_key t \<le> order_key (es ! (?w - 1))"
      using key_mono [OF s b(1,2)] j by simp
    moreover have "order_key (es ! (?w - 1)) \<le> order_key t"
      using key_mono [OF s b(3) \<open>?w < length es\<close>] kw by simp
    ultimately show False using w b(4) by simp
  qed
  then have "t \<notin> set (take ?w es)"
    by (auto simp: in_set_conv_nth)
  then have "remove_from es t ?w = remove1 t es"
    using kw by (intro remove_from_remove1 [OF s]) simp_all
  then show ?thesis by (simp add: remove_event_from_sorted_index_def Inr)
qed

text \<open>
  The contract between the ring buffer and its index: insertion and removal keep the
  order and change the contents by one element.
\<close>

locale ordered_index =
  fixes ins :: "'e list \<Rightarrow> 'e \<Rightarrow> 'e list"
    and del :: "'e list \<Rightarrow> 'e \<Rightarrow> 'e list"
    and key :: "'e \<Rightarrow> 'k::linorder"
  assumes ins_sorted: "sorted (map key ix) \<Longrightarrow> sorted (map key (ins ix e))"
    and ins_mset: "sorted (map key ix) \<Longrightarrow> mset (ins ix e) = add_mset e (mset ix)"
    and del_sorted: "sorted (map key ix) \<Longrightarrow> sorted (map key (del ix e))"
    and del_mset: "sorted (map key ix) \<Longrightarrow> mset (del ix e) = mset ix - {#e#}"
begin

definition indexes :: "'e list \<Rightarrow> 'e list \<Rightarrow> bool" where
  "indexes ix ring \<longleftrightarrow> sorted (map key ix) \<and> mset ix = mset ring"

lemma indexes_Nil: "indexes [] []"
  by (simp add: indexes_def)

lemma indexes_push: "indexes ix ring \<Longrightarrow> indexes (ins ix e) (ring @ [e])"
  by (simp add: indexes_def ins_sorted ins_mset)

lemma indexes_pop: "indexes ix (e # ring) \<Longrightarrow> indexes (del ix e) ring"
  by (simp add: indexes_def del_sorted del_mset)

lemma indexes_unique:
  assumes "indexes ix ring" and "distinct (map key ring)"
  shows "ix = sort_key key ring"
proof -
  have "set ix = set ring" and i: "inj_on key (set ring)" and s: "sorted (map key ix)"
    using assms by (auto simp: indexes_def distinct_map dest: mset_eq_setD)
  moreover have "distinct (map key ix)"
    using assms by (metis indexes_def mset_eq_imp_distinct_iff mset_map)
  moreover have "distinct (map key (sort_key key ring))"
    using assms(2) by (metis mset_eq_imp_distinct_iff mset_map mset_sort)
  ultimately show ?thesis
    by (intro map_sorted_distinct_set_unique [of key]) auto
qed

end

interpretation event_index: ordered_index index_insert remove_event_from_sorted_index order_key
proof
  fix ix :: "event_envelope list" and e :: event_envelope
  assume s: "sorted (map order_key ix)"
  show "sorted (map order_key (index_insert ix e))"
    using s by (rule index_insert_sorted)
  show "mset (index_insert ix e) = add_mset e (mset ix)"
    by (rule index_insert_mset)
  show "sorted (map order_key (remove_event_from_sorted_index ix e))"
    using s by (simp add: remove_event_remove1 sorted_map_remove1)
  show "mset (remove_event_from_sorted_index ix e) = mset ix - {#e#}"
    using s by (simp add: remove_event_remove1)
qed

lemma trim_events_indexes:
  "event_index.indexes ix events \<Longrightarrow>
    fst (trim_events n events ix) = last_n n events \<and>
    event_index.indexes (snd (trim_events n events ix)) (last_n n events)"
proof (induction n events ix rule: trim_events.induct)
  case (2 n e es ix)
  then show ?case
    by (cases "n < Suc (length es)") (simp_all add: event_index.indexes_pop last_n_Cons last_n_all)
qed (simp add: last_n_def)

text \<open>A scan returns the first retained events after the cursor.\<close>

lemma index_seq_sorted:
  "sorted (map order_key ix) \<Longrightarrow> sorted (map ee_seq_id ix)"
  by (auto simp: sorted_wrt_map order_key_def less_eq_event_order_key_def
      less_event_order_key_def elim!: sorted_wrt_mono_rel [rotated])

lemma scan_cursor:
  assumes "sorted (map order_key ix)"
  shows "drop (scan_events_cursor_start ix from_seq_id) ix =
    filter (\<lambda>e. from_seq_id < ee_seq_id e) ix"
proof -
  have s: "sorted_wrt (\<lambda>x y. ee_seq_id y \<le> from_seq_id \<longrightarrow> ee_seq_id x \<le> from_seq_id) ix"
    using index_seq_sorted [OF assms] unfolding sorted_wrt_map
    by (rule sorted_wrt_mono_rel [rotated]) auto
  then have "drop (scan_events_cursor_start ix from_seq_id) ix =
      dropWhile (\<lambda>e. ee_seq_id e \<le> from_seq_id) ix"
    by (simp add: scan_events_cursor_start_def partition_point_takeWhile flip: dropWhile_eq_drop)
  also have "\<dots> = filter (\<lambda>e. from_seq_id < ee_seq_id e) ix"
    using s by (induction ix) (auto simp: not_le filter_id_conv)
  finally show ?thesis .
qed

end
