(* ===== verification/Storage_Tables.thy ===== *)
theory Storage_Tables
  imports Storage_Index
begin

text \<open>
  The bounded tables of the in-memory store
  (\<^verbatim>\<open>src/crates/storage/src/lib.rs\<close>): the plain queue
  \<^verbatim>\<open>push_bounded\<close> and the queue with per-hash counts and a lookup of the
  latest row, \<^verbatim>\<open>push_bounded_hash_indexed\<close>, whose eviction loop the
  recent-transaction order shares. The count map decides when the last row of a hash has
  left and its lookup entry goes; \<open>windowed\<close> states what that achieves.
\<close>

type_synonym hash_counts = "(TxHash, usize) btree_map"

section \<open>The queues\<close>

fun pop_excess :: "usize \<Rightarrow> 'a list \<Rightarrow> 'a list" where
  "pop_excess capacity [] = []"
| "pop_excess capacity (x # deque) =
     (if capacity < Suc (length deque) then pop_excess capacity deque else x # deque)"

definition push_bounded :: "'a list \<Rightarrow> 'a \<Rightarrow> usize \<Rightarrow> 'a list" where
  "push_bounded deque value capacity = pop_excess capacity (deque @ [value])"

text \<open>\<^verbatim>\<open>*counts.entry(hash).or_insert(0) += 1\<close>\<close>

definition count_row :: "TxHash \<Rightarrow> hash_counts \<Rightarrow> hash_counts" where
  "count_row hash counts =
     bt_insert hash ((case bt_get counts hash of Some n \<Rightarrow> n | None \<Rightarrow> 0) + 1) counts"

definition uncount_row ::
  "TxHash \<Rightarrow> hash_counts \<times> (TxHash, 'v) btree_map \<Rightarrow> hash_counts \<times> (TxHash, 'v) btree_map" where
  "uncount_row hash idx =
     (let (counts, lookup) = idx
      in case bt_get counts hash of
           None \<Rightarrow> (counts, lookup)
         | Some n \<Rightarrow>
             let n = n - 1
             in if n = 0 then (bt_remove hash counts, bt_remove hash lookup)
                else (bt_insert hash n counts, lookup))"

fun evict_rows ::
  "('a \<Rightarrow> TxHash) \<Rightarrow> usize \<Rightarrow> 'a list \<Rightarrow> hash_counts \<times> (TxHash, 'v) btree_map
    \<Rightarrow> 'a list \<times> hash_counts \<times> (TxHash, 'v) btree_map" where
  "evict_rows hash_of capacity [] idx = ([], idx)"
| "evict_rows hash_of capacity (evicted # deque) idx =
     (if capacity < Suc (length deque)
      then evict_rows hash_of capacity deque (uncount_row (hash_of evicted) idx)
      else (evicted # deque, idx))"

definition push_bounded_hash_indexed ::
  "'r list \<times> hash_counts \<times> (TxHash, 'r) btree_map \<Rightarrow> 'r \<Rightarrow> usize \<Rightarrow> ('r \<Rightarrow> TxHash)
    \<Rightarrow> 'r list \<times> hash_counts \<times> (TxHash, 'r) btree_map" where
  "push_bounded_hash_indexed table value capacity hash_of =
     (let (deque, counts, lookup) = table
      in evict_rows hash_of capacity (deque @ [value])
           (count_row (hash_of value) counts, bt_insert (hash_of value) value lookup))"

section \<open>What a bounded queue retains\<close>

lemma pop_excess_last_n: "pop_excess n xs = last_n n xs"
proof (induction n xs rule: pop_excess.induct)
  case (2 n x xs)
  then show ?case by (cases "n < Suc (length xs)") (simp_all add: last_n_Cons last_n_all)
qed (simp add: last_n_def)

lemma push_bounded_last_n: "push_bounded xs x n = last_n n (xs @ [x])"
  by (simp add: push_bounded_def pop_excess_last_n)

definition latest_of :: "('v \<Rightarrow> TxHash) \<Rightarrow> 'v list \<Rightarrow> TxHash \<Rightarrow> 'v option" where
  "latest_of hash_of rows h = find (\<lambda>r. hash_of r = h) (rev rows)"

definition rows_with :: "('v \<Rightarrow> TxHash) \<Rightarrow> 'v list \<Rightarrow> TxHash \<Rightarrow> nat" where
  "rows_with hash_of rows h = length (filter (\<lambda>r. hash_of r = h) rows)"

definition windowed ::
  "('v \<Rightarrow> TxHash) \<Rightarrow> 'v list \<Rightarrow> hash_counts \<times> (TxHash, 'v) btree_map \<Rightarrow> bool" where
  "windowed hash_of rows idx \<longleftrightarrow>
     (\<forall>h. bt_get (fst idx) h =
        (if rows_with hash_of rows h = 0 then None else Some (rows_with hash_of rows h))) \<and>
     (\<forall>h. bt_get (snd idx) h = latest_of hash_of rows h)"

lemma latest_of_simps [simp]:
  "latest_of k [] h = None"
  "latest_of k (rows @ [r]) h = (if k r = h then Some r else latest_of k rows h)"
  by (simp_all add: latest_of_def)

lemma rows_with_simps [simp]:
  "rows_with k [] h = 0"
  "rows_with k (r # rows) h = (if k r = h then 1 else 0) + rows_with k rows h"
  "rows_with k (rows @ [r]) h = rows_with k rows h + (if k r = h then 1 else 0)"
  by (simp_all add: rows_with_def)

lemma latest_of_None: "latest_of k rows h = None \<longleftrightarrow> rows_with k rows h = 0"
  by (auto simp: latest_of_def rows_with_def find_None_iff filter_empty_conv)

lemma find_append: "find p (xs @ ys) = (case find p xs of None \<Rightarrow> find p ys | Some x \<Rightarrow> Some x)"
  by (induction xs) auto

lemma latest_of_Cons:
  "latest_of k (r # rows) h =
    (if rows_with k rows h = 0 then if k r = h then Some r else None else latest_of k rows h)"
  using latest_of_None [of k rows h]
  by (auto simp: latest_of_def find_append split: option.splits)

lemma windowed_Nil: "windowed k [] (bt_empty, bt_empty)"
  by (simp add: windowed_def)

lemma windowed_push:
  "windowed k rows (counts, lookup) \<Longrightarrow>
    windowed k (rows @ [r]) (count_row (k r) counts, bt_insert (k r) r lookup)"
  by (auto simp: windowed_def count_row_def)

lemma windowed_pop:
  assumes "windowed k (r # rows) idx"
  shows "windowed k rows (uncount_row (k r) idx)"
proof (cases idx)
  case (Pair a b)
  have A: "bt_get a h = (if rows_with k (r # rows) h = 0 then None else Some (rows_with k (r # rows) h))"
    and B: "bt_get b h = latest_of k (r # rows) h" for h
    using assms by (simp_all only: windowed_def Pair fst_conv snd_conv)
  have "latest_of k rows h = None" if "rows_with k rows h = 0" for h
    using that by (simp add: latest_of_None)
  then show ?thesis
    using A B by (auto simp: windowed_def uncount_row_def Pair Let_def latest_of_Cons)
qed

text \<open>
  The eviction loop works on any queue whose elements carry the hashes of the rows: the
  rows themselves, or their hashes alone.
\<close>

lemma evict_rows_windowed:
  assumes "windowed k rows idx" and "map hash_of deque = map k rows"
  shows "fst (evict_rows hash_of n deque idx) = last_n n deque
    \<and> windowed k (last_n n rows) (snd (evict_rows hash_of n deque idx))"
  using assms
proof (induction deque arbitrary: rows idx)
  case (Cons d deque)
  then obtain r rows' where rows: "rows = r # rows'" "hash_of d = k r" "map hash_of deque = map k rows'"
    by (cases rows) auto
  then have "length deque = length rows'" by (metis length_map)
  then show ?case
    using Cons.IH [of rows' "uncount_row (k r) idx"] Cons.prems rows windowed_pop [of k r rows' idx]
    by (cases "n < Suc (length deque)") (simp_all add: last_n_Cons last_n_all)
qed (simp add: last_n_def)

lemma push_hash_indexed_windowed:
  assumes "windowed k rows (counts, lookup)"
  shows "fst (push_bounded_hash_indexed (rows, counts, lookup) r n k) = last_n n (rows @ [r])
    \<and> windowed k (last_n n (rows @ [r])) (snd (push_bounded_hash_indexed (rows, counts, lookup) r n k))"
  using evict_rows_windowed [OF windowed_push [OF assms], of k "rows @ [r]"]
  by (simp add: push_bounded_hash_indexed_def)

end
