(* ===== verification/Storage.thy ===== *)
theory Storage
  imports Storage_Tables Text Scheduler "HOL-Library.Product_Lexorder"
begin

text \<open>
  The in-memory store of the crate \<^verbatim>\<open>storage\<close>
  (\<^verbatim>\<open>src/crates/storage/src/lib.rs\<close>): the row types, the configuration,
  \<^verbatim>\<open>InMemoryStorage\<close> with every operation that changes it, and its queries.
  An argument \<open>t\<close> of an operation is the elapsed time it measures with
  \<^verbatim>\<open>Instant\<close>, in nanoseconds.
\<close>

section \<open>Rows and configuration\<close>

record storage_config =
  stc_event_capacity :: usize
  stc_recent_tx_capacity :: usize
  stc_table_capacity :: usize
  stc_write_latency_capacity :: usize

definition default_storage_config :: storage_config where
  "default_storage_config = \<lparr>stc_event_capacity = 250000, stc_recent_tx_capacity = 25000,
     stc_table_capacity = 250000, stc_write_latency_capacity = 16384\<rparr>"

record tx_seen_record =
  tsn_hash :: TxHash
  tsn_peer :: PeerId
  tsn_first_seen_unix_ms :: i64
  tsn_first_seen_mono_ns :: u64
  tsn_seen_count :: u32

record tx_full_record =
  tfu_hash :: TxHash
  tfu_tx_type :: u8
  tfu_sender :: Address
  tfu_nonce :: u64
  tfu_to :: "Address option"
  tfu_chain_id :: "u64 option"
  tfu_value_wei :: "u128 option"
  tfu_gas_limit :: "u64 option"
  tfu_gas_price_wei :: "u128 option"
  tfu_max_fee_per_gas_wei :: "u128 option"
  tfu_max_priority_fee_per_gas_wei :: "u128 option"
  tfu_max_fee_per_blob_gas_wei :: "u128 option"
  tfu_calldata_len :: "u32 option"
  tfu_raw_tx :: "u8 list"

record tx_features_record =
  tft_hash :: TxHash
  tft_chain_id :: "u64 option"
  tft_protocol :: string
  tft_category :: string
  tft_mev_score :: u16
  tft_urgency_score :: u16
  tft_method_selector :: "u8 list option"
  tft_feature_engine_version :: string

record opportunity_record =
  opr_tx_hash :: TxHash
  opr_chain_id :: "u64 option"
  opr_strategy :: string
  opr_score :: u32
  opr_protocol :: string
  opr_category :: string
  opr_feature_engine_version :: string
  opr_scorer_version :: string
  opr_strategy_version :: string
  opr_reasons :: "string list"
  opr_detected_unix_ms :: i64

record builder_lifecycle_record =
  blr_candidate_id :: string
  blr_tx_hash :: TxHash
  blr_decision :: string
  blr_replaced_candidate_ids :: "string list"
  blr_reason :: "string option"
  blr_block_number :: u64
  blr_updated_unix_ms :: i64

record tx_lifecycle_record =
  tlr_hash :: TxHash
  tlr_status :: string
  tlr_reason :: "string option"
  tlr_updated_unix_ms :: i64

record peer_stats_record =
  psr_peer :: PeerId
  psr_throughput_tps :: u32
  psr_drop_rate_bps :: u16
  psr_rtt_ms :: u32

record recent_transaction_record =
  rtr_hash :: TxHash
  rtr_sender :: Address
  rtr_nonce :: u64
  rtr_tx_type :: u8
  rtr_seen_unix_ms :: i64
  rtr_source_id :: string

record feature_summary_bucket =
  fsb_protocol :: string
  fsb_category :: string
  fsb_count :: u64

record market_stats_snapshot =
  mss_total_signal_volume :: u64
  mss_total_tx_count :: u64
  mss_low_risk_count :: u64
  mss_medium_risk_count :: u64
  mss_high_risk_count :: u64

definition default_market_stats :: market_stats_snapshot where
  "default_market_stats = \<lparr>mss_total_signal_volume = 0, mss_total_tx_count = 0,
     mss_low_risk_count = 0, mss_medium_risk_count = 0, mss_high_risk_count = 0\<rparr>"

record scheduler_rehydration_plan =
  srp_snapshot :: "persisted_scheduler_snapshot option"
  srp_replay_events :: "event_envelope list"
  srp_requires_rpc_rebuild :: bool

definition default_rehydration_plan :: scheduler_rehydration_plan where
  "default_rehydration_plan =
     \<lparr>srp_snapshot = None, srp_replay_events = [], srp_requires_rpc_rebuild = False\<rparr>"

type_synonym summary_counts = "(string \<times> string, u64) btree_map"

section \<open>The store\<close>

record in_memory_storage =
  im_config :: storage_config
  im_events :: "event_envelope list"
  im_event_index :: "event_envelope list"
  im_tx_seen :: "tx_seen_record list"
  im_tx_seen_counts :: hash_counts
  im_tx_seen_lookup :: "(TxHash, tx_seen_record) btree_map"
  im_tx_full :: "tx_full_record list"
  im_tx_full_counts :: hash_counts
  im_tx_full_lookup :: "(TxHash, tx_full_record) btree_map"
  im_tx_features :: "tx_features_record list"
  im_tx_features_counts :: hash_counts
  im_tx_features_lookup :: "(TxHash, tx_features_record) btree_map"
  im_feature_summary_counts :: summary_counts
  im_opportunities :: "opportunity_record list"
  im_builder_lifecycle :: "builder_lifecycle_record list"
  im_tx_lifecycle :: "tx_lifecycle_record list"
  im_tx_lifecycle_counts :: hash_counts
  im_tx_lifecycle_lookup :: "(TxHash, tx_lifecycle_record) btree_map"
  im_peer_stats :: "peer_stats_record list"
  im_scheduler_snapshot :: "persisted_scheduler_snapshot option"
  im_latest_finalized_block_unix_ms :: "i64 option"
  im_write_latency_ns :: "u64 list"
  im_recent_tx_order :: "TxHash list"
  im_recent_tx_counts :: hash_counts
  im_recent_tx_lookup :: "(TxHash, recent_transaction_record) btree_map"
  im_market_stats :: market_stats_snapshot
  im_read_model_revision :: u64

definition with_config :: "storage_config \<Rightarrow> in_memory_storage" where
  "with_config config =
     \<lparr>im_config =
        \<lparr>stc_event_capacity = max (stc_event_capacity config) 1,
         stc_recent_tx_capacity = max (stc_recent_tx_capacity config) 1,
         stc_table_capacity = max (stc_table_capacity config) 1,
         stc_write_latency_capacity = max (stc_write_latency_capacity config) 1\<rparr>,
      im_events = [], im_event_index = [],
      im_tx_seen = [], im_tx_seen_counts = bt_empty, im_tx_seen_lookup = bt_empty,
      im_tx_full = [], im_tx_full_counts = bt_empty, im_tx_full_lookup = bt_empty,
      im_tx_features = [], im_tx_features_counts = bt_empty, im_tx_features_lookup = bt_empty,
      im_feature_summary_counts = bt_empty,
      im_opportunities = [], im_builder_lifecycle = [],
      im_tx_lifecycle = [], im_tx_lifecycle_counts = bt_empty, im_tx_lifecycle_lookup = bt_empty,
      im_peer_stats = [], im_scheduler_snapshot = None,
      im_latest_finalized_block_unix_ms = None, im_write_latency_ns = [],
      im_recent_tx_order = [], im_recent_tx_counts = bt_empty, im_recent_tx_lookup = bt_empty,
      im_market_stats = default_market_stats, im_read_model_revision = 0\<rparr>"

definition record_write_latency :: "in_memory_storage \<Rightarrow> u64 \<Rightarrow> in_memory_storage" where
  "record_write_latency st latency_ns =
     st\<lparr>im_write_latency_ns := push_bounded (im_write_latency_ns st) latency_ns
          (stc_write_latency_capacity (im_config st))\<rparr>"

definition bump_read_model_revision :: "in_memory_storage \<Rightarrow> in_memory_storage" where
  "bump_read_model_revision st =
     st\<lparr>im_read_model_revision := sat_add (im_read_model_revision st) 1\<rparr>"

text \<open>The last two statements of every write.\<close>

definition finish_write :: "u64 \<Rightarrow> in_memory_storage \<Rightarrow> in_memory_storage" where
  "finish_write t st = bump_read_model_revision (record_write_latency st t)"

subsection \<open>Hash-indexed tables\<close>

definition upsert_tx_seen :: "u64 \<Rightarrow> in_memory_storage \<Rightarrow> tx_seen_record \<Rightarrow> in_memory_storage" where
  "upsert_tx_seen t st row =
     (let (deque, counts, lookup) = push_bounded_hash_indexed
            (im_tx_seen st, im_tx_seen_counts st, im_tx_seen_lookup st) row
            (stc_table_capacity (im_config st)) tsn_hash;
          stats = im_market_stats st
      in finish_write t
           (st\<lparr>im_tx_seen := deque, im_tx_seen_counts := counts, im_tx_seen_lookup := lookup,
               im_market_stats := stats\<lparr>mss_total_tx_count := sat_add (mss_total_tx_count stats) 1\<rparr>\<rparr>))"

definition upsert_tx_full :: "u64 \<Rightarrow> in_memory_storage \<Rightarrow> tx_full_record \<Rightarrow> in_memory_storage" where
  "upsert_tx_full t st row =
     (let (deque, counts, lookup) = push_bounded_hash_indexed
            (im_tx_full st, im_tx_full_counts st, im_tx_full_lookup st) row
            (stc_table_capacity (im_config st)) tfu_hash
      in finish_write t
           (st\<lparr>im_tx_full := deque, im_tx_full_counts := counts, im_tx_full_lookup := lookup\<rparr>))"

definition upsert_tx_lifecycle ::
  "u64 \<Rightarrow> in_memory_storage \<Rightarrow> tx_lifecycle_record \<Rightarrow> in_memory_storage" where
  "upsert_tx_lifecycle t st row =
     (let (deque, counts, lookup) = push_bounded_hash_indexed
            (im_tx_lifecycle st, im_tx_lifecycle_counts st, im_tx_lifecycle_lookup st) row
            (stc_table_capacity (im_config st)) tlr_hash
      in finish_write t
           (st\<lparr>im_tx_lifecycle := deque, im_tx_lifecycle_counts := counts,
               im_tx_lifecycle_lookup := lookup\<rparr>))"

subsection \<open>Features and their summary\<close>

definition increment_feature_summary_count ::
  "string \<Rightarrow> string \<Rightarrow> summary_counts \<Rightarrow> summary_counts" where
  "increment_feature_summary_count protocol category counts =
     bt_insert (protocol, category)
       ((case bt_get counts (protocol, category) of Some n \<Rightarrow> n | None \<Rightarrow> 0) + 1) counts"

definition decrement_feature_summary_count ::
  "string \<Rightarrow> string \<Rightarrow> summary_counts \<Rightarrow> summary_counts" where
  "decrement_feature_summary_count protocol category counts =
     (case bt_get counts (protocol, category) of
        None \<Rightarrow> counts
      | Some n \<Rightarrow>
          let n = sat_sub n 1
          in if n = 0 then bt_remove (protocol, category) counts
             else bt_insert (protocol, category) n counts)"

fun evict_features ::
  "usize \<Rightarrow> tx_features_record list
    \<Rightarrow> hash_counts \<times> (TxHash, tx_features_record) btree_map \<times> summary_counts
    \<Rightarrow> tx_features_record list \<times> hash_counts \<times> (TxHash, tx_features_record) btree_map \<times> summary_counts" where
  "evict_features capacity [] acc = ([], acc)"
| "evict_features capacity (evicted # deque) (counts, lookup, summary) =
     (if capacity < Suc (length deque) then
        evict_features capacity deque
          (case bt_get counts (tft_hash evicted) of
             None \<Rightarrow> (counts, lookup, summary)
           | Some n \<Rightarrow>
               let n = n - 1
               in if n = 0 then
                    (bt_remove (tft_hash evicted) counts,
                     bt_remove (tft_hash evicted) lookup,
                     case bt_get lookup (tft_hash evicted) of
                       None \<Rightarrow> summary
                     | Some removed_latest \<Rightarrow>
                         decrement_feature_summary_count (tft_protocol removed_latest)
                           (tft_category removed_latest) summary)
                  else (bt_insert (tft_hash evicted) n counts, lookup, summary))
      else (evicted # deque, counts, lookup, summary))"

definition count_signal :: "u16 \<Rightarrow> market_stats_snapshot \<Rightarrow> market_stats_snapshot" where
  "count_signal mev_score stats =
     (let stats = stats\<lparr>mss_total_signal_volume := sat_add (mss_total_signal_volume stats) 1\<rparr>
      in if mev_score \<ge> 80 then
           stats\<lparr>mss_high_risk_count := sat_add (mss_high_risk_count stats) 1\<rparr>
         else if mev_score \<ge> 45 then
           stats\<lparr>mss_medium_risk_count := sat_add (mss_medium_risk_count stats) 1\<rparr>
         else stats\<lparr>mss_low_risk_count := sat_add (mss_low_risk_count stats) 1\<rparr>)"

definition upsert_tx_features ::
  "u64 \<Rightarrow> in_memory_storage \<Rightarrow> tx_features_record \<Rightarrow> in_memory_storage" where
  "upsert_tx_features t st row =
     (let hash = tft_hash row;
          summary = (case bt_get (im_tx_features_lookup st) hash of
                       Some previous \<Rightarrow> decrement_feature_summary_count (tft_protocol previous)
                         (tft_category previous) (im_feature_summary_counts st)
                     | None \<Rightarrow> im_feature_summary_counts st);
          summary = increment_feature_summary_count (tft_protocol row) (tft_category row) summary;
          (deque, counts, lookup, summary) =
            evict_features (stc_table_capacity (im_config st)) (im_tx_features st @ [row])
              (count_row hash (im_tx_features_counts st),
               bt_insert hash row (im_tx_features_lookup st), summary)
      in finish_write t
           (st\<lparr>im_tx_features := deque, im_tx_features_counts := counts,
               im_tx_features_lookup := lookup, im_feature_summary_counts := summary,
               im_market_stats := count_signal (tft_mev_score row) (im_market_stats st)\<rparr>))"

subsection \<open>Plain tables\<close>

definition upsert_opportunity ::
  "u64 \<Rightarrow> in_memory_storage \<Rightarrow> opportunity_record \<Rightarrow> in_memory_storage" where
  "upsert_opportunity t st row = finish_write t
     (st\<lparr>im_opportunities := push_bounded (im_opportunities st) row (stc_table_capacity (im_config st))\<rparr>)"

definition upsert_builder_lifecycle ::
  "u64 \<Rightarrow> in_memory_storage \<Rightarrow> builder_lifecycle_record \<Rightarrow> in_memory_storage" where
  "upsert_builder_lifecycle t st row = finish_write t
     (st\<lparr>im_builder_lifecycle :=
           push_bounded (im_builder_lifecycle st) row (stc_table_capacity (im_config st))\<rparr>)"

definition upsert_peer_stats ::
  "u64 \<Rightarrow> in_memory_storage \<Rightarrow> peer_stats_record \<Rightarrow> in_memory_storage" where
  "upsert_peer_stats t st row = finish_write t
     (st\<lparr>im_peer_stats := push_bounded (im_peer_stats st) row (stc_table_capacity (im_config st))\<rparr>)"

definition write_scheduler_snapshot ::
  "u64 \<Rightarrow> in_memory_storage \<Rightarrow> persisted_scheduler_snapshot \<Rightarrow> in_memory_storage" where
  "write_scheduler_snapshot t st snapshot = finish_write t (st\<lparr>im_scheduler_snapshot := Some snapshot\<rparr>)"

section \<open>Appending an event\<close>

definition format_hash :: "TxHash \<Rightarrow> string" where
  "format_hash hash = ''0x'' @ hex_lower (hash_bytes hash)"

definition project_opportunity_from_candidate :: "candidate_queued \<Rightarrow> opportunity_record" where
  "project_opportunity_from_candidate payload =
     \<lparr>opr_tx_hash = cq_tx_hash payload, opr_chain_id = cq_chain_id payload,
      opr_strategy = cq_strategy payload, opr_score = cq_score payload,
      opr_protocol = cq_protocol payload, opr_category = cq_category payload,
      opr_feature_engine_version = cq_feature_engine_version payload,
      opr_scorer_version = cq_scorer_version payload,
      opr_strategy_version = cq_strategy_version payload,
      opr_reasons = cq_reasons payload, opr_detected_unix_ms = cq_detected_unix_ms payload\<rparr>"

definition project_builder_lifecycle ::
  "assembly_decision_applied \<Rightarrow> i64 \<Rightarrow> builder_lifecycle_record" where
  "project_builder_lifecycle payload updated_unix_ms =
     \<lparr>blr_candidate_id = ada_candidate_id payload, blr_tx_hash = ada_tx_hash payload,
      blr_decision = ada_decision payload,
      blr_replaced_candidate_ids = ada_replaced_candidate_ids payload,
      blr_reason = ada_reason payload, blr_block_number = ada_block_number payload,
      blr_updated_unix_ms = updated_unix_ms\<rparr>"

definition block_reason :: "tx_confirmed \<Rightarrow> string" where
  "block_reason confirmed =
     ''block='' @ show_word (confirmed_block_number confirmed) @ '':''
       @ format_hash (confirmed_block_hash confirmed)"

fun lifecycle_row :: "event_payload \<Rightarrow> i64 \<Rightarrow> tx_lifecycle_record option" where
  "lifecycle_row (TxDecoded decoded) ts =
     Some \<lparr>tlr_hash = dec_hash decoded, tlr_status = ''pending'', tlr_reason = None,
       tlr_updated_unix_ms = ts\<rparr>"
| "lifecycle_row (TxDropped dropped) ts =
     Some \<lparr>tlr_hash = dropped_hash dropped, tlr_status = ''dropped'',
       tlr_reason = Some (dropped_reason dropped), tlr_updated_unix_ms = ts\<rparr>"
| "lifecycle_row (TxConfirmedProvisional confirmed) ts =
     Some \<lparr>tlr_hash = confirmed_hash confirmed, tlr_status = ''confirmed_provisional'',
       tlr_reason = Some (block_reason confirmed), tlr_updated_unix_ms = ts\<rparr>"
| "lifecycle_row (TxConfirmedFinal confirmed) ts =
     Some \<lparr>tlr_hash = confirmed_hash confirmed, tlr_status = ''confirmed_final'',
       tlr_reason = Some (block_reason confirmed), tlr_updated_unix_ms = ts\<rparr>"
| "lifecycle_row (TxReplaced replaced) ts =
     Some \<lparr>tlr_hash = replaced_hash replaced, tlr_status = ''replaced'',
       tlr_reason = Some (format_hash (replaced_by replaced)), tlr_updated_unix_ms = ts\<rparr>"
| "lifecycle_row (TxReorged reorged) ts =
     Some \<lparr>tlr_hash = reorged_hash reorged, tlr_status = ''pending'',
       tlr_reason = Some ''reorg_reopened'', tlr_updated_unix_ms = ts\<rparr>"
| "lifecycle_row _ ts = None"

definition track_recent_transaction ::
  "in_memory_storage \<Rightarrow> recent_transaction_record \<Rightarrow> in_memory_storage" where
  "track_recent_transaction st row =
     (let hash = rtr_hash row;
          (order, counts, lookup) =
            evict_rows (\<lambda>old_hash. old_hash) (stc_recent_tx_capacity (im_config st))
              (im_recent_tx_order st @ [hash])
              (count_row hash (im_recent_tx_counts st), bt_insert hash row (im_recent_tx_lookup st))
      in st\<lparr>im_recent_tx_order := order, im_recent_tx_counts := counts, im_recent_tx_lookup := lookup\<rparr>)"

definition recent_row :: "event_envelope \<Rightarrow> tx_decoded \<Rightarrow> recent_transaction_record" where
  "recent_row event decoded =
     \<lparr>rtr_hash = dec_hash decoded, rtr_sender = dec_sender decoded, rtr_nonce = dec_nonce decoded,
      rtr_tx_type = dec_tx_type decoded, rtr_seen_unix_ms = ee_ingest_ts_unix_ms event,
      rtr_source_id = source_str (ee_source_id event)\<rparr>"

text \<open>
  The elapsed times are those of the projection row, of the lifecycle row and of the
  append itself; the first two are only read when such a row is written.
\<close>

definition append_event ::
  "u64 \<times> u64 \<times> u64 \<Rightarrow> in_memory_storage \<Rightarrow> event_envelope \<Rightarrow> in_memory_storage" where
  "append_event readings st event =
     (let (t_projection, t_lifecycle, t) = readings;
          st = (case ee_payload event of
                  TxDecoded decoded \<Rightarrow> track_recent_transaction st (recent_row event decoded)
                | _ \<Rightarrow> st);
          st = (case ee_payload event of
                  TxConfirmedFinal confirmed \<Rightarrow>
                    st\<lparr>im_latest_finalized_block_unix_ms := Some (max
                         (case im_latest_finalized_block_unix_ms st of Some ms \<Rightarrow> ms | None \<Rightarrow> 0)
                         (ee_ingest_ts_unix_ms event))\<rparr>
                | _ \<Rightarrow> st);
          st = (case ee_payload event of
                  CandidateQueued queued \<Rightarrow>
                    upsert_opportunity t_projection st (project_opportunity_from_candidate queued)
                | _ \<Rightarrow> st);
          st = (case ee_payload event of
                  AssemblyDecisionApplied applied \<Rightarrow>
                    upsert_builder_lifecycle t_projection st
                      (project_builder_lifecycle applied (ee_ingest_ts_unix_ms event))
                | _ \<Rightarrow> st);
          st = (case lifecycle_row (ee_payload event) (ee_ingest_ts_unix_ms event) of
                  Some row \<Rightarrow> upsert_tx_lifecycle t_lifecycle st row
                | None \<Rightarrow> st);
          (events, event_index) = trim_events (stc_event_capacity (im_config st))
            (im_events st @ [event]) (index_insert (im_event_index st) event)
      in finish_write t (st\<lparr>im_events := events, im_event_index := event_index\<rparr>))"

section \<open>Queries\<close>

definition list_events :: "in_memory_storage \<Rightarrow> event_envelope list" where
  "list_events st = im_event_index st"

definition scan_events :: "in_memory_storage \<Rightarrow> u64 \<Rightarrow> usize \<Rightarrow> event_envelope list" where
  "scan_events st from_seq_id limit =
     (let limit = max limit 1; start = scan_events_cursor_start (im_event_index st) from_seq_id
      in take limit (drop start (im_event_index st)))"

definition latest_seq_id :: "in_memory_storage \<Rightarrow> u64 option" where
  "latest_seq_id st =
     (if im_event_index st = [] then None else Some (ee_seq_id (last (im_event_index st))))"

definition tx_seen_by_hash :: "in_memory_storage \<Rightarrow> TxHash \<Rightarrow> tx_seen_record option" where
  "tx_seen_by_hash st hash = bt_get (im_tx_seen_lookup st) hash"

definition tx_full_by_hash :: "in_memory_storage \<Rightarrow> TxHash \<Rightarrow> tx_full_record option" where
  "tx_full_by_hash st hash = bt_get (im_tx_full_lookup st) hash"

definition tx_features_by_hash :: "in_memory_storage \<Rightarrow> TxHash \<Rightarrow> tx_features_record option" where
  "tx_features_by_hash st hash = bt_get (im_tx_features_lookup st) hash"

definition tx_lifecycle_by_hash :: "in_memory_storage \<Rightarrow> TxHash \<Rightarrow> tx_lifecycle_record option" where
  "tx_lifecycle_by_hash st hash = bt_get (im_tx_lifecycle_lookup st) hash"

text \<open>
  An unstable sort may leave rows that compare equal in any order; the stable sort is
  one of its results.
\<close>

definition opportunities :: "in_memory_storage \<Rightarrow> opportunity_record list" where
  "opportunities st =
     sort_by (\<lambda>a b. then_with (cmp (opr_detected_unix_ms b) (opr_detected_unix_ms a))
         (then_with (cmp (opr_tx_hash a) (opr_tx_hash b)) (cmp (opr_strategy a) (opr_strategy b))))
       (im_opportunities st)"

definition bucket_order :: "feature_summary_bucket \<Rightarrow> feature_summary_bucket \<Rightarrow> ordering" where
  "bucket_order left right =
     then_with (cmp (fsb_count right) (fsb_count left))
       (then_with (cmp (fsb_protocol left) (fsb_protocol right))
         (cmp (fsb_category left) (fsb_category right)))"

definition dashboard_feature_summary :: "in_memory_storage \<Rightarrow> usize \<Rightarrow> feature_summary_bucket list" where
  "dashboard_feature_summary st limit =
     (let target = max limit 1;
          out = map (\<lambda>((protocol, category), n).
                  \<lparr>fsb_protocol = protocol, fsb_category = category, fsb_count = n\<rparr>)
                (bt_entries (im_feature_summary_counts st))
      in take target (sort_by bucket_order out))"

fun recent_loop ::
  "(TxHash, recent_transaction_record) btree_map \<Rightarrow> usize \<Rightarrow> TxHash set
    \<Rightarrow> recent_transaction_record list \<Rightarrow> TxHash list \<Rightarrow> recent_transaction_record list" where
  "recent_loop lookup target emitted_hashes out [] = out"
| "recent_loop lookup target emitted_hashes out (hash # hashes) =
     (if hash \<in> emitted_hashes then recent_loop lookup target emitted_hashes out hashes
      else let emitted_hashes = insert hash emitted_hashes
           in case bt_get lookup hash of
                None \<Rightarrow> recent_loop lookup target emitted_hashes out hashes
              | Some row \<Rightarrow>
                  let out = out @ [row]
                  in if length out \<ge> target then out
                     else recent_loop lookup target emitted_hashes out hashes)"

definition recent_order ::
  "recent_transaction_record \<Rightarrow> recent_transaction_record \<Rightarrow> ordering" where
  "recent_order a b =
     then_with (cmp (rtr_seen_unix_ms b) (rtr_seen_unix_ms a)) (cmp (rtr_hash a) (rtr_hash b))"

definition recent_transactions :: "in_memory_storage \<Rightarrow> usize \<Rightarrow> recent_transaction_record list" where
  "recent_transactions st limit =
     (let target = max limit 1;
          out = recent_loop (im_recent_tx_lookup st) target {} [] (rev (im_recent_tx_order st))
      in sort_by recent_order out)"

text \<open>The sum of the window wraps at 64 bits.\<close>

definition avg_write_latency_ns :: "in_memory_storage \<Rightarrow> u64 option" where
  "avg_write_latency_ns st =
     (if im_write_latency_ns st = [] then None
      else Some (sum_list (im_write_latency_ns st) div of_nat (length (im_write_latency_ns st))))"

definition scheduler_rehydration_plan_of ::
  "in_memory_storage \<Rightarrow> u64 \<Rightarrow> scheduler_rehydration_plan" where
  "scheduler_rehydration_plan_of st max_finality_gap_ms =
     (case im_scheduler_snapshot st of
        None \<Rightarrow> default_rehydration_plan
      | Some snapshot \<Rightarrow>
          if (case im_latest_finalized_block_unix_ms st of
                None \<Rightarrow> False
              | Some finalized_unix_ms \<Rightarrow>
                  i64_sat (finalized_unix_ms - ps_captured_at_unix_ms snapshot)
                    > min (uint max_finality_gap_ms) i64_max)
          then \<lparr>srp_snapshot = None, srp_replay_events = [], srp_requires_rpc_rebuild = True\<rparr>
          else \<lparr>srp_snapshot = Some snapshot,
                srp_replay_events = scan_events st (ps_event_seq_hi snapshot)
                  (max (length (im_event_index st)) 1),
                srp_requires_rpc_rebuild = False\<rparr>)"

end
