(* ===== verification/Storage_Facts.thy ===== *)
theory Storage_Facts
  imports Storage
begin

text \<open>
  What the in-memory store promises, for every sequence of writes: each table holds the
  last rows written, each lookup the latest retained row of its hash, the event index is
  the ring buffer in canonical order, scans are windows of it, and the feature summary
  counts the transactions of each bucket. The hash-indexed tables share one interface,
  \<open>hash_table\<close>, interpreted once per table.
\<close>

section \<open>Sequences of writes\<close>

datatype storage_step =
    AppendStep "u64 \<times> u64 \<times> u64" event_envelope
  | SeenStep u64 tx_seen_record
  | FullStep u64 tx_full_record
  | FeaturesStep u64 tx_features_record
  | OpportunityStep u64 opportunity_record
  | BuilderStep u64 builder_lifecycle_record
  | LifecycleStep u64 tx_lifecycle_record
  | PeerStep u64 peer_stats_record
  | SnapshotStep u64 persisted_scheduler_snapshot

fun apply_step :: "in_memory_storage \<Rightarrow> storage_step \<Rightarrow> in_memory_storage" where
  "apply_step st (AppendStep readings event) = append_event readings st event"
| "apply_step st (SeenStep t row) = upsert_tx_seen t st row"
| "apply_step st (FullStep t row) = upsert_tx_full t st row"
| "apply_step st (FeaturesStep t row) = upsert_tx_features t st row"
| "apply_step st (OpportunityStep t row) = upsert_opportunity t st row"
| "apply_step st (BuilderStep t row) = upsert_builder_lifecycle t st row"
| "apply_step st (LifecycleStep t row) = upsert_tx_lifecycle t st row"
| "apply_step st (PeerStep t row) = upsert_peer_stats t st row"
| "apply_step st (SnapshotStep t snapshot) = write_scheduler_snapshot t st snapshot"

text \<open>The store after a sequence of writes, starting empty.\<close>

definition storage_run :: "storage_config \<Rightarrow> storage_step list \<Rightarrow> in_memory_storage" where
  "storage_run config steps = foldl apply_step (with_config config) steps"

text \<open>The rows that a write adds to each table.\<close>

fun appended_event :: "storage_step \<Rightarrow> event_envelope option" where
  "appended_event (AppendStep _ event) = Some event"
| "appended_event _ = None"

fun seen_row :: "storage_step \<Rightarrow> tx_seen_record option" where
  "seen_row (SeenStep _ row) = Some row"
| "seen_row _ = None"

fun full_row :: "storage_step \<Rightarrow> tx_full_record option" where
  "full_row (FullStep _ row) = Some row"
| "full_row _ = None"

fun features_row :: "storage_step \<Rightarrow> tx_features_record option" where
  "features_row (FeaturesStep _ row) = Some row"
| "features_row _ = None"

fun lifecycle_row_of :: "storage_step \<Rightarrow> tx_lifecycle_record option" where
  "lifecycle_row_of (AppendStep _ event) = lifecycle_row (ee_payload event) (ee_ingest_ts_unix_ms event)"
| "lifecycle_row_of (LifecycleStep _ row) = Some row"
| "lifecycle_row_of _ = None"

fun recent_row_of :: "storage_step \<Rightarrow> recent_transaction_record option" where
  "recent_row_of (AppendStep _ event) =
     (case ee_payload event of TxDecoded decoded \<Rightarrow> Some (recent_row event decoded) | _ \<Rightarrow> None)"
| "recent_row_of _ = None"

section \<open>Frames of the writes\<close>

lemma finish_write_simps [simp]:
  "im_config (finish_write t st) = im_config st"
  "im_events (finish_write t st) = im_events st"
  "im_event_index (finish_write t st) = im_event_index st"
  "im_tx_seen (finish_write t st) = im_tx_seen st"
  "im_tx_seen_counts (finish_write t st) = im_tx_seen_counts st"
  "im_tx_seen_lookup (finish_write t st) = im_tx_seen_lookup st"
  "im_tx_full (finish_write t st) = im_tx_full st"
  "im_tx_full_counts (finish_write t st) = im_tx_full_counts st"
  "im_tx_full_lookup (finish_write t st) = im_tx_full_lookup st"
  "im_tx_features (finish_write t st) = im_tx_features st"
  "im_tx_features_counts (finish_write t st) = im_tx_features_counts st"
  "im_tx_features_lookup (finish_write t st) = im_tx_features_lookup st"
  "im_feature_summary_counts (finish_write t st) = im_feature_summary_counts st"
  "im_tx_lifecycle (finish_write t st) = im_tx_lifecycle st"
  "im_tx_lifecycle_counts (finish_write t st) = im_tx_lifecycle_counts st"
  "im_tx_lifecycle_lookup (finish_write t st) = im_tx_lifecycle_lookup st"
  "im_scheduler_snapshot (finish_write t st) = im_scheduler_snapshot st"
  "im_latest_finalized_block_unix_ms (finish_write t st) = im_latest_finalized_block_unix_ms st"
  "im_recent_tx_order (finish_write t st) = im_recent_tx_order st"
  "im_recent_tx_counts (finish_write t st) = im_recent_tx_counts st"
  "im_recent_tx_lookup (finish_write t st) = im_recent_tx_lookup st"
  "im_market_stats (finish_write t st) = im_market_stats st"
  by (simp_all add: finish_write_def bump_read_model_revision_def record_write_latency_def)

lemmas write_defs = upsert_tx_seen_def upsert_tx_full_def upsert_tx_features_def
  upsert_opportunity_def upsert_builder_lifecycle_def upsert_tx_lifecycle_def
  upsert_peer_stats_def write_scheduler_snapshot_def track_recent_transaction_def

lemma append_event_frame:
  "im_config (append_event readings st event) = im_config st"
  "im_tx_seen (append_event readings st event) = im_tx_seen st"
  "im_tx_seen_counts (append_event readings st event) = im_tx_seen_counts st"
  "im_tx_seen_lookup (append_event readings st event) = im_tx_seen_lookup st"
  "im_tx_full (append_event readings st event) = im_tx_full st"
  "im_tx_full_counts (append_event readings st event) = im_tx_full_counts st"
  "im_tx_full_lookup (append_event readings st event) = im_tx_full_lookup st"
  "im_tx_features (append_event readings st event) = im_tx_features st"
  "im_tx_features_counts (append_event readings st event) = im_tx_features_counts st"
  "im_tx_features_lookup (append_event readings st event) = im_tx_features_lookup st"
  "im_feature_summary_counts (append_event readings st event) = im_feature_summary_counts st"
  "im_scheduler_snapshot (append_event readings st event) = im_scheduler_snapshot st"
  by (cases "ee_payload event"; simp add: append_event_def write_defs Let_def case_prod_unfold)+

lemma append_event_events:
  "im_events (append_event readings st event) = fst (trim_events (stc_event_capacity (im_config st))
     (im_events st @ [event]) (index_insert (im_event_index st) event))"
  "im_event_index (append_event readings st event) = snd (trim_events (stc_event_capacity (im_config st))
     (im_events st @ [event]) (index_insert (im_event_index st) event))"
  by (cases "ee_payload event"; simp add: append_event_def write_defs Let_def case_prod_unfold)+

lemma append_event_lifecycle:
  "lifecycle_row (ee_payload event) (ee_ingest_ts_unix_ms event) = None \<Longrightarrow>
    im_tx_lifecycle (append_event readings st event) = im_tx_lifecycle st \<and>
    im_tx_lifecycle_counts (append_event readings st event) = im_tx_lifecycle_counts st \<and>
    im_tx_lifecycle_lookup (append_event readings st event) = im_tx_lifecycle_lookup st"
  "lifecycle_row (ee_payload event) (ee_ingest_ts_unix_ms event) = Some row \<Longrightarrow>
    (im_tx_lifecycle (append_event readings st event), im_tx_lifecycle_counts (append_event readings st event),
     im_tx_lifecycle_lookup (append_event readings st event)) =
    push_bounded_hash_indexed (im_tx_lifecycle st, im_tx_lifecycle_counts st, im_tx_lifecycle_lookup st)
      row (stc_table_capacity (im_config st)) tlr_hash"
  by (cases "ee_payload event"; simp add: append_event_def write_defs Let_def case_prod_unfold)+

lemma append_event_recent:
  "recent_row_of (AppendStep readings event) = None \<Longrightarrow>
    im_recent_tx_order (append_event readings st event) = im_recent_tx_order st \<and>
    im_recent_tx_counts (append_event readings st event) = im_recent_tx_counts st \<and>
    im_recent_tx_lookup (append_event readings st event) = im_recent_tx_lookup st"
  "recent_row_of (AppendStep readings event) = Some row \<Longrightarrow>
    (im_recent_tx_order (append_event readings st event), im_recent_tx_counts (append_event readings st event),
     im_recent_tx_lookup (append_event readings st event)) =
    evict_rows (\<lambda>h. h) (stc_recent_tx_capacity (im_config st))
      (im_recent_tx_order st @ [rtr_hash row])
      (count_row (rtr_hash row) (im_recent_tx_counts st), bt_insert (rtr_hash row) row (im_recent_tx_lookup st))"
  by (cases "ee_payload event"; simp add: append_event_def write_defs Let_def case_prod_unfold)+

lemma map_filter_append: "List.map_filter f (xs @ ys) = List.map_filter f xs @ List.map_filter f ys"
  by (simp add: List.map_filter_def)

section \<open>The interface of a hash-indexed table\<close>

text \<open>
  A component of a state is a hash-indexed table when a write either leaves it alone or
  appends one element, counts it, makes it the latest of its hash and evicts down to the
  capacity. Started empty, it then retains the last elements, and its lookup gives the
  latest retained element of every hash.
\<close>

locale hash_table =
  fixes step :: "'s \<Rightarrow> 'e \<Rightarrow> 's"
    and capacity :: "'s \<Rightarrow> usize"
    and deque :: "'s \<Rightarrow> 'a list"
    and idx :: "'s \<Rightarrow> hash_counts \<times> (TxHash, 'v) btree_map"
    and row_of :: "'e \<Rightarrow> 'v option"
    and elem :: "'v \<Rightarrow> 'a"
    and hash_of :: "'a \<Rightarrow> TxHash"
    and key :: "'v \<Rightarrow> TxHash"
  assumes hash_elem: "hash_of (elem v) = key v"
    and step_capacity: "capacity (step s e) = capacity s"
    and step_other: "row_of e = None \<Longrightarrow> deque (step s e) = deque s \<and> idx (step s e) = idx s"
    and step_row: "row_of e = Some v \<Longrightarrow>
      (deque (step s e), idx (step s e)) = evict_rows hash_of (capacity s) (deque s @ [elem v])
        (count_row (key v) (fst (idx s)), bt_insert (key v) v (snd (idx s)))"
begin

lemma run_capacity: "capacity (foldl step s es) = capacity s"
  by (induction es arbitrary: s) (simp_all add: step_capacity)

lemma map_last_n: "map f (last_n n xs) = last_n n (map f xs)"
  by (simp add: last_n_def drop_map)

lemma run_windowed:
  assumes "deque s = []" and "idx s = (bt_empty, bt_empty)"
  defines "vs \<equiv> \<lambda>es. last_n (capacity s) (List.map_filter row_of es)"
  shows "deque (foldl step s es) = map elem (vs es) \<and> windowed key (vs es) (idx (foldl step s es))"
proof (induction es rule: rev_induct)
  case Nil
  then show ?case
    using assms(1,2) by (simp add: vs_def last_n_def windowed_Nil)
next
  case (snoc e es)
  show ?case
  proof (cases "row_of e")
    case None
    then show ?thesis
      using snoc step_other [OF None] by (simp add: vs_def map_filter_append)
  next
    case (Some v)
    let ?s = "foldl step s es"
    let ?idx = "(count_row (key v) (fst (idx ?s)), bt_insert (key v) v (snd (idx ?s)))"
    have "windowed key (vs es @ [v]) ?idx"
      using snoc by (intro windowed_push) simp
    then have "fst (evict_rows hash_of (capacity s) (map elem (vs es) @ [elem v]) ?idx)
        = last_n (capacity s) (map elem (vs es) @ [elem v])
      \<and> windowed key (last_n (capacity s) (vs es @ [v]))
          (snd (evict_rows hash_of (capacity s) (map elem (vs es) @ [elem v]) ?idx))"
      by (rule evict_rows_windowed) (simp add: hash_elem)
    moreover have vs: "last_n (capacity s) (vs es @ [v]) = vs (es @ [e])"
      by (simp add: vs_def map_filter_append Some List.map_filter_simps last_n_push)
    moreover have "last_n (capacity s) (map elem (vs es) @ [elem v]) = map elem (vs (es @ [e]))"
      by (simp only: vs [symmetric] map_last_n map_append list.map)
    moreover have "deque (step ?s e) = fst (evict_rows hash_of (capacity s) (map elem (vs es) @ [elem v]) ?idx)"
        "idx (step ?s e) = snd (evict_rows hash_of (capacity s) (map elem (vs es) @ [elem v]) ?idx)"
      using step_row [OF Some, of ?s] snoc by (metis run_capacity fst_conv, metis run_capacity snd_conv)
    ultimately show ?thesis by (simp add: vs)
  qed
qed

lemma run_lookup:
  assumes "deque s = []" and "idx s = (bt_empty, bt_empty)"
  shows "bt_get (snd (idx (foldl step s es))) h =
    latest_of key (last_n (capacity s) (List.map_filter row_of es)) h"
  using run_windowed [OF assms, of es] by (simp add: windowed_def)

end

section \<open>The tables of the store\<close>

lemmas step_defs = write_defs append_event_frame Let_def case_prod_unfold
lemmas push_def = push_bounded_hash_indexed_def

interpretation seen_table: hash_table apply_step "\<lambda>st. stc_table_capacity (im_config st)"
  im_tx_seen "\<lambda>st. (im_tx_seen_counts st, im_tx_seen_lookup st)" seen_row "\<lambda>r. r" tsn_hash tsn_hash
proof
  fix st e r
  show "stc_table_capacity (im_config (apply_step st e)) = stc_table_capacity (im_config st)"
    by (cases e) (simp_all add: step_defs)
  show "seen_row e = None \<Longrightarrow> im_tx_seen (apply_step st e) = im_tx_seen st \<and>
      (im_tx_seen_counts (apply_step st e), im_tx_seen_lookup (apply_step st e)) =
      (im_tx_seen_counts st, im_tx_seen_lookup st)"
    by (cases e) (simp_all add: step_defs)
  show "seen_row e = Some r \<Longrightarrow> (im_tx_seen (apply_step st e),
      im_tx_seen_counts (apply_step st e), im_tx_seen_lookup (apply_step st e)) =
      evict_rows tsn_hash (stc_table_capacity (im_config st)) (im_tx_seen st @ [r])
        (count_row (tsn_hash r) (fst (im_tx_seen_counts st, im_tx_seen_lookup st)),
         bt_insert (tsn_hash r) r (snd (im_tx_seen_counts st, im_tx_seen_lookup st)))"
    by (cases e) (simp_all add: step_defs push_def)
qed simp

interpretation full_table: hash_table apply_step "\<lambda>st. stc_table_capacity (im_config st)"
  im_tx_full "\<lambda>st. (im_tx_full_counts st, im_tx_full_lookup st)" full_row "\<lambda>r. r" tfu_hash tfu_hash
proof
  fix st e r
  show "stc_table_capacity (im_config (apply_step st e)) = stc_table_capacity (im_config st)"
    by (rule seen_table.step_capacity)
  show "full_row e = None \<Longrightarrow> im_tx_full (apply_step st e) = im_tx_full st \<and>
      (im_tx_full_counts (apply_step st e), im_tx_full_lookup (apply_step st e)) =
      (im_tx_full_counts st, im_tx_full_lookup st)"
    by (cases e) (simp_all add: step_defs)
  show "full_row e = Some r \<Longrightarrow> (im_tx_full (apply_step st e),
      im_tx_full_counts (apply_step st e), im_tx_full_lookup (apply_step st e)) =
      evict_rows tfu_hash (stc_table_capacity (im_config st)) (im_tx_full st @ [r])
        (count_row (tfu_hash r) (fst (im_tx_full_counts st, im_tx_full_lookup st)),
         bt_insert (tfu_hash r) r (snd (im_tx_full_counts st, im_tx_full_lookup st)))"
    by (cases e) (simp_all add: step_defs push_def)
qed simp

interpretation lifecycle_table: hash_table apply_step "\<lambda>st. stc_table_capacity (im_config st)"
  im_tx_lifecycle "\<lambda>st. (im_tx_lifecycle_counts st, im_tx_lifecycle_lookup st)"
  lifecycle_row_of "\<lambda>r. r" tlr_hash tlr_hash
proof
  fix st e r
  show "stc_table_capacity (im_config (apply_step st e)) = stc_table_capacity (im_config st)"
    by (rule seen_table.step_capacity)
  show "lifecycle_row_of e = None \<Longrightarrow> im_tx_lifecycle (apply_step st e) = im_tx_lifecycle st \<and>
      (im_tx_lifecycle_counts (apply_step st e), im_tx_lifecycle_lookup (apply_step st e)) =
      (im_tx_lifecycle_counts st, im_tx_lifecycle_lookup st)"
    by (cases e) (simp_all add: step_defs append_event_lifecycle)
  show "lifecycle_row_of e = Some r \<Longrightarrow> (im_tx_lifecycle (apply_step st e),
      im_tx_lifecycle_counts (apply_step st e), im_tx_lifecycle_lookup (apply_step st e)) =
      evict_rows tlr_hash (stc_table_capacity (im_config st)) (im_tx_lifecycle st @ [r])
        (count_row (tlr_hash r) (fst (im_tx_lifecycle_counts st, im_tx_lifecycle_lookup st)),
         bt_insert (tlr_hash r) r (snd (im_tx_lifecycle_counts st, im_tx_lifecycle_lookup st)))"
    by (cases e) (simp_all add: step_defs push_def append_event_lifecycle)
qed simp

interpretation recent_table: hash_table apply_step "\<lambda>st. stc_recent_tx_capacity (im_config st)"
  im_recent_tx_order "\<lambda>st. (im_recent_tx_counts st, im_recent_tx_lookup st)"
  recent_row_of rtr_hash "\<lambda>h. h" rtr_hash
proof
  fix st e r
  show "stc_recent_tx_capacity (im_config (apply_step st e)) = stc_recent_tx_capacity (im_config st)"
    by (cases e) (simp_all add: step_defs)
  show "recent_row_of e = None \<Longrightarrow> im_recent_tx_order (apply_step st e) = im_recent_tx_order st \<and>
      (im_recent_tx_counts (apply_step st e), im_recent_tx_lookup (apply_step st e)) =
      (im_recent_tx_counts st, im_recent_tx_lookup st)"
    by (cases e) (simp_all add: step_defs append_event_recent del: recent_row_of.simps(1))
  show "recent_row_of e = Some r \<Longrightarrow> (im_recent_tx_order (apply_step st e),
      im_recent_tx_counts (apply_step st e), im_recent_tx_lookup (apply_step st e)) =
      evict_rows (\<lambda>h. h) (stc_recent_tx_capacity (im_config st)) (im_recent_tx_order st @ [rtr_hash r])
        (count_row (rtr_hash r) (fst (im_recent_tx_counts st, im_recent_tx_lookup st)),
         bt_insert (rtr_hash r) r (snd (im_recent_tx_counts st, im_recent_tx_lookup st)))"
    by (cases e) (simp_all add: step_defs append_event_recent del: recent_row_of.simps(1))
qed simp

text \<open>The feature table evicts as the other tables do, beside keeping its summary.\<close>

lemma evict_features_rows:
  "fst (evict_features n deque (counts, lookup, summary)) =
     fst (evict_rows tft_hash n deque (counts, lookup)) \<and>
   (fst (snd (evict_features n deque (counts, lookup, summary))),
    fst (snd (snd (evict_features n deque (counts, lookup, summary))))) =
     snd (evict_rows tft_hash n deque (counts, lookup))"
  by (induction deque arbitrary: counts lookup summary)
    (auto simp: uncount_row_def Let_def split: option.splits)

interpretation features_table: hash_table apply_step "\<lambda>st. stc_table_capacity (im_config st)"
  im_tx_features "\<lambda>st. (im_tx_features_counts st, im_tx_features_lookup st)"
  features_row "\<lambda>r. r" tft_hash tft_hash
proof
  fix st e r
  show "stc_table_capacity (im_config (apply_step st e)) = stc_table_capacity (im_config st)"
    by (rule seen_table.step_capacity)
  show "features_row e = None \<Longrightarrow> im_tx_features (apply_step st e) = im_tx_features st \<and>
      (im_tx_features_counts (apply_step st e), im_tx_features_lookup (apply_step st e)) =
      (im_tx_features_counts st, im_tx_features_lookup st)"
    by (cases e) (simp_all add: step_defs)
  show "features_row e = Some r \<Longrightarrow> (im_tx_features (apply_step st e),
      im_tx_features_counts (apply_step st e), im_tx_features_lookup (apply_step st e)) =
      evict_rows tft_hash (stc_table_capacity (im_config st)) (im_tx_features st @ [r])
        (count_row (tft_hash r) (fst (im_tx_features_counts st, im_tx_features_lookup st)),
         bt_insert (tft_hash r) r (snd (im_tx_features_counts st, im_tx_features_lookup st)))"
    by (cases e) (auto simp: step_defs evict_features_rows intro!: prod_eqI)
qed simp

section \<open>Properties of the store\<close>

definition events_of :: "storage_step list \<Rightarrow> event_envelope list" where
  "events_of steps = List.map_filter appended_event steps"

lemma with_config_tables [simp]:
  "im_config (with_config config) =
     \<lparr>stc_event_capacity = max (stc_event_capacity config) 1,
      stc_recent_tx_capacity = max (stc_recent_tx_capacity config) 1,
      stc_table_capacity = max (stc_table_capacity config) 1,
      stc_write_latency_capacity = max (stc_write_latency_capacity config) 1\<rparr>"
  "im_events (with_config config) = []" "im_event_index (with_config config) = []"
  "im_tx_seen (with_config config) = []" "im_tx_seen_counts (with_config config) = bt_empty"
  "im_tx_seen_lookup (with_config config) = bt_empty"
  "im_tx_full (with_config config) = []" "im_tx_full_counts (with_config config) = bt_empty"
  "im_tx_full_lookup (with_config config) = bt_empty"
  "im_tx_features (with_config config) = []" "im_tx_features_counts (with_config config) = bt_empty"
  "im_tx_features_lookup (with_config config) = bt_empty"
  "im_feature_summary_counts (with_config config) = bt_empty"
  "im_tx_lifecycle (with_config config) = []" "im_tx_lifecycle_counts (with_config config) = bt_empty"
  "im_tx_lifecycle_lookup (with_config config) = bt_empty"
  "im_recent_tx_order (with_config config) = []" "im_recent_tx_counts (with_config config) = bt_empty"
  "im_recent_tx_lookup (with_config config) = bt_empty"
  "im_scheduler_snapshot (with_config config) = None"
  "im_latest_finalized_block_unix_ms (with_config config) = None"
  by (simp_all add: with_config_def)

lemma store_step_config: "im_config (apply_step st e) = im_config st"
  by (cases e) (simp_all add: step_defs)

lemma store_run_config: "im_config (foldl apply_step st steps) = im_config st"
  by (induction steps rule: rev_induct) (simp_all add: store_step_config)

lemma other_step_events:
  "appended_event e = None \<Longrightarrow> im_events (apply_step st e) = im_events st \<and>
    im_event_index (apply_step st e) = im_event_index st"
  by (cases e) (simp_all add: step_defs)

lemma events_history:
  assumes "im_events st = []" and "im_event_index st = []"
  shows "im_events (foldl apply_step st steps) = last_n (stc_event_capacity (im_config st)) (events_of steps)
    \<and> event_index.indexes (im_event_index (foldl apply_step st steps))
      (last_n (stc_event_capacity (im_config st)) (events_of steps))"
proof (induction steps rule: rev_induct)
  case Nil
  then show ?case
    using assms by (simp add: events_of_def last_n_def event_index.indexes_Nil)
next
  case (snoc e steps)
  let ?s = "foldl apply_step st steps"
  show ?case
  proof (cases "appended_event e")
    case None
    then show ?thesis
      using snoc other_step_events [OF None, of ?s] None
      by (auto simp: events_of_def map_filter_append List.map_filter_simps)
  next
    case (Some event)
    then obtain readings where e: "e = AppendStep readings event" by (cases e) auto
    have "event_index.indexes (index_insert (im_event_index ?s) event) (im_events ?s @ [event])"
      using snoc by (intro event_index.indexes_push) simp
    from trim_events_indexes [OF this, of "stc_event_capacity (im_config st)"] show ?thesis
      using snoc by (simp add: e append_event_events store_run_config events_of_def map_filter_append
          List.map_filter_simps last_n_push)
  qed
qed

lemma storage_events:
  "im_events (storage_run config steps) = last_n (max (stc_event_capacity config) 1) (events_of steps)"
  "sorted (map order_key (im_event_index (storage_run config steps)))"
  "mset (im_event_index (storage_run config steps)) = mset (im_events (storage_run config steps))"
  using events_history [of "with_config config" steps]
  by (simp_all add: storage_run_def event_index.indexes_def)

text \<open>
  Property C11. Whatever is written, the store retains the last events appended, up to
  its capacity, and list_events is exactly those events in canonical
  order: the index, with its binary searches and its removal on eviction, never loses,
  duplicates or misplaces one.
\<close>

theorem event_store_exact:
  "let st = storage_run config steps
   in im_events st = last_n (max (stc_event_capacity config) 1) (events_of steps) \<and>
      mset (list_events st) = mset (im_events st) \<and>
      sorted_wrt (\<lambda>a b. cmp_deterministic a b \<noteq> Greater) (list_events st) \<and>
      latest_seq_id st = (if im_events st = [] then None
        else Some (Max (ee_seq_id ` set (im_events st))))"
proof -
  let ?st = "storage_run config steps"
  have "ee_seq_id (last (im_event_index ?st)) = Max (ee_seq_id ` set (im_events ?st))"
    if "im_events ?st \<noteq> []"
  proof (rule Max_eqI [symmetric])
    have s: "set (im_event_index ?st) = set (im_events ?st)"
      using storage_events(3) by (rule mset_eq_setD)
    then have ne: "im_event_index ?st \<noteq> []" using that by auto
    then show "ee_seq_id (last (im_event_index ?st)) \<in> ee_seq_id ` set (im_events ?st)"
      using s last_in_set by blast
    fix i assume "i \<in> ee_seq_id ` set (im_events ?st)"
    then have "i \<in> set (map ee_seq_id (butlast (im_event_index ?st) @ [last (im_event_index ?st)]))"
      using s ne by simp
    moreover have "sorted (map ee_seq_id (butlast (im_event_index ?st) @ [last (im_event_index ?st)]))"
      using index_seq_sorted [OF storage_events(2)] ne by simp
    ultimately show "i \<le> ee_seq_id (last (im_event_index ?st))"
      by (auto simp: sorted_append simp del: append_butlast_last_id)
  qed simp
  moreover have "im_event_index ?st = [] \<longleftrightarrow> im_events ?st = []"
    using storage_events(3) [of config steps] by (metis mset_zero_iff)
  moreover have "sorted_wrt (\<lambda>a b. cmp_deterministic a b \<noteq> Greater) (im_event_index ?st)"
    using storage_events(2) by (simp add: sorted_wrt_map cmp_deterministic_simps not_less)
  ultimately show ?thesis
    using storage_events [of config steps] by (simp add: list_events_def latest_seq_id_def)
qed

text \<open>
  The hash lookups of the store give, for every hash, the latest row of the
  last rows written, up to the capacity of the table, and nothing for a hash none of them
  has; the lifecycle table takes rows from lifecycle events and from direct writes.
\<close>

theorem stored_rows_latest:
  "let st = storage_run config steps; n = max (stc_table_capacity config) 1
   in tx_seen_by_hash st h = latest_of tsn_hash (last_n n (List.map_filter seen_row steps)) h \<and>
      tx_full_by_hash st h = latest_of tfu_hash (last_n n (List.map_filter full_row steps)) h \<and>
      tx_features_by_hash st h =
        latest_of tft_hash (last_n n (List.map_filter features_row steps)) h \<and>
      tx_lifecycle_by_hash st h =
        latest_of tlr_hash (last_n n (List.map_filter lifecycle_row_of steps)) h"
  using seen_table.run_lookup [of "with_config config" steps h]
    full_table.run_lookup [of "with_config config" steps h]
    features_table.run_lookup [of "with_config config" steps h]
    lifecycle_table.run_lookup [of "with_config config" steps h]
  by (simp add: storage_run_def tx_seen_by_hash_def tx_full_by_hash_def tx_features_by_hash_def
      tx_lifecycle_by_hash_def)

lemma filter_after_last:
  fixes k :: "'a \<Rightarrow> 'k::linorder" and c :: 'k
  assumes "sorted (map k xs)" and "distinct (map k xs)"
  defines "ys \<equiv> filter (\<lambda>e. c < k e) xs"
  assumes "take n ys \<noteq> []"
  shows "filter (\<lambda>e. k (last (take n ys)) < k e) xs = drop n ys"
proof -
  let ?l = "last (take n ys)"
  have "sorted_wrt (<) (map k xs)"
    using assms(1,2) by (simp add: strict_sorted_iff)
  then have "sorted_wrt (\<lambda>a b. k a < k b) (take n ys @ drop n ys)"
    by (simp add: ys_def sorted_wrt_map sorted_wrt_filter)
  then have s: "sorted_wrt (\<lambda>a b. k a < k b) (take n ys)"
      "\<And>a b. a \<in> set (take n ys) \<Longrightarrow> b \<in> set (drop n ys) \<Longrightarrow> k a < k b"
    by (simp_all only: sorted_wrt_append)
  have l: "?l \<in> set (take n ys)" using assms(4) by (rule last_in_set)
  have "\<not> k ?l < k a" if "a \<in> set (take n ys)" for a
  proof -
    have "sorted_wrt (\<lambda>a b. k a < k b) (butlast (take n ys) @ [?l])"
      and "a \<in> set (butlast (take n ys) @ [?l])"
      using s(1) that assms(4) by simp_all
    then show ?thesis by (auto simp: sorted_wrt_append simp del: append_butlast_last_id)
  qed
  then have "filter (\<lambda>e. k ?l < k e) (take n ys) = []"
    by (simp add: filter_empty_conv)
  moreover have "filter (\<lambda>e. k ?l < k e) (drop n ys) = drop n ys"
    using s(2) [OF l] by (intro filter_True) blast
  ultimately have "filter (\<lambda>e. k ?l < k e) (take n ys @ drop n ys) = drop n ys"
    by (simp only: filter_append append_Nil)
  moreover have "c < k ?l" using l by (auto simp: ys_def dest: in_set_takeD)
  then have "filter (\<lambda>e. k ?l < k e) xs = filter (\<lambda>e. k ?l < k e) ys"
    unfolding ys_def filter_filter by (intro filter_cong) auto
  ultimately show ?thesis by simp
qed

lemma scan_events_filter:
  "scan_events (storage_run config steps) from_seq_id n =
    take (max n 1) (filter (\<lambda>e. from_seq_id < ee_seq_id e) (list_events (storage_run config steps)))"
  by (simp only: scan_events_def Let_def scan_cursor [OF storage_events(2)] list_events_def)

text \<open>
  A scan returns the first retained events whose sequence id is greater than
  the cursor, and the next page, scanned from the last id of a page, continues it without
  a gap or a repetition, provided that the retained sequence ids are unique.
\<close>

theorem scan_pages_continue:
  assumes "distinct (map ee_seq_id (im_events (storage_run config steps)))"
    and "scan_events (storage_run config steps) from_seq_id n \<noteq> []"
  shows "let st = storage_run config steps; page = scan_events st from_seq_id n
    in page = take (max n 1) (filter (\<lambda>e. from_seq_id < ee_seq_id e) (list_events st)) \<and>
       page @ scan_events st (ee_seq_id (last page)) m = scan_events st from_seq_id (max n 1 + max m 1)"
proof -
  let ?ix = "list_events (storage_run config steps)"
  have "sorted (map ee_seq_id ?ix)"
    unfolding list_events_def by (rule index_seq_sorted [OF storage_events(2)])
  moreover have "distinct (map ee_seq_id ?ix)"
    using assms(1) storage_events(3) [of config steps] unfolding list_events_def
    by (metis mset_eq_imp_distinct_iff mset_map)
  ultimately have "filter (\<lambda>e. ee_seq_id (last (take (max n 1) (filter (\<lambda>e. from_seq_id < ee_seq_id e) ?ix)))
      < ee_seq_id e) ?ix = drop (max n 1) (filter (\<lambda>e. from_seq_id < ee_seq_id e) ?ix)"
    using assms(2) by (intro filter_after_last) (simp_all add: scan_events_filter)
  then show ?thesis
    unfolding Let_def scan_events_filter by (simp add: take_add)
qed

section \<open>Recent transactions\<close>

text \<open>The rows of a list whose key did not occur before.\<close>

fun first_by :: "('v \<Rightarrow> TxHash) \<Rightarrow> TxHash set \<Rightarrow> 'v list \<Rightarrow> 'v list" where
  "first_by k seen [] = []"
| "first_by k seen (x # xs) =
     (if k x \<in> seen then first_by k seen xs else x # first_by k (insert (k x) seen) xs)"

lemma recent_loop_first_by:
  assumes "\<And>r. r \<in> set rows \<Longrightarrow> rtr_hash r \<notin> seen \<Longrightarrow>
      bt_get lookup (rtr_hash r) = find (\<lambda>x. rtr_hash x = rtr_hash r) rows"
    and "length out < target"
  shows "recent_loop lookup target seen out (map rtr_hash rows) =
    out @ take (target - length out) (first_by rtr_hash seen rows)"
  using assms
proof (induction rows arbitrary: seen out)
  case (Cons r rows)
  show ?case
  proof (cases "rtr_hash r \<in> seen")
    case True
    have "bt_get lookup (rtr_hash x) = find (\<lambda>y. rtr_hash y = rtr_hash x) rows"
      if "x \<in> set rows" "rtr_hash x \<notin> seen" for x
      using Cons.prems(1) [of x] that True by auto
    then show ?thesis using Cons.IH [of seen out] Cons.prems(2) True by simp
  next
    case False
    have "bt_get lookup (rtr_hash r) = Some r"
      using Cons.prems(1) [of r] False by simp
    moreover have "bt_get lookup (rtr_hash x) = find (\<lambda>y. rtr_hash y = rtr_hash x) rows"
      if "x \<in> set rows" "rtr_hash x \<notin> insert (rtr_hash r) seen" for x
      using Cons.prems(1) [of x] that by auto
    then have "length (out @ [r]) < target \<Longrightarrow>
        recent_loop lookup target (insert (rtr_hash r) seen) (out @ [r]) (map rtr_hash rows) =
        (out @ [r]) @ take (target - length (out @ [r])) (first_by rtr_hash (insert (rtr_hash r) seen) rows)"
      by (intro Cons.IH) auto
    ultimately show ?thesis
      using False Cons.prems(2) by (auto simp: Let_def Suc_diff_Suc take_Suc_Cons
          simp flip: append_assoc elim!: less_natE)
  qed
qed simp

text \<open>
  recent_transactions returns the given number of
  transactions decoded last, each once and with its latest row, out of the last decoded
  rows that the capacity retains, ordered by descending time.
\<close>

theorem recent_transactions_exact:
  "recent_transactions (storage_run config steps) limit =
    sort_by recent_order (take (max limit 1) (first_by rtr_hash {}
      (rev (last_n (max (stc_recent_tx_capacity config) 1) (List.map_filter recent_row_of steps)))))"
proof -
  let ?rows = "last_n (max (stc_recent_tx_capacity config) 1) (List.map_filter recent_row_of steps)"
  let ?st = "storage_run config steps"
  have r: "im_recent_tx_order ?st = map rtr_hash ?rows"
    and l: "bt_get (im_recent_tx_lookup ?st) h = latest_of rtr_hash ?rows h" for h
    using recent_table.run_windowed [of "with_config config" steps]
      recent_table.run_lookup [of "with_config config" steps h] by (simp_all add: storage_run_def)
  have "recent_loop (im_recent_tx_lookup ?st) (max limit 1) {} [] (map rtr_hash (rev ?rows)) =
      take (max limit 1) (first_by rtr_hash {} (rev ?rows))"
    using recent_loop_first_by [of "rev ?rows" "{}" "im_recent_tx_lookup ?st" "[]" "max limit 1"]
    by (simp add: l latest_of_def)
  then show ?thesis
    by (simp only: recent_transactions_def Let_def r rev_map)
qed

section \<open>The feature summary\<close>

definition bucket ::
  "(TxHash, tx_features_record) btree_map \<Rightarrow> string \<Rightarrow> string \<Rightarrow> TxHash set" where
  "bucket lookup protocol category =
     {h. \<exists>r. bt_get lookup h = Some r \<and> tft_protocol r = protocol \<and> tft_category r = category}"

text \<open>Every bucket is counted exactly, and empty buckets have no entry.\<close>

definition summarizes :: "(TxHash, tx_features_record) btree_map \<Rightarrow> summary_counts \<Rightarrow> bool" where
  "summarizes lookup summary \<longleftrightarrow>
     (\<forall>p c. bt_get summary (p, c) \<noteq> Some 0 \<and>
        (case bt_get summary (p, c) of None \<Rightarrow> 0 | Some n \<Rightarrow> unat n) = card (bucket lookup p c))"

lemma finite_bucket [simp]: "finite (bucket lookup p c)"
  by (rule finite_subset [OF _ bt.finite_keys [of lookup]]) (auto simp: bucket_def)

lemma bucket_remove:
  "bt_get lookup h = Some r \<Longrightarrow> bucket (bt_remove h lookup) p c =
    (if tft_protocol r = p \<and> tft_category r = c then bucket lookup p c - {h} else bucket lookup p c)"
  by (auto simp: bucket_def split: if_splits)

lemma bucket_insert:
  "bt_get lookup h = None \<Longrightarrow> bucket (bt_insert h r lookup) p c =
    (if tft_protocol r = p \<and> tft_category r = c then insert h (bucket lookup p c) else bucket lookup p c)"
  by (auto simp: bucket_def split: if_splits)

lemma summarizes_remove:
  assumes "summarizes lookup summary" and h: "bt_get lookup h = Some r"
  shows "summarizes (bt_remove h lookup)
    (decrement_feature_summary_count (tft_protocol r) (tft_category r) summary)"
proof -
  have m: "h \<in> bucket lookup (tft_protocol r) (tft_category r)"
    using h by (simp add: bucket_def)
  have S: "bt_get summary (p, c) \<noteq> Some 0"
      "(case bt_get summary (p, c) of None \<Rightarrow> 0 | Some n \<Rightarrow> unat n) = card (bucket lookup p c)" for p c
    using assms(1) by (simp_all add: summarizes_def)
  have "card (bucket lookup (tft_protocol r) (tft_category r)) \<noteq> 0"
    using m by auto
  then obtain n where n: "bt_get summary (tft_protocol r, tft_category r) = Some n"
      "unat n = card (bucket lookup (tft_protocol r) (tft_category r))"
    using S(2) [of "tft_protocol r" "tft_category r"] by (auto split: option.splits)
  have "card (bucket lookup (tft_protocol r) (tft_category r) - {h}) = unat (sat_sub n 1)"
    using m n by (simp add: unat_sat_sub)
  then show ?thesis
    using S n h by (auto simp: summarizes_def bucket_remove decrement_feature_summary_count_def
        Let_def unat_0_iff split: option.splits if_splits)
qed

lemma summarizes_insert:
  assumes "summarizes lookup summary" and h: "bt_get lookup h = None"
    and room: "card (bucket lookup (tft_protocol r) (tft_category r)) + 1 < 2 ^ 64"
  shows "summarizes (bt_insert h r lookup)
    (increment_feature_summary_count (tft_protocol r) (tft_category r) summary)"
proof -
  let ?n = "case bt_get summary (tft_protocol r, tft_category r) of Some n \<Rightarrow> n | None \<Rightarrow> 0"
  have S: "bt_get summary (p, c) \<noteq> Some 0"
      "(case bt_get summary (p, c) of None \<Rightarrow> 0 | Some n \<Rightarrow> unat n) = card (bucket lookup p c)" for p c
    using assms(1) by (simp_all add: summarizes_def)
  have "unat ?n = card (bucket lookup (tft_protocol r) (tft_category r))"
    using S(2) [of "tft_protocol r" "tft_category r"] by (auto split: option.splits)
  then have u: "unat (?n + 1) = card (bucket lookup (tft_protocol r) (tft_category r)) + 1"
    using room by (simp add: unat_word_ariths)
  have "h \<notin> bucket lookup p c" for p c using h by (simp add: bucket_def)
  moreover have "?n + 1 \<noteq> 0" using u by (metis add_is_0 unat_0 zero_neq_one)
  ultimately show ?thesis
    using S u h by (auto simp: summarizes_def bucket_insert increment_feature_summary_count_def)
qed

lemma evict_features_summarizes:
  "summarizes lookup summary \<Longrightarrow>
    summarizes (fst (snd (snd (evict_features n deque (counts, lookup, summary)))))
      (snd (snd (snd (evict_features n deque (counts, lookup, summary)))))"
proof (induction deque arbitrary: counts lookup summary)
  case (Cons e deque)
  have "bt_remove (tft_hash e) lookup = lookup" if "bt_get lookup (tft_hash e) = None"
    using that by (intro bt_ext) auto
  then show ?case
    using Cons by (auto simp: Let_def summarizes_remove split: option.splits)
qed simp

lemma windowed_card: "windowed k rows idx \<Longrightarrow> card {h. bt_get (snd idx) h \<noteq> None} \<le> length rows"
proof -
  assume "windowed k rows idx"
  then have "{h. bt_get (snd idx) h \<noteq> None} = k ` set rows"
    by (auto simp: windowed_def latest_of_None rows_with_def filter_empty_conv)
  then show ?thesis by (metis card_image_le card_length finite_set order.trans)
qed

lemma features_step:
  "im_tx_features_lookup (upsert_tx_features t st row) = fst (snd (snd (evict_features
     (stc_table_capacity (im_config st)) (im_tx_features st @ [row])
     (count_row (tft_hash row) (im_tx_features_counts st),
      bt_insert (tft_hash row) row (im_tx_features_lookup st),
      increment_feature_summary_count (tft_protocol row) (tft_category row)
        (case bt_get (im_tx_features_lookup st) (tft_hash row) of
           Some previous \<Rightarrow> decrement_feature_summary_count (tft_protocol previous)
             (tft_category previous) (im_feature_summary_counts st)
         | None \<Rightarrow> im_feature_summary_counts st)))))"
  "im_feature_summary_counts (upsert_tx_features t st row) = snd (snd (snd (evict_features
     (stc_table_capacity (im_config st)) (im_tx_features st @ [row])
     (count_row (tft_hash row) (im_tx_features_counts st),
      bt_insert (tft_hash row) row (im_tx_features_lookup st),
      increment_feature_summary_count (tft_protocol row) (tft_category row)
        (case bt_get (im_tx_features_lookup st) (tft_hash row) of
           Some previous \<Rightarrow> decrement_feature_summary_count (tft_protocol previous)
             (tft_category previous) (im_feature_summary_counts st)
         | None \<Rightarrow> im_feature_summary_counts st)))))"
  by (simp_all add: upsert_tx_features_def Let_def case_prod_unfold)

lemma upsert_features_summarizes:
  assumes s: "summarizes (im_tx_features_lookup st) (im_feature_summary_counts st)"
    and w: "windowed tft_hash rows (im_tx_features_counts st, im_tx_features_lookup st)"
    and room: "length rows + 1 < 2 ^ 64"
  shows "summarizes (im_tx_features_lookup (upsert_tx_features t st row))
    (im_feature_summary_counts (upsert_tx_features t st row))"
proof -
  let ?l = "im_tx_features_lookup st" and ?h = "tft_hash row"
  let ?s = "case bt_get ?l ?h of
      Some previous \<Rightarrow> decrement_feature_summary_count (tft_protocol previous)
        (tft_category previous) (im_feature_summary_counts st)
    | None \<Rightarrow> im_feature_summary_counts st"
  have "bt_remove ?h ?l = ?l" if "bt_get ?l ?h = None"
    using that by (intro bt_ext) auto
  then have "summarizes (bt_remove ?h ?l) ?s"
    using s by (auto simp: summarizes_remove split: option.splits)
  moreover have "card (bucket (bt_remove ?h ?l) (tft_protocol row) (tft_category row)) \<le> length rows"
  proof -
    have "bucket (bt_remove ?h ?l) (tft_protocol row) (tft_category row) \<subseteq> {h. bt_get ?l h \<noteq> None}"
      by (auto simp: bucket_def split: if_splits)
    then have "card (bucket (bt_remove ?h ?l) (tft_protocol row) (tft_category row))
        \<le> card {h. bt_get ?l h \<noteq> None}"
      using bt.finite_keys [of ?l] by (intro card_mono)
    then show ?thesis using windowed_card [OF w] by simp
  qed
  ultimately have "summarizes (bt_insert ?h row (bt_remove ?h ?l))
      (increment_feature_summary_count (tft_protocol row) (tft_category row) ?s)"
    using room by (intro summarizes_insert) simp_all
  then show ?thesis
    unfolding features_step by (intro evict_features_summarizes) simp
qed

lemma run_summarizes:
  assumes "max (stc_table_capacity config) 1 + 1 < 2 ^ 64"
  shows "summarizes (im_tx_features_lookup (storage_run config steps))
    (im_feature_summary_counts (storage_run config steps))"
proof (induction steps rule: rev_induct)
  case Nil
  then show ?case by (simp add: storage_run_def summarizes_def bucket_def)
next
  case (snoc e steps)
  let ?st = "storage_run config steps"
  have st: "storage_run config (steps @ [x]) = apply_step ?st x" for x
    by (simp add: storage_run_def)
  show ?case
  proof (cases e)
    case (FeaturesStep t row)
    have "windowed tft_hash (last_n (max (stc_table_capacity config) 1) (List.map_filter features_row steps))
        (im_tx_features_counts ?st, im_tx_features_lookup ?st)"
      using features_table.run_windowed [of "with_config config" steps] by (simp add: storage_run_def)
    then show ?thesis
      using snoc assms unfolding FeaturesStep st apply_step.simps
      by (intro upsert_features_summarizes) auto
  qed (use snoc in \<open>simp_all add: st step_defs\<close>)
qed

interpretation bucket_comparator: comparator bucket_order
proof -
  have "comparator (\<lambda>a b. then_with (cmp (fsb_count b) (fsb_count a))
      (then_with (cmp (fsb_protocol a) (fsb_protocol b)) (cmp (fsb_category a) (fsb_category b))))"
    by (intro comparator_then comparator_cmp comparator_cmp_desc)
  then show "comparator bucket_order" by (simp add: bucket_order_def [abs_def])
qed

text \<open>
  The dashboard summary is exact: every listed bucket counts the stored
  transactions whose latest features have its protocol and category, the buckets are
  sorted, and a non-empty bucket is only left out of a full list, by buckets that are at
  least as large. The incremental counts therefore survive updates of a transaction and
  evictions.
\<close>

theorem feature_summary_exact:
  assumes "stc_table_capacity config + 1 < 2 ^ 64"
  shows "let st = storage_run config steps;
      out = dashboard_feature_summary st limit;
      size_of = (\<lambda>p c. card {h. \<exists>r. tx_features_by_hash st h = Some r \<and>
        tft_protocol r = p \<and> tft_category r = c})
    in (\<forall>b \<in> set out. unat (fsb_count b) = size_of (fsb_protocol b) (fsb_category b)) \<and>
       sorted_wrt (\<lambda>a b. bucket_order a b \<noteq> Greater) out \<and>
       (\<forall>p c. 0 < size_of p c \<longrightarrow>
         (\<exists>b \<in> set out. fsb_protocol b = p \<and> fsb_category b = c) \<or>
         length out = max limit 1 \<and> (\<forall>b \<in> set out. size_of p c \<le> unat (fsb_count b)))"
proof -
  define st where "st = storage_run config steps"
  define n where "n = max limit 1"
  define all where "all = map (\<lambda>((p, c), k). \<lparr>fsb_protocol = p, fsb_category = c, fsb_count = k\<rparr>)
    (bt_entries (im_feature_summary_counts st))"
  have out: "dashboard_feature_summary st limit = take n (sort_by bucket_order all)"
    by (simp add: dashboard_feature_summary_def all_def n_def Let_def)
  have S: "(case bt_get (im_feature_summary_counts st) (p, c) of None \<Rightarrow> 0 | Some k \<Rightarrow> unat k) =
      card (bucket (im_tx_features_lookup st) p c)" for p c
    using run_summarizes [of config steps] assms by (simp add: summarizes_def st_def max_def)
  have all: "b \<in> set all \<longleftrightarrow>
      bt_get (im_feature_summary_counts st) (fsb_protocol b, fsb_category b) = Some (fsb_count b)" for b
  proof
    assume "b \<in> set all"
    then obtain p c k where "((p, c), k) \<in> set (bt_entries (im_feature_summary_counts st))"
        "b = \<lparr>fsb_protocol = p, fsb_category = c, fsb_count = k\<rparr>" by (auto simp: all_def)
    then show "bt_get (im_feature_summary_counts st) (fsb_protocol b, fsb_category b) = Some (fsb_count b)"
      by (simp add: bt.in_entries_iff)
  next
    assume "bt_get (im_feature_summary_counts st) (fsb_protocol b, fsb_category b) = Some (fsb_count b)"
    then have "((fsb_protocol b, fsb_category b), fsb_count b) \<in> set (bt_entries (im_feature_summary_counts st))"
      by (simp add: bt.in_entries_iff)
    then show "b \<in> set all"
      unfolding all_def set_map by (rule rev_image_eqI) simp
  qed
  have exact: "unat (fsb_count b) = card (bucket (im_tx_features_lookup st) (fsb_protocol b) (fsb_category b))"
    if "b \<in> set all" for b
    using that S [of "fsb_protocol b" "fsb_category b"] by (simp add: all)
  have left: "(\<exists>b \<in> set (take n (sort_by bucket_order all)). fsb_protocol b = p \<and> fsb_category b = c) \<or>
      length (take n (sort_by bucket_order all)) = n \<and>
      (\<forall>b \<in> set (take n (sort_by bucket_order all)). card (bucket (im_tx_features_lookup st) p c) \<le> unat (fsb_count b))"
    if ne: "0 < card (bucket (im_tx_features_lookup st) p c)" for p c
  proof -
    from ne obtain k where k: "bt_get (im_feature_summary_counts st) (p, c) = Some k"
        "unat k = card (bucket (im_tx_features_lookup st) p c)"
      using S [of p c] by (auto split: option.splits)
    define b0 where "b0 = \<lparr>fsb_protocol = p, fsb_category = c, fsb_count = k\<rparr>"
    have "b0 \<in> set (take n (sort_by bucket_order all) @ drop n (sort_by bucket_order all))"
      using k(1) by (simp add: all b0_def)
    then consider "b0 \<in> set (take n (sort_by bucket_order all))"
      | "b0 \<in> set (drop n (sort_by bucket_order all))" by (metis Un_iff set_append)
    then show ?thesis
    proof cases
      case 2
      then have "n < length (sort_by bucket_order all)" by (auto simp: not_le [symmetric])
      moreover have "fsb_count b0 \<le> fsb_count b" if "b \<in> set (take n (sort_by bucket_order all))" for b
        using bucket_comparator.take_sort_least [OF that 2]
        by (auto simp: bucket_order_def then_with_Greater cmp_simps not_less)
      ultimately show ?thesis
        using k(2) by (auto simp: b0_def word_le_nat_alt)
    next
      case 1
      then show ?thesis by (intro disjI1 bexI [of _ b0]) (simp_all add: b0_def)
    qed
  qed
  have "sorted_wrt (\<lambda>a b. bucket_order a b \<noteq> Greater) (take n (sort_by bucket_order all))"
    by (intro sorted_wrt_take bucket_comparator.sort_by_sorted)
  moreover have "\<forall>b \<in> set (take n (sort_by bucket_order all)). unat (fsb_count b) =
      card (bucket (im_tx_features_lookup st) (fsb_protocol b) (fsb_category b))"
    using exact by (auto dest: in_set_takeD)
  ultimately show ?thesis
    using left unfolding Let_def st_def [symmetric] out n_def [symmetric] tx_features_by_hash_def
      bucket_def [symmetric] by blast
qed

section \<open>The rehydration plan\<close>

fun snapshot_of :: "storage_step \<Rightarrow> persisted_scheduler_snapshot option" where
  "snapshot_of (SnapshotStep _ snapshot) = Some snapshot"
| "snapshot_of _ = None"

fun finality_of :: "storage_step \<Rightarrow> i64 option" where
  "finality_of (AppendStep _ event) =
     (case ee_payload event of TxConfirmedFinal _ \<Rightarrow> Some (ee_ingest_ts_unix_ms event) | _ \<Rightarrow> None)"
| "finality_of _ = None"

lemma append_event_finality:
  "im_latest_finalized_block_unix_ms (append_event readings st event) =
    (case finality_of (AppendStep readings event) of
       None \<Rightarrow> im_latest_finalized_block_unix_ms st
     | Some ts \<Rightarrow> Some (max (case im_latest_finalized_block_unix_ms st of Some ms \<Rightarrow> ms | None \<Rightarrow> 0) ts))"
  by (cases "ee_payload event"; simp add: append_event_def write_defs Let_def case_prod_unfold)

lemma snapshot_history:
  "im_scheduler_snapshot (storage_run config steps) =
    (let snaps = List.map_filter snapshot_of steps in if snaps = [] then None else Some (last snaps))"
proof (induction steps rule: rev_induct)
  case (snoc e steps)
  then show ?case
    by (cases e) (simp_all add: storage_run_def map_filter_append List.map_filter_simps step_defs)
qed (simp add: storage_run_def List.map_filter_simps)

lemma finality_history:
  "im_latest_finalized_block_unix_ms (storage_run config steps) =
    (let finals = List.map_filter finality_of steps
     in if finals = [] then None else Some (Max (set (0 # finals))))"
proof (induction steps rule: rev_induct)
  case (snoc e steps)
  have "List.map_filter finality_of (steps @ [e]) =
      List.map_filter finality_of steps @ (case finality_of e of None \<Rightarrow> [] | Some ts \<Rightarrow> [ts])"
    by (simp add: map_filter_append List.map_filter_simps split: option.splits)
  moreover have "im_latest_finalized_block_unix_ms (apply_step st e) = (case finality_of e of
       None \<Rightarrow> im_latest_finalized_block_unix_ms st
     | Some ts \<Rightarrow> Some (max (case im_latest_finalized_block_unix_ms st of Some ms \<Rightarrow> ms | None \<Rightarrow> 0) ts))" for st
  proof (cases e)
    case (AppendStep readings event)
    then show ?thesis by (simp only: apply_step.simps append_event_finality)
  qed (simp_all add: step_defs)
  ultimately show ?case
    using snoc by (auto simp: storage_run_def Let_def max.commute max.left_commute split: option.splits)
qed (simp add: storage_run_def List.map_filter_simps)

lemma i64_sat_greater:
  assumes "0 \<le> k" and "k < i64_max"
  shows "i64_sat d > min k i64_max \<longleftrightarrow> d > k"
  using assms by (auto simp: i64_sat_def i64_min_def i64_max_def)

text \<open>
  The restart plan asks for a rebuild exactly when the newest finality
  observed is more than the allowed gap younger than the last snapshot; otherwise it
  offers that snapshot with the retained events above its watermark, in canonical order,
  and these are all such events ever appended as long as the ring buffer has not
  overflowed.
\<close>

theorem rehydration_plan_exact:
  assumes "uint max_gap < i64_max"
  shows "let st = storage_run config steps; plan = scheduler_rehydration_plan_of st max_gap;
      snaps = List.map_filter snapshot_of steps; finals = List.map_filter finality_of steps;
      stale = (snaps \<noteq> [] \<and> finals \<noteq> [] \<and>
        Max (set (0 # finals)) - ps_captured_at_unix_ms (last snaps) > uint max_gap);
      missed = (\<lambda>e. ps_event_seq_hi (last snaps) < ee_seq_id e)
    in srp_requires_rpc_rebuild plan = stale \<and>
       srp_snapshot plan = (if snaps = [] \<or> stale then None else Some (last snaps)) \<and>
       srp_replay_events plan =
         (if snaps = [] \<or> stale then [] else filter missed (list_events st)) \<and>
       (length (events_of steps) \<le> max (stc_event_capacity config) 1 \<longrightarrow>
         mset (filter missed (list_events st)) = mset (filter missed (events_of steps)))"
proof -
  let ?st = "storage_run config steps"
  have g: "i64_sat d > min (uint max_gap) i64_max \<longleftrightarrow> d > uint max_gap" for d
    using assms by (intro i64_sat_greater) simp_all
  have scan: "scan_events ?st hi (max (length (im_event_index ?st)) 1) =
      filter (\<lambda>e. hi < ee_seq_id e) (list_events ?st)" for hi
    using length_filter_le [of "\<lambda>e. hi < ee_seq_id e" "im_event_index ?st"]
    by (simp add: scan_events_filter list_events_def le_max_iff_disj)
  have "mset (list_events ?st) = mset (events_of steps)"
    if "length (events_of steps) \<le> max (stc_event_capacity config) 1"
    using storage_events [of config steps] that by (simp add: list_events_def last_n_all)
  then show ?thesis
    unfolding Let_def scheduler_rehydration_plan_of_def snapshot_history finality_history scan g
    by (simp add: default_rehydration_plan_def mset_filter)
qed

section \<open>Concrete stores\<close>

definition sample_event :: "u64 \<Rightarrow> TxHash \<Rightarrow> event_envelope" where
  "sample_event i h = \<lparr>ee_seq_id = i, ee_ingest_ts_unix_ms = 1000, ee_ingest_ts_mono_ns = 0,
     ee_source_id = SourceId ''peer-a'',
     ee_payload = TxFetched \<lparr>fetched_hash = h, fetched_at_unix_ms = 0\<rparr>\<rparr>"

lemma sample_event_simps [simp]:
  "ee_seq_id (sample_event i h) = i"
  "ee_payload (sample_event i h) = TxFetched \<lparr>fetched_hash = h, fetched_at_unix_ms = 0\<rparr>"
  by (simp_all add: sample_event_def)

lemma sample_neq: "i \<noteq> j \<Longrightarrow> sample_event i h \<noteq> sample_event j k"
  by (metis sample_event_simps(1))

definition sample_steps :: "storage_step list" where
  "sample_steps = [AppendStep (0, 0, 9) (sample_event 6 1), AppendStep (0, 0, 7) (sample_event 5 2),
     AppendStep (0, 0, 8) (sample_event 7 3)]"

lemma sample_events_of:
  "events_of sample_steps = [sample_event 6 1, sample_event 5 2, sample_event 7 3]"
  by (simp add: events_of_def sample_steps_def List.map_filter_simps)

theorem scan_pages_continue_witness:
  "let st = storage_run default_storage_config sample_steps; page = scan_events st 4 2
   in page = take (max 2 1) (filter (\<lambda>e. 4 < ee_seq_id e) (list_events st)) \<and>
      page @ scan_events st (ee_seq_id (last page)) 2 = scan_events st 4 (max 2 1 + max 2 1)"
proof (rule scan_pages_continue)
  have e: "im_events (storage_run default_storage_config sample_steps) =
      [sample_event 6 1, sample_event 5 2, sample_event 7 3]"
    by (simp add: storage_events(1) sample_events_of last_n_def default_storage_config_def)
  show "distinct (map ee_seq_id (im_events (storage_run default_storage_config sample_steps)))"
    by (simp add: e)
  have m: "sample_event 5 2 \<in> set (im_event_index (storage_run default_storage_config sample_steps))"
    using mset_eq_setD [OF storage_events(3) [of default_storage_config sample_steps]] by (simp add: e)
  have "filter (\<lambda>e. 4 < ee_seq_id e)
      (list_events (storage_run default_storage_config sample_steps)) \<noteq> []"
    unfolding filter_empty_conv list_events_def
  proof
    assume "\<forall>x \<in> set (im_event_index (storage_run default_storage_config sample_steps)). \<not> 4 < ee_seq_id x"
    then have "\<not> (4 :: u64) < ee_seq_id (sample_event 5 2)" using m by (rule bspec)
    then show False by simp
  qed
  then show "scan_events (storage_run default_storage_config sample_steps) 4 2 \<noteq> []"
    by (simp add: scan_events_filter)
qed

definition sample_features :: "TxHash \<Rightarrow> tx_features_record" where
  "sample_features h = \<lparr>tft_hash = h, tft_chain_id = Some 1, tft_protocol = ''uniswap-v2'',
     tft_category = ''swap'', tft_mev_score = 82, tft_urgency_score = 20,
     tft_method_selector = None, tft_feature_engine_version = ''feature-engine.v1''\<rparr>"

theorem feature_summary_exact_witness:
  "let st = storage_run default_storage_config
        [FeaturesStep 5 (sample_features 1), FeaturesStep 5 (sample_features 2)];
      out = dashboard_feature_summary st 10;
      size_of = (\<lambda>p c. card {h. \<exists>r. tx_features_by_hash st h = Some r \<and>
        tft_protocol r = p \<and> tft_category r = c})
    in (\<forall>b \<in> set out. unat (fsb_count b) = size_of (fsb_protocol b) (fsb_category b)) \<and>
       sorted_wrt (\<lambda>a b. bucket_order a b \<noteq> Greater) out \<and>
       (\<forall>p c. 0 < size_of p c \<longrightarrow>
         (\<exists>b \<in> set out. fsb_protocol b = p \<and> fsb_category b = c) \<or>
         length out = max 10 1 \<and> (\<forall>b \<in> set out. size_of p c \<le> unat (fsb_count b)))"
  by (rule feature_summary_exact) (simp add: default_storage_config_def)

definition sample_snapshot :: persisted_scheduler_snapshot where
  "sample_snapshot = \<lparr>ps_captured_at_unix_ms = 900, ps_captured_at_mono_ns = 0, ps_event_seq_hi = 5,
     ps_pending = [], ps_executable_frontier = [], ps_sender_queues = []\<rparr>"

lemma sample_snapshot_hi [simp]: "ps_event_seq_hi sample_snapshot = 5"
  by (simp add: sample_snapshot_def)

theorem rehydration_plan_exact_witness:
  "let st = storage_run default_storage_config (SnapshotStep 4 sample_snapshot # sample_steps);
      plan = scheduler_rehydration_plan_of st 60000;
      snaps = List.map_filter snapshot_of (SnapshotStep 4 sample_snapshot # sample_steps);
      finals = List.map_filter finality_of (SnapshotStep 4 sample_snapshot # sample_steps);
      stale = (snaps \<noteq> [] \<and> finals \<noteq> [] \<and>
        Max (set (0 # finals)) - ps_captured_at_unix_ms (last snaps) > uint (60000 :: u64));
      missed = (\<lambda>e. ps_event_seq_hi (last snaps) < ee_seq_id e)
    in srp_requires_rpc_rebuild plan = stale \<and>
       srp_snapshot plan = (if snaps = [] \<or> stale then None else Some (last snaps)) \<and>
       srp_replay_events plan =
         (if snaps = [] \<or> stale then [] else filter missed (list_events st)) \<and>
       (length (events_of (SnapshotStep 4 sample_snapshot # sample_steps))
           \<le> max (stc_event_capacity default_storage_config) 1 \<longrightarrow>
         mset (filter missed (list_events st)) =
         mset (filter missed (events_of (SnapshotStep 4 sample_snapshot # sample_steps))))"
  by (rule rehydration_plan_exact) (simp add: i64_max_def)

text \<open>
  A plan does not notice that the ring buffer has dropped events above the watermark: with
  room for two events it replays two of the three events appended after the snapshot and
  asks for no rebuild.
\<close>

lemma rehydration_plan_misses_evicted:
  "let config = default_storage_config\<lparr>stc_event_capacity := 1\<rparr>;
       steps = SnapshotStep 4 sample_snapshot # sample_steps;
       plan = scheduler_rehydration_plan_of (storage_run config steps) 60000
   in srp_snapshot plan = Some sample_snapshot \<and> \<not> srp_requires_rpc_rebuild plan \<and>
      sample_event 6 1 \<in> set (events_of steps) \<and>
      ps_event_seq_hi sample_snapshot < ee_seq_id (sample_event 6 1) \<and>
      sample_event 6 1 \<notin> set (srp_replay_events plan)"
proof -
  let ?config = "default_storage_config\<lparr>stc_event_capacity := 1\<rparr>"
  let ?steps = "SnapshotStep 4 sample_snapshot # sample_steps"
  let ?st = "storage_run ?config ?steps"
  have ev: "events_of ?steps = [sample_event 6 1, sample_event 5 2, sample_event 7 3]"
    using sample_events_of by (simp add: events_of_def List.map_filter_simps)
  have "set (im_event_index ?st) = {sample_event 7 3}"
    using mset_eq_setD [OF storage_events(3) [of ?config ?steps]]
    by (simp add: storage_events(1) ev last_n_def)
  then have "sample_event 6 1 \<notin> set (list_events ?st)"
    using sample_neq [of 6 7 1 3] unfolding list_events_def by simp
  then have "sample_event 6 1 \<notin> set (scan_events ?st 5 n)" for n
    unfolding scan_events_filter by (meson filter_is_subset in_set_takeD subsetD)
  moreover have "im_scheduler_snapshot ?st = Some sample_snapshot"
    "im_latest_finalized_block_unix_ms ?st = None"
    by (simp_all add: snapshot_history finality_history List.map_filter_simps sample_steps_def)
  ultimately show ?thesis
    by (simp add: scheduler_rehydration_plan_of_def ev)
qed

end
