(* ===== verification/Storage_Wal.thy ===== *)
theory Storage_Wal
  imports Event_Log Text
begin

text \<open>
  The write-ahead log (\<^verbatim>\<open>src/crates/storage/src/wal.rs\<close>): events as lines of
  JSON in numbered segment files beside the configured path, rotation by size, recovery
  and clearing. The directory is a map from the names of its regular files to their
  bytes. \<^verbatim>\<open>serde_json\<close> is a pair of parameters \<open>enc\<close> and \<open>dec\<close>; file
  access that fails is an argument of the operation that it interrupts. Errors carry an
  opaque cause in the source, which nothing inspects.
\<close>

datatype storage_error = WalWrite | ClickHouseBatch | ParquetExport | OtherError

type_synonym wal_dir = "(string, string) btree_map"

section \<open>Numbers in file names and lines of a file\<close>

text \<open>\<^verbatim>\<open>{id:020}\<close>\<close>

definition pad_id :: "u64 \<Rightarrow> string" where
  "pad_id i = (let s = show_word i in replicate (20 - length s) (CHR ''0'') @ s)"

abbreviation newline :: char where
  "newline \<equiv> CHR 0x0A"

abbreviation carriage_return :: char where
  "carriage_return \<equiv> CHR 0x0D"

definition chomp :: "string \<Rightarrow> string" where
  "chomp line = (if line \<noteq> [] \<and> last line = carriage_return then butlast line else line)"

text \<open>\<^verbatim>\<open>BufRead::lines\<close>\<close>

function lines_of :: "string \<Rightarrow> string list" where
  "lines_of s =
     (if s = [] then []
      else case dropWhile (\<lambda>c. c \<noteq> newline) s of
             [] \<Rightarrow> [s]
           | _ # rest \<Rightarrow> chomp (takeWhile (\<lambda>c. c \<noteq> newline) s) # lines_of rest)"
  by auto
termination
proof (relation "measure length")
  fix s :: string and x rest
  assume "dropWhile (\<lambda>c. c \<noteq> newline) s = x # rest"
  then have "length (x # rest) \<le> length s" by (metis length_dropWhile_le)
  then show "(rest, s) \<in> measure length" by simp
qed simp

declare lines_of.simps [simp del]

section \<open>The log\<close>

record storage_wal =
  wal_base :: string
  wal_segment_max_bytes :: u64

definition with_segment_size :: "string \<Rightarrow> u64 \<Rightarrow> storage_wal" where
  "with_segment_size base segment_max_bytes =
     \<lparr>wal_base = base, wal_segment_max_bytes = max segment_max_bytes 1\<rparr>"

definition new_wal :: "string \<Rightarrow> storage_wal" where
  "new_wal base = with_segment_size base (64 * 1024 * 1024)"

definition segment_name :: "storage_wal \<Rightarrow> u64 \<Rightarrow> string" where
  "segment_name wal i = wal_base wal @ ''.seg.'' @ pad_id i"

definition segment_id :: "storage_wal \<Rightarrow> string \<Rightarrow> u64 option" where
  "segment_id wal name =
     (case strip_prefix (wal_base wal @ ''.seg.'') name of None \<Rightarrow> None | Some id_raw \<Rightarrow> parse_u64 id_raw)"

definition segment_paths :: "storage_wal \<Rightarrow> wal_dir \<Rightarrow> (u64 \<times> string) list" where
  "segment_paths wal dir =
     sort_by (\<lambda>a b. cmp (fst a) (fst b))
       (List.map_filter (\<lambda>name. map_option (\<lambda>i. (i, name)) (segment_id wal name)) (bt_keys dir))"

definition file_content :: "wal_dir \<Rightarrow> string \<Rightarrow> string" where
  "file_content dir name = (case bt_get dir name of None \<Rightarrow> [] | Some content \<Rightarrow> content)"

definition active_segment_path_for_append :: "storage_wal \<Rightarrow> wal_dir \<Rightarrow> string" where
  "active_segment_path_for_append wal dir =
     (let segments = segment_paths wal dir
      in if segments = [] then segment_name wal 0
         else let (i, path) = last segments
              in if length (file_content dir path) < unat (wal_segment_max_bytes wal) then path
                 else segment_name wal (sat_add i 1))"

text \<open>How a write ends: completed, or failed after some bytes reached the file.\<close>

datatype write_outcome = Written | Torn nat

definition wal_append_event ::
  "(event_envelope \<Rightarrow> string) \<Rightarrow> storage_wal \<Rightarrow> write_outcome \<Rightarrow> wal_dir \<Rightarrow> event_envelope
    \<Rightarrow> (storage_error + unit) \<times> wal_dir" where
  "wal_append_event enc wal outcome dir event =
     (let path = active_segment_path_for_append wal dir;
          line = enc event @ [newline]
      in case outcome of
           Written \<Rightarrow> (Inr (), bt_insert path (file_content dir path @ line) dir)
         | Torn n \<Rightarrow> (Inl WalWrite, bt_insert path (file_content dir path @ take n line) dir))"

definition read_line ::
  "(string \<Rightarrow> event_envelope option) \<Rightarrow> event_envelope list \<Rightarrow> string
    \<Rightarrow> storage_error + event_envelope list" where
  "read_line dec events line =
     (if trim line = [] then Inr events
      else case dec line of None \<Rightarrow> Inl WalWrite | Some event \<Rightarrow> Inr (events @ [event]))"

definition read_events_from_path ::
  "(string \<Rightarrow> event_envelope option) \<Rightarrow> string \<Rightarrow> storage_error + event_envelope list" where
  "read_events_from_path dec content = fold_result (read_line dec) [] (lines_of content)"

definition recover_events ::
  "(string \<Rightarrow> event_envelope option) \<Rightarrow> storage_wal \<Rightarrow> wal_dir \<Rightarrow> storage_error + event_envelope list" where
  "recover_events dec wal dir =
     (let paths = map snd (segment_paths wal dir) @
            (if bt_contains dir (wal_base wal) then [wal_base wal] else [])
      in case fold_result (\<lambda>events path.
             case read_events_from_path dec (file_content dir path) of
               Inl err \<Rightarrow> Inl err | Inr found \<Rightarrow> Inr (events @ found)) [] paths of
           Inl err \<Rightarrow> Inl err
         | Inr events \<Rightarrow> Inr (sort_by (\<lambda>a b. cmp (ee_seq_id a) (ee_seq_id b)) events))"

definition wal_scan ::
  "(string \<Rightarrow> event_envelope option) \<Rightarrow> storage_wal \<Rightarrow> wal_dir \<Rightarrow> u64 \<Rightarrow> usize
    \<Rightarrow> storage_error + event_envelope list" where
  "wal_scan dec wal dir from_seq_id limit =
     (let limit = max limit 1
      in case recover_events dec wal dir of
           Inl err \<Rightarrow> Inl err
         | Inr events \<Rightarrow> Inr (take limit (filter (\<lambda>e. from_seq_id < ee_seq_id e) events)))"

text \<open>
  Clearing removes the segments one after the other and empties the base file;
  \<open>Some k\<close> is a failure of the step after the first \<open>k\<close> removals.
\<close>

definition wal_clear :: "storage_wal \<Rightarrow> nat option \<Rightarrow> wal_dir \<Rightarrow> (storage_error + unit) \<times> wal_dir" where
  "wal_clear wal failure dir =
     (let segments = map snd (segment_paths wal dir)
      in case failure of
           Some k \<Rightarrow> (Inl WalWrite, foldl (\<lambda>d path. bt_remove path d) dir (take k segments))
         | None \<Rightarrow>
             let dir' = foldl (\<lambda>d path. bt_remove path d) dir segments
             in (Inr (), if bt_contains dir' (wal_base wal) then bt_insert (wal_base wal) [] dir' else dir'))"

section \<open>Segment names\<close>

lemma dec_value_pad: "dec_value (replicate n (CHR ''0'') @ s) = dec_value s"
proof -
  have "foldl (\<lambda>acc c. 10 * acc + (of_char c - 48)) 0 (replicate n (CHR ''0'')) = (0 :: nat)"
    by (induction n) simp_all
  then show ?thesis by (simp add: dec_value_def)
qed

lemma digits_dec_string: "list_all is_digit (dec_string n)"
proof (induction n rule: dec_string.induct)
  case (1 n)
  have "is_digit (digit_char k)" if "k < 10" for k
    using that by (simp add: is_digit_def digit_char_def)
  then show ?case using 1 by (subst dec_string.simps) simp
qed

lemma dec_string_not_Nil: "dec_string n \<noteq> []"
  by (subst dec_string.simps) simp

lemma parse_pad_id: "parse_u64 (pad_id i) = Some i"
proof -
  have d: "list_all is_digit (pad_id i)" "pad_id i \<noteq> []"
    using digits_dec_string dec_string_not_Nil
    by (auto simp: pad_id_def show_word_def Let_def list_all_iff is_digit_def)
  have "is_digit (hd (pad_id i))" using d by (cases "pad_id i") simp_all
  then have "hd (pad_id i) \<noteq> CHR ''+''" by (auto simp: is_digit_def)
  moreover have "dec_value (pad_id i) = unat i"
    by (simp add: pad_id_def Let_def dec_value_pad show_word_def dec_value_string)
  ultimately show ?thesis
    using d unat_le_max [of i] by (simp add: parse_u64_def)
qed

lemma segment_id_name [simp]: "segment_id wal (segment_name wal i) = Some i"
proof -
  have "strip_prefix (wal_base wal @ ''.seg.'') (segment_name wal i) = Some (pad_id i)"
    using strip_prefix_append [of "wal_base wal @ ''.seg.''" "pad_id i"]
    by (simp add: segment_name_def)
  then show ?thesis by (simp add: segment_id_def parse_pad_id)
qed

lemma segment_name_inj: "segment_name wal i = segment_name wal j \<longleftrightarrow> i = j"
  by (metis option.inject segment_id_name)

lemma strip_prefix_Some: "strip_prefix p s = Some r \<Longrightarrow> s = p @ r"
  by (induction p s rule: strip_prefix.induct) (auto split: if_splits)

lemma segment_name_not_base [simp]: "segment_name wal i \<noteq> wal_base wal" "wal_base wal \<noteq> segment_name wal i"
  by (simp_all add: segment_name_def)

lemma segment_id_base: "segment_id wal (wal_base wal) = None"
  using strip_prefix_Some [of "wal_base wal @ ''.seg.''" "wal_base wal"]
  by (cases "strip_prefix (wal_base wal @ ''.seg.'') (wal_base wal)") (auto simp: segment_id_def)

section \<open>What the log holds\<close>

text \<open>
  What the code relies on of \<^verbatim>\<open>serde_json\<close> for an event: its encoding is one
  line that is not blank, and decodes to the event.
\<close>

definition codec :: "(event_envelope \<Rightarrow> string) \<Rightarrow> (string \<Rightarrow> event_envelope option) \<Rightarrow> event_envelope \<Rightarrow> bool" where
  "codec enc dec e \<longleftrightarrow> newline \<notin> set (enc e) \<and> carriage_return \<notin> set (enc e) \<and>
     trim (enc e) \<noteq> [] \<and> dec (enc e) = Some e"

definition encoded :: "(event_envelope \<Rightarrow> string) \<Rightarrow> event_envelope list \<Rightarrow> string" where
  "encoded enc es = concat (map (\<lambda>e. enc e @ [newline]) es)"

lemma encoded_simps [simp]:
  "encoded enc [] = []" "encoded enc (e # es) = enc e @ newline # encoded enc es"
  "encoded enc (es @ fs) = encoded enc es @ encoded enc fs"
  by (simp_all add: encoded_def)

lemma lines_of_line:
  assumes "newline \<notin> set l"
  shows "lines_of (l @ newline # s) = chomp l # lines_of s"
proof -
  have "dropWhile (\<lambda>c. c \<noteq> newline) (l @ newline # s) = newline # s"
    and "takeWhile (\<lambda>c. c \<noteq> newline) (l @ newline # s) = l"
    using assms by (induction l) auto
  then show ?thesis by (subst lines_of.simps) simp
qed

lemma lines_of_encoded:
  "list_all (codec enc dec) es \<Longrightarrow> lines_of (encoded enc es @ s) = map enc es @ lines_of s"
proof (induction es)
  case (Cons e es)
  then have "newline \<notin> set (enc e)" and "chomp (enc e) = enc e"
    by (auto simp: codec_def chomp_def dest: last_in_set)
  then show ?case using Cons lines_of_line [of "enc e" "encoded enc es @ s"] by simp
qed simp

lemma fold_read_lines:
  "list_all (codec enc dec) es \<Longrightarrow>
    fold_result (read_line dec) acc (map enc es @ ls) = fold_result (read_line dec) (acc @ es) ls"
  by (induction es arbitrary: acc) (simp_all add: read_line_def codec_def)

lemma read_encoded:
  assumes "list_all (codec enc dec) es"
  shows "read_events_from_path dec (encoded enc es) = Inr es"
  using lines_of_encoded [OF assms, of "[]"] fold_read_lines [OF assms, of "[]" "[]"]
  by (simp add: read_events_from_path_def lines_of.simps [of "[]"])

text \<open>
  The log holds the chunks of events \<open>ess\<close>: one segment per chunk, numbered from zero,
  and an empty or absent base file.
\<close>

definition wal_holds ::
  "(event_envelope \<Rightarrow> string) \<Rightarrow> storage_wal \<Rightarrow> wal_dir \<Rightarrow> event_envelope list list \<Rightarrow> bool" where
  "wal_holds enc wal dir ess \<longleftrightarrow>
     length ess \<le> 2 ^ 64 \<and>
     segment_paths wal dir = map (\<lambda>i. (of_nat i, segment_name wal (of_nat i))) [0..<length ess] \<and>
     (\<forall>i < length ess. file_content dir (segment_name wal (of_nat i)) = encoded enc (ess ! i)) \<and>
     file_content dir (wal_base wal) = []"

lemma recover_holds:
  assumes "wal_holds enc wal dir ess" and "list_all (codec enc dec) (concat ess)"
  shows "recover_events dec wal dir = Inr (sort_by (\<lambda>a b. cmp (ee_seq_id a) (ee_seq_id b)) (concat ess))"
proof -
  let ?f = "\<lambda>events path. case read_events_from_path dec (file_content dir path) of
      Inl err \<Rightarrow> Inl err | Inr found \<Rightarrow> Inr (events @ found)"
  have "fold_result ?f acc (map (\<lambda>i. segment_name wal (of_nat i)) [0..<n]) =
      Inr (acc @ concat (take n ess))" if "n \<le> length ess" for n acc
    using that
  proof (induction n arbitrary: acc)
    case (Suc n)
    then have "n < length ess" by simp
    then have "read_events_from_path dec (file_content dir (segment_name wal (of_nat n))) = Inr (ess ! n)"
      using assms by (auto simp: wal_holds_def list_all_iff intro!: read_encoded)
    then show ?case
      using Suc by (simp add: fold_result_append take_Suc_conv_app_nth)
  qed simp
  from this [of "length ess" "[]"] have "fold_result ?f [] (map snd (segment_paths wal dir)) = Inr (concat ess)"
    using assms(1) by (simp add: wal_holds_def comp_def)
  moreover have "?f events (wal_base wal) = Inr events" for events
    using assms(1) by (simp add: wal_holds_def read_events_from_path_def lines_of.simps [of "[]"])
  ultimately show ?thesis
    by (simp add: recover_events_def Let_def fold_result_append)
qed

lemma sort_key_distinct:
  fixes f :: "'a \<Rightarrow> 'k::linorder"
  assumes "mset xs = mset ys" and "sorted_wrt (<) (map f ys)"
  shows "sort_key f xs = ys"
proof -
  have d: "distinct (map f ys)" and s: "sorted (map f ys)"
    using assms(2) by (simp_all only: strict_sorted_iff)
  have "mset (map f (sort_key f xs)) = mset (map f ys)"
    using assms(1) by (simp only: mset_map mset_sort)
  then have d': "distinct (map f (sort_key f xs))"
    using d by (blast dest: mset_eq_imp_distinct_iff)
  have "inj_on f (set ys)" using d by (simp add: distinct_map)
  moreover have "set (sort_key f xs) = set ys"
    using mset_eq_setD [OF assms(1)] by (simp only: set_sort)
  ultimately show ?thesis
    using d d' s by (intro map_sorted_distinct_set_unique [of f]) simp_all
qed

lemma mset_map_filter: "mset xs = mset ys \<Longrightarrow> mset (List.map_filter f xs) = mset (List.map_filter f ys)"
  by (simp add: List.map_filter_def mset_filter)

lemma bt_keys_insert:
  "mset (bt_keys (bt_insert k v m)) =
    (if bt_contains m k then mset (bt_keys m) else add_mset k (mset (bt_keys m)))"
proof -
  have d: "distinct (bt_keys n)" for n :: "('a, 'b) btree_map"
    using bt_keys_sorted [of n] by (simp add: strict_sorted_iff)
  have "set (bt_keys (bt_insert k v m)) = insert k (set (bt_keys m))"
    by (auto simp: bt_keys_set split: if_splits)
  then have "mset (bt_keys (bt_insert k v m)) = mset_set (insert k (set (bt_keys m)))"
    using d by (metis mset_set_set)
  also have "\<dots> = (if bt_contains m k then mset (bt_keys m) else add_mset k (mset (bt_keys m)))"
    using d [of m] bt_keys_set [of k m] by (simp add: bt_contains_def insert_absorb mset_set_set)
  finally show ?thesis .
qed

lemma segment_paths_sort:
  "segment_paths wal dir =
    sort_key fst (List.map_filter (\<lambda>name. map_option (\<lambda>i. (i, name)) (segment_id wal name)) (bt_keys dir))"
  by (simp add: segment_paths_def sort_by_key)

lemma segment_paths_mset:
  "mset (segment_paths wal dir) =
    mset (List.map_filter (\<lambda>name. map_option (\<lambda>i. (i, name)) (segment_id wal name)) (bt_keys dir))"
  by (simp add: segment_paths_sort)

lemma segment_paths_write:
  assumes "bt_contains dir name" and "sorted_wrt (<) (map fst (segment_paths wal dir))"
  shows "segment_paths wal (bt_insert name content dir) = segment_paths wal dir"
  unfolding segment_paths_sort [of wal "bt_insert name content dir"]
proof (rule sort_key_distinct)
  have "mset (bt_keys (bt_insert name content dir)) = mset (bt_keys dir)"
    using assms(1) by (simp add: bt_keys_insert)
  then show "mset (List.map_filter (\<lambda>name. map_option (\<lambda>i. (i, name)) (segment_id wal name))
      (bt_keys (bt_insert name content dir))) = mset (segment_paths wal dir)"
    unfolding segment_paths_mset by (rule mset_map_filter)
qed (rule assms(2))

lemma segment_paths_create:
  assumes "\<not> bt_contains dir (segment_name wal i)"
    and "sorted_wrt (<) (map fst (segment_paths wal dir @ [(i, segment_name wal i)]))"
  shows "segment_paths wal (bt_insert (segment_name wal i) content dir) =
    segment_paths wal dir @ [(i, segment_name wal i)]"
  unfolding segment_paths_sort [of wal "bt_insert (segment_name wal i) content dir"]
proof (rule sort_key_distinct)
  have "mset (bt_keys (bt_insert (segment_name wal i) content dir)) =
      mset (segment_name wal i # bt_keys dir)"
    using assms(1) by (simp add: bt_keys_insert)
  then have "mset (List.map_filter (\<lambda>name. map_option (\<lambda>i. (i, name)) (segment_id wal name))
      (bt_keys (bt_insert (segment_name wal i) content dir))) =
    mset (List.map_filter (\<lambda>name. map_option (\<lambda>i. (i, name)) (segment_id wal name))
      (segment_name wal i # bt_keys dir))"
    by (rule mset_map_filter)
  then show "mset (List.map_filter (\<lambda>name. map_option (\<lambda>i. (i, name)) (segment_id wal name))
      (bt_keys (bt_insert (segment_name wal i) content dir))) =
      mset (segment_paths wal dir @ [(i, segment_name wal i)])"
    by (simp add: segment_paths_mset List.map_filter_simps)
qed (rule assms(2))

lemma in_segment_paths:
  "(i, name) \<in> set (segment_paths wal dir) \<longleftrightarrow> bt_contains dir name \<and> segment_id wal name = Some i"
  by (auto simp: segment_paths_sort in_set_map_filter bt_keys_set bt_contains_def)

lemma numbered_sorted:
  "n \<le> 2 ^ 64 \<Longrightarrow> sorted_wrt (<) (map (\<lambda>i. of_nat i :: u64) [0..<n])"
  by (auto simp: sorted_wrt_map sorted_wrt_iff_nth_less word_less_nat_alt unat_of_nat)

lemma wal_holds_fst:
  "wal_holds enc wal dir ess \<Longrightarrow> map fst (segment_paths wal dir) = map of_nat [0..<length ess]"
  by (simp add: wal_holds_def comp_def)

lemma wal_holds_new:
  assumes h: "wal_holds enc wal dir ess" and n: "length ess < 2 ^ 64"
  defines "name \<equiv> segment_name wal (of_nat (length ess))"
  shows "file_content dir name = []" and
    "wal_holds enc wal (bt_insert name (encoded enc es) dir) (ess @ [es])"
proof -
  have absent: "\<not> bt_contains dir name"
  proof
    assume "bt_contains dir name"
    then have "(of_nat (length ess), name) \<in> set (segment_paths wal dir)"
      by (simp add: in_segment_paths name_def)
    then obtain i where "i < length ess" "(of_nat (length ess) :: u64) = of_nat i"
      using h by (auto simp: wal_holds_def)
    then show False using n by (simp add: word_unat_eq_iff unat_of_nat)
  qed
  then show "file_content dir name = []"
    by (auto simp: file_content_def bt_contains_def)
  have "sorted_wrt (<) (map (\<lambda>i. of_nat i :: u64) [0..<length (ess @ [es])])"
    using n by (intro numbered_sorted) simp
  then have "segment_paths wal (bt_insert name (encoded enc es) dir) =
      segment_paths wal dir @ [(of_nat (length ess), name)]"
    using absent unfolding name_def
    by (intro segment_paths_create) (simp_all add: wal_holds_fst [OF h])
  moreover have "segment_name wal (of_nat i) \<noteq> name" if "i < length ess" for i
    using that n by (simp add: name_def segment_name_inj word_unat_eq_iff unat_of_nat)
  ultimately show "wal_holds enc wal (bt_insert name (encoded enc es) dir) (ess @ [es])"
    using h n by (auto simp: wal_holds_def name_def file_content_def nth_append less_Suc_eq)
qed

lemma wal_holds_extend:
  assumes h: "wal_holds enc wal dir (ess @ [es])"
  defines "name \<equiv> segment_name wal (of_nat (length ess))"
  shows "file_content dir name = encoded enc es" and
    "wal_holds enc wal (bt_insert name (encoded enc (es @ fs)) dir) (ess @ [es @ fs])"
proof -
  have n: "length ess < 2 ^ 64" using h by (simp add: wal_holds_def)
  show "file_content dir name = encoded enc es"
    using h by (auto simp: wal_holds_def name_def)
  have "(of_nat (length ess), name) \<in> set (segment_paths wal dir)"
    using h by (auto simp: wal_holds_def name_def)
  moreover have "sorted_wrt (<) (map fst (segment_paths wal dir))"
    unfolding wal_holds_fst [OF h] using n by (intro numbered_sorted) simp
  ultimately have "segment_paths wal (bt_insert name (encoded enc (es @ fs)) dir) = segment_paths wal dir"
    by (intro segment_paths_write) (auto simp: in_segment_paths)
  moreover have "segment_name wal (of_nat i) \<noteq> name" if "i < length ess" for i
    using that n by (simp add: name_def segment_name_inj word_unat_eq_iff unat_of_nat)
  ultimately show "wal_holds enc wal (bt_insert name (encoded enc (es @ fs)) dir) (ess @ [es @ fs])"
    using h by (auto simp: wal_holds_def name_def file_content_def nth_append less_Suc_eq)
qed

lemma last_segment:
  "wal_holds enc wal dir (ess @ [es]) \<Longrightarrow>
    segment_paths wal dir \<noteq> [] \<and>
    last (segment_paths wal dir) = (of_nat (length ess), segment_name wal (of_nat (length ess)))"
  by (simp add: wal_holds_def)

text \<open>A completed append adds the event to the log, whether or not it rotates.\<close>

lemma wal_append_holds:
  assumes h: "wal_holds enc wal dir ess"
  obtains ess' where "wal_holds enc wal (snd (wal_append_event enc wal Written dir e)) ess'"
    and "concat ess' = concat ess @ [e]"
proof (cases ess rule: rev_cases)
  case Nil
  then have "active_segment_path_for_append wal dir = segment_name wal (of_nat (length ess))"
    using h by (simp add: active_segment_path_for_append_def wal_holds_def)
  then have "snd (wal_append_event enc wal Written dir e) =
      bt_insert (segment_name wal (of_nat (length ess))) (encoded enc [e]) dir"
    using wal_holds_new(1) [OF h] Nil by (simp add: wal_append_event_def)
  then show ?thesis
    using that [of "ess @ [[e]]"] wal_holds_new(2) [OF h, of "[e]"] Nil by simp
next
  case (snoc ess0 es)
  let ?n = "of_nat (length ess0) :: u64"
  have h0: "wal_holds enc wal dir (ess0 @ [es])" using h snoc by simp
  have n: "length ess0 < 2 ^ 64" using h0 by (simp add: wal_holds_def)
  consider "active_segment_path_for_append wal dir = segment_name wal ?n"
    | "active_segment_path_for_append wal dir = segment_name wal (of_nat (length ess))" "length ess < 2 ^ 64"
  proof (cases "length (file_content dir (segment_name wal ?n)) < unat (wal_segment_max_bytes wal)
      \<or> length ess = 2 ^ 64")
    case True
    have "sat_add ?n 1 = ?n" if "length ess = 2 ^ 64"
      using that snoc by (simp add: word_unat_eq_iff unat_sat_add unat_of_nat)
    then show ?thesis
      using True last_segment [OF h0]
      by (intro that(1)) (auto simp: active_segment_path_for_append_def Let_def)
  next
    case False
    then have "length ess < 2 ^ 64" using h by (simp add: wal_holds_def)
    then have "sat_add ?n 1 = of_nat (length ess)"
      using snoc by (simp add: word_unat_eq_iff unat_sat_add unat_of_nat del: of_nat_Suc)
    then show ?thesis
      using False last_segment [OF h0] \<open>length ess < 2 ^ 64\<close>
      by (intro that(2)) (auto simp: active_segment_path_for_append_def Let_def)
  qed
  then show ?thesis
  proof cases
    case 1
    then have "snd (wal_append_event enc wal Written dir e) =
        bt_insert (segment_name wal ?n) (encoded enc (es @ [e])) dir"
      using wal_holds_extend(1) [OF h0] by (simp add: wal_append_event_def)
    then show ?thesis
      using that [of "ess0 @ [es @ [e]]"] wal_holds_extend(2) [OF h0, of "[e]"] snoc by simp
  next
    case 2
    then have "snd (wal_append_event enc wal Written dir e) =
        bt_insert (segment_name wal (of_nat (length ess))) (encoded enc [e]) dir"
      using wal_holds_new(1) [OF h] by (simp add: wal_append_event_def)
    then show ?thesis
      using that [of "ess @ [[e]]"] wal_holds_new(2) [OF h, of "[e]"] 2 by simp
  qed
qed

text \<open>Clearing leaves an empty log.\<close>

lemma bt_get_foldl_remove_paths:
  "bt_get (foldl (\<lambda>d path. bt_remove path d) dir paths) name =
    (if name \<in> set paths then None else bt_get dir name)"
  by (induction paths arbitrary: dir) auto

lemma wal_clear_holds: "wal_holds enc wal (snd (wal_clear wal None dir)) []"
proof -
  let ?d = "foldl (\<lambda>d path. bt_remove path d) dir (map snd (segment_paths wal dir))"
  have gone: "segment_id wal name = None" if "bt_contains ?d name" for name
  proof (rule ccontr)
    assume "segment_id wal name \<noteq> None"
    then obtain i where "segment_id wal name = Some i" by auto
    moreover have "bt_contains dir name" "name \<notin> snd ` set (segment_paths wal dir)"
      using that by (auto simp: bt_contains_def bt_get_foldl_remove_paths split: if_splits)
    ultimately show False using in_segment_paths [of i name wal dir] by force
  qed
  have "segment_paths wal (snd (wal_clear wal None dir)) = []"
  proof (rule ccontr)
    assume "\<not> ?thesis"
    then obtain i name where "(i, name) \<in> set (segment_paths wal (snd (wal_clear wal None dir)))"
      by (metis last_in_set surj_pair)
    then have "bt_contains ?d name \<or> name = wal_base wal" "segment_id wal name = Some i"
      by (auto simp: in_segment_paths wal_clear_def Let_def bt_contains_def split: if_splits)
    then show False using gone [of name] segment_id_base [of wal] by auto
  qed
  moreover have "file_content (snd (wal_clear wal None dir)) (wal_base wal) = []"
    by (auto simp: wal_clear_def Let_def file_content_def bt_contains_def split: option.splits)
  ultimately show ?thesis by (simp add: wal_holds_def)
qed

lemma wal_holds_empty: "wal_holds enc wal bt_empty []"
  by (simp add: wal_holds_def segment_paths_sort bt_keys_def bt_simps file_content_def List.map_filter_simps)

section \<open>Recovery\<close>

lemma sort_by_seq: "sort_by (\<lambda>a b. cmp (ee_seq_id a) (ee_seq_id b)) es = sort_key ee_seq_id es"
  by (rule sort_by_key)

lemma wal_append_all_holds:
  assumes "wal_holds enc wal dir ess"
  obtains ess' where "wal_holds enc wal (foldl (\<lambda>d e. snd (wal_append_event enc wal Written d e)) dir es) ess'"
    and "concat ess' = concat ess @ es"
  using assms
proof (induction es arbitrary: dir ess thesis)
  case (Cons e es)
  obtain ess1 where 1: "wal_holds enc wal (snd (wal_append_event enc wal Written dir e)) ess1"
      "concat ess1 = concat ess @ [e]"
    using wal_append_holds [OF Cons.prems(2)] by blast
  obtain ess2 where "wal_holds enc wal (foldl (\<lambda>d e. snd (wal_append_event enc wal Written d e))
        (snd (wal_append_event enc wal Written dir e)) es) ess2" "concat ess2 = concat ess1 @ es"
    using Cons.IH [OF _ 1(1)] by blast
  then show ?case using Cons.prems(1) [of ess2] 1(2) by simp
qed auto

text \<open>
  Property C18. Recovery returns what was appended: after any number of completed appends
  to an empty directory, across however many segments the size limit makes of them, it
  yields exactly these events in the order of their sequence ids, and a scan the first
  of them above the cursor.
\<close>

theorem wal_append_recover_roundtrip:
  assumes "list_all (codec enc dec) es"
  shows "let dir = foldl (\<lambda>d e. snd (wal_append_event enc (with_segment_size base limit) Written d e)) bt_empty es
    in recover_events dec (with_segment_size base limit) dir = Inr (sort_key ee_seq_id es) \<and>
       wal_scan dec (with_segment_size base limit) dir from_seq_id n =
         Inr (take (max n 1) (filter (\<lambda>e. from_seq_id < ee_seq_id e) (sort_key ee_seq_id es)))"
proof -
  let ?wal = "with_segment_size base limit"
  obtain ess where "wal_holds enc ?wal
      (foldl (\<lambda>d e. snd (wal_append_event enc ?wal Written d e)) bt_empty es) ess" "concat ess = es"
    using wal_append_all_holds [OF wal_holds_empty [of enc ?wal], of es] by auto
  then have "recover_events dec ?wal (foldl (\<lambda>d e. snd (wal_append_event enc ?wal Written d e)) bt_empty es) =
      Inr (sort_key ee_seq_id es)"
    using recover_holds [of enc ?wal _ ess dec] assms by (simp add: sort_by_seq)
  then show ?thesis by (simp add: wal_scan_def)
qed

text \<open>The non-blank lines of the files that recovery reads, in its order.\<close>

definition wal_lines :: "storage_wal \<Rightarrow> wal_dir \<Rightarrow> string list" where
  "wal_lines wal dir =
     filter (\<lambda>line. trim line \<noteq> [])
       (concat (map (\<lambda>path. lines_of (file_content dir path))
         (map snd (segment_paths wal dir) @
          (if bt_contains dir (wal_base wal) then [wal_base wal] else []))))"

lemma fold_read_result:
  "fold_result (read_line dec) acc ls =
    (if \<exists>l \<in> set ls. trim l \<noteq> [] \<and> dec l = None then Inl WalWrite
     else Inr (acc @ map (\<lambda>l. the (dec l)) (filter (\<lambda>l. trim l \<noteq> []) ls)))"
  by (induction ls arbitrary: acc) (auto simp: read_line_def split: option.splits)

lemma fold_recover_result:
  "fold_result (\<lambda>events path.
      case read_events_from_path dec (file_content dir path) of
        Inl err \<Rightarrow> Inl err | Inr found \<Rightarrow> Inr (events @ found)) acc paths =
    fold_result (read_line dec) acc (concat (map (\<lambda>path. lines_of (file_content dir path)) paths))"
proof (induction paths arbitrary: acc)
  case (Cons path paths)
  then show ?case
    by (simp add: fold_result_append read_events_from_path_def fold_read_result)
qed simp


definition two_events :: "event_envelope list" where
  "two_events = map (\<lambda>i. \<lparr>ee_seq_id = i, ee_ingest_ts_unix_ms = 1000, ee_ingest_ts_mono_ns = 0,
     ee_source_id = SourceId ''peer-a'',
     ee_payload = TxFetched \<lparr>fetched_hash = 1, fetched_at_unix_ms = 0\<rparr>\<rparr>) [2, 1]"

definition two_enc :: "event_envelope \<Rightarrow> string" where
  "two_enc e = ''{seq:'' @ show_word (ee_seq_id e) @ ''}''"

definition two_dec :: "string \<Rightarrow> event_envelope option" where
  "two_dec s = find (\<lambda>e. two_enc e = s) two_events"

lemma two_codec: "list_all (codec two_enc two_dec) two_events"
  by code_simp

theorem wal_append_recover_roundtrip_witness:
  "let dir = foldl (\<lambda>d e. snd (wal_append_event two_enc (with_segment_size ''events.wal'' 5) Written d e))
      bt_empty two_events
   in recover_events two_dec (with_segment_size ''events.wal'' 5) dir = Inr (sort_key ee_seq_id two_events) \<and>
      wal_scan two_dec (with_segment_size ''events.wal'' 5) dir 1 10 =
        Inr (take (max 10 1) (filter (\<lambda>e. 1 < ee_seq_id e) (sort_key ee_seq_id two_events)))"
  by (rule wal_append_recover_roundtrip [OF two_codec])

end
