(* ===== verification/Storage_Writer.thy ===== *)
theory Storage_Writer
  imports Storage_Facts Storage_Wal
begin

text \<open>
  The storage writer task (\<^verbatim>\<open>src/crates/storage/src/lib.rs\<close>): recovery from
  the write-ahead log at start, sequence numbering, logging and application of the
  queued writes, and the batches it flushes to the analytical sink. The loop of the task
  is a step function on what \<^verbatim>\<open>tokio::select!\<close> delivers, in any order. Clock
  readings and the outcomes of file and network access come from the environment.
\<close>

section \<open>Operations and state\<close>

datatype storage_write_op =
    AppendEvent event_envelope
  | AppendPayload source_id event_payload i64 u64
  | UpsertTxSeen tx_seen_record
  | UpsertTxFull tx_full_record
  | UpsertTxFeatures tx_features_record
  | UpsertOpportunity opportunity_record
  | UpsertTxLifecycle tx_lifecycle_record
  | UpsertPeerStats peer_stats_record
  | WriteSchedulerSnapshot persisted_scheduler_snapshot

record storage_writer_config =
  swc_queue_capacity :: usize
  swc_flush_batch_size :: usize
  swc_flush_interval_ms :: u64
  swc_wal_path :: "string option"

definition default_storage_writer_config :: storage_writer_config where
  "default_storage_writer_config = \<lparr>swc_queue_capacity = 8192, swc_flush_batch_size = 512,
     swc_flush_interval_ms = 500, swc_wal_path = None\<rparr>"

text \<open>
  The environment of one iteration: the elapsed times, how the log write ends, whether
  the sink accepts a batch, and how clearing the log ends.
\<close>

record write_env =
  we_readings :: "u64 \<times> u64 \<times> u64"
  we_wal :: write_outcome
  we_sink_accepts :: bool
  we_clear_failure :: "nat option"

text \<open>\<open>sw_sink\<close> is the sink's side of the interface: the batches it has accepted.\<close>

record storage_writer =
  sw_config :: storage_writer_config
  sw_storage :: in_memory_storage
  sw_batch :: "event_envelope list"
  sw_wal :: "storage_wal option"
  sw_dir :: wal_dir
  sw_sequencer :: global_sequencer
  sw_sink :: "event_envelope list list"

definition flush_batch :: "write_env \<Rightarrow> storage_writer \<Rightarrow> storage_writer" where
  "flush_batch env w =
     (if sw_batch w = [] then w
      else let pending = sw_batch w; w = w\<lparr>sw_batch := []\<rparr>
           in if \<not> we_sink_accepts env then w
              else let w = w\<lparr>sw_sink := sw_sink w @ [pending]\<rparr>
                   in case sw_wal w of
                        None \<Rightarrow> w
                      | Some wal \<Rightarrow>
                          w\<lparr>sw_dir := snd (wal_clear wal (we_clear_failure env) (sw_dir w))\<rparr>)"

text \<open>A failed log write is only reported; the event is stored all the same.\<close>

definition append_numbered ::
  "(event_envelope \<Rightarrow> string) \<Rightarrow> write_env \<Rightarrow> storage_writer \<Rightarrow> event_envelope \<Rightarrow> storage_writer" where
  "append_numbered enc env w event =
     (let (event, sequencer) = assign (sw_sequencer w) event;
          dir = (case sw_wal w of
                   None \<Rightarrow> sw_dir w
                 | Some wal \<Rightarrow> snd (wal_append_event enc wal (we_wal env) (sw_dir w) event))
      in w\<lparr>sw_sequencer := sequencer, sw_dir := dir,
           sw_storage := append_event (we_readings env) (sw_storage w) event,
           sw_batch := sw_batch w @ [event]\<rparr>)"

definition payload_event :: "source_id \<Rightarrow> event_payload \<Rightarrow> i64 \<Rightarrow> u64 \<Rightarrow> event_envelope" where
  "payload_event source payload ts_unix_ms ts_mono_ns =
     \<lparr>ee_seq_id = 0, ee_ingest_ts_unix_ms = ts_unix_ms, ee_ingest_ts_mono_ns = ts_mono_ns,
      ee_source_id = source, ee_payload = payload\<rparr>"

fun apply_write_op ::
  "(event_envelope \<Rightarrow> string) \<Rightarrow> write_env \<Rightarrow> storage_writer \<Rightarrow> storage_write_op \<Rightarrow> storage_writer" where
  "apply_write_op enc env w (AppendEvent event) = append_numbered enc env w event"
| "apply_write_op enc env w (AppendPayload source payload ts_unix_ms ts_mono_ns) =
     append_numbered enc env w (payload_event source payload ts_unix_ms ts_mono_ns)"
| "apply_write_op enc env w (UpsertTxSeen row) =
     w\<lparr>sw_storage := upsert_tx_seen (snd (snd (we_readings env))) (sw_storage w) row\<rparr>"
| "apply_write_op enc env w (UpsertTxFull row) =
     w\<lparr>sw_storage := upsert_tx_full (snd (snd (we_readings env))) (sw_storage w) row\<rparr>"
| "apply_write_op enc env w (UpsertTxFeatures row) =
     w\<lparr>sw_storage := upsert_tx_features (snd (snd (we_readings env))) (sw_storage w) row\<rparr>"
| "apply_write_op enc env w (UpsertOpportunity row) =
     w\<lparr>sw_storage := upsert_opportunity (snd (snd (we_readings env))) (sw_storage w) row\<rparr>"
| "apply_write_op enc env w (UpsertTxLifecycle row) =
     w\<lparr>sw_storage := upsert_tx_lifecycle (snd (snd (we_readings env))) (sw_storage w) row\<rparr>"
| "apply_write_op enc env w (UpsertPeerStats row) =
     w\<lparr>sw_storage := upsert_peer_stats (snd (snd (we_readings env))) (sw_storage w) row\<rparr>"
| "apply_write_op enc env w (WriteSchedulerSnapshot snapshot) =
     w\<lparr>sw_storage := write_scheduler_snapshot (snd (snd (we_readings env))) (sw_storage w) snapshot\<rparr>"

datatype writer_input = Received storage_write_op write_env | Ticked write_env

fun writer_step :: "(event_envelope \<Rightarrow> string) \<Rightarrow> storage_writer \<Rightarrow> writer_input \<Rightarrow> storage_writer" where
  "writer_step enc w (Received op env) =
     (let w = apply_write_op enc env w op
      in if length (sw_batch w) \<ge> swc_flush_batch_size (sw_config w) then flush_batch env w else w)"
| "writer_step enc w (Ticked env) = (if sw_batch w \<noteq> [] then flush_batch env w else w)"

text \<open>When every handle is dropped the task flushes what is left and ends.\<close>

definition writer_close :: "write_env \<Rightarrow> storage_writer \<Rightarrow> storage_writer" where
  "writer_close env w = (if sw_batch w \<noteq> [] then flush_batch env w else w)"

definition writer_run ::
  "(event_envelope \<Rightarrow> string) \<Rightarrow> storage_writer \<Rightarrow> writer_input list \<Rightarrow> storage_writer" where
  "writer_run enc w inputs = foldl (writer_step enc) w inputs"

text \<open>
  \<open>wal_opens\<close> says whether the directory of the log could be created, and
  \<open>readings i\<close> are the elapsed times of the i-th recovered event.
\<close>

definition spawn_single_writer ::
  "(string \<Rightarrow> event_envelope option) \<Rightarrow> bool \<Rightarrow> (nat \<Rightarrow> u64 \<times> u64 \<times> u64) \<Rightarrow> wal_dir
    \<Rightarrow> in_memory_storage \<Rightarrow> storage_writer_config \<Rightarrow> storage_writer" where
  "spawn_single_writer dec wal_opens readings dir storage config =
     (let config = config
            \<lparr>swc_queue_capacity := max (swc_queue_capacity config) 1,
             swc_flush_batch_size := max (swc_flush_batch_size config) 1,
             swc_flush_interval_ms := max (swc_flush_interval_ms config) 1\<rparr>;
          wal = (case swc_wal_path config of
                   None \<Rightarrow> None
                 | Some path \<Rightarrow> if wal_opens then Some (new_wal path) else None);
          storage = (case wal of
                   None \<Rightarrow> storage
                 | Some wal \<Rightarrow>
                     (case recover_events dec wal dir of
                        Inl _ \<Rightarrow> storage
                      | Inr events \<Rightarrow>
                          foldl (\<lambda>st (i, event). append_event (readings i) st event) storage
                            (enumerate 0 events)))
      in \<lparr>sw_config = config, sw_storage = storage, sw_batch = [], sw_wal = wal, sw_dir = dir,
          sw_sequencer = from_latest_seq_id (latest_seq_id storage), sw_sink = []\<rparr>)"

section \<open>What a run does\<close>

fun op_event :: "storage_write_op \<Rightarrow> event_envelope option" where
  "op_event (AppendEvent event) = Some event"
| "op_event (AppendPayload source payload ts_unix_ms ts_mono_ns) =
     Some (payload_event source payload ts_unix_ms ts_mono_ns)"
| "op_event _ = None"

fun input_event :: "writer_input \<Rightarrow> event_envelope option" where
  "input_event (Received op env) = op_event op"
| "input_event (Ticked env) = None"

fun input_env :: "writer_input \<Rightarrow> write_env" where
  "input_env (Received op env) = env"
| "input_env (Ticked env) = env"

definition events_in :: "writer_input list \<Rightarrow> event_envelope list" where
  "events_in inputs = List.map_filter input_event inputs"

text \<open>The events of a run with the sequence ids 1, 2, 3 and so on.\<close>

definition numbered :: "event_envelope list \<Rightarrow> event_envelope list" where
  "numbered es = map (\<lambda>(i, e). e\<lparr>ee_seq_id := of_nat (i + 1)\<rparr>) (enumerate 0 es)"

lemma numbered_simps [simp]:
  "numbered [] = []"
  "numbered (es @ [e]) = numbered es @ [e\<lparr>ee_seq_id := of_nat (length es + 1)\<rparr>]"
  by (simp_all add: numbered_def enumerate_append_eq)

lemma length_numbered [simp]: "length (numbered es) = length es"
  by (simp add: numbered_def)

lemma numbered_ids: "map ee_seq_id (numbered es) = map (\<lambda>i. of_nat (i + 1)) [0..<length es]"
  by (rule nth_equalityI) (simp_all add: numbered_def nth_enumerate_eq)

lemma numbered_increasing:
  assumes "length es < 2 ^ 64"
  shows "sorted_wrt (<) (map ee_seq_id (numbered es))"
proof -
  have "(of_nat (i + 1) :: u64) < of_nat (j + 1)" if "i < j" "j < length es" for i j
    using that assms by (simp add: word_less_nat_alt unat_of_nat del: of_nat_Suc of_nat_add)
  then show ?thesis
    by (simp add: numbered_ids sorted_wrt_iff_nth_less del: of_nat_Suc of_nat_add)
qed

lemma seq_sorted_keys: "sorted_wrt (<) (map ee_seq_id es) \<Longrightarrow> sorted_wrt (<) (map order_key es)"
  unfolding sorted_wrt_map
  by (erule sorted_wrt_mono_rel [rotated]) (simp add: order_key_def less_event_order_key_def)

lemma flush_batch_frame [simp]:
  "sw_config (flush_batch env w) = sw_config w" "sw_storage (flush_batch env w) = sw_storage w"
  "sw_wal (flush_batch env w) = sw_wal w" "sw_sequencer (flush_batch env w) = sw_sequencer w"
  "sw_batch (flush_batch env w) = []"
  by (auto simp: flush_batch_def Let_def split: option.splits)

lemma append_numbered_fields [simp]:
  "sw_config (append_numbered enc env w e) = sw_config w"
  "sw_wal (append_numbered enc env w e) = sw_wal w"
  "sw_sink (append_numbered enc env w e) = sw_sink w"
  "sw_sequencer (append_numbered enc env w e) = snd (assign (sw_sequencer w) e)"
  "sw_batch (append_numbered enc env w e) = sw_batch w @ [fst (assign (sw_sequencer w) e)]"
  "sw_storage (append_numbered enc env w e) =
    append_event (we_readings env) (sw_storage w) (fst (assign (sw_sequencer w) e))"
  by (simp_all add: append_numbered_def case_prod_unfold Let_def)

text \<open>An operation appends its event, if it has one, and else only writes a table.\<close>

fun table_step :: "u64 \<Rightarrow> storage_write_op \<Rightarrow> storage_step" where
  "table_step t (UpsertTxSeen row) = SeenStep t row"
| "table_step t (UpsertTxFull row) = FullStep t row"
| "table_step t (UpsertTxFeatures row) = FeaturesStep t row"
| "table_step t (UpsertOpportunity row) = OpportunityStep t row"
| "table_step t (UpsertTxLifecycle row) = LifecycleStep t row"
| "table_step t (UpsertPeerStats row) = PeerStep t row"
| "table_step t (WriteSchedulerSnapshot snapshot) = SnapshotStep t snapshot"
| "table_step t (AppendEvent event) = AppendStep (t, t, t) event"
| "table_step t (AppendPayload source payload ts_unix_ms ts_mono_ns) =
     AppendStep (t, t, t) (payload_event source payload ts_unix_ms ts_mono_ns)"

lemma apply_write_op_cases:
  "apply_write_op enc env w op =
    (case op_event op of
       Some event \<Rightarrow> append_numbered enc env w event
     | None \<Rightarrow> w\<lparr>sw_storage := apply_step (sw_storage w) (table_step (snd (snd (we_readings env))) op)\<rparr>)"
  by (cases op) simp_all

lemma table_step_no_event: "op_event op = None \<Longrightarrow> appended_event (table_step t op) = None"
  by (cases op) simp_all

lemma assign_numbered:
  assumes "gs_next_seq_id s = of_nat (Suc n)" and "Suc n < 2 ^ 64"
  shows "fst (assign s e) = e\<lparr>ee_seq_id := of_nat (Suc n)\<rparr>"
    and "gs_next_seq_id (snd (assign s e)) = (if Suc (Suc n) < 2 ^ 64 then of_nat (Suc (Suc n)) else - 1)"
proof -
  have u: "unat (of_nat (Suc n) :: u64) = Suc n"
    using assms(2) by (simp add: unat_of_nat del: of_nat_Suc)
  have "(of_nat (Suc n) :: u64) + 1 = of_nat (Suc (Suc n))"
    by (simp only: of_nat_Suc add.commute)
  then show "gs_next_seq_id (snd (assign s e)) = (if Suc (Suc n) < 2 ^ 64 then of_nat (Suc (Suc n)) else - 1)"
    by (simp add: assign_def next_seq_id_def sat_add_def assms(1) u del: of_nat_Suc)
  show "fst (assign s e) = e\<lparr>ee_seq_id := of_nat (Suc n)\<rparr>"
    by (simp add: assign_def next_seq_id_def assms(1) del: of_nat_Suc)
qed

definition steps_to :: "storage_config \<Rightarrow> event_envelope list \<Rightarrow> storage_writer \<Rightarrow> bool" where
  "steps_to sc es w \<longleftrightarrow>
     (\<exists>steps. sw_storage w = storage_run sc steps \<and> events_of steps = numbered es) \<and>
     gs_next_seq_id (sw_sequencer w) = (if length es + 1 < 2 ^ 64 then of_nat (length es + 1) else - 1)"

lemma steps_to_table:
  assumes "steps_to sc es w" and "appended_event step = None"
  shows "steps_to sc es (w\<lparr>sw_storage := apply_step (sw_storage w) step\<rparr>)"
proof -
  obtain steps where "sw_storage w = storage_run sc steps" "events_of steps = numbered es"
    using assms(1) by (auto simp: steps_to_def)
  then have "apply_step (sw_storage w) step = storage_run sc (steps @ [step])"
      "events_of (steps @ [step]) = numbered es"
    using assms(2) by (simp_all add: storage_run_def events_of_def map_filter_append List.map_filter_simps)
  then show ?thesis using assms(1) by (auto simp: steps_to_def)
qed

lemma steps_to_append:
  assumes "steps_to sc es w" and "length es + 1 < 2 ^ 64"
  shows "steps_to sc (es @ [e]) (append_numbered enc env w e)"
    and "sw_batch (append_numbered enc env w e) = sw_batch w @ [e\<lparr>ee_seq_id := of_nat (length es + 1)\<rparr>]"
proof -
  obtain steps where s: "sw_storage w = storage_run sc steps" "events_of steps = numbered es"
    using assms(1) by (auto simp: steps_to_def)
  note a = assign_numbered [of "sw_sequencer w" "length es" e]
  have next_id: "gs_next_seq_id (sw_sequencer w) = of_nat (Suc (length es))" "Suc (length es) < 2 ^ 64"
    using assms by (simp_all add: steps_to_def)
  let ?step = "AppendStep (we_readings env) (e\<lparr>ee_seq_id := of_nat (Suc (length es))\<rparr>)"
  have "sw_storage (append_numbered enc env w e) = storage_run sc (steps @ [?step])"
    "events_of (steps @ [?step]) = numbered (es @ [e])"
    using s a(1) [OF next_id]
    by (simp_all add: storage_run_def events_of_def map_filter_append List.map_filter_simps)
  then show "steps_to sc (es @ [e]) (append_numbered enc env w e)"
    using a(2) [OF next_id] by (auto simp: steps_to_def)
  show "sw_batch (append_numbered enc env w e) = sw_batch w @ [e\<lparr>ee_seq_id := of_nat (length es + 1)\<rparr>]"
    using a(1) [OF next_id] by simp
qed

lemma steps_to_flush [simp]: "steps_to sc es (flush_batch env w) \<longleftrightarrow> steps_to sc es w"
  by (simp add: steps_to_def)

text \<open>The operation of an iteration, before the flush that may follow.\<close>

lemma steps_to_op:
  assumes "steps_to sc es w" and "length (es @ events_in [Received op env]) < 2 ^ 64"
  shows "steps_to sc (es @ events_in [Received op env]) (apply_write_op enc env w op)"
  using assms steps_to_append(1) [OF assms(1)] steps_to_table [OF assms(1)] table_step_no_event
  by (cases "op_event op") (simp_all add: apply_write_op_cases events_in_def List.map_filter_simps)

lemma events_in_simps [simp]:
  "events_in [] = []" "events_in (Ticked env # inputs) = events_in inputs"
  "events_in (inputs @ inputs') = events_in inputs @ events_in inputs'"
  by (simp_all add: events_in_def List.map_filter_simps map_filter_append)

lemma writer_run_snoc:
  "writer_run enc w (inputs @ [i]) = writer_step enc (writer_run enc w inputs) i"
  by (simp add: writer_run_def)

lemma writer_numbers:
  assumes "steps_to sc [] w" and "length (events_in inputs) < 2 ^ 64"
  shows "steps_to sc (events_in inputs) (writer_run enc w inputs)"
  using assms(2)
proof (induction inputs rule: rev_induct)
  case (snoc i inputs)
  then have IH: "steps_to sc (events_in inputs) (writer_run enc w inputs)" by simp
  show ?case
  proof (cases i)
    case (Received op env)
    have "steps_to sc (events_in inputs @ events_in [Received op env])
        (apply_write_op enc env (writer_run enc w inputs) op)"
      using IH snoc.prems unfolding Received by (intro steps_to_op) simp_all
    then show ?thesis unfolding Received writer_run_snoc by (simp add: Let_def)
  next
    case (Ticked env)
    then show ?thesis using IH by (simp add: writer_run_snoc)
  qed
qed (use assms(1) in \<open>simp add: writer_run_def\<close>)

lemma recover_empty: "recover_events dec wal bt_empty = Inr []"
  using recover_holds [OF wal_holds_empty [of "\<lambda>_. []" wal], of dec] by (simp add: sort_by_def)

lemma spawn_fresh:
  "sw_storage (spawn_single_writer dec opens readings bt_empty (with_config sc) config) = with_config sc"
  "sw_batch (spawn_single_writer dec opens readings dir storage config) = []"
  "sw_sink (spawn_single_writer dec opens readings dir storage config) = []"
  "sw_dir (spawn_single_writer dec opens readings dir storage config) = dir"
  "swc_flush_batch_size (sw_config (spawn_single_writer dec opens readings dir storage config)) =
    max (swc_flush_batch_size config) 1"
  "sw_wal (spawn_single_writer dec opens readings dir storage config) =
    (case swc_wal_path config of None \<Rightarrow> None | Some path \<Rightarrow> if opens then Some (new_wal path) else None)"
  by (auto simp: spawn_single_writer_def Let_def recover_empty enumerate_simps split: option.splits)

lemma spawn_steps_to:
  "steps_to sc [] (spawn_single_writer dec opens readings bt_empty (with_config sc) config)"
proof -
  let ?w = "spawn_single_writer dec opens readings bt_empty (with_config sc) config"
  have "sw_sequencer ?w = from_latest_seq_id (latest_seq_id (sw_storage ?w))"
    by (simp add: spawn_single_writer_def Let_def)
  then have "sw_sequencer ?w = from_latest_seq_id None"
    by (simp add: spawn_fresh latest_seq_id_def)
  moreover have "sw_storage ?w = storage_run sc []" "events_of [] = []"
    by (simp_all add: spawn_fresh storage_run_def events_of_def List.map_filter_simps)
  ultimately show ?thesis
    by (auto simp: steps_to_def from_latest_seq_id_def)
qed

text \<open>Events stored in the order of strictly increasing ids are listed in that order.\<close>

lemma ordered_store:
  assumes "sorted_wrt (<) (map ee_seq_id (events_of steps))"
  shows "list_events (storage_run sc steps) = last_n (max (stc_event_capacity sc) 1) (events_of steps)"
proof -
  let ?ring = "im_events (storage_run sc steps)"
  have "sorted_wrt (<) (drop n (map order_key (events_of steps)))" for n
    using seq_sorted_keys [OF assms] by (rule sorted_wrt_drop)
  then have "sorted_wrt (<) (map order_key ?ring)"
    by (simp add: storage_events(1) last_n_def drop_map)
  then have d: "distinct (map order_key ?ring)" "sorted (map order_key ?ring)"
    by (simp_all add: strict_sorted_iff)
  have "event_index.indexes (im_event_index (storage_run sc steps)) ?ring"
    using storage_events by (simp add: event_index.indexes_def)
  from event_index.indexes_unique [OF this d(1)] show ?thesis
    using d(2) by (simp add: list_events_def sort_key_id_if_sorted storage_events(1))
qed

text \<open>
  Property C21. The writer is the single authority of the order: whatever producers send,
  interleaved with table writes, ticks and flushes, the events are numbered 1, 2, 3 in the
  order in which the task received them, and the store lists them in exactly that order,
  up to its capacity.
\<close>

theorem writer_orders_events:
  assumes "length (events_in inputs) < 2 ^ 64"
  shows "let w = writer_run enc
      (spawn_single_writer dec opens readings bt_empty (with_config sc) config) inputs
    in list_events (sw_storage w) =
        last_n (max (stc_event_capacity sc) 1) (numbered (events_in inputs)) \<and>
       sorted_wrt (<) (map ee_seq_id (numbered (events_in inputs)))"
proof -
  obtain steps where "sw_storage (writer_run enc
      (spawn_single_writer dec opens readings bt_empty (with_config sc) config) inputs) = storage_run sc steps"
      "events_of steps = numbered (events_in inputs)"
    using writer_numbers [OF spawn_steps_to assms] unfolding steps_to_def by blast
  then show ?thesis
    using ordered_store [of steps sc] numbered_increasing [OF assms] by (simp add: Let_def)
qed

section \<open>Delivery and recovery\<close>

text \<open>What the sink has accepted and the current batch are all events, in order.\<close>

definition delivered :: "event_envelope list \<Rightarrow> storage_writer \<Rightarrow> bool" where
  "delivered es w \<longleftrightarrow> concat (sw_sink w) @ sw_batch w = numbered es"

lemma delivered_flush:
  "delivered es w \<Longrightarrow> we_sink_accepts env \<Longrightarrow>
    delivered es (flush_batch env w) \<and> concat (sw_sink (flush_batch env w)) = numbered es"
  by (auto simp: delivered_def flush_batch_def Let_def split: option.splits)

lemma delivered_op:
  assumes "delivered es w" and "steps_to sc es w" and "length (es @ events_in [Received op env]) < 2 ^ 64"
  shows "delivered (es @ events_in [Received op env]) (apply_write_op enc env w op)"
proof (cases "op_event op")
  case None
  then show ?thesis
    using assms(1) by (simp add: apply_write_op_cases delivered_def events_in_def List.map_filter_simps)
next
  case (Some e)
  have "length es + 1 < 2 ^ 64"
    using assms(3) Some by (simp add: events_in_def List.map_filter_simps)
  then show ?thesis
    using assms(1) steps_to_append(2) [OF assms(2), where e = e and enc = enc and env = env] Some
    by (simp add: apply_write_op_cases delivered_def events_in_def List.map_filter_simps
        del: append_numbered_fields(5) flip: append_assoc)
qed

lemma apply_write_op_config [simp]: "sw_config (apply_write_op enc env w op) = sw_config w"
  "sw_wal (apply_write_op enc env w op) = sw_wal w"
  by (cases op; simp)+

lemma writer_step_config [simp]: "sw_config (writer_step enc w i) = sw_config w"
  "sw_wal (writer_step enc w i) = sw_wal w"
  by (cases i; simp add: Let_def)+

lemma writer_run_config: "sw_config (writer_run enc w inputs) = sw_config w"
  "sw_wal (writer_run enc w inputs) = sw_wal w"
  by (induction inputs rule: rev_induct) (simp_all add: writer_run_def)

lemma writer_delivered:
  assumes "steps_to sc [] w" and "delivered [] w" and "sw_batch w = []"
    and "0 < swc_flush_batch_size (sw_config w)"
    and "length (events_in inputs) < 2 ^ 64"
    and "list_all (\<lambda>i. we_sink_accepts (input_env i)) inputs"
  shows "delivered (events_in inputs) (writer_run enc w inputs) \<and>
    length (sw_batch (writer_run enc w inputs)) < swc_flush_batch_size (sw_config w)"
  using assms(5,6)
proof (induction inputs rule: rev_induct)
  case (snoc i inputs)
  let ?w = "writer_run enc w inputs"
  have IH: "delivered (events_in inputs) ?w"
      "length (sw_batch ?w) < swc_flush_batch_size (sw_config w)"
    and st: "steps_to sc (events_in inputs) ?w"
    using snoc writer_numbers [OF assms(1), of inputs enc] by simp_all
  show ?case
  proof (cases i)
    case (Received op env)
    have d: "delivered (events_in inputs @ events_in [Received op env]) (apply_write_op enc env ?w op)"
      using IH(1) st snoc.prems unfolding Received by (intro delivered_op) simp_all
    have "we_sink_accepts env" using snoc.prems Received by simp
    then show ?thesis
      using d delivered_flush [OF d] assms(4) unfolding Received writer_run_snoc
      by (simp add: Let_def writer_run_config)
  next
    case (Ticked env)
    then show ?thesis
      using IH delivered_flush [OF IH(1), of env] snoc.prems assms(4)
      by (simp add: writer_run_snoc)
  qed
qed (use assms in \<open>simp add: writer_run_def delivered_def\<close>)

text \<open>
  Property C4. While the sink accepts its batches, every event reaches it exactly once and
  in order: at any time the accepted batches and the current one, which is below the
  configured size, are all events received so far, and when the handles are dropped
  everything has been delivered.
\<close>

theorem writer_delivers_exactly_once:
  assumes "length (events_in inputs) < 2 ^ 64"
    and "list_all (\<lambda>i. we_sink_accepts (input_env i)) inputs" and "we_sink_accepts env"
  shows "let w = writer_run enc
      (spawn_single_writer dec opens readings bt_empty (with_config sc) config) inputs
    in concat (sw_sink w) @ sw_batch w = numbered (events_in inputs) \<and>
       length (sw_batch w) < max (swc_flush_batch_size config) 1 \<and>
       concat (sw_sink (writer_close env w)) = numbered (events_in inputs)"
proof -
  let ?w0 = "spawn_single_writer dec opens readings bt_empty (with_config sc) config"
  have d: "delivered (events_in inputs) (writer_run enc ?w0 inputs) \<and>
      length (sw_batch (writer_run enc ?w0 inputs)) < swc_flush_batch_size (sw_config ?w0)"
    using assms(1,2) by (intro writer_delivered [OF spawn_steps_to]) (simp_all add: spawn_fresh delivered_def)
  then show ?thesis
    using delivered_flush [OF conjunct1 [OF d] assms(3)]
    by (auto simp: Let_def spawn_fresh delivered_def writer_close_def)
qed

text \<open>The log holds the current batch: what has been received and not been delivered.\<close>

definition logged :: "(event_envelope \<Rightarrow> string) \<Rightarrow> storage_writer \<Rightarrow> bool" where
  "logged enc w \<longleftrightarrow>
     (\<forall>wal. sw_wal w = Some wal \<longrightarrow> (\<exists>ess. wal_holds enc wal (sw_dir w) ess \<and> concat ess = sw_batch w))"

text \<open>Log writes complete, the sink accepts and the log can be cleared.\<close>

definition reliable :: "write_env \<Rightarrow> bool" where
  "reliable env \<longleftrightarrow> we_wal env = Written \<and> we_sink_accepts env \<and> we_clear_failure env = None"

lemma logged_flush:
  assumes "logged enc w" and "reliable env"
  shows "logged enc (flush_batch env w)"
proof (cases "sw_batch w = []")
  case False
  then have "sw_dir (flush_batch env w) = (case sw_wal w of None \<Rightarrow> sw_dir w
      | Some wal \<Rightarrow> snd (wal_clear wal None (sw_dir w)))"
    using assms(2) by (simp add: flush_batch_def reliable_def Let_def split: option.splits)
  then show ?thesis
    using wal_clear_holds by (auto simp: logged_def intro!: exI [of _ "[]"])
qed (use assms(1) in \<open>simp add: flush_batch_def\<close>)

lemma logged_op:
  assumes "logged enc w" and "reliable env"
  shows "logged enc (apply_write_op enc env w op)"
proof (cases "op_event op")
  case None
  then show ?thesis using assms(1) by (simp add: apply_write_op_cases logged_def)
next
  case (Some e)
  let ?e = "fst (assign (sw_sequencer w) e)"
  have dir: "sw_dir (append_numbered enc env w e) = snd (wal_append_event enc wal Written (sw_dir w) ?e)"
    if "sw_wal w = Some wal" for wal
    using assms(2) that by (simp add: append_numbered_def reliable_def case_prod_unfold Let_def)
  have "\<exists>ess. wal_holds enc wal (sw_dir (append_numbered enc env w e)) ess \<and>
      concat ess = sw_batch w @ [?e]" if wal: "sw_wal w = Some wal" for wal
  proof -
    obtain ess where ess: "wal_holds enc wal (sw_dir w) ess" "concat ess = sw_batch w"
      using assms(1) wal by (auto simp: logged_def)
    then show ?thesis
      unfolding dir [OF wal] by (rule_tac wal_append_holds [OF ess(1), of ?e]) auto
  qed
  then show ?thesis by (simp add: apply_write_op_cases Some logged_def)
qed

lemma logged_run:
  assumes "logged enc w" and "list_all (\<lambda>i. reliable (input_env i)) inputs"
  shows "logged enc (writer_run enc w inputs)"
  using assms(2)
proof (induction inputs rule: rev_induct)
  case (snoc i inputs)
  then have IH: "logged enc (writer_run enc w inputs)" by simp
  show ?case
    using IH snoc.prems logged_op [OF IH] logged_flush
    by (cases i) (simp_all add: writer_run_snoc Let_def logged_flush logged_op)
qed (use assms(1) in \<open>simp add: writer_run_def\<close>)

lemma append_enumerated:
  "foldl (\<lambda>st (i, event). append_event (readings i) st event) (with_config sc) (enumerate n events) =
    storage_run sc (map (\<lambda>(i, event). AppendStep (readings i) event) (enumerate n events))"
proof -
  have "foldl (\<lambda>st (i, event). append_event (readings i) st event) st xs =
      foldl apply_step st (map (\<lambda>(i, event). AppendStep (readings i) event) xs)" for st xs
    by (induction xs arbitrary: st) auto
  then show ?thesis by (simp add: storage_run_def)
qed

lemma events_of_enumerated:
  "events_of (map (\<lambda>(i, event). AppendStep (readings i) event) (enumerate n events)) = events"
  by (induction events arbitrary: n) (simp_all add: events_of_def List.map_filter_simps)

lemma last_last_n: "0 < n \<Longrightarrow> xs \<noteq> [] \<Longrightarrow> last_n n xs \<noteq> [] \<and> last (last_n n xs) = last xs"
  by (cases xs) (simp_all add: last_n_def last_drop)

text \<open>A restart on a log from which the events \<open>es\<close> are recovered.\<close>

lemma spawn_recovers:
  fixes sc readings
  assumes "recover_events dec (new_wal path) dir = Inr es" and "swc_wal_path config = Some path"
    and "sorted_wrt (<) (map ee_seq_id es)"
  defines "w \<equiv> spawn_single_writer dec True readings dir (with_config sc) config"
  shows "list_events (sw_storage w) = last_n (max (stc_event_capacity sc) 1) es"
    and "sw_sequencer w = from_latest_seq_id (if es = [] then None else Some (ee_seq_id (last es)))"
proof -
  let ?steps = "map (\<lambda>(i, event). AppendStep (readings i) event) (enumerate 0 es)"
  have st: "sw_storage w = storage_run sc ?steps"
    using assms(1,2) by (simp add: w_def spawn_single_writer_def Let_def append_enumerated)
  then show l: "list_events (sw_storage w) = last_n (max (stc_event_capacity sc) 1) es"
    using ordered_store [of ?steps sc] assms(3) by (simp add: events_of_enumerated)
  have "latest_seq_id (sw_storage w) = (if es = [] then None else Some (ee_seq_id (last es)))"
    using l last_last_n [of "max (stc_event_capacity sc) 1" es]
    by (auto simp: latest_seq_id_def list_events_def last_n_def)
  moreover have "sw_sequencer w = from_latest_seq_id (latest_seq_id (sw_storage w))"
    by (simp add: w_def spawn_single_writer_def Let_def)
  ultimately show "sw_sequencer w = from_latest_seq_id (if es = [] then None else Some (ee_seq_id (last es)))"
    by simp
qed

lemma logged_spawn: "logged enc (spawn_single_writer dec opens readings bt_empty storage config)"
  by (auto simp: logged_def spawn_fresh intro!: exI [of _ "[]"] wal_holds_empty)


section \<open>Concrete runs\<close>

definition good_env :: write_env where
  "good_env = \<lparr>we_readings = (0, 0, 40), we_wal = Written, we_sink_accepts = True, we_clear_failure = None\<rparr>"

definition sample_payload :: "TxHash \<Rightarrow> storage_write_op" where
  "sample_payload h = AppendPayload (SourceId ''peer-a'')
     (TxFetched \<lparr>fetched_hash = h, fetched_at_unix_ms = 0\<rparr>) 1000 5"

definition sample_inputs :: "writer_input list" where
  "sample_inputs = [Received (sample_payload 7) good_env, Ticked good_env,
     Received (sample_payload 8) good_env]"

definition logged_config :: storage_writer_config where
  "logged_config = default_storage_writer_config\<lparr>swc_wal_path := Some ''events.wal''\<rparr>"

definition sample_dec :: "string \<Rightarrow> event_envelope option" where
  "sample_dec s = find (\<lambda>e. two_enc e = s) (numbered (events_in sample_inputs))"

lemma sample_length: "length (events_in sample_inputs) = 2"
  by (simp add: sample_inputs_def events_in_def sample_payload_def List.map_filter_simps)

lemma sample_reliable: "list_all (\<lambda>i. reliable (input_env i)) sample_inputs"
  by (simp add: sample_inputs_def reliable_def good_env_def)

lemma sample_codec: "list_all (codec two_enc sample_dec) (numbered (events_in sample_inputs))"
  by code_simp

theorem writer_orders_events_witness:
  "let w = writer_run two_enc (spawn_single_writer sample_dec True (\<lambda>_. (0, 0, 0)) bt_empty
        (with_config default_storage_config) logged_config) sample_inputs
    in list_events (sw_storage w) = last_n (max (stc_event_capacity default_storage_config) 1)
         (numbered (events_in sample_inputs)) \<and>
       sorted_wrt (<) (map ee_seq_id (numbered (events_in sample_inputs)))"
  by (rule writer_orders_events) (simp add: sample_length)

theorem writer_delivers_exactly_once_witness:
  "let w = writer_run two_enc (spawn_single_writer sample_dec True (\<lambda>_. (0, 0, 0)) bt_empty
        (with_config default_storage_config) logged_config) sample_inputs
    in concat (sw_sink w) @ sw_batch w = numbered (events_in sample_inputs) \<and>
       length (sw_batch w) < max (swc_flush_batch_size logged_config) 1 \<and>
       concat (sw_sink (writer_close good_env w)) = numbered (events_in sample_inputs)"
  by (rule writer_delivers_exactly_once)
    (simp_all add: sample_length, simp_all add: sample_inputs_def good_env_def)


text \<open>
  A rejected batch is lost with the next accepted one: the first event is in no batch, was
  never accepted by the sink, and is no longer in the log, which the second flush cleared.
\<close>

lemma rejected_batch_lost:
  fixes e1 e2 :: event_envelope and enc dec readings sc path
  defines "w \<equiv> writer_run enc (spawn_single_writer dec True readings bt_empty (with_config sc)
      \<lparr>swc_queue_capacity = 8, swc_flush_batch_size = 1, swc_flush_interval_ms = 500,
       swc_wal_path = Some path\<rparr>)
    [Received (AppendEvent e1) (good_env\<lparr>we_sink_accepts := False\<rparr>),
     Received (AppendEvent e2) good_env]"
  shows "sw_sink w = [[e2\<lparr>ee_seq_id := 2\<rparr>]] \<and> sw_batch w = [] \<and>
    recover_events dec (new_wal path) (sw_dir w) = Inr []"
proof -
  let ?bad = "good_env\<lparr>we_sink_accepts := False\<rparr>"
  define w0 where "w0 = spawn_single_writer dec True readings bt_empty (with_config sc)
      \<lparr>swc_queue_capacity = 8, swc_flush_batch_size = 1, swc_flush_interval_ms = 500,
       swc_wal_path = Some path\<rparr>"
  define w1 where "w1 = writer_step enc w0 (Received (AppendEvent e1) ?bad)"
  define a2 where "a2 = append_numbered enc good_env w1 e2"
  have w0: "swc_flush_batch_size (sw_config w0) = 1" "sw_wal w0 = Some (new_wal path)"
    "sw_sink w0 = []" "steps_to sc [] w0"
    by (simp_all add: w0_def spawn_fresh spawn_steps_to)
  have w1: "sw_batch w1 = []" "sw_sink w1 = []" "swc_flush_batch_size (sw_config w1) = 1"
    "sw_wal w1 = Some (new_wal path)"
    using w0 by (simp_all add: w1_def Let_def flush_batch_def)
  have "steps_to sc [e1] w1"
    using steps_to_append(1) [OF w0(4), where enc = enc and env = ?bad and e = e1] by (simp add: w1_def Let_def)
  then have b: "sw_batch a2 = [e2\<lparr>ee_seq_id := 2\<rparr>]"
    using steps_to_append(2) [of sc "[e1]" w1, where enc = enc and env = good_env and e = e2] w1(1)
    by (simp add: a2_def del: append_numbered_fields)
  have a2: "sw_sink a2 = []" "swc_flush_batch_size (sw_config a2) = 1"
    "sw_wal a2 = Some (new_wal path)"
    using w1 by (simp_all add: a2_def)
  have "w = writer_step enc w1 (Received (AppendEvent e2) good_env)"
    by (simp add: w_def writer_run_def w1_def w0_def del: writer_step.simps)
  then have w: "w = flush_batch good_env a2"
    using b a2 by (simp add: Let_def flip: a2_def)
  have "sw_sink w = [[e2\<lparr>ee_seq_id := 2\<rparr>]]" "sw_batch w = []"
    "sw_dir w = snd (wal_clear (new_wal path) None (sw_dir a2))"
    using b a2 by (simp_all add: w flush_batch_def Let_def good_env_def)
  then show ?thesis
    using recover_holds [OF wal_clear_holds, of enc dec] by (simp add: sort_by_def)
qed

end
