(* ===== verification/Storage_Backfill.thy ===== *)
theory Storage_Backfill
  imports Storage_Facts
begin

text \<open>
  The backfill writer (\<^verbatim>\<open>src/crates/storage/src/backfill.rs\<close>): historical events are
  appended to a store in canonical order, without those older than the retention window
  and with one event per sequence id. The store is shared with other components in the
  code, so it is an argument and a result beside the writer. \<open>clock e\<close> gives the three
  clock readings of the append of \<open>e\<close>; a writer appends no event twice.
\<close>

record backfill_config =
  bc_retention_window_ms :: i64

definition default_backfill_config :: backfill_config where
  "default_backfill_config = \<lparr>bc_retention_window_ms = 7 * 24 * 60 * 60 * 1000\<rparr>"

record backfill_summary =
  bsum_inserted :: u64
  bsum_skipped_duplicates :: u64
  bsum_pruned_by_retention :: u64

definition default_backfill_summary :: backfill_summary where
  "default_backfill_summary =
     \<lparr>bsum_inserted = 0, bsum_skipped_duplicates = 0, bsum_pruned_by_retention = 0\<rparr>"

record backfill_writer =
  bw_config :: backfill_config
  bw_seen_seq_ids :: "u64 set"

definition new_backfill_writer :: "backfill_config \<Rightarrow> backfill_writer" where
  "new_backfill_writer config =
     \<lparr>bw_config = \<lparr>bc_retention_window_ms = max (bc_retention_window_ms config) 1\<rparr>,
      bw_seen_seq_ids = {}\<rparr>"

fun backfill_event ::
  "(event_envelope \<Rightarrow> u64 \<times> u64 \<times> u64) \<Rightarrow> i64 \<Rightarrow>
   backfill_writer \<times> in_memory_storage \<times> backfill_summary \<Rightarrow> event_envelope \<Rightarrow>
   backfill_writer \<times> in_memory_storage \<times> backfill_summary" where
  "backfill_event clock retention_cutoff (w, storage, summary) event =
     (if ee_ingest_ts_unix_ms event < retention_cutoff then
        (w, storage,
         summary\<lparr>bsum_pruned_by_retention := sat_add (bsum_pruned_by_retention summary) 1\<rparr>)
      else if ee_seq_id event \<in> bw_seen_seq_ids w then
        (w, storage,
         summary\<lparr>bsum_skipped_duplicates := sat_add (bsum_skipped_duplicates summary) 1\<rparr>)
      else
        (w\<lparr>bw_seen_seq_ids := insert (ee_seq_id event) (bw_seen_seq_ids w)\<rparr>,
         append_event (clock event) storage event,
         summary\<lparr>bsum_inserted := sat_add (bsum_inserted summary) 1\<rparr>))"

definition apply_events ::
  "(event_envelope \<Rightarrow> u64 \<times> u64 \<times> u64) \<Rightarrow> backfill_writer \<Rightarrow> in_memory_storage \<Rightarrow>
   event_envelope list \<Rightarrow> i64 \<Rightarrow> backfill_writer \<times> in_memory_storage \<times> backfill_summary" where
  "apply_events clock w storage events now_unix_ms =
     (let retention_cutoff = i64_sat (now_unix_ms - bc_retention_window_ms (bw_config w))
      in foldl (backfill_event clock retention_cutoff) (w, storage, default_backfill_summary)
           (sort_deterministic events))"

section \<open>What a run appends\<close>

text \<open>The events of a list with a sequence id not in \<open>seen\<close>, the first one of each id.\<close>

fun first_per_id :: "u64 set \<Rightarrow> event_envelope list \<Rightarrow> event_envelope list" where
  "first_per_id seen [] = []"
| "first_per_id seen (e # es) =
     (if ee_seq_id e \<in> seen then first_per_id seen es
      else e # first_per_id (insert (ee_seq_id e) seen) es)"

definition retained :: "i64 \<Rightarrow> event_envelope list \<Rightarrow> event_envelope list" where
  "retained cutoff = filter (\<lambda>e. cutoff \<le> ee_ingest_ts_unix_ms e)"

lemma retained_simps [simp]:
  "retained c [] = []"
  "retained c (e # es) = (if c \<le> ee_ingest_ts_unix_ms e then e # retained c es else retained c es)"
  "set (retained c es) = {e \<in> set es. c \<le> ee_ingest_ts_unix_ms e}"
  "length (retained c es) \<le> length es"
  by (auto simp: retained_def)

lemma first_per_id_ids: "ee_seq_id ` set (first_per_id seen es) = ee_seq_id ` set es - seen"
  by (induction es arbitrary: seen) auto

lemma first_per_id_member: "e \<in> set (first_per_id seen es) \<Longrightarrow> e \<in> set es \<and> ee_seq_id e \<notin> seen"
  by (induction seen es rule: first_per_id.induct) (auto split: if_splits)

lemma first_per_id_distinct: "distinct (map ee_seq_id (first_per_id seen es))"
  by (induction es arbitrary: seen) (simp_all add: first_per_id_ids)

lemma first_per_id_length [simp]: "length (first_per_id seen es) \<le> length es"
  by (induction es arbitrary: seen) (auto intro: le_SucI)

lemma first_per_id_first:
  assumes "sorted (map order_key es)" and "x \<in> set (first_per_id seen es)" and "y \<in> set es"
    and "ee_seq_id x = ee_seq_id y"
  shows "order_key x \<le> order_key y"
  using assms
proof (induction seen es rule: first_per_id.induct)
  case (2 seen e es)
  have "ee_seq_id z \<noteq> ee_seq_id e" if "z \<in> set (first_per_id (insert (ee_seq_id e) seen) es)" for z
    using first_per_id_member [OF that] by simp
  moreover have "ee_seq_id x \<notin> seen"
    using first_per_id_member [OF 2(4)] by simp
  ultimately show ?case
    using 2 by (auto split: if_splits)
qed simp

text \<open>How the loop counts and appends: the counters are at most the events seen so far.\<close>

lemma backfill_fold:
  fixes w st s c es clock
  assumes "unat (bsum_inserted s) + unat (bsum_skipped_duplicates s) +
      unat (bsum_pruned_by_retention s) + length es < 2 ^ 64"
  defines "ins \<equiv> first_per_id (bw_seen_seq_ids w) (retained c es)"
  shows "case foldl (backfill_event clock c) (w, st, s) es of (w', st', s') \<Rightarrow>
    w' = w\<lparr>bw_seen_seq_ids := bw_seen_seq_ids w \<union> ee_seq_id ` set (retained c es)\<rparr> \<and>
    st' = foldl apply_step st (map (\<lambda>e. AppendStep (clock e) e) ins) \<and>
    unat (bsum_inserted s') = unat (bsum_inserted s) + length ins \<and>
    unat (bsum_skipped_duplicates s') + length ins =
      unat (bsum_skipped_duplicates s) + length (retained c es) \<and>
    unat (bsum_pruned_by_retention s') + length (retained c es) =
      unat (bsum_pruned_by_retention s) + length es"
  using assms(1) unfolding ins_def
proof (induction es arbitrary: w st s)
  case (Cons e es)
  have len: "length (first_per_id sn (retained c es)) \<le> length (retained c es)"
    "length (retained c es) \<le> length es" for sn
    by simp_all
  show ?case
  proof (cases "ee_ingest_ts_unix_ms e < c")
    case True
    then show ?thesis
      using Cons.prems len(2)
        Cons.IH [of "s\<lparr>bsum_pruned_by_retention := sat_add (bsum_pruned_by_retention s) 1\<rparr>" w st]
      by (auto simp: sat_simps split: prod.splits)
  next
    case retained: False
    show ?thesis
    proof (cases "ee_seq_id e \<in> bw_seen_seq_ids w")
      case True
      then show ?thesis
        using Cons.prems retained len(2) len(1) [of "bw_seen_seq_ids w"]
          Cons.IH [of "s\<lparr>bsum_skipped_duplicates := sat_add (bsum_skipped_duplicates s) 1\<rparr>" w st]
        by (auto simp: sat_simps insert_absorb split: prod.splits)
    next
      case False
      let ?w = "w\<lparr>bw_seen_seq_ids := insert (ee_seq_id e) (bw_seen_seq_ids w)\<rparr>"
      show ?thesis
        using Cons.prems retained False len(2) len(1) [of "bw_seen_seq_ids ?w"]
          Cons.IH [of "s\<lparr>bsum_inserted := sat_add (bsum_inserted s) 1\<rparr>" ?w
            "append_event (clock e) st e"]
        by (auto simp: sat_simps split: prod.splits)
    qed
  qed
qed simp
lemma first_per_id_increasing:
  "sorted (map ee_seq_id es) \<Longrightarrow> sorted_wrt (<) (map ee_seq_id (first_per_id seen es))"
  by (induction es arbitrary: seen) (fastforce dest: first_per_id_member simp: order_less_le)+

lemma first_per_id_none: "ee_seq_id ` set es \<subseteq> seen \<Longrightarrow> first_per_id seen es = []"
  by (induction es) auto

definition cutoff_of :: "backfill_writer \<Rightarrow> i64 \<Rightarrow> i64" where
  "cutoff_of w now = i64_sat (now - bc_retention_window_ms (bw_config w))"

lemma cutoff_mono: "now \<le> now' \<Longrightarrow> cutoff_of w now \<le> cutoff_of w now'"
  by (auto simp: cutoff_of_def i64_sat_def)

lemma apply_events_fold:
  assumes "length es < 2 ^ 64" and "apply_events clock w st es now = (w', st', s)"
  defines "kept \<equiv> retained (cutoff_of w now) (sort_deterministic es)"
  defines "ins \<equiv> first_per_id (bw_seen_seq_ids w) kept"
  shows "w' = w\<lparr>bw_seen_seq_ids := bw_seen_seq_ids w \<union> ee_seq_id ` set kept\<rparr>"
    and "st' = foldl apply_step st (map (\<lambda>e. AppendStep (clock e) e) ins)"
    and "unat (bsum_inserted s) = length ins"
    and "unat (bsum_skipped_duplicates s) + length ins = length kept"
    and "unat (bsum_pruned_by_retention s) + length kept = length es"
  using assms(1,2) backfill_fold [where s = default_backfill_summary and c = "cutoff_of w now" and w = w
      and st = st and clock = clock and es = "sort_deterministic es"]
  by (auto simp: kept_def ins_def apply_events_def cutoff_of_def [symmetric]
      default_backfill_summary_def Let_def split: prod.splits)

section \<open>Properties\<close>

text \<open>
  A backfill run appends, in increasing order of sequence id, exactly one event
  for every sequence id that occurs in the input inside the retention window and was not
  appended by the writer before: the first one in canonical order. Its three counters are
  the numbers of appended, repeated and expired events and add up to the input.
\<close>

theorem backfill_exact:
  assumes "length es < 2 ^ 64" and "apply_events clock w st es now = (w', st', s)"
  defines "cutoff \<equiv> i64_sat (now - bc_retention_window_ms (bw_config w))"
  shows "\<exists>ins. st' = foldl apply_step st (map (\<lambda>e. AppendStep (clock e) e) ins) \<and>
    sorted_wrt (<) (map ee_seq_id ins) \<and>
    (\<forall>i. i \<in> ee_seq_id ` set ins \<longleftrightarrow>
       i \<notin> bw_seen_seq_ids w \<and> (\<exists>e \<in> set es. ee_seq_id e = i \<and> cutoff \<le> ee_ingest_ts_unix_ms e)) \<and>
    (\<forall>x \<in> set ins. x \<in> set es \<and> cutoff \<le> ee_ingest_ts_unix_ms x \<and>
       (\<forall>y \<in> set es. cutoff \<le> ee_ingest_ts_unix_ms y \<longrightarrow> ee_seq_id y = ee_seq_id x \<longrightarrow>
          order_key x \<le> order_key y)) \<and>
    unat (bsum_inserted s) = length ins \<and>
    unat (bsum_pruned_by_retention s) = length (filter (\<lambda>e. ee_ingest_ts_unix_ms e < cutoff) es) \<and>
    unat (bsum_inserted s) + unat (bsum_skipped_duplicates s) +
      unat (bsum_pruned_by_retention s) = length es"
proof -
  let ?kept = "retained cutoff (sort_deterministic es)"
  let ?ins = "first_per_id (bw_seen_seq_ids w) ?kept"
  have cutoff: "cutoff_of w now = cutoff"
    by (simp add: cutoff_of_def cutoff_def)
  note run = apply_events_fold [OF assms(1,2), unfolded cutoff]
  have ids: "sorted (map ee_seq_id ?kept)" and keys: "sorted (map order_key ?kept)"
    using sort_deterministic_seq_sorted [of es] sorted_sort_deterministic [of es]
    by (simp_all add: retained_def sorted_filter)
  have filter_sort: "length (filter P (sort_deterministic es)) = length (filter P es)" for P
    by (metis mset_filter mset_sort_deterministic size_mset)
  have pruned: "length es = length ?kept + length (filter (\<lambda>e. ee_ingest_ts_unix_ms e < cutoff) es)"
    using sum_length_filter_compl [of "\<lambda>e. cutoff \<le> ee_ingest_ts_unix_ms e" "sort_deterministic es"]
    by (simp add: retained_def not_le filter_sort)
  show ?thesis
  proof (intro exI [of _ ?ins] conjI ballI allI impI)
    show "i \<in> ee_seq_id ` set ?ins \<longleftrightarrow> i \<notin> bw_seen_seq_ids w \<and>
        (\<exists>e \<in> set es. ee_seq_id e = i \<and> cutoff \<le> ee_ingest_ts_unix_ms e)" for i
      by (auto simp: first_per_id_ids)
    fix x
    assume x: "x \<in> set ?ins"
    show "x \<in> set es" "cutoff \<le> ee_ingest_ts_unix_ms x"
      using first_per_id_member [OF x] by simp_all
    show "order_key x \<le> order_key y"
      if "y \<in> set es" "cutoff \<le> ee_ingest_ts_unix_ms y" "ee_seq_id y = ee_seq_id x" for y
      using that by (intro first_per_id_first [OF keys x]) simp_all
  qed (use run pruned first_per_id_increasing [OF ids] in simp_all)
qed

text \<open>
  Backfilling again is harmless: a later run of the same writer over events it was
  already given changes neither the store nor the writer and inserts nothing.
\<close>

theorem backfill_idempotent:
  assumes "length es < 2 ^ 64" and "apply_events clock w st es now = (w', st', s)"
    and "set es' \<subseteq> set es" and "now \<le> now'" and "length es' < 2 ^ 64"
  shows "\<exists>s'. apply_events clock' w' st' es' now' = (w', st', s') \<and> bsum_inserted s' = 0"
proof -
  obtain w2 st2 s' where run2: "apply_events clock' w' st' es' now' = (w2, st2, s')"
    by (metis surj_pair)
  note first = apply_events_fold [OF assms(1,2)] and again = apply_events_fold [OF assms(5) run2]
  let ?kept = "retained (cutoff_of w' now') (sort_deterministic es')"
  have "cutoff_of w' now' = cutoff_of w now'"
    using first(1) by (simp add: cutoff_of_def)
  then have "ee_seq_id ` set ?kept \<subseteq> bw_seen_seq_ids w'"
    using assms(3) cutoff_mono [OF assms(4), of w] by (auto simp: first(1))
  then have "first_per_id (bw_seen_seq_ids w') ?kept = []" and "bw_seen_seq_ids w' \<union> ee_seq_id ` set ?kept = bw_seen_seq_ids w'"
    using first_per_id_none by auto
  then show ?thesis
    using run2 again(1-3) by (auto simp: unsigned_eq_0_iff)
qed

section \<open>Concrete runs\<close>

text \<open>
  Two events share the id 1 and one event is older than the default window: the run keeps
  one event, and running it again keeps none.
\<close>

definition backfill_sample :: "event_envelope list" where
  "backfill_sample =
     [(sample_event 1 5)\<lparr>ee_ingest_ts_unix_ms := 700000000\<rparr>,
      (sample_event 1 4)\<lparr>ee_ingest_ts_unix_ms := 700000000\<rparr>, sample_event 2 6]"

definition sample_clock :: "event_envelope \<Rightarrow> u64 \<times> u64 \<times> u64" where
  "sample_clock _ = (0, 0, 7)"

theorem backfill_exact_witness:
  "\<exists>w' st' s. apply_events sample_clock (new_backfill_writer default_backfill_config)
       (with_config default_storage_config) backfill_sample 700000000 = (w', st', s) \<and>
     unat (bsum_inserted s) + unat (bsum_skipped_duplicates s) + unat (bsum_pruned_by_retention s) = 3"
proof -
  obtain w' st' s where run: "apply_events sample_clock (new_backfill_writer default_backfill_config)
      (with_config default_storage_config) backfill_sample 700000000 = (w', st', s)"
    by (metis surj_pair)
  have "length backfill_sample = 3" by (simp add: backfill_sample_def)
  then show ?thesis
    using backfill_exact [OF _ run] run by auto
qed

theorem backfill_idempotent_witness:
  "\<exists>w' st' s s'. apply_events sample_clock (new_backfill_writer default_backfill_config)
       (with_config default_storage_config) backfill_sample 700000000 = (w', st', s) \<and>
     apply_events sample_clock w' st' (rev backfill_sample) 700000001 = (w', st', s') \<and>
     bsum_inserted s' = 0"
proof -
  obtain w' st' s where run: "apply_events sample_clock (new_backfill_writer default_backfill_config)
      (with_config default_storage_config) backfill_sample 700000000 = (w', st', s)"
    by (metis surj_pair)
  have len: "length backfill_sample = 3" by (simp add: backfill_sample_def)
  then show ?thesis
    using backfill_idempotent [OF _ run, of "rev backfill_sample" 700000001 sample_clock] run by auto
qed

text \<open>
  The writer knows the ids of its own appends only: a second writer over the same store
  stores the same event a second time.
\<close>

lemma backfill_second_writer_duplicates:
  fixes e clock
  assumes "0 \<le> ee_ingest_ts_unix_ms e"
  defines "run \<equiv> \<lambda>st. fst (snd (apply_events clock (new_backfill_writer default_backfill_config) st [e] 0))"
  shows "list_events (run (run (with_config default_storage_config))) = [e, e]"
proof -
  have s: "sort_deterministic [e] = [e]"
    by (simp add: sort_deterministic_def sort_by_def)
  have "run st = apply_step st (AppendStep (clock e) e)" for st
    using assms(1) by (simp add: run_def apply_events_def s Let_def new_backfill_writer_def
        default_backfill_config_def i64_sat_def i64_min_def i64_max_def)
  then have two: "run (run (with_config default_storage_config)) =
      storage_run default_storage_config [AppendStep (clock e) e, AppendStep (clock e) e]"
    by (simp add: storage_run_def)
  have "mset (list_events (run (run (with_config default_storage_config)))) = mset (replicate 2 e)"
    unfolding two list_events_def storage_events(1,3)
    by (simp add: events_of_def List.map_filter_simps last_n_def default_storage_config_def
        numeral_2_eq_2)
  then have "length xs = 2 \<and> set xs = {e}"
    if "xs = list_events (run (run (with_config default_storage_config)))" for xs
    using that mset_eq_length mset_eq_setD by fastforce
  then have "list_events (run (run (with_config default_storage_config))) = replicate 2 e"
    by (intro replicate_eqI) auto
  then show ?thesis
    by (simp add: numeral_2_eq_2)
qed

end
