(* ===== verification/Hex.thy ===== *)
theory Hex
  imports Text
begin

text \<open>
  Hexadecimal text: the parsers of \<^verbatim>\<open>src/crates/ingest/src/tx_decode.rs\<close> and of
  \<^verbatim>\<open>src/crates/runtime-core/src/live_rpc.rs\<close>, which slice their input by byte index,
  and the renderings they invert. A string is its UTF-8 bytes; slicing inside a character
  panics, and a call that panics is the value \<open>Panics\<close>.
\<close>

section \<open>Calls that may panic\<close>

datatype 'a call = Panics | Returns (returned: 'a)

fun call_bind :: "'a call \<Rightarrow> ('a \<Rightarrow> 'b call) \<Rightarrow> 'b call" where
  "call_bind Panics f = Panics"
| "call_bind (Returns x) f = f x"

text \<open>The operator \<^verbatim>\<open>?\<close> after a call that returns a result.\<close>

definition call_try :: "('e + 'a) call \<Rightarrow> ('a \<Rightarrow> ('e + 'b) call) \<Rightarrow> ('e + 'b) call" where
  "call_try c f = call_bind c (\<lambda>r. case r of Inl e \<Rightarrow> Returns (Inl e) | Inr x \<Rightarrow> f x)"

lemma call_try_simps [simp]:
  "call_try Panics f = Panics"
  "call_try (Returns (Inl e)) f = Returns (Inl e)"
  "call_try (Returns (Inr x)) f = f x"
  by (simp_all add: call_try_def)

lemma call_try_Inr:
  "call_try c f = Returns (Inr y) \<longleftrightarrow> (\<exists>x. c = Returns (Inr x) \<and> f x = Returns (Inr y))"
  by (cases c) (auto simp: call_try_def split: sum.splits)

lemma call_try_Panics:
  "call_try c f = Panics \<longleftrightarrow> c = Panics \<or> (\<exists>x. c = Returns (Inr x) \<and> f x = Panics)"
  by (cases c) (auto simp: call_try_def split: sum.splits)

section \<open>Parsing pairs of digits\<close>

text \<open>A UTF-8 continuation byte; a slice must not end before one.\<close>

definition is_continuation :: "char \<Rightarrow> bool" where
  "is_continuation c = (let n = of_char c :: nat in 128 \<le> n \<and> n < 192)"

definition ascii :: "string \<Rightarrow> bool" where
  "ascii s \<longleftrightarrow> list_all (\<lambda>c. (of_char c :: nat) < 128) s"

fun hex_slices :: "string \<Rightarrow> u8 list option call" where
  "hex_slices [] = Returns (Some [])"
| "hex_slices [_] = Returns None"
| "hex_slices (a # b # rest) =
     (if rest \<noteq> [] \<and> is_continuation (hd rest) then Panics
      else case hex_pair a b of
             None \<Rightarrow> Returns None
           | Some v \<Rightarrow> call_bind (hex_slices rest) (\<lambda>vs. Returns (map_option (Cons v) vs)))"

definition strip_0x :: "string \<Rightarrow> string" where
  "strip_0x value = (case strip_prefix ''0x'' value of Some s \<Rightarrow> s | None \<Rightarrow> value)"

definition hex_bytes_of :: "string \<Rightarrow> u8 list option call" where
  "hex_bytes_of value =
     (let trimmed = strip_0x value
      in if trimmed = [] then Returns (Some [])
         else if odd (length trimmed) then Returns None
         else hex_slices trimmed)"

text \<open>\<^verbatim>\<open>from_str_radix(s, 16)\<close> of an unsigned integer of the width of the result.\<close>

definition hex_value :: "string \<Rightarrow> nat" where
  "hex_value s = foldl (\<lambda>acc c. 16 * acc + (case hex_digit c of Some d \<Rightarrow> unat d | None \<Rightarrow> 0)) 0 s"

definition radix_16 :: "string \<Rightarrow> 'a::len word option" where
  "radix_16 s =
     (let digits = (if s \<noteq> [] \<and> hd s = CHR ''+'' then tl s else s)
      in if digits = [] \<or> \<not> list_all (\<lambda>c. hex_digit c \<noteq> None) digits then None
         else if hex_value digits < 2 ^ LENGTH('a) then Some (of_nat (hex_value digits)) else None)"

text \<open>\<^verbatim>\<open>parse_hex_u64\<close> and \<^verbatim>\<open>parse_hex_u128\<close>\<close>

definition parse_hex_word :: "string \<Rightarrow> 'a::len word option" where
  "parse_hex_word value =
     (let trimmed = strip_0x value in if trimmed = [] then Some 0 else radix_16 trimmed)"

section \<open>Rendering\<close>

definition format_fixed_hex :: "u8 list \<Rightarrow> string" where
  "format_fixed_hex bytes = ''0x'' @ hex_lower bytes"

section \<open>Parsing what was rendered\<close>

lemma hex_char_ascii: "d < 16 \<Longrightarrow> (of_char (hex_char d) :: nat) < 128"
  by (auto simp: hex_char_def word_less_nat_alt)

lemma nibbles: "b div 16 < 16" "b mod 16 < (16 :: u8)"
  using unat_le_max [of b] by (auto simp: word_less_nat_alt unat_div unat_mod)

lemma hex_lower_ascii: "ascii (hex_lower bs)"
  by (induction bs) (simp_all add: ascii_def hex_lower_def hex_char_ascii nibbles)

lemma ascii_boundary: "ascii s \<Longrightarrow> s \<noteq> [] \<Longrightarrow> \<not> is_continuation (hd s)"
  by (cases s) (auto simp: ascii_def is_continuation_def)

lemma hex_slices_ascii: "ascii s \<Longrightarrow> hex_slices s \<noteq> Panics"
proof (induction s rule: hex_slices.induct)
  case (3 a b rest)
  then have "ascii rest" by (simp add: ascii_def)
  then show ?case
    using 3 ascii_boundary [of rest] by (cases "hex_slices rest") (auto split: option.splits)
qed simp_all

lemma hex_slices_lower: "hex_slices (hex_lower bs) = Returns (Some bs)"
proof (induction bs)
  case (Cons b bs)
  have "\<not> (hex_lower bs \<noteq> [] \<and> is_continuation (hd (hex_lower bs)))"
    using ascii_boundary hex_lower_ascii by blast
  then show ?case
    using Cons by (simp add: hex_lower_def hex_pair_chars)
qed (simp add: hex_lower_def)

lemma hex_slices_length: "hex_slices s = Returns (Some bs) \<Longrightarrow> length s = 2 * length bs"
proof (induction s arbitrary: bs rule: hex_slices.induct)
  case (3 a b rest)
  then show ?case
    by (cases "hex_slices rest") (fastforce split: if_splits option.splits)+
qed simp_all

lemma strip_0x_format [simp]: "strip_0x (format_fixed_hex bs) = hex_lower bs"
  using strip_prefix_append [of "''0x''" "hex_lower bs"]
  by (simp add: strip_0x_def format_fixed_hex_def)

lemma hex_bytes_of_format: "hex_bytes_of (format_fixed_hex bs) = Returns (Some bs)"
  using hex_slices_lower [of bs] length_hex_lower [of bs]
  by (cases "hex_lower bs = []") (simp_all add: hex_bytes_of_def Let_def)

lemma strip_prefix_suffix: "strip_prefix p s = Some r \<Longrightarrow> set r \<subseteq> set s"
  by (induction p s rule: strip_prefix.induct) (auto split: if_splits)

lemma hex_bytes_of_ascii: "ascii value \<Longrightarrow> hex_bytes_of value \<noteq> Panics"
proof -
  assume a: "ascii value"
  have "set (strip_0x value) \<subseteq> set value"
    using strip_prefix_suffix by (auto simp: strip_0x_def split: option.splits)
  then have "ascii (strip_0x value)"
    using a by (auto simp: ascii_def list_all_iff)
  then show ?thesis
    using hex_slices_ascii by (simp add: hex_bytes_of_def Let_def)
qed

text \<open>
  Slicing panics inside a character: \<^verbatim>\<open>"a\u{e9}b"\<close>, four bytes, is valid text of an
  even length, and its second character spans the first two slices.
\<close>

lemma hex_bytes_of_panics: "hex_bytes_of [CHR ''a'', CHR 0xC3, CHR 0xA9, CHR ''b''] = Panics"
  by (simp add: hex_bytes_of_def strip_0x_def is_continuation_def)

lemma hex_bytes_of_plus: "hex_bytes_of ''0x+a'' = Returns (Some [10])"
  by (simp add: hex_bytes_of_def strip_0x_def hex_pair_def hex_digit_def Let_def)

section \<open>Words and their bytes\<close>

lemma byte_loop_value:
  "0 \<le> x \<Longrightarrow> x < 256 ^ n \<Longrightarrow> foldr (\<lambda>b acc. acc * 256 + uint b) (byte_loop n x) 0 = x"
proof (induction n arbitrary: x)
  case (Suc n)
  have "x div 256 < 256 ^ n" using Suc.prems by (simp add: div_less_iff_less_mult mult.commute)
  then have "foldr (\<lambda>b acc. acc * 256 + uint b) (byte_loop n (x div 256)) 0 = x div 256"
    using Suc.prems by (intro Suc.IH) simp_all
  then show ?case by (simp add: uint_word_of_int)
qed simp

lemma be_word_value:
  "uint (be_word bs :: 'a::len word) = foldl (\<lambda>acc b. acc * 256 + uint b) 0 bs mod 2 ^ LENGTH('a)"
proof -
  have "foldl (\<lambda>acc b. acc * 256 + ucast b) (word_of_int v :: 'a word) bs =
      word_of_int (foldl (\<lambda>acc b. acc * 256 + uint b) v bs)" for v
  proof (induction bs arbitrary: v)
    case (Cons b bs)
    then show ?case using Cons.IH [of "v * 256 + uint b"] by simp
  qed simp
  from this [of 0] show ?thesis by (simp add: be_word_def uint_word_of_int)
qed

lemma be_bytes_value:
  fixes w :: "'a::len word"
  assumes "LENGTH('a) \<le> 8 * n"
  shows "foldl (\<lambda>acc b. acc * 256 + uint b) 0 (be_bytes n w) = uint w"
proof -
  have "uint w < 2 ^ LENGTH('a)" by simp
  also have "\<dots> \<le> 2 ^ (8 * n)" using assms by (rule power_increasing) simp
  finally have "uint w < 256 ^ n" by (simp add: power_mult)
  then show ?thesis
    using byte_loop_value [of "uint w" n] by (simp add: be_bytes_def le_bytes_def foldl_conv_foldr)
qed

lemma be_word_bytes:
  fixes w :: "'a::len word"
  assumes "LENGTH('a) \<le> 8 * n"
  shows "be_word (be_bytes n w) = w"
proof -
  have "uint (be_word (be_bytes n w) :: 'a word) = uint w"
    by (simp add: be_word_value be_bytes_value assms)
  then show ?thesis by (metis word_of_int_uint)
qed

lemma length_byte_list [simp]: "length (byte_loop n x) = n"
  by (induction n arbitrary: x) simp_all

lemma length_be_byte_list [simp]: "length (be_bytes n w) = n"
  by (simp add: be_bytes_def le_bytes_def)

section \<open>Numbers in hexadecimal\<close>

lemma hex_value_lower: "int (hex_value (hex_lower bs)) = foldl (\<lambda>acc b. acc * 256 + uint b) 0 bs"
proof -
  let ?d = "\<lambda>c. case hex_digit c of Some d \<Rightarrow> unat d | None \<Rightarrow> 0"
  have byte: "16 * unat (b div 16) + unat (b mod 16) = unat b" for b :: u8
    using mult_div_mod_eq [of 16 "unat b"] by (simp add: unat_div unat_mod)
  have two: "foldl (\<lambda>acc c. 16 * acc + ?d c) v (hex_lower (b # bs)) =
      foldl (\<lambda>acc c. 16 * acc + ?d c) (v * 256 + unat b) (hex_lower bs)" for v b bs
  proof -
    have "hex_lower (b # bs) = hex_char (b div 16) # hex_char (b mod 16) # hex_lower bs"
      by (simp add: hex_lower_def)
    moreover have "16 * (16 * v + unat (b div 16)) + unat (b mod 16) = v * 256 + unat b"
      using byte [of b] by simp
    ultimately show ?thesis
      by (simp only: foldl_Cons hex_digit_char nibbles option.case)
  qed
  have "int (foldl (\<lambda>acc c. 16 * acc + ?d c) v (hex_lower bs)) = foldl (\<lambda>acc b. acc * 256 + uint b) (int v) bs"
    for v
  proof (induction bs arbitrary: v)
    case (Cons b bs)
    have "int (v * 256 + unat b) = int v * 256 + uint b" by simp
    then show ?case
      using Cons [of "v * 256 + unat b"] by (simp only: two foldl_Cons)
  qed (simp add: hex_lower_def)
  from this [of 0] show ?thesis by (simp add: hex_value_def)
qed

lemma hex_lower_digits: "list_all (\<lambda>c. hex_digit c \<noteq> None) (hex_lower bs)"
  by (induction bs) (simp_all add: hex_lower_def hex_digit_char nibbles)

lemma hex_lower_no_plus: "hex_lower bs \<noteq> [] \<Longrightarrow> hd (hex_lower bs) \<noteq> CHR ''+''"
  using hex_lower_digits [of bs] by (cases "hex_lower bs") (auto simp: hex_digit_def Let_def)

lemma parse_hex_word_format:
  fixes w :: "'a::len word"
  assumes "LENGTH('a) \<le> 8 * n"
  shows "parse_hex_word (format_fixed_hex (be_bytes n w)) = Some w"
proof -
  have "0 < n" using assms len_gt_0 [where 'a = 'a] by linarith
  then have ne: "hex_lower (be_bytes n w) \<noteq> []"
    using length_hex_lower [of "be_bytes n w"] by (metis length_0_conv length_be_byte_list less_numeral_extra(3) mult_eq_0_iff zero_neq_numeral)
  have "int (hex_value (hex_lower (be_bytes n w))) = int (unat w)"
    using be_bytes_value [OF assms, of w] by (simp add: hex_value_lower)
  then have "hex_value (hex_lower (be_bytes n w)) = unat w" by linarith
  then show ?thesis
    using ne hex_lower_no_plus [OF ne] hex_lower_digits [of "be_bytes n w"] unsigned_less [of w]
    by (simp add: parse_hex_word_def radix_16_def)
qed

end
