(* ===== verification/Ingest_Decode.thy ===== *)
theory Ingest_Decode
  imports Hex Common
begin

text \<open>
  Decoding of provider-facing transactions
  (\<^verbatim>\<open>src/crates/ingest/src/tx_decode.rs\<close>): fee normalisation by transaction family,
  hexadecimal fields, and the effective gas price. \<^verbatim>\<open>serde_json\<close> decoding of the
  input is not modelled.
\<close>

datatype tx_type = Legacy | Eip2930 | Eip1559 | Eip4844

record raw_tx_input =
  rti_hash :: string
  rti_tx_type :: tx_type
  rti_chain_id :: u64
  rti_sender :: string
  rti_nonce :: u64
  rti_to :: "string option"
  rti_value :: u128
  rti_gas_limit :: u64
  rti_gas_price :: "u128 option"
  rti_max_fee_per_gas :: "u128 option"
  rti_max_priority_fee_per_gas :: "u128 option"
  rti_max_fee_per_blob_gas :: "u128 option"
  rti_calldata :: "string option"

record normalized_fees =
  nf_gas_price :: "u128 option"
  nf_max_fee_per_gas :: "u128 option"
  nf_max_priority_fee_per_gas :: "u128 option"
  nf_max_fee_per_blob_gas :: "u128 option"

record decoded_tx =
  dtx_hash :: TxHash
  dtx_tx_type :: tx_type
  dtx_chain_id :: u64
  dtx_sender :: Address
  dtx_nonce :: u64
  dtx_to :: "Address option"
  dtx_value :: u128
  dtx_gas_limit :: u64
  dtx_fees :: normalized_fees
  dtx_calldata :: "u8 list"

definition effective_gas_price :: "decoded_tx \<Rightarrow> u128 \<Rightarrow> u128 option" where
  "effective_gas_price tx base_fee =
     (if dtx_tx_type tx = Legacy \<or> dtx_tx_type tx = Eip2930 then nf_gas_price (dtx_fees tx)
      else Option.bind (nf_max_fee_per_gas (dtx_fees tx)) (\<lambda>max_fee.
           Option.bind (nf_max_priority_fee_per_gas (dtx_fees tx)) (\<lambda>priority.
             Some (min max_fee (sat_add base_fee priority)))))"

datatype decode_error =
    InvalidHex string
  | InvalidLength string nat
  | MissingFeeField string
  | JsonDecode

fun normalize_by :: "tx_type \<Rightarrow> raw_tx_input \<Rightarrow> decode_error + normalized_fees" where
  "normalize_by Eip1559 input =
     result_bind (ok_or (rti_max_fee_per_gas input) (MissingFeeField ''max_fee_per_gas'')) (\<lambda>max_fee.
     result_bind (ok_or (rti_max_priority_fee_per_gas input)
         (MissingFeeField ''max_priority_fee_per_gas'')) (\<lambda>priority.
       Inr \<lparr>nf_gas_price = None, nf_max_fee_per_gas = Some max_fee,
            nf_max_priority_fee_per_gas = Some priority, nf_max_fee_per_blob_gas = None\<rparr>))"
| "normalize_by Eip4844 input =
     result_bind (ok_or (rti_max_fee_per_gas input) (MissingFeeField ''max_fee_per_gas'')) (\<lambda>max_fee.
     result_bind (ok_or (rti_max_priority_fee_per_gas input)
         (MissingFeeField ''max_priority_fee_per_gas'')) (\<lambda>priority.
     result_bind (ok_or (rti_max_fee_per_blob_gas input)
         (MissingFeeField ''max_fee_per_blob_gas'')) (\<lambda>blob_fee.
       Inr \<lparr>nf_gas_price = None, nf_max_fee_per_gas = Some max_fee,
            nf_max_priority_fee_per_gas = Some priority, nf_max_fee_per_blob_gas = Some blob_fee\<rparr>)))"
| "normalize_by _ input =
     result_bind (ok_or (rti_gas_price input) (MissingFeeField ''gas_price'')) (\<lambda>gas_price.
       Inr \<lparr>nf_gas_price = Some gas_price, nf_max_fee_per_gas = None,
            nf_max_priority_fee_per_gas = None, nf_max_fee_per_blob_gas = None\<rparr>)"

definition normalize_fees :: "raw_tx_input \<Rightarrow> decode_error + normalized_fees" where
  "normalize_fees input = normalize_by (rti_tx_type input) input"

definition parse_variable_hex :: "string \<Rightarrow> string \<Rightarrow> (decode_error + u8 list) call" where
  "parse_variable_hex value field =
     call_bind (hex_bytes_of value)
       (\<lambda>r. Returns (case r of None \<Rightarrow> Inl (InvalidHex field) | Some bytes \<Rightarrow> Inr bytes))"

definition parse_fixed_hex :: "nat \<Rightarrow> string \<Rightarrow> string \<Rightarrow> (decode_error + u8 list) call" where
  "parse_fixed_hex n value field =
     call_try (parse_variable_hex value field)
       (\<lambda>bytes. if length bytes \<noteq> n then Returns (Inl (InvalidLength field n)) else Returns (Inr bytes))"

definition decode_from_raw :: "raw_tx_input \<Rightarrow> (decode_error + decoded_tx) call" where
  "decode_from_raw input =
     call_try (Returns (normalize_fees input)) (\<lambda>fees.
     call_try (parse_fixed_hex 32 (rti_hash input) ''hash'') (\<lambda>hash.
     call_try (parse_fixed_hex 20 (rti_sender input) ''sender'') (\<lambda>sender.
     call_try (case rti_to input of
                 None \<Rightarrow> Returns (Inr None)
               | Some value \<Rightarrow>
                   if value = [] then Returns (Inr None)
                   else call_try (parse_fixed_hex 20 value ''to'') (\<lambda>a. Returns (Inr (Some (be_word a)))))
       (\<lambda>to.
     call_try (case rti_calldata input of
                 None \<Rightarrow> Returns (Inr [])
               | Some value \<Rightarrow>
                   if value = [] then Returns (Inr []) else parse_variable_hex value ''calldata'')
       (\<lambda>calldata.
       Returns (Inr \<lparr>dtx_hash = be_word hash, dtx_tx_type = rti_tx_type input,
          dtx_chain_id = rti_chain_id input, dtx_sender = be_word sender,
          dtx_nonce = rti_nonce input, dtx_to = to, dtx_value = rti_value input,
          dtx_gas_limit = rti_gas_limit input, dtx_fees = fees, dtx_calldata = calldata\<rparr>))))))"

section \<open>Fees by transaction family\<close>

text \<open>Which fee fields a decoded transaction of each family has.\<close>

definition fees_fit :: "tx_type \<Rightarrow> normalized_fees \<Rightarrow> bool" where
  "fees_fit t fees \<longleftrightarrow>
     (nf_gas_price fees \<noteq> None) = (t = Legacy \<or> t = Eip2930) \<and>
     (nf_max_fee_per_gas fees \<noteq> None) = (t = Eip1559 \<or> t = Eip4844) \<and>
     (nf_max_priority_fee_per_gas fees \<noteq> None) = (t = Eip1559 \<or> t = Eip4844) \<and>
     (nf_max_fee_per_blob_gas fees \<noteq> None) = (t = Eip4844)"

lemma normalize_by_fits: "normalize_by t input = Inr fees \<Longrightarrow> fees_fit t fees"
  by (cases t) (auto simp: result_bind_Inr ok_or_Inr fees_fit_def)

lemma decode_parts:
  assumes "decode_from_raw input = Returns (Inr tx)"
  shows "normalize_fees input = Inr (dtx_fees tx)" and "dtx_tx_type tx = rti_tx_type input"
  using assms by (auto simp: decode_from_raw_def call_try_Inr)

text \<open>The input that renders a decoded transaction.\<close>

definition render :: "decoded_tx \<Rightarrow> raw_tx_input" where
  "render tx =
     \<lparr>rti_hash = format_fixed_hex (hash_bytes (dtx_hash tx)), rti_tx_type = dtx_tx_type tx,
      rti_chain_id = dtx_chain_id tx, rti_sender = format_fixed_hex (be_bytes 20 (dtx_sender tx)),
      rti_nonce = dtx_nonce tx, rti_to = map_option (\<lambda>a. format_fixed_hex (be_bytes 20 a)) (dtx_to tx),
      rti_value = dtx_value tx, rti_gas_limit = dtx_gas_limit tx,
      rti_gas_price = nf_gas_price (dtx_fees tx),
      rti_max_fee_per_gas = nf_max_fee_per_gas (dtx_fees tx),
      rti_max_priority_fee_per_gas = nf_max_priority_fee_per_gas (dtx_fees tx),
      rti_max_fee_per_blob_gas = nf_max_fee_per_blob_gas (dtx_fees tx),
      rti_calldata = Some (format_fixed_hex (dtx_calldata tx))\<rparr>"

lemma normalize_render: "fees_fit (dtx_tx_type tx) (dtx_fees tx) \<Longrightarrow> normalize_fees (render tx) = Inr (dtx_fees tx)"
  by (cases "dtx_tx_type tx") (auto simp: normalize_fees_def render_def fees_fit_def)

lemma parse_format [simp]:
  "parse_variable_hex (format_fixed_hex bs) field = Returns (Inr bs)"
  "parse_fixed_hex n (format_fixed_hex bs) field =
    Returns (if length bs = n then Inr bs else Inl (InvalidLength field n))"
  by (simp_all add: parse_variable_hex_def parse_fixed_hex_def hex_bytes_of_format)

lemma format_fixed_hex_not_Nil [simp]: "format_fixed_hex bs \<noteq> []"
  by (simp add: format_fixed_hex_def)

section \<open>Properties\<close>

text \<open>
  Decoding inverts rendering: the hexadecimal rendering of any transaction whose
  fees fit its family decodes to exactly that transaction.
\<close>

theorem decode_render_roundtrip:
  assumes "fees_fit (dtx_tx_type tx) (dtx_fees tx)"
  shows "decode_from_raw (render tx) = Returns (Inr tx)"
proof -
  have "(case rti_to (render tx) of None \<Rightarrow> Returns (Inr None)
      | Some value \<Rightarrow> if value = [] then Returns (Inr None)
          else call_try (parse_fixed_hex 20 value ''to'') (\<lambda>a. Returns (Inr (Some (be_word a))))) =
      Returns (Inr (dtx_to tx))"
    by (cases "dtx_to tx") (simp_all add: render_def be_word_bytes)
  then show ?thesis
    by (simp add: decode_from_raw_def normalize_render [OF assms])
      (simp add: render_def be_word_bytes)
qed


section \<open>Panics\<close>

lemma parse_hex_ascii:
  "ascii s \<Longrightarrow> parse_variable_hex s field \<noteq> Panics"
  "ascii s \<Longrightarrow> parse_fixed_hex n s field \<noteq> Panics"
  using hex_bytes_of_ascii [of s]
  by (cases "hex_bytes_of s"; auto simp: parse_variable_hex_def parse_fixed_hex_def
      split: option.splits)+

text \<open>ASCII input is decoded or refused.\<close>

lemma decode_ascii_returns:
  assumes "ascii (rti_hash input)" and "ascii (rti_sender input)"
    and "list_all ascii (case rti_to input of None \<Rightarrow> [] | Some s \<Rightarrow> [s])"
    and "list_all ascii (case rti_calldata input of None \<Rightarrow> [] | Some s \<Rightarrow> [s])"
  shows "decode_from_raw input \<noteq> Panics"
  using assms
  by (auto simp: decode_from_raw_def call_try_Panics parse_hex_ascii split: option.splits if_splits)

text \<open>A provider can make the decoder panic with one character that is not ASCII.\<close>

definition sample_decoded :: decoded_tx where
  "sample_decoded =
     \<lparr>dtx_hash = 17, dtx_tx_type = Eip1559, dtx_chain_id = 1, dtx_sender = 34, dtx_nonce = 7,
      dtx_to = Some 51, dtx_value = 12345, dtx_gas_limit = 30000,
      dtx_fees = \<lparr>nf_gas_price = None, nf_max_fee_per_gas = Some 70,
        nf_max_priority_fee_per_gas = Some 3, nf_max_fee_per_blob_gas = None\<rparr>,
      dtx_calldata = [0xAA, 0xBB]\<rparr>"

lemma decode_panics:
  "decode_from_raw ((render sample_decoded)
     \<lparr>rti_hash := [CHR ''a'', CHR 0xC3, CHR 0xA9, CHR ''b'']\<rparr>) = Panics"
  by (simp add: decode_from_raw_def normalize_fees_def render_def sample_decoded_def
      parse_fixed_hex_def parse_variable_hex_def hex_bytes_of_panics)

theorem decode_render_roundtrip_witness:
  "decode_from_raw (render sample_decoded) = Returns (Inr sample_decoded)"
  by (rule decode_render_roundtrip) (simp add: sample_decoded_def fees_fit_def)


end
