(* ===== verification/Ingest_Dedup.thy ===== *)
theory Ingest_Dedup
  imports Common
begin

text \<open>
  Bounded deduplication, which the three ingest paths share: a set of known hashes and
  the order in which they were accepted, from which the oldest are evicted. The interface
  \<open>dedup_cache\<close> states what offering a hash does; from it follows that a hash is
  accepted exactly when it is not among the last accepted ones.
\<close>

section \<open>The cache\<close>

text \<open>
  \<^verbatim>\<open>while seen_order.len() > max\<close>: pop the front and remove it from the set
  or map that \<open>remove\<close> acts on.
\<close>

fun evict_oldest :: "('m \<Rightarrow> TxHash \<Rightarrow> 'm) \<Rightarrow> usize \<Rightarrow> TxHash list \<Rightarrow> 'm \<Rightarrow> TxHash list \<times> 'm" where
  "evict_oldest remove cap [] seen = ([], seen)"
| "evict_oldest remove cap (oldest # order) seen =
     (if cap < Suc (length order) then evict_oldest remove cap order (remove seen oldest)
      else (oldest # order, seen))"

definition remember_hash ::
  "usize \<Rightarrow> TxHash set \<times> TxHash list \<Rightarrow> TxHash \<Rightarrow> bool \<times> TxHash set \<times> TxHash list" where
  "remember_hash max_seen_hashes cache hash =
     (let (seen_hashes, seen_order) = cache
      in if hash \<in> seen_hashes then (False, seen_hashes, seen_order)
         else let (order, seen) = evict_oldest (\<lambda>seen old. seen - {old}) max_seen_hashes
                    (seen_order @ [hash]) (insert hash seen_hashes)
              in (True, seen, order))"

section \<open>What a bounded cache accepts\<close>

text \<open>
  The hashes accepted from a sequence of offers with a window of \<open>n\<close>: each one that is
  not among the last \<open>n\<close> accepted before it.
\<close>

definition accept :: "nat \<Rightarrow> TxHash list \<Rightarrow> TxHash \<Rightarrow> TxHash list" where
  "accept n acc h = (if h \<in> set (last_n n acc) then acc else acc @ [h])"

definition accepted :: "nat \<Rightarrow> TxHash list \<Rightarrow> TxHash list" where
  "accepted n hs = foldl (accept n) [] hs"

text \<open>Which of the offers are accepted, one verdict per offer.\<close>

definition verdicts :: "nat \<Rightarrow> TxHash list \<Rightarrow> bool list" where
  "verdicts n hs = fst (map_state (\<lambda>acc h. (h \<notin> set (last_n n acc), accept n acc h)) [] hs)"

lemma accepted_snoc: "accepted n (hs @ [h]) = accept n (accepted n hs) h"
  by (simp add: accepted_def)

lemma map_state_concat:
  "map_state f s (xs @ ys) =
    (fst (map_state f s xs) @ fst (map_state f (snd (map_state f s xs)) ys),
     snd (map_state f (snd (map_state f s xs)) ys))"
  by (induction xs arbitrary: s) (auto simp: prod_eq_iff)

lemma verdicts_snoc: "verdicts n (hs @ [h]) = verdicts n hs @ [h \<notin> set (last_n n (accepted n hs))]"
  by (simp add: verdicts_def map_state_concat accepted_def snd_map_state)

lemma length_verdicts [simp]: "length (verdicts n hs) = length hs"
  by (simp add: verdicts_def)

lemma accepted_verdicts: "accepted n hs = map fst (filter snd (zip hs (verdicts n hs)))"
  by (induction hs rule: rev_induct)
    (simp_all add: accepted_snoc verdicts_snoc accept_def, simp add: accepted_def)

lemma set_accepted: "set (accepted n hs) \<subseteq> set hs"
  by (induction hs rule: rev_induct) (auto simp: accepted_snoc accept_def, simp add: accepted_def)

lemma distinct_last_n: "distinct xs \<Longrightarrow> distinct (last_n n xs)"
  by (simp add: last_n_def)

text \<open>No two accepted hashes within a window are equal.\<close>

lemma accepted_window_distinct: "distinct (last_n n (accepted n hs))"
proof (induction hs rule: rev_induct)
  case (snoc h hs)
  have "distinct (last_n n (last_n n (accepted n hs) @ [h]))" if "h \<notin> set (last_n n (accepted n hs))"
    using snoc that by (intro distinct_last_n) simp
  then show ?case
    using snoc by (simp add: accepted_snoc accept_def last_n_push)
qed (simp add: accepted_def last_n_def)

section \<open>The interface\<close>

locale dedup_cache =
  fixes offer :: "'s \<Rightarrow> TxHash \<Rightarrow> bool \<times> 's"
    and known :: "'s \<Rightarrow> TxHash set"
    and order :: "'s \<Rightarrow> TxHash list"
    and capacity :: "'s \<Rightarrow> nat"
  assumes offer_capacity: "capacity (snd (offer s h)) = capacity s"
    and offer_known: "h \<in> known s \<Longrightarrow> \<not> fst (offer s h) \<and> known (snd (offer s h)) = known s \<and>
      order (snd (offer s h)) = order s"
    and offer_new: "known s = set (order s) \<Longrightarrow> distinct (order s) \<Longrightarrow> h \<notin> known s \<Longrightarrow>
      fst (offer s h) \<and> order (snd (offer s h)) = last_n (capacity s) (order s @ [h]) \<and>
      known (snd (offer s h)) = set (last_n (capacity s) (order s @ [h]))"
begin

definition holds :: "TxHash list \<Rightarrow> 's \<Rightarrow> bool" where
  "holds acc s \<longleftrightarrow> order s = last_n (capacity s) acc \<and> known s = set (last_n (capacity s) acc) \<and>
     distinct (last_n (capacity s) acc)"

lemma offer_holds:
  assumes "holds acc s"
  shows "holds (accept (capacity s) acc h) (snd (offer s h))"
    and "fst (offer s h) \<longleftrightarrow> h \<notin> set (last_n (capacity s) acc)"
proof -
  have o: "order s = last_n (capacity s) acc" "known s = set (order s)" "distinct (order s)"
    using assms by (simp_all add: holds_def)
  show "fst (offer s h) \<longleftrightarrow> h \<notin> set (last_n (capacity s) acc)"
    using offer_known [of h s] offer_new [OF o(2,3), of h] o(1,2) by metis
  show "holds (accept (capacity s) acc h) (snd (offer s h))"
  proof (cases "h \<in> known s")
    case True
    then show ?thesis
      using o offer_known [OF True] by (simp add: holds_def accept_def offer_capacity)
  next
    case False
    then have "distinct (last_n (capacity s) (order s @ [h]))"
      using o by (intro distinct_last_n) simp
    then show ?thesis
      using False o offer_new [OF o(2,3) False]
      by (simp add: holds_def accept_def offer_capacity last_n_push)
  qed
qed

lemma run_holds:
  fixes hs s
  assumes "holds [] s"
  defines "r \<equiv> map_state offer s hs"
  shows "holds (accepted (capacity s) hs) (snd r) \<and> fst r = verdicts (capacity s) hs \<and>
    capacity (snd r) = capacity s"
  unfolding r_def
proof (induction hs rule: rev_induct)
  case Nil
  then show ?case using assms(1) by (simp add: accepted_def verdicts_def)
next
  case (snoc h hs)
  then show ?case
    using offer_holds [of "accepted (capacity s) hs" "snd (map_state offer s hs)" h]
    by (simp add: map_state_concat accepted_snoc verdicts_snoc offer_capacity)
qed

lemma holds_bounded: "holds acc s \<Longrightarrow> length (order s) \<le> capacity s \<and> finite (known s) \<and>
    card (known s) = length (order s)"
  by (simp add: holds_def distinct_card)

end

text \<open>Eviction keeps the last hashes and exactly their entries.\<close>

lemma evict_oldest_last_n: "fst (evict_oldest remove n xs m) = last_n n xs"
proof (induction xs arbitrary: m)
  case (Cons x xs)
  then show ?case by (cases "n < Suc (length xs)") (simp_all add: last_n_Cons last_n_all)
qed (simp add: last_n_def)

lemma evict_oldest_keys:
  assumes "\<And>m h. keys (remove m h) = keys m - {h}" and "keys m = set xs" and "distinct xs"
  shows "keys (snd (evict_oldest remove n xs m)) = set (last_n n xs)"
  using assms(2,3)
proof (induction xs arbitrary: m)
  case (Cons x xs)
  then show ?case
    using assms(1) by (cases "n < Suc (length xs)") (simp_all add: last_n_Cons last_n_all)
qed (simp add: last_n_def)

interpretation hash_set_cache: dedup_cache "remember_hash n" fst snd "\<lambda>_. n"
proof
  fix s :: "TxHash set \<times> TxHash list" and h :: TxHash
  show "h \<in> fst s \<Longrightarrow> \<not> fst (remember_hash n s h) \<and> fst (snd (remember_hash n s h)) = fst s \<and>
      snd (snd (remember_hash n s h)) = snd s"
    by (simp add: remember_hash_def split_beta)
  assume "fst s = set (snd s)" "distinct (snd s)" "h \<notin> fst s"
  then show "fst (remember_hash n s h) \<and> snd (snd (remember_hash n s h)) = last_n n (snd s @ [h]) \<and>
      fst (snd (remember_hash n s h)) = set (last_n n (snd s @ [h]))"
    using evict_oldest_keys [of "\<lambda>s. s" "\<lambda>seen old. seen - {old}" "insert h (fst s)" "snd s @ [h]" n]
    by (simp add: remember_hash_def split_beta Let_def evict_oldest_last_n)
qed simp

text \<open>
  Deduplication with a bounded cache is exact: from an empty cache of n
  hashes, each offered hash is accepted exactly when it is not among the last n accepted
  before it, and the cache never holds more than n hashes.
\<close>

theorem remember_hash_exact:
  "let (verdict, seen, order) = map_state (remember_hash n) ({}, []) hs
   in verdict = verdicts n hs \<and> order = last_n n (accepted n hs) \<and> seen = set order \<and>
      length order \<le> n"
proof -
  have "hash_set_cache.holds n [] ({}, [])"
    by (simp add: hash_set_cache.holds_def last_n_def)
  from hash_set_cache.run_holds [OF this, of hs] show ?thesis
    by (simp add: hash_set_cache.holds_def split_beta Let_def)
qed

end
