(* ===== verification/Ingest_Rpc.thy ===== *)
theory Ingest_Rpc
  imports Ingest_Dedup Event_Log Text
begin

text \<open>
  The RPC ingest service (\<^verbatim>\<open>src/crates/ingest/src/rpc.rs\<close>) and the ingest errors
  (\<^verbatim>\<open>src/crates/ingest/src/lib.rs\<close>). The traits \<^verbatim>\<open>PendingTxProvider\<close> and
  \<^verbatim>\<open>IngestClock\<close> are records of functions on the provider's and the clock's own state;
  the in-memory provider and the stepping clock of the sources are instances.
\<close>

section \<open>Errors\<close>

datatype ingest_error = RpcConnect shared_error | TxFetch string shared_error | OtherIngest shared_error
  and shared_error = Foreign string | Wrapped ingest_error

definition format_tx_hash :: "TxHash \<Rightarrow> string" where
  "format_tx_hash hash = ''0x'' @ hex_lower (hash_bytes hash)"

fun into_rpc_connect :: "ingest_error \<Rightarrow> ingest_error" where
  "into_rpc_connect (RpcConnect e) = RpcConnect e"
| "into_rpc_connect err = RpcConnect (Wrapped err)"

fun into_tx_fetch :: "ingest_error \<Rightarrow> TxHash \<Rightarrow> ingest_error" where
  "into_tx_fetch (TxFetch h e) hash = TxFetch h e"
| "into_tx_fetch err hash = TxFetch (format_tx_hash hash) (Wrapped err)"

section \<open>Traits\<close>

record raw_transaction =
  rtx_hash :: TxHash
  rtx_tx_type :: u8
  rtx_raw :: "u8 list"

record 'p pending_tx_provider =
  ptp_pending_hashes :: "'p \<Rightarrow> (ingest_error + TxHash list) \<times> 'p"
  ptp_fetch_transaction :: "'p \<Rightarrow> TxHash \<Rightarrow> (ingest_error + raw_transaction option) \<times> 'p"

record 'c ingest_clock =
  ick_now_unix_ms :: "'c \<Rightarrow> i64 \<times> 'c"
  ick_now_mono_ns :: "'c \<Rightarrow> u64 \<times> 'c"

text \<open>The system clock: its wall clock \<open>wall\<close> is read, its monotonic clock is a counter.\<close>

definition system_clock :: "i64 \<Rightarrow> u64 ingest_clock" where
  "system_clock wall =
     \<lparr>ick_now_unix_ms = (\<lambda>c. (wall, c)),
      ick_now_mono_ns = (\<lambda>c. let c = sat_add c 1000000 in (c, c))\<rparr>"

type_synonym in_memory_pending = "TxHash list list \<times> (TxHash, raw_transaction) btree_map"

definition in_memory_provider :: "in_memory_pending pending_tx_provider" where
  "in_memory_provider =
     \<lparr>ptp_pending_hashes = (\<lambda>(batches, txs).
         case batches of [] \<Rightarrow> (Inr [], batches, txs) | b # bs \<Rightarrow> (Inr b, bs, txs)),
      ptp_fetch_transaction = (\<lambda>p hash. (Inr (bt_get (snd p) hash), p))\<rparr>"

definition new_in_memory_provider :: "TxHash list list \<Rightarrow> raw_transaction list \<Rightarrow> in_memory_pending" where
  "new_in_memory_provider batches transactions =
     (batches, foldl (\<lambda>m tx. bt_insert (rtx_hash tx) tx m) bt_empty transactions)"

section \<open>The service\<close>

record rpc_ingest_config =
  ric_max_seen_hashes :: usize
  ric_pending_batch_capacity :: usize

definition default_rpc_ingest_config :: rpc_ingest_config where
  "default_rpc_ingest_config =
     \<lparr>ric_max_seen_hashes = 250000, ric_pending_batch_capacity = 4096\<rparr>"

record ('p, 'c) rpc_ingest_service =
  ris_provider :: 'p
  ris_clock :: 'c
  ris_source_id :: source_id
  ris_config :: rpc_ingest_config
  ris_seen_hashes :: "TxHash set"
  ris_seen_order :: "TxHash list"
  ris_next_seq_id :: u64

definition rpc_with_config ::
  "'p \<Rightarrow> source_id \<Rightarrow> 'c \<Rightarrow> rpc_ingest_config \<Rightarrow> ('p, 'c) rpc_ingest_service" where
  "rpc_with_config provider source_id clock config =
     \<lparr>ris_provider = provider, ris_clock = clock, ris_source_id = source_id,
      ris_config = \<lparr>ric_max_seen_hashes = max (ric_max_seen_hashes config) 1,
        ric_pending_batch_capacity = max (ric_pending_batch_capacity config) 1\<rparr>,
      ris_seen_hashes = {}, ris_seen_order = [], ris_next_seq_id = 1\<rparr>"

definition rpc_drop_reason ::
  "('p, 'c) rpc_ingest_service \<Rightarrow> string \<Rightarrow> string \<Rightarrow> usize \<Rightarrow> usize \<Rightarrow> string" where
  "rpc_drop_reason s reason queue_name depth_current depth_peak =
     reason @ '';lane=rpc;source='' @ source_str (ris_source_id s) @ '';queue='' @ queue_name @
     '';depth_current='' @ dec_string depth_current @ '';depth_peak='' @ dec_string depth_peak"

definition rpc_remember_hash ::
  "('p, 'c) rpc_ingest_service \<Rightarrow> TxHash \<Rightarrow> bool \<times> ('p, 'c) rpc_ingest_service" where
  "rpc_remember_hash s hash =
     (let (fresh, seen, order) = remember_hash (ric_max_seen_hashes (ris_config s))
            (ris_seen_hashes s, ris_seen_order s) hash
      in (fresh, s\<lparr>ris_seen_hashes := seen, ris_seen_order := order\<rparr>))"

definition rpc_new_event ::
  "'c ingest_clock \<Rightarrow> ('p, 'c) rpc_ingest_service \<Rightarrow> event_payload \<Rightarrow>
   event_envelope \<times> ('p, 'c) rpc_ingest_service" where
  "rpc_new_event clk s payload =
     (let seq_id = ris_next_seq_id s;
          (unix_ms, c) = ick_now_unix_ms clk (ris_clock s);
          (mono_ns, c) = ick_now_mono_ns clk c
      in (\<lparr>ee_seq_id = seq_id, ee_ingest_ts_unix_ms = unix_ms, ee_ingest_ts_mono_ns = mono_ns,
           ee_source_id = ris_source_id s, ee_payload = payload\<rparr>,
          s\<lparr>ris_next_seq_id := seq_id + 1, ris_clock := c\<rparr>))"

definition decoded_stub :: "raw_transaction \<Rightarrow> tx_decoded" where
  "decoded_stub tx =
     \<lparr>dec_hash = rtx_hash tx, dec_tx_type = rtx_tx_type tx, dec_sender = 0, dec_nonce = 0,
      dec_chain_id = None, dec_to = None, dec_value_wei = None, dec_gas_limit = None,
      dec_gas_price_wei = None, dec_max_fee_per_gas_wei = None,
      dec_max_priority_fee_per_gas_wei = None, dec_max_fee_per_blob_gas_wei = None,
      dec_calldata_len = Some (of_nat (length (rtx_raw tx)))\<rparr>"

text \<open>One hash of a poll: the events it causes, or the error of its fetch.\<close>

definition poll_hash ::
  "'p pending_tx_provider \<Rightarrow> 'c ingest_clock \<Rightarrow> usize \<Rightarrow> ('p, 'c) rpc_ingest_service \<Rightarrow> nat \<times> TxHash \<Rightarrow>
   (ingest_error + event_envelope list) \<times> ('p, 'c) rpc_ingest_service" where
  "poll_hash prov clk depth s item =
     (let (idx, hash) = item; cap = ric_pending_batch_capacity (ris_config s);
          dropped = (\<lambda>s reason. let (e, s) = rpc_new_event clk s (TxDropped \<lparr>dropped_hash = hash,
              dropped_reason = rpc_drop_reason s reason ''rpc.pending_batch'' depth cap\<rparr>)
            in (Inr [e], s))
      in if idx \<ge> cap then dropped s ''QueueFull''
         else let (fresh, s) = rpc_remember_hash s hash
         in if \<not> fresh then dropped s ''Duplicate''
            else
              let (unix_ms, c) = ick_now_unix_ms clk (ris_clock s);
                  (mono_ns, c) = ick_now_mono_ns clk c;
                  (seen, s) = rpc_new_event clk (s\<lparr>ris_clock := c\<rparr>)
                    (TxSeen \<lparr>seen_hash = hash, seen_peer_id = ''rpc-provider'',
                       seen_at_unix_ms = unix_ms, seen_at_mono_ns = mono_ns\<rparr>);
                  (fetched, p) = ptp_fetch_transaction prov (ris_provider s) hash;
                  s = s\<lparr>ris_provider := p\<rparr>
              in case fetched of
                   Inl err \<Rightarrow> (Inl (into_tx_fetch err hash), s)
                 | Inr None \<Rightarrow> (Inr [seen], s)
                 | Inr (Some tx) \<Rightarrow>
                     let (unix_ms, c) = ick_now_unix_ms clk (ris_clock s);
                         (got, s) = rpc_new_event clk (s\<lparr>ris_clock := c\<rparr>)
                           (TxFetched \<lparr>fetched_hash = hash, fetched_at_unix_ms = unix_ms\<rparr>);
                         (decoded, s) = rpc_new_event clk s (TxDecoded (decoded_stub tx))
                     in (Inr [seen, got, decoded], s))"

text \<open>
  The loop over a poll. On an error the events collected so far are lost, but the
  service keeps what it has done.
\<close>

fun batch_loop ::
  "'p pending_tx_provider \<Rightarrow> 'c ingest_clock \<Rightarrow> usize \<Rightarrow> ('p, 'c) rpc_ingest_service \<Rightarrow>
   event_envelope list \<Rightarrow> (nat \<times> TxHash) list \<Rightarrow>
   (ingest_error + event_envelope list) \<times> ('p, 'c) rpc_ingest_service" where
  "batch_loop prov clk depth s events [] = (Inr events, s)"
| "batch_loop prov clk depth s events (item # rest) =
     (case poll_hash prov clk depth s item of
        (Inl err, s) \<Rightarrow> (Inl err, s)
      | (Inr es, s) \<Rightarrow> batch_loop prov clk depth s (events @ es) rest)"

definition process_pending_batch ::
  "'p pending_tx_provider \<Rightarrow> 'c ingest_clock \<Rightarrow> ('p, 'c) rpc_ingest_service \<Rightarrow>
   (ingest_error + event_envelope list) \<times> ('p, 'c) rpc_ingest_service" where
  "process_pending_batch prov clk s =
     (let (hashes, p) = ptp_pending_hashes prov (ris_provider s); s = s\<lparr>ris_provider := p\<rparr>
      in case hashes of
           Inl err \<Rightarrow> (Inl (into_rpc_connect err), s)
         | Inr hashes \<Rightarrow> batch_loop prov clk (length hashes) s [] (enumerate 0 hashes))"

section \<open>What a poll emits\<close>

definition seen_of :: "event_envelope list \<Rightarrow> TxHash list" where
  "seen_of = List.map_filter (\<lambda>e. case ee_payload e of TxSeen t \<Rightarrow> Some (seen_hash t) | _ \<Rightarrow> None)"

definition fetched_of :: "event_envelope list \<Rightarrow> TxHash list" where
  "fetched_of = List.map_filter (\<lambda>e. case ee_payload e of TxFetched t \<Rightarrow> Some (fetched_hash t) | _ \<Rightarrow> None)"

text \<open>The hashes that events of a poll answer: seen or dropped.\<close>

definition answered :: "event_envelope list \<Rightarrow> TxHash list" where
  "answered = List.map_filter (\<lambda>e. case ee_payload e of
     TxSeen t \<Rightarrow> Some (seen_hash t) | TxDropped t \<Rightarrow> Some (dropped_hash t) | _ \<Rightarrow> None)"

lemma note_simps [simp]:
  "seen_of [] = []" "fetched_of [] = []" "answered [] = []"
  "seen_of (xs @ ys) = seen_of xs @ seen_of ys"
  "fetched_of (xs @ ys) = fetched_of xs @ fetched_of ys"
  "answered (xs @ ys) = answered xs @ answered ys"
  by (simp_all add: seen_of_def fetched_of_def answered_def map_filter_concat List.map_filter_simps)

lemma note_Cons:
  "seen_of (e # es) = (case ee_payload e of TxSeen t \<Rightarrow> [seen_hash t] | _ \<Rightarrow> []) @ seen_of es"
  "fetched_of (e # es) = (case ee_payload e of TxFetched t \<Rightarrow> [fetched_hash t] | _ \<Rightarrow> []) @ fetched_of es"
  "answered (e # es) = (case ee_payload e of TxSeen t \<Rightarrow> [seen_hash t]
     | TxDropped t \<Rightarrow> [dropped_hash t] | _ \<Rightarrow> []) @ answered es"
  by (simp_all add: seen_of_def fetched_of_def answered_def List.map_filter_simps
      split: event_payload.splits)

interpretation rpc_cache: dedup_cache rpc_remember_hash ris_seen_hashes ris_seen_order
  "\<lambda>s. ric_max_seen_hashes (ris_config s)"
proof
  fix s :: "('p, 'c) rpc_ingest_service" and h
  let ?c = "(ris_seen_hashes s, ris_seen_order s)" and ?n = "ric_max_seen_hashes (ris_config s)"
  show "ric_max_seen_hashes (ris_config (snd (rpc_remember_hash s h))) = ?n"
    by (simp add: rpc_remember_hash_def split_beta Let_def)
  show "h \<in> ris_seen_hashes s \<Longrightarrow> \<not> fst (rpc_remember_hash s h) \<and>
      ris_seen_hashes (snd (rpc_remember_hash s h)) = ris_seen_hashes s \<and>
      ris_seen_order (snd (rpc_remember_hash s h)) = ris_seen_order s"
    using hash_set_cache.offer_known [of h ?c ?n]
    by (simp add: rpc_remember_hash_def split_beta Let_def)
  assume "ris_seen_hashes s = set (ris_seen_order s)" "distinct (ris_seen_order s)" "h \<notin> ris_seen_hashes s"
  then show "fst (rpc_remember_hash s h) \<and>
      ris_seen_order (snd (rpc_remember_hash s h)) = last_n ?n (ris_seen_order s @ [h]) \<and>
      ris_seen_hashes (snd (rpc_remember_hash s h)) = set (last_n ?n (ris_seen_order s @ [h]))"
    using hash_set_cache.offer_new [of ?c h ?n]
    by (simp add: rpc_remember_hash_def split_beta Let_def)
qed

text \<open>
  From \<open>s\<close> to \<open>s'\<close> the service emitted \<open>es\<close>: numbered consecutively, with the same
  configuration and the same provider.
\<close>

definition emitted ::
  "('p, 'c) rpc_ingest_service \<Rightarrow> event_envelope list \<Rightarrow> ('p, 'c) rpc_ingest_service \<Rightarrow> bool" where
  "emitted s es s' \<longleftrightarrow> consecutive (ris_next_seq_id s) es \<and>
     ris_next_seq_id s' = ris_next_seq_id s + of_nat (length es) \<and>
     ris_config s' = ris_config s \<and> ris_provider s' = ris_provider s"

lemma emitted_append: "emitted s es s' \<Longrightarrow> emitted s' fs s'' \<Longrightarrow> emitted s (es @ fs) s''"
  by (simp add: emitted_def consecutive_append)

lemma emitted_event:
  "emitted s [fst (rpc_new_event clk s payload)] (snd (rpc_new_event clk s payload))"
  by (simp add: emitted_def rpc_new_event_def split_beta Let_def)

lemma emitted_other:
  "emitted s es s' \<Longrightarrow> ris_next_seq_id t = ris_next_seq_id s \<Longrightarrow> ris_config t = ris_config s \<Longrightarrow>
    ris_provider t = ris_provider s \<Longrightarrow> emitted t es s'"
  by (simp add: emitted_def)

lemma new_event_simps [simp]:
  "ee_payload (fst (rpc_new_event clk s payload)) = payload"
  "ris_seen_hashes (snd (rpc_new_event clk s payload)) = ris_seen_hashes s"
  "ris_seen_order (snd (rpc_new_event clk s payload)) = ris_seen_order s"
  "ris_config (snd (rpc_new_event clk s payload)) = ris_config s"
  "ris_provider (snd (rpc_new_event clk s payload)) = ris_provider s"
  by (simp_all add: rpc_new_event_def split_beta Let_def)

lemma remember_simps [simp]:
  "ris_next_seq_id (snd (rpc_remember_hash s h)) = ris_next_seq_id s"
  "ris_config (snd (rpc_remember_hash s h)) = ris_config s"
  "ris_provider (snd (rpc_remember_hash s h)) = ris_provider s"
  by (simp_all add: rpc_remember_hash_def split_beta Let_def)

text \<open>
  What one hash causes when the provider answers from a table: a window \<open>acc\<close> of accepted
  hashes decides, and an accepted hash is reported seen, and fetched when it is in the table.
\<close>

definition in_table :: "('p \<times> (TxHash, raw_transaction) btree_map) \<Rightarrow> TxHash \<Rightarrow> bool" where
  "in_table p h \<longleftrightarrow> bt_get (snd p) h \<noteq> None"

lemma in_table_fun: "in_table p = (\<lambda>h. bt_get (snd p) h \<noteq> None)"
  by (rule ext) (simp add: in_table_def)

lemma holds_frame [simp]:
  "rpc_cache.holds acc (snd (rpc_new_event clk s payload)) = rpc_cache.holds acc s"
  "rpc_cache.holds acc (s\<lparr>ris_clock := c\<rparr>) = rpc_cache.holds acc s"
  "rpc_cache.holds acc (s\<lparr>ris_provider := p\<rparr>) = rpc_cache.holds acc s"
  by (simp_all add: rpc_cache.holds_def)

lemma same_provider [simp]: "ris_provider s = p \<Longrightarrow> s\<lparr>ris_provider := p\<rparr> = s"
  by auto

lemma emitted_clock: "emitted s [fst (rpc_new_event clk (s\<lparr>ris_clock := c\<rparr>) payload)]
    (snd (rpc_new_event clk (s\<lparr>ris_clock := c\<rparr>) payload))"
  by (rule emitted_other [OF emitted_event]) simp_all

lemma poll_hash_emits:
  fixes s :: "(in_memory_pending, 'c) rpc_ingest_service" and h idx
  assumes "rpc_cache.holds acc s"
  defines "n \<equiv> ric_max_seen_hashes (ris_config s)"
  defines "fits \<equiv> idx < ric_pending_batch_capacity (ris_config s)"
  shows "\<exists>es s'. poll_hash in_memory_provider clk depth s (idx, h) = (Inr es, s') \<and>
    emitted s es s' \<and> answered es = [h] \<and>
    rpc_cache.holds (acc @ seen_of es) s' \<and>
    acc @ seen_of es = (if fits then accept n acc h else acc) \<and>
    fetched_of es = filter (in_table (ris_provider s)) (seen_of es)"
proof -
  define t where "t = snd (rpc_remember_hash s h)"
  have t: "fst (rpc_remember_hash s h) \<longleftrightarrow> h \<notin> set (last_n n acc)"
      "rpc_cache.holds (accept n acc h) t" "snd (rpc_remember_hash s h) = t"
      "ris_provider t = ris_provider s" "ris_config t = ris_config s"
      "ris_next_seq_id t = ris_next_seq_id s"
    using rpc_cache.offer_holds [OF assms(1), of h] by (simp_all add: t_def n_def)
  consider (full) "\<not> fits" | (known) "fits" "h \<in> set (last_n n acc)"
    | (fresh) "fits" "h \<notin> set (last_n n acc)" by blast
  then show ?thesis
  proof cases
    case full
    then show ?thesis
      using emitted_event assms(1) by (auto simp: poll_hash_def Let_def split_beta note_Cons fits_def)
  next
    case known
    then show ?thesis
      using t by (auto simp: poll_hash_def Let_def split_beta note_Cons fits_def accept_def
          intro!: emitted_other [OF emitted_event])
  next
    case fresh
    define c where "c = snd (ick_now_mono_ns clk (snd (ick_now_unix_ms clk (ris_clock t))))"
    define seen where "seen = TxSeen \<lparr>seen_hash = h, seen_peer_id = ''rpc-provider'',
      seen_at_unix_ms = fst (ick_now_unix_ms clk (ris_clock t)),
      seen_at_mono_ns = fst (ick_now_mono_ns clk (snd (ick_now_unix_ms clk (ris_clock t))))\<rparr>"
    define u where "u = snd (rpc_new_event clk (t\<lparr>ris_clock := c\<rparr>) seen)"
    have poll: "poll_hash in_memory_provider clk depth s (idx, h) =
        (case bt_get (snd (ris_provider s)) h of
           None \<Rightarrow> (Inr [fst (rpc_new_event clk (t\<lparr>ris_clock := c\<rparr>) seen)], u)
         | Some tx \<Rightarrow>
             let (unix_ms, c') = ick_now_unix_ms clk (ris_clock u);
                 (got, u) = rpc_new_event clk (u\<lparr>ris_clock := c'\<rparr>)
                   (TxFetched \<lparr>fetched_hash = h, fetched_at_unix_ms = unix_ms\<rparr>);
                 (decoded, u) = rpc_new_event clk u (TxDecoded (decoded_stub tx))
             in (Inr [fst (rpc_new_event clk (t\<lparr>ris_clock := c\<rparr>) seen), got, decoded], u))"
      using fresh t by (simp add: poll_hash_def Let_def split_beta fits_def c_def seen_def u_def
          in_memory_provider_def split: option.splits)
    have first: "emitted s [fst (rpc_new_event clk (t\<lparr>ris_clock := c\<rparr>) seen)] u"
      unfolding u_def by (rule emitted_other [OF emitted_event]) (simp_all add: t)
    have held: "rpc_cache.holds (acc @ [h]) u" "accept n acc h = acc @ [h]" "ris_provider u = ris_provider s"
      using fresh t by (simp_all add: u_def accept_def)
    show ?thesis
    proof (cases "bt_get (snd (ris_provider s)) h")
      case None
      then show ?thesis
        using poll first held fresh by (simp add: note_Cons in_table_def) (simp add: seen_def in_table_def)
    next
      case (Some tx)
      define v where "v = rpc_new_event clk (u\<lparr>ris_clock := snd (ick_now_unix_ms clk (ris_clock u))\<rparr>)
        (TxFetched \<lparr>fetched_hash = h, fetched_at_unix_ms = fst (ick_now_unix_ms clk (ris_clock u))\<rparr>)"
      define x where "x = rpc_new_event clk (snd v) (TxDecoded (decoded_stub tx))"
      have "emitted s ([fst (rpc_new_event clk (t\<lparr>ris_clock := c\<rparr>) seen)] @ [fst v] @ [fst x]) (snd x)"
        using first emitted_clock emitted_event unfolding v_def x_def
        by (intro emitted_append) auto
      then show ?thesis
        using poll Some held fresh
        by (simp add: note_Cons in_table_def split_beta Let_def flip: v_def x_def)
          (simp add: seen_def v_def x_def in_table_def)
    qed
  qed
qed

text \<open>What a poll causes: every hash is answered once, in the order of the poll.\<close>

lemma poll_emits:
  fixes s :: "(in_memory_pending, 'c) rpc_ingest_service"
  assumes "rpc_cache.holds acc s"
  shows "\<exists>es s'. batch_loop in_memory_provider clk depth s events xs = (Inr (events @ es), s') \<and>
    emitted s es s' \<and> answered es = map snd xs \<and>
    rpc_cache.holds (acc @ seen_of es) s' \<and>
    acc @ seen_of es = foldl (accept (ric_max_seen_hashes (ris_config s))) acc
      (map snd (filter (\<lambda>(idx, h). idx < ric_pending_batch_capacity (ris_config s)) xs)) \<and>
    fetched_of es = filter (in_table (ris_provider s)) (seen_of es)"
  using assms
proof (induction xs arbitrary: s acc events)
  case Nil
  then show ?case by (intro exI [of _ "[]"] exI [of _ s]) (simp add: emitted_def)
next
  case (Cons x xs)
  obtain idx h where x: "x = (idx, h)" by force
  obtain es s' where step: "poll_hash in_memory_provider clk depth s (idx, h) = (Inr es, s')"
      "emitted s es s'" "answered es = [h]" "rpc_cache.holds (acc @ seen_of es) s'"
      "acc @ seen_of es = (if idx < ric_pending_batch_capacity (ris_config s)
        then accept (ric_max_seen_hashes (ris_config s)) acc h else acc)"
      "fetched_of es = filter (in_table (ris_provider s)) (seen_of es)"
    using poll_hash_emits [OF Cons.prems, of clk depth idx h] by blast
  have same: "ris_config s' = ris_config s" "ris_provider s' = ris_provider s"
    using step(2) by (simp_all add: emitted_def)
  obtain fs s'' where rest: "batch_loop in_memory_provider clk depth s' (events @ es) xs =
        (Inr ((events @ es) @ fs), s'')" "emitted s' fs s''" "answered fs = map snd xs"
      "rpc_cache.holds ((acc @ seen_of es) @ seen_of fs) s''"
      "(acc @ seen_of es) @ seen_of fs = foldl (accept (ric_max_seen_hashes (ris_config s'))) (acc @ seen_of es)
        (map snd (filter (\<lambda>(idx, h). idx < ric_pending_batch_capacity (ris_config s')) xs))"
      "fetched_of fs = filter (in_table (ris_provider s')) (seen_of fs)"
    using Cons.IH [OF step(4), of "events @ es"] by blast
  let ?P = "\<lambda>(idx, h). idx < ric_pending_batch_capacity (ris_config s)"
  let ?f = "accept (ric_max_seen_hashes (ris_config s))"
  have "foldl ?f acc (map snd (filter ?P (x # xs))) = foldl ?f (acc @ seen_of es) (map snd (filter ?P xs))"
    unfolding step(5) by (simp add: x)
  then have "acc @ seen_of (es @ fs) = foldl ?f acc (map snd (filter ?P (x # xs)))"
    using rest(5) unfolding same by simp
  moreover have "rpc_cache.holds (acc @ seen_of (es @ fs)) s''"
    using rest(4) by simp
  moreover have "fetched_of (es @ fs) = filter (in_table (ris_provider s)) (seen_of (es @ fs))"
    using step(6) rest(6) same by simp
  moreover have "answered (es @ fs) = map snd (x # xs)"
    using step(3) rest(3) by (simp add: x)
  moreover have "batch_loop in_memory_provider clk depth s events (x # xs) = (Inr (events @ es @ fs), s'')"
    using step(1) rest(1) by (simp add: x)
  ultimately show ?case
    using emitted_append [OF step(2) rest(2)] by blast
qed

lemma enumerate_take: "map snd (filter (\<lambda>(i, h). i < cap) (enumerate k hs)) = take (cap - k) hs"
proof (induction hs arbitrary: k)
  case (Cons h hs)
  then show ?case
    by (cases "cap - k") (auto simp: Suc_diff_Suc diff_Suc split: nat.splits)
qed simp

lemma seen_fetched_concat:
  "seen_of (concat ess) = concat (map seen_of ess)"
  "fetched_of (concat ess) = concat (map fetched_of ess)"
  by (induction ess) simp_all

lemma polls_emit:
  fixes s :: "(in_memory_pending, 'c) rpc_ingest_service"
  assumes "rpc_cache.holds acc s" and "ris_provider s = (batches, table)"
  shows "\<exists>ess. fst (map_state (\<lambda>s _. process_pending_batch in_memory_provider clk s) s batches) = map Inr ess \<and>
    map answered ess = batches \<and> consecutive (ris_next_seq_id s) (concat ess) \<and>
    acc @ seen_of (concat ess) = foldl (accept (ric_max_seen_hashes (ris_config s))) acc
      (concat (map (take (ric_pending_batch_capacity (ris_config s))) batches)) \<and>
    fetched_of (concat ess) = filter (\<lambda>h. bt_get table h \<noteq> None) (seen_of (concat ess))"
  using assms
proof (induction batches arbitrary: s acc)
  case (Cons b batches)
  let ?s = "s\<lparr>ris_provider := (batches, table)\<rparr>"
  have proc: "process_pending_batch in_memory_provider clk s =
      batch_loop in_memory_provider clk (length b) ?s [] (enumerate 0 b)"
    using Cons.prems(2) by (simp add: process_pending_batch_def in_memory_provider_def)
  have held: "rpc_cache.holds acc ?s" using Cons.prems(1) by simp
  obtain es s' where step: "batch_loop in_memory_provider clk (length b) ?s [] (enumerate 0 b) = (Inr ([] @ es), s')"
      "emitted ?s es s'" "answered es = map snd (enumerate 0 b)" "rpc_cache.holds (acc @ seen_of es) s'"
      "acc @ seen_of es = foldl (accept (ric_max_seen_hashes (ris_config ?s))) acc
        (map snd (filter (\<lambda>(idx, h). idx < ric_pending_batch_capacity (ris_config ?s)) (enumerate 0 b)))"
      "fetched_of es = filter (in_table (ris_provider ?s)) (seen_of es)"
    using poll_emits [OF held, of clk "length b" "[]" "enumerate 0 b"] by blast
  have same: "ris_config s' = ris_config s" "ris_provider s' = (batches, table)"
      "ris_next_seq_id s' = ris_next_seq_id s + of_nat (length es)" "consecutive (ris_next_seq_id s) es"
    using step(2) by (simp_all add: emitted_def)
  obtain ess where rest:
      "fst (map_state (\<lambda>s _. process_pending_batch in_memory_provider clk s) s' batches) = map Inr ess"
      "map answered ess = batches" "consecutive (ris_next_seq_id s') (concat ess)"
      "(acc @ seen_of es) @ seen_of (concat ess) = foldl (accept (ric_max_seen_hashes (ris_config s')))
        (acc @ seen_of es) (concat (map (take (ric_pending_batch_capacity (ris_config s'))) batches))"
      "fetched_of (concat ess) = filter (\<lambda>h. bt_get table h \<noteq> None) (seen_of (concat ess))"
    using Cons.IH [OF step(4) same(2)] by blast
  let ?n = "ric_max_seen_hashes (ris_config s)" and ?cap = "ric_pending_batch_capacity (ris_config s)"
  have "foldl (accept ?n) acc (concat (map (take ?cap) (b # batches))) =
      foldl (accept ?n) (acc @ seen_of es) (concat (map (take ?cap) batches))"
    using step(5) enumerate_take [of ?cap 0 b] by simp
  then have "acc @ seen_of (concat (es # ess)) =
      foldl (accept ?n) acc (concat (map (take ?cap) (b # batches)))"
    using rest(4) same(1) by simp
  moreover have "fetched_of (concat (es # ess)) = filter (\<lambda>h. bt_get table h \<noteq> None) (seen_of (concat (es # ess)))"
    using step(6) rest(5) by (simp add: in_table_fun)
  moreover have "consecutive (ris_next_seq_id s) (concat (es # ess))"
    using rest(3) same(3,4) by (simp add: consecutive_append)
  moreover have "map answered (es # ess) = b # batches"
    using step(3) rest(2) by simp
  moreover have "fst (map_state (\<lambda>s _. process_pending_batch in_memory_provider clk s) s (b # batches)) =
      map Inr (es # ess)"
    using proc step(1) rest(1) by simp
  ultimately show ?case by (intro exI [of _ "es # ess"] conjI)
qed (intro exI [of _ "[]"], simp)

section \<open>Properties\<close>


text \<open>
  A poll that fails reports where: a failed poll is a connection error and
  changes nothing but the provider, a failed fetch is an error of a hash that this poll
  accepted, and no other error is returned.
\<close>

theorem rpc_ingest_errors:
  assumes "process_pending_batch prov clk s = (Inl err, s')"
  shows "case fst (ptp_pending_hashes prov (ris_provider s)) of
      Inl e \<Rightarrow> err = into_rpc_connect e \<and> (\<exists>cause. err = RpcConnect cause) \<and>
        s' = s\<lparr>ris_provider := snd (ptp_pending_hashes prov (ris_provider s))\<rparr>
    | Inr hashes \<Rightarrow> \<exists>h \<in> set hashes. \<exists>e p. fst (ptp_fetch_transaction prov p h) = Inl e \<and>
        err = into_tx_fetch e h \<and> (\<exists>name cause. err = TxFetch name cause)"
proof -
  have connect: "\<exists>cause. into_rpc_connect e = RpcConnect cause" for e
    by (cases e) auto
  have fetch: "\<exists>name cause. into_tx_fetch e h = TxFetch name cause" for e h
    by (cases e) auto
  have one: "\<exists>e p. fst (ptp_fetch_transaction prov p h) = Inl e \<and> err = into_tx_fetch e h"
    if "poll_hash prov clk depth s (idx, h) = (Inl err, s')" for depth s idx h s'
    using that by (auto simp: poll_hash_def Let_def split_beta split: if_splits sum.splits option.splits)
  have loop: "\<exists>h \<in> snd ` set xs. \<exists>e p. fst (ptp_fetch_transaction prov p h) = Inl e \<and> err = into_tx_fetch e h"
    if "batch_loop prov clk depth s events xs = (Inl err, s')" for depth s events xs s'
    using that
  proof (induction xs arbitrary: s events)
    case (Cons x xs)
    obtain idx h where x: "x = (idx, h)" by force
    show ?case
      using Cons one [of depth s idx h] by (auto simp: x split: prod.splits sum.splits)
  qed simp
  show ?thesis
  proof (cases "fst (ptp_pending_hashes prov (ris_provider s))")
    case (Inl e)
    then show ?thesis
      using assms connect by (auto simp: process_pending_batch_def split_beta Let_def)
  next
    case (Inr hashes)
    then have "batch_loop prov clk (length hashes)
        (s\<lparr>ris_provider := snd (ptp_pending_hashes prov (ris_provider s))\<rparr>) [] (enumerate 0 hashes) = (Inl err, s')"
      using assms by (simp add: process_pending_batch_def split_beta Let_def)
    from loop [OF this] obtain h e p where "h \<in> snd ` set (enumerate 0 hashes)"
        "fst (ptp_fetch_transaction prov p h) = Inl e" "err = into_tx_fetch e h" by blast
    then have "h \<in> set hashes" using list.set_map [of snd "enumerate 0 hashes"] by simp
    then show ?thesis
      using Inr fetch \<open>fst (ptp_fetch_transaction prov p h) = Inl e\<close> \<open>err = into_tx_fetch e h\<close> by auto
  qed
qed

section \<open>Concrete runs\<close>

text \<open>A provider whose first fetch fails; its state counts the fetches.\<close>

definition failing_provider :: "TxHash \<Rightarrow> nat pending_tx_provider" where
  "failing_provider hash =
     \<lparr>ptp_pending_hashes = (\<lambda>p. (Inr [hash], p)),
      ptp_fetch_transaction = (\<lambda>p h. (if p = 0 then Inl (OtherIngest (Foreign ''offline'')) else Inr None, p + 1))\<rparr>"

definition failing_service :: "(nat, u64) rpc_ingest_service" where
  "failing_service = rpc_with_config 0 (SourceId ''rpc'') 0 default_rpc_ingest_config"

text \<open>
  The hash of a failed fetch stays remembered although its events were lost: the next
  poll reports it as a duplicate, so no event ever reports it seen.
\<close>

lemma failed_fetch_loses_hash:
  "let (first, s) = process_pending_batch (failing_provider h) (system_clock 0) failing_service;
       (second, s) = process_pending_batch (failing_provider h) (system_clock 0) s
   in first = Inl (TxFetch (format_tx_hash h) (Wrapped (OtherIngest (Foreign ''offline'')))) \<and>
      (\<exists>e. second = Inr [e] \<and> (\<exists>reason. ee_payload e = TxDropped \<lparr>dropped_hash = h, dropped_reason = reason\<rparr>))"
proof -
  define c1 where "c1 = snd (process_pending_batch (failing_provider h) (system_clock 0) failing_service)"
  have first: "fst (process_pending_batch (failing_provider h) (system_clock 0) failing_service) =
      Inl (TxFetch (format_tx_hash h) (Wrapped (OtherIngest (Foreign ''offline''))))"
    and seen: "h \<in> ris_seen_hashes c1" "ric_pending_batch_capacity (ris_config c1) = 4096"
    by (simp_all add: c1_def process_pending_batch_def failing_provider_def failing_service_def
        rpc_with_config_def default_rpc_ingest_config_def poll_hash_def rpc_remember_hash_def
        remember_hash_def split_beta Let_def)
  have "poll_hash (failing_provider h) (system_clock 0) 1 c1 (0, h) = (Inr [fst (rpc_new_event (system_clock 0)
      c1 (TxDropped \<lparr>dropped_hash = h, dropped_reason = rpc_drop_reason c1
        ''Duplicate'' ''rpc.pending_batch'' 1 4096\<rparr>))], snd (rpc_new_event (system_clock 0)
      c1 (TxDropped \<lparr>dropped_hash = h, dropped_reason = rpc_drop_reason c1
        ''Duplicate'' ''rpc.pending_batch'' 1 4096\<rparr>)))"
    using seen by (simp add: poll_hash_def rpc_remember_hash_def remember_hash_def Let_def split_beta)
  then have "\<exists>e reason. fst (process_pending_batch (failing_provider h) (system_clock 0) c1) = Inr [e] \<and>
      ee_payload e = TxDropped \<lparr>dropped_hash = h, dropped_reason = reason\<rparr>"
    by (simp add: process_pending_batch_def failing_provider_def)
  then show ?thesis
    using first by (simp add: split_beta Let_def flip: c1_def)
qed

theorem rpc_ingest_errors_witness:
  "\<exists>name cause. fst (process_pending_batch (failing_provider 7) (system_clock 0) failing_service) =
     Inl (TxFetch name cause)"
proof -
  obtain s' where run: "process_pending_batch (failing_provider 7) (system_clock 0) failing_service =
      (Inl (TxFetch (format_tx_hash 7) (Wrapped (OtherIngest (Foreign ''offline'')))), s')"
    by (simp add: process_pending_batch_def failing_provider_def failing_service_def
        rpc_with_config_def default_rpc_ingest_config_def poll_hash_def rpc_remember_hash_def
        remember_hash_def split_beta Let_def)
  show ?thesis
    using rpc_ingest_errors [OF run] run by (simp add: failing_provider_def)
qed

end
