(* ===== verification/Ingest_P2p.thy ===== *)
theory Ingest_P2p
  imports Ingest_Rpc
begin

text \<open>
  The devp2p ingest service (\<^verbatim>\<open>src/crates/ingest/src/p2p.rs\<close>), which
  \<^verbatim>\<open>src/crates/ingest/src/devp2p_runtime.rs\<close> wraps call by call: announcements with
  deduplication and a bounded fetch queue, pooled transactions, and the delays of repeated
  announcements. The index of the 99th percentile, computed in \<^verbatim>\<open>f64\<close>, is a
  parameter.
\<close>

section \<open>The service\<close>

record p2p_ingest_config =
  pic_fetch_queue_capacity :: usize
  pic_max_seen_hashes :: usize

definition default_p2p_ingest_config :: p2p_ingest_config where
  "default_p2p_ingest_config = \<lparr>pic_fetch_queue_capacity = 4096, pic_max_seen_hashes = 250000\<rparr>"

record p2p_metrics =
  pm_announcements_total :: u64
  pm_duplicates_dropped_total :: u64
  pm_queue_dropped_total :: u64
  pm_queue_depth_current :: usize
  pm_queue_depth_peak :: usize
  pm_tx_full_received_total :: u64
  pm_tx_decode_emitted_total :: u64

definition default_p2p_metrics :: p2p_metrics where
  "default_p2p_metrics =
     \<lparr>pm_announcements_total = 0, pm_duplicates_dropped_total = 0, pm_queue_dropped_total = 0,
      pm_queue_depth_current = 0, pm_queue_depth_peak = 0, pm_tx_full_received_total = 0,
      pm_tx_decode_emitted_total = 0\<rparr>"

record propagation_stats =
  pst_count :: u64
  pst_avg_delay_ms :: u32
  pst_p99_delay_ms :: u32

datatype get_pooled_transactions_request = GetPooledTransactions (gpt_peer_id: PeerId) (gpt_hashes: "TxHash list")

record p2p_tx_payload =
  ptx_hash :: TxHash
  ptx_tx_type :: u8
  ptx_sender :: Address
  ptx_nonce :: u64

record p2p_ingest_service =
  pis_config :: p2p_ingest_config
  pis_source_id :: source_id
  pis_seq_id :: u64
  pis_first_seen :: "(TxHash, i64) btree_map"
  pis_seen_order :: "TxHash list"
  pis_fetch_queue :: "get_pooled_transactions_request list"
  pis_propagation_delays_by_peer :: "(PeerId, u32 list) btree_map"
  pis_metrics :: p2p_metrics

definition new_p2p_service :: "p2p_ingest_config \<Rightarrow> source_id \<Rightarrow> p2p_ingest_service" where
  "new_p2p_service config source =
     \<lparr>pis_config = \<lparr>pic_fetch_queue_capacity = max (pic_fetch_queue_capacity config) 1,
        pic_max_seen_hashes = max (pic_max_seen_hashes config) 1\<rparr>,
      pis_source_id = source, pis_seq_id = 1, pis_first_seen = bt_empty, pis_seen_order = [],
      pis_fetch_queue = [], pis_propagation_delays_by_peer = bt_empty,
      pis_metrics = default_p2p_metrics\<rparr>"

definition p2p_drop_reason ::
  "p2p_ingest_service \<Rightarrow> string \<Rightarrow> string \<Rightarrow> PeerId \<Rightarrow> usize \<Rightarrow> string" where
  "p2p_drop_reason s reason queue_name peer_id depth_current =
     reason @ '';lane=p2p;source='' @ source_str (pis_source_id s) @ '';peer='' @ peer_id @
     '';queue='' @ queue_name @ '';depth_current='' @ dec_string depth_current @
     '';depth_peak='' @ dec_string (pm_queue_depth_peak (pis_metrics s))"

definition p2p_new_event ::
  "p2p_ingest_service \<Rightarrow> i64 \<Rightarrow> u64 \<Rightarrow> event_payload \<Rightarrow> event_envelope \<times> p2p_ingest_service" where
  "p2p_new_event s now_unix_ms now_mono_ns payload =
     (\<lparr>ee_seq_id = pis_seq_id s, ee_ingest_ts_unix_ms = now_unix_ms,
       ee_ingest_ts_mono_ns = now_mono_ns, ee_source_id = pis_source_id s, ee_payload = payload\<rparr>,
      s\<lparr>pis_seq_id := pis_seq_id s + 1\<rparr>)"

definition p2p_remember_hash :: "p2p_ingest_service \<Rightarrow> TxHash \<Rightarrow> i64 \<Rightarrow> p2p_ingest_service" where
  "p2p_remember_hash s hash now_unix_ms =
     (let (order, first_seen) = evict_oldest (\<lambda>m oldest. bt_remove oldest m)
            (pic_max_seen_hashes (pis_config s)) (pis_seen_order s @ [hash])
            (bt_insert hash now_unix_ms (pis_first_seen s))
      in s\<lparr>pis_first_seen := first_seen, pis_seen_order := order\<rparr>)"

definition announce_hash ::
  "PeerId \<Rightarrow> i64 \<Rightarrow> u64 \<Rightarrow> p2p_ingest_service \<Rightarrow> TxHash \<Rightarrow> event_envelope \<times> p2p_ingest_service" where
  "announce_hash peer_id now_unix_ms now_mono_ns s hash =
     (let depth = length (pis_fetch_queue s); m = pis_metrics s
      in case bt_get (pis_first_seen s) hash of
           Some first_seen \<Rightarrow>
             let delay = word_of_int (i64_sat (now_unix_ms - first_seen)) :: u32;
                 s = s\<lparr>pis_metrics := m\<lparr>pm_duplicates_dropped_total := pm_duplicates_dropped_total m + 1\<rparr>\<rparr>;
                 (event, s) = p2p_new_event s now_unix_ms now_mono_ns
                   (TxDropped \<lparr>dropped_hash = hash,
                      dropped_reason = p2p_drop_reason s ''Duplicate'' ''p2p.fetch'' peer_id depth\<rparr>);
                 delays = pis_propagation_delays_by_peer s
             in (event, s\<lparr>pis_propagation_delays_by_peer := bt_insert peer_id
                   ((case bt_get delays peer_id of Some ds \<Rightarrow> ds | None \<Rightarrow> []) @ [delay]) delays\<rparr>)
         | None \<Rightarrow>
             if depth \<ge> pic_fetch_queue_capacity (pis_config s) then
               let s = s\<lparr>pis_metrics := m\<lparr>pm_queue_dropped_total := pm_queue_dropped_total m + 1,
                         pm_queue_depth_current := depth\<rparr>\<rparr>
               in p2p_new_event s now_unix_ms now_mono_ns
                    (TxDropped \<lparr>dropped_hash = hash,
                       dropped_reason = p2p_drop_reason s ''QueueFull'' ''p2p.fetch'' peer_id depth\<rparr>)
             else
               let s = p2p_remember_hash s hash now_unix_ms;
                   queue = pis_fetch_queue s @ [GetPooledTransactions peer_id [hash]];
                   s = s\<lparr>pis_fetch_queue := queue,
                         pis_metrics := m\<lparr>pm_queue_depth_current := length queue,
                           pm_queue_depth_peak := max (pm_queue_depth_peak m) (length queue)\<rparr>\<rparr>
               in p2p_new_event s now_unix_ms now_mono_ns
                    (TxSeen \<lparr>seen_hash = hash, seen_peer_id = peer_id,
                       seen_at_unix_ms = now_unix_ms, seen_at_mono_ns = now_mono_ns\<rparr>))"

definition handle_new_pooled_transaction_hashes ::
  "p2p_ingest_service \<Rightarrow> PeerId \<Rightarrow> TxHash list \<Rightarrow> i64 \<Rightarrow> u64 \<Rightarrow> event_envelope list \<times> p2p_ingest_service" where
  "handle_new_pooled_transaction_hashes s peer_id hashes now_unix_ms now_mono_ns =
     (let m = pis_metrics s;
          s = s\<lparr>pis_metrics := m\<lparr>pm_announcements_total := pm_announcements_total m + of_nat (length hashes)\<rparr>\<rparr>
      in map_state (announce_hash peer_id now_unix_ms now_mono_ns) s hashes)"

definition dequeue_get_pooled_transactions ::
  "p2p_ingest_service \<Rightarrow> get_pooled_transactions_request option \<times> p2p_ingest_service" where
  "dequeue_get_pooled_transactions s =
     (let (request, queue) = (case pis_fetch_queue s of [] \<Rightarrow> (None, []) | r # rs \<Rightarrow> (Some r, rs))
      in (request, s\<lparr>pis_fetch_queue := queue,
            pis_metrics := (pis_metrics s)\<lparr>pm_queue_depth_current := length queue\<rparr>\<rparr>))"

definition pooled_decoded :: "p2p_tx_payload \<Rightarrow> tx_decoded" where
  "pooled_decoded tx =
     \<lparr>dec_hash = ptx_hash tx, dec_tx_type = ptx_tx_type tx, dec_sender = ptx_sender tx,
      dec_nonce = ptx_nonce tx, dec_chain_id = None, dec_to = None, dec_value_wei = None,
      dec_gas_limit = None, dec_gas_price_wei = None, dec_max_fee_per_gas_wei = None,
      dec_max_priority_fee_per_gas_wei = None, dec_max_fee_per_blob_gas_wei = None,
      dec_calldata_len = None\<rparr>"

definition pooled_transaction ::
  "i64 \<Rightarrow> u64 \<Rightarrow> p2p_ingest_service \<Rightarrow> p2p_tx_payload \<Rightarrow> event_envelope list \<times> p2p_ingest_service" where
  "pooled_transaction now_unix_ms now_mono_ns s tx =
     (let m = pis_metrics s;
          s = s\<lparr>pis_metrics := m\<lparr>pm_tx_full_received_total := pm_tx_full_received_total m + 1\<rparr>\<rparr>;
          (got, s) = p2p_new_event s now_unix_ms now_mono_ns
            (TxFetched \<lparr>fetched_hash = ptx_hash tx, fetched_at_unix_ms = now_unix_ms\<rparr>);
          m = pis_metrics s;
          s = s\<lparr>pis_metrics := m\<lparr>pm_tx_decode_emitted_total := pm_tx_decode_emitted_total m + 1\<rparr>\<rparr>;
          (decoded, s) = p2p_new_event s now_unix_ms now_mono_ns (TxDecoded (pooled_decoded tx))
      in ([got, decoded], s))"

definition handle_pooled_transactions ::
  "p2p_ingest_service \<Rightarrow> p2p_tx_payload list \<Rightarrow> i64 \<Rightarrow> u64 \<Rightarrow> event_envelope list \<times> p2p_ingest_service" where
  "handle_pooled_transactions s txs now_unix_ms now_mono_ns =
     (let (events, s) = map_state (pooled_transaction now_unix_ms now_mono_ns) s txs in (concat events, s))"

definition delay_stats :: "(nat \<Rightarrow> nat) \<Rightarrow> u32 list \<Rightarrow> propagation_stats" where
  "delay_stats p99_index delays =
     (let delays = sort delays
      in \<lparr>pst_count = of_nat (length delays),
          pst_avg_delay_ms = (if delays = [] then 0
            else ucast (sum_list (map ucast delays) :: u64) div of_nat (length delays)),
          pst_p99_delay_ms = (if delays = [] then 0 else delays ! p99_index (length delays))\<rparr>)"

definition propagation_stats_by_peer ::
  "(nat \<Rightarrow> nat) \<Rightarrow> p2p_ingest_service \<Rightarrow> (PeerId \<times> propagation_stats) list" where
  "propagation_stats_by_peer p99_index s =
     map (\<lambda>(peer, delays). (peer, delay_stats p99_index delays)) (bt_entries (pis_propagation_delays_by_peer s))"


section \<open>Runs\<close>

datatype p2p_op =
    Announce PeerId "TxHash list" i64 u64
  | Dequeue
  | Pooled "p2p_tx_payload list" i64 u64

text \<open>A service with the events it has emitted and the requests taken from its queue.\<close>

type_synonym p2p_log = "p2p_ingest_service \<times> event_envelope list \<times> get_pooled_transactions_request list"

fun p2p_step :: "p2p_log \<Rightarrow> p2p_op \<Rightarrow> p2p_log" where
  "p2p_step (s, events, taken) (Announce peer hashes ms ns) =
     (let (es, s) = handle_new_pooled_transaction_hashes s peer hashes ms ns in (s, events @ es, taken))"
| "p2p_step (s, events, taken) Dequeue =
     (let (r, s) = dequeue_get_pooled_transactions s
      in (s, events, taken @ (case r of None \<Rightarrow> [] | Some r \<Rightarrow> [r])))"
| "p2p_step (s, events, taken) (Pooled txs ms ns) =
     (let (es, s) = handle_pooled_transactions s txs ms ns in (s, events @ es, taken))"

definition p2p_run :: "p2p_ingest_config \<Rightarrow> source_id \<Rightarrow> p2p_op list \<Rightarrow> p2p_log" where
  "p2p_run config source ops = foldl p2p_step (new_p2p_service config source, [], []) ops"

fun announced_in :: "p2p_op \<Rightarrow> TxHash list" where
  "announced_in (Announce peer hashes ms ns) = hashes"
| "announced_in _ = []"

text \<open>The request that a seen event stands for.\<close>

definition requests_of :: "event_envelope list \<Rightarrow> get_pooled_transactions_request list" where
  "requests_of = List.map_filter (\<lambda>e. case ee_payload e of
     TxSeen t \<Rightarrow> Some (GetPooledTransactions (seen_peer_id t) [seen_hash t]) | _ \<Rightarrow> None)"

lemma requests_of_simps [simp]:
  "requests_of [] = []" "requests_of (xs @ ys) = requests_of xs @ requests_of ys"
  "requests_of [e] = (case ee_payload e of
     TxSeen t \<Rightarrow> [GetPooledTransactions (seen_peer_id t) [seen_hash t]] | _ \<Rightarrow> [])"
  by (simp_all add: requests_of_def map_filter_concat List.map_filter_simps split: event_payload.splits)

definition p2p_offer :: "i64 \<Rightarrow> p2p_ingest_service \<Rightarrow> TxHash \<Rightarrow> bool \<times> p2p_ingest_service" where
  "p2p_offer now s hash =
     (if bt_get (pis_first_seen s) hash \<noteq> None then (False, s) else (True, p2p_remember_hash s hash now))"

lemma remember_fields [simp]:
  "pis_config (p2p_remember_hash s h now) = pis_config s"
  "pis_source_id (p2p_remember_hash s h now) = pis_source_id s"
  "pis_seq_id (p2p_remember_hash s h now) = pis_seq_id s"
  "pis_fetch_queue (p2p_remember_hash s h now) = pis_fetch_queue s"
  "pis_metrics (p2p_remember_hash s h now) = pis_metrics s"
  "pis_propagation_delays_by_peer (p2p_remember_hash s h now) = pis_propagation_delays_by_peer s"
  by (simp_all add: p2p_remember_hash_def split_beta)

definition first_seen_hashes :: "p2p_ingest_service \<Rightarrow> TxHash set" where
  "first_seen_hashes s = {h. bt_get (pis_first_seen s) h \<noteq> None}"

interpretation p2p_cache: dedup_cache "p2p_offer now" first_seen_hashes
  pis_seen_order "\<lambda>s. pic_max_seen_hashes (pis_config s)"
proof
  fix s :: p2p_ingest_service and h :: TxHash
  let ?n = "pic_max_seen_hashes (pis_config s)"
  show "pic_max_seen_hashes (pis_config (snd (p2p_offer now s h))) = ?n"
    by (simp add: p2p_offer_def)
  show "h \<in> first_seen_hashes s \<Longrightarrow> \<not> fst (p2p_offer now s h) \<and>
      first_seen_hashes (snd (p2p_offer now s h)) = first_seen_hashes s \<and>
      pis_seen_order (snd (p2p_offer now s h)) = pis_seen_order s"
    by (simp add: p2p_offer_def first_seen_hashes_def)
  assume k: "first_seen_hashes s = set (pis_seen_order s)" "distinct (pis_seen_order s)"
    "h \<notin> first_seen_hashes s"
  have "{x. bt_get (bt_insert h now (pis_first_seen s)) x \<noteq> None} = set (pis_seen_order s @ [h])"
    using k(1) by (auto simp: first_seen_hashes_def)
  moreover have "distinct (pis_seen_order s @ [h])"
    using k by auto
  ultimately have "{x. bt_get (snd (evict_oldest (\<lambda>m oldest. bt_remove oldest m) ?n (pis_seen_order s @ [h])
      (bt_insert h now (pis_first_seen s)))) x \<noteq> None} = set (last_n ?n (pis_seen_order s @ [h]))"
    by (intro evict_oldest_keys [where keys = "\<lambda>m. {x. bt_get m x \<noteq> None}"]) auto
  then show "fst (p2p_offer now s h) \<and>
      pis_seen_order (snd (p2p_offer now s h)) = last_n ?n (pis_seen_order s @ [h]) \<and>
      first_seen_hashes (snd (p2p_offer now s h)) = set (last_n ?n (pis_seen_order s @ [h]))"
    using k(3) by (simp add: p2p_offer_def p2p_remember_hash_def first_seen_hashes_def split_beta
        evict_oldest_last_n)
qed

text \<open>
  What holds of a service that has emitted \<open>events\<close>, and whose queue had the requests
  \<open>taken\<close> removed from its front.
\<close>

definition p2p_ok :: "p2p_ingest_config \<Rightarrow> p2p_log \<Rightarrow> bool" where
  "p2p_ok config log =
     (let (s, events, taken) = log; m = pis_metrics s
      in pis_config s = config \<and> consecutive 1 events \<and> pis_seq_id s = 1 + of_nat (length events) \<and>
         p2p_cache.holds (seen_of events) s \<and> taken @ pis_fetch_queue s = requests_of events \<and>
         length (pis_fetch_queue s) \<le> pm_queue_depth_peak m \<and>
         pm_queue_depth_peak m \<le> pic_fetch_queue_capacity config \<and>
         of_nat (length (answered events)) = pm_duplicates_dropped_total m + pm_queue_dropped_total m +
           of_nat (length (seen_of events)))"

lemma new_event_fields [simp]:
  "snd (p2p_new_event s ms ns payload) = s\<lparr>pis_seq_id := pis_seq_id s + 1\<rparr>"
  "ee_seq_id (fst (p2p_new_event s ms ns payload)) = pis_seq_id s"
  "ee_payload (fst (p2p_new_event s ms ns payload)) = payload"
  by (simp_all add: p2p_new_event_def)

lemma p2p_holds_cong:
  "p2p_cache.holds acc s \<Longrightarrow> pis_first_seen t = pis_first_seen s \<Longrightarrow> pis_seen_order t = pis_seen_order s \<Longrightarrow>
    pis_config t = pis_config s \<Longrightarrow> p2p_cache.holds acc t"
  by (simp add: p2p_cache.holds_def first_seen_hashes_def)

text \<open>One announced hash: what is decided, and that everything above still holds.\<close>

lemma announce_decides:
  fixes peer ms ns h
  assumes "p2p_ok config (s, events, taken)"
  defines "r \<equiv> announce_hash peer ms ns s h"
    and "n \<equiv> pic_max_seen_hashes config"
  shows "p2p_ok config (snd r, events @ [fst r], taken)"
    and "answered [fst r] = [h]"
    and "seen_of [fst r] = (if h \<notin> set (last_n n (seen_of events)) \<and>
      length (pis_fetch_queue s) < pic_fetch_queue_capacity config then [h] else [])"
proof -
  have ok: "pis_config s = config" "p2p_cache.holds (seen_of events) s"
    using assms(1) by (simp_all add: p2p_ok_def Let_def)
  then have known: "bt_get (pis_first_seen s) h \<noteq> None \<longleftrightarrow> h \<in> set (last_n n (seen_of events))"
    by (auto simp: p2p_cache.holds_def first_seen_hashes_def n_def)
  consider (dup) first where "bt_get (pis_first_seen s) h = Some first"
    | (full) "bt_get (pis_first_seen s) h = None" "\<not> length (pis_fetch_queue s) < pic_fetch_queue_capacity config"
    | (fresh) "bt_get (pis_first_seen s) h = None" "length (pis_fetch_queue s) < pic_fetch_queue_capacity config"
    by (cases "bt_get (pis_first_seen s) h") auto
  note cases = this
  show "answered [fst r] = [h]" "seen_of [fst r] = (if h \<notin> set (last_n n (seen_of events)) \<and>
      length (pis_fetch_queue s) < pic_fetch_queue_capacity config then [h] else [])"
    using known ok(1) by (cases rule: cases; simp add: r_def announce_hash_def Let_def split_beta note_Cons)+
  show "p2p_ok config (snd r, events @ [fst r], taken)"
  proof (cases rule: cases)
    case (dup first)
    then show ?thesis
      using assms(1) p2p_holds_cong [OF ok(2)]
      by (simp add: p2p_ok_def r_def announce_hash_def Let_def split_beta note_Cons consecutive_append)
  next
    case full
    then show ?thesis
      using assms(1) p2p_holds_cong [OF ok(2)]
      by (simp add: p2p_ok_def r_def announce_hash_def Let_def split_beta note_Cons consecutive_append)
  next
    case fresh
    have "p2p_offer ms s h = (True, p2p_remember_hash s h ms)"
      using fresh(1) by (simp add: p2p_offer_def)
    then have "p2p_cache.holds (seen_of events @ [h]) (p2p_remember_hash s h ms)"
      using p2p_cache.offer_holds(1) [OF ok(2), of h ms] fresh(1) known ok(1) by (simp add: accept_def n_def)
    from p2p_holds_cong [OF this] show ?thesis
      using assms(1) fresh
      by (simp add: p2p_ok_def r_def announce_hash_def Let_def split_beta note_Cons consecutive_append)
  qed
qed

text \<open>
  What the feed promises, over the hashes alone: \<open>acc\<close> has been seen, and the requests of
  the first \<open>k\<close> of them have been taken. A hash is seen unless it is among the last
  \<open>n\<close> seen ones or \<open>cap\<close> requests are still waiting.
\<close>

definition feed_accept :: "usize \<Rightarrow> usize \<Rightarrow> nat \<Rightarrow> TxHash list \<Rightarrow> TxHash \<Rightarrow> TxHash list" where
  "feed_accept n cap k acc h =
     (if h \<in> set (last_n n acc) \<or> cap \<le> length acc - k then acc else acc @ [h])"

fun feed_step :: "usize \<Rightarrow> usize \<Rightarrow> TxHash list \<times> nat \<Rightarrow> p2p_op \<Rightarrow> TxHash list \<times> nat" where
  "feed_step n cap (acc, k) (Announce peer hashes ms ns) = (foldl (feed_accept n cap k) acc hashes, k)"
| "feed_step n cap (acc, k) Dequeue = (acc, min (k + 1) (length acc))"
| "feed_step n cap (acc, k) (Pooled txs ms ns) = (acc, k)"

lemma length_requests: "length (requests_of events) = length (seen_of events)"
  by (induction events) (auto simp: note_Cons requests_of_def List.map_filter_simps split: event_payload.splits)

lemma queue_length:
  "p2p_ok config (s, events, taken) \<Longrightarrow>
    length (pis_fetch_queue s) = length (seen_of events) - length taken \<and>
    length taken \<le> length (seen_of events)"
  using length_requests [of events]
  by (auto simp: p2p_ok_def Let_def dest!: arg_cong [where f = length])

text \<open>A batch of announcements answers every hash once, in order.\<close>

lemma announce_batch:
  fixes peer ms ns hashes
  assumes "p2p_ok config (s, events, taken)"
  defines "r \<equiv> map_state (announce_hash peer ms ns) s hashes"
  shows "p2p_ok config (snd r, events @ fst r, taken) \<and> answered (fst r) = hashes \<and>
    seen_of events @ seen_of (fst r) = foldl (feed_accept (pic_max_seen_hashes config)
      (pic_fetch_queue_capacity config) (length taken)) (seen_of events) hashes \<and>
    pm_announcements_total (pis_metrics (snd r)) = pm_announcements_total (pis_metrics s)"
  using assms(1) unfolding r_def
proof (induction hashes arbitrary: s events)
  case (Cons h hashes)
  let ?r = "announce_hash peer ms ns s h"
  let ?t = "map_state (announce_hash peer ms ns) (snd ?r) hashes"
  note step = announce_decides [OF Cons.prems, of peer ms ns h]
  have total: "pm_announcements_total (pis_metrics (snd ?r)) = pm_announcements_total (pis_metrics s)"
    by (simp add: announce_hash_def Let_def split_beta split: option.splits)
  have accepted: "seen_of events @ seen_of [fst ?r] = feed_accept (pic_max_seen_hashes config)
      (pic_fetch_queue_capacity config) (length taken) (seen_of events) h"
    using step(3) queue_length [OF Cons.prems] by (simp add: feed_accept_def)
  have cons: "answered (fst ?r # fst ?t) = answered [fst ?r] @ answered (fst ?t)"
    "seen_of (fst ?r # fst ?t) = seen_of [fst ?r] @ seen_of (fst ?t)"
    using note_simps by (metis append_Cons append_Nil)+
  have result: "map_state (announce_hash peer ms ns) s (h # hashes) = (fst ?r # fst ?t, snd ?t)"
    by (rule prod_eqI) simp_all
  let ?n = "pic_max_seen_hashes config" and ?cap = "pic_fetch_queue_capacity config"
  have IH: "p2p_ok config (snd ?t, (events @ [fst ?r]) @ fst ?t, taken)" "answered (fst ?t) = hashes"
    "seen_of (events @ [fst ?r]) @ seen_of (fst ?t) =
      foldl (feed_accept ?n ?cap (length taken)) (seen_of (events @ [fst ?r])) hashes"
    "pm_announcements_total (pis_metrics (snd ?t)) = pm_announcements_total (pis_metrics (snd ?r))"
    using Cons.IH [OF step(1)] by blast+
  have "p2p_ok config (snd ?t, events @ fst ?r # fst ?t, taken)"
    using IH(1) by simp
  moreover have "answered (fst ?r # fst ?t) = h # hashes"
    unfolding cons step(2) IH(2) by simp
  moreover have "seen_of events @ seen_of (fst ?r # fst ?t) =
      foldl (feed_accept ?n ?cap (length taken)) (seen_of events) (h # hashes)"
    using IH(3) unfolding cons foldl_Cons accepted [symmetric] note_simps append_assoc .
  ultimately show ?case
    unfolding result fst_conv snd_conv using IH(4) total by presburger
qed simp

text \<open>A pooled transaction is two further events: nothing is announced, seen or queued by it.\<close>

lemma pooled_transaction_ok:
  fixes ms ns tx
  assumes "p2p_ok config (s, events, taken)"
  defines "r \<equiv> pooled_transaction ms ns s tx"
  shows "p2p_ok config (snd r, events @ fst r, taken)" and "answered (fst r) = []"
    and "pm_announcements_total (pis_metrics (snd r)) = pm_announcements_total (pis_metrics s)"
proof -
  obtain e f where r: "fst r = [e, f]" "ee_seq_id e = pis_seq_id s" "ee_seq_id f = pis_seq_id s + 1"
    "\<exists>t. ee_payload e = TxFetched t" "\<exists>t. ee_payload f = TxDecoded t"
    by (simp add: r_def pooled_transaction_def Let_def split_beta)
  have split: "events @ fst r = (events @ [e]) @ [f]"
    by (simp add: r(1))
  have silent: "answered [e] = []" "answered [f] = []" "seen_of [e] = []" "seen_of [f] = []"
    "requests_of [e] = []" "requests_of [f] = []"
    using r(4,5) by (auto simp: note_Cons)
  show "answered (fst r) = []"
    using r(1,4,5) by (auto simp: note_Cons)
  show "pm_announcements_total (pis_metrics (snd r)) = pm_announcements_total (pis_metrics s)"
    by (simp add: r_def pooled_transaction_def Let_def split_beta)
  have holds: "p2p_cache.holds (seen_of events) (snd r)"
    by (rule p2p_holds_cong [of "seen_of events" s])
      (use assms(1) in \<open>simp_all add: p2p_ok_def r_def pooled_transaction_def Let_def split_beta\<close>)
  have unchanged: "pis_config (snd r) = pis_config s" "pis_seq_id (snd r) = pis_seq_id s + 1 + 1"
    "pis_fetch_queue (snd r) = pis_fetch_queue s"
    "pm_queue_depth_peak (pis_metrics (snd r)) = pm_queue_depth_peak (pis_metrics s)"
    "pm_duplicates_dropped_total (pis_metrics (snd r)) = pm_duplicates_dropped_total (pis_metrics s)"
    "pm_queue_dropped_total (pis_metrics (snd r)) = pm_queue_dropped_total (pis_metrics s)"
    by (simp_all add: r_def pooled_transaction_def Let_def split_beta)
  show "p2p_ok config (snd r, events @ fst r, taken)"
    using assms(1) holds r(2,3) unfolding split
    by (simp add: p2p_ok_def Let_def unchanged silent consecutive_append del: append_assoc requests_of_simps(3))
qed

lemma pooled_batch:
  assumes "p2p_ok config (s, events, taken)"
  shows "p2p_ok config (snd (handle_pooled_transactions s txs ms ns),
      events @ fst (handle_pooled_transactions s txs ms ns), taken) \<and>
    answered (fst (handle_pooled_transactions s txs ms ns)) = [] \<and>
    pm_announcements_total (pis_metrics (snd (handle_pooled_transactions s txs ms ns))) =
      pm_announcements_total (pis_metrics s)"
  using assms
proof (induction txs arbitrary: s events)
  case (Cons tx txs)
  note step = pooled_transaction_ok [OF Cons.prems, of ms ns tx]
  show ?case
    using Cons.IH [OF step(1)] step(2,3) by (simp add: handle_pooled_transactions_def split_beta)
qed (simp add: handle_pooled_transactions_def)

lemma dequeue_ok:
  assumes "p2p_ok config (s, events, taken)"
  defines "r \<equiv> dequeue_get_pooled_transactions s"
  defines "taken' \<equiv> taken @ (case fst r of None \<Rightarrow> [] | Some x \<Rightarrow> [x])"
  shows "p2p_ok config (snd r, events, taken')" and "length taken' = min (length taken + 1) (length (seen_of events))"
    and "pm_announcements_total (pis_metrics (snd r)) = pm_announcements_total (pis_metrics s)"
proof -
  have holds: "p2p_cache.holds (seen_of events) (snd r)"
    by (rule p2p_holds_cong [of "seen_of events" s])
      (use assms(1) in \<open>simp_all add: p2p_ok_def r_def dequeue_get_pooled_transactions_def Let_def split_beta\<close>)
  show "p2p_ok config (snd r, events, taken')"
    using assms(1) holds
    by (cases "pis_fetch_queue s")
      (auto simp: p2p_ok_def r_def taken'_def dequeue_get_pooled_transactions_def Let_def)
  show "length taken' = min (length taken + 1) (length (seen_of events))"
    using queue_length [OF assms(1)]
    by (cases "pis_fetch_queue s") (auto simp: r_def taken'_def dequeue_get_pooled_transactions_def)
  show "pm_announcements_total (pis_metrics (snd r)) = pm_announcements_total (pis_metrics s)"
    by (simp add: r_def dequeue_get_pooled_transactions_def Let_def split_beta)
qed

lemma p2p_ok_announcements:
  "p2p_ok config (s\<lparr>pis_metrics := (pis_metrics s)\<lparr>pm_announcements_total := n\<rparr>\<rparr>, events, taken) =
    p2p_ok config (s, events, taken)"
  by (auto simp: p2p_ok_def Let_def elim!: p2p_holds_cong)

lemma answered_seen: "answered es = [] \<Longrightarrow> seen_of es = []"
  by (induction es) (auto simp: note_Cons split: event_payload.splits)

text \<open>One operation keeps what holds, and follows the promise.\<close>

definition p2p_simulates :: "p2p_ingest_config \<Rightarrow> TxHash list \<Rightarrow> p2p_log \<Rightarrow> TxHash list \<times> nat \<Rightarrow> bool" where
  "p2p_simulates config announced log feed =
     (let (s, events, taken) = log
      in p2p_ok config log \<and> (seen_of events, length taken) = feed \<and> answered events = announced \<and>
         pm_announcements_total (pis_metrics s) = of_nat (length announced))"

lemma p2p_step_simulates:
  assumes "p2p_simulates config announced log feed"
  shows "p2p_simulates config (announced @ announced_in x) (p2p_step log x)
    (feed_step (pic_max_seen_hashes config) (pic_fetch_queue_capacity config) feed x)"
proof -
  obtain s events taken where log: "log = (s, events, taken)"
    by (cases log)
  have ok: "p2p_ok config (s, events, taken)" and feed: "feed = (seen_of events, length taken)"
    and answered: "answered events = announced"
    and total: "pm_announcements_total (pis_metrics s) = of_nat (length announced)"
    using assms by (auto simp: p2p_simulates_def log)
  show ?thesis
  proof (cases x)
    case (Announce peer hashes ms ns)
    let ?s = "s\<lparr>pis_metrics := (pis_metrics s)\<lparr>pm_announcements_total :=
      pm_announcements_total (pis_metrics s) + of_nat (length hashes)\<rparr>\<rparr>"
    have "p2p_ok config (?s, events, taken)"
      using ok by (simp only: p2p_ok_announcements)
    from announce_batch [OF this, of peer ms ns hashes] show ?thesis
      using answered total
      by (simp add: Announce log feed p2p_simulates_def handle_new_pooled_transaction_hashes_def
          Let_def split_beta)
  next
    case Dequeue
    then show ?thesis
      using dequeue_ok [OF ok] answered total by (simp add: log feed p2p_simulates_def split_beta)
  next
    case (Pooled txs ms ns)
    have quiet: "seen_of (fst (handle_pooled_transactions s txs ms ns)) = []"
      using pooled_batch [OF ok, of txs ms ns] answered_seen by metis
    show ?thesis
      using pooled_batch [OF ok, of txs ms ns] answered total quiet
      by (simp add: Pooled log feed p2p_simulates_def split_beta)
  qed
qed

lemma p2p_run_simulates:
  assumes "p2p_simulates config announced log feed"
  shows "p2p_simulates config (announced @ concat (map announced_in ops)) (foldl p2p_step log ops)
    (foldl (feed_step (pic_max_seen_hashes config) (pic_fetch_queue_capacity config)) feed ops)"
  using assms
proof (induction ops arbitrary: announced log feed)
  case (Cons x ops)
  from Cons.IH [OF p2p_step_simulates [OF Cons.prems, of x]] show ?case
    by simp
qed simp

lemma p2p_starts:
  "p2p_simulates \<lparr>pic_fetch_queue_capacity = max (pic_fetch_queue_capacity config) 1,
      pic_max_seen_hashes = max (pic_max_seen_hashes config) 1\<rparr> []
    (new_p2p_service config source, [], []) ([], 0)"
  by (simp add: p2p_simulates_def p2p_ok_def Let_def new_p2p_service_def default_p2p_metrics_def
      p2p_cache.holds_def first_seen_hashes_def last_n_def)

section \<open>Properties\<close>

text \<open>
  Property C34. However announcements, fetches and pooled transactions interleave, the peer-to-peer
  service does what the feed promises over the hashes alone. Every announced hash is answered by
  one event, in order, and is seen just when it is neither among the remembered ones nor
  announced while the queue is full; every seen hash gets one fetch request, and requests
  leave in the order in which their hashes were seen; the queue never exceeds its recorded
  peak, which never exceeds the capacity; events are numbered from 1 without a gap; and the counters
  account for every announcement.
\<close>

theorem p2p_feed_exact:
  "let n = max (pic_max_seen_hashes config) 1; cap = max (pic_fetch_queue_capacity config) 1;
       (s, events, taken) = p2p_run config source ops; m = pis_metrics s;
       (seen, k) = foldl (feed_step n cap) ([], 0) ops
   in answered events = concat (map announced_in ops) \<and> seen_of events = seen \<and>
      taken @ pis_fetch_queue s = requests_of events \<and> length taken = k \<and>
      length (pis_fetch_queue s) \<le> pm_queue_depth_peak m \<and> pm_queue_depth_peak m \<le> cap \<and>
      consecutive 1 events \<and>
      pm_announcements_total m = pm_duplicates_dropped_total m + pm_queue_dropped_total m +
        of_nat (length seen)"
proof -
  let ?config = "\<lparr>pic_fetch_queue_capacity = max (pic_fetch_queue_capacity config) 1,
    pic_max_seen_hashes = max (pic_max_seen_hashes config) 1\<rparr>"
  have "p2p_simulates ?config (concat (map announced_in ops)) (p2p_run config source ops)
      (foldl (feed_step (pic_max_seen_hashes ?config) (pic_fetch_queue_capacity ?config)) ([], 0) ops)"
    using p2p_run_simulates [OF p2p_starts [of config source], of ops] by (simp add: p2p_run_def)
  then show ?thesis
    by (auto simp: p2p_simulates_def p2p_ok_def Let_def split: prod.splits)
qed

text \<open>
  The sum of the delays is truncated to 32 bits before it is divided: two delays of \<open>2 ^ 31\<close>
  milliseconds are reported as an average of 0.
\<close>

lemma average_delay_truncated:
  "pst_avg_delay_ms (delay_stats (\<lambda>_. 0) [2147483648, 2147483648]) = 0"
  by (simp add: delay_stats_def Let_def)

text \<open>
  A repeated announcement stamped by a clock that has stepped back counts as a delay of almost
  50 days.
\<close>

lemma earlier_clock_delay:
  "let s = snd (handle_new_pooled_transaction_hashes
         (new_p2p_service default_p2p_ingest_config source) peer [h] 1000 0);
       s = snd (handle_new_pooled_transaction_hashes s peer [h] 999 0)
   in bt_get (pis_propagation_delays_by_peer s) peer = Some [4294967295]"
proof -
  let ?s = "snd (handle_new_pooled_transaction_hashes
    (new_p2p_service default_p2p_ingest_config source) peer [h] 1000 0)"
  have seen: "bt_get (pis_first_seen ?s) h = Some 1000" "pis_propagation_delays_by_peer ?s = bt_empty"
    by (simp_all add: handle_new_pooled_transaction_hashes_def announce_hash_def Let_def split_beta
        new_p2p_service_def default_p2p_ingest_config_def default_p2p_metrics_def p2p_remember_hash_def
        evict_oldest.simps)
  have "bt_get (pis_propagation_delays_by_peer
      (snd (handle_new_pooled_transaction_hashes ?s peer [h] 999 0))) peer = Some [4294967295]"
    unfolding handle_new_pooled_transaction_hashes_def [of ?s]
    by (simp add: announce_hash_def Let_def split_beta seen i64_sat_def i64_min_def i64_max_def)
  then show ?thesis
    by (simp add: Let_def)
qed

end
