(* ===== verification/Runtime_State.thy ===== *)
theory Runtime_State
  imports Storage Builder_Assembly "HOL-Library.Product_Lexorder"
begin

text \<open>
  The shared state of the crate \<^verbatim>\<open>runtime-core\<close>
  (\<^verbatim>\<open>src/crates/runtime-core/src/lib.rs\<close>): the counters of the live pipeline,
  the latest simulation statuses, the health of the chains, and the cache of account seeds.
  Every operation holds one lock, so that it is a function on the state; clock readings are
  arguments.
\<close>

section \<open>Data\<close>

datatype runtime_ingest_mode = RpcMode | P2pMode | HybridMode

fun mode_str :: "runtime_ingest_mode \<Rightarrow> string" where
  "mode_str RpcMode = ''rpc''"
| "mode_str P2pMode = ''p2p''"
| "mode_str HybridMode = ''hybrid''"

datatype live_rpc_drop_reason = StorageQueueFull | StorageQueueClosed | InvalidPendingHash

fun drop_label :: "live_rpc_drop_reason \<Rightarrow> string" where
  "drop_label StorageQueueFull = ''storage_queue_full''"
| "drop_label StorageQueueClosed = ''storage_queue_closed''"
| "drop_label InvalidPendingHash = ''invalid_pending_hash''"

record drop_metrics =
  drm_storage_queue_full :: u64
  drm_storage_queue_closed :: u64
  drm_invalid_pending_hash :: u64

record searcher_metrics =
  srm_executable_batches_total :: u64
  srm_executable_candidates_total :: u64
  srm_executable_bundle_candidates_total :: u64
  srm_max_executable_candidates_in_batch :: u64
  srm_comparison_batches_total :: u64
  srm_executable_top_score_total :: u64
  srm_executable_top_score_wins_total :: u64
  srm_top_score_ties_total :: u64
  srm_overlapping_candidates_total :: u64
  srm_executable_only_candidates_total :: u64

record simulation_metrics =
  slm_enqueued_total :: u64
  slm_completed_total :: u64
  slm_ok_total :: u64
  slm_failed_total :: u64
  slm_state_error_total :: u64
  slm_timeout_total :: u64
  slm_queue_full_drop_total :: u64
  slm_stale_drop_total :: u64
  slm_queue_depth :: u64
  slm_queue_capacity :: u64
  slm_inflight_current :: u64
  slm_worker_total :: u64
  slm_cache_hit_total :: u64
  slm_cache_miss_total :: u64
  slm_tx_total :: u64
  slm_last_latency_ms :: u64
  slm_max_latency_ms :: u64
  slm_total_latency_ms :: u64
  slm_revert_fail_total :: u64
  slm_out_of_gas_fail_total :: u64
  slm_nonce_mismatch_fail_total :: u64
  slm_state_mismatch_fail_total :: u64
  slm_unknown_fail_total :: u64
  slm_state_rpc_fail_total :: u64
  slm_state_timeout_fail_total :: u64

record simulation_status_snapshot =
  sss_id :: string
  sss_bundle_id :: string
  sss_status :: string
  sss_relay_url :: string
  sss_attempt_count :: usize
  sss_accepted :: bool
  sss_fail_category :: "string option"
  sss_started_unix_ms :: i64
  sss_finished_unix_ms :: i64

record live_rpc_chain_status =
  lcs_chain_key :: string
  lcs_chain_id :: "u64 option"
  lcs_source_id :: string
  lcs_state :: string
  lcs_endpoint_index :: usize
  lcs_endpoint_count :: usize
  lcs_ws_url :: string
  lcs_http_url :: string
  lcs_last_pending_unix_ms :: "i64 option"
  lcs_silent_for_ms :: "u64 option"
  lcs_updated_unix_ms :: i64
  lcs_last_error :: "string option"
  lcs_rotation_count :: u64

record runtime_core_config =
  rcc_ingest_mode :: runtime_ingest_mode
  rcc_rebuild_scheduler_from_rpc :: bool

record cached_account_seed =
  cas_seed :: account_seed
  cas_block_number :: u64
  cas_cached_at_unix_ms :: i64

record simulation_status_store =
  sss_latest :: "simulation_status_snapshot option"
  sss_by_id :: "(string, simulation_status_snapshot) btree_map"

text \<open>
  The storage, its writer and the scheduler that the runtime shares are states of their own
  components.
\<close>

record runtime_core =
  rc_config :: runtime_core_config
  rc_builder_engine :: assembly_engine
  rc_drop_metrics :: drop_metrics
  rc_searcher_metrics :: searcher_metrics
  rc_simulation_metrics :: simulation_metrics
  rc_simulation_status :: simulation_status_store
  rc_chain_status :: "(string, live_rpc_chain_status) btree_map"
  rc_account_seeds :: "(string \<times> Address, cached_account_seed) btree_map"
  rc_live_rpc_feed_start_count :: u64

definition default_drop_metrics :: drop_metrics where
  "default_drop_metrics = \<lparr>drm_storage_queue_full = 0, drm_storage_queue_closed = 0,
     drm_invalid_pending_hash = 0\<rparr>"

definition default_searcher_metrics :: searcher_metrics where
  "default_searcher_metrics =
     \<lparr>srm_executable_batches_total = 0, srm_executable_candidates_total = 0,
      srm_executable_bundle_candidates_total = 0, srm_max_executable_candidates_in_batch = 0,
      srm_comparison_batches_total = 0, srm_executable_top_score_total = 0,
      srm_executable_top_score_wins_total = 0, srm_top_score_ties_total = 0,
      srm_overlapping_candidates_total = 0, srm_executable_only_candidates_total = 0\<rparr>"

definition default_simulation_metrics :: simulation_metrics where
  "default_simulation_metrics =
     \<lparr>slm_enqueued_total = 0, slm_completed_total = 0, slm_ok_total = 0, slm_failed_total = 0,
      slm_state_error_total = 0, slm_timeout_total = 0, slm_queue_full_drop_total = 0,
      slm_stale_drop_total = 0, slm_queue_depth = 0, slm_queue_capacity = 0,
      slm_inflight_current = 0, slm_worker_total = 0, slm_cache_hit_total = 0,
      slm_cache_miss_total = 0, slm_tx_total = 0, slm_last_latency_ms = 0,
      slm_max_latency_ms = 0, slm_total_latency_ms = 0, slm_revert_fail_total = 0,
      slm_out_of_gas_fail_total = 0, slm_nonce_mismatch_fail_total = 0,
      slm_state_mismatch_fail_total = 0, slm_unknown_fail_total = 0,
      slm_state_rpc_fail_total = 0, slm_state_timeout_fail_total = 0\<rparr>"

definition start_runtime_core :: "runtime_core_config \<Rightarrow> runtime_core" where
  "start_runtime_core config =
     \<lparr>rc_config = config, rc_builder_engine = new_assembly_engine default_assembly_config,
      rc_drop_metrics = default_drop_metrics, rc_searcher_metrics = default_searcher_metrics,
      rc_simulation_metrics = default_simulation_metrics,
      rc_simulation_status = \<lparr>sss_latest = None, sss_by_id = bt_empty\<rparr>,
      rc_chain_status = bt_empty, rc_account_seeds = bt_empty, rc_live_rpc_feed_start_count = 0\<rparr>"

section \<open>Counters\<close>

definition reset_drop_metrics :: "runtime_core \<Rightarrow> runtime_core" where
  "reset_drop_metrics rc = rc\<lparr>rc_drop_metrics := default_drop_metrics\<rparr>"

definition observe_drop_reason :: "live_rpc_drop_reason \<Rightarrow> runtime_core \<Rightarrow> runtime_core" where
  "observe_drop_reason reason rc =
     (let m = rc_drop_metrics rc
      in rc\<lparr>rc_drop_metrics :=
           (case reason of
              StorageQueueFull \<Rightarrow> m\<lparr>drm_storage_queue_full := sat_add (drm_storage_queue_full m) 1\<rparr>
            | StorageQueueClosed \<Rightarrow> m\<lparr>drm_storage_queue_closed := sat_add (drm_storage_queue_closed m) 1\<rparr>
            | InvalidPendingHash \<Rightarrow> m\<lparr>drm_invalid_pending_hash := sat_add (drm_invalid_pending_hash m) 1\<rparr>)\<rparr>)"

definition observe_searcher_batch :: "opportunity_record list \<Rightarrow> runtime_core \<Rightarrow> runtime_core" where
  "observe_searcher_batch executable rc =
     (let m = rc_searcher_metrics rc;
          executable_count = of_nat (length executable);
          bundles = of_nat (length (filter (\<lambda>c. opr_strategy c = ''BundleCandidate'') executable));
          top = (case executable of [] \<Rightarrow> 0 | c # _ \<Rightarrow> ucast (opr_score c))
      in rc\<lparr>rc_searcher_metrics := m
           \<lparr>srm_executable_batches_total := sat_add (srm_executable_batches_total m) 1,
            srm_executable_candidates_total := sat_add (srm_executable_candidates_total m) executable_count,
            srm_executable_bundle_candidates_total :=
              sat_add (srm_executable_bundle_candidates_total m) bundles,
            srm_max_executable_candidates_in_batch :=
              max (srm_max_executable_candidates_in_batch m) executable_count,
            srm_executable_top_score_total := sat_add (srm_executable_top_score_total m) top,
            srm_executable_only_candidates_total :=
              sat_add (srm_executable_only_candidates_total m) executable_count\<rparr>\<rparr>)"

definition on_simulation_metrics ::
  "(simulation_metrics \<Rightarrow> simulation_metrics) \<Rightarrow> runtime_core \<Rightarrow> runtime_core" where
  "on_simulation_metrics f rc = rc\<lparr>rc_simulation_metrics := f (rc_simulation_metrics rc)\<rparr>"

definition configure_simulation_queue :: "usize \<Rightarrow> usize \<Rightarrow> simulation_metrics \<Rightarrow> simulation_metrics" where
  "configure_simulation_queue queue_capacity worker_total m =
     m\<lparr>slm_queue_capacity := of_nat queue_capacity, slm_worker_total := of_nat worker_total\<rparr>"

definition observe_simulation_enqueue :: "simulation_metrics \<Rightarrow> simulation_metrics" where
  "observe_simulation_enqueue m =
     m\<lparr>slm_enqueued_total := sat_add (slm_enqueued_total m) 1,
       slm_queue_depth := sat_add (slm_queue_depth m) 1\<rparr>"

definition observe_simulation_dequeue :: "simulation_metrics \<Rightarrow> simulation_metrics" where
  "observe_simulation_dequeue m =
     m\<lparr>slm_queue_depth := sat_sub (slm_queue_depth m) 1,
       slm_inflight_current := sat_add (slm_inflight_current m) 1\<rparr>"

definition observe_simulation_finish :: "simulation_metrics \<Rightarrow> simulation_metrics" where
  "observe_simulation_finish m = m\<lparr>slm_inflight_current := sat_sub (slm_inflight_current m) 1\<rparr>"

definition observe_simulation_queue_full_drop :: "simulation_metrics \<Rightarrow> simulation_metrics" where
  "observe_simulation_queue_full_drop m =
     m\<lparr>slm_queue_full_drop_total := sat_add (slm_queue_full_drop_total m) 1\<rparr>"

definition observe_simulation_stale_drop :: "simulation_metrics \<Rightarrow> simulation_metrics" where
  "observe_simulation_stale_drop m = m\<lparr>slm_stale_drop_total := sat_add (slm_stale_drop_total m) 1\<rparr>"

definition observe_simulation_cache_hit :: "simulation_metrics \<Rightarrow> simulation_metrics" where
  "observe_simulation_cache_hit m = m\<lparr>slm_cache_hit_total := sat_add (slm_cache_hit_total m) 1\<rparr>"

definition observe_simulation_cache_miss :: "simulation_metrics \<Rightarrow> simulation_metrics" where
  "observe_simulation_cache_miss m = m\<lparr>slm_cache_miss_total := sat_add (slm_cache_miss_total m) 1\<rparr>"

definition count_status :: "string \<Rightarrow> simulation_metrics \<Rightarrow> simulation_metrics" where
  "count_status status m =
     (if status = ''ok'' then m\<lparr>slm_ok_total := sat_add (slm_ok_total m) 1\<rparr>
      else if status = ''failed'' then m\<lparr>slm_failed_total := sat_add (slm_failed_total m) 1\<rparr>
      else if status = ''state_error'' then m\<lparr>slm_state_error_total := sat_add (slm_state_error_total m) 1\<rparr>
      else if status = ''timeout'' then m\<lparr>slm_timeout_total := sat_add (slm_timeout_total m) 1\<rparr>
      else m)"

definition count_category :: "string \<Rightarrow> simulation_metrics \<Rightarrow> simulation_metrics" where
  "count_category category m =
     (if category = ''revert'' then m\<lparr>slm_revert_fail_total := sat_add (slm_revert_fail_total m) 1\<rparr>
      else if category = ''out_of_gas'' then
        m\<lparr>slm_out_of_gas_fail_total := sat_add (slm_out_of_gas_fail_total m) 1\<rparr>
      else if category = ''nonce_mismatch'' then
        m\<lparr>slm_nonce_mismatch_fail_total := sat_add (slm_nonce_mismatch_fail_total m) 1\<rparr>
      else if category = ''state_mismatch'' then
        m\<lparr>slm_state_mismatch_fail_total := sat_add (slm_state_mismatch_fail_total m) 1\<rparr>
      else if category = ''state_rpc'' then
        m\<lparr>slm_state_rpc_fail_total := sat_add (slm_state_rpc_fail_total m) 1\<rparr>
      else if category = ''state_timeout'' then
        m\<lparr>slm_state_timeout_fail_total := sat_add (slm_state_timeout_fail_total m) 1\<rparr>
      else m\<lparr>slm_unknown_fail_total := sat_add (slm_unknown_fail_total m) 1\<rparr>)"

definition observe_simulation_result ::
  "string \<Rightarrow> u64 \<Rightarrow> usize \<Rightarrow> string option \<Rightarrow> simulation_metrics \<Rightarrow> simulation_metrics" where
  "observe_simulation_result status latency_ms tx_count fail_category m =
     (let m = m\<lparr>slm_completed_total := sat_add (slm_completed_total m) 1,
                slm_tx_total := sat_add (slm_tx_total m) (of_nat tx_count),
                slm_last_latency_ms := latency_ms,
                slm_max_latency_ms := max (slm_max_latency_ms m) latency_ms,
                slm_total_latency_ms := sat_add (slm_total_latency_ms m) latency_ms\<rparr>;
          m = count_status status m
      in case fail_category of None \<Rightarrow> m | Some category \<Rightarrow> count_category category m)"

section \<open>Statuses, seeds and chains\<close>

definition record_simulation_status :: "simulation_status_snapshot \<Rightarrow> runtime_core \<Rightarrow> runtime_core" where
  "record_simulation_status snapshot rc =
     (let store = rc_simulation_status rc
      in rc\<lparr>rc_simulation_status := store
           \<lparr>sss_latest := Some snapshot, sss_by_id := bt_insert (sss_id snapshot) snapshot (sss_by_id store)\<rparr>\<rparr>)"

definition simulation_status :: "runtime_core \<Rightarrow> string \<Rightarrow> simulation_status_snapshot option" where
  "simulation_status rc sim_id =
     (let store = rc_simulation_status rc
      in if sim_id = ''latest'' then sss_latest store else bt_get (sss_by_id store) sim_id)"

definition cached_account_seed_of ::
  "runtime_core \<Rightarrow> string \<Rightarrow> Address \<Rightarrow> u64 \<Rightarrow> i64 \<Rightarrow> i64 \<Rightarrow> account_seed option" where
  "cached_account_seed_of rc http_url address block_number now_unix_ms ttl_ms =
     (case bt_get (rc_account_seeds rc) (http_url, address) of
        None \<Rightarrow> None
      | Some entry \<Rightarrow>
          if cas_block_number entry \<noteq> block_number then None
          else if i64_sat (now_unix_ms - cas_cached_at_unix_ms entry) > ttl_ms then None
          else Some (cas_seed entry))"

definition cache_account_seed ::
  "string \<Rightarrow> Address \<Rightarrow> u64 \<Rightarrow> i64 \<Rightarrow> account_seed \<Rightarrow> runtime_core \<Rightarrow> runtime_core" where
  "cache_account_seed http_url address block_number cached_at_unix_ms seed rc =
     rc\<lparr>rc_account_seeds := bt_insert (http_url, address)
          \<lparr>cas_seed = seed, cas_block_number = block_number, cas_cached_at_unix_ms = cached_at_unix_ms\<rparr>
          (rc_account_seeds rc)\<rparr>"

definition reset_chain_status :: "runtime_core \<Rightarrow> runtime_core" where
  "reset_chain_status rc = rc\<lparr>rc_chain_status := bt_empty\<rparr>"

definition upsert_chain_status :: "live_rpc_chain_status \<Rightarrow> runtime_core \<Rightarrow> runtime_core" where
  "upsert_chain_status status rc =
     rc\<lparr>rc_chain_status := bt_insert (lcs_chain_key status) status (rc_chain_status rc)\<rparr>"

text \<open>The conversion of a negative elapsed time fails.\<close>

definition chain_status :: "i64 \<Rightarrow> runtime_core \<Rightarrow> live_rpc_chain_status list" where
  "chain_status now_unix_ms rc =
     map (\<lambda>status. status\<lparr>lcs_silent_for_ms :=
            (case lcs_last_pending_unix_ms status of
               None \<Rightarrow> None
             | Some last_seen \<Rightarrow>
                 let elapsed_ms = i64_sat (now_unix_ms - last_seen)
                 in if elapsed_ms < 0 then None else Some (word_of_int elapsed_ms))\<rparr>)
       (bt_values (rc_chain_status rc))"

definition record_live_rpc_feed_start :: "runtime_core \<Rightarrow> runtime_core" where
  "record_live_rpc_feed_start rc =
     rc\<lparr>rc_live_rpc_feed_start_count := rc_live_rpc_feed_start_count rc + 1\<rparr>"

definition with_builder_engine_mut ::
  "(assembly_engine \<Rightarrow> 'r \<times> assembly_engine) \<Rightarrow> runtime_core \<Rightarrow> 'r \<times> runtime_core" where
  "with_builder_engine_mut f rc =
     (let (r, engine) = f (rc_builder_engine rc) in (r, rc\<lparr>rc_builder_engine := engine\<rparr>))"

definition builder_snapshot :: "runtime_core \<Rightarrow> assembly_snapshot" where
  "builder_snapshot rc = assembly_snapshot_of (rc_builder_engine rc)"

end
