(* ===== verification/Live_Rpc_Decode.thy ===== *)
theory Live_Rpc_Decode
  imports Hex Common
begin

text \<open>
  Reading the answers of an Ethereum node
  (\<^verbatim>\<open>src/crates/runtime-core/src/live_rpc.rs\<close>): pending-hash notifications,
  single, batched and pending-block transaction responses, and the conversion of an RPC
  transaction. JSON decoding is \<^verbatim>\<open>serde_json\<close>: these functions start from the
  decoded message, or from the text of the decoding error. Text is a string of bytes;
  converting a transaction can panic where it slices a string inside a character.
\<close>

section \<open>Errors\<close>

text \<open>An \<^verbatim>\<open>anyhow\<close> error is the chain of its messages, the outermost context first.\<close>

type_synonym anyhow = "string list"

definition with_context :: "string \<Rightarrow> anyhow + 'a \<Rightarrow> anyhow + 'a" where
  "with_context message r = (case r of Inl e \<Rightarrow> Inl (message # e) | Inr x \<Rightarrow> Inr x)"

fun format_error_chain :: "anyhow \<Rightarrow> string" where
  "format_error_chain [] = []"
| "format_error_chain [message] = message"
| "format_error_chain (message # rest) = message @ '': '' @ format_error_chain rest"

section \<open>Messages\<close>

record rpc_transaction =
  rpt_hash :: string
  rpt_from :: "string option"
  rpt_to :: "string option"
  rpt_nonce :: "string option"
  rpt_value :: "string option"
  rpt_gas :: "string option"
  rpt_tx_type :: "string option"
  rpt_chain_id :: "string option"
  rpt_gas_price :: "string option"
  rpt_max_fee_per_gas :: "string option"
  rpt_max_priority_fee_per_gas :: "string option"
  rpt_max_fee_per_blob_gas :: "string option"
  rpt_input :: "string option"

record live_tx =
  ltx_hash :: TxHash
  ltx_sender :: Address
  ltx_to :: "Address option"
  ltx_nonce :: u64
  ltx_tx_type :: u8
  ltx_value_wei :: "u128 option"
  ltx_gas_limit :: "u64 option"
  ltx_chain_id :: "u64 option"
  ltx_gas_price_wei :: "u128 option"
  ltx_max_fee_per_gas_wei :: "u128 option"
  ltx_max_priority_fee_per_gas_wei :: "u128 option"
  ltx_max_fee_per_blob_gas_wei :: "u128 option"
  ltx_input :: "u8 list"

record rpc_fetch_error_envelope =
  rfe_code :: "i64 option"
  rfe_message :: "string option"

record rpc_fetch_response_envelope =
  rfr_error :: "rpc_fetch_error_envelope option"
  rfr_result :: "rpc_transaction option"

record rpc_pending_block =
  rpb_transactions :: "rpc_transaction list"

record rpc_pending_block_response_envelope =
  rpr_error :: "rpc_fetch_error_envelope option"
  rpr_result :: "rpc_pending_block option"

datatype rpc_batch_response_id = NumberId u64 | StringId string

record rpc_batch_fetch_response_envelope =
  rbf_id :: rpc_batch_response_id
  rbf_error :: "rpc_fetch_error_envelope option"
  rbf_result :: "rpc_transaction option"

datatype rpc_batch_fetch_response_body =
    BatchBody "rpc_batch_fetch_response_envelope list"
  | SingleBody rpc_batch_fetch_response_envelope

section \<open>Notifications\<close>

datatype ws_pending_hash_value = HashStr string | HashObj "string option"

fun as_hash :: "ws_pending_hash_value \<Rightarrow> string option" where
  "as_hash (HashStr hash) = Some hash"
| "as_hash (HashObj hash) = hash"

record ws_subscription_params =
  wsp_subscription :: string
  wsp_result :: ws_pending_hash_value

text \<open>Of the id of a message only its presence is looked at.\<close>

record ws_rpc_message =
  wsm_has_id :: bool
  wsm_method :: "string option"
  wsm_result :: "ws_pending_hash_value option"
  wsm_params :: "ws_subscription_params option"

definition parse_pending_hash ::
  "ws_rpc_message option \<Rightarrow> string option \<Rightarrow> string option \<times> string option" where
  "parse_pending_hash decoded subscription_id =
     (case decoded of
        None \<Rightarrow> (None, subscription_id)
      | Some message \<Rightarrow>
          if wsm_has_id message then
            (None, case Option.bind (wsm_result message) as_hash of
                     Some result \<Rightarrow> Some result | None \<Rightarrow> subscription_id)
          else if wsm_method message \<noteq> Some ''eth_subscription'' then (None, subscription_id)
          else case wsm_params message of
                 None \<Rightarrow> (None, subscription_id)
               | Some params \<Rightarrow>
                   if subscription_id \<noteq> None \<and> subscription_id \<noteq> Some (wsp_subscription params)
                   then (None, subscription_id)
                   else (as_hash (wsp_result params), subscription_id))"

section \<open>Transactions\<close>

text \<open>\<^verbatim>\<open>parse_fixed_hex\<close>, the width given in bytes\<close>

definition rpc_fixed_hex :: "nat \<Rightarrow> string \<Rightarrow> u8 list option call" where
  "rpc_fixed_hex n value =
     call_bind (hex_bytes_of value) (\<lambda>bytes.
       Returns (case bytes of None \<Rightarrow> None | Some bs \<Rightarrow> if length bs \<noteq> n then None else Some bs))"

text \<open>\<^verbatim>\<open>as_deref().and_then(f)\<close> for an \<open>f\<close> that may panic\<close>

definition and_then_call :: "'a option \<Rightarrow> ('a \<Rightarrow> 'b option call) \<Rightarrow> 'b option call" where
  "and_then_call x f = (case x of None \<Rightarrow> Returns None | Some v \<Rightarrow> f v)"

definition rpc_tx_to_live_tx :: "rpc_transaction \<Rightarrow> string \<Rightarrow> (anyhow + live_tx) call" where
  "rpc_tx_to_live_tx tx hash_hex =
     call_bind (rpc_fixed_hex 32 (rpt_hash tx)) (\<lambda>own.
     call_bind (case own of Some h \<Rightarrow> Returns (Some h) | None \<Rightarrow> rpc_fixed_hex 32 hash_hex) (\<lambda>hash.
       case hash of
         None \<Rightarrow> Returns (Inl [''invalid transaction hash''])
       | Some hash \<Rightarrow>
     call_bind (and_then_call (rpt_from tx) (rpc_fixed_hex 20)) (\<lambda>sender.
     call_bind (and_then_call (rpt_to tx) (rpc_fixed_hex 20)) (\<lambda>to_address.
     call_bind (and_then_call (rpt_input tx) hex_bytes_of) (\<lambda>input.
       Returns (Inr
         \<lparr>ltx_hash = be_word hash,
          ltx_sender = (case sender of Some s \<Rightarrow> be_word s | None \<Rightarrow> 0),
          ltx_to = map_option be_word to_address,
          ltx_nonce = (case Option.bind (rpt_nonce tx) parse_hex_word of Some n \<Rightarrow> n | None \<Rightarrow> 0),
          ltx_tx_type = ucast (case Option.bind (rpt_tx_type tx) parse_hex_word of
             Some t \<Rightarrow> (t :: u64) | None \<Rightarrow> 0),
          ltx_value_wei = Option.bind (rpt_value tx) parse_hex_word,
          ltx_gas_limit = Option.bind (rpt_gas tx) parse_hex_word,
          ltx_chain_id = Option.bind (rpt_chain_id tx) parse_hex_word,
          ltx_gas_price_wei = Option.bind (rpt_gas_price tx) parse_hex_word,
          ltx_max_fee_per_gas_wei = Option.bind (rpt_max_fee_per_gas tx) parse_hex_word,
          ltx_max_priority_fee_per_gas_wei = Option.bind (rpt_max_priority_fee_per_gas tx) parse_hex_word,
          ltx_max_fee_per_blob_gas_wei = Option.bind (rpt_max_fee_per_blob_gas tx) parse_hex_word,
          ltx_input = (case input of Some bytes \<Rightarrow> bytes | None \<Rightarrow> [])\<rparr>))))))"

definition rpc_error_text :: "rpc_fetch_error_envelope \<Rightarrow> string" where
  "rpc_error_text error =
     ''rpc returned error: code='' @
     (case rfe_code error of Some c \<Rightarrow> show_int c | None \<Rightarrow> ''unknown'') @ '' message='' @
     (case rfe_message error of Some m \<Rightarrow> m | None \<Rightarrow> ''unknown'')"

definition decode_transaction_fetch_response_to_live_tx ::
  "anyhow + rpc_fetch_response_envelope \<Rightarrow> string \<Rightarrow> (anyhow + live_tx option) call" where
  "decode_transaction_fetch_response_to_live_tx decoded hash_hex =
     (case with_context ''decode rpc json response'' decoded of
        Inl e \<Rightarrow> Returns (Inl e)
      | Inr response \<Rightarrow>
          (case rfr_error response of
             Some error \<Rightarrow> Returns (Inl [rpc_error_text error])
           | None \<Rightarrow>
               (case rfr_result response of
                  None \<Rightarrow> Returns (Inr None)
                | Some tx \<Rightarrow> call_try (rpc_tx_to_live_tx tx hash_hex) (\<lambda>t. Returns (Inr (Some t))))))"

text \<open>\<^verbatim>\<open>collect\<close> into a result: the first error, or all values.\<close>

fun collect_calls :: "('a \<Rightarrow> ('e + 'b) call) \<Rightarrow> 'a list \<Rightarrow> ('e + 'b list) call" where
  "collect_calls f [] = Returns (Inr [])"
| "collect_calls f (x # xs) =
     call_try (f x) (\<lambda>y. call_try (collect_calls f xs) (\<lambda>ys. Returns (Inr (y # ys))))"

definition decode_pending_block_response_to_live_txs ::
  "anyhow + rpc_pending_block_response_envelope \<Rightarrow> (anyhow + live_tx list) call" where
  "decode_pending_block_response_to_live_txs decoded =
     (case with_context ''decode pending block rpc json response'' decoded of
        Inl e \<Rightarrow> Returns (Inl e)
      | Inr response \<Rightarrow>
          (case rpr_error response of
             Some error \<Rightarrow> Returns (Inl [rpc_error_text error])
           | None \<Rightarrow>
               (case rpr_result response of
                  None \<Rightarrow> Returns (Inr [])
                | Some block \<Rightarrow>
                    collect_calls (\<lambda>tx. rpc_tx_to_live_tx tx (rpt_hash tx)) (rpb_transactions block))))"

text \<open>A 64-bit target: an id always fits an index.\<close>

fun to_index :: "rpc_batch_response_id \<Rightarrow> usize option" where
  "to_index (NumberId n) = Some (unat n)"
| "to_index (StringId s) =
     (let trimmed = trim s
      in map_option unat (if starts_with trimmed ''0x'' then (parse_hex_word trimmed :: u64 option)
         else parse_u64 trimmed))"

text \<open>One envelope of a batch: what it puts where, if anything.\<close>

definition place_envelope ::
  "string list \<Rightarrow> live_tx option list \<Rightarrow> rpc_batch_fetch_response_envelope \<Rightarrow> live_tx option list call" where
  "place_envelope hashes fetched envelope =
     (case to_index (rbf_id envelope) of
        None \<Rightarrow> Returns fetched
      | Some index \<Rightarrow>
          if index \<ge> length hashes then Returns fetched
          else if rbf_error envelope \<noteq> None then Returns fetched
          else case rbf_result envelope of
                 None \<Rightarrow> Returns fetched
               | Some tx \<Rightarrow>
                   call_bind (rpc_tx_to_live_tx tx (hashes ! index)) (\<lambda>r.
                     Returns (case r of Inl _ \<Rightarrow> fetched | Inr t \<Rightarrow> fetched[index := Some t])))"

fun place_envelopes ::
  "string list \<Rightarrow> live_tx option list \<Rightarrow> rpc_batch_fetch_response_envelope list \<Rightarrow> live_tx option list call" where
  "place_envelopes hashes fetched [] = Returns fetched"
| "place_envelopes hashes fetched (envelope # rest) =
     call_bind (place_envelope hashes fetched envelope) (\<lambda>fetched. place_envelopes hashes fetched rest)"

fun body_envelopes :: "rpc_batch_fetch_response_body \<Rightarrow> rpc_batch_fetch_response_envelope list" where
  "body_envelopes (BatchBody rows) = rows"
| "body_envelopes (SingleBody row) = [row]"

definition decode_transaction_fetch_batch_response_to_live_txs ::
  "anyhow + rpc_batch_fetch_response_body \<Rightarrow> string list \<Rightarrow> (anyhow + live_tx option list) call" where
  "decode_transaction_fetch_batch_response_to_live_txs decoded hashes =
     (case with_context ''decode rpc batch json response'' decoded of
        Inl e \<Rightarrow> Returns (Inl e)
      | Inr response \<Rightarrow>
          call_bind (place_envelopes hashes (replicate (length hashes) None) (body_envelopes response))
            (\<lambda>fetched. Returns (Inr fetched)))"

section \<open>Formatting\<close>

definition format_optional_fixed_hex :: "u8 list option \<Rightarrow> string" where
  "format_optional_fixed_hex bytes = (case bytes of Some bs \<Rightarrow> format_fixed_hex bs | None \<Rightarrow> ''null'')"

definition format_optional_word :: "'a::len word option \<Rightarrow> string" where
  "format_optional_word w = (case w of Some w \<Rightarrow> show_word w | None \<Rightarrow> ''null'')"

section \<open>Reading back\<close>

text \<open>The answer of a node that writes every field in full width.\<close>

definition render_live_tx :: "live_tx \<Rightarrow> rpc_transaction" where
  "render_live_tx tx =
     \<lparr>rpt_hash = format_fixed_hex (be_bytes 32 (ltx_hash tx)),
      rpt_from = Some (format_fixed_hex (be_bytes 20 (ltx_sender tx))),
      rpt_to = map_option (\<lambda>a. format_fixed_hex (be_bytes 20 a)) (ltx_to tx),
      rpt_nonce = Some (format_fixed_hex (be_bytes 8 (ltx_nonce tx))),
      rpt_value = map_option (\<lambda>v. format_fixed_hex (be_bytes 16 v)) (ltx_value_wei tx),
      rpt_gas = map_option (\<lambda>v. format_fixed_hex (be_bytes 8 v)) (ltx_gas_limit tx),
      rpt_tx_type = Some (format_fixed_hex (be_bytes 8 (ucast (ltx_tx_type tx) :: u64))),
      rpt_chain_id = map_option (\<lambda>v. format_fixed_hex (be_bytes 8 v)) (ltx_chain_id tx),
      rpt_gas_price = map_option (\<lambda>v. format_fixed_hex (be_bytes 16 v)) (ltx_gas_price_wei tx),
      rpt_max_fee_per_gas = map_option (\<lambda>v. format_fixed_hex (be_bytes 16 v)) (ltx_max_fee_per_gas_wei tx),
      rpt_max_priority_fee_per_gas =
        map_option (\<lambda>v. format_fixed_hex (be_bytes 16 v)) (ltx_max_priority_fee_per_gas_wei tx),
      rpt_max_fee_per_blob_gas =
        map_option (\<lambda>v. format_fixed_hex (be_bytes 16 v)) (ltx_max_fee_per_blob_gas_wei tx),
      rpt_input = Some (format_fixed_hex (ltx_input tx))\<rparr>"

lemma fixed_hex_format: "rpc_fixed_hex n (format_fixed_hex bs) =
    Returns (if length bs = n then Some bs else None)"
  by (simp add: rpc_fixed_hex_def hex_bytes_of_format)

lemma optional_word_format:
  fixes x :: "'a::len word option"
  shows "LENGTH('a) \<le> 8 * n \<Longrightarrow>
    Option.bind (map_option (\<lambda>v. format_fixed_hex (be_bytes n v)) x) parse_hex_word = x"
  by (cases x) (simp_all add: parse_hex_word_format)

lemma narrow_type: "ucast (ucast (t :: u8) :: u64) = t"
  by (rule bit_word_eqI) (simp add: bit_simps)

lemma render_reads_back: "rpc_tx_to_live_tx (render_live_tx tx) hash_hex = Returns (Inr tx)"
proof (cases "ltx_to tx")
  case None
  then show ?thesis
    by (simp add: rpc_tx_to_live_tx_def render_live_tx_def and_then_call_def fixed_hex_format
        hex_bytes_of_format be_word_bytes parse_hex_word_format optional_word_format narrow_type)
next
  case (Some a)
  then show ?thesis
    by (simp add: rpc_tx_to_live_tx_def render_live_tx_def and_then_call_def fixed_hex_format
        hex_bytes_of_format be_word_bytes parse_hex_word_format optional_word_format narrow_type)
qed

text \<open>
  Converting the answer of a node inverts its rendering: a transaction rendered
  with hexadecimal fields is read back unchanged, whatever hash was asked for.
\<close>

theorem rpc_tx_roundtrip: "rpc_tx_to_live_tx (render_live_tx tx) hash_hex = Returns (Inr tx)"
  by (rule render_reads_back)

section \<open>Batches\<close>

text \<open>What an envelope delivers for position \<open>i\<close> of the request.\<close>

definition envelope_delivers :: "string list \<Rightarrow> nat \<Rightarrow> rpc_batch_fetch_response_envelope \<Rightarrow> live_tx option" where
  "envelope_delivers hashes i envelope =
     (if to_index (rbf_id envelope) \<noteq> Some i \<or> rbf_error envelope \<noteq> None then None
      else case rbf_result envelope of
             None \<Rightarrow> None
           | Some tx \<Rightarrow>
               (case rpc_tx_to_live_tx tx (hashes ! i) of Returns (Inr t) \<Rightarrow> Some t | _ \<Rightarrow> None))"

text \<open>The texts of a transaction that are sliced.\<close>

definition plain_tx :: "rpc_transaction \<Rightarrow> bool" where
  "plain_tx tx \<longleftrightarrow> ascii (rpt_hash tx) \<and> (\<forall>s \<in> set_option (rpt_from tx). ascii s) \<and>
     (\<forall>s \<in> set_option (rpt_to tx). ascii s) \<and> (\<forall>s \<in> set_option (rpt_input tx). ascii s)"

lemma fixed_hex_ascii: "ascii s \<Longrightarrow> \<exists>r. rpc_fixed_hex n s = Returns r"
  using hex_bytes_of_ascii [of s] by (cases "hex_bytes_of s") (simp_all add: rpc_fixed_hex_def)

lemma and_then_ascii:
  "\<forall>s \<in> set_option x. ascii s \<Longrightarrow> \<exists>r. and_then_call x (rpc_fixed_hex n) = Returns r"
  "\<forall>s \<in> set_option x. ascii s \<Longrightarrow> \<exists>r. and_then_call x hex_bytes_of = Returns r"
  using fixed_hex_ascii hex_bytes_of_ascii
  by (cases x; simp add: and_then_call_def; metis call.exhaust)+

lemma plain_tx_returns:
  assumes "plain_tx tx" and "ascii hash_hex"
  shows "\<exists>r. rpc_tx_to_live_tx tx hash_hex = Returns r"
proof -
  obtain own asked where "rpc_fixed_hex 32 (rpt_hash tx) = Returns own"
    "rpc_fixed_hex 32 hash_hex = Returns asked"
    using assms fixed_hex_ascii unfolding plain_tx_def by metis
  moreover obtain sender where "and_then_call (rpt_from tx) (rpc_fixed_hex 20) = Returns sender"
    using assms(1) and_then_ascii(1) unfolding plain_tx_def by metis
  moreover obtain to_address where "and_then_call (rpt_to tx) (rpc_fixed_hex 20) = Returns to_address"
    using assms(1) and_then_ascii(1) unfolding plain_tx_def by metis
  moreover obtain input where "and_then_call (rpt_input tx) hex_bytes_of = Returns input"
    using assms(1) and_then_ascii(2) unfolding plain_tx_def by metis
  ultimately show ?thesis
    by (cases own; cases asked) (simp_all add: rpc_tx_to_live_tx_def)
qed

definition plain_envelope :: "rpc_batch_fetch_response_envelope \<Rightarrow> bool" where
  "plain_envelope e \<longleftrightarrow> (\<forall>tx \<in> set_option (rbf_result e). plain_tx tx)"

lemma place_envelope_delivers:
  assumes "plain_envelope e" and "list_all ascii hashes" and "length fetched = length hashes"
  shows "\<exists>fetched'. place_envelope hashes fetched e = Returns fetched' \<and> length fetched' = length hashes \<and>
    (\<forall>i < length hashes. fetched' ! i =
      (case envelope_delivers hashes i e of Some t \<Rightarrow> Some t | None \<Rightarrow> fetched ! i))"
proof (cases "\<exists>index tx. to_index (rbf_id e) = Some index \<and> index < length hashes \<and>
    rbf_error e = None \<and> rbf_result e = Some tx")
  case True
  then obtain index tx where e: "to_index (rbf_id e) = Some index" "index < length hashes"
    "rbf_error e = None" "rbf_result e = Some tx" by blast
  obtain r where r: "rpc_tx_to_live_tx tx (hashes ! index) = Returns r"
    using plain_tx_returns [of tx "hashes ! index"] assms(1,2) e
    by (auto simp: plain_envelope_def list_all_length)
  show ?thesis
    using e r assms(3) by (cases r) (auto simp: place_envelope_def envelope_delivers_def nth_list_update)
next
  case False
  then show ?thesis
    using assms(3)
    by (cases "to_index (rbf_id e)"; cases "rbf_result e")
      (auto simp: place_envelope_def envelope_delivers_def)
qed

lemma place_envelopes_deliver:
  assumes "list_all plain_envelope es" and "list_all ascii hashes" and "length fetched = length hashes"
  shows "\<exists>fetched'. place_envelopes hashes fetched es = Returns fetched' \<and> length fetched' = length hashes \<and>
    (\<forall>i < length hashes. fetched' ! i =
      (case List.map_filter (envelope_delivers hashes i) es of [] \<Rightarrow> fetched ! i | t # ts \<Rightarrow> Some (last (t # ts))))"
  using assms
proof (induction es arbitrary: fetched)
  case (Cons e es)
  obtain fetched' where one: "place_envelope hashes fetched e = Returns fetched'"
    "length fetched' = length hashes"
    "\<forall>i < length hashes. fetched' ! i =
      (case envelope_delivers hashes i e of Some t \<Rightarrow> Some t | None \<Rightarrow> fetched ! i)"
    using place_envelope_delivers [of e hashes fetched] Cons.prems by auto
  obtain fetched'' where rest: "place_envelopes hashes fetched' es = Returns fetched''"
    "length fetched'' = length hashes"
    "\<forall>i < length hashes. fetched'' ! i =
      (case List.map_filter (envelope_delivers hashes i) es of [] \<Rightarrow> fetched' ! i | t # ts \<Rightarrow> Some (last (t # ts)))"
    using Cons.IH [of fetched'] Cons.prems one(2) by auto
  show ?case
    using one rest by (auto simp: List.map_filter_simps split: option.splits list.splits)
qed (simp add: List.map_filter_simps)

text \<open>
  Property C39. Batched answers are matched by their ids. When the texts are ASCII, decoding never
  panics and gives one entry per requested hash, in request order: the last decodable
  transaction whose id names the position, in whatever order, number and company
  the answers come; answers with an unknown id, an error or an undecodable
  transaction leave the other entries alone.
\<close>

theorem batch_response_matched:
  assumes "list_all plain_envelope (body_envelopes body)" and "list_all ascii hashes"
  shows "decode_transaction_fetch_batch_response_to_live_txs (Inr body) hashes =
    Returns (Inr (map (\<lambda>i. case List.map_filter (envelope_delivers hashes i) (body_envelopes body) of
      [] \<Rightarrow> None | t # ts \<Rightarrow> Some (last (t # ts))) [0..<length hashes]))"
proof -
  obtain fetched where f: "place_envelopes hashes (replicate (length hashes) None) (body_envelopes body) =
      Returns fetched" "length fetched = length hashes"
    "\<forall>i < length hashes. fetched ! i =
      (case List.map_filter (envelope_delivers hashes i) (body_envelopes body) of
         [] \<Rightarrow> replicate (length hashes) None ! i | t # ts \<Rightarrow> Some (last (t # ts)))"
    using place_envelopes_deliver [OF assms, of "replicate (length hashes) None"] by auto
  have "fetched = map (\<lambda>i. case List.map_filter (envelope_delivers hashes i) (body_envelopes body) of
      [] \<Rightarrow> None | t # ts \<Rightarrow> Some (last (t # ts))) [0..<length hashes]"
    by (rule nth_equalityI) (use f in \<open>auto split: list.splits\<close>)
  then show ?thesis
    using f(1)
    by (simp add: decode_transaction_fetch_batch_response_to_live_txs_def with_context_def)
qed

definition sample_live_tx :: live_tx where
  "sample_live_tx = \<lparr>ltx_hash = 5, ltx_sender = 6, ltx_to = None, ltx_nonce = 7, ltx_tx_type = 2,
     ltx_value_wei = Some 8, ltx_gas_limit = Some 21000, ltx_chain_id = None, ltx_gas_price_wei = None,
     ltx_max_fee_per_gas_wei = Some 9, ltx_max_priority_fee_per_gas_wei = Some 1,
     ltx_max_fee_per_blob_gas_wei = None, ltx_input = [1, 2]\<rparr>"

lemma ascii_format: "ascii (format_fixed_hex bs)"
  using hex_lower_ascii [of bs] by (simp add: format_fixed_hex_def ascii_def)

lemma render_plain: "plain_tx (render_live_tx tx)"
  by (cases "ltx_to tx") (simp_all add: plain_tx_def render_live_tx_def ascii_format)

text \<open>
  The second of two transactions is answered, under a hexadecimal id, before a stray row; the
  first is not found.
\<close>

theorem batch_response_matched_witness:
  "decode_transaction_fetch_batch_response_to_live_txs (Inr (BatchBody
     [\<lparr>rbf_id = StringId '' 0x1'', rbf_error = None, rbf_result = Some (render_live_tx sample_live_tx)\<rparr>,
      \<lparr>rbf_id = NumberId 7, rbf_error = None, rbf_result = Some (render_live_tx sample_live_tx)\<rparr>,
      \<lparr>rbf_id = StringId ''0'', rbf_error = None, rbf_result = None\<rparr>])) [''0xaa'', ''0xbb''] =
   Returns (Inr [None, Some sample_live_tx])"
proof -
  let ?body = "BatchBody
     [\<lparr>rbf_id = StringId '' 0x1'', rbf_error = None, rbf_result = Some (render_live_tx sample_live_tx)\<rparr>,
      \<lparr>rbf_id = NumberId 7, rbf_error = None, rbf_result = Some (render_live_tx sample_live_tx)\<rparr>,
      \<lparr>rbf_id = StringId ''0'', rbf_error = None, rbf_result = None\<rparr>]"
  have ids: "to_index (StringId '' 0x1'') = Some 1" "to_index (StringId ''0'') = Some 0"
    by (simp_all add: trim_def is_space_def starts_with_def parse_hex_word_def strip_0x_def radix_16_def
        hex_value_def hex_digit_def parse_u64_def is_digit_def dec_value_def Let_def)
  have "[0..<length [''0xaa'', ''0xbb'']] = [0, 1]"
    by (simp add: upt_rec)
  moreover have "list_all plain_envelope (body_envelopes ?body)" "list_all ascii [''0xaa'', ''0xbb'']"
    by (simp_all add: plain_envelope_def render_plain) (simp_all add: ascii_def)
  ultimately show ?thesis
    using batch_response_matched [of ?body "[''0xaa'', ''0xbb'']"]
    by (simp add: List.map_filter_simps envelope_delivers_def ids render_reads_back del: to_index.simps(2))
qed

end
