(* ===== verification/Live_Rpc_Config.thy ===== *)
theory Live_Rpc_Config
  imports Runtime_State Live_Rpc_Decode
begin

text \<open>
  The configuration of the live feed (\<^verbatim>\<open>src/crates/runtime-core/src/live_rpc.rs\<close>):
  chains from the environment or from a file, the numeric settings, and the arithmetic of
  batches, retries and endpoint rotation. The environment is a function from names to values;
  reading a file and \<^verbatim>\<open>serde_json\<close> are parameters.
\<close>

section \<open>Data\<close>

record rpc_endpoint =
  rpe_ws_url :: string
  rpe_http_url :: string

record env_chain_config =
  ecc_chain_key :: string
  ecc_chain_id :: "u64 option"
  ecc_ws_url :: "string option"
  ecc_http_url :: "string option"
  ecc_endpoints :: "rpc_endpoint list"
  ecc_source_id :: "string option"

datatype chain_config_input = WrappedChains "env_chain_config list" | ChainList "env_chain_config list"

record chain_rpc_config =
  crc_chain_key :: string
  crc_chain_id :: "u64 option"
  crc_endpoints :: "rpc_endpoint list"
  crc_source_id :: source_id

record batch_fetch_config =
  bfc_batch_size :: usize
  bfc_max_in_flight :: usize
  bfc_retry_attempts :: usize
  bfc_retry_backoff_ms :: u64
  bfc_flush_interval_ms :: u64

record live_rpc_config =
  lrc_chains :: "chain_rpc_config list"
  lrc_max_seen_hashes :: usize
  lrc_batch_fetch :: batch_fetch_config
  lrc_silent_chain_timeout_secs :: u64

definition primary_ws_url :: "chain_rpc_config \<Rightarrow> string option" where
  "primary_ws_url chain = (case crc_endpoints chain of [] \<Rightarrow> None | e # _ \<Rightarrow> Some (rpe_ws_url e))"

definition primary_http_url :: "chain_rpc_config \<Rightarrow> string option" where
  "primary_http_url chain = (case crc_endpoints chain of [] \<Rightarrow> None | e # _ \<Rightarrow> Some (rpe_http_url e))"

definition default_batch_fetch_config :: batch_fetch_config where
  "default_batch_fetch_config = \<lparr>bfc_batch_size = 32, bfc_max_in_flight = 4, bfc_retry_attempts = 2,
     bfc_retry_backoff_ms = 100, bfc_flush_interval_ms = 40\<rparr>"

definition primary_public_http_url :: string where
  "primary_public_http_url = ''https://eth.drpc.org''"

definition default_live_rpc_config :: live_rpc_config where
  "default_live_rpc_config =
     \<lparr>lrc_chains = [\<lparr>crc_chain_key = ''eth-mainnet'', crc_chain_id = Some 1,
        crc_endpoints =
          [\<lparr>rpe_ws_url = ''wss://eth.drpc.org'', rpe_http_url = primary_public_http_url\<rparr>,
           \<lparr>rpe_ws_url = ''wss://ethereum-rpc.publicnode.com'',
            rpe_http_url = ''https://ethereum-rpc.publicnode.com''\<rparr>],
        crc_source_id = SourceId ''rpc-live''\<rparr>],
      lrc_max_seen_hashes = 10000, lrc_batch_fetch = default_batch_fetch_config,
      lrc_silent_chain_timeout_secs = 20\<rparr>"

section \<open>Arithmetic\<close>

definition resolve_record_chain_id :: "u64 option \<Rightarrow> u64 option \<Rightarrow> u64 option" where
  "resolve_record_chain_id configured_chain_id tx_chain_id =
     (case tx_chain_id of Some c \<Rightarrow> Some c | None \<Rightarrow> configured_chain_id)"

definition dispatchable_batch_count :: "usize \<Rightarrow> usize \<Rightarrow> usize \<Rightarrow> usize" where
  "dispatchable_batch_count queue_len batch_size max_in_flight =
     (if queue_len = 0 then 0
      else let size = max batch_size 1; batches = (queue_len + size - 1) div size
           in min batches (max max_in_flight 1))"

definition retry_backoff_delay_ms :: "u64 \<Rightarrow> usize \<Rightarrow> u64" where
  "retry_backoff_delay_ms base_backoff_ms attempt = sat_mul base_backoff_ms (push_bit (min attempt 16) 1)"

definition rotate_endpoint_index :: "usize \<Rightarrow> usize \<Rightarrow> usize" where
  "rotate_endpoint_index current endpoint_count =
     (if endpoint_count \<le> 1 then 0 else (current + 1) mod endpoint_count)"

definition should_rotate_silent_chain :: "i64 \<Rightarrow> i64 \<Rightarrow> u64 \<Rightarrow> bool" where
  "should_rotate_silent_chain last_pending_unix_ms now_unix_ms timeout_seconds =
     (if timeout_seconds = 0 then False
      else let timeout_ms = sat_mul timeout_seconds 1000;
               elapsed_ms = i64_sat (now_unix_ms - last_pending_unix_ms);
               elapsed_ms_u64 = (if elapsed_ms < 0 then 0 else word_of_int elapsed_ms)
           in timeout_ms \<le> elapsed_ms_u64)"

section \<open>Reading the configuration\<close>

definition read_env_trimmed :: "(string \<Rightarrow> string option) \<Rightarrow> string \<Rightarrow> string option" where
  "read_env_trimmed env key =
     (case env key of
        None \<Rightarrow> None
      | Some value \<Rightarrow> let trimmed = trim value in if trimmed = [] then None else Some trimmed)"

text \<open>Why a text is not a number; an empty text does not occur after trimming.\<close>

definition parse_int_error :: "string \<Rightarrow> string" where
  "parse_int_error s =
     (let digits = (if s \<noteq> [] \<and> hd s = CHR ''+'' then tl s else s)
      in if s = [] then ''cannot parse integer from empty string''
         else if digits = [] \<or> \<not> list_all is_digit digits then ''invalid digit found in string''
         else ''number too large to fit in target type'')"

definition parse_env_u64 :: "(string \<Rightarrow> string option) \<Rightarrow> string \<Rightarrow> anyhow + u64 option" where
  "parse_env_u64 env key =
     (case read_env_trimmed env key of
        None \<Rightarrow> Inr None
      | Some value \<Rightarrow>
          (case parse_u64 value of
             Some n \<Rightarrow> Inr (Some n)
           | None \<Rightarrow> Inl [''invalid '' @ key @ '': '' @ parse_int_error value]))"

definition parse_env_usize :: "(string \<Rightarrow> string option) \<Rightarrow> string \<Rightarrow> anyhow + usize option" where
  "parse_env_usize env key = result_bind (parse_env_u64 env key) (\<lambda>n. Inr (map_option unat n))"

definition quoted :: "string \<Rightarrow> string" where
  "quoted s = [CHR 0x27] @ s @ [CHR 0x27]"

definition parse_endpoint_urls :: "string \<Rightarrow> string \<Rightarrow> string \<Rightarrow> anyhow + rpc_endpoint" where
  "parse_endpoint_urls chain_key ws_url http_url =
     (let ws_url = trim ws_url; http_url = trim http_url
      in if ws_url = [] then Inl [''ws_url for chain '' @ quoted chain_key @ '' cannot be empty'']
         else if http_url = [] then Inl [''http_url for chain '' @ quoted chain_key @ '' cannot be empty'']
         else Inr \<lparr>rpe_ws_url = ws_url, rpe_http_url = http_url\<rparr>)"

definition parse_chain_endpoints :: "env_chain_config \<Rightarrow> string \<Rightarrow> anyhow + rpc_endpoint list" where
  "parse_chain_endpoints chain chain_key =
     (if ecc_endpoints chain \<noteq> [] then
        map_result (\<lambda>e. parse_endpoint_urls chain_key (rpe_ws_url e) (rpe_http_url e)) (ecc_endpoints chain)
      else
        let ws_url = (case ecc_ws_url chain of Some u \<Rightarrow> u | None \<Rightarrow> []);
            http_url = (case ecc_http_url chain of Some u \<Rightarrow> u | None \<Rightarrow> [])
        in result_bind (parse_endpoint_urls chain_key ws_url http_url) (\<lambda>e. Inr [e]))"

definition parse_env_chain_config :: "env_chain_config \<Rightarrow> anyhow + chain_rpc_config" where
  "parse_env_chain_config chain =
     (let chain_key = trim (ecc_chain_key chain)
      in if chain_key = [] then Inl [''chain_key cannot be empty'']
         else result_bind (parse_chain_endpoints chain chain_key) (\<lambda>endpoints.
           let named = (case ecc_source_id chain of None \<Rightarrow> [] | Some s \<Rightarrow> trim s);
               source_id = (if named = [] then ''rpc-'' @ chain_key else named)
           in Inr \<lparr>crc_chain_key = chain_key, crc_chain_id = ecc_chain_id chain,
                crc_endpoints = endpoints, crc_source_id = SourceId source_id\<rparr>))"

definition decode_chain_configs ::
  "(string \<Rightarrow> string + chain_config_input) \<Rightarrow> string \<Rightarrow> string \<Rightarrow> anyhow + env_chain_config list" where
  "decode_chain_configs serde raw source_label =
     (case serde raw of
        Inl e \<Rightarrow> Inl [''decode '' @ source_label @ '' json'', e]
      | Inr input \<Rightarrow>
          let env_chains = (case input of WrappedChains cs \<Rightarrow> cs | ChainList cs \<Rightarrow> cs)
          in if env_chains = [] then Inl [source_label @ '' must contain at least one chain'']
             else Inr env_chains)"

definition parse_env_chain_configs ::
  "(string \<Rightarrow> string + chain_config_input) \<Rightarrow> string \<Rightarrow> anyhow + chain_rpc_config list" where
  "parse_env_chain_configs serde raw =
     result_bind (decode_chain_configs serde raw ''VIZ_API_CHAINS'') (map_result parse_env_chain_config)"

text \<open>
  The error of a file: whether an I/O error of the kind \<^verbatim>\<open>NotFound\<close> is its cause, and
  its messages. \<open>read_file\<close> gives the contents, or the kind and the text of the I/O error.
\<close>

type_synonym file_error = "bool \<times> anyhow"

definition read_chain_configs_from_path ::
  "(string \<Rightarrow> bool \<times> string + string) \<Rightarrow> (string \<Rightarrow> string + chain_config_input) \<Rightarrow> string
    \<Rightarrow> file_error + chain_rpc_config list" where
  "read_chain_configs_from_path read_file serde path =
     (case read_file path of
        Inl (not_found, e) \<Rightarrow> Inl (not_found, [''read chain config file '' @ quoted path, e])
      | Inr payload \<Rightarrow>
          (case result_bind (decode_chain_configs serde payload (''chain config file '' @ quoted path))
               (map_result parse_env_chain_config) of
             Inl e \<Rightarrow> Inl (False, e)
           | Inr cfgs \<Rightarrow> Inr cfgs))"

fun first_config_file ::
  "(string \<Rightarrow> file_error + chain_rpc_config list) \<Rightarrow> string list \<Rightarrow> anyhow + chain_rpc_config list option" where
  "first_config_file load [] = Inr None"
| "first_config_file load (path # paths) =
     (case load path of
        Inr cfgs \<Rightarrow> Inr (Some cfgs)
      | Inl (not_found, e) \<Rightarrow> if not_found then first_config_file load paths else Inl e)"

definition default_chain_config_paths :: "string \<Rightarrow> string list" where
  "default_chain_config_paths manifest_dir =
     [''configs/chain_config.json'', manifest_dir @ ''/../../configs/chain_config.json'']"

definition load_chain_configs_from_file ::
  "(string \<Rightarrow> string option) \<Rightarrow> (string \<Rightarrow> bool \<times> string + string)
    \<Rightarrow> (string \<Rightarrow> string + chain_config_input) \<Rightarrow> string \<Rightarrow> anyhow + chain_rpc_config list option" where
  "load_chain_configs_from_file env read_file serde manifest_dir =
     (case read_env_trimmed env ''VIZ_API_CHAIN_CONFIG_PATH'' of
        Some path \<Rightarrow>
          (case read_chain_configs_from_path read_file serde path of
             Inl (_, e) \<Rightarrow> Inl e
           | Inr cfgs \<Rightarrow> Inr (Some cfgs))
      | None \<Rightarrow> first_config_file (read_chain_configs_from_path read_file serde)
          (default_chain_config_paths manifest_dir))"

definition override_primary ::
  "string option \<Rightarrow> string option \<Rightarrow> string option \<Rightarrow> chain_rpc_config list \<Rightarrow> chain_rpc_config list" where
  "override_primary ws_override http_override source_id_override cfgs =
     (case cfgs of
        [] \<Rightarrow> []
      | primary # rest \<Rightarrow>
          let primary =
                (case ws_override of
                   Some ws_url \<Rightarrow> primary\<lparr>crc_endpoints := [\<lparr>rpe_ws_url = ws_url,
                     rpe_http_url = (case http_override of Some u \<Rightarrow> u | None \<Rightarrow> primary_public_http_url)\<rparr>]\<rparr>
                 | None \<Rightarrow>
                     (case http_override of
                        None \<Rightarrow> primary
                      | Some http_url \<Rightarrow>
                          (case crc_endpoints primary of
                             [] \<Rightarrow> primary
                           | e # es \<Rightarrow> primary\<lparr>crc_endpoints := e\<lparr>rpe_http_url := http_url\<rparr> # es\<rparr>)));
              primary =
                (case source_id_override of
                   Some s \<Rightarrow> primary\<lparr>crc_source_id := SourceId s\<rparr> | None \<Rightarrow> primary)
          in primary # rest)"

definition or_default :: "'a option \<Rightarrow> 'a \<Rightarrow> 'a" where
  "or_default x d = (case x of Some v \<Rightarrow> v | None \<Rightarrow> d)"

definition from_env ::
  "(string \<Rightarrow> string option) \<Rightarrow> (string \<Rightarrow> bool \<times> string + string)
    \<Rightarrow> (string \<Rightarrow> string + chain_config_input) \<Rightarrow> string \<Rightarrow> anyhow + live_rpc_config" where
  "from_env env read_file serde manifest_dir =
     (let defaults = default_batch_fetch_config in
      result_bind (parse_env_usize env ''VIZ_API_MAX_SEEN_HASHES'') (\<lambda>max_seen_hashes.
      result_bind (parse_env_usize env ''VIZ_API_RPC_BATCH_SIZE'') (\<lambda>batch_size.
      result_bind (parse_env_usize env ''VIZ_API_RPC_MAX_IN_FLIGHT'') (\<lambda>max_in_flight.
      result_bind (parse_env_usize env ''VIZ_API_RPC_RETRY_ATTEMPTS'') (\<lambda>retry_attempts.
      result_bind (parse_env_u64 env ''VIZ_API_RPC_RETRY_BACKOFF_MS'') (\<lambda>retry_backoff_ms.
      result_bind (parse_env_u64 env ''VIZ_API_RPC_BATCH_FLUSH_MS'') (\<lambda>flush_interval_ms.
      result_bind (parse_env_u64 env ''VIZ_API_SILENT_CHAIN_TIMEOUT_SECS'') (\<lambda>silent_chain_timeout_secs.
      result_bind (load_chain_configs_from_file env read_file serde manifest_dir) (\<lambda>file_chains.
      result_bind
        (let cfgs = or_default file_chains (lrc_chains default_live_rpc_config)
         in case read_env_trimmed env ''VIZ_API_CHAINS'' of
              Some raw \<Rightarrow> parse_env_chain_configs serde raw
            | None \<Rightarrow> Inr (override_primary (read_env_trimmed env ''VIZ_API_ETH_WS_URL'')
                (read_env_trimmed env ''VIZ_API_ETH_HTTP_URL'') (read_env_trimmed env ''VIZ_API_SOURCE_ID'')
                cfgs)) (\<lambda>cfgs.
      Inr \<lparr>lrc_chains = cfgs, lrc_max_seen_hashes = max (or_default max_seen_hashes 10000) 1,
           lrc_batch_fetch =
             \<lparr>bfc_batch_size = max (or_default batch_size (bfc_batch_size defaults)) 1,
              bfc_max_in_flight = max (or_default max_in_flight (bfc_max_in_flight defaults)) 1,
              bfc_retry_attempts = or_default retry_attempts (bfc_retry_attempts defaults),
              bfc_retry_backoff_ms = max (or_default retry_backoff_ms (bfc_retry_backoff_ms defaults)) 1,
              bfc_flush_interval_ms = max (or_default flush_interval_ms (bfc_flush_interval_ms defaults)) 1\<rparr>,
           lrc_silent_chain_timeout_secs = max (or_default silent_chain_timeout_secs 20) 1\<rparr>))))))))))"

section \<open>What is accepted\<close>

definition usable_endpoint :: "rpc_endpoint \<Rightarrow> bool" where
  "usable_endpoint e \<longleftrightarrow> rpe_ws_url e \<noteq> [] \<and> rpe_http_url e \<noteq> []"

definition usable_chain :: "chain_rpc_config \<Rightarrow> bool" where
  "usable_chain c \<longleftrightarrow> crc_chain_key c \<noteq> [] \<and> source_str (crc_source_id c) \<noteq> [] \<and>
     crc_endpoints c \<noteq> [] \<and> list_all usable_endpoint (crc_endpoints c)"

definition usable_chains :: "chain_rpc_config list \<Rightarrow> bool" where
  "usable_chains cs \<longleftrightarrow> cs \<noteq> [] \<and> list_all usable_chain cs"

lemma map_result_all:
  assumes "map_result f xs = Inr ys" and "\<And>x y. f x = Inr y \<Longrightarrow> P y"
  shows "list_all P ys" and "ys = [] \<longleftrightarrow> xs = []"
  using assms by (induction xs arbitrary: ys) (auto simp: result_bind_Inr)

lemma parse_endpoint_usable: "parse_endpoint_urls key ws http = Inr e \<Longrightarrow> usable_endpoint e"
  by (auto simp: parse_endpoint_urls_def Let_def usable_endpoint_def split: if_splits)

lemma parse_endpoints_usable:
  "parse_chain_endpoints chain key = Inr es \<Longrightarrow> es \<noteq> [] \<and> list_all usable_endpoint es"
  using map_result_all [of "\<lambda>e. parse_endpoint_urls key (rpe_ws_url e) (rpe_http_url e)" "ecc_endpoints chain"
      es usable_endpoint] parse_endpoint_usable
  by (auto simp: parse_chain_endpoints_def Let_def result_bind_Inr split: if_splits)

lemma parse_chain_usable: "parse_env_chain_config chain = Inr c \<Longrightarrow> usable_chain c"
  using parse_endpoints_usable [of chain "trim (ecc_chain_key chain)"]
  by (auto simp: parse_env_chain_config_def Let_def result_bind_Inr usable_chain_def split: if_splits)

lemma decode_configs_usable:
  "result_bind (decode_chain_configs serde raw label) (map_result parse_env_chain_config) = Inr cs \<Longrightarrow>
    usable_chains cs"
  using map_result_all [of parse_env_chain_config _ cs usable_chain] parse_chain_usable
  by (force simp: decode_chain_configs_def Let_def result_bind_Inr usable_chains_def
      split: sum.splits if_splits)

lemma file_configs_usable:
  assumes "load_chain_configs_from_file env read_file serde manifest_dir = Inr (Some cs)"
  shows "usable_chains cs"
proof -
  have read: "usable_chains cs" if "read_chain_configs_from_path read_file serde path = Inr cs" for path cs
    using that decode_configs_usable
    by (auto simp: read_chain_configs_from_path_def split: sum.splits)
  have "usable_chains cs"
    if "first_config_file (read_chain_configs_from_path read_file serde) paths = Inr (Some cs)" for paths
    using that read by (induction paths) (auto split: sum.splits if_splits)
  then show ?thesis
    using assms read
    by (auto simp: load_chain_configs_from_file_def split: option.splits sum.splits)
qed

lemma env_trimmed_not_Nil: "read_env_trimmed env key = Some v \<Longrightarrow> v \<noteq> []"
  by (auto simp: read_env_trimmed_def Let_def split: option.splits if_splits)

lemma override_usable:
  assumes "usable_chains cs" and "\<And>v. ws = Some v \<Longrightarrow> v \<noteq> []" and "\<And>v. http = Some v \<Longrightarrow> v \<noteq> []"
    and "\<And>v. source = Some v \<Longrightarrow> v \<noteq> []"
  shows "usable_chains (override_primary ws http source cs)"
proof -
  obtain primary rest where cs: "cs = primary # rest"
    using assms(1) by (cases cs) (auto simp: usable_chains_def)
  then show ?thesis
    using assms
    by (cases ws; cases http; cases source; cases "crc_endpoints primary")
      (auto simp: override_primary_def Let_def usable_chains_def usable_chain_def usable_endpoint_def
        primary_public_http_url_def)
qed

text \<open>
  A configuration that is read is usable, wherever it comes from: there is a
  chain, every chain has a key, a source and an endpoint, no URL is empty, and every
  setting that must not be zero is at least one.
\<close>

theorem from_env_usable:
  assumes "from_env env read_file serde manifest_dir = Inr config"
  shows "usable_chains (lrc_chains config) \<and> 1 \<le> lrc_max_seen_hashes config \<and>
    1 \<le> bfc_batch_size (lrc_batch_fetch config) \<and> 1 \<le> bfc_max_in_flight (lrc_batch_fetch config) \<and>
    1 \<le> bfc_retry_backoff_ms (lrc_batch_fetch config) \<and>
    1 \<le> bfc_flush_interval_ms (lrc_batch_fetch config) \<and> 1 \<le> lrc_silent_chain_timeout_secs config"
proof -
  obtain file_chains cs where loaded: "load_chain_configs_from_file env read_file serde manifest_dir = Inr file_chains"
    and cs: "(case read_env_trimmed env ''VIZ_API_CHAINS'' of
        Some raw \<Rightarrow> parse_env_chain_configs serde raw
      | None \<Rightarrow> Inr (override_primary (read_env_trimmed env ''VIZ_API_ETH_WS_URL'')
          (read_env_trimmed env ''VIZ_API_ETH_HTTP_URL'') (read_env_trimmed env ''VIZ_API_SOURCE_ID'')
          (or_default file_chains (lrc_chains default_live_rpc_config)))) = Inr cs"
    and config: "lrc_chains config = cs"
    using assms by (auto simp: from_env_def result_bind_Inr Let_def)
  have "usable_chains (lrc_chains default_live_rpc_config)"
    by (simp add: default_live_rpc_config_def usable_chains_def usable_chain_def usable_endpoint_def
        primary_public_http_url_def)
  then have "usable_chains (or_default file_chains (lrc_chains default_live_rpc_config))"
    using loaded file_configs_usable by (cases file_chains) (auto simp: or_default_def)
  then have "usable_chains cs"
    using cs decode_configs_usable override_usable env_trimmed_not_Nil
    by (auto simp: parse_env_chain_configs_def split: option.splits)
  then show ?thesis
    using assms config by (auto simp: from_env_def result_bind_Inr Let_def max_def not_le)
qed

text \<open>An environment that sets nothing, without configuration files, gives the defaults.\<close>

definition no_files :: "string \<Rightarrow> bool \<times> string + string" where
  "no_files path = Inl (True, ''No such file or directory'')"

lemma from_env_defaults:
  "from_env (\<lambda>_. None) no_files serde manifest_dir = Inr default_live_rpc_config"
  by (simp add: from_env_def parse_env_usize_def parse_env_u64_def read_env_trimmed_def
      load_chain_configs_from_file_def default_chain_config_paths_def read_chain_configs_from_path_def
      no_files_def or_default_def override_primary_def default_live_rpc_config_def
      default_batch_fetch_config_def)

theorem from_env_usable_witness:
  "usable_chains (lrc_chains default_live_rpc_config) \<and>
   1 \<le> bfc_batch_size (lrc_batch_fetch default_live_rpc_config)"
  using from_env_usable [OF from_env_defaults] by blast

end
