(* ===== verification/Live_Rpc_Worker.thy ===== *)
theory Live_Rpc_Worker
  imports Live_Rpc_Config
begin

text \<open>
  The worker of a chain and its requests (\<^verbatim>\<open>src/crates/runtime-core/src/live_rpc.rs\<close>):
  the status it publishes, the rotation over the endpoints, and the retries of a batched
  fetch. A session over a web socket and an HTTP request are outcomes of the environment.
\<close>

section \<open>Chain status\<close>

record chain_status_update =
  csu_endpoint :: rpc_endpoint
  csu_endpoint_index :: usize
  csu_state :: string
  csu_last_error :: "string option"
  csu_observed_pending :: bool
  csu_increment_rotation :: bool

definition update_chain_status ::
  "i64 \<Rightarrow> chain_rpc_config \<Rightarrow> chain_status_update \<Rightarrow> runtime_core \<Rightarrow> runtime_core" where
  "update_chain_status now_unix_ms chain update rc =
     (let existing = find (\<lambda>status. lcs_chain_key status = crc_chain_key chain) (chain_status now_unix_ms rc);
          last_pending_unix_ms =
            (if csu_observed_pending update \<or> csu_state update = ''subscribed'' then Some now_unix_ms
             else Option.bind existing lcs_last_pending_unix_ms);
          rotation_count = sat_add (case existing of Some status \<Rightarrow> lcs_rotation_count status | None \<Rightarrow> 0)
            (if csu_increment_rotation update then 1 else 0)
      in upsert_chain_status
           \<lparr>lcs_chain_key = crc_chain_key chain, lcs_chain_id = crc_chain_id chain,
            lcs_source_id = source_str (crc_source_id chain), lcs_state = csu_state update,
            lcs_endpoint_index = csu_endpoint_index update,
            lcs_endpoint_count = length (crc_endpoints chain),
            lcs_ws_url = rpe_ws_url (csu_endpoint update),
            lcs_http_url = rpe_http_url (csu_endpoint update),
            lcs_last_pending_unix_ms = last_pending_unix_ms, lcs_silent_for_ms = None,
            lcs_updated_unix_ms = now_unix_ms, lcs_last_error = csu_last_error update,
            lcs_rotation_count = rotation_count\<rparr> rc)"

section \<open>The loop of a chain worker\<close>

text \<open>\<^verbatim>\<open>str::contains\<close>\<close>

fun contains :: "string \<Rightarrow> string \<Rightarrow> bool" where
  "contains [] p \<longleftrightarrow> p = []"
| "contains (c # s) p \<longleftrightarrow> starts_with (c # s) p \<or> contains s p"

definition plain_update :: "rpc_endpoint \<Rightarrow> usize \<Rightarrow> string \<Rightarrow> chain_status_update" where
  "plain_update endpoint endpoint_index state =
     \<lparr>csu_endpoint = endpoint, csu_endpoint_index = endpoint_index, csu_state = state,
      csu_last_error = None, csu_observed_pending = False, csu_increment_rotation = False\<rparr>"

text \<open>What a session reports while it lasts, each with the clock reading of the report.\<close>

datatype session_report = Subscribed i64 | PendingObserved i64

fun session_update ::
  "chain_rpc_config \<Rightarrow> rpc_endpoint \<Rightarrow> usize \<Rightarrow> runtime_core \<Rightarrow> session_report \<Rightarrow> runtime_core" where
  "session_update chain endpoint endpoint_index rc (Subscribed now) =
     update_chain_status now chain (plain_update endpoint endpoint_index ''subscribed'') rc"
| "session_update chain endpoint endpoint_index rc (PendingObserved now) =
     update_chain_status now chain
       ((plain_update endpoint endpoint_index ''active'')\<lparr>csu_observed_pending := True\<rparr>) rc"

text \<open>One turn of the loop: the session's reports, its result, and the clock around it.\<close>

record worker_turn =
  wt_connecting_at :: i64
  wt_reports :: "session_report list"
  wt_result :: "anyhow option"
  wt_ended_at :: i64
  wt_rotating_at :: i64

definition boot_chain_worker :: "i64 \<Rightarrow> chain_rpc_config \<Rightarrow> runtime_core \<Rightarrow> usize \<times> runtime_core" where
  "boot_chain_worker now chain rc =
     (0, case crc_endpoints chain of
           [] \<Rightarrow> rc
         | endpoint # _ \<Rightarrow> update_chain_status now chain (plain_update endpoint 0 ''booting'') rc)"

definition run_chain_turn ::
  "chain_rpc_config \<Rightarrow> usize \<times> runtime_core \<Rightarrow> worker_turn \<Rightarrow> usize \<times> runtime_core" where
  "run_chain_turn chain st turn =
     (let (endpoint_index, rc) = st;
          endpoint = crc_endpoints chain ! endpoint_index;
          rc = update_chain_status (wt_connecting_at turn) chain
            (plain_update endpoint endpoint_index ''connecting'') rc;
          rc = foldl (session_update chain endpoint endpoint_index) rc (wt_reports turn)
      in case wt_result turn of
           Some err \<Rightarrow>
             let error_chain = format_error_chain err;
                 state = (if contains error_chain ''silent_chain_timeout'' then ''silent_timeout'' else ''error'');
                 rc = update_chain_status (wt_ended_at turn) chain
                   ((plain_update endpoint endpoint_index state)\<lparr>csu_last_error := Some error_chain\<rparr>) rc;
                 endpoint_index = rotate_endpoint_index endpoint_index (length (crc_endpoints chain));
                 next_endpoint = crc_endpoints chain ! endpoint_index
             in (endpoint_index,
                 update_chain_status (wt_rotating_at turn) chain
                   ((plain_update next_endpoint endpoint_index ''rotating'')
                      \<lparr>csu_last_error := Some error_chain, csu_increment_rotation := True\<rparr>) rc)
         | None \<Rightarrow>
             (endpoint_index,
              update_chain_status (wt_ended_at turn) chain
                (plain_update endpoint endpoint_index ''disconnected'') rc))"

section \<open>Retries\<close>

definition attempt_context :: "usize \<Rightarrow> string" where
  "attempt_context attempt =
     ''fetch batched tx details failed after '' @ dec_string (attempt + 1) @ '' attempt(s)''"

text \<open>
  \<open>call k\<close> is what the k-th request returns; the second result lists the milliseconds slept
  between the requests.
\<close>

function fetch_with_retry ::
  "(nat \<Rightarrow> (anyhow + 'r) call) \<Rightarrow> batch_fetch_config \<Rightarrow> usize \<Rightarrow> (anyhow + 'r) call \<times> u64 list" where
  "fetch_with_retry call config attempt =
     (case call attempt of
        Panics \<Rightarrow> (Panics, [])
      | Returns (Inr fetched) \<Rightarrow> (Returns (Inr fetched), [])
      | Returns (Inl err) \<Rightarrow>
          if bfc_retry_attempts config \<le> attempt then (Returns (Inl (attempt_context attempt # err)), [])
          else let delay_ms = retry_backoff_delay_ms (bfc_retry_backoff_ms config) attempt;
                   (r, sleeps) = fetch_with_retry call config (attempt + 1)
               in (r, delay_ms # sleeps))"
  by pat_completeness auto

termination
  by (relation "measure (\<lambda>(call, config, attempt). bfc_retry_attempts config - attempt)") auto

declare fetch_with_retry.simps [simp del]

text \<open>
  One request: nothing to ask, a single transaction, or a batch. \<open>ask_one\<close> and \<open>ask_batch\<close>
  stand for posting the request and decoding the JSON of the answer.
\<close>

record rpc_http =
  rph_ask_one :: "string \<Rightarrow> anyhow + (anyhow + rpc_fetch_response_envelope)"
  rph_ask_batch :: "string list \<Rightarrow> anyhow + (anyhow + rpc_batch_fetch_response_body)"

definition fetch_transaction_by_hash :: "rpc_http \<Rightarrow> string \<Rightarrow> (anyhow + live_tx option) call" where
  "fetch_transaction_by_hash http hash_hex =
     (case rph_ask_one http hash_hex of
        Inl e \<Rightarrow> Returns (Inl e)
      | Inr decoded \<Rightarrow> decode_transaction_fetch_response_to_live_tx decoded hash_hex)"

definition fetch_transactions_by_hash_batch ::
  "rpc_http \<Rightarrow> string list \<Rightarrow> (anyhow + live_tx option list) call" where
  "fetch_transactions_by_hash_batch http hashes =
     (case hashes of
        [] \<Rightarrow> Returns (Inr [])
      | [hash_hex] \<Rightarrow> call_try (fetch_transaction_by_hash http hash_hex) (\<lambda>t. Returns (Inr [t]))
      | _ \<Rightarrow>
          (case rph_ask_batch http hashes of
             Inl e \<Rightarrow> Returns (Inl e)
           | Inr decoded \<Rightarrow> decode_transaction_fetch_batch_response_to_live_txs decoded hashes))"

definition fetch_transactions_by_hash_batch_with_retry ::
  "(nat \<Rightarrow> rpc_http) \<Rightarrow> string list \<Rightarrow> batch_fetch_config \<Rightarrow> (anyhow + live_tx option list) call \<times> u64 list" where
  "fetch_transactions_by_hash_batch_with_retry http hashes config =
     fetch_with_retry (\<lambda>attempt. fetch_transactions_by_hash_batch (http attempt) hashes) config 0"

section \<open>Termination and schedule of the retries\<close>

fun fails :: "(anyhow + 'r) call \<Rightarrow> bool" where
  "fails (Returns (Inl _)) = True"
| "fails _ = False"

fun in_context :: "string \<Rightarrow> (anyhow + 'r) call \<Rightarrow> (anyhow + 'r) call" where
  "in_context message (Returns (Inl e)) = Returns (Inl (message # e))"
| "in_context message r = r"

lemma fetch_with_retry_from:
  fixes call :: "nat \<Rightarrow> (anyhow + 'r) call"
  assumes "attempt \<le> bfc_retry_attempts config"
  defines "n \<equiv> bfc_retry_attempts config"
  defines "k \<equiv> length (takeWhile (\<lambda>i. fails (call i)) [attempt..<n])"
  shows "fetch_with_retry call config attempt =
    (in_context (attempt_context (attempt + k)) (call (attempt + k)),
     map (retry_backoff_delay_ms (bfc_retry_backoff_ms config)) [attempt..<attempt + k])"
  using assms(1) unfolding k_def n_def
proof (induction "bfc_retry_attempts config - attempt" arbitrary: attempt)
  case 0
  then show ?case
    by (subst fetch_with_retry.simps) (auto split: call.split sum.split)
next
  case (Suc m)
  have less: "attempt < bfc_retry_attempts config" using Suc.hyps(2) by simp
  show ?case
  proof (cases "fails (call attempt)")
    case True
    then obtain e where e: "call attempt = Returns (Inl e)"
      by (cases "call attempt" rule: fails.cases) auto
    define k where "k = length (takeWhile (\<lambda>i. fails (call i)) [Suc attempt..<bfc_retry_attempts config])"
    have rest: "fetch_with_retry call config (Suc attempt) =
      (in_context (attempt_context (Suc attempt + k)) (call (Suc attempt + k)),
       map (retry_backoff_delay_ms (bfc_retry_backoff_ms config)) [Suc attempt..<Suc attempt + k])"
      using Suc.hyps(1) [of "Suc attempt"] Suc.hyps(2) less unfolding k_def by simp
    have split: "length (takeWhile (\<lambda>i. fails (call i)) [attempt..<bfc_retry_attempts config]) = Suc k"
      using less True by (simp add: k_def upt_conv_Cons)
    have first: "[attempt..<attempt + Suc k] = attempt # [Suc attempt..<Suc attempt + k]"
      using upt_conv_Cons [of attempt "attempt + Suc k"] by (simp del: upt.simps)
    have shift: "Suc attempt + k = attempt + Suc k" by simp
    show ?thesis
      unfolding split first
      by (subst fetch_with_retry.simps) (use e less rest in \<open>simp add: shift del: upt.simps\<close>)
  next
    case False
    then show ?thesis
      using less
      by (subst fetch_with_retry.simps) (auto simp: upt_conv_Cons split: call.split sum.split)
  qed
qed

lemma unat_one_shifted: "unat (push_bit (min k 16) (1 :: u64)) = 2 ^ min k 16"
proof -
  have "(2 :: nat) ^ min k 16 \<le> 2 ^ 16" by (rule power_increasing) simp_all
  also have "\<dots> < 2 ^ LENGTH(64)" by simp
  finally have "take_bit LENGTH(64) ((2 :: nat) ^ min k 16) = 2 ^ min k 16"
    by (rule take_bit_nat_eq_self)
  moreover have "unat (push_bit (min k 16) (1 :: u64)) = take_bit LENGTH(64) (push_bit (min k 16) (unat (1 :: u64)))"
    by (rule unsigned_push_bit_eq)
  ultimately show ?thesis
    by (simp only: unsigned_1 push_bit_eq_mult mult_1)
qed

lemma unat_backoff_delay:
  "unat (retry_backoff_delay_ms base k) = min (2 ^ 64 - 1) (unat base * 2 ^ min k 16)"
  unfolding retry_backoff_delay_ms_def unat_sat_mul unat_one_shifted by simp

text \<open>
  Property C30. Retrying ends: whatever the node answers, the batched fetch makes one request more
  than the leading failures it meets, at most the configured retries plus one; it
  returns the last request's outcome, a final failure with the number of requests made; and
  before the i-th retry it sleeps the base delay times 2 ^ i, capped in exponent and value.
\<close>

theorem fetch_retry_terminates:
  "let n = bfc_retry_attempts config;
       call = (\<lambda>attempt. fetch_transactions_by_hash_batch (http attempt) hashes);
       k = length (takeWhile (\<lambda>i. fails (call i)) [0..<n]);
       (r, sleeps) = fetch_transactions_by_hash_batch_with_retry http hashes config
   in r = in_context (attempt_context k) (call k) \<and> k \<le> n \<and>
      map unat sleeps =
        map (\<lambda>i. min (2 ^ 64 - 1) (unat (bfc_retry_backoff_ms config) * 2 ^ min i 16)) [0..<k]"
proof -
  let ?call = "\<lambda>attempt. fetch_transactions_by_hash_batch (http attempt) hashes"
  have "length (takeWhile (\<lambda>i. fails (?call i)) [0..<bfc_retry_attempts config]) \<le> bfc_retry_attempts config"
    using length_takeWhile_le [of _ "[0..<bfc_retry_attempts config]"] by simp
  then show ?thesis
    using fetch_with_retry_from [of 0 config ?call]
    by (simp add: fetch_transactions_by_hash_batch_with_retry_def Let_def unat_backoff_delay)
qed

section \<open>Rotation over the endpoints\<close>

text \<open>Every status is filed under the key of its chain.\<close>

definition keyed :: "runtime_core \<Rightarrow> bool" where
  "keyed rc \<longleftrightarrow> (\<forall>key status. bt_get (rc_chain_status rc) key = Some status \<longrightarrow> lcs_chain_key status = key)"

lemma find_values:
  fixes m :: "('k::linorder, 'v) btree_map"
  assumes "\<And>k v. bt_get m k = Some v \<Longrightarrow> key_of v = k"
  shows "find (\<lambda>v. key_of v = k) (bt_values m) = bt_get m k"
proof (cases "bt_get m k")
  case None
  then show ?thesis
    using assms by (auto simp: find_None_iff bt_values_set)
next
  case (Some v)
  then have "find (\<lambda>v. key_of v = k) (bt_values m) \<noteq> None"
    using assms bt_values_set [of v m] by (auto simp: find_None_iff)
  then obtain w where w: "find (\<lambda>v. key_of v = k) (bt_values m) = Some w" by blast
  then have "key_of w = k" "w \<in> set (bt_values m)"
    by (auto simp: find_Some_iff)
  then show ?thesis
    using w Some assms bt_values_set [of w m] by force
qed

lemma find_chain_status:
  assumes "keyed rc"
  shows "map_option lcs_rotation_count (find (\<lambda>status. lcs_chain_key status = key) (chain_status now rc)) =
    map_option lcs_rotation_count (bt_get (rc_chain_status rc) key)"
proof -
  define f where "f = (\<lambda>status :: live_rpc_chain_status. status\<lparr>lcs_silent_for_ms :=
    (case lcs_last_pending_unix_ms status of None \<Rightarrow> None
     | Some last_seen \<Rightarrow> let elapsed_ms = i64_sat (now - last_seen)
         in if elapsed_ms < 0 then None else Some (word_of_int elapsed_ms))\<rparr>)"
  have "find (\<lambda>status. lcs_chain_key status = key) (map f xs) =
      map_option f (find (\<lambda>status. lcs_chain_key status = key) xs)" for xs
    by (induction xs) (simp_all add: f_def)
  moreover have "chain_status now rc = map f (bt_values (rc_chain_status rc))"
    by (simp add: chain_status_def f_def)
  moreover have "find (\<lambda>status. lcs_chain_key status = key) (bt_values (rc_chain_status rc)) =
      bt_get (rc_chain_status rc) key"
    using assms by (intro find_values) (simp add: keyed_def)
  ultimately show ?thesis
    by (simp add: f_def option.map_comp comp_def)
qed

text \<open>The status that an update publishes, apart from the times.\<close>

lemma update_publishes:
  fixes u chain now
  assumes "keyed rc"
  defines "rc' \<equiv> update_chain_status now chain u rc"
    and "rotations \<equiv> (case bt_get (rc_chain_status rc) (crc_chain_key chain) of
      Some st \<Rightarrow> lcs_rotation_count st | None \<Rightarrow> 0)"
  shows "keyed rc'"
    and "\<exists>st. bt_get (rc_chain_status rc') (crc_chain_key chain) = Some st \<and>
      lcs_endpoint_index st = csu_endpoint_index u \<and> lcs_ws_url st = rpe_ws_url (csu_endpoint u) \<and>
      lcs_http_url st = rpe_http_url (csu_endpoint u) \<and> lcs_state st = csu_state u \<and>
      lcs_rotation_count st = sat_add rotations (if csu_increment_rotation u then 1 else 0)"
    and "key \<noteq> crc_chain_key chain \<Longrightarrow> bt_get (rc_chain_status rc') key = bt_get (rc_chain_status rc) key"
proof -
  have "(case find (\<lambda>status. lcs_chain_key status = crc_chain_key chain) (chain_status now rc) of
      Some st \<Rightarrow> lcs_rotation_count st | None \<Rightarrow> 0) = rotations"
    using find_chain_status [OF assms(1), of "crc_chain_key chain" now]
    by (auto simp: rotations_def split: option.splits)
  then show "\<exists>st. bt_get (rc_chain_status rc') (crc_chain_key chain) = Some st \<and>
      lcs_endpoint_index st = csu_endpoint_index u \<and> lcs_ws_url st = rpe_ws_url (csu_endpoint u) \<and>
      lcs_http_url st = rpe_http_url (csu_endpoint u) \<and> lcs_state st = csu_state u \<and>
      lcs_rotation_count st = sat_add rotations (if csu_increment_rotation u then 1 else 0)"
    by (simp add: rc'_def update_chain_status_def upsert_chain_status_def Let_def)
  show "keyed rc'"
    using assms(1) by (simp add: keyed_def rc'_def update_chain_status_def upsert_chain_status_def Let_def)
  show "bt_get (rc_chain_status rc') key = bt_get (rc_chain_status rc) key"
    if "key \<noteq> crc_chain_key chain"
    using that by (simp add: rc'_def update_chain_status_def upsert_chain_status_def Let_def)
qed

text \<open>
  What a worker has published for its chain: the endpoint it is on, the state and the number of
  rotations; \<open>rc0\<close> is the state it started from.
\<close>

definition published ::
  "chain_rpc_config \<Rightarrow> runtime_core \<Rightarrow> nat \<Rightarrow> string \<Rightarrow> usize \<times> runtime_core \<Rightarrow> bool" where
  "published chain rc0 failures state st \<longleftrightarrow>
     (let (endpoint_index, rc) = st; endpoint = crc_endpoints chain ! endpoint_index
      in keyed rc \<and> endpoint_index = failures mod length (crc_endpoints chain) \<and>
         (\<exists>status. bt_get (rc_chain_status rc) (crc_chain_key chain) = Some status \<and>
           lcs_endpoint_index status = endpoint_index \<and> lcs_ws_url status = rpe_ws_url endpoint \<and>
           lcs_http_url status = rpe_http_url endpoint \<and> lcs_state status = state \<and>
           unat (lcs_rotation_count status) = min (2 ^ 64 - 1) failures) \<and>
         (\<forall>key. key \<noteq> crc_chain_key chain \<longrightarrow> bt_get (rc_chain_status rc) key = bt_get (rc_chain_status rc0) key))"

lemma published_update:
  assumes "published chain rc0 failures state (i, rc)"
    and "csu_endpoint u = crc_endpoints chain ! i" "csu_endpoint_index u = i" "\<not> csu_increment_rotation u"
  shows "published chain rc0 failures (csu_state u) (i, update_chain_status now chain u rc)"
proof -
  have k: "keyed rc" using assms(1) by (simp add: published_def Let_def)
  note up = update_publishes [OF k, where u = u and chain = chain and now = now]
  show ?thesis
    using assms up(1,2) up(3) by (auto simp: published_def Let_def)
qed

lemma published_session:
  assumes "published chain rc0 failures state (i, rc)"
  shows "\<exists>state. published chain rc0 failures state
    (i, foldl (session_update chain (crc_endpoints chain ! i) i) rc reports)"
  using assms
proof (induction reports arbitrary: rc state)
  case (Cons report reports)
  have "\<exists>state. published chain rc0 failures state
      (i, session_update chain (crc_endpoints chain ! i) i rc report)"
    using published_update [OF Cons.prems, of "plain_update (crc_endpoints chain ! i) i ''subscribed''"]
      published_update [OF Cons.prems, of "(plain_update (crc_endpoints chain ! i) i ''active'')
        \<lparr>csu_observed_pending := True\<rparr>"]
    by (cases report) (auto simp: plain_update_def)
  then show ?case using Cons.IH by auto
qed auto

lemma rotate_mod:
  assumes "0 < n" and "i = failures mod n"
  shows "rotate_endpoint_index i n = Suc failures mod n"
  using assms by (cases "n = 1") (auto simp: rotate_endpoint_index_def mod_Suc_eq)

definition turn_state :: "worker_turn \<Rightarrow> string" where
  "turn_state turn = (if wt_result turn = None then ''disconnected'' else ''rotating'')"

lemma published_turn:
  assumes "published chain rc0 failures state st" and "crc_endpoints chain \<noteq> []"
  shows "published chain rc0 (if wt_result turn = None then failures else Suc failures) (turn_state turn)
    (run_chain_turn chain st turn)"
proof -
  obtain i rc where st: "st = (i, rc)" by (cases st)
  let ?endpoint = "crc_endpoints chain ! i" and ?n = "length (crc_endpoints chain)"
  define rc1 where "rc1 = update_chain_status (wt_connecting_at turn) chain (plain_update ?endpoint i ''connecting'') rc"
  define rc2 where "rc2 = foldl (session_update chain ?endpoint i) rc1 (wt_reports turn)"
  have "published chain rc0 failures ''connecting'' (i, rc1)"
    using published_update [of chain rc0 failures state i rc "plain_update ?endpoint i ''connecting''"
        "wt_connecting_at turn"] assms(1) by (simp add: st rc1_def plain_update_def)
  then obtain state' where two: "published chain rc0 failures state' (i, rc2)"
    using published_session unfolding rc2_def by blast
  show ?thesis
  proof (cases "wt_result turn")
    case None
    then show ?thesis
      using published_update [OF two, of "plain_update ?endpoint i ''disconnected''" "wt_ended_at turn"]
      by (simp add: run_chain_turn_def st Let_def rc1_def rc2_def plain_update_def turn_state_def)
  next
    case (Some err)
    define state where "state = (if contains (format_error_chain err) ''silent_chain_timeout''
      then ''silent_timeout'' else ''error'')"
    define rc3 where "rc3 = update_chain_status (wt_ended_at turn) chain
      ((plain_update ?endpoint i state)\<lparr>csu_last_error := Some (format_error_chain err)\<rparr>) rc2"
    have three: "published chain rc0 failures state (i, rc3)"
      using published_update [OF two, of "(plain_update ?endpoint i state)
          \<lparr>csu_last_error := Some (format_error_chain err)\<rparr>" "wt_ended_at turn"]
      by (simp add: rc3_def plain_update_def)
    define j where "j = rotate_endpoint_index i ?n"
    have j: "j = Suc failures mod ?n"
      using three assms(2) rotate_mod [of ?n i failures] by (simp add: j_def published_def Let_def)
    define u where "u = (plain_update (crc_endpoints chain ! j) j ''rotating'')
      \<lparr>csu_last_error := Some (format_error_chain err), csu_increment_rotation := True\<rparr>"
    have k: "keyed rc3" using three by (simp add: published_def Let_def)
    note up = update_publishes [OF k, where u = u and chain = chain and now = "wt_rotating_at turn"]
    have "published chain rc0 (Suc failures) ''rotating'' (j, update_chain_status (wt_rotating_at turn) chain u rc3)"
      using three up j by (auto simp: published_def Let_def u_def plain_update_def sat_simps)
    moreover have "run_chain_turn chain st turn = (j, update_chain_status (wt_rotating_at turn) chain u rc3)"
      using Some by (simp add: run_chain_turn_def st Let_def rc1_def rc2_def rc3_def state_def j_def u_def)
    ultimately show ?thesis
      using Some by (simp add: turn_state_def)
  qed
qed

text \<open>
  Property C31. A worker goes round its endpoints: however its sessions end, after a run of turns it
  is on the endpoint numbered by the failed sessions modulo the endpoints, never outside the list;
  the status it has published names this endpoint and its URLs, says whether
  the last session failed, and counts the rotations up to saturation; and the
  statuses of other chains are as they were.
\<close>

theorem chain_worker_rotates:
  assumes "crc_endpoints chain \<noteq> []" and "keyed rc0" and "bt_get (rc_chain_status rc0) (crc_chain_key chain) = None"
  shows "let failures = length (filter (\<lambda>turn. wt_result turn \<noteq> None) turns);
      (i, rc) = foldl (run_chain_turn chain) (boot_chain_worker now chain rc0) turns;
      endpoint = crc_endpoints chain ! i
    in i = failures mod length (crc_endpoints chain) \<and> i < length (crc_endpoints chain) \<and>
      (\<exists>status. bt_get (rc_chain_status rc) (crc_chain_key chain) = Some status \<and>
        lcs_endpoint_index status = i \<and> lcs_ws_url status = rpe_ws_url endpoint \<and>
        lcs_http_url status = rpe_http_url endpoint \<and>
        lcs_state status = (if turns = [] then ''booting'' else turn_state (last turns)) \<and>
        unat (lcs_rotation_count status) = min (2 ^ 64 - 1) failures) \<and>
      (\<forall>key. key \<noteq> crc_chain_key chain \<longrightarrow> bt_get (rc_chain_status rc) key = bt_get (rc_chain_status rc0) key)"
proof -
  let ?run = "foldl (run_chain_turn chain) (boot_chain_worker now chain rc0)"
  let ?failures = "\<lambda>turns. length (filter (\<lambda>turn. wt_result turn \<noteq> None) turns)"
  have "published chain rc0 (?failures turns) (if turns = [] then ''booting'' else turn_state (last turns)) (?run turns)"
  proof (induction turns rule: rev_induct)
    case Nil
    obtain endpoint rest where e: "crc_endpoints chain = endpoint # rest"
      using assms(1) by (cases "crc_endpoints chain") simp_all
    show ?case
      using update_publishes [OF assms(2), where u = "plain_update endpoint 0 ''booting''" and chain = chain
          and now = now] assms(3)
      by (auto simp: boot_chain_worker_def e published_def plain_update_def)
  next
    case (snoc turn turns)
    from published_turn [OF this assms(1), of turn] show ?case
      by (cases "wt_result turn") simp_all
  qed
  moreover have "n mod length (crc_endpoints chain) < length (crc_endpoints chain)" for n
    using assms(1) by simp
  ultimately show ?thesis
    by (auto simp: published_def Let_def split: prod.splits)
qed

definition sample_turn :: "anyhow option \<Rightarrow> worker_turn" where
  "sample_turn result = \<lparr>wt_connecting_at = 10, wt_reports = [Subscribed 11, PendingObserved 12],
     wt_result = result, wt_ended_at = 13, wt_rotating_at = 14\<rparr>"

definition sample_core :: runtime_core where
  "sample_core = start_runtime_core \<lparr>rcc_ingest_mode = RpcMode, rcc_rebuild_scheduler_from_rpc = False\<rparr>"

text \<open>After a failed and an ended session the worker of the default chain is on its second endpoint.\<close>

theorem chain_worker_rotates_witness:
  "let chain = hd (lrc_chains default_live_rpc_config);
       (i, rc) = foldl (run_chain_turn chain) (boot_chain_worker 9 chain sample_core)
         [sample_turn (Some [''connect'']), sample_turn None]
   in i = 1 \<and> (\<exists>status. bt_get (rc_chain_status rc) ''eth-mainnet'' = Some status \<and>
        lcs_state status = ''disconnected'' \<and> unat (lcs_rotation_count status) = 1)"
proof -
  let ?chain = "hd (lrc_chains default_live_rpc_config)"
  have "crc_endpoints ?chain \<noteq> []" "keyed sample_core"
    "bt_get (rc_chain_status sample_core) (crc_chain_key ?chain) = None"
    by (simp_all add: default_live_rpc_config_def keyed_def sample_core_def start_runtime_core_def)
  moreover have "length (crc_endpoints ?chain) = 2" "crc_chain_key ?chain = ''eth-mainnet''"
    by (simp_all add: default_live_rpc_config_def)
  ultimately show ?thesis
    using chain_worker_rotates [where chain = ?chain and ?rc0.0 = sample_core and now = 9
        and turns = "[sample_turn (Some [''connect'']), sample_turn None]"]
    by (auto simp: Let_def sample_turn_def turn_state_def split: prod.splits)
qed

end
