(* ===== verification/Scheduler_Frontier.thy ===== *)
theory Scheduler_Frontier
  imports Scheduler_Pool
begin

text \<open>
  The executable frontier as the clients of the scheduler see it: which pending
  transactions it holds, and that it lists the transactions of a sender in the order in
  which they can be executed. Used by the live pipeline, which simulates prefixes of it.
\<close>

section \<open>Lists in which every element is preceded by what it needs\<close>

fun preceded :: "('a set \<Rightarrow> 'a \<Rightarrow> bool) \<Rightarrow> 'a set \<Rightarrow> 'a list \<Rightarrow> bool" where
  "preceded R A [] = True"
| "preceded R A (x # xs) = (R A x \<and> preceded R (insert x A) xs)"

lemma preceded_append: "preceded R A (xs @ ys) \<longleftrightarrow> preceded R A xs \<and> preceded R (set xs \<union> A) ys"
  by (induction xs arbitrary: A) auto

lemma precededD: "preceded R {} (us @ x # vs) \<Longrightarrow> R (set us) x"
  by (simp add: preceded_append)

lemma precededI: "(\<And>us x vs. xs = us @ x # vs \<Longrightarrow> R (set us \<union> A) x) \<Longrightarrow> preceded R A xs"
proof (induction xs arbitrary: A)
  case (Cons y xs)
  have "R (set us \<union> insert y A) x" if "xs = us @ x # vs" for us x vs
    using Cons.prems [of "y # us" x vs] that by simp
  moreover have "R A y" using Cons.prems [of "[]" y xs] by simp
  ultimately show ?case using Cons.IH by simp
qed simp

lemma preceded_mono:
  assumes "\<And>A B x. R A x \<Longrightarrow> A \<subseteq> B \<Longrightarrow> R B x"
  shows "preceded R A xs \<Longrightarrow> A \<subseteq> B \<Longrightarrow> preceded R B xs"
proof (induction xs arbitrary: A B)
  case (Cons x xs)
  then show ?case using Cons.IH [of "insert x A" "insert x B"] assms [of A x B] by auto
qed simp

lemma preceded_concat:
  assumes "\<And>xs. xs \<in> set xss \<Longrightarrow> preceded R {} xs" and "\<And>A B x. R A x \<Longrightarrow> A \<subseteq> B \<Longrightarrow> R B x"
  shows "preceded R A (concat xss)"
  using assms(1)
proof (induction xss arbitrary: A)
  case (Cons xs xss)
  have "preceded R A xs" by (rule preceded_mono [where A = "{}"]) (auto intro: assms(2) Cons.prems)
  then show ?case using Cons by (simp add: preceded_append)
qed simp

lemma preceded_filter:
  assumes "preceded R A xs" and "\<And>A x. R A x \<Longrightarrow> P x \<Longrightarrow> R (A \<inter> {y. P y}) x"
  shows "preceded R (A \<inter> {y. P y}) (filter P xs)"
  using assms(1)
proof (induction xs arbitrary: A)
  case (Cons x xs)
  have "preceded R (insert x A \<inter> {y. P y}) (filter P xs)" using Cons by simp
  moreover have "R (A \<inter> {y. P y}) x" if "P x" using Cons.prems assms(2) that by simp
  ultimately show ?case by (cases "P x") (simp_all add: Int_insert_left)
qed simp

section \<open>The frontier\<close>

text \<open>The lower queued nonces of the sender come first.\<close>

definition nonces_before :: "queue_map \<Rightarrow> validated_transaction set \<Rightarrow> validated_transaction \<Rightarrow> bool" where
  "nonces_before queues before tx \<longleftrightarrow>
     (\<forall>k m. queued queues (tx_sender tx) k \<noteq> None \<and> k \<le> m \<and> m < tx_nonce tx \<longrightarrow>
       (\<exists>tx' \<in> before. tx_sender tx' = tx_sender tx \<and> tx_nonce tx' = m))"

lemma nonces_before_mono: "nonces_before queues A tx \<Longrightarrow> A \<subseteq> B \<Longrightarrow> nonces_before queues B tx"
  unfolding nonces_before_def by blast

definition ready_segment :: "scheduler_state \<Rightarrow> nonce_queue \<Rightarrow> validated_transaction list" where
  "ready_segment st q =
     map (\<lambda>(n, h). the (bt_get (ss_pending st) h)) (take (run_len (bt_keys q)) (bt_entries q))"

lemma filter_take_by_key:
  assumes "map f xs = replicate r a @ replicate k b" and "a \<noteq> b"
  shows "filter (\<lambda>x. f x = a) xs = take r xs"
proof -
  have len: "length xs = r + k" using arg_cong [OF assms(1), of length] by simp
  have 1: "map f (take r xs) = replicate r a" and 2: "map f (drop r xs) = replicate k b"
    using assms(1) len by (simp_all flip: take_map drop_map)
  have "\<forall>x \<in> set (take r xs). f x = a"
    using arg_cong [OF 1, of set] by (auto simp: image_subset_iff split: if_splits)
  moreover have "\<forall>x \<in> set (drop r xs). f x = b"
    using arg_cong [OF 2, of set] by (auto simp: image_subset_iff split: if_splits)
  ultimately show ?thesis
    using assms(2) filter_append [of "\<lambda>x. f x = a" "take r xs" "drop r xs"] by simp
qed

lemma ready_positions_segment:
  assumes "all_live (ss_pending st) q"
  shows "map (\<lambda>p. the (bt_get (ss_pending st) (pos_hash p))) (ready_positions st q) =
    ready_segment st q"
proof -
  let ?ps = "positions_loop (ss_pending st) (None, False) (bt_entries q)"
  have ps: "map (\<lambda>p. (pos_nonce p, pos_hash p)) ?ps = bt_entries q"
    using positions_loop_entries assms by (simp add: live_entries)
  have "ready_positions st q = take (run_len (bt_keys q)) ?ps"
    unfolding ready_positions_def
    by (rule filter_take_by_key [OF positions_states_live [OF assms]]) simp
  moreover have "map (\<lambda>(n, h). the (bt_get (ss_pending st) h)) (bt_entries q) =
      map (\<lambda>p. the (bt_get (ss_pending st) (pos_hash p))) ?ps"
    using arg_cong [OF ps, of "map (\<lambda>(n, h). the (bt_get (ss_pending st) h))"] by (simp add: comp_def)
  ultimately show ?thesis
    unfolding ready_segment_def by (simp only: flip: take_map)
qed

lemma sender_queue_live:
  assumes "sched_wf st" and "bt_get (ss_sender_queues st) s = Some q"
  shows "all_live (ss_pending st) q"
  using assms queues_sound_live by (auto simp: sched_wf_def sched_inv_def)

lemma frontier_segments:
  assumes "sched_wf st"
  shows "fst (classify_by_sender st) = concat (map (ready_segment st) (bt_values (ss_sender_queues st)))"
  using sender_queue_live [OF assms]
  by (simp add: classify_by_sender_positions)
    (metis (mono_tags, lifting) bt_values_set map_eq_conv ready_positions_segment)

lemma segment_entry:
  assumes "sched_wf st" and "bt_get (ss_sender_queues st) s = Some q"
    and "(n, h) \<in> set (bt_entries q)" and "tx = the (bt_get (ss_pending st) h)"
  shows "bt_get (ss_pending st) h = Some tx" and "vt_hash tx = h" and "tx_sender tx = s"
    and "tx_nonce tx = n"
proof -
  have "queued (ss_sender_queues st) s n = Some h"
    using assms(2,3) by (simp add: queued_def bt.in_entries_iff)
  then show "bt_get (ss_pending st) h = Some tx" "tx_sender tx = s" "tx_nonce tx = n"
    using wf_queued_iff [OF assms(1)] assms(4) by auto
  then show "vt_hash tx = h" using wf_hash [OF assms(1)] by simp
qed

lemma segment_nonces:
  assumes "sched_wf st" and "bt_get (ss_sender_queues st) s = Some q"
  shows "map tx_nonce (ready_segment st q) = take (run_len (bt_keys q)) (bt_keys q)"
    and "tx \<in> set (ready_segment st q) \<Longrightarrow> tx_sender tx = s"
    and "tx \<in> set (ready_segment st q) \<Longrightarrow> bt_get (ss_pending st) (vt_hash tx) = Some tx"
proof -
  have "map tx_nonce (ready_segment st q) = map fst (take (run_len (bt_keys q)) (bt_entries q))"
    unfolding ready_segment_def
    by (simp, use segment_entry(4) [OF assms _ refl] in_set_takeD in fastforce)
  then show "map tx_nonce (ready_segment st q) = take (run_len (bt_keys q)) (bt_keys q)"
    by (simp add: bt_keys_def take_map)
  assume "tx \<in> set (ready_segment st q)"
  then obtain n h where "(n, h) \<in> set (bt_entries q)" "tx = the (bt_get (ss_pending st) h)"
    unfolding ready_segment_def using in_set_takeD by fastforce
  note e = segment_entry [OF assms this]
  show "tx_sender tx = s" "bt_get (ss_pending st) (vt_hash tx) = Some tx"
    using e by simp_all
qed

lemma segment_preceded:
  assumes "sched_wf st" and "bt_get (ss_sender_queues st) s = Some q"
  shows "preceded (nonces_before (ss_sender_queues st)) {} (ready_segment st q)"
proof (rule precededI, unfold nonces_before_def Un_empty_right, intro allI impI)
  fix us tx vs k m
  assume split: "ready_segment st q = us @ tx # vs"
    and km: "queued (ss_sender_queues st) (tx_sender tx) k \<noteq> None \<and> k \<le> m \<and> m < tx_nonce tx"
  let ?ks = "bt_keys q" and ?r = "run_len (bt_keys q)"
  note seg = segment_nonces [OF assms]
  have nonces: "take ?r ?ks = map tx_nonce us @ tx_nonce tx # map tx_nonce vs"
    using seg(1) split by simp
  have sender: "tx_sender t = s" if "t \<in> set (us @ [tx])" for t
    using seg(2) [of t] split that by auto
  have i: "length us < ?r" "length us < length ?ks"
    using arg_cong [OF nonces, of length] by simp_all
  have nth: "?ks ! length us = tx_nonce tx"
    using arg_cong [OF nonces, of "\<lambda>l. l ! length us"] i
    by (simp add: nth_append)
  have "k \<in> set ?ks" using km sender assms(2) by (simp add: queued_in_keys)
  then have "hd ?ks \<le> k" using bt_keys_sorted [of q] by (cases ?ks) (auto intro: less_imp_le)
  then have "m \<in> set ?ks"
    using run_covers [OF bt_keys_sorted i(1), of m] km nth by auto
  then obtain j where j: "j < length ?ks" "?ks ! j = m" by (auto simp: in_set_conv_nth)
  have "j < length us"
  proof (rule ccontr)
    assume "\<not> j < length us"
    then have "?ks ! length us \<le> ?ks ! j"
      using bt_keys_sorted [of q] j(1)
      by (cases "j = length us") (auto simp: sorted_wrt_iff_nth_less less_imp_le)
    then show False using nth j(2) km by (metis leD)
  qed
  then have "tx_nonce (us ! j) = m"
    using arg_cong [OF nonces, of "\<lambda>l. l ! j"] i j by (simp add: nth_append)
  then show "\<exists>tx' \<in> set us. tx_sender tx' = tx_sender tx \<and> tx_nonce tx' = m"
    using \<open>j < length us\<close> sender by (intro bexI [of _ "us ! j"]) simp_all
qed

lemma frontier_preceded:
  assumes "sched_wf st"
  shows "preceded (nonces_before (ss_sender_queues st)) {} (fst (classify_by_sender st))"
  unfolding frontier_segments [OF assms]
  by (rule preceded_concat)
    (auto simp: bt_values_set segment_preceded [OF assms] elim: nonces_before_mono)

lemma frontier_pending:
  assumes "sched_wf st" and "tx \<in> set (fst (classify_by_sender st))"
  shows "bt_get (ss_pending st) (vt_hash tx) = Some tx"
    and "queued (ss_sender_queues st) (tx_sender tx) (tx_nonce tx) = Some (vt_hash tx)"
proof -
  obtain s q where "bt_get (ss_sender_queues st) s = Some q" "tx \<in> set (ready_segment st q)"
    using assms(2) by (auto simp: frontier_segments [OF assms(1)] bt_values_set)
  then show p: "bt_get (ss_pending st) (vt_hash tx) = Some tx"
    using segment_nonces(3) [OF assms(1)] by blast
  then show "queued (ss_sender_queues st) (tx_sender tx) (tx_nonce tx) = Some (vt_hash tx)"
    by (simp add: wf_queued_iff [OF assms(1)])
qed

lemma frontier_distinct:
  assumes "sched_wf st"
  shows "distinct (map vt_hash (fst (classify_by_sender st)))"
proof -
  let ?E = "fst (classify_by_sender st)" and ?Q = "ss_sender_queues st"
  have seg: "distinct (ready_segment st q)" if "bt_get ?Q s = Some q" for s q
  proof -
    have "distinct (map tx_nonce (ready_segment st q))"
      using segment_nonces(1) [OF assms that] bt_keys_sorted [of q]
      by (simp add: strict_sorted_iff distinct_take)
    then show ?thesis by (simp add: distinct_map)
  qed
  have "distinct (concat (map (\<lambda>s. ready_segment st (the (bt_get ?Q s))) ss))"
    if "distinct ss" "\<forall>s \<in> set ss. bt_get ?Q s \<noteq> None" for ss
    using that
  proof (induction ss)
    case (Cons s ss)
    then have "t \<in> set (ready_segment st (the (bt_get ?Q s))) \<Longrightarrow> tx_sender t = s" for t
      using segment_nonces(2) [OF assms] by auto
    moreover have "tx_sender t \<in> set ss"
      if "s' \<in> set ss" "t \<in> set (ready_segment st (the (bt_get ?Q s')))" for s' t
      using that Cons.prems segment_nonces(2) [OF assms] by auto
    ultimately show ?case using Cons seg by fastforce
  qed simp
  then have "distinct ?E"
    unfolding frontier_segments [OF assms] bt_values_via_keys map_map comp_def
    using bt_keys_sorted [of ?Q] by (simp add: strict_sorted_iff bt_keys_set)
  moreover have "inj_on vt_hash (set ?E)"
    using frontier_pending(1) [OF assms] by (metis inj_onI option.inject)
  ultimately show ?thesis by (simp add: distinct_map)
qed

end
