(* ===== verification/Live_Rpc_Requests.thy ===== *)
theory Live_Rpc_Requests
  imports Live_Rpc_Config Scheduler_Frontier
begin

text \<open>
  What the live pipeline derives from a transaction
  (\<^verbatim>\<open>src/crates/runtime-core/src/live_rpc.rs\<close>): the validated transaction, the ranked
  opportunities of the transactions that became ready, the simulation requests with the
  earlier transactions of the same senders, and the payloads of the events.
\<close>

section \<open>Transactions and opportunities\<close>

record executable_opportunity =
  exo_record :: opportunity_record
  exo_candidate :: opportunity_candidate

definition feature_input_of :: "live_tx \<Rightarrow> feature_input" where
  "feature_input_of tx =
     \<lparr>fi_to = ltx_to tx, fi_calldata = ltx_input tx, fi_tx_type = ltx_tx_type tx,
      fi_chain_id = ltx_chain_id tx, fi_gas_limit = ltx_gas_limit tx, fi_value_wei = ltx_value_wei tx,
      fi_gas_price_wei = ltx_gas_price_wei tx, fi_max_fee_per_gas_wei = ltx_max_fee_per_gas_wei tx,
      fi_max_priority_fee_per_gas_wei = ltx_max_priority_fee_per_gas_wei tx,
      fi_max_fee_per_blob_gas_wei = ltx_max_fee_per_blob_gas_wei tx\<rparr>"

definition default_feature_analysis :: feature_analysis where
  "default_feature_analysis = \<lparr>fa_protocol = ''unknown'', fa_category = ''pending'', fa_mev_score = 0,
     fa_urgency_score = 0, fa_method_selector = None\<rparr>"

definition validated_transaction_from_live_tx ::
  "chain_rpc_config \<Rightarrow> i64 \<Rightarrow> u64 \<Rightarrow> live_tx \<Rightarrow> validated_transaction" where
  "validated_transaction_from_live_tx chain observed_at_unix_ms observed_at_mono_ns tx =
     \<lparr>vt_source_id = crc_source_id chain, vt_observed_at_unix_ms = observed_at_unix_ms,
      vt_observed_at_mono_ns = observed_at_mono_ns, vt_calldata = ltx_input tx,
      vt_decoded =
        \<lparr>dec_hash = ltx_hash tx, dec_tx_type = ltx_tx_type tx, dec_sender = ltx_sender tx,
         dec_nonce = ltx_nonce tx,
         dec_chain_id = (case ltx_chain_id tx of Some c \<Rightarrow> Some c | None \<Rightarrow> crc_chain_id chain),
         dec_to = ltx_to tx, dec_value_wei = ltx_value_wei tx, dec_gas_limit = ltx_gas_limit tx,
         dec_gas_price_wei = ltx_gas_price_wei tx,
         dec_max_fee_per_gas_wei = ltx_max_fee_per_gas_wei tx,
         dec_max_priority_fee_per_gas_wei = ltx_max_priority_fee_per_gas_wei tx,
         dec_max_fee_per_blob_gas_wei = ltx_max_fee_per_blob_gas_wei tx,
         dec_calldata_len = Some (of_nat (length (ltx_input tx)))\<rparr>\<rparr>"

definition live_searcher_config :: searcher_config where
  "live_searcher_config = \<lparr>sc_min_score = 0, sc_max_candidates = 8\<rparr>"

definition opportunity_of :: "i64 \<Rightarrow> u64 option \<Rightarrow> opportunity_candidate \<Rightarrow> executable_opportunity" where
  "opportunity_of detected_unix_ms chain_id cand =
     \<lparr>exo_record =
        \<lparr>opr_tx_hash = oc_tx_hash cand, opr_chain_id = chain_id,
         opr_strategy = debug_strategy (oc_strategy cand), opr_score = oc_score cand,
         opr_protocol = oc_protocol cand, opr_category = oc_category cand,
         opr_feature_engine_version = oc_feature_engine_version cand,
         opr_scorer_version = oc_scorer_version cand,
         opr_strategy_version = oc_strategy_version cand, opr_reasons = oc_reasons cand,
         opr_detected_unix_ms = detected_unix_ms\<rparr>,
      exo_candidate = cand\<rparr>"

definition build_executable_opportunities ::
  "protocol_registry \<Rightarrow> validated_transaction list \<Rightarrow> i64 \<Rightarrow> u64 option \<Rightarrow> executable_opportunity list" where
  "build_executable_opportunities reg executable detected_unix_ms chain_id =
     (if executable = [] then []
      else let batch = map (\<lambda>tx. \<lparr>si_decoded = vt_decoded tx, si_calldata = vt_calldata tx\<rparr>) executable
           in map (opportunity_of detected_unix_ms chain_id)
                (sbr_candidates (rank_opportunity_batch reg batch live_searcher_config)))"

text \<open>The hashes that became ready, each once, in the order of the transitions.\<close>

definition ready_hashes :: "scheduler_queue_transition list \<Rightarrow> TxHash list" where
  "ready_hashes transitions =
     rev (fold (\<lambda>t hashes. if qt_state t = Ready \<and> qt_hash t \<notin> set hashes then qt_hash t # hashes else hashes)
       transitions [])"

definition ready_transactions_for_queue_transitions ::
  "scheduler_state \<Rightarrow> scheduler_queue_transition list \<Rightarrow> validated_transaction list" where
  "ready_transactions_for_queue_transitions scheduler transitions =
     (let hashes = ready_hashes transitions
      in if hashes = [] then [] else pending_transactions scheduler hashes)"

definition ready_frontier_for_queue_transitions ::
  "scheduler_state \<Rightarrow> scheduler_queue_transition list \<Rightarrow> validated_transaction list" where
  "ready_frontier_for_queue_transitions scheduler transitions =
     (if \<not> list_ex (\<lambda>t. qt_state t = Ready) transitions then []
      else sn_ready (scheduler_state_snapshot scheduler))"

section \<open>Simulation requests\<close>

record remote_simulation_request =
  rsr_tx_hash :: TxHash
  rsr_member_tx_hashes :: "TxHash list"
  rsr_txs :: "validated_transaction list"
  rsr_detected_unix_ms :: i64

definition requested_hashes :: "executable_opportunity \<Rightarrow> TxHash list" where
  "requested_hashes opportunity =
     (if oc_member_tx_hashes (exo_candidate opportunity) = [] then [opr_tx_hash (exo_record opportunity)]
      else oc_member_tx_hashes (exo_candidate opportunity))"

definition select_for ::
  "validated_transaction list \<Rightarrow> TxHash set \<Rightarrow> TxHash \<Rightarrow> unit + TxHash set" where
  "select_for executable selected requested_hash =
     (case find (\<lambda>tx. vt_hash tx = requested_hash) executable of
        None \<Rightarrow> Inl ()
      | Some requested_tx \<Rightarrow>
          Inr (foldl (\<lambda>selected cand.
            if dec_sender (vt_decoded cand) = dec_sender (vt_decoded requested_tx) \<and>
               dec_nonce (vt_decoded cand) \<le> dec_nonce (vt_decoded requested_tx)
            then insert (vt_hash cand) selected else selected) selected executable))"

definition build_remote_simulation_request ::
  "executable_opportunity \<Rightarrow> validated_transaction list \<Rightarrow> remote_simulation_request option" where
  "build_remote_simulation_request opportunity executable =
     (let requested = requested_hashes opportunity
      in case fold_result (select_for executable) (set requested) requested of
           Inl _ \<Rightarrow> None
         | Inr selected \<Rightarrow>
             let txs = filter (\<lambda>tx. vt_hash tx \<in> selected) executable
             in Some \<lparr>rsr_tx_hash = opr_tx_hash (exo_record opportunity),
                  rsr_member_tx_hashes = map vt_hash txs, rsr_txs = txs,
                  rsr_detected_unix_ms = opr_detected_unix_ms (exo_record opportunity)\<rparr>)"

definition format_hash_hex :: "TxHash \<Rightarrow> string" where
  "format_hash_hex hash = format_fixed_hex (hash_bytes hash)"

definition simulation_task_key :: "remote_simulation_request \<Rightarrow> string" where
  "simulation_task_key request =
     format_hash_hex (rsr_tx_hash request) @ '':'' @
     join '','' (sort (map format_hash_hex (rsr_member_tx_hashes request)))"

definition scheduler_candidate_from_executable_opportunity :: "executable_opportunity \<Rightarrow> scheduler_candidate" where
  "scheduler_candidate_from_executable_opportunity opportunity =
     \<lparr>cand_candidate_id = CandidateId (debug_strategy (oc_strategy (exo_candidate opportunity)) @ '':'' @
        format_hash_hex (opr_tx_hash (exo_record opportunity))),
      cand_tx_hash = opr_tx_hash (exo_record opportunity),
      cand_member_tx_hashes = requested_hashes opportunity,
      cand_score = opr_score (exo_record opportunity),
      cand_strategy = StrategyId (opr_strategy (exo_record opportunity)),
      cand_detected_unix_ms = opr_detected_unix_ms (exo_record opportunity)\<rparr>"

section \<open>Outcomes and payloads\<close>

datatype remote_simulation_status = SimOk | SimFailed | SimStateError | SimTimeout

record remote_simulation_outcome =
  rso_sim_id :: string
  rso_status :: remote_simulation_status
  rso_fail_category :: "string option"
  rso_latency_ms :: u64
  rso_tx_count :: u32
  rso_simulation_batch :: "simulation_batch_result option"

fun simulation_status_label :: "remote_simulation_status \<Rightarrow> string" where
  "simulation_status_label SimOk = ''ok''"
| "simulation_status_label SimFailed = ''failed''"
| "simulation_status_label SimStateError = ''state_error''"
| "simulation_status_label SimTimeout = ''timeout''"

fun simulation_fail_category_label :: "simulation_fail_category \<Rightarrow> string" where
  "simulation_fail_category_label Revert = ''revert''"
| "simulation_fail_category_label OutOfGas = ''out_of_gas''"
| "simulation_fail_category_label NonceMismatch = ''nonce_mismatch''"
| "simulation_fail_category_label StateMismatch = ''state_mismatch''"
| "simulation_fail_category_label UnknownFailure = ''unknown''"

definition summarize_simulation_batch ::
  "simulation_batch_result \<Rightarrow> remote_simulation_status \<times> string option" where
  "summarize_simulation_batch batch =
     (case find (\<lambda>r. \<not> tsr_success r) (sbr_tx_results batch) of
        Some failed \<Rightarrow>
          (SimFailed, Some (case tsr_fail_category failed of
             Some c \<Rightarrow> simulation_fail_category_label c | None \<Rightarrow> ''unknown''))
      | None \<Rightarrow> (SimOk, None))"

definition hash_prefix :: "TxHash \<Rightarrow> string" where
  "hash_prefix hash = take 8 (drop 2 (format_hash_hex hash))"

definition build_bundle_id :: "TxHash \<Rightarrow> i64 \<Rightarrow> string" where
  "build_bundle_id hash detected_unix_ms = ''bundle-'' @ hash_prefix hash @ ''-'' @ show_int detected_unix_ms"

definition bundle_id_for_opportunity :: "opportunity_record \<Rightarrow> string" where
  "bundle_id_for_opportunity opportunity =
     build_bundle_id (opr_tx_hash opportunity) (opr_detected_unix_ms opportunity)"

definition build_opportunity_detected_payload :: "opportunity_record \<Rightarrow> event_payload" where
  "build_opportunity_detected_payload opp =
     OppDetected \<lparr>od_hash = opr_tx_hash opp, od_strategy = opr_strategy opp, od_score = opr_score opp,
       od_protocol = opr_protocol opp, od_category = opr_category opp,
       od_feature_engine_version = opr_feature_engine_version opp,
       od_scorer_version = opr_scorer_version opp, od_strategy_version = opr_strategy_version opp,
       od_reasons = opr_reasons opp\<rparr>"

definition build_candidate_queued_payload :: "scheduler_candidate \<Rightarrow> opportunity_record \<Rightarrow> event_payload" where
  "build_candidate_queued_payload c opp =
     CandidateQueued \<lparr>cq_candidate_id = candidate_str (cand_candidate_id c), cq_tx_hash = cand_tx_hash c,
       cq_member_tx_hashes = cand_member_tx_hashes c, cq_chain_id = opr_chain_id opp,
       cq_strategy = strategy_str (cand_strategy c), cq_score = cand_score c,
       cq_protocol = opr_protocol opp, cq_category = opr_category opp,
       cq_feature_engine_version = opr_feature_engine_version opp,
       cq_scorer_version = opr_scorer_version opp, cq_strategy_version = opr_strategy_version opp,
       cq_reasons = opr_reasons opp, cq_detected_unix_ms = cand_detected_unix_ms c\<rparr>"

definition build_sim_dispatched_payload :: "simulation_task_spec \<Rightarrow> event_payload" where
  "build_sim_dispatched_payload spec =
     SimDispatched \<lparr>sd_candidate_id = candidate_str (spec_candidate_id spec), sd_tx_hash = spec_tx_hash spec,
       sd_member_tx_hashes = spec_member_tx_hashes spec, sd_block_number = spec_block_number spec\<rparr>"

definition build_sim_completed_payload :: "opportunity_record \<Rightarrow> remote_simulation_outcome \<Rightarrow> sim_completed" where
  "build_sim_completed_payload opp outcome =
     \<lparr>sc_hash = opr_tx_hash opp, sc_sim_id = rso_sim_id outcome,
      sc_status = simulation_status_label (rso_status outcome),
      sc_feature_engine_version = opr_feature_engine_version opp,
      sc_scorer_version = opr_scorer_version opp, sc_strategy_version = opr_strategy_version opp,
      sc_fail_category = rso_fail_category outcome, sc_latency_ms = Some (rso_latency_ms outcome),
      sc_tx_count = Some (rso_tx_count outcome)\<rparr>"

definition build_bundle_submitted_payload :: "opportunity_record \<Rightarrow> sim_completed \<Rightarrow> event_payload" where
  "build_bundle_submitted_payload opp sim_event =
     BundleSubmitted \<lparr>bs_hash = opr_tx_hash opp, bs_bundle_id = bundle_id_for_opportunity opp,
       bs_sim_id = sc_sim_id sim_event, bs_relay = ''not_submitted'', bs_accepted = False,
       bs_feature_engine_version = opr_feature_engine_version opp,
       bs_scorer_version = opr_scorer_version opp, bs_strategy_version = opr_strategy_version opp\<rparr>"

fun build_assembly_decision_payload :: "TxHash \<Rightarrow> u64 \<Rightarrow> assembly_decision \<Rightarrow> event_payload" where
  "build_assembly_decision_payload tx_hash block_number (Inserted candidate_id replaced_candidate_ids) =
     AssemblyDecisionApplied \<lparr>ada_candidate_id = candidate_id, ada_tx_hash = tx_hash,
       ada_decision = ''inserted'', ada_replaced_candidate_ids = replaced_candidate_ids,
       ada_reason = None, ada_block_number = block_number\<rparr>"
| "build_assembly_decision_payload tx_hash block_number (Rejected candidate_id reason) =
     AssemblyDecisionApplied \<lparr>ada_candidate_id = candidate_id, ada_tx_hash = tx_hash,
       ada_decision = ''rejected'', ada_replaced_candidate_ids = [],
       ada_reason = Some reason, ada_block_number = block_number\<rparr>"

definition transition_payload :: "scheduler_queue_transition \<Rightarrow> event_payload" where
  "transition_payload t =
     (case qt_state t of
        Ready \<Rightarrow> TxReady \<lparr>ready_hash = qt_hash t, ready_sender = qt_sender t, ready_nonce = qt_nonce t\<rparr>
      | Blocked expected_nonce \<Rightarrow>
          TxBlocked \<lparr>blocked_hash = qt_hash t, blocked_sender = qt_sender t, blocked_nonce = qt_nonce t,
            blocked_expected_nonce = Some expected_nonce\<rparr>)"

section \<open>What a simulation request contains\<close>

text \<open>The transactions at or below a requested transaction of the same sender.\<close>

definition covered :: "validated_transaction list \<Rightarrow> TxHash set \<Rightarrow> validated_transaction \<Rightarrow> bool" where
  "covered executable requested tx \<longleftrightarrow>
     (\<exists>r \<in> set executable. vt_hash r \<in> requested \<and> tx_sender tx = tx_sender r \<and>
        tx_nonce tx \<le> tx_nonce r)"

lemma select_for_hit:
  assumes "distinct (map vt_hash executable)" and "r \<in> set executable"
  shows "select_for executable selected (vt_hash r) =
    Inr (selected \<union> vt_hash ` {tx \<in> set executable. tx_sender tx = tx_sender r \<and> tx_nonce tx \<le> tx_nonce r})"
proof -
  have "find (\<lambda>tx. vt_hash tx = vt_hash r) executable = Some r"
    using assms by (induction executable) (auto simp: image_iff)
  moreover have "foldl (\<lambda>selected tx. if dec_sender (vt_decoded tx) = dec_sender (vt_decoded r) \<and>
      dec_nonce (vt_decoded tx) \<le> dec_nonce (vt_decoded r) then insert (vt_hash tx) selected
      else selected) s xs =
    s \<union> vt_hash ` {tx \<in> set xs. tx_sender tx = tx_sender r \<and> tx_nonce tx \<le> tx_nonce r}" for s xs
    by (induction xs arbitrary: s) auto
  ultimately show ?thesis by (simp add: select_for_def)
qed

lemma select_for_miss:
  "h \<notin> vt_hash ` set executable \<Longrightarrow> select_for executable selected h = Inl ()"
  by (auto simp: select_for_def find_None_iff split: option.split)

lemma select_all:
  assumes "distinct (map vt_hash executable)"
  shows "fold_result (select_for executable) selected requested =
    (if set requested \<subseteq> vt_hash ` set executable
     then Inr (selected \<union> vt_hash ` {tx \<in> set executable. covered executable (set requested) tx})
     else Inl ())"
proof (induction requested arbitrary: selected)
  case (Cons h requested)
  show ?case
  proof (cases "h \<in> vt_hash ` set executable")
    case True
    then obtain r where r: "r \<in> set executable" "h = vt_hash r" by blast
    have uniq: "r' = r" if "r' \<in> set executable" "vt_hash r' = vt_hash r" for r'
      using that r assms by (auto simp: distinct_map dest: inj_onD)
    have "{tx \<in> set executable. covered executable (set (h # requested)) tx} =
        {tx \<in> set executable. tx_sender tx = tx_sender r \<and> tx_nonce tx \<le> tx_nonce r} \<union>
        {tx \<in> set executable. covered executable (set requested) tx}"
      unfolding covered_def using r uniq by fastforce
    then show ?thesis
      using r by (simp add: select_for_hit [OF assms] Cons.IH image_Un Un_assoc)
  qed (simp add: select_for_miss)
qed (simp add: covered_def)

lemma request_of_frontier:
  assumes "distinct (map vt_hash executable)"
  shows "build_remote_simulation_request opportunity executable =
    (if set (requested_hashes opportunity) \<subseteq> vt_hash ` set executable
     then Some (let txs = filter (covered executable (set (requested_hashes opportunity))) executable
       in \<lparr>rsr_tx_hash = opr_tx_hash (exo_record opportunity), rsr_member_tx_hashes = map vt_hash txs,
          rsr_txs = txs, rsr_detected_unix_ms = opr_detected_unix_ms (exo_record opportunity)\<rparr>)
     else None)"
proof -
  let ?R = "set (requested_hashes opportunity)"
  have "filter (\<lambda>tx. vt_hash tx \<in> ?R \<union> vt_hash ` {tx \<in> set executable. covered executable ?R tx}) executable =
      filter (covered executable ?R) executable"
  proof (rule filter_cong [OF refl])
    fix tx assume tx: "tx \<in> set executable"
    then have "tx' = tx" if "tx' \<in> set executable" "vt_hash tx' = vt_hash tx" for tx'
      using that assms by (auto simp: distinct_map dest: inj_onD)
    then show "vt_hash tx \<in> ?R \<union> vt_hash ` {tx \<in> set executable. covered executable ?R tx} \<longleftrightarrow>
        covered executable ?R tx"
      using tx by (auto simp: covered_def)
  qed
  then show ?thesis
    by (simp add: build_remote_simulation_request_def select_all [OF assms] Let_def)
qed

text \<open>
  Property C10. A simulation request over the ready frontier of a reachable scheduler can be
  executed as it stands. It is refused exactly when a requested transaction is not ready.
  Otherwise it holds the requested transactions and the ready transactions of the same
  senders at lower nonces, each once and nothing else, and every transaction is preceded by
  all queued ones of its sender with a lower nonce.
\<close>

theorem simulation_request_executable:
  fixes config cmds opportunity
  defines "st \<equiv> snd (run_commands config default_scheduler_state cmds)"
  defines "E \<equiv> sn_ready (scheduler_state_snapshot st)"
  defines "R \<equiv> set (requested_hashes opportunity)"
  shows "case build_remote_simulation_request opportunity E of
      None \<Rightarrow> \<not> R \<subseteq> vt_hash ` set E
    | Some request \<Rightarrow>
        R \<subseteq> set (rsr_member_tx_hashes request) \<and>
        rsr_member_tx_hashes request = map vt_hash (rsr_txs request) \<and>
        distinct (rsr_member_tx_hashes request) \<and>
        set (rsr_txs request) = {tx \<in> set E. covered E R tx} \<and>
        preceded (nonces_before (ss_sender_queues st)) {} (rsr_txs request)"
proof -
  have wf: "sched_wf st" unfolding st_def by (rule run_commands_wf)
  have E: "E = fst (classify_by_sender st)"
    by (simp add: E_def scheduler_state_snapshot_def split: prod.split)
  note build = request_of_frontier [OF frontier_distinct [OF wf], folded E, of opportunity]
  have "preceded (nonces_before (ss_sender_queues st)) ({} \<inter> {tx. covered E R tx}) (filter (covered E R) E)"
  proof (rule preceded_filter)
    show "preceded (nonces_before (ss_sender_queues st)) {} E"
      unfolding E by (rule frontier_preceded [OF wf])
    show "nonces_before (ss_sender_queues st) (A \<inter> {tx. covered E R tx}) tx"
      if "nonces_before (ss_sender_queues st) A tx" "covered E R tx" for A tx
      using that unfolding nonces_before_def covered_def by (fastforce intro: less_imp_le)
  qed
  moreover have "distinct (map vt_hash (filter (covered E R) E))"
    using frontier_distinct [OF wf] by (simp add: E distinct_map_filter)
  moreover have "R \<subseteq> vt_hash ` {tx \<in> set E. covered E R tx}" if "R \<subseteq> vt_hash ` set E"
    using that unfolding covered_def by fastforce
  ultimately show ?thesis
    unfolding build Let_def R_def [symmetric] by (simp split: if_split)
qed

end
