(* ===== verification/Live_Rpc_Pipeline.thy ===== *)
theory Live_Rpc_Pipeline
  imports Live_Rpc_Requests Live_Rpc_Worker Scheduler_Actor Storage_Writer Ingest_Dedup
begin

text \<open>
  The pipeline of a live transaction (\<^verbatim>\<open>src/crates/runtime-core/src/live_rpc.rs\<close>):
  from a batch of pending hashes to admission by the scheduler, the writes to the storage
  writer, the opportunities, and the simulation tasks. Other tasks run concurrently: before
  each interaction they may have changed the shared state in any way, and whether a bounded
  queue has room is an answer of the environment. What one run of the pipeline itself writes
  and enqueues is recorded in order.
\<close>

section \<open>State and environment\<close>

record registered_simulation_candidate =
  rgc_spec :: simulation_task_spec
  rgc_opportunity :: executable_opportunity

record simulation_task =
  smt_chain :: chain_rpc_config
  smt_request :: remote_simulation_request
  smt_candidates :: "registered_simulation_candidate list"
  smt_enqueued_unix_ms :: i64

record live_shared =
  lsh_core :: runtime_core
  lsh_scheduler :: scheduler_actor
  lsh_next_seq_id :: u64

record live_run =
  lrn_shared :: live_shared
  lrn_turn :: nat
  lrn_written :: "storage_write_op list"
  lrn_tasks :: "simulation_task list"

datatype storage_try_enqueue_error = WriterQueueFull | WriterQueueClosed

datatype simulation_send = SimAccepted | SimFull | SimClosed

text \<open>
  The answers to the n-th interaction: what the others did before it, the answer of the
  storage queue and of the simulation queue, and whether the scheduler's task ended before it
  handled the command.
\<close>

record surroundings =
  sur_others :: "nat \<Rightarrow> live_shared \<Rightarrow> live_shared"
  sur_storage :: "nat \<Rightarrow> storage_try_enqueue_error + unit"
  sur_simulation :: "nat \<Rightarrow> simulation_send"
  sur_scheduler_ends :: "nat \<Rightarrow> bool"

text \<open>A step goes on with a value, returns \<^verbatim>\<open>Ok(())\<close> early, or fails.\<close>

datatype 'a flow = Go 'a | Done | Raise anyhow

type_synonym 'a live = "live_run \<Rightarrow> 'a flow \<times> live_run"

definition and_then :: "'a live \<Rightarrow> ('a \<Rightarrow> 'b live) \<Rightarrow> 'b live" where
  "and_then m f s =
     (case m s of (Go x, s') \<Rightarrow> f x s' | (Done, s') \<Rightarrow> (Done, s') | (Raise e, s') \<Rightarrow> (Raise e, s'))"

fun in_order :: "unit live list \<Rightarrow> unit live" where
  "in_order [] s = (Go (), s)"
| "in_order (m # ms) s = and_then m (\<lambda>_. in_order ms) s"

definition take_turn :: "surroundings \<Rightarrow> live_run \<Rightarrow> live_run" where
  "take_turn env s =
     s\<lparr>lrn_shared := sur_others env (lrn_turn s) (lrn_shared s), lrn_turn := Suc (lrn_turn s)\<rparr>"

definition on_core :: "(runtime_core \<Rightarrow> runtime_core) \<Rightarrow> live_run \<Rightarrow> live_run" where
  "on_core f s = s\<lparr>lrn_shared := (lrn_shared s)\<lparr>lsh_core := f (lsh_core (lrn_shared s))\<rparr>\<rparr>"

section \<open>Writes\<close>

fun classify_storage_enqueue_drop_reason :: "storage_try_enqueue_error \<Rightarrow> live_rpc_drop_reason" where
  "classify_storage_enqueue_drop_reason WriterQueueFull = StorageQueueFull"
| "classify_storage_enqueue_drop_reason WriterQueueClosed = StorageQueueClosed"

definition try_enqueue_storage_write ::
  "surroundings \<Rightarrow> storage_write_op \<Rightarrow> live_run \<Rightarrow> (anyhow + bool) \<times> live_run" where
  "try_enqueue_storage_write env op s =
     (let answer = sur_storage env (lrn_turn s); s = take_turn env s
      in case answer of
           Inr _ \<Rightarrow> (Inr True, s\<lparr>lrn_written := lrn_written s @ [op]\<rparr>)
         | Inl error \<Rightarrow>
             let s = on_core (observe_drop_reason (classify_storage_enqueue_drop_reason error)) s
             in (case error of
                   WriterQueueFull \<Rightarrow> (Inr False, s)
                 | WriterQueueClosed \<Rightarrow> (Inl [''storage writer queue is closed''], s)))"

definition put_op :: "surroundings \<Rightarrow> storage_write_op \<Rightarrow> unit live" where
  "put_op env op s =
     (case try_enqueue_storage_write env op s of
        (Inl e, s') \<Rightarrow> (Raise e, s') | (Inr True, s') \<Rightarrow> (Go (), s') | (Inr False, s') \<Rightarrow> (Done, s'))"

text \<open>\<^verbatim>\<open>next_seq_id.fetch_add(1)\<close> wraps around.\<close>

definition fetch_add_seq :: "surroundings \<Rightarrow> live_run \<Rightarrow> u64 \<times> live_run" where
  "fetch_add_seq env s =
     (let s = take_turn env s; seq_id = lsh_next_seq_id (lrn_shared s)
      in (seq_id, s\<lparr>lrn_shared := (lrn_shared s)\<lparr>lsh_next_seq_id := seq_id + 1\<rparr>\<rparr>))"

definition append_event_with_owner ::
  "surroundings \<Rightarrow> chain_rpc_config \<Rightarrow> i64 \<Rightarrow> event_payload \<Rightarrow> unit live" where
  "append_event_with_owner env chain now_unix_ms payload s =
     (let (seq_id, s) = fetch_add_seq env s
      in put_op env (AppendPayload (crc_source_id chain) payload now_unix_ms (sat_mul seq_id 1000000)) s)"

section \<open>The scheduler\<close>

fun enqueue_error_debug :: "scheduler_enqueue_error \<Rightarrow> string" where
  "enqueue_error_debug QueueFull = ''QueueFull''"
| "enqueue_error_debug QueueClosed = ''QueueClosed''"

text \<open>
  \<^verbatim>\<open>send_command_with_reply\<close>: the command waits behind those that are buffered, and
  the reply comes when the runtime has handled them all.
\<close>

definition send_command_with_reply ::
  "surroundings \<Rightarrow> scheduler_command \<Rightarrow> live_run
    \<Rightarrow> (scheduler_enqueue_error + scheduler_reply) \<times> live_run" where
  "send_command_with_reply env command s =
     (let ends = sur_scheduler_ends env (lrn_turn s);
          s = take_turn env s;
          (sent, a) = try_send_command (lsh_scheduler (lrn_shared s)) command;
          put = (\<lambda>a. s\<lparr>lrn_shared := (lrn_shared s)\<lparr>lsh_scheduler := a\<rparr>\<rparr>)
      in case sent of
           Inl e \<Rightarrow> (Inl e, put a)
         | Inr _ \<Rightarrow>
             if ends then (Inl QueueClosed, put (a\<lparr>sa_receiver_open := False, sa_buffer := []\<rparr>))
             else let (replies, st) = run_commands (sa_config a) (sa_state a) (sa_buffer a)
                  in (Inr (last replies), put (a\<lparr>sa_buffer := [], sa_state := st\<rparr>)))"

text \<open>A reading of the shared scheduler state.\<close>

definition read_scheduler :: "surroundings \<Rightarrow> (scheduler_state \<Rightarrow> 'a) \<Rightarrow> 'a live" where
  "read_scheduler env f s =
     (let s = take_turn env s in (Go (f (sa_state (lsh_scheduler (lrn_shared s)))), s))"

datatype scheduler_persistence_decision =
    AdmittedDecision | DuplicateDecision | ReplacedDecision TxHash | DroppedDecision string

fun from_admission :: "scheduler_admission \<Rightarrow> scheduler_persistence_decision" where
  "from_admission Admitted = AdmittedDecision"
| "from_admission Duplicate = DuplicateDecision"
| "from_admission (Replaced h) = ReplacedDecision h"
| "from_admission UnderpricedReplacement = DroppedDecision ''underpriced_replacement''"
| "from_admission SenderLimitReached = DroppedDecision ''sender_limit_reached''"

fun decision_is_admitted :: "scheduler_persistence_decision \<Rightarrow> bool" where
  "decision_is_admitted AdmittedDecision = True"
| "decision_is_admitted (ReplacedDecision _) = True"
| "decision_is_admitted _ = False"

definition emits_decoded :: "scheduler_persistence_decision \<Rightarrow> bool" where
  "emits_decoded d = decision_is_admitted d"

fun decision_replaced_hash :: "scheduler_persistence_decision \<Rightarrow> TxHash option" where
  "decision_replaced_hash (ReplacedDecision h) = Some h"
| "decision_replaced_hash _ = None"

fun decision_dropped_reason :: "scheduler_persistence_decision \<Rightarrow> string option" where
  "decision_dropped_reason (DroppedDecision reason) = Some reason"
| "decision_dropped_reason _ = None"

fun decision_label :: "scheduler_persistence_decision \<Rightarrow> string" where
  "decision_label AdmittedDecision = ''admitted''"
| "decision_label DuplicateDecision = ''duplicate''"
| "decision_label (ReplacedDecision _) = ''replaced''"
| "decision_label (DroppedDecision reason) = reason"

type_synonym scheduler_verdict = "scheduler_persistence_decision \<times> scheduler_queue_transition list"

text \<open>The reply of a command has the type of the command; the last branch cannot be taken.\<close>

definition admit_verdict ::
  "surroundings \<Rightarrow> validated_transaction \<Rightarrow> scheduler_verdict live" where
  "admit_verdict env validated s =
     (case send_command_with_reply env (Admit validated) s of
        (Inr (AdmitReply outcome), s') \<Rightarrow>
          (Go (from_admission (ao_admission outcome), ao_queue_transitions outcome), s')
      | (Inl QueueFull, s') \<Rightarrow> (Go (DroppedDecision ''queue_full'', []), s')
      | (_, s') \<Rightarrow> (Raise [''scheduler admission failed: queue closed''], s'))"

definition invalidate_replaced :: "surroundings \<Rightarrow> TxHash \<Rightarrow> unit live" where
  "invalidate_replaced env hash s =
     (case send_command_with_reply env (InvalidateCandidateHash hash) s of
        (Inr _, s') \<Rightarrow> (Go (), s')
      | (Inl e, s') \<Rightarrow> (Raise [''scheduler candidate invalidation failed: '' @ enqueue_error_debug e], s'))"

definition register_prepared ::
  "surroundings \<Rightarrow> scheduler_candidate list \<Rightarrow> simulation_task_spec list live" where
  "register_prepared env candidates s =
     (case send_command_with_reply env (RegisterCandidates candidates) s of
        (Inr (RegisterReply dispatch), s') \<Rightarrow> (Go (cd_simulation_tasks dispatch), s')
      | (Inl e, s') \<Rightarrow> (Raise [''scheduler candidate registration failed: '' @ enqueue_error_debug e], s')
      | (Inr _, s') \<Rightarrow> (Raise [''scheduler candidate registration failed: QueueClosed''], s'))"

section \<open>Simulation tasks\<close>

record simulation_service =
  sls_queue_capacity :: usize
  sls_worker_total :: usize

text \<open>The counters are configured and updated after the send.\<close>

definition enqueue_simulation_task ::
  "surroundings \<Rightarrow> simulation_service \<Rightarrow> simulation_task \<Rightarrow> live_run \<Rightarrow> (anyhow + bool) \<times> live_run" where
  "enqueue_simulation_task env service task s =
     (let answer = sur_simulation env (lrn_turn s);
          s = take_turn env s;
          configure = configure_simulation_queue (sls_queue_capacity service) (sls_worker_total service)
      in case answer of
           SimAccepted \<Rightarrow>
             (Inr True, on_core (on_simulation_metrics (observe_simulation_enqueue \<circ> configure))
                (s\<lparr>lrn_tasks := lrn_tasks s @ [task]\<rparr>))
         | SimFull \<Rightarrow>
             (Inr False, on_core (on_simulation_metrics (observe_simulation_queue_full_drop \<circ> configure)) s)
         | SimClosed \<Rightarrow> (Inl [''live rpc simulation queue closed''], s))"

type_synonym prepared_task = "scheduler_candidate \<times> remote_simulation_request \<times> executable_opportunity"
type_synonym task_group = "remote_simulation_request \<times> registered_simulation_candidate list"

definition prepare_simulation_tasks ::
  "executable_opportunity list \<Rightarrow> validated_transaction list \<Rightarrow> prepared_task list" where
  "prepare_simulation_tasks opps context =
     List.map_filter (\<lambda>opportunity.
       map_option (\<lambda>request.
           (scheduler_candidate_from_executable_opportunity opportunity, request, opportunity))
         (build_remote_simulation_request opportunity context)) opps"

text \<open>The entry of a task key: its request is the first one, the candidates are appended.\<close>

definition group_task ::
  "(string, task_group) btree_map \<Rightarrow> simulation_task_spec \<Rightarrow> remote_simulation_request
    \<Rightarrow> executable_opportunity \<Rightarrow> (string, task_group) btree_map" where
  "group_task grouped spec request opportunity =
     (let key = simulation_task_key request;
          registered = \<lparr>rgc_spec = spec, rgc_opportunity = opportunity\<rparr>
      in bt_insert key
           (case bt_get grouped key of
              Some (first_request, candidates) \<Rightarrow> (first_request, candidates @ [registered])
            | None \<Rightarrow> (request, [registered])) grouped)"

fun queue_candidates ::
  "surroundings \<Rightarrow> chain_rpc_config \<Rightarrow> i64 \<Rightarrow> (simulation_task_spec \<times> prepared_task) list
    \<Rightarrow> (string, task_group) btree_map \<Rightarrow> (string, task_group) btree_map live" where
  "queue_candidates env chain now [] grouped s = (Go grouped, s)"
| "queue_candidates env chain now ((spec, cand, request, opportunity) # rest) grouped s =
     and_then (append_event_with_owner env chain now
         (build_candidate_queued_payload cand (exo_record opportunity)))
       (\<lambda>_. queue_candidates env chain now rest (group_task grouped spec request opportunity)) s"

definition dispatch_group ::
  "surroundings \<Rightarrow> simulation_service \<Rightarrow> chain_rpc_config \<Rightarrow> i64 \<Rightarrow> task_group \<Rightarrow> unit live" where
  "dispatch_group env service chain now grp s =
     (let (request, candidates) = grp
      in case enqueue_simulation_task env service
                \<lparr>smt_chain = chain, smt_request = request, smt_candidates = candidates,
                 smt_enqueued_unix_ms = now\<rparr> s of
           (Inl e, s') \<Rightarrow> (Raise e, s')
         | (Inr enqueued, s') \<Rightarrow>
             if enqueued
             then in_order (map (\<lambda>c. append_event_with_owner env chain now
                    (build_sim_dispatched_payload (rgc_spec c))) candidates) s'
             else (Go (), s'))"

definition dispatch_simulations ::
  "surroundings \<Rightarrow> simulation_service \<Rightarrow> chain_rpc_config \<Rightarrow> i64 \<Rightarrow> executable_opportunity list
    \<Rightarrow> validated_transaction list \<Rightarrow> unit live" where
  "dispatch_simulations env service chain now opps context s =
     (let prepared = prepare_simulation_tasks opps context
      in if prepared = [] then (Go (), s)
         else and_then (register_prepared env (map fst prepared)) (\<lambda>tasks.
           and_then (queue_candidates env chain now (zip tasks prepared) bt_empty) (\<lambda>grouped.
             in_order (map (dispatch_group env service chain now) (bt_values grouped)))) s)"

section \<open>One pending transaction\<close>

record pending_hash_observation =
  pho_hash_hex :: string
  pho_observed_at_unix_ms :: i64
  pho_observed_at_mono_ns :: u64

definition tx_full_of :: "chain_rpc_config \<Rightarrow> live_tx \<Rightarrow> tx_full_record" where
  "tx_full_of chain tx =
     \<lparr>tfu_hash = ltx_hash tx, tfu_tx_type = ltx_tx_type tx, tfu_sender = ltx_sender tx,
      tfu_nonce = ltx_nonce tx, tfu_to = ltx_to tx,
      tfu_chain_id = resolve_record_chain_id (crc_chain_id chain) (ltx_chain_id tx),
      tfu_value_wei = ltx_value_wei tx, tfu_gas_limit = ltx_gas_limit tx,
      tfu_gas_price_wei = ltx_gas_price_wei tx,
      tfu_max_fee_per_gas_wei = ltx_max_fee_per_gas_wei tx,
      tfu_max_priority_fee_per_gas_wei = ltx_max_priority_fee_per_gas_wei tx,
      tfu_max_fee_per_blob_gas_wei = ltx_max_fee_per_blob_gas_wei tx,
      tfu_calldata_len = Some (of_nat (length (ltx_input tx))), tfu_raw_tx = ltx_input tx\<rparr>"

definition tx_features_of ::
  "protocol_registry \<Rightarrow> chain_rpc_config \<Rightarrow> live_tx \<Rightarrow> tx_features_record" where
  "tx_features_of reg chain tx =
     (let analysis = analyze_transaction reg (feature_input_of tx)
      in \<lparr>tft_hash = ltx_hash tx,
          tft_chain_id = resolve_record_chain_id (crc_chain_id chain) (ltx_chain_id tx),
          tft_protocol = fa_protocol analysis, tft_category = fa_category analysis,
          tft_mev_score = fa_mev_score analysis, tft_urgency_score = fa_urgency_score analysis,
          tft_method_selector = fa_method_selector analysis,
          tft_feature_engine_version = feature_engine_version\<rparr>)"

text \<open>The transitions, the opportunities of the ready transactions, and their simulations.\<close>

definition opportunity_stage ::
  "protocol_registry \<Rightarrow> surroundings \<Rightarrow> simulation_service \<Rightarrow> chain_rpc_config \<Rightarrow> i64 \<Rightarrow> u64 option
    \<Rightarrow> scheduler_queue_transition list \<Rightarrow> unit live" where
  "opportunity_stage reg env service chain now chain_id transitions =
     and_then (read_scheduler env (\<lambda>st. ready_transactions_for_queue_transitions st transitions)) (\<lambda>executable.
     and_then (read_scheduler env (\<lambda>st. ready_frontier_for_queue_transitions st transitions)) (\<lambda>context.
     and_then (in_order (map (\<lambda>t. append_event_with_owner env chain now (transition_payload t)) transitions)) (\<lambda>_ s.
       let opps = build_executable_opportunities reg executable now chain_id;
           rows = map exo_record opps;
           s = (if executable \<noteq> [] \<and> rows \<noteq> [] then on_core (observe_searcher_batch rows) (take_turn env s)
                else s)
       in and_then (in_order (map (\<lambda>r. append_event_with_owner env chain now
                (build_opportunity_detected_payload r)) rows))
            (\<lambda>_. dispatch_simulations env service chain now opps context) s)))"

definition persist_tx ::
  "protocol_registry \<Rightarrow> surroundings \<Rightarrow> simulation_service \<Rightarrow> chain_rpc_config \<Rightarrow> i64
    \<Rightarrow> pending_hash_observation \<Rightarrow> live_tx \<Rightarrow> scheduler_verdict \<Rightarrow> unit live" where
  "persist_tx reg env service chain now obs tx verdict =
     (let (decision, transitions) = verdict;
          decoded = vt_decoded (validated_transaction_from_live_tx chain (pho_observed_at_unix_ms obs)
            (pho_observed_at_mono_ns obs) tx);
          emit = append_event_with_owner env chain now
      in in_order
          ([put_op env (UpsertTxFull (tx_full_of chain tx)),
            put_op env (UpsertTxFeatures (tx_features_of reg chain tx))] @
           (case decision_replaced_hash decision of
              Some h \<Rightarrow> [emit (TxReplaced \<lparr>replaced_hash = h, replaced_by = ltx_hash tx\<rparr>),
                         invalidate_replaced env h]
            | None \<Rightarrow> []) @
           (if emits_decoded decision then [emit (TxDecoded decoded)] else []) @
           (case decision_dropped_reason decision of
              Some reason \<Rightarrow> [emit (TxDropped \<lparr>dropped_hash = ltx_hash tx, dropped_reason = reason\<rparr>)]
            | None \<Rightarrow> []) @
           [opportunity_stage reg env service chain now
              (resolve_record_chain_id (crc_chain_id chain) (ltx_chain_id tx)) transitions]))"

text \<open>The sequence number taken for \<^verbatim>\<open>TxSeen\<close> is not used.\<close>

definition observe_seen ::
  "surroundings \<Rightarrow> chain_rpc_config \<Rightarrow> i64 \<Rightarrow> pending_hash_observation \<Rightarrow> TxHash \<Rightarrow> unit live" where
  "observe_seen env chain now obs hash s =
     in_order
       [put_op env (AppendPayload (crc_source_id chain)
          (TxSeen \<lparr>seen_hash = hash, seen_peer_id = ''rpc-ws'',
             seen_at_unix_ms = pho_observed_at_unix_ms obs,
             seen_at_mono_ns = pho_observed_at_mono_ns obs\<rparr>)
          (pho_observed_at_unix_ms obs) (pho_observed_at_mono_ns obs)),
        put_op env (UpsertTxSeen \<lparr>tsn_hash = hash, tsn_peer = ''rpc-ws'',
          tsn_first_seen_unix_ms = pho_observed_at_unix_ms obs,
          tsn_first_seen_mono_ns = pho_observed_at_mono_ns obs, tsn_seen_count = 1\<rparr>),
        append_event_with_owner env chain now
          (TxFetched \<lparr>fetched_hash = hash, fetched_at_unix_ms = now\<rparr>)]
       (snd (fetch_add_seq env s))"

definition process_pending_hash_with_fetched_tx ::
  "protocol_registry \<Rightarrow> surroundings \<Rightarrow> simulation_service \<Rightarrow> chain_rpc_config \<Rightarrow> i64
    \<Rightarrow> pending_hash_observation \<Rightarrow> TxHash \<Rightarrow> live_tx option \<Rightarrow> unit live" where
  "process_pending_hash_with_fetched_tx reg env service chain now obs hash fetched_tx =
     (case fetched_tx of
        None \<Rightarrow> observe_seen env chain now obs hash
      | Some tx \<Rightarrow>
          and_then (admit_verdict env (validated_transaction_from_live_tx chain
              (pho_observed_at_unix_ms obs) (pho_observed_at_mono_ns obs) tx)) (\<lambda>verdict.
            and_then (observe_seen env chain now obs hash)
              (\<lambda>_. persist_tx reg env service chain now obs tx verdict)))"

text \<open>The result that the caller sees: an early return is a success.\<close>

fun completed :: "'a flow \<times> live_run \<Rightarrow> (anyhow + unit) \<times> live_run" where
  "completed (Go _, s) = (Inr (), s)"
| "completed (Done, s) = (Inr (), s)"
| "completed (Raise e, s) = (Inl e, s)"

end
