(* ===== verification/Live_Rpc_Trace.thy ===== *)
theory Live_Rpc_Trace
  imports Live_Rpc_Pipeline "HOL-Library.Sublist"
begin

text \<open>
  What the pipeline of a live transaction writes and enqueues, whatever the other tasks do
  between its steps and whatever the queues answer: the order of the writes along the life
  cycle of a transaction, what a refused write leaves undone, and the agreement of the
  simulation tasks with the candidates that the scheduler registered.
\<close>

section \<open>Traces\<close>

text \<open>
  Every run of \<open>m\<close> appends some writes and some tasks, and \<open>Q\<close> holds of its result and of
  what it appended.
\<close>

definition emits ::
  "'a live \<Rightarrow> ('a flow \<Rightarrow> storage_write_op list \<Rightarrow> simulation_task list \<Rightarrow> bool) \<Rightarrow> bool" where
  "emits m Q \<longleftrightarrow> (\<forall>s. \<exists>ops ts. lrn_written (snd (m s)) = lrn_written s @ ops \<and>
     lrn_tasks (snd (m s)) = lrn_tasks s @ ts \<and> Q (fst (m s)) ops ts)"

lemma emits_weaken: "emits m Q \<Longrightarrow> (\<And>r ops ts. Q r ops ts \<Longrightarrow> R r ops ts) \<Longrightarrow> emits m R"
  unfolding emits_def by blast

lemma emits_and_then:
  assumes "emits m Q"
    and "\<And>x ops ts. Q (Go x) ops ts \<Longrightarrow> emits (f x) (R x)"
    and "\<And>x ops ts r ops' ts'. Q (Go x) ops ts \<Longrightarrow> R x r ops' ts' \<Longrightarrow> S r (ops @ ops') (ts @ ts')"
    and "\<And>ops ts. Q Done ops ts \<Longrightarrow> S Done ops ts"
    and "\<And>e ops ts. Q (Raise e) ops ts \<Longrightarrow> S (Raise e) ops ts"
  shows "emits (and_then m f) S"
  unfolding emits_def
proof
  fix s
  obtain r s' where m: "m s = (r, s')" by (cases "m s")
  obtain ops ts where t: "lrn_written s' = lrn_written s @ ops" "lrn_tasks s' = lrn_tasks s @ ts" "Q r ops ts"
    using assms(1) m unfolding emits_def by (metis fst_conv snd_conv)
  show "\<exists>ops ts. lrn_written (snd (and_then m f s)) = lrn_written s @ ops \<and>
      lrn_tasks (snd (and_then m f s)) = lrn_tasks s @ ts \<and> S (fst (and_then m f s)) ops ts"
  proof (cases r)
    case (Go x)
    obtain ops' ts' where "lrn_written (snd (f x s')) = lrn_written s' @ ops'"
      "lrn_tasks (snd (f x s')) = lrn_tasks s' @ ts'" "R x (fst (f x s')) ops' ts'"
      using assms(2) [of x ops ts] t(3) Go unfolding emits_def by blast
    then show ?thesis
      using t assms(3) [of x ops ts] by (auto simp: and_then_def m Go intro!: exI [of _ "ops @ ops'"] exI [of _ "ts @ ts'"])
  qed (use t assms(4,5) in \<open>auto simp: and_then_def m\<close>)
qed

text \<open>The rule for a property of the trace alone.\<close>

lemma emits_seq:
  assumes "emits m (\<lambda>_. P)" and "\<And>x. emits (f x) (\<lambda>_. R)"
    and "\<And>ops ts ops' ts'. P ops ts \<Longrightarrow> R ops' ts' \<Longrightarrow> S (ops @ ops') (ts @ ts')"
    and "\<And>ops ts. P ops ts \<Longrightarrow> S ops ts"
  shows "emits (and_then m f) (\<lambda>_. S)"
  by (rule emits_and_then [where Q = "\<lambda>_. P" and R = "\<lambda>_ _. R"]) (use assms in auto)

lemma emits_in_order_Cons:
  assumes "emits m (\<lambda>_. P)" and "emits (in_order ms) (\<lambda>_. R)"
    and "\<And>ops ts ops' ts'. P ops ts \<Longrightarrow> R ops' ts' \<Longrightarrow> S (ops @ ops') (ts @ ts')"
    and "\<And>ops ts. P ops ts \<Longrightarrow> S ops ts"
  shows "emits (in_order (m # ms)) (\<lambda>_. S)"
proof -
  have "in_order (m # ms) = and_then m (\<lambda>_. in_order ms)" by (rule ext) simp
  then show ?thesis
    using emits_seq [where m = m and f = "\<lambda>_. in_order ms" and P = P and R = R and S = S] assms by simp
qed

lemma emits_nothing: "(\<And>ops ts. ops = [] \<Longrightarrow> ts = [] \<Longrightarrow> Q (Go ()) ops ts) \<Longrightarrow> emits (in_order []) Q"
  by (simp add: emits_def)

text \<open>The trace of one write, of one event, and of the steps that write nothing.\<close>

lemma trace_take_turn [simp]:
  "lrn_written (take_turn env s) = lrn_written s" "lrn_tasks (take_turn env s) = lrn_tasks s"
  "lrn_written (on_core g s) = lrn_written s" "lrn_tasks (on_core g s) = lrn_tasks s"
  by (simp_all add: take_turn_def on_core_def)

lemma emits_put_op:
  "emits (put_op env op) (\<lambda>r ops ts. ts = [] \<and> (ops = [op] \<and> r = Go () \<or> ops = [] \<and> (\<forall>x. r \<noteq> Go x)))"
  by (auto simp: emits_def put_op_def try_enqueue_storage_write_def Let_def
      split: sum.split storage_try_enqueue_error.split)

lemma emits_event:
  "emits (append_event_with_owner env chain now payload) (\<lambda>r ops ts. ts = [] \<and>
     ((\<exists>at_mono. ops = [AppendPayload (crc_source_id chain) payload now at_mono]) \<and> r = Go () \<or>
      ops = [] \<and> (\<forall>x. r \<noteq> Go x)))"
  unfolding emits_def
proof
  fix s
  define op where "op = AppendPayload (crc_source_id chain) payload now (sat_mul (fst (fetch_add_seq env s)) 1000000)"
  have "lrn_written (snd (fetch_add_seq env s)) = lrn_written s" "lrn_tasks (snd (fetch_add_seq env s)) = lrn_tasks s"
    by (simp_all add: fetch_add_seq_def Let_def)
  moreover have "append_event_with_owner env chain now payload s = put_op env op (snd (fetch_add_seq env s))"
    by (simp add: append_event_with_owner_def split_beta op_def)
  ultimately show "\<exists>ops ts. lrn_written (snd (append_event_with_owner env chain now payload s)) = lrn_written s @ ops \<and>
      lrn_tasks (snd (append_event_with_owner env chain now payload s)) = lrn_tasks s @ ts \<and> ts = [] \<and>
      ((\<exists>at_mono. ops = [AppendPayload (crc_source_id chain) payload now at_mono]) \<and>
         fst (append_event_with_owner env chain now payload s) = Go () \<or>
       ops = [] \<and> (\<forall>x. fst (append_event_with_owner env chain now payload s) \<noteq> Go x))"
    using emits_put_op [of env op] unfolding emits_def op_def by (metis append_Nil2)
qed

lemma trace_send_command:
  "lrn_written (snd (send_command_with_reply env c s)) = lrn_written s"
  "lrn_tasks (snd (send_command_with_reply env c s)) = lrn_tasks s"
  by (simp_all add: send_command_with_reply_def Let_def split_beta split: sum.split if_split)

lemma sent_trace:
  "send_command_with_reply env c s = (r, s') \<Longrightarrow>
    lrn_written s' = lrn_written s \<and> lrn_tasks s' = lrn_tasks s"
  using trace_send_command [of env c s] by simp

lemma emits_commands:
  "emits (admit_verdict env v) (\<lambda>r ops ts. ops = [] \<and> ts = [])"
  "emits (invalidate_replaced env h) (\<lambda>r ops ts. ops = [] \<and> ts = [])"
  "emits (read_scheduler env g) (\<lambda>r ops ts. ops = [] \<and> ts = [])"
  by (auto simp: emits_def admit_verdict_def invalidate_replaced_def read_scheduler_def Let_def
      dest!: sent_trace split: prod.split sum.split scheduler_reply.split scheduler_enqueue_error.split)

lemma emits_prepared:
  assumes "\<And>s. lrn_written (g s) = lrn_written s \<and> lrn_tasks (g s) = lrn_tasks s" and "emits m Q"
  shows "emits (\<lambda>s. m (g s)) Q"
  using assms unfolding emits_def by metis

lemma in_order_append: "in_order (ms @ ns) = and_then (in_order ms) (\<lambda>_. in_order ns)"
proof (rule ext)
  show "in_order (ms @ ns) s = and_then (in_order ms) (\<lambda>_. in_order ns) s" for s
    by (induction ms arbitrary: s) (simp_all add: and_then_def split: prod.split flow.split)
qed

section \<open>The order of the writes\<close>

text \<open>The position of a write in the life cycle, and the transaction that it is about.\<close>

fun phase :: "storage_write_op \<Rightarrow> nat" where
  "phase (AppendPayload _ payload _ _) =
     (case payload of TxSeen _ \<Rightarrow> 0 | TxFetched _ \<Rightarrow> 2 | TxReplaced _ \<Rightarrow> 5 | TxDecoded _ \<Rightarrow> 6
      | TxDropped _ \<Rightarrow> 7 | TxReady _ \<Rightarrow> 8 | TxBlocked _ \<Rightarrow> 8 | OppDetected _ \<Rightarrow> 9
      | CandidateQueued _ \<Rightarrow> 10 | SimDispatched _ \<Rightarrow> 11 | _ \<Rightarrow> 12)"
| "phase (UpsertTxSeen _) = 1"
| "phase (UpsertTxFull _) = 3"
| "phase (UpsertTxFeatures _) = 4"
| "phase _ = 12"

fun written_hash :: "storage_write_op \<Rightarrow> TxHash option" where
  "written_hash (AppendPayload _ payload _ _) =
     Some (case payload of TxReplaced e \<Rightarrow> replaced_by e | _ \<Rightarrow> primary_hash payload)"
| "written_hash (UpsertTxSeen row) = Some (tsn_hash row)"
| "written_hash (UpsertTxFull row) = Some (tfu_hash row)"
| "written_hash (UpsertTxFeatures row) = Some (tft_hash row)"
| "written_hash _ = None"

text \<open>
  In the order of the phases; up to the decision of the scheduler each occurs at most once,
  the later ones may repeat.
\<close>

definition in_life_order :: "storage_write_op list \<Rightarrow> bool" where
  "in_life_order = sorted_wrt (\<lambda>x y. phase x < phase y \<or> phase x = phase y \<and> 8 \<le> phase x)"

definition stage :: "TxHash \<Rightarrow> nat \<Rightarrow> nat \<Rightarrow> storage_write_op list \<Rightarrow> simulation_task list \<Rightarrow> bool" where
  "stage h a b ops ts \<longleftrightarrow> in_life_order ops \<and>
     (\<forall>op \<in> set ops. a \<le> phase op \<and> phase op \<le> b \<and> (phase op \<le> 7 \<longrightarrow> written_hash op = Some h))"

lemma stage_append:
  assumes "stage h a b xs ts" and "stage h c d ys us" and "b < c \<or> b = c \<and> 8 \<le> b" and "a \<le> c" and "b \<le> d"
  shows "stage h a d (xs @ ys) vs"
  using assms unfolding stage_def in_life_order_def sorted_wrt_append
  by (auto, fastforce+)

lemma stage_widen: "stage h c d ops ts \<Longrightarrow> a \<le> c \<Longrightarrow> d \<le> b \<Longrightarrow> stage h a b ops us"
  by (auto simp: stage_def)

lemma stage_nil: "stage h a b [] ts"
  by (simp add: stage_def in_life_order_def)

lemma stage_one: "a \<le> phase op \<Longrightarrow> phase op \<le> b \<Longrightarrow> (phase op \<le> 7 \<Longrightarrow> written_hash op = Some h) \<Longrightarrow> stage h a b [op] ts"
  by (simp add: stage_def in_life_order_def)

lemma stage_and_then:
  assumes "emits m (\<lambda>_. stage h a b)" and "\<And>x. emits (f x) (\<lambda>_. stage h c d)"
    and "b < c \<or> b = c \<and> 8 \<le> b" and "a \<le> c" and "b \<le> d"
  shows "emits (and_then m f) (\<lambda>_. stage h a d)"
  by (rule emits_seq [OF assms(1) assms(2)])
    (auto intro: stage_append [OF _ _ assms(3-5)] stage_widen [OF _ _ assms(5)])

lemma stage_in_order:
  assumes "\<And>m. m \<in> set ms \<Longrightarrow> emits m (\<lambda>_. stage h k k)" and "8 \<le> k"
  shows "emits (in_order ms) (\<lambda>_. stage h k k)"
  using assms(1)
proof (induction ms)
  case (Cons m ms)
  then show ?case
    by (intro emits_in_order_Cons [where P = "stage h k k" and R = "stage h k k"])
      (use assms(2) in \<open>auto intro: stage_append\<close>)
qed (auto intro: emits_nothing stage_nil)

lemma stage_op:
  assumes "phase op = k" and "k \<le> 7 \<Longrightarrow> written_hash op = Some h"
  shows "emits (put_op env op) (\<lambda>_. stage h k k)"
  by (rule emits_weaken [OF emits_put_op]) (use assms in \<open>auto intro: stage_nil stage_one\<close>)

lemma stage_event:
  assumes "\<And>at_mono. phase (AppendPayload (crc_source_id chain) payload now at_mono) = k"
    and "\<And>at_mono. k \<le> 7 \<Longrightarrow> written_hash (AppendPayload (crc_source_id chain) payload now at_mono) = Some h"
  shows "emits (append_event_with_owner env chain now payload) (\<lambda>_. stage h k k)"
  by (rule emits_weaken [OF emits_event]) (use assms in \<open>auto intro: stage_nil stage_one\<close>)

lemma stage_silent: "emits m (\<lambda>r ops ts. ops = [] \<and> ts = []) \<Longrightarrow> emits m (\<lambda>_. stage h a b)"
  by (erule emits_weaken) (auto intro: stage_nil)

lemma stage_quiet_then:
  assumes "emits m (\<lambda>r ops ts. ops = [] \<and> ts = [])" and "\<And>x. emits (f x) (\<lambda>_. stage h a b)"
  shows "emits (and_then m f) (\<lambda>_. stage h a b)"
  by (rule emits_seq [OF assms]) (auto intro: stage_nil stage_widen)

lemma transition_phase: "phase (AppendPayload src (transition_payload t) now at_mono) = 8"
  by (simp add: transition_payload_def split: scheduler_queue_state.split)

lemma stage_queue_candidates:
  "emits (queue_candidates env chain now specs grouped) (\<lambda>_. stage h 10 10)"
proof (induction specs arbitrary: grouped)
  case Nil
  show ?case by (auto simp: emits_def intro: stage_nil)
next
  case (Cons p specs)
  obtain spec cand request opportunity where p: "p = (spec, cand, request, opportunity)"
    by (cases p) auto
  have "queue_candidates env chain now (p # specs) grouped =
      and_then (append_event_with_owner env chain now
        (build_candidate_queued_payload cand (exo_record opportunity)))
      (\<lambda>_. queue_candidates env chain now specs (group_task grouped spec request opportunity))"
    by (rule ext) (simp add: p)
  moreover have "emits (append_event_with_owner env chain now
      (build_candidate_queued_payload cand (exo_record opportunity))) (\<lambda>_. stage h 10 10)"
    by (rule stage_event) (simp_all add: build_candidate_queued_payload_def)
  ultimately show ?case
    by (simp only:) (rule stage_and_then, assumption, rule Cons.IH, simp_all)
qed

text \<open>The offer of a task to the simulation queue, as a step that goes on with the answer.\<close>

definition offer_task :: "surroundings \<Rightarrow> simulation_service \<Rightarrow> simulation_task \<Rightarrow> bool live" where
  "offer_task env service task s =
     (case enqueue_simulation_task env service task s of
        (Inl e, s') \<Rightarrow> (Raise e, s') | (Inr enqueued, s') \<Rightarrow> (Go enqueued, s'))"

lemma dispatch_group_steps:
  "dispatch_group env service chain now (request, candidates) =
     and_then (offer_task env service \<lparr>smt_chain = chain, smt_request = request,
         smt_candidates = candidates, smt_enqueued_unix_ms = now\<rparr>)
       (\<lambda>enqueued. in_order (if enqueued then map (\<lambda>c. append_event_with_owner env chain now
          (build_sim_dispatched_payload (rgc_spec c))) candidates else []))"
  by (rule ext) (simp add: dispatch_group_def and_then_def offer_task_def split: prod.split sum.split)

lemma emits_offer:
  "emits (offer_task env service task) (\<lambda>r ops ts. ops = [] \<and>
     (ts = [task] \<and> r = Go True \<or> ts = [] \<and> r \<noteq> Go True))"
  by (auto simp: emits_def offer_task_def enqueue_simulation_task_def Let_def split: simulation_send.split)

lemma stage_dispatch_group: "emits (dispatch_group env service chain now grp) (\<lambda>_. stage h 11 11)"
proof -
  obtain request candidates where g: "grp = (request, candidates)" by (cases grp)
  show ?thesis
    unfolding g dispatch_group_steps
  proof (rule stage_and_then [where b = 11 and c = 11])
    show "emits (offer_task env service t) (\<lambda>_. stage h 11 11)" for t
      by (rule emits_weaken [OF emits_offer]) (auto intro: stage_nil)
    show "emits (in_order (if enqueued then map (\<lambda>c. append_event_with_owner env chain now
        (build_sim_dispatched_payload (rgc_spec c))) candidates else [])) (\<lambda>_. stage h 11 11)" for enqueued
      by (rule stage_in_order)
        (auto simp: build_sim_dispatched_payload_def split: if_splits intro!: stage_event)
  qed simp_all
qed

lemma emits_register:
  "emits (register_prepared env candidates) (\<lambda>r ops ts. ops = [] \<and> ts = [])"
  by (auto simp: emits_def register_prepared_def dest!: sent_trace
      split: prod.split sum.split scheduler_reply.split)

lemma stage_dispatch: "emits (dispatch_simulations env service chain now opps context) (\<lambda>_. stage h 10 11)"
proof (cases "prepare_simulation_tasks opps context = []")
  case True
  then have "dispatch_simulations env service chain now opps context = in_order []"
    by (intro ext) (simp add: dispatch_simulations_def)
  then show ?thesis by (auto intro: emits_nothing stage_nil)
next
  case False
  let ?prepared = "prepare_simulation_tasks opps context"
  have "dispatch_simulations env service chain now opps context =
      and_then (register_prepared env (map fst ?prepared)) (\<lambda>tasks.
        and_then (queue_candidates env chain now (zip tasks ?prepared) bt_empty) (\<lambda>grouped.
          in_order (map (dispatch_group env service chain now) (bt_values grouped))))"
    using False by (intro ext) (simp add: dispatch_simulations_def Let_def)
  moreover have groups: "emits (in_order (map (dispatch_group env service chain now) gs)) (\<lambda>_. stage h 11 11)" for gs
    by (rule stage_in_order) (auto intro: stage_dispatch_group)
  have "emits (and_then (queue_candidates env chain now specs bt_empty) (\<lambda>grouped.
      in_order (map (dispatch_group env service chain now) (bt_values grouped)))) (\<lambda>_. stage h 10 11)" for specs
    by (rule stage_and_then [OF stage_queue_candidates groups]) simp_all
  ultimately show ?thesis by (simp add: stage_quiet_then [OF emits_register])
qed

lemma stage_opportunities:
  "emits (opportunity_stage reg env service chain now chain_id transitions) (\<lambda>_. stage h 8 11)"
  unfolding opportunity_stage_def
proof (rule stage_quiet_then [OF emits_commands(3) stage_quiet_then [OF emits_commands(3)
        stage_and_then [where b = 8 and c = 9]]])
  show "emits (in_order (map (\<lambda>t. append_event_with_owner env chain now (transition_payload t)) transitions))
      (\<lambda>_. stage h 8 8)"
    by (rule stage_in_order) (auto intro!: stage_event simp: transition_phase simp del: phase.simps)
next
  fix executable frontier x
  let ?opps = "build_executable_opportunities reg executable now chain_id"
  let ?rows = "map exo_record ?opps"
  let ?observe = "\<lambda>s. if executable \<noteq> [] \<and> ?rows \<noteq> []
    then on_core (observe_searcher_batch ?rows) (take_turn env s) else s"
  have "emits (and_then (in_order (map (\<lambda>r. append_event_with_owner env chain now
        (build_opportunity_detected_payload r)) ?rows))
      (\<lambda>_. dispatch_simulations env service chain now ?opps frontier)) (\<lambda>_. stage h 9 11)"
  proof (rule stage_and_then [where b = 9 and c = 10])
    show "emits (in_order (map (\<lambda>r. append_event_with_owner env chain now
        (build_opportunity_detected_payload r)) ?rows)) (\<lambda>_. stage h 9 9)"
      by (rule stage_in_order) (auto intro!: stage_event simp: build_opportunity_detected_payload_def)
  qed (simp_all add: stage_dispatch)
  from emits_prepared [where g = ?observe, OF _ this]
  show "emits (\<lambda>s. let opps = build_executable_opportunities reg executable now chain_id;
        rows = map exo_record opps;
        s = if executable \<noteq> [] \<and> rows \<noteq> []
          then on_core (observe_searcher_batch rows) (take_turn env s) else s
      in and_then (in_order (map (\<lambda>r. append_event_with_owner env chain now
            (build_opportunity_detected_payload r)) rows))
          (\<lambda>_. dispatch_simulations env service chain now opps frontier) s) (\<lambda>_. stage h 9 11)"
    by (simp add: Let_def)
qed simp_all

text \<open>A list of steps, the first of which is the stage \<open>a\<close> alone.\<close>

lemma stage_Cons:
  assumes "emits m (\<lambda>_. stage h a a)" and "emits (in_order ms) (\<lambda>_. stage h c d)" and "a < c" and "c \<le> d"
  shows "emits (in_order (m # ms)) (\<lambda>_. stage h a d)"
  by (rule emits_in_order_Cons [OF assms(1,2)])
    (use assms(3,4) in \<open>auto intro: stage_append stage_widen\<close>)

lemma emits_stage_widen: "emits m (\<lambda>_. stage h c d) \<Longrightarrow> a \<le> c \<Longrightarrow> d \<le> b \<Longrightarrow> emits m (\<lambda>_. stage h a b)"
  by (erule emits_weaken) (rule stage_widen)

lemma stage_persist:
  assumes "ltx_hash tx = h"
  shows "emits (persist_tx reg env service chain now obs tx (decision, transitions)) (\<lambda>_. stage h 3 11)"
proof -
  let ?emit = "append_event_with_owner env chain now"
  let ?decoded = "vt_decoded (validated_transaction_from_live_tx chain (pho_observed_at_unix_ms obs)
    (pho_observed_at_mono_ns obs) tx)"
  let ?opps = "[opportunity_stage reg env service chain now
    (resolve_record_chain_id (crc_chain_id chain) (ltx_chain_id tx)) transitions]"
  let ?dropped = "(case decision_dropped_reason decision of
    Some reason \<Rightarrow> [?emit (TxDropped \<lparr>dropped_hash = ltx_hash tx, dropped_reason = reason\<rparr>)] | None \<Rightarrow> [])"
  let ?decode = "if emits_decoded decision then [?emit (TxDecoded ?decoded)] else []"
  let ?replaced = "(case decision_replaced_hash decision of
    Some h \<Rightarrow> [?emit (TxReplaced \<lparr>replaced_hash = h, replaced_by = ltx_hash tx\<rparr>), invalidate_replaced env h]
  | None \<Rightarrow> [])"
  have opps: "emits (in_order ?opps) (\<lambda>_. stage h 8 11)"
    by (rule emits_in_order_Cons [OF stage_opportunities emits_nothing [where Q = "\<lambda>_ ops ts. ops = [] \<and> ts = []"]])
      (auto intro: stage_widen)
  have "emits (?emit (TxDropped \<lparr>dropped_hash = ltx_hash tx, dropped_reason = reason\<rparr>)) (\<lambda>_. stage h 7 7)" for reason
    by (rule stage_event) (simp_all add: assms)
  then have dropped: "emits (in_order (?dropped @ ?opps)) (\<lambda>_. stage h 7 11)"
    using emits_stage_widen [OF opps] stage_Cons [OF _ opps] by (cases "decision_dropped_reason decision") auto
  have "emits (?emit (TxDecoded ?decoded)) (\<lambda>_. stage h 6 6)"
    by (rule stage_event) (simp_all add: assms validated_transaction_from_live_tx_def)
  then have decode: "emits (in_order (?decode @ ?dropped @ ?opps)) (\<lambda>_. stage h 6 11)"
    using emits_stage_widen [OF dropped] stage_Cons [OF _ dropped] by (cases "emits_decoded decision") auto
  have replace: "emits (?emit (TxReplaced \<lparr>replaced_hash = r, replaced_by = ltx_hash tx\<rparr>)) (\<lambda>_. stage h 5 5)" for r
    by (rule stage_event) (simp_all add: assms)
  have invalidate: "emits (in_order (invalidate_replaced env r # ?decode @ ?dropped @ ?opps)) (\<lambda>_. stage h 6 11)" for r
    by (rule emits_in_order_Cons [OF emits_commands(2) decode]) (auto intro: stage_widen stage_nil)
  have replaced: "emits (in_order (?replaced @ ?decode @ ?dropped @ ?opps)) (\<lambda>_. stage h 5 11)"
  proof (cases "decision_replaced_hash decision")
    case None
    then show ?thesis using emits_stage_widen [OF decode, of 5 11] by simp
  next
    case (Some r)
    then show ?thesis using stage_Cons [OF replace [of r] invalidate [of r]] by simp
  qed
  have features: "emits (put_op env (UpsertTxFeatures (tx_features_of reg chain tx))) (\<lambda>_. stage h 4 4)"
    by (rule stage_op) (simp_all add: assms tx_features_of_def Let_def)
  have full: "emits (put_op env (UpsertTxFull (tx_full_of chain tx))) (\<lambda>_. stage h 3 3)"
    by (rule stage_op) (simp_all add: assms tx_full_of_def)
  show ?thesis
    using stage_Cons [OF full stage_Cons [OF features replaced]] by (simp add: persist_tx_def Let_def)
qed

lemma emits_first_op:
  assumes "phase op = 0" and "written_hash op = Some h" and "emits (in_order ms) (\<lambda>_. stage h 1 b)"
  shows "emits (in_order (put_op env op # ms)) (\<lambda>r ops ts. stage h 0 b ops ts \<and>
    (ops = [] \<or> phase (hd ops) = 0) \<and> ((\<exists>x. r = Go x) \<longrightarrow> ops \<noteq> []))"
proof -
  have split: "in_order (put_op env op # ms) = and_then (put_op env op) (\<lambda>_. in_order ms)"
    by (rule ext) simp
  have "stage h 0 b (op # ops) us" if "stage h 1 b ops ts" for ops ts us
    using that assms(1,2) by (auto simp: stage_def in_life_order_def)
  then show ?thesis
    unfolding split by (intro emits_and_then [OF emits_put_op assms(3)]) (use assms(1) stage_nil in auto)
qed

text \<open>The first three writes; if the steps go on, the first one has been made.\<close>

lemma emits_observe_seen:
  "emits (observe_seen env chain now obs hash) (\<lambda>r ops ts. stage hash 0 2 ops ts \<and>
     (ops = [] \<or> phase (hd ops) = 0) \<and> ((\<exists>x. r = Go x) \<longrightarrow> ops \<noteq> []))"
proof -
  let ?seen = "AppendPayload (crc_source_id chain)
    (TxSeen \<lparr>seen_hash = hash, seen_peer_id = ''rpc-ws'',
       seen_at_unix_ms = pho_observed_at_unix_ms obs, seen_at_mono_ns = pho_observed_at_mono_ns obs\<rparr>)
    (pho_observed_at_unix_ms obs) (pho_observed_at_mono_ns obs)"
  let ?row = "UpsertTxSeen \<lparr>tsn_hash = hash, tsn_peer = ''rpc-ws'',
    tsn_first_seen_unix_ms = pho_observed_at_unix_ms obs,
    tsn_first_seen_mono_ns = pho_observed_at_mono_ns obs, tsn_seen_count = 1\<rparr>"
  let ?fetched = "append_event_with_owner env chain now
    (TxFetched \<lparr>fetched_hash = hash, fetched_at_unix_ms = now\<rparr>)"
  have fetched: "emits (in_order [?fetched]) (\<lambda>_. stage hash 2 2)"
    by (rule emits_in_order_Cons [where P = "stage hash 2 2",
          OF _ emits_nothing [where Q = "\<lambda>_ ops ts. ops = [] \<and> ts = []"]])
      (auto intro: stage_widen intro!: stage_event)
  have rest: "emits (in_order [put_op env ?row, ?fetched]) (\<lambda>_. stage hash 1 2)"
    by (rule stage_Cons [OF stage_op fetched]) simp_all
  have first: "emits (in_order [put_op env ?seen, put_op env ?row, ?fetched]) (\<lambda>r ops ts. stage hash 0 2 ops ts \<and>
      (ops = [] \<or> phase (hd ops) = 0) \<and> ((\<exists>x. r = Go x) \<longrightarrow> ops \<noteq> []))"
    by (rule emits_first_op [OF _ _ rest]) simp_all
  from emits_prepared [where g = "\<lambda>s. snd (fetch_add_seq env s)", OF _ first] show ?thesis
    by (simp add: observe_seen_def [abs_def] fetch_add_seq_def Let_def)
qed

lemma stage_process:
  assumes "\<And>tx. fetched_tx = Some tx \<Longrightarrow> ltx_hash tx = hash"
  shows "emits (process_pending_hash_with_fetched_tx reg env service chain now obs hash fetched_tx)
    (\<lambda>r ops ts. stage hash 0 11 ops ts \<and> (ops = [] \<or> phase (hd ops) = 0))"
proof (cases fetched_tx)
  case None
  then show ?thesis
    by (simp add: process_pending_hash_with_fetched_tx_def)
      (rule emits_weaken [OF emits_observe_seen], auto intro: stage_widen)
next
  case (Some tx)
  have persist: "emits (persist_tx reg env service chain now obs tx verdict) (\<lambda>_. stage hash 3 11)" for verdict
    using stage_persist assms [OF Some] by (cases verdict) simp
  have "emits (and_then (observe_seen env chain now obs hash) (\<lambda>_. persist_tx reg env service chain now obs tx verdict))
      (\<lambda>r ops ts. stage hash 0 11 ops ts \<and> (ops = [] \<or> phase (hd ops) = 0))" for verdict
    by (rule emits_and_then [OF emits_observe_seen persist])
      (auto intro: stage_widen intro!: stage_append [where b = 2 and c = 3])
  then show ?thesis
    unfolding process_pending_hash_with_fetched_tx_def Some option.case
    by (rule emits_and_then [OF emits_commands(1)]) (auto intro: stage_nil)
qed

text \<open>
  Property C2. Nothing about a transaction is written before the observation that introduced it:
  when the node answers with the transaction asked for, the writes of one run, as far as the queue
  takes them, begin with its TxSeen event, follow the life cycle, decisions of the scheduler at
  most once each, and up to these decisions are all about this transaction.
\<close>

theorem tx_seen_written_first:
  assumes "\<forall>tx. fetched_tx = Some tx \<longrightarrow> ltx_hash tx = hash"
  shows "\<exists>ops. lrn_written (snd (process_pending_hash_with_fetched_tx reg env service chain now obs hash
        fetched_tx s)) = lrn_written s @ ops \<and>
      in_life_order ops \<and> (ops = [] \<or> phase (hd ops) = 0) \<and>
      (\<forall>op \<in> set ops. phase op \<le> 7 \<longrightarrow> written_hash op = Some hash)"
  using stage_process [of fetched_tx hash reg env service chain now obs] assms
  unfolding emits_def stage_def by blast

section \<open>A refused write\<close>

text \<open>The same surroundings, with room for every write.\<close>

definition accepting :: "surroundings \<Rightarrow> surroundings" where
  "accepting env = env\<lparr>sur_storage := \<lambda>_. Inr ()\<rparr>"

text \<open>\<open>m\<close> does what \<open>m'\<close> does, or ends early having written a part of what \<open>m'\<close> writes.\<close>

definition cuts :: "'a live \<Rightarrow> 'a live \<Rightarrow> bool" where
  "cuts m m' \<longleftrightarrow> emits m' (\<lambda>_ _ _. True) \<and>
     (\<forall>s. m s = m' s \<or> (\<forall>x. fst (m s) \<noteq> Go x) \<and>
        prefix (lrn_written (snd (m s))) (lrn_written (snd (m' s))) \<and>
        prefix (lrn_tasks (snd (m s))) (lrn_tasks (snd (m' s))))"

lemma cuts_same: "emits m Q \<Longrightarrow> cuts m m"
  by (auto simp: cuts_def elim: emits_weaken)

lemma cuts_and_then:
  assumes "cuts m m'" and "\<And>x. cuts (f x) (f' x)"
  shows "cuts (and_then m f) (and_then m' f')"
  unfolding cuts_def
proof
  have e: "emits m' (\<lambda>_ _ _. True)" "\<And>x. emits (f' x) (\<lambda>_ _ _. True)"
    using assms by (simp_all add: cuts_def)
  then show whole: "emits (and_then m' f') (\<lambda>_ _ _. True)" by (rule emits_seq) simp_all
  show "\<forall>s. and_then m f s = and_then m' f' s \<or> (\<forall>x. fst (and_then m f s) \<noteq> Go x) \<and>
      prefix (lrn_written (snd (and_then m f s))) (lrn_written (snd (and_then m' f' s))) \<and>
      prefix (lrn_tasks (snd (and_then m f s))) (lrn_tasks (snd (and_then m' f' s)))"
  proof
    fix s
    have grows: "prefix (lrn_written (snd (m' s))) (lrn_written (snd (and_then m' f' s)))"
      "prefix (lrn_tasks (snd (m' s))) (lrn_tasks (snd (and_then m' f' s)))"
      using e(2) by (auto simp: emits_def and_then_def prefix_def split: prod.split flow.split)
    consider "m s = m' s" | "\<forall>x. fst (m s) \<noteq> Go x"
        "prefix (lrn_written (snd (m s))) (lrn_written (snd (m' s)))"
        "prefix (lrn_tasks (snd (m s))) (lrn_tasks (snd (m' s)))"
      using assms(1) by (auto simp: cuts_def)
    then show "and_then m f s = and_then m' f' s \<or> (\<forall>x. fst (and_then m f s) \<noteq> Go x) \<and>
      prefix (lrn_written (snd (and_then m f s))) (lrn_written (snd (and_then m' f' s))) \<and>
      prefix (lrn_tasks (snd (and_then m f s))) (lrn_tasks (snd (and_then m' f' s)))"
    proof cases
      case 1
      then show ?thesis using assms(2) by (auto simp: cuts_def and_then_def split: prod.split flow.split)
    next
      case 2
      then have "snd (and_then m f s) = snd (m s)" "\<forall>x. fst (and_then m f s) \<noteq> Go x"
        by (auto simp: and_then_def split: prod.split flow.split)
      then show ?thesis using 2 grows prefix_order.order_trans by metis
    qed
  qed
qed

lemma cuts_in_order: "list_all2 cuts ms ms' \<Longrightarrow> cuts (in_order ms) (in_order ms')"
proof (induction rule: list_all2_induct)
  case Nil
  show ?case by (rule cuts_same [OF emits_nothing [where Q = "\<lambda>_ _ _. True"]]) simp
next
  case (Cons m ms m' ms')
  have "in_order (n # ns) = and_then n (\<lambda>_. in_order ns)" for n ns by (rule ext) simp
  then show ?case using cuts_and_then [OF Cons(1) Cons(3)] by simp
qed

lemma cuts_nothing: "cuts (in_order []) (in_order [])"
  by (rule cuts_in_order) simp

lemma cuts_map: "(\<And>x. cuts (f x) (g x)) \<Longrightarrow> cuts (in_order (map f xs)) (in_order (map g xs))"
  by (rule cuts_in_order) (simp add: list_all2_map1 list_all2_map2 list_all2_same)

lemma accepting_turn [simp]: "take_turn (accepting env) s = take_turn env s"
  by (simp add: take_turn_def accepting_def)

lemma accepting_commands [simp]:
  "fetch_add_seq (accepting env) = fetch_add_seq env"
  "send_command_with_reply (accepting env) = send_command_with_reply env"
  "read_scheduler (accepting env) = read_scheduler env"
  "enqueue_simulation_task (accepting env) = enqueue_simulation_task env"
proof -
  have same: "sur_scheduler_ends (accepting env) = sur_scheduler_ends env"
    "sur_simulation (accepting env) = sur_simulation env"
    by (simp_all add: accepting_def)
  show "fetch_add_seq (accepting env) = fetch_add_seq env"
    by (rule ext) (simp add: fetch_add_seq_def)
  show "send_command_with_reply (accepting env) = send_command_with_reply env"
    by (intro ext) (simp add: send_command_with_reply_def same)
  show "read_scheduler (accepting env) = read_scheduler env"
    by (intro ext) (simp add: read_scheduler_def)
  show "enqueue_simulation_task (accepting env) = enqueue_simulation_task env"
    by (intro ext) (simp add: enqueue_simulation_task_def same)
qed

lemma accepting_steps [simp]:
  "admit_verdict (accepting env) = admit_verdict env"
  "invalidate_replaced (accepting env) = invalidate_replaced env"
  "register_prepared (accepting env) = register_prepared env"
  "offer_task (accepting env) = offer_task env"
  by (intro ext; simp add: admit_verdict_def invalidate_replaced_def register_prepared_def offer_task_def)+

lemma cuts_put_op: "cuts (put_op env op) (put_op (accepting env) op)"
proof -
  have "emits (put_op (accepting env) op) (\<lambda>_ _ _. True)" by (rule emits_weaken [OF emits_put_op]) simp
  moreover have "put_op (accepting env) op s =
      (Go (), (take_turn env s)\<lparr>lrn_written := lrn_written s @ [op]\<rparr>)" for s
    by (simp add: put_op_def try_enqueue_storage_write_def Let_def)
      (simp add: accepting_def)
  ultimately show ?thesis
    by (auto simp: cuts_def put_op_def [of env] try_enqueue_storage_write_def Let_def
        split: sum.split storage_try_enqueue_error.split)
qed

lemma cuts_event: "cuts (append_event_with_owner env chain now p) (append_event_with_owner (accepting env) chain now p)"
proof -
  have "emits (append_event_with_owner (accepting env) chain now p) (\<lambda>_ _ _. True)"
    by (rule emits_weaken [OF emits_event]) simp
  then show ?thesis
    using cuts_put_op [of env] by (simp add: cuts_def append_event_with_owner_def split_beta)
qed

lemma cuts_queue: "cuts (queue_candidates env chain now specs grouped) (queue_candidates (accepting env) chain now specs grouped)"
proof (induction specs arbitrary: grouped)
  case Nil
  show ?case by (auto simp: cuts_def emits_def)
next
  case (Cons p specs)
  obtain spec cand request opportunity where p: "p = (spec, cand, request, opportunity)"
    by (cases p) auto
  have "queue_candidates env chain now (p # specs) grouped =
      and_then (append_event_with_owner env chain now
        (build_candidate_queued_payload cand (exo_record opportunity)))
      (\<lambda>_. queue_candidates env chain now specs (group_task grouped spec request opportunity))" for env
    by (rule ext) (simp add: p)
  then show ?case using cuts_and_then [OF cuts_event Cons.IH] by simp
qed

lemma cuts_dispatch_group:
  "cuts (dispatch_group env service chain now grp) (dispatch_group (accepting env) service chain now grp)"
proof -
  obtain request candidates where g: "grp = (request, candidates)" by (cases grp)
  show ?thesis
    unfolding g dispatch_group_steps accepting_steps
    by (rule cuts_and_then [OF cuts_same [OF emits_offer]])
      (auto intro!: cuts_map cuts_event cuts_nothing simp del: in_order.simps)
qed

lemma cuts_dispatch:
  "cuts (dispatch_simulations env service chain now opps frontier)
    (dispatch_simulations (accepting env) service chain now opps frontier)"
proof -
  have d: "dispatch_simulations env service chain now opps frontier =
      (let prepared = prepare_simulation_tasks opps frontier
       in if prepared = [] then in_order []
          else and_then (register_prepared env (map fst prepared)) (\<lambda>tasks.
            and_then (queue_candidates env chain now (zip tasks prepared) bt_empty) (\<lambda>grouped.
              in_order (map (dispatch_group env service chain now) (bt_values grouped)))))" for env
    by (rule ext) (simp add: dispatch_simulations_def Let_def)
  show ?thesis
    unfolding d Let_def accepting_steps
    by (auto intro!: cuts_and_then cuts_same [OF emits_register] cuts_queue cuts_map cuts_dispatch_group cuts_nothing
        simp del: in_order.simps)
qed

lemma cuts_prepared:
  assumes "\<And>s. lrn_written (g s) = lrn_written s \<and> lrn_tasks (g s) = lrn_tasks s" and "cuts m m'"
  shows "cuts (\<lambda>s. m (g s)) (\<lambda>s. m' (g s))"
  using assms emits_prepared [where g = g and m = m'] by (auto simp: cuts_def)

lemma cuts_opportunities:
  "cuts (opportunity_stage reg env service chain now chain_id transitions)
    (opportunity_stage reg (accepting env) service chain now chain_id transitions)"
proof -
  have "cuts (\<lambda>s. let opps = build_executable_opportunities reg executable now chain_id;
        rows = map exo_record opps;
        s = if executable \<noteq> [] \<and> rows \<noteq> []
          then on_core (observe_searcher_batch rows) (take_turn env s) else s
      in and_then (in_order (map (\<lambda>r. append_event_with_owner env chain now
            (build_opportunity_detected_payload r)) rows))
          (\<lambda>_. dispatch_simulations env service chain now opps frontier) s)
    (\<lambda>s. let opps = build_executable_opportunities reg executable now chain_id;
        rows = map exo_record opps;
        s = if executable \<noteq> [] \<and> rows \<noteq> []
          then on_core (observe_searcher_batch rows) (take_turn env s) else s
      in and_then (in_order (map (\<lambda>r. append_event_with_owner (accepting env) chain now
            (build_opportunity_detected_payload r)) rows))
          (\<lambda>_. dispatch_simulations (accepting env) service chain now opps frontier) s)" for executable frontier
    unfolding Let_def
    by (rule cuts_prepared [where g = "\<lambda>s. if executable \<noteq> [] \<and>
          map exo_record (build_executable_opportunities reg executable now chain_id) \<noteq> []
        then on_core (observe_searcher_batch (map exo_record
          (build_executable_opportunities reg executable now chain_id))) (take_turn env s) else s"])
      (auto intro!: cuts_and_then cuts_map cuts_event cuts_dispatch)
  then show ?thesis
    unfolding opportunity_stage_def accepting_commands accepting_turn
    by (intro cuts_and_then cuts_same [OF emits_commands(3)] cuts_map cuts_event)
qed

lemma cuts_persist: "cuts (persist_tx reg env service chain now obs tx verdict)
    (persist_tx reg (accepting env) service chain now obs tx verdict)"
  unfolding persist_tx_def Let_def
  by (auto intro!: cuts_in_order list_all2_appendI cuts_put_op cuts_event cuts_opportunities
      cuts_same [OF emits_commands(2)] split: prod.split option.split simp del: in_order.simps)

lemma cuts_seen: "cuts (observe_seen env chain now obs hash) (observe_seen (accepting env) chain now obs hash)"
  unfolding observe_seen_def [abs_def] accepting_commands
  by (rule cuts_prepared) (auto simp: fetch_add_seq_def Let_def intro!: cuts_in_order cuts_put_op cuts_event
      simp del: in_order.simps)

lemma cuts_process:
  "cuts (process_pending_hash_with_fetched_tx reg env service chain now obs hash fetched_tx)
    (process_pending_hash_with_fetched_tx reg (accepting env) service chain now obs hash fetched_tx)"
  unfolding process_pending_hash_with_fetched_tx_def accepting_steps
  by (cases fetched_tx)
    (simp_all add: cuts_seen cuts_and_then cuts_persist cuts_same [OF emits_commands(1)])

text \<open>
  Property C12. A refused write only cuts the tail: compared with the same surroundings where the
  storage queue takes everything, a run is either the same, or it ends early, and what it has
  written and the tasks it has enqueued are prefixes of those of the full run.
\<close>

theorem refused_write_cuts_tail:
  fixes reg env service chain now obs hash fetched_tx s
  defines "run \<equiv> \<lambda>env. process_pending_hash_with_fetched_tx reg env service chain now obs hash fetched_tx s"
  shows "run env = run (accepting env) \<or>
    fst (run env) \<noteq> Go () \<and>
    prefix (lrn_written (snd (run env))) (lrn_written (snd (run (accepting env)))) \<and>
    prefix (lrn_tasks (snd (run env))) (lrn_tasks (snd (run (accepting env))))"
  using cuts_process [of reg env service chain now obs hash fetched_tx] unfolding run_def cuts_def by blast

section \<open>Concrete runs\<close>

text \<open>
  Surroundings in which no other task acts and the storage queue answers as given.
\<close>

definition quiet :: "(nat \<Rightarrow> storage_try_enqueue_error + unit) \<Rightarrow> surroundings" where
  "quiet answers = \<lparr>sur_others = \<lambda>_ shared. shared, sur_storage = answers,
     sur_simulation = \<lambda>_. SimAccepted, sur_scheduler_ends = \<lambda>_. False\<rparr>"

definition idle_run :: live_run where
  "idle_run = \<lparr>lrn_shared = \<lparr>lsh_core = sample_core,
       lsh_scheduler = scheduler_channel_with_state default_scheduler_config default_scheduler_state,
       lsh_next_seq_id = 1\<rparr>,
     lrn_turn = 0, lrn_written = [], lrn_tasks = []\<rparr>"

definition sample_observation :: pending_hash_observation where
  "sample_observation = \<lparr>pho_hash_hex = ''0x05'', pho_observed_at_unix_ms = 100, pho_observed_at_mono_ns = 7\<rparr>"

definition sample_run :: "(nat \<Rightarrow> storage_try_enqueue_error + unit) \<Rightarrow> TxHash \<Rightarrow> unit flow \<times> live_run" where
  "sample_run answers hash = process_pending_hash_with_fetched_tx sample_registry (quiet answers)
     \<lparr>sls_queue_capacity = 8, sls_worker_total = 2\<rparr> (hd (lrc_chains default_live_rpc_config)) 101
     sample_observation hash (Some sample_live_tx) idle_run"

text \<open>The storage queue has room for the first \<open>k\<close> interactions.\<close>

definition room_for :: "nat \<Rightarrow> nat \<Rightarrow> storage_try_enqueue_error + unit" where
  "room_for k n = (if n < k then Inr () else Inl WriterQueueFull)"

text \<open>
  The run with room for seven interactions, with a node that answers with another transaction
  than the one asked for, and with a full queue.
\<close>

lemma sample_runs:
  "map phase (lrn_written (snd (sample_run (room_for 7) 5))) = [0, 1, 2, 3] \<and>
   map (\<lambda>op. (phase op, written_hash op)) (lrn_written (snd (sample_run (room_for 10) 9))) =
     [(0, Some 9), (1, Some 9), (2, Some 9), (3, Some 5), (4, Some 5), (6, Some 5)] \<and>
   (let (r, s) = sample_run (room_for 0) 5
    in r = Done \<and> lrn_written s = [] \<and>
       bt_contains (ss_pending (sa_state (lsh_scheduler (lrn_shared s)))) 5)"
  by code_simp

theorem tx_seen_written_first_witness:
  "\<exists>ops. lrn_written (snd (sample_run (room_for 7) 5)) = ops \<and> map phase ops = [0, 1, 2, 3] \<and>
     in_life_order ops \<and> (\<forall>op \<in> set ops. phase op \<le> 7 \<longrightarrow> written_hash op = Some 5)"
proof -
  have "\<forall>tx. Some sample_live_tx = Some tx \<longrightarrow> ltx_hash tx = 5" by (simp add: sample_live_tx_def)
  from tx_seen_written_first [OF this, of sample_registry "quiet (room_for 7)"
      "\<lparr>sls_queue_capacity = 8, sls_worker_total = 2\<rparr>" "hd (lrc_chains default_live_rpc_config)" 101
      sample_observation idle_run, folded sample_run_def]
  show ?thesis using sample_runs by (auto simp: idle_run_def)
qed

text \<open>
  A node that answers with another transaction than the one asked for leaves a TxDecoded event
  of a transaction that was never seen.
\<close>

lemma decoded_without_seen:
  "map (\<lambda>op. (phase op, written_hash op)) (lrn_written (snd (sample_run (room_for 10) 9))) =
     [(0, Some 9), (1, Some 9), (2, Some 9), (3, Some 5), (4, Some 5), (6, Some 5)]"
  using sample_runs by blast

text \<open>
  A storage queue that is full for the first write leaves an admitted transaction of which
  nothing at all is written.
\<close>

lemma admitted_without_events:
  "let (r, s) = sample_run (room_for 0) 5
   in r = Done \<and> lrn_written s = [] \<and>
      bt_contains (ss_pending (sa_state (lsh_scheduler (lrn_shared s)))) 5"
  using sample_runs by blast

end
