(* ===== verification/Live_Rpc_Tasks.thy ===== *)
theory Live_Rpc_Tasks
  imports Live_Rpc_Trace
begin

text \<open>
  The simulation tasks of the live pipeline: their grouping by key, their agreement with the
  candidates that the scheduler registered, and the properties of traces that every write keeps.
\<close>

section \<open>Simulation tasks and candidates\<close>

lemma format_hash_length: "length (format_hash_hex h) = 66"
  by (simp add: format_hash_hex_def format_fixed_hex_def length_hex_lower)

lemma format_hash_inj: "format_hash_hex h = format_hash_hex h' \<longleftrightarrow> h = h'"
proof
  assume "format_hash_hex h = format_hash_hex h'"
  then have "hex_bytes_of (format_fixed_hex (hash_bytes h)) = hex_bytes_of (format_fixed_hex (hash_bytes h'))"
    by (simp only: format_hash_hex_def)
  then have "hash_bytes h = hash_bytes h'"
    by (simp only: hex_bytes_of_format call.inject option.inject)
  then have "be_word (hash_bytes h) = (be_word (hash_bytes h') :: TxHash)" by (rule arg_cong)
  then show "h = h'" by (simp add: be_word_bytes)
qed simp

lemma join_Cons: "join sep (x # xs) = x @ (if xs = [] then [] else sep @ join sep xs)"
  by (cases xs) simp_all

lemma join_inj:
  assumes "\<forall>x \<in> set xs. length x = n" and "\<forall>y \<in> set ys. length y = n" and "0 < n"
    and "join sep xs = join sep ys" and "sep \<noteq> []"
  shows "xs = ys"
  using assms(1,2,4)
proof (induction xs arbitrary: ys)
  case Nil
  then show ?case using assms(3) by (cases ys) (auto simp: join_Cons)
next
  case (Cons x xs)
  obtain y zs where ys: "ys = y # zs"
    using Cons.prems assms(3) by (cases ys) (auto simp: join_Cons)
  have "length x = length y" using Cons.prems ys by simp
  then have split: "x = y" "(if xs = [] then [] else sep @ join sep xs) = (if zs = [] then [] else sep @ join sep zs)"
    using Cons.prems(3) unfolding ys join_Cons by simp_all
  then have "xs = [] \<longleftrightarrow> zs = []" using assms(5) by (auto split: if_splits)
  then show ?case using Cons.IH [of zs] Cons.prems ys split by (auto split: if_splits)
qed

text \<open>The key of a task determines the transaction and the members.\<close>

lemma task_key_inj:
  assumes "simulation_task_key r = simulation_task_key r'"
  shows "rsr_tx_hash r = rsr_tx_hash r' \<and> set (rsr_member_tx_hashes r) = set (rsr_member_tx_hashes r')"
proof -
  let ?hex = "\<lambda>r. sort (map format_hash_hex (rsr_member_tx_hashes r))"
  have parts: "format_hash_hex (rsr_tx_hash r) = format_hash_hex (rsr_tx_hash r')"
    "join '','' (?hex r) = join '','' (?hex r')"
    using assms by (simp_all add: simulation_task_key_def append_eq_append_conv format_hash_length)
  have "?hex r = ?hex r'"
    by (rule join_inj [where n = 66, OF _ _ _ parts(2)]) (auto simp: format_hash_length)
  then have "set (?hex r) = set (?hex r')" by simp
  then have "format_hash_hex ` set (rsr_member_tx_hashes r) = format_hash_hex ` set (rsr_member_tx_hashes r')"
    by simp
  moreover have "inj format_hash_hex" by (rule injI) (simp add: format_hash_inj)
  ultimately show ?thesis using parts(1) by (simp add: format_hash_inj inj_image_eq_iff)
qed

text \<open>A registered candidate fits a request.\<close>

definition fits :: "remote_simulation_request \<Rightarrow> registered_simulation_candidate \<Rightarrow> bool" where
  "fits request c \<longleftrightarrow>
     spec_candidate_id (rgc_spec c) =
       cand_candidate_id (scheduler_candidate_from_executable_opportunity (rgc_opportunity c)) \<and>
     spec_tx_hash (rgc_spec c) = opr_tx_hash (exo_record (rgc_opportunity c)) \<and>
     rsr_tx_hash request = opr_tx_hash (exo_record (rgc_opportunity c)) \<and>
     set (requested_hashes (rgc_opportunity c)) \<subseteq> set (rsr_member_tx_hashes request)"

lemma fits_same_key: "fits request c \<Longrightarrow> simulation_task_key request = simulation_task_key r \<Longrightarrow> fits r c"
  using task_key_inj [of request r] by (simp add: fits_def)

lemma select_for_requested:
  "fold_result (select_for executable) selected requested = Inr sel \<Longrightarrow>
    selected \<subseteq> sel \<and> set requested \<subseteq> vt_hash ` set executable"
proof (induction requested arbitrary: selected)
  case (Cons h requested)
  have grows: "s \<subseteq> foldl (\<lambda>selected tx. if P tx then insert (vt_hash tx) selected else selected) s xs"
    for P s and xs :: "validated_transaction list"
    by (induction xs arbitrary: s) (auto, blast)
  obtain s where s: "select_for executable selected h = Inr s" "fold_result (select_for executable) s requested = Inr sel"
    using Cons.prems by (auto split: sum.splits)
  then obtain r where r: "find (\<lambda>tx. vt_hash tx = h) executable = Some r" "selected \<subseteq> s"
    using grows unfolding select_for_def by (auto split: option.splits)
  then have "h \<in> vt_hash ` set executable" by (auto simp: find_Some_iff)
  then show ?case using Cons.IH [OF s(2)] r(2) by auto
qed simp

lemma request_members:
  assumes "build_remote_simulation_request opportunity executable = Some request"
  shows "rsr_tx_hash request = opr_tx_hash (exo_record opportunity)"
    and "set (requested_hashes opportunity) \<subseteq> set (rsr_member_tx_hashes request)"
proof -
  obtain sel where "fold_result (select_for executable) (set (requested_hashes opportunity))
      (requested_hashes opportunity) = Inr sel"
    and request: "rsr_tx_hash request = opr_tx_hash (exo_record opportunity)"
      "rsr_member_tx_hashes request = map vt_hash (filter (\<lambda>tx. vt_hash tx \<in> sel) executable)"
    using assms by (auto simp: build_remote_simulation_request_def Let_def split: sum.splits)
  from select_for_requested [OF this(1)]
  show "set (requested_hashes opportunity) \<subseteq> set (rsr_member_tx_hashes request)"
    unfolding request by fastforce
  show "rsr_tx_hash request = opr_tx_hash (exo_record opportunity)" by (rule request)
qed

section \<open>Properties of traces that every write keeps\<close>

locale trace_property =
  fixes Q :: "storage_write_op list \<Rightarrow> simulation_task list \<Rightarrow> bool"
  assumes none: "Q [] []"
    and both: "Q ops ts \<Longrightarrow> Q ops' ts' \<Longrightarrow> Q (ops @ ops') (ts @ ts')"
begin

abbreviation keeps :: "'a live \<Rightarrow> bool" where
  "keeps m \<equiv> emits m (\<lambda>_. Q)"

lemma keeps_and_then: "keeps m \<Longrightarrow> (\<And>x. keeps (f x)) \<Longrightarrow> keeps (and_then m f)"
  by (rule emits_seq [where P = Q and R = Q]) (auto intro: both)

lemma keeps_silent: "emits m (\<lambda>_ ops ts. ops = [] \<and> ts = []) \<Longrightarrow> keeps m"
  by (erule emits_weaken) (auto intro: none)

lemma keeps_in_order: "\<forall>m \<in> set ms. keeps m \<Longrightarrow> keeps (in_order ms)"
proof (induction ms)
  case (Cons m ms)
  then show ?case by (intro emits_in_order_Cons [where P = Q and R = Q]) (auto intro: both)
qed (auto intro: emits_nothing none)

lemma keeps_put_op: "Q [op] [] \<Longrightarrow> keeps (put_op env op)"
  by (rule emits_weaken [OF emits_put_op]) (auto intro: none)

lemma keeps_event:
  "(\<And>at_mono. Q [AppendPayload (crc_source_id chain) payload now at_mono] []) \<Longrightarrow>
    keeps (append_event_with_owner env chain now payload)"
  by (rule emits_weaken [OF emits_event]) (auto intro: none)

end

text \<open>
  Every task has candidates and all of them fit its request, and a SimDispatched event is about
  a candidate of a task.
\<close>

definition dispatched_by :: "simulation_task list \<Rightarrow> storage_write_op \<Rightarrow> bool" where
  "dispatched_by ts op \<longleftrightarrow> phase op = 11 \<longrightarrow>
     (\<exists>t \<in> set ts. \<exists>c \<in> set (smt_candidates t). \<exists>src now at_mono.
        op = AppendPayload src (build_sim_dispatched_payload (rgc_spec c)) now at_mono)"

lemma dispatched_by_more: "dispatched_by ts op \<Longrightarrow> set ts \<subseteq> set us \<Longrightarrow> dispatched_by us op"
  unfolding dispatched_by_def by blast

definition tasks_match :: "storage_write_op list \<Rightarrow> simulation_task list \<Rightarrow> bool" where
  "tasks_match ops ts \<longleftrightarrow>
     (\<forall>t \<in> set ts. smt_candidates t \<noteq> [] \<and> (\<forall>c \<in> set (smt_candidates t). fits (smt_request t) c)) \<and>
     (\<forall>op \<in> set ops. dispatched_by ts op)"

interpretation tasks: trace_property tasks_match
proof
  show "tasks_match [] []" by (simp add: tasks_match_def)
  show "tasks_match (ops @ ops') (ts @ ts')" if "tasks_match ops ts" "tasks_match ops' ts'" for ops ts ops' ts'
    using that by (auto simp: tasks_match_def intro: dispatched_by_more)
qed

lemma tasks_event:
  "(\<And>at_mono. phase (AppendPayload (crc_source_id chain) payload now at_mono) \<noteq> 11) \<Longrightarrow>
    tasks.keeps (append_event_with_owner env chain now payload)"
  by (rule tasks.keeps_event) (simp add: tasks_match_def dispatched_by_def del: phase.simps)

text \<open>Events about the candidates of given tasks.\<close>

interpretation sent: trace_property "\<lambda>ops ts. ts = [] \<and> (\<forall>op \<in> set ops. dispatched_by us op)" for us
  by unfold_locales auto

lemma tasks_dispatch_group:
  assumes "candidates \<noteq> []" and "\<forall>c \<in> set candidates. fits request c"
  shows "tasks.keeps (dispatch_group env service chain now (request, candidates))"
proof -
  define t where "t = \<lparr>smt_chain = chain, smt_request = request, smt_candidates = candidates,
    smt_enqueued_unix_ms = now\<rparr>"
  let ?send = "\<lambda>enqueued. in_order (if enqueued then map (\<lambda>c. append_event_with_owner env chain now
    (build_sim_dispatched_payload (rgc_spec c))) candidates else [])"
  have "emits (append_event_with_owner env chain now (build_sim_dispatched_payload (rgc_spec c)))
      (\<lambda>_ ops ts. ts = [] \<and> (\<forall>op \<in> set ops. dispatched_by [t] op))" if "c \<in> set candidates" for c
    by (rule sent.keeps_event) (use that in \<open>auto simp: dispatched_by_def t_def\<close>)
  then have "emits (?send True) (\<lambda>_ ops ts. ts = [] \<and> (\<forall>op \<in> set ops. dispatched_by [t] op))"
    by (intro sent.keeps_in_order) auto
  moreover have "emits (?send False) (\<lambda>_ ops ts. ts = [] \<and> ops = [])"
    by (simp del: in_order.simps) (rule emits_nothing, simp)
  ultimately have send: "emits (?send x) (\<lambda>_ ops ts. ts = [] \<and> (x \<and> (\<forall>op \<in> set ops. dispatched_by [t] op) \<or> ops = []))" for x
    by (cases x) (auto elim!: emits_weaken simp del: in_order.simps)
  have "tasks_match ops [t]" if "\<forall>op \<in> set ops. dispatched_by [t] op" for ops
    using that assms by (simp add: tasks_match_def t_def)
  then show ?thesis
    unfolding dispatch_group_steps t_def [symmetric]
    by (intro emits_and_then [OF emits_offer send]) (auto simp: tasks.none)
qed

text \<open>The groups that the pipeline builds.\<close>

definition prepared_ok :: "simulation_task_spec \<times> prepared_task \<Rightarrow> bool" where
  "prepared_ok p \<longleftrightarrow> (case p of (spec, cand, request, opportunity) \<Rightarrow>
     fits request \<lparr>rgc_spec = spec, rgc_opportunity = opportunity\<rparr>)"

definition groups_ok :: "(string, task_group) btree_map \<Rightarrow> bool" where
  "groups_ok grouped \<longleftrightarrow> (\<forall>key request candidates. bt_get grouped key = Some (request, candidates) \<longrightarrow>
     simulation_task_key request = key \<and> candidates \<noteq> [] \<and> (\<forall>c \<in> set candidates. fits request c))"

lemma group_task_ok:
  assumes "groups_ok grouped" and "prepared_ok (spec, cand, request, opportunity)"
  shows "groups_ok (group_task grouped spec request opportunity)"
  using assms fits_same_key [of request "\<lparr>rgc_spec = spec, rgc_opportunity = opportunity\<rparr>"]
  by (auto simp: groups_ok_def group_task_def prepared_ok_def Let_def split: option.splits prod.splits if_splits)

lemma queue_candidates_ok:
  assumes "\<forall>p \<in> set specs. prepared_ok p" and "groups_ok grouped"
  shows "emits (queue_candidates env chain now specs grouped)
    (\<lambda>r ops ts. tasks_match ops ts \<and> (\<forall>g. r = Go g \<longrightarrow> groups_ok g))"
  using assms
proof (induction specs arbitrary: grouped)
  case Nil
  then show ?case by (simp add: emits_def tasks.none)
next
  case (Cons p specs)
  obtain spec cand request opportunity where p: "p = (spec, cand, request, opportunity)"
    by (cases p) auto
  have step: "queue_candidates env chain now (p # specs) grouped =
      and_then (append_event_with_owner env chain now
        (build_candidate_queued_payload cand (exo_record opportunity)))
      (\<lambda>_. queue_candidates env chain now specs (group_task grouped spec request opportunity))"
    by (rule ext) (simp add: p)
  have "tasks.keeps (append_event_with_owner env chain now
      (build_candidate_queued_payload cand (exo_record opportunity)))"
    by (rule tasks_event) (simp add: build_candidate_queued_payload_def)
  moreover have "groups_ok (group_task grouped spec request opportunity)"
    using group_task_ok [OF Cons.prems(2), of spec cand request opportunity] Cons.prems(1) by (simp add: p)
  ultimately show ?case
    unfolding step using Cons.prems(1)
    by (intro emits_and_then [OF _ Cons.IH]) (auto intro: tasks.both)
qed

text \<open>The reply to a registration lists one task for each candidate, in order.\<close>

lemma last_reply:
  "fst (run_commands config st (cs @ [c])) \<noteq> [] \<and>
   (\<exists>st'. last (fst (run_commands config st (cs @ [c]))) = fst (handle_command config st' c))"
  by (auto simp: run_commands_def map_state_concat)

lemma registered_tasks:
  "map (\<lambda>t. (spec_candidate_id t, spec_tx_hash t)) (fst (map_state register_candidate st cs)) =
   map (\<lambda>c. (cand_candidate_id c, cand_tx_hash c)) cs"
  by (induction cs arbitrary: st) (simp_all add: register_candidate_def Let_def)

lemma reply_of_command:
  assumes "send_command_with_reply env command s = (Inr reply, s')"
  shows "\<exists>config st. reply = fst (handle_command config st command)"
proof -
  let ?a = "lsh_scheduler (lrn_shared (take_turn env s))"
  obtain x a where sent: "try_send_command ?a command = (x, a)" by (cases "try_send_command ?a command")
  obtain u where x: "x = Inr u"
    using assms sent by (cases x) (auto simp: send_command_with_reply_def Let_def)
  then have "reply = last (fst (run_commands (sa_config a) (sa_state a) (sa_buffer a)))"
    using assms sent by (auto simp: send_command_with_reply_def Let_def split: if_splits prod.splits)
  moreover have "sa_buffer a = sa_buffer ?a @ [command]"
    using try_send_accepted [of ?a command a] sent x by simp
  ultimately show ?thesis using last_reply by metis
qed

lemma emits_registered:
  "emits (register_prepared env cs) (\<lambda>r ops ts. ops = [] \<and> ts = [] \<and>
     (\<forall>specs. r = Go specs \<longrightarrow> map (\<lambda>t. (spec_candidate_id t, spec_tx_hash t)) specs =
        map (\<lambda>c. (cand_candidate_id c, cand_tx_hash c)) cs))"
  unfolding emits_def
proof
  fix s
  obtain r s' where send: "send_command_with_reply env (RegisterCandidates cs) s = (r, s')"
    by (cases "send_command_with_reply env (RegisterCandidates cs) s")
  have registered: "map (\<lambda>t. (spec_candidate_id t, spec_tx_hash t)) (cd_simulation_tasks d) =
      map (\<lambda>c. (cand_candidate_id c, cand_tx_hash c)) cs" if "r = Inr (RegisterReply d)" for d
  proof -
    have "send_command_with_reply env (RegisterCandidates cs) s = (Inr (RegisterReply d), s')"
      using send that by simp
    from reply_of_command [OF this]
    obtain config st where "RegisterReply d = fst (handle_command config st (RegisterCandidates cs))" by blast
    then have "cd_simulation_tasks d = fst (map_state register_candidate st cs)"
      by (simp add: register_candidates_def split_beta)
    then show ?thesis by (simp only: registered_tasks)
  qed
  have keep: "lrn_written s' = lrn_written s" "lrn_tasks s' = lrn_tasks s"
    using sent_trace [OF send] by simp_all
  show "\<exists>ops ts. lrn_written (snd (register_prepared env cs s)) = lrn_written s @ ops \<and>
      lrn_tasks (snd (register_prepared env cs s)) = lrn_tasks s @ ts \<and> ops = [] \<and> ts = [] \<and>
      (\<forall>specs. fst (register_prepared env cs s) = Go specs \<longrightarrow>
        map (\<lambda>t. (spec_candidate_id t, spec_tx_hash t)) specs =
        map (\<lambda>c. (cand_candidate_id c, cand_tx_hash c)) cs)"
  proof (cases r)
    case (Inl e)
    then show ?thesis by (simp add: register_prepared_def send keep)
  next
    case (Inr reply)
    then show ?thesis using registered by (cases reply) (simp_all add: register_prepared_def send keep)
  qed
qed

lemma prepared_request:
  "(cand, request, opportunity) \<in> set (prepare_simulation_tasks opps frontier) \<Longrightarrow>
    cand = scheduler_candidate_from_executable_opportunity opportunity \<and>
    build_remote_simulation_request opportunity frontier = Some request"
  by (auto simp: prepare_simulation_tasks_def in_set_map_filter)

lemma prepared_zip_ok:
  assumes "map (\<lambda>t. (spec_candidate_id t, spec_tx_hash t)) specs =
      map (\<lambda>c. (cand_candidate_id c, cand_tx_hash c)) (map fst prepared)"
    and "prepared = prepare_simulation_tasks opps frontier" and "p \<in> set (zip specs prepared)"
  shows "prepared_ok p"
proof -
  obtain i where i: "i < length specs" "i < length prepared" "p = (specs ! i, prepared ! i)"
    using assms(3) by (auto simp: in_set_zip)
  obtain cand request opportunity where q: "prepared ! i = (cand, request, opportunity)"
    by (cases "prepared ! i") auto
  have "(spec_candidate_id (specs ! i), spec_tx_hash (specs ! i)) = (cand_candidate_id cand, cand_tx_hash cand)"
    using arg_cong [OF assms(1), of "\<lambda>xs. xs ! i"] i q by simp
  moreover have "(cand, request, opportunity) \<in> set (prepare_simulation_tasks opps frontier)"
    using i(2) q assms(2) by (metis nth_mem)
  note prepared = prepared_request [OF this]
  note members = request_members [OF conjunct2 [OF prepared]]
  show ?thesis
    using calculation(1) members conjunct1 [OF prepared]
    by (simp add: prepared_ok_def i q fits_def scheduler_candidate_from_executable_opportunity_def)
qed

lemma tasks_dispatch: "tasks.keeps (dispatch_simulations env service chain now opps frontier)"
proof (cases "prepare_simulation_tasks opps frontier = []")
  case True
  then have "dispatch_simulations env service chain now opps frontier = in_order []"
    by (intro ext) (simp add: dispatch_simulations_def)
  then show ?thesis by (simp del: in_order.simps add: tasks.keeps_in_order)
next
  case False
  let ?prepared = "prepare_simulation_tasks opps frontier"
  let ?groups = "\<lambda>grouped. in_order (map (dispatch_group env service chain now) (bt_values grouped))"
  have split: "dispatch_simulations env service chain now opps frontier =
      and_then (register_prepared env (map fst ?prepared)) (\<lambda>specs.
        and_then (queue_candidates env chain now (zip specs ?prepared) bt_empty) ?groups)"
    using False by (intro ext) (simp add: dispatch_simulations_def Let_def)
  have groups: "tasks.keeps (?groups grouped)" if "groups_ok grouped" for grouped
  proof (rule tasks.keeps_in_order, rule ballI)
    fix m assume "m \<in> set (map (dispatch_group env service chain now) (bt_values grouped))"
    then obtain key request candidates where "bt_get grouped key = Some (request, candidates)"
      "m = dispatch_group env service chain now (request, candidates)"
      by (auto simp: bt_values_set)
    then show "tasks.keeps m" using that tasks_dispatch_group by (auto simp: groups_ok_def)
  qed
  have "tasks.keeps (and_then (queue_candidates env chain now (zip specs ?prepared) bt_empty) ?groups)"
    if "map (\<lambda>t. (spec_candidate_id t, spec_tx_hash t)) specs =
      map (\<lambda>c. (cand_candidate_id c, cand_tx_hash c)) (map fst ?prepared)" for specs
  proof (rule emits_and_then [OF queue_candidates_ok groups])
    show "\<forall>p \<in> set (zip specs ?prepared). prepared_ok p" using prepared_zip_ok [OF that refl] by blast
    show "groups_ok bt_empty" by (simp add: groups_ok_def)
  qed (auto intro: tasks.both)
  then show ?thesis
    unfolding split by (intro emits_and_then [OF emits_registered]) (auto simp: tasks.none)
qed

lemma tasks_opportunities: "tasks.keeps (opportunity_stage reg env service chain now chain_id transitions)"
  unfolding opportunity_stage_def
proof (rule tasks.keeps_and_then [OF tasks.keeps_silent [OF emits_commands(3)]
      tasks.keeps_and_then [OF tasks.keeps_silent [OF emits_commands(3)] tasks.keeps_and_then]])
  show "tasks.keeps (in_order (map (\<lambda>t. append_event_with_owner env chain now (transition_payload t)) transitions))"
    by (rule tasks.keeps_in_order) (auto intro!: tasks_event simp: transition_phase simp del: phase.simps)
next
  fix executable frontier x
  let ?opps = "build_executable_opportunities reg executable now chain_id"
  let ?rows = "map exo_record ?opps"
  let ?observe = "\<lambda>s. if executable \<noteq> [] \<and> ?rows \<noteq> []
    then on_core (observe_searcher_batch ?rows) (take_turn env s) else s"
  have "tasks.keeps (in_order (map (\<lambda>r. append_event_with_owner env chain now
      (build_opportunity_detected_payload r)) ?rows))"
    by (rule tasks.keeps_in_order) (auto intro!: tasks_event simp: build_opportunity_detected_payload_def)
  from tasks.keeps_and_then [OF this tasks_dispatch]
  have "tasks.keeps (and_then (in_order (map (\<lambda>r. append_event_with_owner env chain now
        (build_opportunity_detected_payload r)) ?rows))
      (\<lambda>_. dispatch_simulations env service chain now ?opps frontier))" .
  from emits_prepared [where g = ?observe, OF _ this]
  show "tasks.keeps (\<lambda>s. let opps = build_executable_opportunities reg executable now chain_id;
        rows = map exo_record opps;
        s = if executable \<noteq> [] \<and> rows \<noteq> []
          then on_core (observe_searcher_batch rows) (take_turn env s) else s
      in and_then (in_order (map (\<lambda>r. append_event_with_owner env chain now
            (build_opportunity_detected_payload r)) rows))
          (\<lambda>_. dispatch_simulations env service chain now opps frontier) s)"
    by (simp add: Let_def)
qed

lemma tasks_put_op: "phase op \<noteq> 11 \<Longrightarrow> tasks.keeps (put_op env op)"
  by (rule tasks.keeps_put_op) (simp add: tasks_match_def dispatched_by_def)

lemma tasks_persist: "tasks.keeps (persist_tx reg env service chain now obs tx verdict)"
  unfolding persist_tx_def Let_def
  by (auto intro!: tasks.keeps_in_order tasks_put_op tasks_event tasks_opportunities
      tasks.keeps_silent [OF emits_commands(2)] split: prod.split option.split if_split simp del: in_order.simps)

lemma tasks_seen: "tasks.keeps (observe_seen env chain now obs hash)"
  unfolding observe_seen_def [abs_def]
  by (rule emits_prepared) (auto simp: fetch_add_seq_def Let_def intro!: tasks.keeps_in_order tasks_put_op
      tasks_event simp del: in_order.simps)

lemma tasks_process:
  "tasks.keeps (process_pending_hash_with_fetched_tx reg env service chain now obs hash fetched_tx)"
  unfolding process_pending_hash_with_fetched_tx_def
  by (cases fetched_tx)
    (simp_all add: tasks_seen tasks.keeps_and_then tasks_persist tasks.keeps_silent [OF emits_commands(1)])


end
