(* ===== verification/Live_Rpc_Session.thy ===== *)
theory Live_Rpc_Session
  imports Live_Rpc_Pipeline
begin

text \<open>
  A session over a web socket (\<^verbatim>\<open>src/crates/runtime-core/src/live_rpc.rs\<close>):
  the pending hashes that a node announces are queued, dispatched in batches, deduplicated,
  fetched, and run through the pipeline; and the rebuild of the scheduler from a node's
  pending block. Frames, clock readings and HTTP answers are inputs. The semaphore of the
  batches belongs to one session that waits for each batch, so that a permit is always free.
\<close>

section \<open>Batches\<close>

record live_session =
  lss_chain :: chain_rpc_config
  lss_endpoint :: rpc_endpoint
  lss_endpoint_index :: usize
  lss_max_seen_hashes :: usize
  lss_batch_fetch :: batch_fetch_config
  lss_silent_chain_timeout_secs :: u64

text \<open>
  The clock of the n-th interaction of the pipeline, and what the k-th request of the batch
  fetched there is answered.
\<close>

record live_net =
  net_clock :: "nat \<Rightarrow> i64"
  net_http :: "nat \<Rightarrow> nat \<Rightarrow> rpc_http"

type_synonym seen_cache = "TxHash set \<times> TxHash list"

fun dedup_batch ::
  "surroundings \<Rightarrow> usize \<Rightarrow> pending_hash_observation list \<Rightarrow> seen_cache \<Rightarrow> live_run
    \<Rightarrow> ((pending_hash_observation \<times> TxHash) list \<times> seen_cache \<times> live_run) call" where
  "dedup_batch env max_seen [] cache s = Returns ([], cache, s)"
| "dedup_batch env max_seen (obs # rest) cache s =
     call_bind (rpc_fixed_hex 32 (pho_hash_hex obs)) (\<lambda>parsed.
       case parsed of
         None \<Rightarrow> dedup_batch env max_seen rest cache
                   (on_core (observe_drop_reason InvalidPendingHash) (take_turn env s))
       | Some bytes \<Rightarrow>
           let hash = be_word bytes; (fresh, cache) = remember_hash max_seen cache hash
           in call_bind (dedup_batch env max_seen rest cache s) (\<lambda>(found, cache, s).
                Returns (if fresh then (obs, hash) # found else found, cache, s)))"

fun process_rows ::
  "protocol_registry \<Rightarrow> surroundings \<Rightarrow> live_net \<Rightarrow> simulation_service \<Rightarrow> chain_rpc_config
    \<Rightarrow> ((pending_hash_observation \<times> TxHash) \<times> live_tx option) list \<Rightarrow> live_run
    \<Rightarrow> (anyhow + unit) \<times> live_run" where
  "process_rows reg env net service chain [] s = (Inr (), s)"
| "process_rows reg env net service chain (((obs, hash), fetched_tx) # rest) s =
     (case completed (process_pending_hash_with_fetched_tx reg env service chain
             (net_clock net (lrn_turn s)) obs hash fetched_tx s) of
        (Inl e, s') \<Rightarrow> (Inl e, s')
      | (Inr _, s') \<Rightarrow> process_rows reg env net service chain rest s')"

definition process_pending_hash_batch ::
  "protocol_registry \<Rightarrow> surroundings \<Rightarrow> live_net \<Rightarrow> simulation_service \<Rightarrow> live_session
    \<Rightarrow> pending_hash_observation list \<Rightarrow> seen_cache \<Rightarrow> live_run
    \<Rightarrow> ((anyhow + unit) \<times> seen_cache \<times> live_run) call" where
  "process_pending_hash_batch reg env net service session hash_batch cache s =
     call_bind (dedup_batch env (lss_max_seen_hashes session) hash_batch cache s) (\<lambda>(fresh, cache, s).
       if fresh = [] then Returns (Inr (), cache, s)
       else
         let s = take_turn env s
         in call_bind (fst (fetch_transactions_by_hash_batch_with_retry (net_http net (lrn_turn s))
                (map (pho_hash_hex \<circ> fst) fresh) (lss_batch_fetch session))) (\<lambda>fetched.
              case fetched of
                Inl e \<Rightarrow> Returns (Inl e, cache, s)
              | Inr rows \<Rightarrow>
                  (case process_rows reg env net service (lss_chain session) (zip fresh rows) s of
                     (r, s') \<Rightarrow> Returns (r, cache, s'))))"

text \<open>The loop of a flush; a failed batch has left the queue.\<close>

fun flush_loop ::
  "protocol_registry \<Rightarrow> surroundings \<Rightarrow> live_net \<Rightarrow> simulation_service \<Rightarrow> live_session \<Rightarrow> nat
    \<Rightarrow> pending_hash_observation list \<Rightarrow> seen_cache \<Rightarrow> live_run
    \<Rightarrow> ((anyhow + unit) \<times> pending_hash_observation list \<times> seen_cache \<times> live_run) call" where
  "flush_loop reg env net service session 0 pending_hashes cache s =
     Returns (Inr (), pending_hashes, cache, s)"
| "flush_loop reg env net service session (Suc n) pending_hashes cache s =
     (let k = min (bfc_batch_size (lss_batch_fetch session)) (length pending_hashes);
          hash_batch = take k pending_hashes; pending_hashes = drop k pending_hashes
      in call_bind (process_pending_hash_batch reg env net service session hash_batch cache s)
           (\<lambda>(r, cache, s).
              case r of
                Inl e \<Rightarrow> Returns (Inl e, pending_hashes, cache, s)
              | Inr _ \<Rightarrow> flush_loop reg env net service session n pending_hashes cache s))"

definition flush_pending_hash_batches ::
  "protocol_registry \<Rightarrow> surroundings \<Rightarrow> live_net \<Rightarrow> simulation_service \<Rightarrow> live_session
    \<Rightarrow> pending_hash_observation list \<Rightarrow> seen_cache \<Rightarrow> live_run
    \<Rightarrow> ((anyhow + unit) \<times> pending_hash_observation list \<times> seen_cache \<times> live_run) call" where
  "flush_pending_hash_batches reg env net service session pending_hashes cache s =
     flush_loop reg env net service session
       (dispatchable_batch_count (length pending_hashes) (bfc_batch_size (lss_batch_fetch session))
         (bfc_max_in_flight (lss_batch_fetch session))) pending_hashes cache s"

section \<open>The session\<close>

text \<open>A text frame comes with its decoding; a pong may fail to be sent.\<close>

datatype ws_frame = TextFrame "ws_rpc_message option" | PingFrame bool | CloseFrame | OtherFrame

datatype ws_input = FrameReceived ws_frame | FrameFailed anyhow | StreamEnded | FlushTimedOut

record session_input =
  sin_input :: ws_input
  sin_observed_at_unix_ms :: i64
  sin_observed_at_mono_ns :: u64
  sin_status_unix_ms :: i64
  sin_checked_at_unix_ms :: i64

record session_state =
  ssn_subscription_id :: "string option"
  ssn_pending_hashes :: "pending_hash_observation list"
  ssn_last_pending_unix_ms :: i64
  ssn_seen :: seen_cache
  ssn_run :: live_run

datatype session_step = Listening session_state | Broken session_state | Errored anyhow session_state

definition session_flush ::
  "protocol_registry \<Rightarrow> surroundings \<Rightarrow> live_net \<Rightarrow> simulation_service \<Rightarrow> live_session
    \<Rightarrow> session_state \<Rightarrow> ((anyhow + unit) \<times> session_state) call" where
  "session_flush reg env net service session st =
     call_bind (flush_pending_hash_batches reg env net service session (ssn_pending_hashes st)
         (ssn_seen st) (ssn_run st))
       (\<lambda>(r, pending_hashes, cache, s).
          Returns (r, st\<lparr>ssn_pending_hashes := pending_hashes, ssn_seen := cache, ssn_run := s\<rparr>))"

definition observe_text ::
  "surroundings \<Rightarrow> live_session \<Rightarrow> session_input \<Rightarrow> ws_rpc_message option \<Rightarrow> session_state \<Rightarrow> session_state" where
  "observe_text env session input decoded st =
     (case parse_pending_hash decoded (ssn_subscription_id st) of
        (None, subscription_id) \<Rightarrow> st\<lparr>ssn_subscription_id := subscription_id\<rparr>
      | (Some hash_hex, subscription_id) \<Rightarrow>
          st\<lparr>ssn_subscription_id := subscription_id,
             ssn_pending_hashes := ssn_pending_hashes st @
               [\<lparr>pho_hash_hex = hash_hex, pho_observed_at_unix_ms = sin_observed_at_unix_ms input,
                 pho_observed_at_mono_ns = sin_observed_at_mono_ns input\<rparr>],
             ssn_last_pending_unix_ms := sin_observed_at_unix_ms input,
             ssn_run := on_core (update_chain_status (sin_status_unix_ms input) (lss_chain session)
               ((plain_update (lss_endpoint session) (lss_endpoint_index session) ''active'')
                  \<lparr>csu_observed_pending := True\<rparr>)) (take_turn env (ssn_run st))\<rparr>)"

text \<open>The flush after a frame or a timeout, and the check for a silent chain.\<close>

definition flush_and_check ::
  "protocol_registry \<Rightarrow> surroundings \<Rightarrow> live_net \<Rightarrow> simulation_service \<Rightarrow> live_session
    \<Rightarrow> session_input \<Rightarrow> session_state \<Rightarrow> session_step call" where
  "flush_and_check reg env net service session input st =
     call_bind (session_flush reg env net service session st) (\<lambda>(r, st).
       case r of
         Inl e \<Rightarrow> Returns (Errored e st)
       | Inr _ \<Rightarrow>
           if should_rotate_silent_chain (ssn_last_pending_unix_ms st) (sin_checked_at_unix_ms input)
                (lss_silent_chain_timeout_secs session)
           then Returns (Errored [''silent_chain_timeout: no pending notifications for '' @
                  dec_string (unat (lss_silent_chain_timeout_secs session)) @ ''s''] st)
           else Returns (Listening st))"

definition session_turn ::
  "protocol_registry \<Rightarrow> surroundings \<Rightarrow> live_net \<Rightarrow> simulation_service \<Rightarrow> live_session
    \<Rightarrow> session_input \<Rightarrow> session_state \<Rightarrow> session_step call" where
  "session_turn reg env net service session input st =
     (case sin_input input of
        FrameReceived (TextFrame decoded) \<Rightarrow>
          flush_and_check reg env net service session input (observe_text env session input decoded st)
      | FrameReceived (PingFrame pong_sent) \<Rightarrow>
          if pong_sent then flush_and_check reg env net service session input st
          else Returns (Broken st)
      | FrameReceived CloseFrame \<Rightarrow> Returns (Broken st)
      | FrameReceived OtherFrame \<Rightarrow> flush_and_check reg env net service session input st
      | FrameFailed e \<Rightarrow> Returns (Errored (''read websocket frame'' # e) st)
      | StreamEnded \<Rightarrow> Returns (Broken st)
      | FlushTimedOut \<Rightarrow> flush_and_check reg env net service session input st)"

text \<open>
  The loop over the inputs; \<open>None\<close> says that they are used up and the session still listens. A
  broken session flushes once more.
\<close>

fun session_loop ::
  "protocol_registry \<Rightarrow> surroundings \<Rightarrow> live_net \<Rightarrow> simulation_service \<Rightarrow> live_session
    \<Rightarrow> session_input list \<Rightarrow> session_state \<Rightarrow> ((anyhow + unit) option \<times> session_state) call" where
  "session_loop reg env net service session [] st = Returns (None, st)"
| "session_loop reg env net service session (input # inputs) st =
     call_bind (session_turn reg env net service session input st) (\<lambda>step.
       case step of
         Listening st \<Rightarrow> session_loop reg env net service session inputs st
       | Errored e st \<Rightarrow> Returns (Some (Inl e), st)
       | Broken st \<Rightarrow>
           call_bind (session_flush reg env net service session st) (\<lambda>(r, st). Returns (Some r, st)))"

text \<open>Connecting and subscribing; the seen hashes belong to the worker and outlive the session.\<close>

definition run_ws_session ::
  "protocol_registry \<Rightarrow> surroundings \<Rightarrow> live_net \<Rightarrow> simulation_service \<Rightarrow> live_session
    \<Rightarrow> anyhow option \<times> anyhow option \<times> i64 \<times> i64 \<Rightarrow> session_input list \<Rightarrow> seen_cache \<Rightarrow> live_run
    \<Rightarrow> ((anyhow + unit) option \<times> session_state) call" where
  "run_ws_session reg env net service session opening inputs cache s =
     (let (connect_error, send_error, subscribed_at, started_at) = opening;
          st = (\<lambda>s. \<lparr>ssn_subscription_id = None, ssn_pending_hashes = [],
            ssn_last_pending_unix_ms = started_at, ssn_seen = cache, ssn_run = s\<rparr>)
      in case connect_error of
           Some e \<Rightarrow> Returns (Some (Inl ((''connect '' @ rpe_ws_url (lss_endpoint session)) # e)), st s)
         | None \<Rightarrow>
             (case send_error of
                Some e \<Rightarrow> Returns (Some (Inl (''send eth_subscribe request'' # e)), st s)
              | None \<Rightarrow>
                  session_loop reg env net service session inputs
                    (st (on_core (update_chain_status subscribed_at (lss_chain session)
                      (plain_update (lss_endpoint session) (lss_endpoint_index session) ''subscribed''))
                      (take_turn env s)))))"

section \<open>Rebuilding the scheduler\<close>

fun rebuild_loop ::
  "protocol_registry \<Rightarrow> surroundings \<Rightarrow> live_net \<Rightarrow> (nat \<Rightarrow> u64) \<Rightarrow> simulation_service \<Rightarrow> chain_rpc_config
    \<Rightarrow> live_tx list \<Rightarrow> TxHash set \<Rightarrow> usize \<Rightarrow> live_run \<Rightarrow> (anyhow + usize) \<times> live_run" where
  "rebuild_loop reg env net mono_ns service chain [] seen rebuilt s = (Inr rebuilt, s)"
| "rebuild_loop reg env net mono_ns service chain (tx # pending) seen rebuilt s =
     (if ltx_hash tx \<in> seen then rebuild_loop reg env net mono_ns service chain pending seen rebuilt s
      else
        let obs = \<lparr>pho_hash_hex = format_hash_hex (ltx_hash tx),
                   pho_observed_at_unix_ms = net_clock net (lrn_turn s),
                   pho_observed_at_mono_ns = mono_ns (lrn_turn s)\<rparr>
        in case completed (process_pending_hash_with_fetched_tx reg env service chain
                  (net_clock net (lrn_turn s)) obs (ltx_hash tx) (Some tx) s) of
             (Inl e, s') \<Rightarrow> (Inl e, s')
           | (Inr _, s') \<Rightarrow> rebuild_loop reg env net mono_ns service chain pending
                              (insert (ltx_hash tx) seen) (Suc rebuilt) s')"

definition rebuild_scheduler_from_pending_transactions ::
  "protocol_registry \<Rightarrow> surroundings \<Rightarrow> live_net \<Rightarrow> (nat \<Rightarrow> u64) \<Rightarrow> simulation_service \<Rightarrow> chain_rpc_config
    \<Rightarrow> live_tx list \<Rightarrow> live_run \<Rightarrow> (anyhow + usize) \<times> live_run" where
  "rebuild_scheduler_from_pending_transactions reg env net mono_ns service chain pending s =
     rebuild_loop reg env net mono_ns service chain pending {} 0 s"

text \<open>The endpoints in turn; \<open>ask endpoint\<close> is what the node answers for its pending block.\<close>

fun rebuild_from_endpoints ::
  "protocol_registry \<Rightarrow> surroundings \<Rightarrow> live_net \<Rightarrow> (nat \<Rightarrow> u64) \<Rightarrow> simulation_service \<Rightarrow> chain_rpc_config
    \<Rightarrow> (string \<Rightarrow> anyhow + (anyhow + rpc_pending_block_response_envelope)) \<Rightarrow> anyhow option
    \<Rightarrow> rpc_endpoint list \<Rightarrow> live_run \<Rightarrow> ((anyhow + usize) \<times> live_run) call" where
  "rebuild_from_endpoints reg env net mono_ns service chain ask last_error [] s =
     Returns (Inl (case last_error of Some e \<Rightarrow> e
       | None \<Rightarrow> [''no rpc endpoints configured for pending-pool rebuild'']), s)"
| "rebuild_from_endpoints reg env net mono_ns service chain ask last_error (endpoint # rest) s =
     call_bind (case ask (rpe_http_url endpoint) of
         Inl e \<Rightarrow> Returns (Inl e)
       | Inr decoded \<Rightarrow> decode_pending_block_response_to_live_txs decoded) (\<lambda>fetched.
       case fetched of
         Inl e \<Rightarrow> rebuild_from_endpoints reg env net mono_ns service chain ask (Some e) rest s
       | Inr pending \<Rightarrow>
           Returns (rebuild_scheduler_from_pending_transactions reg env net mono_ns service chain pending s))"

definition rebuild_scheduler_from_pending_pool ::
  "protocol_registry \<Rightarrow> surroundings \<Rightarrow> live_net \<Rightarrow> (nat \<Rightarrow> u64) \<Rightarrow> simulation_service \<Rightarrow> chain_rpc_config
    \<Rightarrow> (string \<Rightarrow> anyhow + (anyhow + rpc_pending_block_response_envelope)) \<Rightarrow> live_run
    \<Rightarrow> ((anyhow + usize) \<times> live_run) call" where
  "rebuild_scheduler_from_pending_pool reg env net mono_ns service chain ask s =
     rebuild_from_endpoints reg env net mono_ns service chain ask None (crc_endpoints chain) s"

section \<open>What a batch fetches\<close>

text \<open>The hash that an announcement names, if it is well formed.\<close>

definition pending_hash :: "pending_hash_observation \<Rightarrow> TxHash option" where
  "pending_hash obs =
     (case rpc_fixed_hex 32 (pho_hash_hex obs) of Returns (Some bytes) \<Rightarrow> Some (be_word bytes) | _ \<Rightarrow> None)"

abbreviation pending_hashes_of :: "pending_hash_observation list \<Rightarrow> TxHash list" where
  "pending_hashes_of obs \<equiv> List.map_filter pending_hash obs"

lemma dedup_batch_exact:
  assumes "dedup_batch env n batch cache s = Returns (fresh, cache', s')"
  defines "offers \<equiv> map_state (remember_hash n) cache (pending_hashes_of batch)"
  shows "cache' = snd offers \<and> map snd fresh = map fst (filter snd (zip (pending_hashes_of batch) (fst offers))) \<and>
    (\<forall>(obs, h) \<in> set fresh. pending_hash obs = Some h) \<and>
    lrn_written s' = lrn_written s \<and> lrn_tasks s' = lrn_tasks s"
  using assms(1) unfolding offers_def
proof (induction batch arbitrary: cache s fresh cache' s')
  case (Cons obs batch)
  show ?case
  proof (cases "rpc_fixed_hex 32 (pho_hash_hex obs)")
    case (Returns parsed)
    show ?thesis
    proof (cases parsed)
      case None
      then show ?thesis
        using Cons.IH [where cache = cache and fresh = fresh and cache' = cache' and s' = s'] Cons.prems Returns
        by (simp add: pending_hash_def List.map_filter_simps) (simp add: on_core_def take_turn_def)
    next
      case (Some bytes)
      obtain new cache1 where r: "remember_hash n cache (be_word bytes) = (new, cache1)"
        by (cases "remember_hash n cache (be_word bytes)")
      obtain found where rest: "dedup_batch env n batch cache1 s = Returns (found, cache', s')"
        "fresh = (if new then (obs, be_word bytes) # found else found)"
        using Cons.prems Returns Some r by (cases "dedup_batch env n batch cache1 s") auto
      have named: "pending_hash obs = Some (be_word bytes)" by (simp add: pending_hash_def Returns Some)
      show ?thesis
        using Cons.IH [OF rest(1)] rest(2) named r by (simp add: List.map_filter_simps)
    qed
  qed (use Cons.prems in simp)
qed (simp add: List.map_filter_simps)

lemma dedup_batch_returns:
  assumes "\<forall>obs \<in> set batch. ascii (pho_hash_hex obs)"
  shows "\<exists>fresh cache' s'. dedup_batch env n batch cache s = Returns (fresh, cache', s')"
  using assms
proof (induction batch arbitrary: cache s)
  case (Cons obs batch)
  obtain parsed where parsed: "rpc_fixed_hex 32 (pho_hash_hex obs) = Returns parsed"
    using fixed_hex_ascii [of "pho_hash_hex obs" 32] Cons.prems by auto
  show ?case
  proof (cases parsed)
    case None
    then show ?thesis using Cons parsed by simp
  next
    case (Some bytes)
    obtain new cache1 where r: "remember_hash n cache (be_word bytes) = (new, cache1)"
      by (cases "remember_hash n cache (be_word bytes)")
    obtain found cache2 s2 where "dedup_batch env n batch cache1 s = Returns (found, cache2, s2)"
      using Cons.IH [of cache1 s] Cons.prems by auto
    then show ?thesis using parsed Some r by simp
  qed
qed simp

lemma seen_after: "fst (map_state (remember_hash n) ({}, []) hs) = verdicts n hs"
  using hash_set_cache.run_holds [of n "({}, [])" hs]
  by (simp add: hash_set_cache.holds_def last_n_def)

text \<open>
  Property C29. A batch fetches exactly the announced hashes that are not remembered: after any
  earlier announcements, the well-formed hashes that a batch goes on to fetch are, in order,
  those that a window over the last accepted hashes accepts; the cache has then been offered
  all of them, before any request is made, and nothing has been written.
\<close>

theorem batch_fetches_unseen_hashes:
  assumes "\<forall>obs \<in> set batch. ascii (pho_hash_hex obs)"
  shows "\<exists>fresh s'. dedup_batch env n batch (snd (map_state (remember_hash n) ({}, []) earlier)) s =
      Returns (fresh, snd (map_state (remember_hash n) ({}, []) (earlier @ pending_hashes_of batch)), s') \<and>
    accepted n (earlier @ pending_hashes_of batch) = accepted n earlier @ map snd fresh \<and>
    (\<forall>(obs, h) \<in> set fresh. pending_hash obs = Some h) \<and> lrn_written s' = lrn_written s"
proof -
  let ?hs = "pending_hashes_of batch"
  let ?offers = "map_state (remember_hash n) ({}, [])"
  obtain fresh cache' s' where d: "dedup_batch env n batch (snd (?offers earlier)) s = Returns (fresh, cache', s')"
    using dedup_batch_returns [OF assms] by blast
  note exact = dedup_batch_exact [OF d]
  have split: "?offers (earlier @ ?hs) = (fst (?offers earlier) @ fst (map_state (remember_hash n) (snd (?offers earlier)) ?hs),
      snd (map_state (remember_hash n) (snd (?offers earlier)) ?hs))"
    by (rule map_state_concat)
  have "accepted n (earlier @ ?hs) = map fst (filter snd (zip (earlier @ ?hs) (fst (?offers (earlier @ ?hs)))))"
    by (simp add: accepted_verdicts seen_after)
  also have "\<dots> = map fst (filter snd (zip earlier (fst (?offers earlier)))) @ map snd fresh"
    using exact unfolding split by (simp add: zip_append)
  also have "map fst (filter snd (zip earlier (fst (?offers earlier)))) = accepted n earlier"
    by (simp add: accepted_verdicts seen_after)
  finally show ?thesis using d exact split by auto
qed

section \<open>What a flush drains\<close>

lemma flush_loop_drains:
  assumes "flush_loop reg env net service session m pending cache s = Returns (r, pending', cache', s')"
  defines "bs \<equiv> bfc_batch_size (lss_batch_fetch session)"
  shows "\<exists>k \<le> m. pending' = drop (k * bs) pending \<and>
    cache' = snd (map_state (remember_hash (lss_max_seen_hashes session)) cache
      (pending_hashes_of (take (k * bs) pending))) \<and> (r = Inr () \<longrightarrow> k = m)"
  using assms(1)
proof (induction m arbitrary: pending cache s)
  case 0
  then show ?case by (simp add: List.map_filter_simps)
next
  case (Suc m)
  let ?n = "lss_max_seen_hashes session"
  have k: "take (min bs (length pending)) pending = take bs pending"
    "drop (min bs (length pending)) pending = drop bs pending"
    by (simp_all add: min_def)
  obtain r1 cache1 s1 where b: "process_pending_hash_batch reg env net service session (take bs pending) cache s =
      Returns (r1, cache1, s1)"
    using Suc.prems k
    by (cases "process_pending_hash_batch reg env net service session (take bs pending) cache s")
      (auto simp: Let_def bs_def)
  have cache1: "cache1 = snd (map_state (remember_hash ?n) cache (pending_hashes_of (take bs pending)))"
  proof -
    obtain fresh cache2 s2 where d: "dedup_batch env ?n (take bs pending) cache s = Returns (fresh, cache2, s2)"
      using b by (cases "dedup_batch env ?n (take bs pending) cache s") (auto simp: process_pending_hash_batch_def)
    have "cache1 = cache2"
      using b d by (cases "fst (fetch_transactions_by_hash_batch_with_retry (net_http net (lrn_turn (take_turn env s2)))
          (map (pho_hash_hex \<circ> fst) fresh) (lss_batch_fetch session))")
        (auto simp: process_pending_hash_batch_def Let_def split: if_splits sum.splits prod.splits)
    then show ?thesis using dedup_batch_exact [OF d] by simp
  qed
  show ?case
  proof (cases r1)
    case (Inl e)
    then have "pending' = drop bs pending" "cache' = cache1" "r = Inl e"
      using Suc.prems k b by (simp_all add: Let_def bs_def [symmetric])
    then show ?thesis using cache1 by (intro exI [of _ 1]) simp
  next
    case (Inr u)
    then have "flush_loop reg env net service session m (drop bs pending) cache1 s1 = Returns (r, pending', cache', s')"
      using Suc.prems k b by (simp add: Let_def bs_def [symmetric])
    from Suc.IH [OF this] obtain j where j: "j \<le> m" "pending' = drop (j * bs) (drop bs pending)"
      "cache' = snd (map_state (remember_hash ?n) cache1 (pending_hashes_of (take (j * bs) (drop bs pending))))"
      "r = Inr () \<longrightarrow> j = m"
      by blast
    have "take (Suc j * bs) pending = take bs pending @ take (j * bs) (drop bs pending)"
      by (simp add: take_add)
    then show ?thesis
      using j cache1
      by (intro exI [of _ "Suc j"]) (simp add: map_state_concat map_filter_concat add.commute)
  qed
qed

lemma dispatch_count:
  assumes "1 \<le> bs" and "1 \<le> flight"
  shows "dispatchable_batch_count len bs flight \<le> flight"
    and "drop (dispatchable_batch_count (length xs) bs flight * bs) xs = drop (flight * bs) xs"
proof -
  show "dispatchable_batch_count len bs flight \<le> flight"
    using assms by (simp add: dispatchable_batch_count_def Let_def max_def)
  show "drop (dispatchable_batch_count (length xs) bs flight * bs) xs = drop (flight * bs) xs"
  proof (cases "(length xs + bs - 1) div bs \<le> flight")
    case True
    have "length xs \<le> (length xs + bs - 1) div bs * bs"
    proof -
      have "length xs + bs - 1 = (length xs + bs - 1) div bs * bs + (length xs + bs - 1) mod bs" by simp
      moreover have "(length xs + bs - 1) mod bs < bs" using assms(1) by simp
      ultimately show ?thesis using assms(1) by linarith
    qed
    moreover have "(length xs + bs - 1) div bs * bs \<le> flight * bs" using True by (rule mult_le_mono1)
    ultimately have "length xs \<le> flight * bs" by (rule le_trans)
    then show ?thesis
      using True \<open>length xs \<le> (length xs + bs - 1) div bs * bs\<close> assms
      by (cases "xs = []") (simp_all add: dispatchable_batch_count_def Let_def max_def min_def)
  next
    case False
    then show ?thesis
      using assms by (cases "xs = []") (simp_all add: dispatchable_batch_count_def Let_def max_def min_def)
  qed
qed

text \<open>
  A flush is bounded: it takes at most the permitted number of batches of the
  configured size from the front of the queue, offers all their hashes to the cache, even those of
  a batch whose fetch fails, and when it succeeds only what exceeds the permitted batches is left
  in the queue.
\<close>

theorem flush_bounded:
  assumes "1 \<le> bfc_batch_size (lss_batch_fetch session)" and "1 \<le> bfc_max_in_flight (lss_batch_fetch session)"
    and "flush_pending_hash_batches reg env net service session pending cache s = Returns (r, pending', cache', s')"
  shows "\<exists>k \<le> bfc_max_in_flight (lss_batch_fetch session).
    let drained = k * bfc_batch_size (lss_batch_fetch session)
    in pending' = drop drained pending \<and>
       cache' = snd (map_state (remember_hash (lss_max_seen_hashes session)) cache
         (pending_hashes_of (take drained pending))) \<and>
       (r = Inr () \<longrightarrow> pending' =
          drop (bfc_max_in_flight (lss_batch_fetch session) * bfc_batch_size (lss_batch_fetch session)) pending)"
proof -
  let ?bs = "bfc_batch_size (lss_batch_fetch session)" and ?flight = "bfc_max_in_flight (lss_batch_fetch session)"
  let ?count = "dispatchable_batch_count (length pending) ?bs ?flight"
  obtain k where k: "k \<le> ?count" "pending' = drop (k * ?bs) pending"
    "cache' = snd (map_state (remember_hash (lss_max_seen_hashes session)) cache
      (pending_hashes_of (take (k * ?bs) pending)))" "r = Inr () \<longrightarrow> k = ?count"
    using flush_loop_drains [OF assms(3) [unfolded flush_pending_hash_batches_def]] by blast
  have "k \<le> ?flight" using k(1) dispatch_count(1) [OF assms(1,2)] by (rule le_trans)
  moreover have "r = Inr () \<longrightarrow> pending' = drop (?flight * ?bs) pending"
    using k(2,4) dispatch_count(2) [OF assms(1,2), of pending] by simp
  ultimately show ?thesis
    using k(2,3) by (intro exI [of _ k]) (simp only: Let_def simp_thms)
qed

definition sample_session :: live_session where
  "sample_session = \<lparr>lss_chain = hd (lrc_chains default_live_rpc_config),
     lss_endpoint = hd (crc_endpoints (hd (lrc_chains default_live_rpc_config))), lss_endpoint_index = 0,
     lss_max_seen_hashes = 2,
     lss_batch_fetch = \<lparr>bfc_batch_size = 1, bfc_max_in_flight = 1, bfc_retry_attempts = 0,
       bfc_retry_backoff_ms = 0, bfc_flush_interval_ms = 40\<rparr>,
     lss_silent_chain_timeout_secs = 20\<rparr>"

text \<open>
  One flush leaves the second announcement in the queue, also the flush at the end of a session, after
  which the queue is gone.
\<close>

definition sample_announcements :: "pending_hash_observation list" where
  "sample_announcements =
     [\<lparr>pho_hash_hex = ''0xzz'', pho_observed_at_unix_ms = 1, pho_observed_at_mono_ns = 2\<rparr>,
      \<lparr>pho_hash_hex = ''0x01'', pho_observed_at_unix_ms = 3, pho_observed_at_mono_ns = 4\<rparr>]"

lemma sample_flush:
  "\<exists>s'. flush_pending_hash_batches reg env net service sample_session sample_announcements ({}, []) s =
     Returns (Inr (), drop 1 sample_announcements, ({}, []), s')"
proof -
  have "rpc_fixed_hex 32 ''0xzz'' = Returns None" by code_simp
  then show ?thesis
    by (simp add: flush_pending_hash_batches_def sample_session_def dispatchable_batch_count_def
        numeral_eq_Suc process_pending_hash_batch_def sample_announcements_def)
qed

theorem flush_bounded_witness:
  "\<forall>reg env net service s. \<exists>pending' s'.
    flush_pending_hash_batches reg env net service sample_session sample_announcements ({}, []) s =
      Returns (Inr (), pending', ({}, []), s') \<and>
    pending' = drop (1 * 1) sample_announcements \<and> length pending' = 1"
proof (intro allI)
  fix reg env net service s
  obtain s' where f: "flush_pending_hash_batches reg env net service sample_session sample_announcements ({}, []) s =
      Returns (Inr (), drop 1 sample_announcements, ({}, []), s')"
    using sample_flush by blast
  have "1 \<le> bfc_batch_size (lss_batch_fetch sample_session)" "1 \<le> bfc_max_in_flight (lss_batch_fetch sample_session)"
    by (simp_all add: sample_session_def)
  from flush_bounded [OF this f]
  have "drop 1 sample_announcements = drop (1 * 1) sample_announcements"
    by (auto simp: sample_session_def Let_def)
  then show "\<exists>pending' s'.
    flush_pending_hash_batches reg env net service sample_session sample_announcements ({}, []) s =
      Returns (Inr (), pending', ({}, []), s') \<and>
    pending' = drop (1 * 1) sample_announcements \<and> length pending' = 1"
    using f by (auto simp: sample_announcements_def)
qed

text \<open>
  A batch of two malformed announcements and two of the same hash, which has not been seen: the
  hash is fetched once.
\<close>

definition sample_batch :: "pending_hash_observation list" where
  "sample_batch = map (\<lambda>hash. \<lparr>pho_hash_hex = hash, pho_observed_at_unix_ms = 1, pho_observed_at_mono_ns = 2\<rparr>)
     [''pending'', ''0x'' @ replicate 64 CHR ''1'', ''0X'' @ replicate 64 CHR ''1'', ''0x'' @ replicate 64 CHR ''1'']"

theorem batch_fetches_unseen_hashes_witness:
  "\<forall>env s. \<exists>fresh cache s'. dedup_batch env 2 sample_batch ({7}, [7]) s = Returns (fresh, cache, s') \<and>
    accepted 2 (7 # pending_hashes_of sample_batch) = accepted 2 [7] @ map snd fresh \<and> lrn_written s' = lrn_written s"
proof (intro allI)
  fix env s
  have "\<forall>obs \<in> set sample_batch. ascii (pho_hash_hex obs)" by code_simp
  moreover have "snd (map_state (remember_hash 2) ({}, []) [7]) = ({7}, [7])" by code_simp
  ultimately show "\<exists>fresh cache s'. dedup_batch env 2 sample_batch ({7}, [7]) s = Returns (fresh, cache, s') \<and>
      accepted 2 (7 # pending_hashes_of sample_batch) = accepted 2 [7] @ map snd fresh \<and> lrn_written s' = lrn_written s"
    using batch_fetches_unseen_hashes [of sample_batch env 2 "[7]" s] by auto
qed

end
