(* ===== verification/Live_Rpc_Simulation.thy ===== *)
theory Live_Rpc_Simulation
  imports Live_Rpc_Tasks Sim_Engine
begin

text \<open>
  The simulation workers (\<^verbatim>\<open>src/crates/runtime-core/src/live_rpc.rs\<close>): the
  chain context and the account seeds that a simulation fetches from a node, its timeout, the
  status it publishes, and what its outcome does to the scheduler, the event stream and the
  block under assembly. HTTP answers, clocks and the EVM are parameters; other tasks
  act between the interactions as in the pipeline.
\<close>

section \<open>Settings\<close>

definition resolve_sim_queue_capacity :: "(string \<Rightarrow> string option) \<Rightarrow> usize" where
  "resolve_sim_queue_capacity env =
     (case parse_env_usize env ''VIZ_API_SIM_QUEUE_CAPACITY'' of
        Inr (Some n) \<Rightarrow> max n 1 | Inr None \<Rightarrow> 128 | Inl _ \<Rightarrow> 128)"

definition resolve_sim_worker_count :: "(string \<Rightarrow> string option) \<Rightarrow> usize" where
  "resolve_sim_worker_count env =
     (case parse_env_usize env ''VIZ_API_SIM_WORKER_COUNT'' of
        Inr (Some n) \<Rightarrow> max n 1 | Inr None \<Rightarrow> 4 | Inl _ \<Rightarrow> 4)"

definition positive_setting :: "(string \<Rightarrow> string option) \<Rightarrow> string \<Rightarrow> u64 \<Rightarrow> u64" where
  "positive_setting env key fallback =
     (case Option.bind (env key) (\<lambda>raw. parse_u64 (trim raw)) of
        Some n \<Rightarrow> if 0 < n then n else fallback | None \<Rightarrow> fallback)"

definition resolve_sim_cache_ttl_ms :: "(string \<Rightarrow> string option) \<Rightarrow> u64" where
  "resolve_sim_cache_ttl_ms env = positive_setting env ''VIZ_API_SIM_CACHE_TTL_MS'' 5000"

definition resolve_sim_rpc_timeout_ms :: "(string \<Rightarrow> string option) \<Rightarrow> u64" where
  "resolve_sim_rpc_timeout_ms env = positive_setting env ''VIZ_API_SIM_RPC_TIMEOUT_MS'' 2000"

section \<open>Answers of a node\<close>

record rpc_header =
  rph_number :: string
  rph_timestamp :: string
  rph_gas_limit :: string
  rph_base_fee_per_gas :: "string option"
  rph_miner :: "string option"
  rph_state_root :: "string option"

record rpc_header_response_envelope =
  rhe_error :: "rpc_fetch_error_envelope option"
  rhe_result :: "rpc_header option"

record rpc_scalar_response_envelope =
  rse_error :: "rpc_fetch_error_envelope option"
  rse_result :: "string option"

text \<open>
  A request is answered, or fails to be sent or decoded, or the deadline of the simulation
  passes while it is waited for.
\<close>

datatype 'a awaited = Answered "anyhow + 'a" | DeadlinePassed

record sim_http =
  smh_header :: "rpc_header_response_envelope awaited"
  smh_scalar :: "string \<Rightarrow> string \<Rightarrow> rpc_scalar_response_envelope awaited"

text \<open>How a fallible computation under a deadline ends.\<close>

datatype 'a attempt = Got 'a | Failed anyhow | Expired | Panicked

fun attempt_bind :: "'a attempt \<Rightarrow> ('a \<Rightarrow> 'b attempt) \<Rightarrow> 'b attempt" where
  "attempt_bind (Got x) f = f x"
| "attempt_bind (Failed e) f = Failed e"
| "attempt_bind Expired f = Expired"
| "attempt_bind Panicked f = Panicked"

fun await :: "'a awaited \<Rightarrow> 'a attempt" where
  "await (Answered (Inr x)) = Got x"
| "await (Answered (Inl e)) = Failed e"
| "await DeadlinePassed = Expired"

fun required :: "string \<Rightarrow> 'a option \<Rightarrow> 'a attempt" where
  "required message (Some x) = Got x"
| "required message None = Failed [message]"

fun parsed :: "'a call \<Rightarrow> 'a attempt" where
  "parsed (Returns x) = Got x"
| "parsed Panics = Panicked"

definition rpc_failure :: "string \<Rightarrow> rpc_fetch_error_envelope \<Rightarrow> anyhow" where
  "rpc_failure what error = [what @ '': '' @ or_default (rfe_message error) ''unknown rpc error'']"

section \<open>The chain context\<close>

definition fetch_remote_chain_context ::
  "sim_http \<Rightarrow> chain_rpc_config \<Rightarrow> remote_simulation_request \<Rightarrow> chain_context attempt" where
  "fetch_remote_chain_context http chain request =
     attempt_bind (await (smh_header http)) (\<lambda>response.
       case rhe_error response of
         Some error \<Rightarrow> Failed (rpc_failure ''rpc header fetch failed'' error)
       | None \<Rightarrow>
     attempt_bind (required ''rpc header response missing result'' (rhe_result response)) (\<lambda>header.
     attempt_bind (required ''invalid block number'' (parse_hex_word (rph_number header))) (\<lambda>block_number.
     attempt_bind (required ''invalid block timestamp'' (parse_hex_word (rph_timestamp header))) (\<lambda>block_timestamp.
     attempt_bind (required ''invalid block gas limit'' (parse_hex_word (rph_gas_limit header))) (\<lambda>gas_limit.
     attempt_bind (parsed (and_then_call (rph_miner header) (rpc_fixed_hex 20))) (\<lambda>miner.
     attempt_bind (parsed (and_then_call (rph_state_root header) (rpc_fixed_hex 32))) (\<lambda>state_root.
       Got \<lparr>cc_chain_id =
              (case rsr_txs request of
                 tx # _ \<Rightarrow> (case dec_chain_id (vt_decoded tx) of
                     Some c \<Rightarrow> c | None \<Rightarrow> or_default (crc_chain_id chain) 1)
               | [] \<Rightarrow> or_default (crc_chain_id chain) 1),
            cc_block_number = block_number, cc_block_timestamp = block_timestamp,
            cc_gas_limit = gas_limit,
            cc_base_fee_wei = or_default (Option.bind (rph_base_fee_per_gas header) parse_hex_word) 0,
            cc_coinbase = (case miner of Some bs \<Rightarrow> be_word bs | None \<Rightarrow> 0),
            cc_state_root = (case state_root of Some bs \<Rightarrow> be_word bs | None \<Rightarrow> 0)\<rparr>)))))))"

section \<open>Account seeds\<close>

definition fetch_rpc_scalar :: "sim_http \<Rightarrow> string \<Rightarrow> string \<Rightarrow> string attempt" where
  "fetch_rpc_scalar http method address_hex =
     attempt_bind (await (smh_scalar http method address_hex)) (\<lambda>response.
       case rse_error response of
         Some error \<Rightarrow> Failed (rpc_failure ''rpc scalar fetch failed'' error)
       | None \<Rightarrow> required ''rpc scalar response missing result'' (rse_result response))"

definition fetch_account_seed_from_rpc :: "sim_http \<Rightarrow> Address \<Rightarrow> account_seed attempt" where
  "fetch_account_seed_from_rpc http address =
     (let address_hex = format_fixed_hex (be_bytes 20 address)
      in attempt_bind (fetch_rpc_scalar http ''eth_getBalance'' address_hex) (\<lambda>raw_balance.
         attempt_bind (required ''invalid balance payload'' (parse_hex_word raw_balance)) (\<lambda>balance.
         attempt_bind (fetch_rpc_scalar http ''eth_getTransactionCount'' address_hex) (\<lambda>raw_nonce.
         attempt_bind (required ''invalid nonce payload'' (parse_hex_word raw_nonce)) (\<lambda>nonce.
           Got \<lparr>as_balance_wei = balance, as_nonce = nonce\<rparr>)))))"

text \<open>The clock of a fetch is read once; every access to the cache is an interaction.\<close>

record seed_source =
  sds_http :: sim_http
  sds_http_url :: string
  sds_block_number :: u64
  sds_now_unix_ms :: i64
  sds_ttl_ms :: i64

definition count_on_core ::
  "surroundings \<Rightarrow> (simulation_metrics \<Rightarrow> simulation_metrics) \<Rightarrow> live_run \<Rightarrow> live_run" where
  "count_on_core env f s = on_core (on_simulation_metrics f) (take_turn env s)"

fun seed_loop ::
  "surroundings \<Rightarrow> seed_source \<Rightarrow> Address list \<Rightarrow> (Address, account_seed) btree_map \<Rightarrow> live_run
    \<Rightarrow> (Address, account_seed) btree_map attempt \<times> live_run" where
  "seed_loop env src [] seeds s = (Got seeds, s)"
| "seed_loop env src (sender # senders) seeds s =
     (let s = take_turn env s
      in case cached_account_seed_of (lsh_core (lrn_shared s)) (sds_http_url src) sender
                (sds_block_number src) (sds_now_unix_ms src) (sds_ttl_ms src) of
           Some seed \<Rightarrow>
             seed_loop env src senders (bt_insert sender seed seeds)
               (count_on_core env observe_simulation_cache_hit s)
         | None \<Rightarrow>
             let s = count_on_core env observe_simulation_cache_miss s
             in (case fetch_account_seed_from_rpc (sds_http src) sender of
                   Got seed \<Rightarrow>
                     seed_loop env src senders (bt_insert sender seed seeds)
                       (on_core (cache_account_seed (sds_http_url src) sender (sds_block_number src)
                         (sds_now_unix_ms src) seed) (take_turn env s))
                 | Failed e \<Rightarrow> (Failed e, s)
                 | Expired \<Rightarrow> (Expired, s)
                 | Panicked \<Rightarrow> (Panicked, s)))"

definition unique_senders :: "validated_transaction list \<Rightarrow> Address list" where
  "unique_senders txs = sort (remdups (map (\<lambda>tx. dec_sender (vt_decoded tx)) txs))"

definition fetch_cached_account_seeds ::
  "surroundings \<Rightarrow> seed_source \<Rightarrow> validated_transaction list \<Rightarrow> live_run
    \<Rightarrow> (Address, account_seed) btree_map attempt \<times> live_run" where
  "fetch_cached_account_seeds env src txs s = seed_loop env src (unique_senders txs) bt_empty s"

section \<open>One simulation\<close>

text \<open>The EVM and its database, as in the simulation engine.\<close>

record 'db evm =
  evm_sha256 :: "u8 list \<Rightarrow> TxHash"
  evm_empty_db :: 'db
  evm_insert_account :: "Address \<Rightarrow> u128 \<Rightarrow> u64 \<Rightarrow> 'db \<Rightarrow> 'db"
  evm_transact :: "chain_context \<Rightarrow> 'db \<Rightarrow> tx_env \<Rightarrow> (evm_error \<times> u8 list) + execution_outcome"
  evm_commit :: "'db \<Rightarrow> evm_state \<Rightarrow> 'db"

text \<open>What a simulation finds: the node, the process environment, and the clocks.\<close>

record sim_world =
  smw_http :: sim_http
  smw_env :: "string \<Rightarrow> string option"
  smw_now_unix_ms :: i64
  smw_elapsed_ms :: u128

definition simulation_inputs :: "remote_simulation_request \<Rightarrow> simulation_tx_input list" where
  "simulation_inputs request =
     map (\<lambda>tx. \<lparr>sti_decoded = vt_decoded tx, sti_calldata = Some (vt_calldata tx)\<rparr>) (rsr_txs request)"

definition cached_state_provider :: "(Address, account_seed) btree_map \<Rightarrow> Address \<Rightarrow> anyhow + account_seed option" where
  "cached_state_provider account_seeds address = Inr (bt_get account_seeds address)"

definition run_simulation ::
  "surroundings \<Rightarrow> 'db evm \<Rightarrow> sim_world \<Rightarrow> chain_rpc_config \<Rightarrow> remote_simulation_request \<Rightarrow> live_run
    \<Rightarrow> simulation_batch_result attempt \<times> live_run" where
  "run_simulation env evm world chain request s =
     (case primary_http_url chain of
        None \<Rightarrow> (Failed [''no http endpoint configured for simulation''], s)
      | Some http_url \<Rightarrow>
          (case fetch_remote_chain_context (smw_http world) chain request of
             Got ctx \<Rightarrow>
               let (seeds, s) = fetch_cached_account_seeds env
                     \<lparr>sds_http = smw_http world, sds_http_url = http_url,
                      sds_block_number = cc_block_number ctx, sds_now_unix_ms = smw_now_unix_ms world,
                      sds_ttl_ms = sint (resolve_sim_cache_ttl_ms (smw_env world))\<rparr> (rsr_txs request) s
               in (attempt_bind seeds (\<lambda>account_seeds.
                     case simulate_with_mode (evm_sha256 evm) (evm_empty_db evm) (evm_insert_account evm)
                            (evm_transact evm) (evm_commit evm) ctx (simulation_inputs request)
                            (RpcBacked (cached_state_provider account_seeds)) of
                       Inl e \<Rightarrow> Failed e | Inr batch \<Rightarrow> Got batch), s)
           | Failed e \<Rightarrow> (Failed e, s)
           | Expired \<Rightarrow> (Expired, s)
           | Panicked \<Rightarrow> (Panicked, s)))"

definition outcome_of ::
  "remote_simulation_request \<Rightarrow> u64
    \<Rightarrow> remote_simulation_status \<times> string option \<times> simulation_batch_result option \<Rightarrow> remote_simulation_outcome" where
  "outcome_of request latency_ms verdict =
     (case verdict of (status, fail_category, batch) \<Rightarrow>
        \<lparr>rso_sim_id = ''sim-'' @ hash_prefix (rsr_tx_hash request) @ ''-'' @ show_int (rsr_detected_unix_ms request),
         rso_status = status, rso_fail_category = fail_category, rso_latency_ms = latency_ms,
         rso_tx_count = of_nat (length (rsr_txs request)), rso_simulation_batch = batch\<rparr>)"

definition simulate_remote_request ::
  "surroundings \<Rightarrow> 'db evm \<Rightarrow> sim_world \<Rightarrow> chain_rpc_config \<Rightarrow> remote_simulation_request \<Rightarrow> live_run
    \<Rightarrow> remote_simulation_outcome call \<times> live_run" where
  "simulate_remote_request env evm world chain request s =
     (let latency_ms = ucast (smw_elapsed_ms world);
          finish = (\<lambda>(status, fail_category, batch) s.
            (Returns (outcome_of request latency_ms (status, fail_category, batch)),
             count_on_core env (observe_simulation_result (simulation_status_label status) latency_ms
               (length (rsr_txs request)) fail_category) s))
      in case run_simulation env evm world chain request s of
           (Got batch, s') \<Rightarrow>
             (case summarize_simulation_batch batch of
                (status, fail_category) \<Rightarrow> finish (status, fail_category, Some batch) s')
         | (Failed _, s') \<Rightarrow> finish (SimStateError, Some ''state_rpc'', None) s'
         | (Expired, s') \<Rightarrow> finish (SimTimeout, Some ''state_timeout'', None) s'
         | (Panicked, s') \<Rightarrow> (Panics, s'))"

section \<open>Applying an outcome\<close>

definition build_simulation_status_snapshot ::
  "simulation_task \<Rightarrow> remote_simulation_outcome \<Rightarrow> i64 \<Rightarrow> simulation_status_snapshot" where
  "build_simulation_status_snapshot task outcome finished_unix_ms =
     \<lparr>sss_id = rso_sim_id outcome,
      sss_bundle_id =
        (case smt_candidates task of
           c # _ \<Rightarrow> bundle_id_for_opportunity (exo_record (rgc_opportunity c))
         | [] \<Rightarrow> build_bundle_id (rsr_tx_hash (smt_request task)) (rsr_detected_unix_ms (smt_request task))),
      sss_status = simulation_status_label (rso_status outcome), sss_relay_url = ''not_submitted'',
      sss_attempt_count = 0, sss_accepted = (rso_status outcome = SimOk),
      sss_fail_category = rso_fail_category outcome, sss_started_unix_ms = smt_enqueued_unix_ms task,
      sss_finished_unix_ms = finished_unix_ms\<rparr>"

definition result_of_candidate ::
  "remote_simulation_outcome \<Rightarrow> registered_simulation_candidate \<Rightarrow> scheduler_simulation_result" where
  "result_of_candidate outcome c =
     \<lparr>sr_candidate_id = spec_candidate_id (rgc_spec c), sr_tx_hash = spec_tx_hash (rgc_spec c),
      sr_member_tx_hashes = spec_member_tx_hashes (rgc_spec c),
      sr_block_number = spec_block_number (rgc_spec c), sr_generation = spec_generation (rgc_spec c),
      sr_approved = (rso_status outcome = SimOk)\<rparr>"

definition apply_result ::
  "surroundings \<Rightarrow> scheduler_simulation_result \<Rightarrow> scheduler_simulation_apply_outcome live" where
  "apply_result env result s =
     (case send_command_with_reply env (ApplySimulationResult result) s of
        (Inr (ApplyReply applied), s') \<Rightarrow> (Go applied, s')
      | (Inl e, s') \<Rightarrow> (Raise [''scheduler simulation apply failed: '' @ enqueue_error_debug e], s')
      | (Inr _, s') \<Rightarrow> (Raise [''scheduler simulation apply failed: QueueClosed''], s'))"

definition completion_payloads ::
  "remote_simulation_outcome \<Rightarrow> registered_simulation_candidate \<Rightarrow> event_payload list" where
  "completion_payloads outcome c =
     (let opp = exo_record (rgc_opportunity c); sim_event = build_sim_completed_payload opp outcome
      in SimCompleted sim_event #
         (if rso_status outcome = SimOk then [build_bundle_submitted_payload opp sim_event] else []))"

fun apply_candidates ::
  "surroundings \<Rightarrow> simulation_task \<Rightarrow> remote_simulation_outcome \<Rightarrow> i64
    \<Rightarrow> registered_simulation_candidate list \<Rightarrow> candidate_id set \<Rightarrow> candidate_id set live" where
  "apply_candidates env task outcome finished [] taken s = (Go taken, s)"
| "apply_candidates env task outcome finished (c # rest) taken s =
     and_then (apply_result env (result_of_candidate outcome c)) (\<lambda>applied s.
       if 0 < sao_stale_result_drop_total applied
       then apply_candidates env task outcome finished rest taken
              (count_on_core env observe_simulation_stale_drop s)
       else
         let taken = (if sao_builder_handoffs applied \<noteq> []
               then insert (spec_candidate_id (rgc_spec c)) taken else taken)
         in and_then (in_order (map (append_event_with_owner env (smt_chain task) finished)
                (completion_payloads outcome c)))
              (\<lambda>_. apply_candidates env task outcome finished rest taken) s) s"

record builder_decision_record =
  bdr_tx_hash :: TxHash
  bdr_block_number :: u64
  bdr_decision :: assembly_decision

text \<open>\<open>elapsed_ns n\<close> is how long the insertion at the n-th interaction takes.\<close>

fun assemble_candidates ::
  "surroundings \<Rightarrow> (nat \<Rightarrow> u128) \<Rightarrow> simulation_batch_result \<Rightarrow> candidate_id set
    \<Rightarrow> registered_simulation_candidate list \<Rightarrow> live_run \<Rightarrow> builder_decision_record list \<times> live_run" where
  "assemble_candidates env elapsed_ns batch taken [] s = ([], s)"
| "assemble_candidates env elapsed_ns batch taken (c # rest) s =
     (if spec_candidate_id (rgc_spec c) \<notin> taken
      then assemble_candidates env elapsed_ns batch taken rest s
      else case from_simulated_opportunity hex_lower (exo_candidate (rgc_opportunity c)) batch of
             Inl _ \<Rightarrow> assemble_candidates env elapsed_ns batch taken rest s
           | Inr builder_candidate \<Rightarrow>
               let elapsed = elapsed_ns (lrn_turn s); s = take_turn env s;
                   (decision, core) = with_builder_engine_mut
                     (\<lambda>engine. insert_candidate elapsed engine builder_candidate) (lsh_core (lrn_shared s));
                   (decisions, s) = assemble_candidates env elapsed_ns batch taken rest
                     (on_core (\<lambda>_. core) s)
               in (\<lparr>bdr_tx_hash = opr_tx_hash (exo_record (rgc_opportunity c)),
                    bdr_block_number = sa_block_number (ac_simulation builder_candidate),
                    bdr_decision = decision\<rparr> # decisions, s))"

definition apply_builder_assembly_state ::
  "surroundings \<Rightarrow> (nat \<Rightarrow> u128) \<Rightarrow> simulation_task \<Rightarrow> remote_simulation_outcome \<Rightarrow> candidate_id set
    \<Rightarrow> live_run \<Rightarrow> builder_decision_record list \<times> live_run" where
  "apply_builder_assembly_state env elapsed_ns task outcome taken s =
     (case rso_simulation_batch outcome of
        None \<Rightarrow> ([], s)
      | Some batch \<Rightarrow> assemble_candidates env elapsed_ns batch taken (smt_candidates task) s)"

definition decision_payload :: "builder_decision_record \<Rightarrow> event_payload" where
  "decision_payload d =
     build_assembly_decision_payload (bdr_tx_hash d) (bdr_block_number d) (bdr_decision d)"

definition apply_simulation_task_outcome ::
  "surroundings \<Rightarrow> (nat \<Rightarrow> u128) \<Rightarrow> simulation_task \<Rightarrow> remote_simulation_outcome \<Rightarrow> i64 \<Rightarrow> unit live" where
  "apply_simulation_task_outcome env elapsed_ns task outcome finished s =
     and_then (apply_candidates env task outcome finished (smt_candidates task) {}) (\<lambda>taken s.
       if taken = {} then (Go (), s)
       else
         let (decisions, s) = apply_builder_assembly_state env elapsed_ns task outcome taken s
         in in_order (map (append_event_with_owner env (smt_chain task) finished)
              (map decision_payload decisions)) s)
       (on_core (record_simulation_status (build_simulation_status_snapshot task outcome finished))
         (take_turn env s))"

section \<open>A worker\<close>

text \<open>
  One task of the loop of a worker: whether the worker lives on, and its run. A panic ends the
  worker's task before it observes that the simulation has finished.
\<close>

definition simulation_worker_turn ::
  "surroundings \<Rightarrow> (nat \<Rightarrow> u128) \<Rightarrow> 'db evm \<Rightarrow> sim_world \<Rightarrow> i64 \<Rightarrow> simulation_task \<Rightarrow> live_run
    \<Rightarrow> bool \<times> live_run" where
  "simulation_worker_turn env elapsed_ns evm world finished task s =
     (case simulate_remote_request env evm world (smt_chain task) (smt_request task)
             (count_on_core env observe_simulation_dequeue s) of
        (Panics, s') \<Rightarrow> (False, s')
      | (Returns outcome, s') \<Rightarrow>
          (True, count_on_core env observe_simulation_finish
             (snd (apply_simulation_task_outcome env elapsed_ns task outcome finished s'))))"

fun run_simulation_worker ::
  "surroundings \<Rightarrow> (nat \<Rightarrow> u128) \<Rightarrow> 'db evm \<Rightarrow> (sim_world \<times> i64 \<times> simulation_task) list \<Rightarrow> live_run
    \<Rightarrow> bool \<times> live_run" where
  "run_simulation_worker env elapsed_ns evm [] s = (True, s)"
| "run_simulation_worker env elapsed_ns evm ((world, finished, task) # rest) s =
     (case simulation_worker_turn env elapsed_ns evm world finished task s of
        (False, s') \<Rightarrow> (False, s')
      | (True, s') \<Rightarrow> run_simulation_worker env elapsed_ns evm rest s')"

section \<open>What a worker reports\<close>

fun write_payload :: "storage_write_op \<Rightarrow> event_payload option" where
  "write_payload (AppendPayload _ payload _ _) = Some payload"
| "write_payload _ = None"

abbreviation candidate_named :: "registered_simulation_candidate \<Rightarrow> candidate_id" where
  "candidate_named c \<equiv> spec_candidate_id (rgc_spec c)"

abbreviation candidate_about :: "registered_simulation_candidate \<Rightarrow> TxHash" where
  "candidate_about c \<equiv> opr_tx_hash (exo_record (rgc_opportunity c))"

text \<open>
  The events of some of the candidates, in their order and each once, and then decisions on
  candidates whose own events came before, the latter only for a successful simulation; or a
  first part of all this.
\<close>

definition reported ::
  "registered_simulation_candidate list \<Rightarrow> remote_simulation_outcome \<Rightarrow> storage_write_op list \<Rightarrow> bool" where
  "reported candidates outcome ops \<longleftrightarrow>
     (\<exists>cs ds. subseq cs candidates \<and>
        prefix (map write_payload ops)
          (map Some (concat (map (completion_payloads outcome) cs) @ map decision_payload ds)) \<and>
        (ds \<noteq> [] \<longrightarrow> rso_status outcome = SimOk) \<and>
        (\<forall>d \<in> set ds. \<exists>c \<in> set candidates. bdr_tx_hash d = candidate_about c \<and>
           candidate_named c \<in> candidate_named ` set cs))"

lemma emits_events:
  "emits (in_order (map (append_event_with_owner env chain now) ps)) (\<lambda>r ops ts. ts = [] \<and>
     prefix (map write_payload ops) (map Some ps) \<and> (\<forall>x. r = Go x \<longrightarrow> map write_payload ops = map Some ps))"
proof (induction ps)
  case Nil
  show ?case by (simp add: emits_def)
next
  case (Cons p ps)
  have step: "in_order (map (append_event_with_owner env chain now) (p # ps)) =
      and_then (append_event_with_owner env chain now p)
        (\<lambda>_. in_order (map (append_event_with_owner env chain now) ps))"
    by (rule ext) simp
  show ?case
    unfolding step
    by (rule emits_and_then [OF emits_event Cons.IH]) auto
qed

lemma emits_apply_result:
  "emits (apply_result env (result_of_candidate outcome c)) (\<lambda>r ops ts. ops = [] \<and> ts = [] \<and>
     (\<forall>applied. r = Go applied \<longrightarrow> sao_builder_handoffs applied \<noteq> [] \<longrightarrow> rso_status outcome = SimOk))"
  unfolding emits_def
proof
  fix s
  let ?result = "result_of_candidate outcome c"
  obtain r s' where send: "send_command_with_reply env (ApplySimulationResult ?result) s = (r, s')"
    by (cases "send_command_with_reply env (ApplySimulationResult ?result) s")
  have approved: "rso_status outcome = SimOk"
    if reply: "r = Inr (ApplyReply applied)" "sao_builder_handoffs applied \<noteq> []" for applied
  proof -
    obtain config st where "ApplyReply applied = fst (handle_command config st (ApplySimulationResult ?result))"
      using reply_of_command [of env "ApplySimulationResult ?result" s] send reply(1) by blast
    then have "applied = fst (apply_simulation_result st ?result)" by simp
    then show ?thesis
      using reply(2)
      by (auto simp: apply_simulation_result_def record_stale_simulation_result_def Let_def
          result_of_candidate_def split: option.splits if_splits)
  qed
  show "\<exists>ops ts. lrn_written (snd (apply_result env ?result s)) = lrn_written s @ ops \<and>
      lrn_tasks (snd (apply_result env ?result s)) = lrn_tasks s @ ts \<and> ops = [] \<and> ts = [] \<and>
      (\<forall>applied. fst (apply_result env ?result s) = Go applied \<longrightarrow> sao_builder_handoffs applied \<noteq> [] \<longrightarrow>
        rso_status outcome = SimOk)"
    using approved sent_trace [OF send]
    by (auto simp: apply_result_def send split: sum.splits scheduler_reply.splits)
qed

definition candidates_reported ::
  "registered_simulation_candidate list \<Rightarrow> remote_simulation_outcome \<Rightarrow> candidate_id set
    \<Rightarrow> candidate_id set flow \<Rightarrow> storage_write_op list \<Rightarrow> simulation_task list \<Rightarrow> bool" where
  "candidates_reported candidates outcome taken r ops ts \<longleftrightarrow> ts = [] \<and>
     (\<exists>cs. subseq cs candidates \<and>
        prefix (map write_payload ops) (map Some (concat (map (completion_payloads outcome) cs))) \<and>
        (\<forall>kept. r = Go kept \<longrightarrow>
           map write_payload ops = map Some (concat (map (completion_payloads outcome) cs)) \<and>
           kept \<subseteq> taken \<union> candidate_named ` set cs \<and> (kept \<noteq> taken \<longrightarrow> rso_status outcome = SimOk)))"

lemma candidates_reported_nothing: "(\<And>kept. r \<noteq> Go kept) \<Longrightarrow> candidates_reported cs outcome taken r [] []"
  by (auto simp: candidates_reported_def intro: exI [of _ "[]"])

lemma candidates_reported_skip:
  "candidates_reported rest outcome taken r ops ts \<Longrightarrow> candidates_reported (c # rest) outcome taken r ops ts"
  unfolding candidates_reported_def by (meson list_emb_Cons)

lemma candidates_reported_cut:
  assumes "prefix (map write_payload ops) (map Some (completion_payloads outcome c))" and "\<And>kept. r \<noteq> Go kept"
  shows "candidates_reported (c # rest) outcome taken r ops []"
  unfolding candidates_reported_def
  using assms by (auto intro!: exI [of _ "[c]"] simp: subseq_singleton_left)

lemma candidates_reported_Cons:
  assumes "map write_payload ops = map Some (completion_payloads outcome c)"
    and "candidates_reported rest outcome taken' r ops' ts"
    and "taken' \<subseteq> insert (candidate_named c) taken" and "taken' \<noteq> taken \<Longrightarrow> rso_status outcome = SimOk"
  shows "candidates_reported (c # rest) outcome taken r (ops @ ops') ts"
proof -
  obtain cs where cs: "ts = []" "subseq cs rest"
    "prefix (map write_payload ops') (map Some (concat (map (completion_payloads outcome) cs)))"
    "\<forall>kept. r = Go kept \<longrightarrow>
       map write_payload ops' = map Some (concat (map (completion_payloads outcome) cs)) \<and>
       kept \<subseteq> taken' \<union> candidate_named ` set cs \<and> (kept \<noteq> taken' \<longrightarrow> rso_status outcome = SimOk)"
    using assms(2) unfolding candidates_reported_def by blast
  show ?thesis
    unfolding candidates_reported_def
    using cs assms(1,3,4) by (intro conjI exI [of _ "c # cs"]) auto
qed

lemma emits_apply_candidates:
  "emits (apply_candidates env task outcome finished candidates taken)
     (candidates_reported candidates outcome taken)"
proof (induction candidates arbitrary: taken)
  case Nil
  show ?case by (auto simp: emits_def candidates_reported_def intro: exI [of _ "[]"])
next
  case (Cons c rest)
  let ?apply = "\<lambda>taken. apply_candidates env task outcome finished rest taken"
  let ?events = "in_order (map (append_event_with_owner env (smt_chain task) finished) (completion_payloads outcome c))"
  let ?next = "\<lambda>applied. if sao_builder_handoffs applied \<noteq> [] then insert (candidate_named c) taken else taken"
  let ?go = "\<lambda>applied s. if 0 < sao_stale_result_drop_total applied
    then ?apply taken (count_on_core env observe_simulation_stale_drop s)
    else and_then ?events (\<lambda>_. ?apply (?next applied)) s"
  have step: "apply_candidates env task outcome finished (c # rest) taken =
      and_then (apply_result env (result_of_candidate outcome c)) ?go"
    by (rule ext) (unfold apply_candidates.simps Let_def, rule refl)
  have go: "emits (?go applied) (candidates_reported (c # rest) outcome taken)"
    if approved: "sao_builder_handoffs applied \<noteq> [] \<Longrightarrow> rso_status outcome = SimOk" for applied
  proof (cases "0 < sao_stale_result_drop_total applied")
    case True
    have "emits (\<lambda>s. ?apply taken (count_on_core env observe_simulation_stale_drop s))
        (candidates_reported rest outcome taken)"
      by (rule emits_prepared [OF _ Cons.IH]) (simp add: count_on_core_def)
    then have "emits (\<lambda>s. ?apply taken (count_on_core env observe_simulation_stale_drop s))
        (candidates_reported (c # rest) outcome taken)"
      by (rule emits_weaken) (rule candidates_reported_skip)
    then show ?thesis using True by simp
  next
    case False
    have "emits (and_then ?events (\<lambda>_. ?apply (?next applied))) (candidates_reported (c # rest) outcome taken)"
      by (rule emits_and_then [OF emits_events Cons.IH [of "?next applied"]])
        (use approved in \<open>auto intro!: candidates_reported_cut
          elim!: candidates_reported_Cons split: if_splits\<close>)
    then show ?thesis using False by simp
  qed
  show ?case
    unfolding step
  proof (rule emits_and_then [OF emits_apply_result, where R = "\<lambda>_. candidates_reported (c # rest) outcome taken"])
    fix applied and ops :: "storage_write_op list" and ts :: "simulation_task list"
    assume "ops = [] \<and> ts = [] \<and> (\<forall>applied'. Go applied = Go applied' \<longrightarrow>
      sao_builder_handoffs applied' \<noteq> [] \<longrightarrow> rso_status outcome = SimOk)"
    then show "emits (?go applied) (candidates_reported (c # rest) outcome taken)" by (intro go) blast
  qed (auto intro: candidates_reported_nothing)
qed

lemma count_on_core_trace [simp]:
  "lrn_written (count_on_core env f s) = lrn_written s" "lrn_tasks (count_on_core env f s) = lrn_tasks s"
  by (simp_all add: count_on_core_def)

lemma assembly_trace:
  "lrn_written (snd (assemble_candidates env elapsed_ns batch taken candidates s)) = lrn_written s \<and>
   lrn_tasks (snd (assemble_candidates env elapsed_ns batch taken candidates s)) = lrn_tasks s \<and>
   (\<forall>d \<in> set (fst (assemble_candidates env elapsed_ns batch taken candidates s)).
      \<exists>c \<in> set candidates. bdr_tx_hash d = candidate_about c \<and> candidate_named c \<in> taken)"
proof (induction candidates arbitrary: s)
  case (Cons c rest)
  show ?case
  proof (cases "candidate_named c \<in> taken")
    case False
    then show ?thesis using Cons [of s] by auto
  next
    case True
    show ?thesis
    proof (cases "from_simulated_opportunity hex_lower (exo_candidate (rgc_opportunity c)) batch")
      case (Inl e)
      then show ?thesis using True Cons [of s] by auto
    next
      case (Inr builder)
      obtain decision core where engine: "with_builder_engine_mut
          (\<lambda>engine. insert_candidate (elapsed_ns (lrn_turn s)) engine builder)
          (lsh_core (lrn_shared (take_turn env s))) = (decision, core)"
        by fastforce
      obtain ds s' where rest: "assemble_candidates env elapsed_ns batch taken rest
          (on_core (\<lambda>_. core) (take_turn env s)) = (ds, s')"
        by fastforce
      show ?thesis
        using Cons [of "on_core (\<lambda>_. core) (take_turn env s)"] True by (simp add: Inr engine rest Let_def)
    qed
  qed
qed simp

lemma reported_cut: "candidates_reported candidates outcome taken r ops ts \<Longrightarrow> reported candidates outcome ops"
  unfolding candidates_reported_def reported_def by (metis append_Nil2 empty_iff empty_set map_append list.simps(8))

lemma candidates_reported_tasks: "candidates_reported candidates outcome taken r ops ts \<Longrightarrow> ts = []"
  by (simp add: candidates_reported_def)

lemma emits_apply_outcome:
  "emits (apply_simulation_task_outcome env elapsed_ns task outcome finished)
     (\<lambda>_ ops ts. ts = [] \<and> reported (smt_candidates task) outcome ops)"
proof -
  let ?decide = "apply_builder_assembly_state env elapsed_ns task outcome"
  let ?events = "\<lambda>ds. in_order (map (append_event_with_owner env (smt_chain task) finished) (map decision_payload ds))"
  let ?go = "\<lambda>taken s. if taken = {} then (Go (), s) else ?events (fst (?decide taken s)) (snd (?decide taken s))"
  have decisions: "lrn_written (snd (?decide taken s)) = lrn_written s \<and>
      lrn_tasks (snd (?decide taken s)) = lrn_tasks s \<and>
      (\<forall>d \<in> set (fst (?decide taken s)). \<exists>c \<in> set (smt_candidates task).
         bdr_tx_hash d = candidate_about c \<and> candidate_named c \<in> taken)" for taken s
  proof (cases "rso_simulation_batch outcome")
    case (Some batch)
    then show ?thesis
      using assembly_trace [of env elapsed_ns batch taken "smt_candidates task" s]
      by (simp add: apply_builder_assembly_state_def)
  qed (simp add: apply_builder_assembly_state_def)
  have go: "emits (?go taken) (\<lambda>_ ops ts. ts = [] \<and> (\<exists>ds. prefix (map write_payload ops) (map Some (map decision_payload ds)) \<and>
      (ds \<noteq> [] \<longrightarrow> taken \<noteq> {}) \<and> (\<forall>d \<in> set ds. \<exists>c \<in> set (smt_candidates task).
         bdr_tx_hash d = candidate_about c \<and> candidate_named c \<in> taken)))" for taken
  proof (cases "taken = {}")
    case True
    then show ?thesis by (auto simp: emits_def intro: exI [of _ "[]"])
  next
    case False
    show ?thesis
      unfolding emits_def
    proof
      fix s
      obtain ops ts where "lrn_written (snd (?go taken s)) = lrn_written (snd (?decide taken s)) @ ops"
        "lrn_tasks (snd (?go taken s)) = lrn_tasks (snd (?decide taken s)) @ ts" "ts = []"
        "prefix (map write_payload ops) (map Some (map decision_payload (fst (?decide taken s))))"
        using emits_events [of env "smt_chain task" finished "map decision_payload (fst (?decide taken s))",
            unfolded emits_def, rule_format, of "snd (?decide taken s)"]
        by (simp only: False if_False) blast
      then show "\<exists>ops ts. lrn_written (snd (?go taken s)) = lrn_written s @ ops \<and>
          lrn_tasks (snd (?go taken s)) = lrn_tasks s @ ts \<and> ts = [] \<and>
          (\<exists>ds. prefix (map write_payload ops) (map Some (map decision_payload ds)) \<and>
            (ds \<noteq> [] \<longrightarrow> taken \<noteq> {}) \<and> (\<forall>d \<in> set ds. \<exists>c \<in> set (smt_candidates task).
               bdr_tx_hash d = candidate_about c \<and> candidate_named c \<in> taken))"
        using decisions [of taken s] False by (auto intro!: exI [of _ ops] exI [of _ "fst (?decide taken s)"])
    qed
  qed
  have "emits (and_then (apply_candidates env task outcome finished (smt_candidates task) {}) ?go)
      (\<lambda>_ ops ts. ts = [] \<and> reported (smt_candidates task) outcome ops)"
  proof (rule emits_and_then [OF emits_apply_candidates go])
    fix taken and ops ops' :: "storage_write_op list" and ts ts' :: "simulation_task list" and r :: "unit flow"
    assume "candidates_reported (smt_candidates task) outcome {} (Go taken) ops ts"
      and then_decided: "ts' = [] \<and> (\<exists>ds. prefix (map write_payload ops') (map Some (map decision_payload ds)) \<and>
        (ds \<noteq> [] \<longrightarrow> taken \<noteq> {}) \<and> (\<forall>d \<in> set ds. \<exists>c \<in> set (smt_candidates task).
           bdr_tx_hash d = candidate_about c \<and> candidate_named c \<in> taken))"
    then obtain cs where cs: "ts = []" "subseq cs (smt_candidates task)"
      "map write_payload ops = map Some (concat (map (completion_payloads outcome) cs))"
      "taken \<subseteq> candidate_named ` set cs" "taken \<noteq> {} \<Longrightarrow> rso_status outcome = SimOk"
      unfolding candidates_reported_def by auto
    obtain ds where ds: "prefix (map write_payload ops') (map Some (map decision_payload ds))"
      "ds \<noteq> [] \<Longrightarrow> taken \<noteq> {}" "\<forall>d \<in> set ds. \<exists>c \<in> set (smt_candidates task).
           bdr_tx_hash d = candidate_about c \<and> candidate_named c \<in> taken"
      using then_decided by blast
    have "reported (smt_candidates task) outcome (ops @ ops')"
      unfolding reported_def
    proof (intro exI [of _ cs] exI [of _ ds] conjI impI)
      show "prefix (map write_payload (ops @ ops'))
          (map Some (concat (map (completion_payloads outcome) cs) @ map decision_payload ds))"
        using ds(1) cs(3) by simp
      show "\<forall>d \<in> set ds. \<exists>c \<in> set (smt_candidates task). bdr_tx_hash d = candidate_about c \<and>
          candidate_named c \<in> candidate_named ` set cs"
        using ds(3) cs(4) by blast
    qed (use cs ds(2) in auto)
    then show "ts @ ts' = [] \<and> reported (smt_candidates task) outcome (ops @ ops')"
      using cs(1) then_decided by simp
  qed (auto dest: reported_cut candidates_reported_tasks)
  then have "emits (\<lambda>s. and_then (apply_candidates env task outcome finished (smt_candidates task) {}) ?go
      (on_core (record_simulation_status (build_simulation_status_snapshot task outcome finished)) (take_turn env s)))
      (\<lambda>_ ops ts. ts = [] \<and> reported (smt_candidates task) outcome ops)"
    by (rule emits_prepared [rotated]) simp
  moreover have "apply_simulation_task_outcome env elapsed_ns task outcome finished =
      (\<lambda>s. and_then (apply_candidates env task outcome finished (smt_candidates task) {}) ?go
        (on_core (record_simulation_status (build_simulation_status_snapshot task outcome finished)) (take_turn env s)))"
    by (rule ext) (simp add: apply_simulation_task_outcome_def split_beta cong: if_cong)
  ultimately show ?thesis by simp
qed

lemma reported_failure:
  assumes "reported candidates outcome ops" and "rso_status outcome \<noteq> SimOk"
  shows "list_all (\<lambda>op. \<exists>e. write_payload op = Some (SimCompleted e)) ops"
proof -
  obtain cs where "prefix (map write_payload ops) (map Some (concat (map (completion_payloads outcome) cs)))"
    using assms unfolding reported_def by auto
  then have "set (map write_payload ops) \<subseteq> Some ` set (concat (map (completion_payloads outcome) cs))"
    by (metis list.set_map set_mono_prefix)
  then show ?thesis
    using assms(2) by (auto simp: completion_payloads_def list_all_iff)
qed

lemma seed_loop_trace:
  "lrn_written (snd (seed_loop env src senders seeds s)) = lrn_written s \<and>
   lrn_tasks (snd (seed_loop env src senders seeds s)) = lrn_tasks s"
  by (induction senders arbitrary: seeds s) (simp_all add: Let_def split: option.split attempt.split)

lemma run_simulation_trace:
  "lrn_written (snd (run_simulation env evm world chain request s)) = lrn_written s \<and>
   lrn_tasks (snd (run_simulation env evm world chain request s)) = lrn_tasks s"
  by (simp add: run_simulation_def fetch_cached_account_seeds_def seed_loop_trace split_beta Let_def
      split: option.split attempt.split)

lemma simulate_trace:
  "lrn_written (snd (simulate_remote_request env evm world chain request s)) = lrn_written s \<and>
   lrn_tasks (snd (simulate_remote_request env evm world chain request s)) = lrn_tasks s"
  using run_simulation_trace [of env evm world chain request s]
  by (auto simp: simulate_remote_request_def Let_def split: prod.splits attempt.splits)

text \<open>
  An outcome is sound for a request: its batch has a result for every transaction of the
  request, in order, and the status says whether all of them succeeded; without a batch it is
  an error or a timeout; and there is a failure category unless it is a success.
\<close>

definition outcome_sound :: "remote_simulation_request \<Rightarrow> remote_simulation_outcome \<Rightarrow> bool" where
  "outcome_sound request outcome \<longleftrightarrow>
     (case rso_simulation_batch outcome of
        None \<Rightarrow> rso_status outcome \<in> {SimStateError, SimTimeout}
      | Some batch \<Rightarrow>
          map tsr_hash (sbr_tx_results batch) = map vt_hash (rsr_txs request) \<and>
          rso_status outcome = (if list_all tsr_success (sbr_tx_results batch) then SimOk else SimFailed)) \<and>
     (rso_fail_category outcome = None \<longleftrightarrow> rso_status outcome = SimOk)"

lemma run_simulation_batch:
  assumes "run_simulation env evm world chain request s = (Got batch, s')"
  shows "map tsr_hash (sbr_tx_results batch) = map vt_hash (rsr_txs request)"
proof -
  obtain ctx mode where "simulate_with_mode (evm_sha256 evm) (evm_empty_db evm) (evm_insert_account evm)
      (evm_transact evm) (evm_commit evm) ctx (simulation_inputs request) (mode :: anyhow simulation_mode) = Inr batch"
  proof -
    assume goal: "\<And>ctx (mode :: anyhow simulation_mode). simulate_with_mode (evm_sha256 evm) (evm_empty_db evm)
      (evm_insert_account evm) (evm_transact evm) (evm_commit evm) ctx (simulation_inputs request) mode = Inr batch
      \<Longrightarrow> thesis"
    obtain ctx seeds where "attempt_bind seeds (\<lambda>account_seeds.
        case simulate_with_mode (evm_sha256 evm) (evm_empty_db evm) (evm_insert_account evm) (evm_transact evm)
            (evm_commit evm) ctx (simulation_inputs request) (RpcBacked (cached_state_provider account_seeds)) of
          Inl e \<Rightarrow> Failed e | Inr batch \<Rightarrow> Got batch) = Got batch"
      using assms by (auto simp: run_simulation_def Let_def split: option.splits attempt.splits prod.splits)
    then show thesis
      by (cases seeds) (auto split: sum.splits intro: goal)
  qed
  from simulation_reports_every_tx [OF this] show ?thesis
    by (simp add: simulation_inputs_def vt_hash_def comp_def)
qed

lemma summarize_exact:
  "summarize_simulation_batch batch = (status, category) \<Longrightarrow>
    status = (if list_all tsr_success (sbr_tx_results batch) then SimOk else SimFailed) \<and>
    (category = None \<longleftrightarrow> status = SimOk)"
  by (auto simp: summarize_simulation_batch_def find_None_iff find_Some_iff list_all_iff split: option.splits)

lemma simulate_sound:
  assumes "simulate_remote_request env evm world chain request s = (Returns outcome, s')"
  shows "outcome_sound request outcome"
proof -
  obtain r s1 where run: "run_simulation env evm world chain request s = (r, s1)"
    by (cases "run_simulation env evm world chain request s")
  show ?thesis
  proof (cases r)
    case (Got batch)
    obtain status category where sum: "summarize_simulation_batch batch = (status, category)"
      by (cases "summarize_simulation_batch batch")
    show ?thesis
      using assms run summarize_exact [OF sum] run_simulation_batch [of env evm world chain request s batch s1]
      by (auto simp: simulate_remote_request_def Got sum Let_def outcome_of_def outcome_sound_def)
  qed (use assms run in \<open>auto simp: simulate_remote_request_def Let_def outcome_of_def outcome_sound_def\<close>)
qed

text \<open>
  Property C6. A worker reports what the simulation showed, whatever the other tasks do. The
  outcome is a result for every transaction of the request, or an error or a timeout. The worker
  writes, for some of the task's candidates in order, one SimCompleted event and, after a success,
  one BundleSubmitted event, and then only decisions of the assembly on candidates it
  has accepted; of an unsuccessful simulation it writes SimCompleted events
  alone; and a full storage queue only cuts this off. If the simulation panics, the worker dies and writes nothing.
\<close>

theorem worker_reports_outcome:
  "\<exists>ops. let (alive, s') = simulation_worker_turn env elapsed_ns evm world finished task s;
       outcome = fst (simulate_remote_request env evm world (smt_chain task) (smt_request task)
         (count_on_core env observe_simulation_dequeue s))
     in lrn_written s' = lrn_written s @ ops \<and> lrn_tasks s' = lrn_tasks s \<and>
        (case outcome of
           Panics \<Rightarrow> \<not> alive \<and> ops = []
         | Returns outcome \<Rightarrow> alive \<and> outcome_sound (smt_request task) outcome \<and>
             reported (smt_candidates task) outcome ops \<and>
             (rso_status outcome = SimOk \<or>
              list_all (\<lambda>op. \<exists>e. write_payload op = Some (SimCompleted e)) ops))"
proof -
  let ?s = "count_on_core env observe_simulation_dequeue s"
  obtain r s1 where sim: "simulate_remote_request env evm world (smt_chain task) (smt_request task) ?s = (r, s1)"
    by (cases "simulate_remote_request env evm world (smt_chain task) (smt_request task) ?s")
  have trace: "lrn_written s1 = lrn_written s" "lrn_tasks s1 = lrn_tasks s"
    using simulate_trace [of env evm world "smt_chain task" "smt_request task" ?s] sim by simp_all
  show ?thesis
  proof (cases r)
    case (Returns outcome)
    obtain ops where ops: "lrn_written (snd (apply_simulation_task_outcome env elapsed_ns task outcome finished s1)) =
        lrn_written s1 @ ops"
      "lrn_tasks (snd (apply_simulation_task_outcome env elapsed_ns task outcome finished s1)) = lrn_tasks s1"
      "reported (smt_candidates task) outcome ops"
      using emits_apply_outcome [of env elapsed_ns task outcome finished] unfolding emits_def by fastforce
    have "list_all (\<lambda>op. \<exists>e. write_payload op = Some (SimCompleted e)) ops" if "rso_status outcome \<noteq> SimOk"
      using reported_failure [OF ops(3) that] .
    then show ?thesis
      using sim ops trace simulate_sound [of env evm world "smt_chain task" "smt_request task" ?s outcome s1]
      by (intro exI [of _ ops]) (auto simp: simulation_worker_turn_def Returns)
  qed (use sim trace in \<open>simp add: simulation_worker_turn_def\<close>)
qed

section \<open>The account seeds\<close>

text \<open>The seed of one sender: a cached one of the same block that is fresh enough, or the node's.\<close>

definition seed_for :: "seed_source \<Rightarrow> runtime_core \<Rightarrow> Address \<Rightarrow> account_seed attempt" where
  "seed_for src rc a =
     (case bt_get (rc_account_seeds rc) (sds_http_url src, a) of
        Some entry \<Rightarrow>
          if cas_block_number entry = sds_block_number src \<and>
             i64_sat (sds_now_unix_ms src - cas_cached_at_unix_ms entry) \<le> sds_ttl_ms src
          then Got (cas_seed entry) else fetch_account_seed_from_rpc (sds_http src) a
      | None \<Rightarrow> fetch_account_seed_from_rpc (sds_http src) a)"

text \<open>The first failure, or all values.\<close>

fun collect_attempts :: "('a \<Rightarrow> 'b attempt) \<Rightarrow> 'a list \<Rightarrow> 'b list attempt" where
  "collect_attempts f [] = Got []"
| "collect_attempts f (x # xs) =
     attempt_bind (f x) (\<lambda>y. attempt_bind (collect_attempts f xs) (\<lambda>ys. Got (y # ys)))"

lemma collect_attempts_cong: "(\<And>x. x \<in> set xs \<Longrightarrow> f x = g x) \<Longrightarrow> collect_attempts f xs = collect_attempts g xs"
  by (induction xs) (simp_all cong: map_cong)

lemma collect_attempts_length: "collect_attempts f xs = Got ys \<Longrightarrow> length ys = length xs"
proof (induction xs arbitrary: ys)
  case (Cons x xs)
  then show ?case by (cases "f x"; cases "collect_attempts f xs") auto
qed simp

lemma cached_seed_for:
  "cached_account_seed_of rc (sds_http_url src) a (sds_block_number src) (sds_now_unix_ms src) (sds_ttl_ms src) =
     Some seed \<Longrightarrow> seed_for src rc a = Got seed"
  "cached_account_seed_of rc (sds_http_url src) a (sds_block_number src) (sds_now_unix_ms src) (sds_ttl_ms src) =
     None \<Longrightarrow> seed_for src rc a = fetch_account_seed_from_rpc (sds_http src) a"
  by (auto simp: cached_account_seed_of_def seed_for_def split: option.splits if_splits)

text \<open>The others may do anything but touch the cached seeds.\<close>

definition seeds_untouched :: "surroundings \<Rightarrow> bool" where
  "seeds_untouched env \<longleftrightarrow>
     (\<forall>n shared. rc_account_seeds (lsh_core (sur_others env n shared)) = rc_account_seeds (lsh_core shared))"

abbreviation seeds_of :: "live_run \<Rightarrow> (string \<times> Address, cached_account_seed) btree_map" where
  "seeds_of s \<equiv> rc_account_seeds (lsh_core (lrn_shared s))"

lemma seeds_of_turn:
  "seeds_untouched env \<Longrightarrow> seeds_of (take_turn env s) = seeds_of s"
  "seeds_untouched env \<Longrightarrow> seeds_of (count_on_core env f s) = seeds_of s"
  "lsh_core (lrn_shared (on_core g s)) = g (lsh_core (lrn_shared s))"
  by (simp_all add: seeds_untouched_def take_turn_def count_on_core_def on_core_def on_simulation_metrics_def)

lemma seed_for_seeds: "rc_account_seeds rc = rc_account_seeds rc' \<Longrightarrow> seed_for src rc a = seed_for src rc' a"
  by (simp add: seed_for_def)

lemma seed_loop_exact:
  assumes "seeds_untouched env" and "distinct senders"
  shows "\<exists>found. attempt_bind (fst (seed_loop env src senders seeds s)) (\<lambda>_. Got ()) =
      attempt_bind (collect_attempts (seed_for src (lsh_core (lrn_shared s))) senders) (\<lambda>_. Got ()) \<and>
    (\<forall>result. fst (seed_loop env src senders seeds s) = Got result \<longrightarrow>
      collect_attempts (seed_for src (lsh_core (lrn_shared s))) senders = Got found \<and>
      (\<forall>a. bt_get result a = (case map_of (zip senders found) a of Some x \<Rightarrow> Some x | None \<Rightarrow> bt_get seeds a)))"
  using assms(2)
proof (induction senders arbitrary: seeds s)
  case (Cons a senders)
  let ?rc = "lsh_core (lrn_shared s)"
  let ?s = "take_turn env s"
  let ?cached = "cached_account_seed_of (lsh_core (lrn_shared ?s)) (sds_http_url src) a (sds_block_number src)
    (sds_now_unix_ms src) (sds_ttl_ms src)"
  have turned: "seed_for src (lsh_core (lrn_shared ?s)) b = seed_for src ?rc b" for b
    by (rule seed_for_seeds) (rule seeds_of_turn(1) [OF assms(1)])
  have on: ?case
    if own: "seed_for src ?rc a = Got seed"
      and rest: "seed_loop env src (a # senders) seeds s = seed_loop env src senders (bt_insert a seed seeds) s'"
      and kept: "\<And>b. b \<noteq> a \<Longrightarrow> seed_for src (lsh_core (lrn_shared s')) b = seed_for src ?rc b" for seed s'
  proof -
    have same: "collect_attempts (seed_for src (lsh_core (lrn_shared s'))) senders =
        collect_attempts (seed_for src ?rc) senders"
      using Cons.prems by (intro collect_attempts_cong, intro kept) auto
    obtain found where found: "attempt_bind (fst (seed_loop env src senders (bt_insert a seed seeds) s')) (\<lambda>_. Got ()) =
        attempt_bind (collect_attempts (seed_for src ?rc) senders) (\<lambda>_. Got ())"
      "\<forall>result. fst (seed_loop env src senders (bt_insert a seed seeds) s') = Got result \<longrightarrow>
        collect_attempts (seed_for src ?rc) senders = Got found \<and>
        (\<forall>b. bt_get result b = (case map_of (zip senders found) b of Some x \<Rightarrow> Some x
           | None \<Rightarrow> bt_get (bt_insert a seed seeds) b))"
      using Cons.IH [of "bt_insert a seed seeds" s'] Cons.prems unfolding same by auto
    have absent: "map_of (zip senders found) a = None"
      using Cons.prems by (auto simp: map_of_eq_None_iff dest: set_zip_leftD)
    show ?thesis
      using found own rest absent
      by (cases "collect_attempts (seed_for src ?rc) senders")
        (auto intro!: exI [of _ "seed # found"] split: option.splits)
  qed
  show ?case
  proof (cases ?cached)
    case (Some seed)
    show ?thesis
    proof (rule on)
      show "seed_for src ?rc a = Got seed" using cached_seed_for(1) [OF Some] turned by simp
      show "seed_loop env src (a # senders) seeds s =
          seed_loop env src senders (bt_insert a seed seeds) (count_on_core env observe_simulation_cache_hit ?s)"
        by (simp add: Some Let_def)
    qed (rule seed_for_seeds, simp add: seeds_of_turn assms(1))
  next
    case None
    let ?miss = "count_on_core env observe_simulation_cache_miss ?s"
    have own: "seed_for src ?rc a = fetch_account_seed_from_rpc (sds_http src) a"
      using cached_seed_for(2) [OF None] turned by simp
    show ?thesis
    proof (cases "fetch_account_seed_from_rpc (sds_http src) a")
      case (Got seed)
      show ?thesis
      proof (rule on)
        show "seed_for src ?rc a = Got seed" using own Got by simp
        show "seed_loop env src (a # senders) seeds s = seed_loop env src senders (bt_insert a seed seeds)
            (on_core (cache_account_seed (sds_http_url src) a (sds_block_number src) (sds_now_unix_ms src) seed)
              (take_turn env ?miss))"
          by (simp add: None Got Let_def)
      qed (simp add: seed_for_def seeds_of_turn assms(1) cache_account_seed_def)
    qed (use own in \<open>simp_all add: None Let_def\<close>)
  qed
qed simp

lemma unique_senders_distinct [simp]:
  "distinct (unique_senders txs)" "set (unique_senders txs) = (\<lambda>tx. dec_sender (vt_decoded tx)) ` set txs"
  by (simp_all add: unique_senders_def)

text \<open>
  Property C32. A simulation runs on the seeds of its own block: when no other task touches the
  cache, the seeds are fetched or found for exactly the senders of the request, each a fresh
  entry of the cache for this node, this sender and this block, or else the node's answer; and
  the fetch fails as the first sender that cannot be answered fails, in ascending order.
\<close>

theorem account_seeds_exact:
  assumes "seeds_untouched env"
  shows "case (fst (fetch_cached_account_seeds env src txs s),
       collect_attempts (seed_for src (lsh_core (lrn_shared s))) (unique_senders txs)) of
     (Got seeds, Got found) \<Rightarrow> bt_get seeds = map_of (zip (unique_senders txs) found) \<and>
       bt_keys seeds = unique_senders txs
   | (Failed e, Failed e') \<Rightarrow> e = e' | (Expired, Expired) \<Rightarrow> True | (Panicked, Panicked) \<Rightarrow> True | _ \<Rightarrow> False"
proof -
  let ?r = "fst (fetch_cached_account_seeds env src txs s)"
  let ?spec = "collect_attempts (seed_for src (lsh_core (lrn_shared s))) (unique_senders txs)"
  obtain found where found: "attempt_bind ?r (\<lambda>_. Got ()) = attempt_bind ?spec (\<lambda>_. Got ())"
    "\<forall>result. ?r = Got result \<longrightarrow> ?spec = Got found \<and>
      (\<forall>a. bt_get result a = (case map_of (zip (unique_senders txs) found) a of Some x \<Rightarrow> Some x
         | None \<Rightarrow> bt_get bt_empty a))"
    using seed_loop_exact [OF assms unique_senders_distinct(1), of src txs bt_empty s]
    unfolding fetch_cached_account_seeds_def by blast
  show ?thesis
  proof (cases ?r)
    case (Got result)
    then have spec: "?spec = Got found"
      and get: "bt_get result = map_of (zip (unique_senders txs) found)"
      using found(2) by (auto intro!: ext split: option.split)
    have "length found = length (unique_senders txs)"
      using spec by (rule collect_attempts_length)
    then have "set (bt_keys result) = set (unique_senders txs)"
      using get by (auto simp: bt_keys_set dom_def map_of_zip_is_None split: option.splits)
    then have "bt_keys result = unique_senders txs"
      by (intro strict_sorted_equal [OF _ bt_keys_sorted]) (simp_all add: strict_sorted_iff unique_senders_def)
    then show ?thesis using Got spec get by simp
  qed (use found(1) in \<open>cases ?spec; simp\<close>)+
qed

text \<open>A cached seed is used although the node does not answer in time.\<close>

definition seeded_run :: live_run where
  "seeded_run = idle_run\<lparr>lrn_shared := (lrn_shared idle_run)\<lparr>lsh_core :=
     cache_account_seed ''node'' (ltx_sender sample_live_tx) 10 100
       \<lparr>as_balance_wei = 5, as_nonce = 2\<rparr> sample_core\<rparr>\<rparr>"

definition silent_source :: seed_source where
  "silent_source =
     \<lparr>sds_http = \<lparr>smh_header = DeadlinePassed, smh_scalar = \<lambda>_ _. DeadlinePassed\<rparr>, sds_http_url = ''node'',
      sds_block_number = 10, sds_now_unix_ms = 150, sds_ttl_ms = 5000\<rparr>"

theorem account_seeds_exact_witness:
  "\<exists>seeds. fst (fetch_cached_account_seeds (quiet (\<lambda>_. Inr ())) silent_source
      [validated_transaction_from_live_tx (hd (lrc_chains default_live_rpc_config)) 0 0 sample_live_tx] seeded_run) =
        Got seeds \<and>
    bt_get seeds = [ltx_sender sample_live_tx \<mapsto> \<lparr>as_balance_wei = 5, as_nonce = 2\<rparr>]"
proof -
  let ?txs = "[validated_transaction_from_live_tx (hd (lrc_chains default_live_rpc_config)) 0 0 sample_live_tx]"
  have "seeds_untouched (quiet (\<lambda>_. Inr ()))" by (simp add: seeds_untouched_def quiet_def)
  note exact = account_seeds_exact [OF this, where src = silent_source and txs = ?txs and s = seeded_run]
  have senders: "unique_senders ?txs = [ltx_sender sample_live_tx]"
    by (simp add: unique_senders_def validated_transaction_from_live_tx_def)
  have "seed_for silent_source (lsh_core (lrn_shared seeded_run)) (ltx_sender sample_live_tx) =
      Got \<lparr>as_balance_wei = 5, as_nonce = 2\<rparr>"
    by (simp add: seed_for_def silent_source_def seeded_run_def cache_account_seed_def i64_sat_def
        i64_max_def i64_min_def)
  then have "collect_attempts (seed_for silent_source (lsh_core (lrn_shared seeded_run))) (unique_senders ?txs) =
      Got [\<lparr>as_balance_wei = 5, as_nonce = 2\<rparr>]"
    by (simp add: senders)
  with exact show ?thesis
    by (auto simp: senders split: attempt.splits)
qed

end
