(* ===== verification/Live_Rpc_Gauges.thy ===== *)
theory Live_Rpc_Gauges
  imports Runtime_State
begin

text \<open>
  The gauges of the simulation queue under concurrency
  (\<^verbatim>\<open>src/crates/runtime-core/src/live_rpc.rs\<close>): a producer sends a task and then
  counts it, a worker receives a task and then counts it, runs it, and counts its end, in
  any interleaving of the producers and the workers.
\<close>

section \<open>The steps of producers and workers\<close>

text \<open>
  The tasks in the channel, the sends and the receipts not yet counted, the simulations
  that run, and those whose worker has panicked.
\<close>

record sim_queue =
  sq_metrics :: simulation_metrics
  sq_waiting :: nat
  sq_sent :: nat
  sq_received :: nat
  sq_running :: nat
  sq_dead :: nat

definition idle_queue :: sim_queue where
  "idle_queue = \<lparr>sq_metrics = default_simulation_metrics, sq_waiting = 0, sq_sent = 0, sq_received = 0,
     sq_running = 0, sq_dead = 0\<rparr>"

inductive gauge_step :: "usize \<Rightarrow> usize \<Rightarrow> sim_queue \<Rightarrow> sim_queue \<Rightarrow> bool" for capacity workers where
  send: "sq_waiting q < capacity \<Longrightarrow> gauge_step capacity workers q
    (q\<lparr>sq_waiting := sq_waiting q + 1, sq_sent := sq_sent q + 1\<rparr>)"
| count_send: "0 < sq_sent q \<Longrightarrow> gauge_step capacity workers q
    (q\<lparr>sq_sent := sq_sent q - 1, sq_metrics :=
       observe_simulation_enqueue (configure_simulation_queue capacity workers (sq_metrics q))\<rparr>)"
| refuse: "sq_waiting q = capacity \<Longrightarrow> gauge_step capacity workers q
    (q\<lparr>sq_metrics := observe_simulation_queue_full_drop
       (configure_simulation_queue capacity workers (sq_metrics q))\<rparr>)"
| receive: "0 < sq_waiting q \<Longrightarrow> sq_received q + sq_running q + sq_dead q < workers \<Longrightarrow>
    gauge_step capacity workers q (q\<lparr>sq_waiting := sq_waiting q - 1, sq_received := sq_received q + 1\<rparr>)"
| count_receipt: "0 < sq_received q \<Longrightarrow> gauge_step capacity workers q
    (q\<lparr>sq_received := sq_received q - 1, sq_running := sq_running q + 1,
       sq_metrics := observe_simulation_dequeue (sq_metrics q)\<rparr>)"
| count_result: "0 < sq_running q \<Longrightarrow> gauge_step capacity workers q
    (q\<lparr>sq_metrics := observe_simulation_result status latency_ms txs fail_category (sq_metrics q)\<rparr>)"
| finish: "0 < sq_running q \<Longrightarrow> gauge_step capacity workers q
    (q\<lparr>sq_running := sq_running q - 1, sq_metrics := observe_simulation_finish (sq_metrics q)\<rparr>)"
| panic: "0 < sq_running q \<Longrightarrow> gauge_step capacity workers q
    (q\<lparr>sq_running := sq_running q - 1, sq_dead := sq_dead q + 1\<rparr>)"

inductive_cases gauge_stepE: "gauge_step capacity workers q q'"

abbreviation gauge_reach :: "usize \<Rightarrow> usize \<Rightarrow> sim_queue \<Rightarrow> sim_queue \<Rightarrow> bool" where
  "gauge_reach capacity workers \<equiv> (gauge_step capacity workers)\<^sup>*\<^sup>*"

section \<open>What the gauges say\<close>

definition gauges_ok :: "usize \<Rightarrow> usize \<Rightarrow> sim_queue \<Rightarrow> bool" where
  "gauges_ok capacity workers q \<longleftrightarrow>
     unat (slm_inflight_current (sq_metrics q)) = sq_running q + sq_dead q \<and>
     sq_received q + sq_running q + sq_dead q \<le> workers \<and> sq_waiting q \<le> capacity \<and>
     sq_waiting q + sq_received q \<le> unat (slm_queue_depth (sq_metrics q)) + sq_sent q"

lemma counted_gauges [simp]:
  "slm_queue_depth (observe_simulation_result status latency_ms txs fail_category m) = slm_queue_depth m"
  "slm_inflight_current (observe_simulation_result status latency_ms txs fail_category m) =
     slm_inflight_current m"
  by (simp_all add: observe_simulation_result_def count_status_def count_category_def Let_def split: option.split)

lemma observed_gauges [simp]:
  "slm_queue_depth (observe_simulation_enqueue m) = sat_add (slm_queue_depth m) 1"
  "slm_inflight_current (observe_simulation_enqueue m) = slm_inflight_current m"
  "slm_queue_depth (observe_simulation_dequeue m) = sat_sub (slm_queue_depth m) 1"
  "slm_inflight_current (observe_simulation_dequeue m) = sat_add (slm_inflight_current m) 1"
  "slm_queue_depth (observe_simulation_finish m) = slm_queue_depth m"
  "slm_inflight_current (observe_simulation_finish m) = sat_sub (slm_inflight_current m) 1"
  "slm_queue_depth (observe_simulation_queue_full_drop m) = slm_queue_depth m"
  "slm_inflight_current (observe_simulation_queue_full_drop m) = slm_inflight_current m"
  "slm_queue_depth (configure_simulation_queue c w m) = slm_queue_depth m"
  "slm_inflight_current (configure_simulation_queue c w m) = slm_inflight_current m"
  by (simp_all add: observe_simulation_enqueue_def observe_simulation_dequeue_def observe_simulation_finish_def
      observe_simulation_queue_full_drop_def configure_simulation_queue_def)

lemma gauges_step:
  assumes "capacity + workers < 2 ^ 64" and "gauges_ok capacity workers q" and "gauge_step capacity workers q q'"
  shows "gauges_ok capacity workers q'"
  using assms(3)
  by (cases rule: gauge_stepE)
    (use assms(1,2) in \<open>auto simp: gauges_ok_def unat_sat_add unat_sat_sub\<close>)


text \<open>
  A worker that counts a receipt before the producer counts the send: with nothing left to do,
  the depth gauge stays at one for good.
\<close>

definition drifted_queue :: sim_queue where
  "drifted_queue = idle_queue\<lparr>sq_metrics :=
     observe_simulation_enqueue (configure_simulation_queue 1 1
       (observe_simulation_finish (observe_simulation_dequeue default_simulation_metrics)))\<rparr>"

lemma drifted_reachable: "gauge_reach 1 1 idle_queue drifted_queue"
proof -
  let ?q1 = "idle_queue\<lparr>sq_waiting := 1, sq_sent := 1\<rparr>"
  let ?q2 = "idle_queue\<lparr>sq_sent := 1, sq_received := 1\<rparr>"
  let ?q3 = "idle_queue\<lparr>sq_sent := 1, sq_running := 1,
    sq_metrics := observe_simulation_dequeue default_simulation_metrics\<rparr>"
  let ?q4 = "idle_queue\<lparr>sq_sent := 1,
    sq_metrics := observe_simulation_finish (observe_simulation_dequeue default_simulation_metrics)\<rparr>"
  have "gauge_step 1 1 idle_queue ?q1"
    using gauge_step.send [of idle_queue 1 1] by (simp add: idle_queue_def)
  moreover have "gauge_step 1 1 ?q1 ?q2"
    using gauge_step.receive [of ?q1 1 1] by (simp add: idle_queue_def)
  moreover have "gauge_step 1 1 ?q2 ?q3"
    using gauge_step.count_receipt [of ?q2 1 1] by (simp add: idle_queue_def)
  moreover have "gauge_step 1 1 ?q3 ?q4"
    using gauge_step.finish [of ?q3 1 1] by (simp add: idle_queue_def)
  moreover have "gauge_step 1 1 ?q4 drifted_queue"
    using gauge_step.count_send [of ?q4 1 1] by (simp add: idle_queue_def drifted_queue_def)
  ultimately show ?thesis by (meson converse_rtranclp_into_rtranclp rtranclp.rtrancl_refl)
qed

lemma depth_gauge_drifts:
  "slm_queue_depth (sq_metrics drifted_queue) = 1" "sq_waiting drifted_queue = 0" "sq_sent drifted_queue = 0"
  "sq_received drifted_queue = 0" "sq_running drifted_queue = 0"
  by (simp_all add: drifted_queue_def idle_queue_def default_simulation_metrics_def sat_sub_def sat_add_def)


end
