(* ===== verification/Viz_Views.thy ===== *)
theory Viz_Views
  imports Storage_Facts Replay Runtime_State Live_Rpc_Decode
begin

text \<open>
  The read models of the crate \<^verbatim>\<open>viz-api\<close> (\<^verbatim>\<open>src/crates/viz-api/src/lib.rs\<close>):
  the rows the dashboard shows, how \<^verbatim>\<open>InMemoryVizProvider\<close> builds them from the store,
  the cache of them that a revision of the store invalidates, and the dashboard snapshot in the
  default version of the trait \<^verbatim>\<open>VizDataProvider\<close> and in the overriding one. The
  locks make each operation atomic; elapsed times and the size of the heap buffers of a cache
  are parameters.
\<close>

section \<open>Rows\<close>

record replay_point =
  vrp_seq_hi :: u64
  vrp_timestamp_unix_ms :: i64
  vrp_pending_count :: u32

record propagation_edge =
  vpe_source :: string
  vpe_destination :: string
  vpe_p50_delay_ms :: u32
  vpe_p99_delay_ms :: u32

record feature_summary =
  vfs_protocol :: string
  vfs_category :: string
  vfs_count :: u64

record feature_detail =
  vfd_hash :: string
  vfd_protocol :: string
  vfd_category :: string
  vfd_chain_id :: "u64 option"
  vfd_mev_score :: u16
  vfd_urgency_score :: u16
  vfd_method_selector :: "string option"
  vfd_feature_engine_version :: string

record opportunity_detail =
  vod_tx_hash :: string
  vod_status :: string
  vod_strategy :: string
  vod_score :: u32
  vod_protocol :: string
  vod_category :: string
  vod_chain_id :: "u64 option"
  vod_feature_engine_version :: string
  vod_scorer_version :: string
  vod_strategy_version :: string
  vod_reasons :: "string list"
  vod_detected_unix_ms :: i64

record transaction_summary =
  vts_hash :: string
  vts_sender :: string
  vts_nonce :: u64
  vts_tx_type :: u8
  vts_seen_unix_ms :: i64
  vts_source_id :: string

record transaction_detail =
  vtd_hash :: string
  vtd_peer :: PeerId
  vtd_first_seen_unix_ms :: i64
  vtd_seen_count :: u32
  vtd_tx_type :: "u8 option"
  vtd_sender :: "string option"
  vtd_to :: "string option"
  vtd_chain_id :: "u64 option"
  vtd_nonce :: "u64 option"
  vtd_value_wei :: "u128 option"
  vtd_gas_limit :: "u64 option"
  vtd_gas_price_wei :: "u128 option"
  vtd_max_fee_per_gas_wei :: "u128 option"
  vtd_max_priority_fee_per_gas_wei :: "u128 option"
  vtd_max_fee_per_blob_gas_wei :: "u128 option"
  vtd_calldata_len :: "u32 option"
  vtd_raw_tx_len :: "usize option"
  vtd_lifecycle_status :: "string option"
  vtd_lifecycle_reason :: "string option"
  vtd_lifecycle_updated_unix_ms :: "i64 option"
  vtd_protocol :: "string option"
  vtd_category :: "string option"
  vtd_mev_score :: "u16 option"
  vtd_urgency_score :: "u16 option"
  vtd_feature_engine_version :: "string option"

record market_stats =
  vms_total_signal_volume :: u64
  vms_total_tx_count :: u64
  vms_low_risk_count :: u64
  vms_medium_risk_count :: u64
  vms_high_risk_count :: u64
  vms_success_rate_bps :: u16

record dashboard_snapshot =
  vds_revision :: u64
  vds_latest_seq_id :: u64
  vds_opportunities :: "opportunity_detail list"
  vds_feature_summary :: "feature_summary list"
  vds_feature_details :: "feature_detail list"
  vds_transactions :: "transaction_summary list"
  vds_chain_ingest_status :: "live_rpc_chain_status list"
  vds_market_stats :: market_stats

record dashboard_cache_metrics =
  dcm_refresh_total :: u64
  dcm_last_build_duration_ns :: u64
  dcm_total_build_duration_ns :: u64
  dcm_estimated_bytes :: u64

section \<open>Helpers\<close>

definition ascii_lower :: "char \<Rightarrow> char" where
  "ascii_lower c = (let n = of_char c :: nat in if 65 \<le> n \<and> n \<le> 90 then char_of (n + 32) else c)"

definition to_ascii_lowercase :: "string \<Rightarrow> string" where
  "to_ascii_lowercase s = map ascii_lower s"

definition eq_ignore_ascii_case :: "string \<Rightarrow> string \<Rightarrow> bool" where
  "eq_ignore_ascii_case s t \<longleftrightarrow> to_ascii_lowercase s = to_ascii_lowercase t"

abbreviation hash_text :: "TxHash \<Rightarrow> string" where
  "hash_text h \<equiv> format_fixed_hex (hash_bytes h)"

abbreviation address_text :: "Address \<Rightarrow> string" where
  "address_text a \<equiv> format_fixed_hex (be_bytes 20 a)"

definition format_method_selector :: "u8 list option \<Rightarrow> string option" where
  "format_method_selector method_selector = map_option (\<lambda>selector. ''0x'' @ hex_lower selector) method_selector"

definition block_text :: "u64 \<Rightarrow> BlockHash \<Rightarrow> string" where
  "block_text block_number block_hash =
     ''block='' @ show_word block_number @ '':'' @ format_fixed_hex (hash_bytes block_hash)"

fun map_lifecycle_status :: "tx_lifecycle_status \<Rightarrow> string \<times> string option" where
  "map_lifecycle_status Pending = (''pending'', None)"
| "map_lifecycle_status (Replaced replacement) = (''replaced'', Some (hash_text replacement))"
| "map_lifecycle_status (Dropped reason) = (''dropped'', Some reason)"
| "map_lifecycle_status (ConfirmedProvisional block_number block_hash) =
     (''confirmed_provisional'', Some (block_text block_number block_hash))"
| "map_lifecycle_status (ConfirmedFinal block_number block_hash) =
     (''confirmed_final'', Some (block_text block_number block_hash))"

fun event_payload_type :: "event_payload \<Rightarrow> string" where
  "event_payload_type (TxSeen _) = ''TxSeen''"
| "event_payload_type (TxFetched _) = ''TxFetched''"
| "event_payload_type (TxDecoded _) = ''TxDecoded''"
| "event_payload_type (TxReady _) = ''TxReady''"
| "event_payload_type (TxBlocked _) = ''TxBlocked''"
| "event_payload_type (CandidateQueued _) = ''CandidateQueued''"
| "event_payload_type (SimDispatched _) = ''SimDispatched''"
| "event_payload_type (OppDetected _) = ''OppDetected''"
| "event_payload_type (SimCompleted _) = ''SimCompleted''"
| "event_payload_type (AssemblyDecisionApplied _) = ''AssemblyDecisionApplied''"
| "event_payload_type (BundleSubmitted _) = ''BundleSubmitted''"
| "event_payload_type (TxReplaced _) = ''TxReplaced''"
| "event_payload_type (TxDropped _) = ''TxDropped''"
| "event_payload_type (TxConfirmedProvisional _) = ''TxConfirmedProvisional''"
| "event_payload_type (TxConfirmedFinal _) = ''TxConfirmedFinal''"
| "event_payload_type (TxReorged _) = ''TxReorged''"

text \<open>
  The step is the ceiling of a quotient of lengths in \<^verbatim>\<open>f64\<close>. A quotient that is
  not an integer is at least the inverse of the divisor away from one, so for lengths below
  \<open>2 ^ 52\<close> its rounding does not reach the integer below and the ceiling is the exact one.
\<close>

definition step_by :: "nat \<Rightarrow> 'a list \<Rightarrow> 'a list" where
  "step_by step values = map (\<lambda>i. values ! i) (filter (\<lambda>i. i mod step = 0) [0..<length values])"

definition downsample :: "'a list \<Rightarrow> usize \<Rightarrow> 'a list" where
  "downsample values max_points =
     (if length values \<le> max_points \<or> max_points = 0 then values
      else let step = (length values + max_points - 1) div max_points in step_by (max step 1) values)"

definition chain_filter_scan_limit :: "usize \<Rightarrow> u64 option \<Rightarrow> usize" where
  "chain_filter_scan_limit limit chain_id =
     (if chain_id \<noteq> None then max limit (min (limit * 4) 20000) else limit)"

definition chain_matches_filter :: "u64 option \<Rightarrow> u64 option \<Rightarrow> bool" where
  "chain_matches_filter record_chain_id chain_id_filter =
     (case chain_id_filter of Some chain_id \<Rightarrow> record_chain_id = Some chain_id | None \<Rightarrow> True)"

definition filter_feature_details_by_chain ::
  "feature_detail list \<Rightarrow> u64 option \<Rightarrow> usize \<Rightarrow> feature_detail list" where
  "filter_feature_details_by_chain values chain_id limit =
     take limit (filter (\<lambda>row. chain_matches_filter (vfd_chain_id row) chain_id) values)"

definition filter_opportunities_by_chain ::
  "opportunity_detail list \<Rightarrow> u64 option \<Rightarrow> usize \<Rightarrow> opportunity_detail list" where
  "filter_opportunities_by_chain values chain_id limit =
     take limit (filter (\<lambda>row. chain_matches_filter (vod_chain_id row) chain_id) values)"

definition filter_transaction_details_by_chain ::
  "transaction_detail list \<Rightarrow> u64 option \<Rightarrow> usize \<Rightarrow> transaction_detail list" where
  "filter_transaction_details_by_chain values chain_id limit =
     take limit (filter (\<lambda>row. chain_matches_filter (vtd_chain_id row) chain_id) values)"

definition market_success_rate_bps :: "u64 \<Rightarrow> u64 \<Rightarrow> u16" where
  "market_success_rate_bps total_tx_count high_risk_count =
     (if total_tx_count = 0 then 10000
      else let successful = sat_sub total_tx_count high_risk_count;
               bps = sat_mul successful 10000 div total_tx_count
           in ucast (min bps 10000))"

definition map_market_stats :: "market_stats_snapshot \<Rightarrow> market_stats" where
  "map_market_stats snapshot =
     \<lparr>vms_total_signal_volume = mss_total_signal_volume snapshot,
      vms_total_tx_count = mss_total_tx_count snapshot,
      vms_low_risk_count = mss_low_risk_count snapshot,
      vms_medium_risk_count = mss_medium_risk_count snapshot,
      vms_high_risk_count = mss_high_risk_count snapshot,
      vms_success_rate_bps = market_success_rate_bps (mss_total_tx_count snapshot)
        (mss_high_risk_count snapshot)\<rparr>"

section \<open>Building the views\<close>

definition build_replay_points :: "in_memory_storage \<Rightarrow> usize \<Rightarrow> replay_point list" where
  "build_replay_points st replay_stride =
     map (\<lambda>frame. \<lparr>vrp_seq_hi = rf_seq_hi frame, vrp_timestamp_unix_ms = rf_timestamp_unix_ms frame,
           vrp_pending_count = of_nat (length (rf_pending frame))\<rparr>)
       (replay_frames (list_events st) DeterministicEventReplay replay_stride)"

definition summary_order :: "feature_summary \<Rightarrow> feature_summary \<Rightarrow> ordering" where
  "summary_order left right =
     then_with (cmp (vfs_count right) (vfs_count left))
       (then_with (cmp (vfs_protocol left) (vfs_protocol right))
         (cmp (vfs_category left) (vfs_category right)))"

definition build_feature_summary :: "in_memory_storage \<Rightarrow> feature_summary list" where
  "build_feature_summary st =
     (let counts = foldl (\<lambda>counts feature.
            bt_insert (tft_protocol feature, tft_category feature)
              ((case bt_get counts (tft_protocol feature, tft_category feature) of
                  Some n \<Rightarrow> n | None \<Rightarrow> 0) + 1) counts) bt_empty (im_tx_features st);
          out = map (\<lambda>((protocol, category), n).
            \<lparr>vfs_protocol = protocol, vfs_category = category, vfs_count = n\<rparr>) (bt_entries counts)
      in sort_by summary_order out)"

definition feature_detail_of :: "tx_features_record \<Rightarrow> feature_detail" where
  "feature_detail_of feature =
     \<lparr>vfd_hash = hash_text (tft_hash feature), vfd_protocol = tft_protocol feature,
      vfd_category = tft_category feature, vfd_chain_id = tft_chain_id feature,
      vfd_mev_score = tft_mev_score feature, vfd_urgency_score = tft_urgency_score feature,
      vfd_method_selector = format_method_selector (tft_method_selector feature),
      vfd_feature_engine_version = tft_feature_engine_version feature\<rparr>"

fun feature_detail_loop ::
  "TxHash set \<Rightarrow> feature_detail list \<Rightarrow> tx_features_record list \<Rightarrow> feature_detail list" where
  "feature_detail_loop emitted out [] = out"
| "feature_detail_loop emitted out (feature # features) =
     (if tft_hash feature \<in> emitted then feature_detail_loop emitted out features
      else feature_detail_loop (insert (tft_hash feature) emitted) (out @ [feature_detail_of feature]) features)"

definition build_feature_details :: "in_memory_storage \<Rightarrow> feature_detail list" where
  "build_feature_details st = feature_detail_loop {} [] (rev (im_tx_features st))"

definition opportunity_detail_of :: "opportunity_record \<Rightarrow> opportunity_detail" where
  "opportunity_detail_of row =
     \<lparr>vod_tx_hash = hash_text (opr_tx_hash row), vod_status = ''detected'',
      vod_strategy = opr_strategy row, vod_score = opr_score row, vod_protocol = opr_protocol row,
      vod_category = opr_category row, vod_chain_id = opr_chain_id row,
      vod_feature_engine_version = opr_feature_engine_version row,
      vod_scorer_version = opr_scorer_version row, vod_strategy_version = opr_strategy_version row,
      vod_reasons = opr_reasons row, vod_detected_unix_ms = opr_detected_unix_ms row\<rparr>"

definition build_opportunities :: "in_memory_storage \<Rightarrow> opportunity_detail list" where
  "build_opportunities st = map opportunity_detail_of (opportunities st)"

section \<open>The cache\<close>

record dashboard_read_cache =
  drc_revision :: "u64 option"
  drc_refreshes :: u64
  drc_last_build_duration_ns :: u64
  drc_total_build_duration_ns :: u64
  drc_estimated_bytes :: u64
  drc_replay_points :: "replay_point list"
  drc_feature_summary :: "feature_summary list"
  drc_feature_details :: "feature_detail list"
  drc_opportunities :: "opportunity_detail list"

definition default_dashboard_read_cache :: dashboard_read_cache where
  "default_dashboard_read_cache =
     \<lparr>drc_revision = None, drc_refreshes = 0, drc_last_build_duration_ns = 0,
      drc_total_build_duration_ns = 0, drc_estimated_bytes = 0, drc_replay_points = [],
      drc_feature_summary = [], drc_feature_details = [], drc_opportunities = []\<rparr>"

record viz_provider =
  ivp_propagation :: "propagation_edge list"
  ivp_replay_stride :: usize
  ivp_dashboard_cache :: dashboard_read_cache

definition new_viz_provider :: "propagation_edge list \<Rightarrow> usize \<Rightarrow> viz_provider" where
  "new_viz_provider propagation replay_stride =
     \<lparr>ivp_propagation = propagation, ivp_replay_stride = max replay_stride 1,
      ivp_dashboard_cache = default_dashboard_read_cache\<rparr>"

text \<open>
  \<open>bytes_of\<close> stands for \<^verbatim>\<open>estimate_dashboard_read_cache_bytes\<close>, a sum of the
  capacities of allocated buffers; \<open>t\<close> is the elapsed time of the build.
\<close>

definition dashboard_cache_snapshot ::
  "(dashboard_read_cache \<Rightarrow> u64) \<Rightarrow> u64 \<Rightarrow> in_memory_storage \<Rightarrow> viz_provider
    \<Rightarrow> dashboard_read_cache \<times> viz_provider" where
  "dashboard_cache_snapshot bytes_of t st provider =
     (let revision = im_read_model_revision st; cache = ivp_dashboard_cache provider;
          cache = (if drc_revision cache \<noteq> Some revision then
              let cache = cache\<lparr>drc_revision := Some revision,
                    drc_replay_points := build_replay_points st (ivp_replay_stride provider),
                    drc_feature_summary := build_feature_summary st,
                    drc_feature_details := build_feature_details st,
                    drc_opportunities := build_opportunities st,
                    drc_refreshes := sat_add (drc_refreshes cache) 1,
                    drc_last_build_duration_ns := t,
                    drc_total_build_duration_ns := sat_add (drc_total_build_duration_ns cache) t\<rparr>
              in cache\<lparr>drc_estimated_bytes := bytes_of cache\<rparr>
            else cache)
      in (cache, provider\<lparr>ivp_dashboard_cache := cache\<rparr>))"

definition dashboard_cache_metrics_of :: "viz_provider \<Rightarrow> dashboard_cache_metrics" where
  "dashboard_cache_metrics_of provider =
     (let cache = ivp_dashboard_cache provider
      in \<lparr>dcm_refresh_total = drc_refreshes cache,
          dcm_last_build_duration_ns = drc_last_build_duration_ns cache,
          dcm_total_build_duration_ns = drc_total_build_duration_ns cache,
          dcm_estimated_bytes = drc_estimated_bytes cache\<rparr>)"

section \<open>The provider\<close>

definition provider_events ::
  "in_memory_storage \<Rightarrow> u64 \<Rightarrow> string list \<Rightarrow> usize \<Rightarrow> event_envelope list" where
  "provider_events st after_seq_id event_types limit =
     take limit (filter (\<lambda>event. event_types = [] \<or>
         list_ex (eq_ignore_ascii_case (event_payload_type (ee_payload event))) event_types)
       (scan_events st after_seq_id (max (limit * 2) limit)))"

definition edge_order :: "propagation_edge \<Rightarrow> propagation_edge \<Rightarrow> ordering" where
  "edge_order left right =
     then_with (cmp (vpe_source left) (vpe_source right))
       (then_with (cmp (vpe_destination left) (vpe_destination right))
         (then_with (cmp (vpe_p50_delay_ms left) (vpe_p50_delay_ms right))
           (cmp (vpe_p99_delay_ms left) (vpe_p99_delay_ms right))))"

definition propagation_edges :: "viz_provider \<Rightarrow> propagation_edge list" where
  "propagation_edges provider = sort_by edge_order (ivp_propagation provider)"

definition summary_of_recent :: "recent_transaction_record \<Rightarrow> transaction_summary" where
  "summary_of_recent tx =
     \<lparr>vts_hash = hash_text (rtr_hash tx), vts_sender = address_text (rtr_sender tx),
      vts_nonce = rtr_nonce tx, vts_tx_type = rtr_tx_type tx,
      vts_seen_unix_ms = rtr_seen_unix_ms tx, vts_source_id = rtr_source_id tx\<rparr>"

definition provider_recent_transactions :: "in_memory_storage \<Rightarrow> usize \<Rightarrow> transaction_summary list" where
  "provider_recent_transactions st limit = map summary_of_recent (recent_transactions st limit)"

definition provider_market_stats :: "in_memory_storage \<Rightarrow> market_stats" where
  "provider_market_stats st = map_market_stats (im_market_stats st)"

text \<open>The accessors that read the cache, given the cache they read.\<close>

definition cached_feature_details :: "dashboard_read_cache \<Rightarrow> usize \<Rightarrow> feature_detail list" where
  "cached_feature_details cache limit = take (max limit 1) (drc_feature_details cache)"

definition cached_opportunities :: "dashboard_read_cache \<Rightarrow> usize \<Rightarrow> u32 \<Rightarrow> opportunity_detail list" where
  "cached_opportunities cache limit min_score =
     take limit (filter (\<lambda>row. vod_score row \<ge> min_score) (drc_opportunities cache))"

text \<open>The rows of a table by hash, the last one of a hash remaining.\<close>

definition rows_by_hash :: "('v \<Rightarrow> TxHash) \<Rightarrow> 'v list \<Rightarrow> (TxHash, 'v) btree_map" where
  "rows_by_hash hash_of rows = foldl (\<lambda>m row. bt_insert (hash_of row) row m) bt_empty rows"

definition transaction_detail_of ::
  "tx_seen_record \<Rightarrow> tx_full_record option \<Rightarrow> tx_features_record option
    \<Rightarrow> string option \<Rightarrow> string option \<Rightarrow> i64 option \<Rightarrow> transaction_detail" where
  "transaction_detail_of seen full feature lifecycle_status lifecycle_reason lifecycle_updated =
     \<lparr>vtd_hash = hash_text (tsn_hash seen), vtd_peer = tsn_peer seen,
      vtd_first_seen_unix_ms = tsn_first_seen_unix_ms seen, vtd_seen_count = tsn_seen_count seen,
      vtd_tx_type = map_option tfu_tx_type full,
      vtd_sender = map_option (\<lambda>row. address_text (tfu_sender row)) full,
      vtd_to = Option.bind full (\<lambda>row. map_option (\<lambda>a. address_text a) (tfu_to row)),
      vtd_chain_id = Option.bind full tfu_chain_id, vtd_nonce = map_option tfu_nonce full,
      vtd_value_wei = Option.bind full tfu_value_wei, vtd_gas_limit = Option.bind full tfu_gas_limit,
      vtd_gas_price_wei = Option.bind full tfu_gas_price_wei,
      vtd_max_fee_per_gas_wei = Option.bind full tfu_max_fee_per_gas_wei,
      vtd_max_priority_fee_per_gas_wei = Option.bind full tfu_max_priority_fee_per_gas_wei,
      vtd_max_fee_per_blob_gas_wei = Option.bind full tfu_max_fee_per_blob_gas_wei,
      vtd_calldata_len = Option.bind full tfu_calldata_len,
      vtd_raw_tx_len = map_option (\<lambda>row. length (tfu_raw_tx row)) full,
      vtd_lifecycle_status = lifecycle_status, vtd_lifecycle_reason = lifecycle_reason,
      vtd_lifecycle_updated_unix_ms = lifecycle_updated,
      vtd_protocol = map_option tft_protocol feature, vtd_category = map_option tft_category feature,
      vtd_mev_score = map_option tft_mev_score feature,
      vtd_urgency_score = map_option tft_urgency_score feature,
      vtd_feature_engine_version = map_option tft_feature_engine_version feature\<rparr>"

fun detail_loop ::
  "(tx_seen_record \<Rightarrow> transaction_detail) \<Rightarrow> usize \<Rightarrow> TxHash set \<Rightarrow> transaction_detail list
    \<Rightarrow> tx_seen_record list \<Rightarrow> transaction_detail list" where
  "detail_loop detail limit emitted out [] = out"
| "detail_loop detail limit emitted out (seen # rows) =
     (if tsn_hash seen \<in> emitted then detail_loop detail limit emitted out rows
      else let emitted = insert (tsn_hash seen) emitted; out = out @ [detail seen]
           in if length out \<ge> limit then out else detail_loop detail limit emitted out rows)"

definition transaction_details :: "in_memory_storage \<Rightarrow> usize \<Rightarrow> transaction_detail list" where
  "transaction_details st limit =
     (let full_by_hash = rows_by_hash tfu_hash (im_tx_full st);
          feature_by_hash = rows_by_hash tft_hash (im_tx_features st);
          lifecycle_by_hash = rows_by_hash tlr_hash (im_tx_lifecycle st)
      in detail_loop (\<lambda>seen.
           let lifecycle = bt_get lifecycle_by_hash (tsn_hash seen)
           in transaction_detail_of seen (bt_get full_by_hash (tsn_hash seen))
                (bt_get feature_by_hash (tsn_hash seen)) (map_option tlr_status lifecycle)
                (Option.bind lifecycle tlr_reason) (map_option tlr_updated_unix_ms lifecycle))
           limit {} [] (rev (im_tx_seen st)))"

text \<open>\<^verbatim>\<open>iter().rev().find(..)\<close> on the rows of a table is \<open>latest_of\<close>.\<close>

definition transaction_detail_by_hash ::
  "in_memory_storage \<Rightarrow> string \<Rightarrow> transaction_detail option call" where
  "transaction_detail_by_hash st hash =
     call_bind (rpc_fixed_hex 32 hash) (\<lambda>bytes.
       Returns (Option.bind bytes (\<lambda>bytes.
         let hash = be_word bytes
         in map_option (\<lambda>seen.
              let full = latest_of tfu_hash (im_tx_full st) hash;
                  feature = latest_of tft_hash (im_tx_features st) hash;
                  lifecycle = latest_of tlr_hash (im_tx_lifecycle st) hash;
                  (lifecycle_status, lifecycle_reason) =
                    (case lifecycle of
                       Some row \<Rightarrow> (Some (tlr_status row), tlr_reason row)
                     | None \<Rightarrow>
                         (case current_lifecycle (list_events st) hash of
                            Some status \<Rightarrow>
                              let (status, reason) = map_lifecycle_status status in (Some status, reason)
                          | None \<Rightarrow> (None, None)))
              in transaction_detail_of seen full feature lifecycle_status lifecycle_reason
                   (map_option tlr_updated_unix_ms lifecycle))
            (latest_of tsn_hash (im_tx_seen st) hash))))"

definition provider_metric_snapshot :: "in_memory_storage \<Rightarrow> metric_snapshot" where
  "provider_metric_snapshot st =
     (let tx_seen_len = (of_nat (length (im_tx_seen st)) :: u64);
          tx_full_len = of_nat (length (im_tx_full st)); queue_depth_capacity = 10000
      in \<lparr>ms_peer_disconnects_total = 0, ms_ingest_lag_ms = 0,
          ms_tx_decode_fail_total = sat_sub tx_seen_len tx_full_len,
          ms_tx_decode_total = max tx_seen_len 1, ms_tx_per_sec_current = tx_seen_len,
          ms_tx_per_sec_baseline = max tx_seen_len 1, ms_storage_write_latency_ms = 0,
          ms_clock_skew_ms = 0, ms_queue_depth_current = min tx_seen_len queue_depth_capacity,
          ms_queue_depth_capacity = queue_depth_capacity\<rparr>)"

section \<open>The dashboard snapshot\<close>

text \<open>The trait: what a provider answers.\<close>

record viz_data_provider =
  vdp_events :: "u64 \<Rightarrow> string list \<Rightarrow> usize \<Rightarrow> event_envelope list"
  vdp_latest_seq_id :: "u64 option"
  vdp_feature_summary :: "feature_summary list"
  vdp_feature_details :: "usize \<Rightarrow> feature_detail list"
  vdp_opportunities :: "usize \<Rightarrow> u32 \<Rightarrow> opportunity_detail list"
  vdp_recent_transactions :: "usize \<Rightarrow> transaction_summary list"
  vdp_transaction_detail_by_hash :: "string \<Rightarrow> transaction_detail option"
  vdp_market_stats :: market_stats

text \<open>The default method of the trait.\<close>

definition default_dashboard_snapshot_v2 ::
  "viz_data_provider \<Rightarrow> usize \<Rightarrow> usize \<Rightarrow> usize \<Rightarrow> usize \<Rightarrow> u32 \<Rightarrow> u64 option \<Rightarrow> dashboard_snapshot" where
  "default_dashboard_snapshot_v2 provider tx_limit feature_limit opp_limit summary_limit min_score chain_id =
     (let tx_limit = max tx_limit 1; feature_limit = max feature_limit 1; opp_limit = max opp_limit 1;
          summary_limit = max summary_limit 1;
          feature_scan_limit = chain_filter_scan_limit feature_limit chain_id;
          opp_scan_limit = chain_filter_scan_limit opp_limit chain_id;
          tx_scan_limit = chain_filter_scan_limit tx_limit chain_id;
          latest = (case vdp_latest_seq_id provider of Some i \<Rightarrow> i | None \<Rightarrow> 0)
      in \<lparr>vds_revision = latest, vds_latest_seq_id = latest,
          vds_opportunities = filter_opportunities_by_chain
            (vdp_opportunities provider opp_scan_limit min_score) chain_id opp_limit,
          vds_feature_summary = downsample (vdp_feature_summary provider) summary_limit,
          vds_feature_details = filter_feature_details_by_chain
            (vdp_feature_details provider feature_scan_limit) chain_id feature_limit,
          vds_transactions = take tx_limit (filter (\<lambda>row. chain_id = None \<or>
              (case vdp_transaction_detail_by_hash provider (vts_hash row) of
                 Some detail \<Rightarrow> chain_matches_filter (vtd_chain_id detail) chain_id | None \<Rightarrow> False))
            (vdp_recent_transactions provider tx_scan_limit)),
          vds_chain_ingest_status = [], vds_market_stats = vdp_market_stats provider\<rparr>)"

text \<open>The loop over the recent transactions of the overriding method.\<close>

fun snapshot_tx_loop ::
  "(TxHash, u64 option) btree_map \<Rightarrow> u64 option \<Rightarrow> usize \<Rightarrow> transaction_summary list
    \<Rightarrow> recent_transaction_record list \<Rightarrow> transaction_summary list" where
  "snapshot_tx_loop chain_id_by_hash chain_id tx_limit out [] = out"
| "snapshot_tx_loop chain_id_by_hash chain_id tx_limit out (row # rows) =
     (let row_chain_id = (case bt_get chain_id_by_hash (rtr_hash row) of Some c \<Rightarrow> c | None \<Rightarrow> None)
      in if \<not> chain_matches_filter row_chain_id chain_id
         then snapshot_tx_loop chain_id_by_hash chain_id tx_limit out rows
         else let out = out @ [summary_of_recent row]
              in if length out \<ge> tx_limit then out
                 else snapshot_tx_loop chain_id_by_hash chain_id tx_limit out rows)"

definition dashboard_snapshot_v2 ::
  "in_memory_storage \<Rightarrow> usize \<Rightarrow> usize \<Rightarrow> usize \<Rightarrow> usize \<Rightarrow> u32 \<Rightarrow> u64 option \<Rightarrow> dashboard_snapshot" where
  "dashboard_snapshot_v2 st tx_limit feature_limit opp_limit summary_limit min_score chain_id =
     (let tx_limit = max tx_limit 1; feature_limit = max feature_limit 1; opp_limit = max opp_limit 1;
          summary_limit = max summary_limit 1;
          feature_scan_limit = chain_filter_scan_limit feature_limit chain_id;
          opp_scan_limit = chain_filter_scan_limit opp_limit chain_id;
          tx_scan_limit = chain_filter_scan_limit tx_limit chain_id;
          chain_id_by_hash = foldl (\<lambda>m row. bt_insert (tfu_hash row) (tfu_chain_id row) m) bt_empty
            (im_tx_full st)
      in \<lparr>vds_revision = im_read_model_revision st,
          vds_latest_seq_id = (case latest_seq_id st of Some i \<Rightarrow> i | None \<Rightarrow> 0),
          vds_opportunities = take opp_limit (filter (\<lambda>row. chain_matches_filter (vod_chain_id row) chain_id)
            (take opp_scan_limit (filter (\<lambda>row. vod_score row \<ge> min_score) (build_opportunities st)))),
          vds_feature_summary = take summary_limit (build_feature_summary st),
          vds_feature_details = take feature_limit (filter
            (\<lambda>row. chain_matches_filter (vfd_chain_id row) chain_id)
            (take feature_scan_limit (build_feature_details st))),
          vds_transactions = snapshot_tx_loop chain_id_by_hash chain_id tx_limit []
            (recent_transactions st tx_scan_limit),
          vds_chain_ingest_status = [], vds_market_stats = map_market_stats (im_market_stats st)\<rparr>)"

text \<open>
  The in-memory store as a provider of the trait. The texts the trait's own code passes to
  \<^verbatim>\<open>transaction_detail_by_hash\<close> are rendered hashes, on which it does not panic.
\<close>

definition in_memory_viz :: "in_memory_storage \<Rightarrow> viz_data_provider" where
  "in_memory_viz st =
     \<lparr>vdp_events = provider_events st, vdp_latest_seq_id = latest_seq_id st,
      vdp_feature_summary = build_feature_summary st,
      vdp_feature_details = (\<lambda>limit. take (max limit 1) (build_feature_details st)),
      vdp_opportunities = (\<lambda>limit min_score.
        take limit (filter (\<lambda>row. vod_score row \<ge> min_score) (build_opportunities st))),
      vdp_recent_transactions = provider_recent_transactions st,
      vdp_transaction_detail_by_hash = (\<lambda>hash.
        case transaction_detail_by_hash st hash of Returns detail \<Rightarrow> detail | Panics \<Rightarrow> None),
      vdp_market_stats = provider_market_stats st\<rparr>"

section \<open>What the loops compute\<close>

lemma rows_by_hash_get: "bt_get (rows_by_hash k rows) h = latest_of k rows h"
  by (induction rows rule: rev_induct) (auto simp: rows_by_hash_def)

lemma feature_detail_loop_rows:
  "feature_detail_loop seen out rows = out @ map feature_detail_of (first_by tft_hash seen rows)"
  by (induction rows arbitrary: seen out) simp_all

lemma detail_loop_rows:
  "length out < max limit 1 \<Longrightarrow> detail_loop detail limit seen out rows =
    out @ take (max limit 1 - length out) (map detail (first_by tsn_hash seen rows))"
proof (induction rows arbitrary: seen out)
  case (Cons r rows)
  show ?case
  proof (cases "tsn_hash r \<in> seen")
    case False
    show ?thesis
    proof (cases "length (out @ [detail r]) \<ge> limit")
      case True
      then have "max limit 1 - length out = Suc 0" using Cons.prems by auto
      then show ?thesis using True False by (simp add: Let_def)
    next
      case less: False
      then have "max limit 1 - length out = Suc (max limit 1 - length (out @ [detail r]))"
        using Cons.prems by auto
      then show ?thesis using less False Cons.IH [of "out @ [detail r]"] by (auto simp: Let_def)
    qed
  qed (use Cons in simp)
qed simp

lemma first_by_hashes: "k ` set (first_by k seen rows) = k ` set rows - seen"
  by (induction rows arbitrary: seen) auto

lemma first_by_distinct: "distinct (map k (first_by k seen rows))"
proof (induction rows arbitrary: seen)
  case (Cons r rows)
  then show ?case using first_by_hashes [of k "insert (k r) seen" rows] by auto
qed simp

lemma first_by_latest: "r \<in> set (first_by k {} (rev rows)) \<longleftrightarrow> latest_of k rows (k r) = Some r"
proof -
  have "r \<in> set (first_by k seen xs) \<longleftrightarrow> k r \<notin> seen \<and> find (\<lambda>x. k x = k r) xs = Some r" for seen xs
    by (induction xs arbitrary: seen) auto
  then show ?thesis by (simp add: latest_of_def)
qed

lemma snapshot_tx_loop_rows:
  "length out < tx_limit \<Longrightarrow> snapshot_tx_loop ids chain_id tx_limit out rows =
    out @ take (tx_limit - length out) (map summary_of_recent (filter (\<lambda>row. chain_matches_filter
      (case bt_get ids (rtr_hash row) of Some c \<Rightarrow> c | None \<Rightarrow> None) chain_id) rows))"
proof (induction rows arbitrary: out)
  case (Cons r rows)
  show ?case
  proof (cases "length (out @ [summary_of_recent r]) \<ge> tx_limit")
    case True
    then have "tx_limit - length out = Suc 0" using Cons.prems by auto
    then show ?thesis using True Cons by (simp add: Let_def)
  next
    case False
    then have "tx_limit - length out = Suc (tx_limit - length (out @ [summary_of_recent r]))"
      using Cons.prems by auto
    then show ?thesis using False Cons by (auto simp: Let_def)
  qed
qed simp

lemma chain_ids_get:
  "bt_get (foldl (\<lambda>m row. bt_insert (tfu_hash row) (tfu_chain_id row) m) bt_empty rows) h =
    map_option tfu_chain_id (latest_of tfu_hash rows h)"
  by (induction rows rule: rev_induct) auto

lemma scan_limit_least: "limit \<le> chain_filter_scan_limit limit chain_id"
  by (simp add: chain_filter_scan_limit_def)

section \<open>Transaction details\<close>

text \<open>The row of a hash that was rendered by the provider.\<close>

lemma detail_by_hash_text:
  "transaction_detail_by_hash st (hash_text h) = Returns (map_option (\<lambda>seen.
     let lifecycle = latest_of tlr_hash (im_tx_lifecycle st) h;
         (lifecycle_status, lifecycle_reason) =
           (case lifecycle of
              Some row \<Rightarrow> (Some (tlr_status row), tlr_reason row)
            | None \<Rightarrow>
                (case current_lifecycle (list_events st) h of
                   Some status \<Rightarrow> let (status, reason) = map_lifecycle_status status in (Some status, reason)
                 | None \<Rightarrow> (None, None)))
     in transaction_detail_of seen (latest_of tfu_hash (im_tx_full st) h)
          (latest_of tft_hash (im_tx_features st) h) lifecycle_status lifecycle_reason
          (map_option tlr_updated_unix_ms lifecycle))
     (latest_of tsn_hash (im_tx_seen st) h))"
  by (simp add: transaction_detail_by_hash_def rpc_fixed_hex_def hex_bytes_of_format be_word_bytes
      Let_def cong: option.case_cong)

text \<open>
  A text that is not ASCII makes the lookup panic, also when it comes from the path of a
  request.
\<close>

lemma detail_by_hash_ascii: "ascii hash \<Longrightarrow> transaction_detail_by_hash st hash \<noteq> Panics"
  using hex_bytes_of_ascii [of hash]
  by (cases "hex_bytes_of hash") (simp_all add: transaction_detail_by_hash_def rpc_fixed_hex_def)

lemma detail_by_hash_panics:
  "transaction_detail_by_hash st [CHR ''a'', CHR 0xC3, CHR 0xA9, CHR ''b''] = Panics"
  by (simp add: transaction_detail_by_hash_def rpc_fixed_hex_def hex_bytes_of_panics)

lemma latest_of_hash: "latest_of k rows h = Some r \<Longrightarrow> k r = h"
  by (auto simp: latest_of_def find_Some_iff)

lemma transaction_details_rows:
  "transaction_details st limit = map (\<lambda>seen.
     let lifecycle = latest_of tlr_hash (im_tx_lifecycle st) (tsn_hash seen)
     in transaction_detail_of seen (latest_of tfu_hash (im_tx_full st) (tsn_hash seen))
          (latest_of tft_hash (im_tx_features st) (tsn_hash seen)) (map_option tlr_status lifecycle)
          (Option.bind lifecycle tlr_reason) (map_option tlr_updated_unix_ms lifecycle))
     (take (max limit 1) (first_by tsn_hash {} (rev (im_tx_seen st))))"
  by (simp add: transaction_details_def detail_loop_rows rows_by_hash_get take_map)

text \<open>
  The list of transaction details and the lookup of one of them agree: the list has
  each retained transaction once, as many as the limit allows, and the lookup of a listed hash
  returns the listed row. Only a transaction without a lifecycle row differs: the lookup fills
  its status from a replay of the events, and the list leaves it empty.
\<close>

theorem details_match_lookup:
  "let out = transaction_details st limit
   in distinct (map vtd_hash out) \<and>
      length out = min (max limit 1) (card (tsn_hash ` set (im_tx_seen st))) \<and>
      (\<forall>d \<in> set out. \<exists>d'. transaction_detail_by_hash st (vtd_hash d) = Returns (Some d') \<and>
        d = (if vtd_lifecycle_updated_unix_ms d = None
             then d'\<lparr>vtd_lifecycle_status := None, vtd_lifecycle_reason := None\<rparr> else d'))"
proof -
  define detail where "detail = (\<lambda>seen.
    let lifecycle = latest_of tlr_hash (im_tx_lifecycle st) (tsn_hash seen)
    in transaction_detail_of seen (latest_of tfu_hash (im_tx_full st) (tsn_hash seen))
         (latest_of tft_hash (im_tx_features st) (tsn_hash seen)) (map_option tlr_status lifecycle)
         (Option.bind lifecycle tlr_reason) (map_option tlr_updated_unix_ms lifecycle))"
  define rows where "rows = first_by tsn_hash {} (rev (im_tx_seen st))"
  have out: "transaction_details st limit = map detail (take (max limit 1) rows)"
    by (simp add: transaction_details_rows detail_def rows_def)
  have hash: "vtd_hash (detail r) = hash_text (tsn_hash r)" for r
    by (simp add: detail_def transaction_detail_of_def Let_def)
  have inj: "inj hash_text"
    by (rule inj_on_inverseI [of _ "\<lambda>s. be_word (the (returned (hex_bytes_of s)))"])
      (simp add: hex_bytes_of_format be_word_bytes)
  have d: "distinct (map tsn_hash rows)"
    by (simp add: rows_def first_by_distinct)
  then have "distinct (map hash_text (map tsn_hash rows))"
    using inj by (subst distinct_map) (auto intro: inj_on_subset)
  then have "distinct (map vtd_hash (map detail rows))"
    by (simp add: hash comp_def)
  then have dist: "distinct (map vtd_hash (transaction_details st limit))"
    by (simp add: out take_map [symmetric] distinct_take)
  have len: "length rows = card (tsn_hash ` set (im_tx_seen st))"
    using distinct_card [OF d] first_by_hashes [of tsn_hash "{}" "rev (im_tx_seen st)"]
    by (simp add: rows_def)
  have look: "\<exists>d'. transaction_detail_by_hash st (vtd_hash (detail r)) = Returns (Some d') \<and>
      detail r = (if vtd_lifecycle_updated_unix_ms (detail r) = None
        then d'\<lparr>vtd_lifecycle_status := None, vtd_lifecycle_reason := None\<rparr> else d')"
    if "r \<in> set rows" for r
  proof -
    have "latest_of tsn_hash (im_tx_seen st) (tsn_hash r) = Some r"
      using that by (simp add: rows_def first_by_latest)
    then show ?thesis
      unfolding hash detail_by_hash_text
      by (auto simp: detail_def transaction_detail_of_def Let_def split: option.split prod.split)
  qed
  have "\<exists>d'. transaction_detail_by_hash st (vtd_hash d) = Returns (Some d') \<and>
      d = (if vtd_lifecycle_updated_unix_ms d = None
        then d'\<lparr>vtd_lifecycle_status := None, vtd_lifecycle_reason := None\<rparr> else d')"
    if "d \<in> set (map detail (take (max limit 1) rows))" for d
  proof -
    have "\<exists>r \<in> set rows. d = detail r" using that by (auto dest: in_set_takeD)
    then show ?thesis using look by blast
  qed
  then show ?thesis
    using dist len unfolding Let_def out by (simp del: set_map add: min.commute)
qed

section \<open>The two dashboard snapshots\<close>

lemma details_known:
  assumes "\<forall>row \<in> set (recent_transactions st n). tx_seen_by_hash st (rtr_hash row) \<noteq> None"
    and "\<And>h. tx_seen_by_hash st h = latest_of tsn_hash (im_tx_seen st) h"
    and "row \<in> set (recent_transactions st n)"
  shows "(case vdp_transaction_detail_by_hash (in_memory_viz st) (hash_text (rtr_hash row)) of
      Some detail \<Rightarrow> chain_matches_filter (vtd_chain_id detail) chain_id | None \<Rightarrow> False) =
    chain_matches_filter (Option.bind (latest_of tfu_hash (im_tx_full st) (rtr_hash row)) tfu_chain_id) chain_id"
proof -
  obtain seen where "latest_of tsn_hash (im_tx_seen st) (rtr_hash row) = Some seen"
    using assms by fastforce
  then show ?thesis
    by (simp add: in_memory_viz_def detail_by_hash_text transaction_detail_of_def Let_def case_prod_unfold)
qed

text \<open>
  Property C26. The provider of the in-memory store overrides the dashboard snapshot of the trait
  with one that reads the store once, and both are the same: the opportunities, the feature
  details, the newest sequence id and the market statistics always, the feature summary when it
  fits its limit, and the transactions when no chain is selected or the recent ones all have a
  seen row. The revision is not: the trait's is the newest sequence id, the override's counts
  the writes.
\<close>

theorem snapshot_override_agrees:
  "let st = storage_run config steps;
      own = dashboard_snapshot_v2 st tx_limit feature_limit opp_limit summary_limit min_score chain_id;
      base = default_dashboard_snapshot_v2 (in_memory_viz st) tx_limit feature_limit opp_limit
        summary_limit min_score chain_id
    in vds_latest_seq_id own = vds_latest_seq_id base \<and>
       vds_opportunities own = vds_opportunities base \<and>
       vds_feature_details own = vds_feature_details base \<and>
       vds_market_stats own = vds_market_stats base \<and>
       (length (build_feature_summary st) \<le> max summary_limit 1 \<longrightarrow>
         vds_feature_summary own = vds_feature_summary base) \<and>
       (chain_id = None \<or> (\<forall>row \<in> set (recent_transactions st
           (chain_filter_scan_limit (max tx_limit 1) chain_id)). tx_seen_by_hash st (rtr_hash row) \<noteq> None) \<longrightarrow>
         vds_transactions own = vds_transactions base)"
proof -
  define st where "st = storage_run config steps"
  define n where "n = chain_filter_scan_limit (max tx_limit 1) chain_id"
  define chain where "chain = (\<lambda>row :: recent_transaction_record. chain_matches_filter
    (Option.bind (latest_of tfu_hash (im_tx_full st) (rtr_hash row)) tfu_chain_id) chain_id)"
  have seen: "tx_seen_by_hash st h = latest_of tsn_hash (im_tx_seen st) h" for h
    using seen_table.run_lookup [of "with_config config" steps h]
      seen_table.run_windowed [of "with_config config" steps]
    by (simp add: tx_seen_by_hash_def st_def storage_run_def)
  have bind: "(case x of None \<Rightarrow> None | Some y \<Rightarrow> ((\<lambda>c. c) \<circ> f) y) = Option.bind x f" for f :: "tx_full_record \<Rightarrow> u64 option" and x
    by (cases x) simp_all
  have own: "snapshot_tx_loop (foldl (\<lambda>m row. bt_insert (tfu_hash row) (tfu_chain_id row) m) bt_empty
      (im_tx_full st)) chain_id (max tx_limit 1) [] (recent_transactions st n) =
    take (max tx_limit 1) (map summary_of_recent (filter chain (recent_transactions st n)))"
    by (subst snapshot_tx_loop_rows) (simp_all add: chain_ids_get bind chain_def)
  have "filter chain (recent_transactions st n) = filter (\<lambda>row. chain_id = None \<or>
      (case vdp_transaction_detail_by_hash (in_memory_viz st) (hash_text (rtr_hash row)) of
         Some detail \<Rightarrow> chain_matches_filter (vtd_chain_id detail) chain_id | None \<Rightarrow> False))
      (recent_transactions st n)"
    if "chain_id = None \<or> (\<forall>row \<in> set (recent_transactions st n). tx_seen_by_hash st (rtr_hash row) \<noteq> None)"
  proof (cases chain_id)
    case None
    then show ?thesis by (simp add: chain_def chain_matches_filter_def)
  next
    case (Some c)
    then have "\<forall>row \<in> set (recent_transactions st n). tx_seen_by_hash st (rtr_hash row) \<noteq> None"
      using that by blast
    then show ?thesis
      using details_known [OF _ seen] Some by (intro filter_cong) (simp_all add: chain_def)
  qed
  then have "take (max tx_limit 1) (map summary_of_recent (filter chain (recent_transactions st n))) =
      take (max tx_limit 1) (filter (\<lambda>row. chain_id = None \<or>
        (case vdp_transaction_detail_by_hash (in_memory_viz st) (vts_hash row) of
           Some detail \<Rightarrow> chain_matches_filter (vtd_chain_id detail) chain_id | None \<Rightarrow> False))
        (vdp_recent_transactions (in_memory_viz st) n))"
    if "chain_id = None \<or> (\<forall>row \<in> set (recent_transactions st n). tx_seen_by_hash st (rtr_hash row) \<noteq> None)"
    using that by (simp add: filter_map comp_def in_memory_viz_def provider_recent_transactions_def
        summary_of_recent_def)
  moreover have "max (chain_filter_scan_limit (max feature_limit 1) chain_id) 1 =
      chain_filter_scan_limit (max feature_limit 1) chain_id"
    using scan_limit_least [of "max feature_limit 1" chain_id] by simp
  moreover have "downsample xs (max summary_limit 1) = take (max summary_limit 1) xs"
    if "length xs \<le> max summary_limit 1" for xs :: "feature_summary list"
    using that by (simp add: downsample_def)
  ultimately show ?thesis
    unfolding Let_def st_def [symmetric] n_def [symmetric] default_dashboard_snapshot_v2_def
      dashboard_snapshot_v2_def dashboard_snapshot.simps own
    by (simp add: in_memory_viz_def provider_market_stats_def filter_opportunities_by_chain_def
        filter_feature_details_by_chain_def)
qed

section \<open>The cache is fresh\<close>

text \<open>A write to the store, or a read of the cache with the time a build would take.\<close>

datatype viz_step = StoreWrite storage_step | CacheRead u64

fun viz_step_of ::
  "(dashboard_read_cache \<Rightarrow> u64) \<Rightarrow> in_memory_storage \<times> viz_provider \<Rightarrow> viz_step
    \<Rightarrow> in_memory_storage \<times> viz_provider" where
  "viz_step_of bytes_of (st, provider) (StoreWrite e) = (apply_step st e, provider)"
| "viz_step_of bytes_of (st, provider) (CacheRead t) =
     (st, snd (dashboard_cache_snapshot bytes_of t st provider))"

definition viz_run ::
  "(dashboard_read_cache \<Rightarrow> u64) \<Rightarrow> storage_config \<Rightarrow> propagation_edge list \<Rightarrow> usize \<Rightarrow> viz_step list
    \<Rightarrow> in_memory_storage \<times> viz_provider" where
  "viz_run bytes_of config propagation replay_stride steps =
     foldl (viz_step_of bytes_of) (with_config config, new_viz_provider propagation replay_stride) steps"

fun is_write :: "viz_step \<Rightarrow> bool" where
  "is_write (StoreWrite _) = True"
| "is_write (CacheRead _) = False"

definition views_of :: "dashboard_read_cache \<Rightarrow> in_memory_storage \<Rightarrow> usize \<Rightarrow> bool" where
  "views_of cache st replay_stride \<longleftrightarrow>
     drc_replay_points cache = build_replay_points st replay_stride \<and>
     drc_feature_summary cache = build_feature_summary st \<and>
     drc_feature_details cache = build_feature_details st \<and>
     drc_opportunities cache = build_opportunities st"

text \<open>
  What holds after \<open>w\<close> writes: the revision grew with each of them, and the cache was
  rebuilt at most once per revision it saw.
\<close>

definition cache_follows :: "nat \<Rightarrow> in_memory_storage \<times> viz_provider \<Rightarrow> bool" where
  "cache_follows w = (\<lambda>(st, provider).
     unat (im_read_model_revision st) \<le> 2 * w \<and>
     (let cache = ivp_dashboard_cache provider
      in case drc_revision cache of
           None \<Rightarrow> drc_refreshes cache = 0
         | Some r \<Rightarrow> r \<le> im_read_model_revision st \<and>
             (if r = im_read_model_revision st
              then views_of cache st (ivp_replay_stride provider) \<and> unat (drc_refreshes cache) \<le> Suc w
              else unat (drc_refreshes cache) \<le> w)))"

lemma finish_write_revision [simp]:
  "im_read_model_revision (finish_write t st) = sat_add (im_read_model_revision st) 1"
  by (simp add: finish_write_def bump_read_model_revision_def record_write_latency_def)

lemma write_revision_cases:
  "im_read_model_revision (apply_step st e) \<in>
    {sat_add (im_read_model_revision st) 1, sat_add (sat_add (im_read_model_revision st) 1) 1}"
proof (cases e)
  case (AppendStep readings event)
  then show ?thesis
    by (cases "ee_payload event"; simp add: append_event_def write_defs Let_def case_prod_unfold)
qed (simp_all add: write_defs Let_def case_prod_unfold)

lemma write_revision:
  assumes "unat (im_read_model_revision st) + 2 < 2 ^ 64"
  shows "im_read_model_revision st < im_read_model_revision (apply_step st e)"
    and "unat (im_read_model_revision (apply_step st e)) \<le> unat (im_read_model_revision st) + 2"
  using write_revision_cases [of st e] assms by (auto simp: word_less_nat_alt sat_simps)

lemma cache_follows_write:
  assumes "cache_follows w (st, provider)" and "2 * w + 2 < 2 ^ 64"
  shows "cache_follows (Suc w) (apply_step st e, provider)"
proof -
  have "unat (im_read_model_revision st) + 2 < 2 ^ 64"
    using assms by (simp add: cache_follows_def)
  then show ?thesis
    using write_revision [of st e] assms(1)
    by (auto simp: cache_follows_def Let_def split: option.splits if_splits)
qed

lemma cache_follows_read:
  assumes "cache_follows w (st, provider)" and "Suc w < 2 ^ 64"
  shows "cache_follows w (st, snd (dashboard_cache_snapshot bytes_of t st provider))"
    and "views_of (fst (dashboard_cache_snapshot bytes_of t st provider)) st (ivp_replay_stride provider)"
    and "unat (drc_refreshes (fst (dashboard_cache_snapshot bytes_of t st provider))) \<le> Suc w"
  using assms
  by (auto simp: cache_follows_def dashboard_cache_snapshot_def views_of_def Let_def sat_simps
      split: option.splits if_splits)

lemma viz_run_follows:
  assumes "2 * length (filter is_write steps) < 2 ^ 64"
  shows "cache_follows (length (filter is_write steps)) (viz_run bytes_of config propagation stride steps)
    \<and> ivp_replay_stride (snd (viz_run bytes_of config propagation stride steps)) = max stride 1"
  using assms
proof (induction steps rule: rev_induct)
  case Nil
  then show ?case
    by (simp add: viz_run_def cache_follows_def new_viz_provider_def default_dashboard_read_cache_def
        with_config_def)
next
  case (snoc e steps)
  obtain st provider where run: "viz_run bytes_of config propagation stride steps = (st, provider)"
    by fastforce
  have IH: "cache_follows (length (filter is_write steps)) (st, provider)"
      "ivp_replay_stride provider = max stride 1"
    using snoc run by (auto split: if_splits)
  show ?case
  proof (cases e)
    case (StoreWrite x)
    then show ?thesis
      using IH snoc.prems run cache_follows_write [OF IH(1), of x] by (simp add: viz_run_def)
  next
    case (CacheRead t)
    then show ?thesis
      using IH snoc.prems run cache_follows_read(1) [OF IH(1), of bytes_of t]
      by (simp add: viz_run_def dashboard_cache_snapshot_def Let_def)
  qed
qed

text \<open>
  Property C25. However writes to the store and reads of the dashboard cache interleave, a read
  returns the views of the store as it is then, never those of an earlier one, and the cache has
  been rebuilt at most once more often than the store was written. The bound keeps the revision
  below its saturation.
\<close>

theorem dashboard_reads_fresh:
  assumes "2 * length (filter is_write steps) < 2 ^ 64"
  shows "let (st, provider) = viz_run bytes_of config propagation stride steps;
      cache = fst (dashboard_cache_snapshot bytes_of t st provider)
    in drc_replay_points cache = build_replay_points st (max stride 1) \<and>
       drc_feature_summary cache = build_feature_summary st \<and>
       drc_feature_details cache = build_feature_details st \<and>
       drc_opportunities cache = build_opportunities st \<and>
       unat (drc_refreshes cache) \<le> length (filter is_write steps) + 1"
proof -
  obtain st provider where run: "viz_run bytes_of config propagation stride steps = (st, provider)"
    by fastforce
  then have "cache_follows (length (filter is_write steps)) (st, provider)"
      "ivp_replay_stride provider = max stride 1"
    using viz_run_follows [OF assms, of bytes_of config propagation stride] by simp_all
  then show ?thesis
    using cache_follows_read(2,3) [of "length (filter is_write steps)" st provider bytes_of t] assms run
    by (auto simp: views_of_def)
qed

section \<open>Summaries\<close>

lemma step_by_least: "0 < n \<Longrightarrow> length (filter (\<lambda>i. i mod n = 0) [0..<m]) = (m + n - 1) div n"
proof (induction m)
  case (Suc m)
  define k r where "k = m div n" and "r = m mod n"
  then have m: "m = n * k + r" "r < n" using Suc.prems by simp_all
  have "(Suc m + n - 1) div n = Suc k"
    by (rule div_nat_eqI) (use m in simp_all)
  moreover have "(m + n - 1) div n = (if r = 0 then k else Suc k)"
    by (rule div_nat_eqI) (use m in auto)
  ultimately show ?case using Suc r_def by simp
qed simp

text \<open>At most the requested number of points, each a multiple of the step.\<close>

lemma downsample_bounded: "0 < n \<Longrightarrow> length (downsample xs n) \<le> n"
proof -
  assume n: "0 < n"
  define l where "l = length xs"
  define step where "step = (l + n - 1) div n"
  have "(l + step - 1) div step \<le> n" if "n < l"
  proof -
    have "0 < step" using that n by (simp add: step_def div_greater_zero_iff)
    have "n * step + (l + n - 1) mod n = l + n - 1" by (simp add: step_def)
    moreover have "(l + n - 1) mod n < n" using n by simp
    ultimately have "l \<le> step * n" by (simp add: mult.commute)
    then have "l + step - 1 < step * n + step" using \<open>0 < step\<close> by linarith
    then have "l + step - 1 < Suc n * step" by (simp add: mult.commute)
    then show ?thesis using \<open>0 < step\<close> by (simp add: less_mult_imp_div_less less_Suc_eq_le [symmetric])
  qed
  moreover have "0 < step" if "n < l"
    using that n by (simp add: step_def div_greater_zero_iff)
  moreover have "length (downsample xs n) = (l + step - 1) div step" if "n < l" "0 < step"
  proof -
    have "downsample xs n = step_by (max step 1) xs"
      using that(1) n by (simp add: downsample_def l_def step_def Let_def)
    moreover have "max step 1 = step" using that(2) by simp
    ultimately show ?thesis
      using step_by_least [OF that(2), of l] by (simp add: step_by_def l_def)
  qed
  moreover have "length (downsample xs n) \<le> n" if "l \<le> n"
    using that by (simp add: downsample_def l_def)
  ultimately show ?thesis by (metis linorder_not_less)
qed

lemma sort_by_map:
  assumes "\<And>a b. f (g a) (g b) = h a b"
  shows "sort_by f (map g xs) = map g (sort_by h xs)"
proof -
  have "insort_by f (g x) (map g ys) = map g (insort_by h x ys)" for x ys
    by (induction ys) (simp_all add: assms)
  then show ?thesis by (induction xs) (simp_all add: sort_by_def)
qed

definition in_bucket :: "string \<times> string \<Rightarrow> tx_features_record \<Rightarrow> bool" where
  "in_bucket pc r \<longleftrightarrow> (tft_protocol r, tft_category r) = pc"

lemma summary_counts_get:
  assumes "length rows < 2 ^ 64"
  shows "bt_get (foldl (\<lambda>counts feature.
      bt_insert (tft_protocol feature, tft_category feature)
        ((case bt_get counts (tft_protocol feature, tft_category feature) of
            Some n \<Rightarrow> n | None \<Rightarrow> 0) + (1 :: u64)) counts) bt_empty rows) pc =
    (let n = length (filter (in_bucket pc) rows) in if n = 0 then None else Some (of_nat n))"
  by (induction rows rule: rev_induct) (auto simp: Let_def in_bucket_def)

lemma latest_of_distinct:
  "distinct (map k rows) \<Longrightarrow> latest_of k rows h = Some r \<longleftrightarrow> r \<in> set rows \<and> k r = h"
  by (induction rows rule: rev_induct) auto

lemma features_rows:
  "bt_get (im_tx_features_lookup (storage_run config steps)) h =
    latest_of tft_hash (im_tx_features (storage_run config steps)) h"
  "length (im_tx_features (storage_run config steps)) \<le> max (stc_table_capacity config) 1"
  using features_table.run_lookup [of "with_config config" steps h]
    features_table.run_windowed [of "with_config config" steps]
  by (simp_all add: storage_run_def)

text \<open>
  The dashboard counts rows of features, the store's own summary counts transactions. They agree
  as long as no transaction has two rows.
\<close>

theorem summary_views_agree:
  assumes room: "stc_table_capacity config + 1 < 2 ^ 64"
    and once: "distinct (map tft_hash (im_tx_features (storage_run config steps)))"
  shows "map (\<lambda>s. (vfs_protocol s, vfs_category s, vfs_count s))
      (take (max limit 1) (build_feature_summary (storage_run config steps))) =
    map (\<lambda>b. (fsb_protocol b, fsb_category b, fsb_count b))
      (dashboard_feature_summary (storage_run config steps) limit)"
proof -
  define st where "st = storage_run config steps"
  define rows where "rows = im_tx_features st"
  define counts where "counts = foldl (\<lambda>counts feature.
      bt_insert (tft_protocol feature, tft_category feature)
        ((case bt_get counts (tft_protocol feature, tft_category feature) of
            Some n \<Rightarrow> n | None \<Rightarrow> 0) + (1 :: u64)) counts) bt_empty rows"
  have len: "length rows < 2 ^ 64"
    using features_rows(2) [of config steps] room by (simp add: rows_def st_def)
  have card: "card (bucket (im_tx_features_lookup st) p c) = length (filter (in_bucket (p, c)) rows)" for p c
  proof -
    have d: "distinct (map tft_hash (filter (in_bucket (p, c)) rows))"
      using once by (simp add: rows_def st_def distinct_map_filter)
    have "bucket (im_tx_features_lookup st) p c = set (map tft_hash (filter (in_bucket (p, c)) rows))"
      using once by (auto simp: bucket_def st_def rows_def features_rows(1) latest_of_distinct in_bucket_def)
    then show ?thesis using distinct_card [OF d] by simp
  qed
  have S: "bt_get (im_feature_summary_counts st) (p, c) \<noteq> Some 0"
      "(case bt_get (im_feature_summary_counts st) (p, c) of None \<Rightarrow> 0 | Some n \<Rightarrow> unat n) =
        length (filter (in_bucket (p, c)) rows)" for p c
    using run_summarizes [of config steps] room card by (simp_all add: summarizes_def st_def max_def)
  have "bt_get counts (p, c) = bt_get (im_feature_summary_counts st) (p, c)" for p c
  proof -
    let ?n = "length (filter (in_bucket (p, c)) rows)"
    have n: "bt_get counts (p, c) = (if ?n = 0 then None else Some (of_nat ?n))"
      using summary_counts_get [OF len, of "(p, c)"] unfolding counts_def Let_def .
    show ?thesis
    proof (cases "bt_get (im_feature_summary_counts st) (p, c)")
      case None
      then show ?thesis using S(2) [of p c] n by simp
    next
      case (Some m)
      then have "unat m = ?n" "m \<noteq> 0" using S [of p c] by simp_all
      then have "?n \<noteq> 0" "of_nat ?n = m" by (auto simp: unat_eq_0 simp flip: \<open>unat m = ?n\<close>)
      then show ?thesis using Some n by simp
    qed
  qed
  then have eq: "counts = im_feature_summary_counts st"
    by (intro bt_ext) (metis surj_pair)
  define order where "order = (\<lambda>((p, c), n) ((p', c'), n').
    then_with (cmp (n' :: u64) n) (then_with (cmp (p :: string) p') (cmp (c :: string) c')))"
  have a: "sort_by summary_order (map (\<lambda>((p, c), n). \<lparr>vfs_protocol = p, vfs_category = c, vfs_count = n\<rparr>)
      (bt_entries counts)) =
    map (\<lambda>((p, c), n). \<lparr>vfs_protocol = p, vfs_category = c, vfs_count = n\<rparr>) (sort_by order (bt_entries counts))"
    by (rule sort_by_map) (auto simp: summary_order_def order_def)
  have b: "sort_by bucket_order (map (\<lambda>((p, c), n). \<lparr>fsb_protocol = p, fsb_category = c, fsb_count = n\<rparr>)
      (bt_entries counts)) =
    map (\<lambda>((p, c), n). \<lparr>fsb_protocol = p, fsb_category = c, fsb_count = n\<rparr>) (sort_by order (bt_entries counts))"
    by (rule sort_by_map) (auto simp: bucket_order_def order_def)
  show ?thesis
    unfolding st_def [symmetric] build_feature_summary_def dashboard_feature_summary_def Let_def
      rows_def [symmetric] counts_def [symmetric] eq [symmetric] a b
    by (simp add: take_map comp_def case_prod_unfold)
qed

section \<open>A store\<close>

definition viz_config :: storage_config where
  "viz_config = \<lparr>stc_event_capacity = 4, stc_recent_tx_capacity = 4, stc_table_capacity = 4,
     stc_write_latency_capacity = 4\<rparr>"

definition viz_decoded :: "TxHash \<Rightarrow> tx_decoded" where
  "viz_decoded h = \<lparr>dec_hash = h, dec_tx_type = 2, dec_sender = 9, dec_nonce = 5, dec_chain_id = Some 1,
     dec_to = None, dec_value_wei = None, dec_gas_limit = None, dec_gas_price_wei = None,
     dec_max_fee_per_gas_wei = None, dec_max_priority_fee_per_gas_wei = None,
     dec_max_fee_per_blob_gas_wei = None, dec_calldata_len = None\<rparr>"

definition viz_steps :: "storage_step list" where
  "viz_steps =
     [SeenStep 0 \<lparr>tsn_hash = 7, tsn_peer = ''peer-a'', tsn_first_seen_unix_ms = 1000,
        tsn_first_seen_mono_ns = 0, tsn_seen_count = 1\<rparr>,
      FullStep 0 \<lparr>tfu_hash = 7, tfu_tx_type = 2, tfu_sender = 9, tfu_nonce = 5, tfu_to = None,
        tfu_chain_id = Some 1, tfu_value_wei = None, tfu_gas_limit = None, tfu_gas_price_wei = None,
        tfu_max_fee_per_gas_wei = None, tfu_max_priority_fee_per_gas_wei = None,
        tfu_max_fee_per_blob_gas_wei = None, tfu_calldata_len = None, tfu_raw_tx = [1, 2]\<rparr>,
      FeaturesStep 0 (sample_features 7),
      AppendStep (0, 0, 0) \<lparr>ee_seq_id = 3, ee_ingest_ts_unix_ms = 1000, ee_ingest_ts_mono_ns = 0,
        ee_source_id = SourceId ''peer-a'', ee_payload = TxDecoded (viz_decoded 7)\<rparr>]"

lemma viz_tables:
  "im_tx_seen (storage_run config steps) = last_n (max (stc_table_capacity config) 1) (List.map_filter seen_row steps)"
  "im_tx_lifecycle (storage_run config steps) =
    last_n (max (stc_table_capacity config) 1) (List.map_filter lifecycle_row_of steps)"
  "im_tx_features (storage_run config steps) =
    last_n (max (stc_table_capacity config) 1) (List.map_filter features_row steps)"
  using seen_table.run_windowed [of "with_config config" steps]
    lifecycle_table.run_windowed [of "with_config config" steps]
    features_table.run_windowed [of "with_config config" steps]
  by (simp_all add: storage_run_def)

lemma viz_store:
  "map tsn_hash (im_tx_seen (storage_run viz_config viz_steps)) = [7]"
  "map rtr_hash (recent_transactions (storage_run viz_config viz_steps) 8) = [7]"
  "tx_seen_by_hash (storage_run viz_config viz_steps) 7 \<noteq> None"
  "length (build_feature_summary (storage_run viz_config viz_steps)) = 1"
  "map vtd_lifecycle_updated_unix_ms (transaction_details (storage_run viz_config viz_steps) 5) = [Some 1000]"
proof -
  note tables = viz_tables viz_steps_def viz_config_def List.map_filter_simps last_n_def viz_decoded_def
  show seen: "map tsn_hash (im_tx_seen (storage_run viz_config viz_steps)) = [7]"
    by (simp add: tables)
  show "map rtr_hash (recent_transactions (storage_run viz_config viz_steps) 8) = [7]"
    by (simp add: recent_transactions_exact tables recent_row_def sort_by_def)
  show "tx_seen_by_hash (storage_run viz_config viz_steps) 7 \<noteq> None"
    using seen_table.run_lookup [of "with_config viz_config" viz_steps 7]
    by (simp add: tx_seen_by_hash_def storage_run_def tables latest_of_def)
  show "length (build_feature_summary (storage_run viz_config viz_steps)) = 1"
    by (simp add: build_feature_summary_def tables sample_features_def sort_by_def bt_simps)
  show "map vtd_lifecycle_updated_unix_ms (transaction_details (storage_run viz_config viz_steps) 5) = [Some 1000]"
    by (simp add: transaction_details_rows tables transaction_detail_of_def latest_of_def)
qed

theorem details_match_lookup_witness:
  "\<exists>d. set (transaction_details (storage_run viz_config viz_steps) 5) = {d} \<and>
    transaction_detail_by_hash (storage_run viz_config viz_steps) (vtd_hash d) = Returns (Some d)"
proof -
  let ?st = "storage_run viz_config viz_steps"
  have "card (tsn_hash ` set (im_tx_seen ?st)) = 1"
    using viz_store(1) by (simp flip: set_map)
  then have "length (transaction_details ?st 5) = 1"
    using details_match_lookup [of ?st 5] by (simp add: Let_def)
  then obtain d where out: "transaction_details ?st 5 = [d]"
    by (auto simp: length_Suc_conv)
  moreover have "vtd_lifecycle_updated_unix_ms d = Some 1000"
    using viz_store(5) out by simp
  ultimately show ?thesis
    using details_match_lookup [of ?st 5] by (auto simp: Let_def)
qed

theorem snapshot_override_agrees_witness:
  "let st = storage_run viz_config viz_steps
   in vds_transactions (dashboard_snapshot_v2 st 2 2 2 2 0 (Some 1)) =
      vds_transactions (default_dashboard_snapshot_v2 (in_memory_viz st) 2 2 2 2 0 (Some 1)) \<and>
      vds_feature_summary (dashboard_snapshot_v2 st 2 2 2 2 0 (Some 1)) =
      vds_feature_summary (default_dashboard_snapshot_v2 (in_memory_viz st) 2 2 2 2 0 (Some 1))"
proof -
  let ?st = "storage_run viz_config viz_steps"
  have "chain_filter_scan_limit (max 2 1) (Some 1) = 8"
    by (simp add: chain_filter_scan_limit_def)
  moreover have "tx_seen_by_hash ?st (rtr_hash row) \<noteq> None" if "row \<in> set (recent_transactions ?st 8)" for row
  proof -
    have "rtr_hash row \<in> set (map rtr_hash (recent_transactions ?st 8))" using that by simp
    then show ?thesis using viz_store(2,3) by simp
  qed
  ultimately show ?thesis
    using snapshot_override_agrees [of viz_config viz_steps 2 2 2 2 0 "Some 1"] viz_store(4)
    by (simp add: Let_def)
qed

theorem dashboard_reads_fresh_witness:
  "let (st, provider) = viz_run (\<lambda>_. 0) viz_config [] 1 [StoreWrite (hd viz_steps), CacheRead 3,
        StoreWrite (viz_steps ! 2), CacheRead 4, CacheRead 5];
      cache = fst (dashboard_cache_snapshot (\<lambda>_. 0) 6 st provider)
    in drc_feature_summary cache = build_feature_summary st \<and> unat (drc_refreshes cache) \<le> 3"
  using dashboard_reads_fresh [of "[StoreWrite (hd viz_steps), CacheRead 3,
        StoreWrite (viz_steps ! 2), CacheRead 4, CacheRead 5]" "\<lambda>_. 0" viz_config "[]" 1 6]
  by (simp add: Let_def case_prod_unfold)

text \<open>
  With two rows of features for one transaction the dashboard counts it twice, the store's own
  summary once.
\<close>

lemma summary_views_differ:
  "let st = storage_run viz_config [FeaturesStep 0 (sample_features 7), FeaturesStep 0 (sample_features 7)]
   in map vfs_count (build_feature_summary st) = [2] \<and>
      map fsb_count (dashboard_feature_summary st 5) = [1]"
proof -
  let ?steps = "[FeaturesStep 0 (sample_features 7), FeaturesStep 0 (sample_features 7)]"
  have "im_feature_summary_counts (storage_run viz_config ?steps) =
      bt_insert (tft_protocol (sample_features 7), tft_category (sample_features 7)) 1 bt_empty"
    by (rule bt_ext) (simp add: storage_run_def viz_config_def upsert_tx_features_def count_row_def
        increment_feature_summary_count_def decrement_feature_summary_count_def Let_def)
  then show ?thesis
    by (simp add: build_feature_summary_def dashboard_feature_summary_def viz_tables viz_config_def
        List.map_filter_simps last_n_def sort_by_def bt_simps)
qed

end
