(* ===== verification/Viz_Stream.thy ===== *)
theory Viz_Stream
  imports Viz_Views
begin

text \<open>
  The dashboard stream of the crate \<^verbatim>\<open>viz-api\<close>: the dispatch built from the events
  since the last one (\<^verbatim>\<open>lib.rs\<close>), the producer that publishes one per tick, the
  broadcaster with its bounded replay buffer (\<^verbatim>\<open>stream_broadcast.rs\<close>), and the frames a
  subscriber gets. The broadcast channel of \<^verbatim>\<open>tokio\<close> is the list of the events sent; what
  a receiver gets from it at each turn is an input, constrained by the contract \<open>receives\<close>.
  Rendering as JSON is a parameter.
\<close>

section \<open>Dispatches\<close>

record stream_patch =
  svp_upsert :: "transaction_summary list"
  svp_remove :: "string list"
  svp_feature_upsert :: "feature_detail list"
  svp_opportunity_upsert :: "opportunity_detail list"

record stream_watermark =
  svw_latest_ingest_seq :: u64

record stream_dispatch =
  svd_op :: string
  svd_event_type :: string
  svd_seq :: u64
  svd_channel :: string
  svd_has_gap :: bool
  svd_patch :: stream_patch
  svd_watermark :: stream_watermark
  svd_market_stats :: market_stats

definition transaction_summary_from_event :: "event_envelope \<Rightarrow> transaction_summary option" where
  "transaction_summary_from_event event =
     (case ee_payload event of
        TxDecoded decoded \<Rightarrow> Some \<lparr>vts_hash = hash_text (dec_hash decoded),
          vts_sender = address_text (dec_sender decoded), vts_nonce = dec_nonce decoded,
          vts_tx_type = dec_tx_type decoded, vts_seen_unix_ms = ee_ingest_ts_unix_ms event,
          vts_source_id = source_str (ee_source_id event)\<rparr>
      | _ \<Rightarrow> None)"

definition feature_detail_for_hash :: "viz_data_provider \<Rightarrow> string \<Rightarrow> feature_detail option" where
  "feature_detail_for_hash provider hash =
     Option.bind (vdp_transaction_detail_by_hash provider hash) (\<lambda>detail.
     Option.bind (vtd_protocol detail) (\<lambda>protocol.
     Option.bind (vtd_category detail) (\<lambda>category.
     Option.bind (vtd_mev_score detail) (\<lambda>mev_score.
     Option.bind (vtd_urgency_score detail) (\<lambda>urgency_score.
     Option.bind (vtd_feature_engine_version detail) (\<lambda>version.
       Some \<lparr>vfd_hash = hash, vfd_protocol = protocol, vfd_category = category,
         vfd_chain_id = vtd_chain_id detail, vfd_mev_score = mev_score,
         vfd_urgency_score = urgency_score, vfd_method_selector = None,
         vfd_feature_engine_version = version\<rparr>))))))"

definition opportunity_detail_from_event ::
  "viz_data_provider \<Rightarrow> event_envelope \<Rightarrow> opportunity_detail option" where
  "opportunity_detail_from_event provider event =
     (case ee_payload event of
        OppDetected opp \<Rightarrow>
          let tx_hash = hash_text (od_hash opp);
              chain_id = Option.bind (vdp_transaction_detail_by_hash provider tx_hash) vtd_chain_id
          in Some \<lparr>vod_tx_hash = tx_hash, vod_status = ''detected'', vod_strategy = od_strategy opp,
            vod_score = od_score opp, vod_protocol = od_protocol opp, vod_category = od_category opp,
            vod_chain_id = chain_id, vod_feature_engine_version = od_feature_engine_version opp,
            vod_scorer_version = od_scorer_version opp, vod_strategy_version = od_strategy_version opp,
            vod_reasons = od_reasons opp, vod_detected_unix_ms = ee_ingest_ts_unix_ms event\<rparr>
      | _ \<Rightarrow> None)"

text \<open>\<^verbatim>\<open>iter_mut().find(..)\<close> and the assignment to what it finds\<close>

fun replace_found :: "('a \<Rightarrow> bool) \<Rightarrow> 'a \<Rightarrow> 'a list \<Rightarrow> 'a list option" where
  "replace_found p v [] = None"
| "replace_found p v (row # rows) =
     (if p row then Some (v # rows) else map_option (Cons row) (replace_found p v rows))"

text \<open>The body that the three \<^verbatim>\<open>push_stream_*_with_cap\<close> functions share.\<close>

definition push_with_cap :: "('a \<Rightarrow> bool) \<Rightarrow> 'a list \<Rightarrow> 'a \<Rightarrow> usize \<Rightarrow> 'a list \<times> bool" where
  "push_with_cap same rows row page_limit =
     (let cap = max page_limit 1
      in case replace_found same row rows of
           Some rows \<Rightarrow> (rows, False)
         | None \<Rightarrow>
             let (rows, dropped) = (if length rows \<ge> cap then (tl rows, True) else (rows, False))
             in (rows @ [row], dropped))"

definition push_stream_summary_with_cap ::
  "transaction_summary list \<Rightarrow> transaction_summary \<Rightarrow> usize \<Rightarrow> transaction_summary list \<times> bool" where
  "push_stream_summary_with_cap rows summary page_limit =
     push_with_cap (\<lambda>row. vts_hash row = vts_hash summary) rows summary page_limit"

definition push_stream_feature_with_cap ::
  "feature_detail list \<Rightarrow> feature_detail \<Rightarrow> usize \<Rightarrow> feature_detail list \<times> bool" where
  "push_stream_feature_with_cap rows detail page_limit =
     push_with_cap (\<lambda>row. vfd_hash row = vfd_hash detail) rows detail page_limit"

definition same_opportunity :: "opportunity_detail \<Rightarrow> opportunity_detail \<Rightarrow> bool" where
  "same_opportunity detail row \<longleftrightarrow>
     vod_tx_hash row = vod_tx_hash detail \<and> vod_strategy row = vod_strategy detail \<and>
     vod_detected_unix_ms row = vod_detected_unix_ms detail"

definition push_stream_opportunity_with_cap ::
  "opportunity_detail list \<Rightarrow> opportunity_detail \<Rightarrow> usize \<Rightarrow> opportunity_detail list \<times> bool" where
  "push_stream_opportunity_with_cap rows detail page_limit =
     push_with_cap (same_opportunity detail) rows detail page_limit"

text \<open>The local variables of the loop over the events.\<close>

record dispatch_build =
  dbs_seq_start :: u64
  dbs_seq_end :: u64
  dbs_has_gap :: bool
  dbs_transactions :: "transaction_summary list"
  dbs_features :: "feature_detail list"
  dbs_opportunities :: "opportunity_detail list"

definition add_transaction ::
  "viz_data_provider \<Rightarrow> usize \<Rightarrow> event_envelope \<Rightarrow> dispatch_build \<Rightarrow> dispatch_build" where
  "add_transaction provider page_limit event b =
     (case transaction_summary_from_event event of
        None \<Rightarrow> b
      | Some summary \<Rightarrow>
          let hash = vts_hash summary;
              (rows, dropped) = push_stream_summary_with_cap (dbs_transactions b) summary page_limit;
              b = b\<lparr>dbs_transactions := rows, dbs_has_gap := dbs_has_gap b \<or> dropped\<rparr>
          in case feature_detail_for_hash provider hash of
               None \<Rightarrow> b
             | Some feature \<Rightarrow>
                 let (rows, dropped) = push_stream_feature_with_cap (dbs_features b) feature page_limit
                 in b\<lparr>dbs_features := rows, dbs_has_gap := dbs_has_gap b \<or> dropped\<rparr>)"

definition add_opportunity ::
  "viz_data_provider \<Rightarrow> usize \<Rightarrow> event_envelope \<Rightarrow> dispatch_build \<Rightarrow> dispatch_build" where
  "add_opportunity provider page_limit event b =
     (case opportunity_detail_from_event provider event of
        None \<Rightarrow> b
      | Some opportunity \<Rightarrow>
          let (rows, dropped) = push_stream_opportunity_with_cap (dbs_opportunities b) opportunity page_limit
          in b\<lparr>dbs_opportunities := rows, dbs_has_gap := dbs_has_gap b \<or> dropped\<rparr>)"

definition dispatch_event ::
  "viz_data_provider \<Rightarrow> u64 \<Rightarrow> usize \<Rightarrow> dispatch_build \<Rightarrow> event_envelope \<Rightarrow> dispatch_build" where
  "dispatch_event provider after_seq_id page_limit b event =
     (if ee_seq_id event \<le> after_seq_id then b
      else
        let b = (if dbs_seq_start b = 0
              then b\<lparr>dbs_seq_start := ee_seq_id event,
                dbs_has_gap := dbs_has_gap b \<or>
                  after_seq_id > 0 \<and> ee_seq_id event > sat_add after_seq_id 1\<rparr>
              else b);
            b = b\<lparr>dbs_seq_end := ee_seq_id event\<rparr>
        in add_opportunity provider page_limit event (add_transaction provider page_limit event b))"

definition start_build :: "u64 \<Rightarrow> dispatch_build" where
  "start_build after_seq_id =
     \<lparr>dbs_seq_start = 0, dbs_seq_end = after_seq_id, dbs_has_gap = False, dbs_transactions = [],
      dbs_features = [], dbs_opportunities = []\<rparr>"

definition dispatch_of :: "viz_data_provider \<Rightarrow> dispatch_build \<Rightarrow> stream_dispatch" where
  "dispatch_of provider b =
     \<lparr>svd_op = ''DISPATCH'', svd_event_type = ''DELTA_BATCH'', svd_seq = dbs_seq_end b,
      svd_channel = ''tx.main'', svd_has_gap = dbs_has_gap b,
      svd_patch = \<lparr>svp_upsert = dbs_transactions b, svp_remove = [],
        svp_feature_upsert = dbs_features b, svp_opportunity_upsert = dbs_opportunities b\<rparr>,
      svd_watermark = \<lparr>svw_latest_ingest_seq = dbs_seq_end b\<rparr>,
      svd_market_stats = vdp_market_stats provider\<rparr>"

definition build_dispatch ::
  "viz_data_provider \<Rightarrow> u64 \<Rightarrow> usize \<Rightarrow> stream_dispatch option" where
  "build_dispatch provider after_seq_id page_limit =
     (let max_scan_events_per_tick = max (page_limit * 64) 64;
          events = vdp_events provider after_seq_id [] max_scan_events_per_tick
      in if events = [] then None
         else
           let b = foldl (dispatch_event provider after_seq_id page_limit) (start_build after_seq_id) events
           in if dbs_seq_start b = 0 \<or>
                 dbs_transactions b = [] \<and> dbs_features b = [] \<and> dbs_opportunities b = []
              then None else Some (dispatch_of provider b))"

section \<open>The broadcaster\<close>

datatype broadcast_event = Delta stream_dispatch | Reset string u64

fun broadcast_seq_id :: "broadcast_event \<Rightarrow> u64" where
  "broadcast_seq_id (Delta dispatch) =
     max (svd_seq dispatch) (svw_latest_ingest_seq (svd_watermark dispatch))"
| "broadcast_seq_id (Reset _ latest) = latest"

text \<open>The channel is the list of the events sent on it since it was created.\<close>

record broadcaster =
  sbc_sent :: "broadcast_event list"
  sbc_replay :: "broadcast_event list"
  sbc_replay_capacity :: usize
  sbc_latest_seq_id :: u64

definition new_broadcaster :: "usize \<Rightarrow> broadcaster" where
  "new_broadcaster replay_capacity =
     \<lparr>sbc_sent = [], sbc_replay = [], sbc_replay_capacity = max replay_capacity 1,
      sbc_latest_seq_id = 0\<rparr>"

definition dashboard_stream_broadcast_replay_capacity :: usize where
  "dashboard_stream_broadcast_replay_capacity = 256"

definition dashboard_stream_broadcast_page_limit :: usize where
  "dashboard_stream_broadcast_page_limit = 20"

definition empty_dashboard_stream_broadcaster :: broadcaster where
  "empty_dashboard_stream_broadcaster = new_broadcaster dashboard_stream_broadcast_replay_capacity"

text \<open>The three steps of a publication; each is atomic, the whole is not.\<close>

definition raise_latest :: "broadcast_event \<Rightarrow> broadcaster \<Rightarrow> broadcaster" where
  "raise_latest event b = b\<lparr>sbc_latest_seq_id := max (sbc_latest_seq_id b) (broadcast_seq_id event)\<rparr>"

definition push_replay :: "broadcast_event \<Rightarrow> broadcaster \<Rightarrow> broadcaster" where
  "push_replay event b =
     b\<lparr>sbc_replay := (if length (sbc_replay b) \<ge> sbc_replay_capacity b then tl (sbc_replay b)
         else sbc_replay b) @ [event]\<rparr>"

definition send_event :: "broadcast_event \<Rightarrow> broadcaster \<Rightarrow> broadcaster" where
  "send_event event b = b\<lparr>sbc_sent := sbc_sent b @ [event]\<rparr>"

definition publish_event :: "broadcast_event \<Rightarrow> broadcaster \<Rightarrow> broadcaster" where
  "publish_event event b = send_event event (push_replay event (raise_latest event b))"

definition publish_delta :: "stream_dispatch \<Rightarrow> broadcaster \<Rightarrow> broadcaster" where
  "publish_delta dispatch b = publish_event (Delta dispatch) b"

text \<open>What a subscriber gets from a copy of the buffer and the latest id.\<close>

definition initial_events :: "broadcast_event list \<Rightarrow> u64 \<Rightarrow> u64 \<Rightarrow> broadcast_event list" where
  "initial_events snapshot latest after_seq_id =
     (case snapshot of
        [] \<Rightarrow> []
      | first_event # _ \<Rightarrow>
          let first_seq_id = broadcast_seq_id first_event
          in if after_seq_id > 0 \<and> first_seq_id > sat_add after_seq_id 1
             then [Reset ''gap'' (max latest first_seq_id)]
             else filter (\<lambda>event. broadcast_seq_id event > after_seq_id) snapshot)"

text \<open>The receiver is the number of events sent before it: it gets the later ones.\<close>

definition subscribe_from :: "broadcaster \<Rightarrow> u64 \<Rightarrow> broadcast_event list \<times> nat" where
  "subscribe_from b after_seq_id =
     (initial_events (sbc_replay b) (sbc_latest_seq_id b) after_seq_id, length (sbc_sent b))"

section \<open>The producer\<close>

definition producer_tick ::
  "usize \<Rightarrow> u64 \<times> broadcaster \<Rightarrow> viz_data_provider \<Rightarrow> u64 \<times> broadcaster" where
  "producer_tick page_limit = (\<lambda>(after_seq_id, b) provider.
     case build_dispatch provider after_seq_id page_limit of
       Some dispatch \<Rightarrow> (svd_seq dispatch, publish_delta dispatch b)
     | None \<Rightarrow>
         let latest_seq_id = (case vdp_latest_seq_id provider of Some i \<Rightarrow> i | None \<Rightarrow> after_seq_id)
         in (max after_seq_id latest_seq_id, b))"

text \<open>One provider for what each tick reads.\<close>

definition producer_run :: "viz_data_provider list \<Rightarrow> u64 \<times> broadcaster" where
  "producer_run ticks =
     foldl (producer_tick dashboard_stream_broadcast_page_limit)
       (0, empty_dashboard_stream_broadcaster) ticks"

section \<open>Frames\<close>

definition resolve_after :: "string option \<Rightarrow> u64 option \<Rightarrow> u64" where
  "resolve_after last_event_id query_after =
     (case Option.bind last_event_id (\<lambda>value. parse_u64 (trim value)) of
        Some i \<Rightarrow> i
      | None \<Rightarrow> (case query_after of Some i \<Rightarrow> i | None \<Rightarrow> 0))"

record events_frame =
  evf_id :: string
  evf_event :: string
  evf_data :: string

record frame_json =
  fjs_dispatch :: "stream_dispatch \<Rightarrow> string option"
  fjs_reset :: "string \<Rightarrow> u64 \<Rightarrow> string"
  fjs_keepalive :: "u64 \<Rightarrow> string"

definition build_reset_frame :: "frame_json \<Rightarrow> u64 \<Rightarrow> string \<Rightarrow> events_frame" where
  "build_reset_frame json latest reason =
     \<lparr>evf_id = show_word latest, evf_event = ''reset'', evf_data = fjs_reset json reason latest\<rparr>"

definition build_keepalive_frame :: "frame_json \<Rightarrow> u64 \<Rightarrow> events_frame" where
  "build_keepalive_frame json latest =
     \<lparr>evf_id = show_word latest, evf_event = ''keepalive'', evf_data = fjs_keepalive json latest\<rparr>"

definition build_delta_frame :: "frame_json \<Rightarrow> stream_dispatch \<Rightarrow> events_frame option" where
  "build_delta_frame json dispatch =
     (if svd_has_gap dispatch then
        let latest_seq_id = max (svd_seq dispatch) (svw_latest_ingest_seq (svd_watermark dispatch))
        in Some (build_reset_frame json latest_seq_id ''gap'')
      else Option.bind (fjs_dispatch json dispatch) (\<lambda>data.
        Some \<lparr>evf_id = show_word (svd_seq dispatch), evf_event = ''delta'', evf_data = data\<rparr>))"

fun build_frame :: "frame_json \<Rightarrow> broadcast_event \<Rightarrow> events_frame" where
  "build_frame json (Delta dispatch) =
     (case build_delta_frame json dispatch of
        Some frame \<Rightarrow> frame
      | None \<Rightarrow> build_keepalive_frame json (broadcast_seq_id (Delta dispatch)))"
| "build_frame json (Reset reason latest) = build_reset_frame json latest reason"

text \<open>
  What one wait on the receiver ends with, and the latest id of the broadcaster then: an event,
  a lag that lost some, or a closed channel or a timeout.
\<close>

datatype received = GotEvent broadcast_event | LaggedAt u64 | IdleAt u64

fun received_frame :: "frame_json \<Rightarrow> received \<Rightarrow> events_frame" where
  "received_frame json (GotEvent event) = build_frame json event"
| "received_frame json (LaggedAt latest) = build_reset_frame json latest ''lag''"
| "received_frame json (IdleAt latest) = build_keepalive_frame json latest"

text \<open>The frames of a subscriber: the initial events, then one frame per wait.\<close>

definition subscriber_frames ::
  "frame_json \<Rightarrow> broadcast_event list \<Rightarrow> received list \<Rightarrow> events_frame list" where
  "subscriber_frames json initial waits =
     map (build_frame json) initial @ map (received_frame json) waits"

section \<open>What a dispatch holds\<close>

text \<open>The rows that remain when every item replaces the one with its key or is added at the end.\<close>

definition upserts :: "('a \<Rightarrow> 'k) \<Rightarrow> 'a list \<Rightarrow> 'a list \<Rightarrow> bool" where
  "upserts k rows items \<longleftrightarrow>
     distinct (map k rows) \<and> (\<forall>q. find (\<lambda>r. k r = q) rows = find (\<lambda>r. k r = q) (rev items))"

lemma replace_found_None: "replace_found p v rows = None \<longleftrightarrow> (\<forall>r \<in> set rows. \<not> p r)"
  by (induction rows) auto

lemma replace_found_keys:
  "replace_found (\<lambda>r. k r = k v) v rows = Some rows' \<Longrightarrow> map k rows' = map k rows"
  by (induction rows arbitrary: rows') (auto split: if_splits)

lemma replace_found_find:
  "replace_found (\<lambda>r. k r = k v) v rows = Some rows' \<Longrightarrow>
    find (\<lambda>r. k r = q) rows' = (if k v = q then Some v else find (\<lambda>r. k r = q) rows)"
  by (induction rows arbitrary: rows') (auto split: if_splits)

lemma upserts_Nil [simp]: "upserts k [] []"
  by (simp add: upserts_def)

lemma upserts_push:
  assumes u: "upserts k rows items" and keep: "\<not> snd (push_with_cap (\<lambda>r. k r = k x) rows x n)"
  shows "upserts k (fst (push_with_cap (\<lambda>r. k r = k x) rows x n)) (items @ [x])"
proof (cases "replace_found (\<lambda>r. k r = k x) x rows")
  case (Some rows')
  then show ?thesis
    using u replace_found_keys [OF Some] replace_found_find [OF Some]
    by (simp add: push_with_cap_def upserts_def Let_def)
next
  case None
  then have new: "\<forall>r \<in> set rows. k r \<noteq> k x" by (simp add: replace_found_None)
  have "fst (push_with_cap (\<lambda>r. k r = k x) rows x n) = rows @ [x]"
    using keep None by (auto simp: push_with_cap_def Let_def)
  moreover have "distinct (map k (rows @ [x]))"
    using u new by (auto simp: upserts_def)
  moreover have "find (\<lambda>r. k r = q) (rows @ [x]) = find (\<lambda>r. k r = q) (rev (items @ [x]))" for q
  proof (cases "k x = q")
    case True
    then have "find (\<lambda>r. k r = q) rows = None" using new by (simp add: find_None_iff)
    then show ?thesis using True by (simp add: find_append)
  next
    case False
    then show ?thesis using u by (auto simp: upserts_def find_append split: option.splits)
  qed
  ultimately show ?thesis by (simp add: upserts_def)
qed

lemma push_with_cap_bounded:
  "length rows \<le> max n 1 \<Longrightarrow> length (fst (push_with_cap p rows x n)) \<le> max n 1"
proof (cases "replace_found p x rows")
  case (Some rows')
  have "length rows' = length rows"
    using Some by (induction rows arbitrary: rows') (auto split: if_splits)
  then show "length rows \<le> max n 1 \<Longrightarrow> ?thesis"
    using Some by (simp add: push_with_cap_def Let_def)
qed (auto simp: push_with_cap_def Let_def)

definition opportunity_key :: "opportunity_detail \<Rightarrow> string \<times> string \<times> i64" where
  "opportunity_key row = (vod_tx_hash row, vod_strategy row, vod_detected_unix_ms row)"

lemma same_opportunity_key: "same_opportunity d = (\<lambda>r. opportunity_key r = opportunity_key d)"
  by (auto simp: same_opportunity_def opportunity_key_def)

text \<open>
  What a dispatch under construction holds after the events \<open>es\<close>, unless it has a gap: it
  is contiguous with the cursor, and its rows are the last ones of their keys.
\<close>

definition building ::
  "viz_data_provider \<Rightarrow> u64 \<Rightarrow> event_envelope list \<Rightarrow> dispatch_build \<Rightarrow> bool" where
  "building provider after_seq_id es b \<longleftrightarrow>
     (let window = filter (\<lambda>e. after_seq_id < ee_seq_id e) es
      in dbs_seq_start b = (if window = [] then 0 else ee_seq_id (hd window)) \<and>
         dbs_seq_end b = (if window = [] then after_seq_id else ee_seq_id (last window)) \<and>
         (\<not> dbs_has_gap b \<longrightarrow>
           (after_seq_id > 0 \<and> window \<noteq> [] \<longrightarrow> ee_seq_id (hd window) \<le> sat_add after_seq_id 1) \<and>
           upserts vts_hash (dbs_transactions b)
             (List.map_filter transaction_summary_from_event window) \<and>
           upserts vfd_hash (dbs_features b) (List.map_filter (\<lambda>e. Option.bind
               (transaction_summary_from_event e) (\<lambda>s. feature_detail_for_hash provider (vts_hash s))) window) \<and>
           upserts opportunity_key (dbs_opportunities b)
             (List.map_filter (opportunity_detail_from_event provider) window)))"

lemma add_transaction_frame:
  "dbs_seq_start (add_transaction provider n e b) = dbs_seq_start b"
  "dbs_seq_end (add_transaction provider n e b) = dbs_seq_end b"
  "dbs_opportunities (add_transaction provider n e b) = dbs_opportunities b"
  "dbs_has_gap b \<Longrightarrow> dbs_has_gap (add_transaction provider n e b)"
  by (simp_all add: add_transaction_def Let_def case_prod_unfold split: option.split)

lemma add_opportunity_frame:
  "dbs_seq_start (add_opportunity provider n e b) = dbs_seq_start b"
  "dbs_seq_end (add_opportunity provider n e b) = dbs_seq_end b"
  "dbs_transactions (add_opportunity provider n e b) = dbs_transactions b"
  "dbs_features (add_opportunity provider n e b) = dbs_features b"
  "dbs_has_gap b \<Longrightarrow> dbs_has_gap (add_opportunity provider n e b)"
  by (simp_all add: add_opportunity_def Let_def case_prod_unfold split: option.split)

lemma map_filter_snoc:
  "List.map_filter f (xs @ [x]) = List.map_filter f xs @ (case f x of None \<Rightarrow> [] | Some y \<Rightarrow> [y])"
  by (simp add: map_filter_append List.map_filter_simps split: option.split)

lemma feature_hash: "feature_detail_for_hash provider h = Some f \<Longrightarrow> vfd_hash f = h"
  by (auto simp: feature_detail_for_hash_def bind_eq_Some_conv)

lemma add_transaction_upserts:
  assumes "\<not> dbs_has_gap (add_transaction provider n e b)"
    and "upserts vts_hash (dbs_transactions b) ts" and "upserts vfd_hash (dbs_features b) fs"
  shows "upserts vts_hash (dbs_transactions (add_transaction provider n e b))
      (ts @ (case transaction_summary_from_event e of None \<Rightarrow> [] | Some t \<Rightarrow> [t]))"
    and "upserts vfd_hash (dbs_features (add_transaction provider n e b))
      (fs @ (case Option.bind (transaction_summary_from_event e)
          (\<lambda>s. feature_detail_for_hash provider (vts_hash s)) of None \<Rightarrow> [] | Some f \<Rightarrow> [f]))"
  using assms
  by (auto simp: add_transaction_def push_stream_summary_with_cap_def push_stream_feature_with_cap_def
      Let_def case_prod_unfold upserts_push split: option.splits)

lemma add_opportunity_upserts:
  assumes "\<not> dbs_has_gap (add_opportunity provider n e b)"
    and "upserts opportunity_key (dbs_opportunities b) os"
  shows "upserts opportunity_key (dbs_opportunities (add_opportunity provider n e b))
      (os @ (case opportunity_detail_from_event provider e of None \<Rightarrow> [] | Some t \<Rightarrow> [t]))"
  using assms
  by (auto simp: add_opportunity_def push_stream_opportunity_with_cap_def same_opportunity_key
      Let_def case_prod_unfold upserts_push split: option.splits)

lemma building_event:
  assumes I: "building provider after_seq_id es b"
  shows "building provider after_seq_id (es @ [e]) (dispatch_event provider after_seq_id n b e)"
proof (cases "after_seq_id < ee_seq_id e")
  case False
  then have "filter (\<lambda>e. after_seq_id < ee_seq_id e) (es @ [e]) = filter (\<lambda>e. after_seq_id < ee_seq_id e) es"
    by simp
  then show ?thesis
    using I False by (simp only: building_def dispatch_event_def not_less if_True)
next
  case True
  define b1 where "b1 = (if dbs_seq_start b = 0
      then b\<lparr>dbs_seq_start := ee_seq_id e, dbs_has_gap := dbs_has_gap b \<or>
        after_seq_id > 0 \<and> ee_seq_id e > sat_add after_seq_id 1\<rparr> else b)\<lparr>dbs_seq_end := ee_seq_id e\<rparr>"
  define b2 where "b2 = add_transaction provider n e b1"
  define b3 where "b3 = add_opportunity provider n e b2"
  let ?w = "filter (\<lambda>e. after_seq_id < ee_seq_id e) es"
  have out: "dispatch_event provider after_seq_id n b e = b3"
    using True by (simp add: dispatch_event_def b1_def b2_def b3_def Let_def not_le [symmetric])
  have start: "dbs_seq_start b = 0 \<longleftrightarrow> ?w = []"
  proof -
    have "ee_seq_id (hd ?w) \<noteq> 0" if "?w \<noteq> []"
      using hd_in_set [OF that] by (auto simp: word_gt_0 dest: word_less_nat_alt [THEN iffD1])
    then show ?thesis using I by (auto simp: building_def Let_def)
  qed
  have b1: "dbs_seq_start b1 = ee_seq_id (hd (?w @ [e]))" "dbs_seq_end b1 = ee_seq_id e"
      "dbs_transactions b1 = dbs_transactions b" "dbs_features b1 = dbs_features b"
      "dbs_opportunities b1 = dbs_opportunities b"
      "dbs_has_gap b \<Longrightarrow> dbs_has_gap b1"
      "\<not> dbs_has_gap b1 \<Longrightarrow> after_seq_id > 0 \<Longrightarrow> ?w = [] \<Longrightarrow> ee_seq_id e \<le> sat_add after_seq_id 1"
    using start I by (auto simp: b1_def building_def Let_def)
  have gap: "\<not> dbs_has_gap b3 \<Longrightarrow> \<not> dbs_has_gap b2" "\<not> dbs_has_gap b2 \<Longrightarrow> \<not> dbs_has_gap b1"
      "\<not> dbs_has_gap b1 \<Longrightarrow> \<not> dbs_has_gap b"
    using add_opportunity_frame(5) add_transaction_frame(4) b1(6) by (auto simp: b2_def b3_def)
  have rows: "upserts vts_hash (dbs_transactions b3) (List.map_filter transaction_summary_from_event (?w @ [e])) \<and>
      upserts vfd_hash (dbs_features b3) (List.map_filter (\<lambda>e. Option.bind
        (transaction_summary_from_event e) (\<lambda>s. feature_detail_for_hash provider (vts_hash s))) (?w @ [e])) \<and>
      upserts opportunity_key (dbs_opportunities b3)
        (List.map_filter (opportunity_detail_from_event provider) (?w @ [e]))" if "\<not> dbs_has_gap b3"
  proof -
    have g: "\<not> dbs_has_gap b2" "\<not> dbs_has_gap b" using gap that by blast+
    then have "upserts vts_hash (dbs_transactions b1) (List.map_filter transaction_summary_from_event ?w)"
        "upserts vfd_hash (dbs_features b1) (List.map_filter (\<lambda>e. Option.bind
          (transaction_summary_from_event e) (\<lambda>s. feature_detail_for_hash provider (vts_hash s))) ?w)"
        "upserts opportunity_key (dbs_opportunities b2)
          (List.map_filter (opportunity_detail_from_event provider) ?w)"
      using I by (simp_all add: building_def Let_def b1 b2_def add_transaction_frame)
    then show ?thesis
      using add_transaction_upserts [OF g(1) [unfolded b2_def]] add_opportunity_upserts [OF that [unfolded b3_def]]
      by (simp add: map_filter_snoc b2_def b3_def add_opportunity_frame)
  qed
  have "dbs_seq_start b3 = dbs_seq_start b1" "dbs_seq_end b3 = dbs_seq_end b1"
    by (simp_all add: b3_def b2_def add_opportunity_frame add_transaction_frame)
  moreover have "ee_seq_id (hd ?w) \<le> sat_add after_seq_id 1"
    if "\<not> dbs_has_gap b3" "after_seq_id > 0" "?w \<noteq> []"
    using I gap that by (auto simp: building_def Let_def)
  ultimately show ?thesis
    using True rows b1 gap unfolding out building_def Let_def
    by (cases "?w = []") auto
qed

lemma building_fold:
  "building provider after_seq_id es
    (foldl (dispatch_event provider after_seq_id n) (start_build after_seq_id) es)"
proof (induction es rule: rev_induct)
  case Nil
  then show ?case by (simp add: building_def start_build_def List.map_filter_simps)
qed (simp add: building_event)

lemma build_dispatch_Some:
  assumes "build_dispatch provider after_seq_id n = Some d"
  defines "es \<equiv> vdp_events provider after_seq_id [] (max (n * 64) 64)"
  obtains b where "building provider after_seq_id es b" and "d = dispatch_of provider b"
    and "b = foldl (dispatch_event provider after_seq_id n) (start_build after_seq_id) es"
    and "filter (\<lambda>e. after_seq_id < ee_seq_id e) es \<noteq> []"
proof -
  define b where "b = foldl (dispatch_event provider after_seq_id n) (start_build after_seq_id) es"
  have I: "building provider after_seq_id es b" unfolding b_def by (rule building_fold)
  have "dbs_seq_start b \<noteq> 0" and d: "d = dispatch_of provider b"
    using assms(1) by (auto simp: build_dispatch_def es_def b_def Let_def split: if_splits)
  then have "filter (\<lambda>e. after_seq_id < ee_seq_id e) es \<noteq> []"
    using I by (auto simp: building_def Let_def)
  then show ?thesis using that I d b_def by blast
qed

lemma dispatch_seq:
  assumes "build_dispatch provider after_seq_id n = Some d"
  shows "after_seq_id < svd_seq d" and "svw_latest_ingest_seq (svd_watermark d) = svd_seq d"
proof -
  obtain b where b: "building provider after_seq_id (vdp_events provider after_seq_id [] (max (n * 64) 64)) b"
      "d = dispatch_of provider b"
      "filter (\<lambda>e. after_seq_id < ee_seq_id e) (vdp_events provider after_seq_id [] (max (n * 64) 64)) \<noteq> []"
    using build_dispatch_Some [OF assms] by metis
  then have "svd_seq d = ee_seq_id (last (filter (\<lambda>e. after_seq_id < ee_seq_id e)
      (vdp_events provider after_seq_id [] (max (n * 64) 64))))"
    by (simp add: building_def Let_def dispatch_of_def)
  then show "after_seq_id < svd_seq d"
    using last_in_set [OF b(3)] by auto
  show "svw_latest_ingest_seq (svd_watermark d) = svd_seq d"
    by (simp add: b(2) dispatch_of_def)
qed

definition within :: "usize \<Rightarrow> dispatch_build \<Rightarrow> bool" where
  "within n b \<longleftrightarrow> length (dbs_transactions b) \<le> max n 1 \<and> length (dbs_features b) \<le> max n 1 \<and>
     length (dbs_opportunities b) \<le> max n 1"

interpretation dispatching: step_system "dispatch_event provider after_seq_id n" "within n"
proof
  fix b e
  assume w: "within n b"
  have t: "within n (add_transaction provider n e b)" if "within n b" for b
    using that
    by (auto simp: within_def add_transaction_def push_stream_summary_with_cap_def
        push_stream_feature_with_cap_def push_with_cap_bounded [simplified] Let_def case_prod_unfold
        split: option.split)
  have opp: "within n (add_opportunity provider n e b)" if "within n b" for b
    using that
    by (auto simp: within_def add_opportunity_def push_stream_opportunity_with_cap_def
        push_with_cap_bounded [simplified] Let_def case_prod_unfold split: option.split)
  show "within n (dispatch_event provider after_seq_id n b e)"
  proof -
    have "within n (b\<lparr>dbs_seq_start := i, dbs_has_gap := g, dbs_seq_end := j\<rparr>)"
        "within n (b\<lparr>dbs_seq_end := j\<rparr>)" for i g j
      using w by (simp_all add: within_def)
    then show ?thesis using w by (simp add: dispatch_event_def Let_def opp t)
  qed
qed

text \<open>
  Property C24. A dispatch that does not flag a gap loses nothing of the events it scanned: it
  starts right after the cursor and ends at the last of them, and of each transaction, feature
  row and opportunity in them it carries exactly the latest version, one row each and no more
  rows than the page holds.
\<close>

theorem dispatch_complete:
  assumes "build_dispatch provider after_seq_id n = Some d" and "\<not> svd_has_gap d"
  shows "let window = filter (\<lambda>e. after_seq_id < ee_seq_id e)
        (vdp_events provider after_seq_id [] (max (n * 64) 64)); patch = svd_patch d
    in window \<noteq> [] \<and> svd_seq d = ee_seq_id (last window) \<and>
       (after_seq_id > 0 \<longrightarrow> ee_seq_id (hd window) \<le> sat_add after_seq_id 1) \<and>
       upserts vts_hash (svp_upsert patch) (List.map_filter transaction_summary_from_event window) \<and>
       upserts vfd_hash (svp_feature_upsert patch) (List.map_filter (\<lambda>e. Option.bind
         (transaction_summary_from_event e) (\<lambda>s. feature_detail_for_hash provider (vts_hash s))) window) \<and>
       upserts opportunity_key (svp_opportunity_upsert patch)
         (List.map_filter (opportunity_detail_from_event provider) window) \<and>
       length (svp_upsert patch) \<le> max n 1 \<and> length (svp_feature_upsert patch) \<le> max n 1 \<and>
       length (svp_opportunity_upsert patch) \<le> max n 1"
proof -
  let ?es = "vdp_events provider after_seq_id [] (max (n * 64) 64)"
  obtain b where b: "building provider after_seq_id ?es b" "d = dispatch_of provider b"
      "b = foldl (dispatch_event provider after_seq_id n) (start_build after_seq_id) ?es"
      "filter (\<lambda>e. after_seq_id < ee_seq_id e) ?es \<noteq> []"
    using build_dispatch_Some [OF assms(1)] by metis
  have "within n (start_build after_seq_id)"
    by (simp add: within_def start_build_def)
  then have "within n b" unfolding b(3) by (rule dispatching.run_invar)
  moreover have "\<not> dbs_has_gap b" using assms(2) by (simp add: b(2) dispatch_of_def)
  ultimately show ?thesis
    using b(1,4) unfolding building_def Let_def within_def by (simp add: b(2) dispatch_of_def)
qed

section \<open>What the producer publishes\<close>

text \<open>
  The invariant of the producer and its broadcaster: the deltas sent have increasing ids up to
  the cursor, the buffer holds the last of them, and the latest id is that of the last one.
\<close>

definition published :: "usize \<Rightarrow> u64 \<times> broadcaster \<Rightarrow> bool" where
  "published capacity = (\<lambda>(after_seq_id, b). \<exists>ds.
     sbc_sent b = map Delta ds \<and> sorted_wrt (<) (map svd_seq ds) \<and>
     (\<forall>d \<in> set ds. svd_seq d \<le> after_seq_id \<and> broadcast_seq_id (Delta d) = svd_seq d) \<and>
     sbc_replay_capacity b = capacity \<and> sbc_replay b = last_n capacity (sbc_sent b) \<and>
     sbc_latest_seq_id b = (if ds = [] then 0 else svd_seq (last ds)))"

lemma push_replay_last_n:
  "0 < n \<Longrightarrow> (if length (last_n n xs) \<ge> n then tl (last_n n xs) else last_n n xs) @ [x] = last_n n (xs @ [x])"
proof (cases "length xs < n")
  case False
  moreover have "tl (drop (length xs - n) xs) = drop (Suc (length xs - n)) xs"
    by (simp add: drop_Suc tl_drop)
  moreover assume "0 < n"
  ultimately show ?thesis by (simp add: last_n_def Suc_diff_le)
qed (simp add: last_n_all)

interpretation producer: started_system "producer_tick n" "published 256"
  "(0, empty_dashboard_stream_broadcaster)"
proof
  show "published 256 (0, empty_dashboard_stream_broadcaster)"
    by (simp add: published_def empty_dashboard_stream_broadcaster_def new_broadcaster_def
        dashboard_stream_broadcast_replay_capacity_def last_n_def)
next
  fix s :: "u64 \<times> broadcaster" and provider
  assume "published 256 s"
  then obtain after_seq_id b ds where s: "s = (after_seq_id, b)" "sbc_sent b = map Delta ds"
      "sorted_wrt (<) (map svd_seq ds)"
      "\<forall>d \<in> set ds. svd_seq d \<le> after_seq_id \<and> broadcast_seq_id (Delta d) = svd_seq d"
      "sbc_replay_capacity b = 256" "sbc_replay b = last_n 256 (sbc_sent b)"
      "sbc_latest_seq_id b = (if ds = [] then 0 else svd_seq (last ds))"
    by (auto simp: published_def)
  show "published 256 (producer_tick n s provider)"
  proof (cases "build_dispatch provider after_seq_id n")
    case None
    have "svd_seq d \<le> max after_seq_id i" if "d \<in> set ds" for d i
      using s(4) that by (simp add: le_max_iff_disj)
    then show ?thesis
      using s None by (auto simp: published_def producer_tick_def Let_def)
  next
    case (Some d)
    note seq = dispatch_seq [OF Some]
    have "svd_seq e < svd_seq d" if "e \<in> set ds" for e
      using s(4) seq(1) that by fastforce
    moreover from this have "max (if ds = [] then 0 else svd_seq (last ds)) (svd_seq d) = svd_seq d"
      using last_in_set [of ds] by (auto intro!: max_absorb2 less_imp_le)
    moreover have "producer_tick n s provider = (svd_seq d, publish_delta d b)"
      using Some by (simp add: s(1) producer_tick_def)
    moreover from calculation(1) have "\<forall>e \<in> set ds. svd_seq e \<le> svd_seq d"
      by (blast intro: less_imp_le)
    ultimately show ?thesis
      using s seq push_replay_last_n [of 256 "sbc_sent b" "Delta d"]
      unfolding published_def publish_delta_def publish_event_def send_event_def push_replay_def
        raise_latest_def by (auto simp: sorted_wrt_append intro!: exI [of _ "ds @ [d]"])
  qed
qed

section \<open>A subscriber\<close>

text \<open>
  The contract of the receiver of a broadcast channel: from the unread events it takes the next
  one, reports a lag and loses some of the oldest, or takes nothing.
\<close>

inductive receives :: "broadcast_event list \<Rightarrow> received list \<Rightarrow> broadcast_event list \<Rightarrow> bool" where
  done_reading: "receives unread [] unread"
| got: "receives unread waits rest \<Longrightarrow> receives (event # unread) (GotEvent event # waits) rest"
| lagged: "receives unread waits rest \<Longrightarrow> lost \<noteq> [] \<Longrightarrow>
    receives (lost @ unread) (LaggedAt latest # waits) rest"
| idle: "receives unread waits rest \<Longrightarrow> receives unread (IdleAt latest # waits) rest"

inductive_cases receives_GotE: "receives unread (GotEvent event # waits) rest"
inductive_cases receives_IdleE: "receives unread (IdleAt latest # waits) rest"

fun got_event :: "received \<Rightarrow> broadcast_event option" where
  "got_event (GotEvent event) = Some event"
| "got_event _ = None"

lemma receives_all:
  "receives unread waits rest \<Longrightarrow> (\<And>i. LaggedAt i \<notin> set waits) \<Longrightarrow>
    unread = List.map_filter got_event waits @ rest"
  by (induction rule: receives.induct) (auto simp: List.map_filter_simps)

definition silent :: "events_frame list \<Rightarrow> bool" where
  "silent frames \<longleftrightarrow> list_all (\<lambda>f. evf_event f \<noteq> ''reset'') frames"

lemma frame_kinds:
  assumes "\<forall>d. fjs_dispatch json d \<noteq> None" and "evf_event (build_frame json e) \<noteq> ''reset''"
  shows "evf_event (build_frame json e) = ''delta''"
proof (cases e)
  case (Delta d)
  obtain data where "fjs_dispatch json d = Some data" using assms(1) by blast
  then show ?thesis
    using assms(2) Delta by (auto simp: build_delta_frame_def build_reset_frame_def Let_def split: if_splits)
qed (use assms in \<open>simp add: build_reset_frame_def\<close>)

lemma delta_frames:
  assumes "\<forall>d. fjs_dispatch json d \<noteq> None" and "silent (map (build_frame json) es)"
  shows "filter (\<lambda>f. evf_event f = ''delta'') (map (build_frame json) es) = map (build_frame json) es"
  using assms frame_kinds [OF assms(1)] by (intro filter_True) (auto simp: silent_def list_all_iff)

lemma wait_frames:
  assumes "\<forall>d. fjs_dispatch json d \<noteq> None" and "silent (map (received_frame json) waits)"
  shows "filter (\<lambda>f. evf_event f = ''delta'') (map (received_frame json) waits) =
      map (build_frame json) (List.map_filter got_event waits)"
    and "LaggedAt i \<notin> set waits"
proof -
  show "filter (\<lambda>f. evf_event f = ''delta'') (map (received_frame json) waits) =
      map (build_frame json) (List.map_filter got_event waits)"
    using assms(2)
  proof (induction waits)
    case (Cons w waits)
    then show ?case
      using frame_kinds [OF assms(1)]
      by (cases w) (auto simp: silent_def List.map_filter_simps build_keepalive_frame_def build_reset_frame_def)
  qed (simp add: List.map_filter_simps)
  show "LaggedAt i \<notin> set waits"
    using assms(2) by (auto simp: silent_def list_all_iff build_reset_frame_def)
qed

lemma initial_complete:
  assumes "published 256 (i, b)" and "0 < after_seq_id \<or> length (sbc_sent b) \<le> 256"
    and "silent (map (build_frame json) (fst (subscribe_from b after_seq_id)))"
  shows "fst (subscribe_from b after_seq_id) =
    filter (\<lambda>e. after_seq_id < broadcast_seq_id e) (sbc_sent b)"
proof -
  obtain ds where ds: "sbc_sent b = map Delta ds" "sorted_wrt (<) (map svd_seq ds)"
      "\<forall>d \<in> set ds. broadcast_seq_id (Delta d) = svd_seq d" "sbc_replay b = last_n 256 (sbc_sent b)"
    using assms(1) by (auto simp: published_def)
  define k where "k = length (sbc_sent b) - 256"
  have split: "sbc_sent b = take k (sbc_sent b) @ sbc_replay b"
    by (simp add: ds(4) last_n_def k_def)
  show ?thesis
  proof (cases "sbc_replay b")
    case Nil
    then have "min 256 (length (sbc_sent b)) = 0"
      using ds(4) length_last_n [of 256 "sbc_sent b"] by (metis list.size(3))
    then have "sbc_sent b = []" by (simp add: min_def split: if_splits)
    then show ?thesis using Nil by (simp add: subscribe_from_def initial_events_def)
  next
    case (Cons first rest)
    have no_reset: "\<not> (0 < after_seq_id \<and> sat_add after_seq_id 1 < broadcast_seq_id first)"
      using assms(3) Cons
      by (auto simp: subscribe_from_def initial_events_def silent_def build_reset_frame_def Let_def)
    then have init: "fst (subscribe_from b after_seq_id) =
        filter (\<lambda>e. after_seq_id < broadcast_seq_id e) (sbc_replay b)"
      using Cons by (auto simp: subscribe_from_def initial_events_def Let_def)
    have "sorted_wrt (\<lambda>a b. broadcast_seq_id a < broadcast_seq_id b) (sbc_sent b)"
      unfolding ds(1) sorted_wrt_map
      by (rule sorted_wrt_mono_rel [OF _ ds(2) [unfolded sorted_wrt_map]]) (use ds(3) in simp)
    then have "sorted_wrt (\<lambda>a b. broadcast_seq_id a < broadcast_seq_id b) (take k (sbc_sent b) @ first # rest)"
      using split Cons by metis
    then have less: "broadcast_seq_id e < broadcast_seq_id first" if "e \<in> set (take k (sbc_sent b))" for e
      using that by (simp add: sorted_wrt_append)
    have "\<not> after_seq_id < broadcast_seq_id e" if e: "e \<in> set (take k (sbc_sent b))" for e
    proof -
      have "0 < k" using e by (cases k) simp_all
      then have "broadcast_seq_id first \<le> sat_add after_seq_id 1"
        using assms(2) no_reset by (auto simp: k_def)
      then show ?thesis
        using less [OF e] by (auto simp: word_less_nat_alt word_le_nat_alt sat_simps)
    qed
    then have "filter (\<lambda>e. after_seq_id < broadcast_seq_id e) (take k (sbc_sent b)) = []"
      by (simp add: filter_empty_conv)
    then have "filter (\<lambda>e. after_seq_id < broadcast_seq_id e) (take k (sbc_sent b) @ sbc_replay b) =
        filter (\<lambda>e. after_seq_id < broadcast_seq_id e) (sbc_replay b)"
      by simp
    then show ?thesis using init split by simp
  qed
qed


section \<open>Where events are lost\<close>

lemma invisible_no_dispatch:
  assumes "\<forall>e \<in> set (vdp_events provider after_seq_id [] (max (n * 64) 64)).
      transaction_summary_from_event e = None \<and> opportunity_detail_from_event provider e = None"
  shows "build_dispatch provider after_seq_id n = None"
proof -
  have "dbs_transactions b = [] \<and> dbs_features b = [] \<and> dbs_opportunities b = [] \<Longrightarrow>
      \<forall>e \<in> set es. transaction_summary_from_event e = None \<and> opportunity_detail_from_event provider e = None \<Longrightarrow>
      dbs_transactions (foldl (dispatch_event provider after_seq_id n) b es) = [] \<and>
      dbs_features (foldl (dispatch_event provider after_seq_id n) b es) = [] \<and>
      dbs_opportunities (foldl (dispatch_event provider after_seq_id n) b es) = []" for b es
    by (induction es arbitrary: b)
      (simp_all add: dispatch_event_def add_transaction_def add_opportunity_def Let_def)
  from this [of "start_build after_seq_id", OF _ assms] show ?thesis
    by (simp add: build_dispatch_def start_build_def Let_def)
qed

definition hidden_event :: "nat \<Rightarrow> event_envelope" where
  "hidden_event i = \<lparr>ee_seq_id = of_nat i, ee_ingest_ts_unix_ms = 0, ee_ingest_ts_mono_ns = 0,
     ee_source_id = SourceId ''peer-a'', ee_payload = TxFetched \<lparr>fetched_hash = 7, fetched_at_unix_ms = 0\<rparr>\<rparr>"

definition decoded_event :: "nat \<Rightarrow> event_envelope" where
  "decoded_event i = \<lparr>ee_seq_id = of_nat i, ee_ingest_ts_unix_ms = 0, ee_ingest_ts_mono_ns = 0,
     ee_source_id = SourceId ''peer-a'', ee_payload = TxDecoded (viz_decoded 7)\<rparr>"

definition log_provider :: "event_envelope list \<Rightarrow> viz_data_provider" where
  "log_provider log =
     \<lparr>vdp_events = (\<lambda>after_seq_id _ limit. take limit (filter (\<lambda>e. after_seq_id < ee_seq_id e) log)),
      vdp_latest_seq_id = Some (ee_seq_id (last log)), vdp_feature_summary = [],
      vdp_feature_details = (\<lambda>_. []), vdp_opportunities = (\<lambda>_ _. []),
      vdp_recent_transactions = (\<lambda>_. []), vdp_transaction_detail_by_hash = (\<lambda>_. None),
      vdp_market_stats = map_market_stats default_market_stats\<rparr>"

text \<open>
  The producer scans at most 1280 events per tick. When none of them is shown, it moves its cursor
  to the newest event of the store, past the ones it has not scanned: the transaction after 1280
  hidden events is never published, and no gap is reported.
\<close>

lemma producer_skips_unscanned:
  defines "log \<equiv> map hidden_event [1..<1281] @ [decoded_event 1281]"
  shows "producer_run [log_provider log, log_provider log] = (1281, empty_dashboard_stream_broadcaster)"
proof -
  let ?p = "log_provider log"
  have seq: "unat (of_nat i :: u64) = i" if "i < 1282" for i
    using that by (simp add: unat_of_nat)
  have page: "take 1280 (filter (\<lambda>e. 0 < ee_seq_id e) log) = map hidden_event [1..<1281]"
  proof -
    have "filter (\<lambda>e. 0 < ee_seq_id e) (map hidden_event [1..<1281]) = map hidden_event [1..<1281]"
      by (rule filter_True) (auto simp: hidden_event_def word_less_nat_alt seq)
    then show ?thesis by (simp add: log_def del: upt_rec_numeral)
  qed
  have "build_dispatch ?p 0 20 = None"
    by (rule invisible_no_dispatch)
      (auto simp: log_provider_def page hidden_event_def transaction_summary_from_event_def
        opportunity_detail_from_event_def simp del: upt_rec_numeral)
  moreover have last: "vdp_latest_seq_id ?p = Some 1281"
    by (simp add: log_provider_def log_def decoded_event_def del: upt_rec_numeral)
  moreover have "build_dispatch ?p 1281 20 = None"
  proof -
    have "filter (\<lambda>e. 1281 < ee_seq_id e) log = []"
      by (auto simp: log_def hidden_event_def decoded_event_def word_less_nat_alt seq simp del: upt_rec_numeral)
    then show ?thesis by (simp add: build_dispatch_def log_provider_def)
  qed
  ultimately show ?thesis
    by (simp add: producer_run_def producer_tick_def dashboard_stream_broadcast_page_limit_def)
qed

section \<open>Publishing and subscribing at the same time\<close>

text \<open>
  A publication and a subscription are three steps each, and the steps of the two interleave.
\<close>

datatype publisher = PubIdle | PubRaised broadcast_event | PubPushed broadcast_event

datatype subscriber =
    SubNew u64
  | SubCopied u64 "broadcast_event list"
  | SubRead u64 "broadcast_event list" u64
  | Subscribed "broadcast_event list" nat

record stream_machine =
  smm_broadcaster :: broadcaster
  smm_publisher :: publisher
  smm_subscriber :: subscriber

inductive stream_step :: "stream_machine \<Rightarrow> stream_machine \<Rightarrow> bool" where
  raise_step: "smm_publisher m = PubIdle \<Longrightarrow>
    stream_step m (m\<lparr>smm_broadcaster := raise_latest event (smm_broadcaster m),
      smm_publisher := PubRaised event\<rparr>)"
| push_step: "smm_publisher m = PubRaised event \<Longrightarrow>
    stream_step m (m\<lparr>smm_broadcaster := push_replay event (smm_broadcaster m),
      smm_publisher := PubPushed event\<rparr>)"
| send_step: "smm_publisher m = PubPushed event \<Longrightarrow>
    stream_step m (m\<lparr>smm_broadcaster := send_event event (smm_broadcaster m),
      smm_publisher := PubIdle\<rparr>)"
| copy_step: "smm_subscriber m = SubNew after_seq_id \<Longrightarrow>
    stream_step m (m\<lparr>smm_subscriber := SubCopied after_seq_id (sbc_replay (smm_broadcaster m))\<rparr>)"
| read_step: "smm_subscriber m = SubCopied after_seq_id snapshot \<Longrightarrow>
    stream_step m (m\<lparr>smm_subscriber :=
      SubRead after_seq_id snapshot (sbc_latest_seq_id (smm_broadcaster m))\<rparr>)"
| subscribe_step: "smm_subscriber m = SubRead after_seq_id snapshot latest \<Longrightarrow>
    stream_step m (m\<lparr>smm_subscriber := Subscribed (initial_events snapshot latest after_seq_id)
      (length (sbc_sent (smm_broadcaster m)))\<rparr>)"

text \<open>
  An event published between the copy of the buffer and the subscription reaches the subscriber
  neither way.
\<close>

lemma subscription_misses_event:
  fixes event :: broadcast_event and after_seq_id :: u64
  defines "start \<equiv> \<lparr>smm_broadcaster = empty_dashboard_stream_broadcaster, smm_publisher = PubIdle,
      smm_subscriber = SubNew after_seq_id\<rparr>"
  assumes "after_seq_id < broadcast_seq_id event"
  shows "\<exists>m. stream_step\<^sup>*\<^sup>* start m \<and> smm_publisher m = PubIdle \<and>
    smm_subscriber m = Subscribed [] 1 \<and> sbc_sent (smm_broadcaster m) = [event]"
proof -
  let ?e = empty_dashboard_stream_broadcaster
  let ?m1 = "start\<lparr>smm_subscriber := SubCopied after_seq_id []\<rparr>"
  let ?m2 = "?m1\<lparr>smm_broadcaster := raise_latest event ?e, smm_publisher := PubRaised event\<rparr>"
  let ?m3 = "?m2\<lparr>smm_broadcaster := push_replay event (raise_latest event ?e), smm_publisher := PubPushed event\<rparr>"
  let ?m4 = "?m3\<lparr>smm_broadcaster := publish_event event ?e, smm_publisher := PubIdle\<rparr>"
  let ?m5 = "?m4\<lparr>smm_subscriber := SubRead after_seq_id [] (sbc_latest_seq_id (publish_event event ?e))\<rparr>"
  let ?m6 = "?m5\<lparr>smm_subscriber := Subscribed [] 1\<rparr>"
  have e: "sbc_replay ?e = []" "sbc_sent (publish_event event ?e) = [event]"
    by (simp_all add: publish_event_def send_event_def push_replay_def raise_latest_def
        empty_dashboard_stream_broadcaster_def new_broadcaster_def)
  have "stream_step start ?m1"
    using copy_step [of start after_seq_id] by (simp add: start_def e)
  moreover have "stream_step ?m1 ?m2"
    using raise_step [of ?m1 event] by (simp add: start_def)
  moreover have "stream_step ?m2 ?m3"
    using push_step [of ?m2 event] by simp
  moreover have "stream_step ?m3 ?m4"
    using send_step [of ?m3 event] by (simp add: publish_event_def)
  moreover have "stream_step ?m4 ?m5"
    using read_step [of ?m4 after_seq_id "[]"] by simp
  moreover have "stream_step ?m5 ?m6"
    using subscribe_step [of ?m5 after_seq_id "[]" "sbc_latest_seq_id (publish_event event ?e)"]
    by (simp add: initial_events_def e)
  ultimately have "stream_step\<^sup>*\<^sup>* start ?m6"
    by (meson converse_rtranclp_into_rtranclp rtranclp.rtrancl_refl)
  moreover have "smm_publisher ?m6 = PubIdle \<and> smm_subscriber ?m6 = Subscribed [] 1 \<and>
      sbc_sent (smm_broadcaster ?m6) = [event]"
    by (simp add: e)
  ultimately show ?thesis by blast
qed

text \<open>
  A heartbeat sent during a publication carries the id of an event that is not sent yet. A client
  that reconnects with this id does not get the event.
\<close>

lemma keepalive_acknowledges_unsent:
  assumes "b = raise_latest event empty_dashboard_stream_broadcaster"
  shows "evf_id (received_frame json (IdleAt (sbc_latest_seq_id b))) = show_word (broadcast_seq_id event)"
    and "sbc_sent b = []"
    and "fst (subscribe_from (send_event event (push_replay event b)) (broadcast_seq_id event)) = []"
  using assms
  by (simp_all add: raise_latest_def empty_dashboard_stream_broadcaster_def new_broadcaster_def
      build_keepalive_frame_def subscribe_from_def send_event_def push_replay_def initial_events_def
      Let_def sat_add_mono not_less)

section \<open>A stream\<close>

definition sample_dispatch :: "nat \<Rightarrow> stream_dispatch" where
  "sample_dispatch i =
     \<lparr>svd_op = ''DISPATCH'', svd_event_type = ''DELTA_BATCH'', svd_seq = of_nat i,
      svd_channel = ''tx.main'', svd_has_gap = False,
      svd_patch = \<lparr>svp_upsert = [the (transaction_summary_from_event (decoded_event i))], svp_remove = [],
        svp_feature_upsert = [], svp_opportunity_upsert = []\<rparr>,
      svd_watermark = \<lparr>svw_latest_ingest_seq = of_nat i\<rparr>,
      svd_market_stats = map_market_stats default_market_stats\<rparr>"

lemma sample_dispatches:
  "build_dispatch (log_provider [decoded_event 5]) 0 20 = Some (sample_dispatch 5)"
  "build_dispatch (log_provider [decoded_event 5, decoded_event 6]) 5 20 = Some (sample_dispatch 6)"
  by (simp_all add: build_dispatch_def log_provider_def decoded_event_def dispatch_event_def start_build_def
      add_transaction_def add_opportunity_def transaction_summary_from_event_def
      opportunity_detail_from_event_def feature_detail_for_hash_def push_stream_summary_with_cap_def
      push_with_cap_def dispatch_of_def sample_dispatch_def sat_add_def word_le_nat_alt word_less_nat_alt Let_def)

theorem dispatch_complete_witness:
  "upserts vts_hash (svp_upsert (svd_patch (sample_dispatch 5)))
    (List.map_filter transaction_summary_from_event [decoded_event 5])"
  using dispatch_complete [OF sample_dispatches(1)]
  by (simp add: log_provider_def Let_def sample_dispatch_def decoded_event_def)

definition sample_json :: frame_json where
  "sample_json = \<lparr>fjs_dispatch = (\<lambda>_. Some []), fjs_reset = (\<lambda>_ _. []), fjs_keepalive = (\<lambda>_. [])\<rparr>"


end
