(* ===== verification/Viz_Rehydration.thy ===== *)
theory Viz_Rehydration
  imports Viz_Views Scheduler_Actor Storage_Writer Live_Rpc_Config
begin

text \<open>
  Restarting (\<^verbatim>\<open>src/crates/viz-api/src/lib.rs\<close>): the settings from the environment, the
  snapshots of the scheduler written while the program runs, and at the start the plan of the
  store, the removal of what the replayed events have settled from the snapshot, the replayed
  transactions, and the scheduler that is started from them or, if they are rejected, empty.
\<close>

section \<open>Settings\<close>

record scheduler_rehydration_config =
  src_snapshot_interval_ms :: u64
  src_snapshot_max_finality_age_ms :: u64

definition default_scheduler_snapshot_interval_ms :: u64 where
  "default_scheduler_snapshot_interval_ms = 5000"

definition default_scheduler_snapshot_max_finality_age_ms :: u64 where
  "default_scheduler_snapshot_max_finality_age_ms = 300000"

definition default_rehydration_config :: scheduler_rehydration_config where
  "default_rehydration_config =
     \<lparr>src_snapshot_interval_ms = default_scheduler_snapshot_interval_ms,
      src_snapshot_max_finality_age_ms = default_scheduler_snapshot_max_finality_age_ms\<rparr>"

definition resolve_scheduler_snapshot_interval_ms :: "string option \<Rightarrow> u64" where
  "resolve_scheduler_snapshot_interval_ms raw =
     (case Option.bind raw (\<lambda>value. parse_u64 (trim value)) of
        Some value \<Rightarrow> if value > 0 then value else default_scheduler_snapshot_interval_ms
      | None \<Rightarrow> default_scheduler_snapshot_interval_ms)"

definition resolve_scheduler_snapshot_max_finality_age_ms :: "string option \<Rightarrow> u64" where
  "resolve_scheduler_snapshot_max_finality_age_ms raw =
     (case Option.bind raw (\<lambda>value. parse_u64 (trim value)) of
        Some value \<Rightarrow> value | None \<Rightarrow> default_scheduler_snapshot_max_finality_age_ms)"

definition resolve_positive_usize :: "string option \<Rightarrow> usize \<Rightarrow> usize" where
  "resolve_positive_usize raw default_value =
     (case Option.bind raw (\<lambda>value. parse_u64 (trim value)) of
        Some value \<Rightarrow> if unat value > 0 then unat value else default_value
      | None \<Rightarrow> default_value)"

text \<open>\<^verbatim>\<open>str::parse::<u16>\<close>\<close>

definition parse_u16 :: "string \<Rightarrow> u16 option" where
  "parse_u16 s =
     Option.bind (parse_u64 s) (\<lambda>value. if unat value < 2 ^ 16 then Some (ucast value) else None)"

definition resolve_scheduler_config :: "(string \<Rightarrow> string option) \<Rightarrow> scheduler_config" where
  "resolve_scheduler_config env =
     (let defaults = default_scheduler_config
      in \<lparr>cfg_handoff_queue_capacity = resolve_positive_usize
            (env ''VIZ_API_SCHEDULER_HANDOFF_QUEUE_CAPACITY'') (cfg_handoff_queue_capacity defaults),
          cfg_max_pending_per_sender = resolve_positive_usize
            (env ''VIZ_API_SCHEDULER_MAX_PENDING_PER_SENDER'') (cfg_max_pending_per_sender defaults),
          cfg_replacement_fee_bump_bps =
            (case Option.bind (env ''VIZ_API_SCHEDULER_REPLACEMENT_FEE_BUMP_BPS'')
                (\<lambda>value. parse_u16 (trim value)) of
               Some value \<Rightarrow> value | None \<Rightarrow> cfg_replacement_fee_bump_bps defaults)\<rparr>)"

definition rehydration_config_of :: "(string \<Rightarrow> string option) \<Rightarrow> scheduler_rehydration_config" where
  "rehydration_config_of env =
     \<lparr>src_snapshot_interval_ms = resolve_scheduler_snapshot_interval_ms
        (env ''VIZ_API_SCHEDULER_SNAPSHOT_INTERVAL_MS''),
      src_snapshot_max_finality_age_ms = resolve_scheduler_snapshot_max_finality_age_ms
        (env ''VIZ_API_SCHEDULER_SNAPSHOT_MAX_FINALITY_AGE_MS'')\<rparr>"

datatype ingest_source_mode = RpcSource | P2pSource | HybridSource

fun ingest_source_str :: "ingest_source_mode \<Rightarrow> string" where
  "ingest_source_str RpcSource = ''rpc''"
| "ingest_source_str P2pSource = ''p2p''"
| "ingest_source_str HybridSource = ''hybrid''"

definition resolve_ingest_source_mode :: "string option \<Rightarrow> ingest_source_mode" where
  "resolve_ingest_source_mode env_override =
     (case map_option (\<lambda>s. to_ascii_lowercase (trim s)) env_override of
        Some mode \<Rightarrow> if mode = ''p2p'' then P2pSource else if mode = ''hybrid'' then HybridSource else RpcSource
      | None \<Rightarrow> RpcSource)"

fun runtime_ingest_mode_from_source_mode :: "ingest_source_mode \<Rightarrow> runtime_ingest_mode" where
  "runtime_ingest_mode_from_source_mode RpcSource = RpcMode"
| "runtime_ingest_mode_from_source_mode P2pSource = P2pMode"
| "runtime_ingest_mode_from_source_mode HybridSource = HybridMode"

section \<open>Writing snapshots\<close>

text \<open>
  One tick of the snapshot writer: what reserving a place in the writer's queue gives, the
  operation that is sent, and whether the task goes on.
\<close>

datatype reserve = Reserved | QueueWasFull | QueueWasClosed

definition snapshot_tick ::
  "reserve \<Rightarrow> in_memory_storage \<Rightarrow> scheduler_state \<Rightarrow> i64 \<Rightarrow> u64 \<Rightarrow> storage_write_op option \<times> bool" where
  "snapshot_tick reserve st scheduler now_unix_ms mono_ns =
     (case reserve of
        Reserved \<Rightarrow>
          let event_seq_hi = (case latest_seq_id st of Some i \<Rightarrow> i | None \<Rightarrow> 0);
              snapshot = persisted_snapshot scheduler now_unix_ms mono_ns
          in (Some (WriteSchedulerSnapshot (snapshot\<lparr>ps_event_seq_hi := event_seq_hi\<rparr>)), True)
      | QueueWasFull \<Rightarrow> (None, True)
      | QueueWasClosed \<Rightarrow> (None, False))"

section \<open>Replaying\<close>

fun settle :: "TxHash set \<Rightarrow> event_payload \<Rightarrow> TxHash set" where
  "settle removed (TxDecoded decoded) = removed - {dec_hash decoded}"
| "settle removed (TxReorged reorged) = removed - {reorged_hash reorged}"
| "settle removed (TxDropped dropped) = insert (dropped_hash dropped) removed"
| "settle removed (TxReplaced replaced) = insert (replaced_hash replaced) removed"
| "settle removed (TxConfirmedProvisional confirmed) = insert (confirmed_hash confirmed) removed"
| "settle removed (TxConfirmedFinal confirmed) = insert (confirmed_hash confirmed) removed"
| "settle removed _ = removed"

definition removed_hashes :: "event_envelope list \<Rightarrow> TxHash set" where
  "removed_hashes replay_events = foldl (\<lambda>removed event. settle removed (ee_payload event)) {} replay_events"

definition sanitize_scheduler_snapshot_for_rehydration ::
  "persisted_scheduler_snapshot \<Rightarrow> event_envelope list \<Rightarrow> persisted_scheduler_snapshot" where
  "sanitize_scheduler_snapshot_for_rehydration snapshot replay_events =
     (let removed = removed_hashes replay_events
      in if removed = {} then snapshot
         else snapshot\<lparr>
           ps_pending := filter (\<lambda>tx. vt_hash tx \<notin> removed) (ps_pending snapshot),
           ps_executable_frontier := filter (\<lambda>hash. hash \<notin> removed) (ps_executable_frontier snapshot),
           ps_sender_queues := filter (\<lambda>queue. pq_queued queue \<noteq> [])
             (map (\<lambda>queue. queue\<lparr>pq_queued := filter (\<lambda>entry. pe_hash entry \<notin> removed) (pq_queued queue)\<rparr>)
               (ps_sender_queues snapshot))\<rparr>)"

definition validated_transaction_from_storage_row ::
  "source_id \<Rightarrow> i64 \<Rightarrow> u64 \<Rightarrow> tx_full_record \<Rightarrow> validated_transaction" where
  "validated_transaction_from_storage_row source observed_at_unix_ms observed_at_mono_ns row =
     \<lparr>vt_source_id = source, vt_observed_at_unix_ms = observed_at_unix_ms,
      vt_observed_at_mono_ns = observed_at_mono_ns, vt_calldata = tfu_raw_tx row,
      vt_decoded =
        \<lparr>dec_hash = tfu_hash row, dec_tx_type = tfu_tx_type row, dec_sender = tfu_sender row,
         dec_nonce = tfu_nonce row, dec_chain_id = tfu_chain_id row, dec_to = tfu_to row,
         dec_value_wei = tfu_value_wei row, dec_gas_limit = tfu_gas_limit row,
         dec_gas_price_wei = tfu_gas_price_wei row,
         dec_max_fee_per_gas_wei = tfu_max_fee_per_gas_wei row,
         dec_max_priority_fee_per_gas_wei = tfu_max_priority_fee_per_gas_wei row,
         dec_max_fee_per_blob_gas_wei = tfu_max_fee_per_blob_gas_wei row,
         dec_calldata_len =
           (case tfu_calldata_len row of
              Some n \<Rightarrow> Some n
            | None \<Rightarrow> Some (of_nat (min (length (tfu_raw_tx row)) (2 ^ 32 - 1))))\<rparr>\<rparr>"

definition validated_transaction_from_event ::
  "event_envelope \<Rightarrow> in_memory_storage \<Rightarrow> validated_transaction option" where
  "validated_transaction_from_event event st =
     (case ee_payload event of
        TxDecoded decoded \<Rightarrow>
          Some \<lparr>vt_source_id = ee_source_id event,
            vt_observed_at_unix_ms = ee_ingest_ts_unix_ms event,
            vt_observed_at_mono_ns = ee_ingest_ts_mono_ns event,
            vt_calldata = (case tx_full_by_hash st (dec_hash decoded) of
              Some row \<Rightarrow> tfu_raw_tx row | None \<Rightarrow> []),
            vt_decoded = decoded\<rparr>
      | TxReorged reorged \<Rightarrow>
          map_option (validated_transaction_from_storage_row (ee_source_id event)
              (ee_ingest_ts_unix_ms event) (ee_ingest_ts_mono_ns event))
            (tx_full_by_hash st (reorged_hash reorged))
      | _ \<Rightarrow> None)"

section \<open>The start\<close>

text \<open>
  What the start makes of the store and the environment: the scheduler, whether it has to be
  rebuilt from the pending pool, and the settings. Started empty, the scheduler must succeed; the
  program panics if it does not.
\<close>

record runtime_bootstrap =
  rbt_config :: scheduler_config
  rbt_scheduler :: scheduler_state
  rbt_rebuild_scheduler_from_rpc :: bool
  rbt_live_rpc_config :: live_rpc_config
  rbt_scheduler_snapshot_interval_ms :: u64
  rbt_ingest_mode :: ingest_source_mode

definition bootstrap_scheduler ::
  "in_memory_storage \<Rightarrow> u64 \<Rightarrow> scheduler_config \<Rightarrow> (scheduler_config \<times> scheduler_state \<times> bool) call" where
  "bootstrap_scheduler st max_finality_age config =
     (let plan = scheduler_rehydration_plan_of st max_finality_age;
          replay_events = srp_replay_events plan;
          sanitized_snapshot = map_option
            (\<lambda>snapshot. sanitize_scheduler_snapshot_for_rehydration snapshot replay_events) (srp_snapshot plan);
          replay_transactions = List.map_filter (\<lambda>event. validated_transaction_from_event event st) replay_events
      in case scheduler_channel_with_rehydration config sanitized_snapshot replay_transactions of
           Inr (config', scheduler) \<Rightarrow> Returns (config', scheduler, srp_requires_rpc_rebuild plan)
         | Inl _ \<Rightarrow>
             (case scheduler_channel_with_rehydration config None [] of
                Inr (config', scheduler) \<Rightarrow> Returns (config', scheduler, True)
              | Inl _ \<Rightarrow> Panics))"

definition runtime_bootstrap_from_storage_and_rehydration ::
  "(string \<Rightarrow> string option) \<Rightarrow> (anyhow + live_rpc_config) \<Rightarrow> in_memory_storage
    \<Rightarrow> scheduler_rehydration_config \<Rightarrow> runtime_bootstrap call" where
  "runtime_bootstrap_from_storage_and_rehydration env live_rpc st rehydration =
     call_bind (bootstrap_scheduler st (src_snapshot_max_finality_age_ms rehydration)
         (resolve_scheduler_config env)) (\<lambda>(config, scheduler, rebuild).
       Returns \<lparr>rbt_config = config, rbt_scheduler = scheduler, rbt_rebuild_scheduler_from_rpc = rebuild,
         rbt_live_rpc_config = (case live_rpc of Inr config \<Rightarrow> config | Inl _ \<Rightarrow> default_live_rpc_config),
         rbt_scheduler_snapshot_interval_ms = src_snapshot_interval_ms rehydration,
         rbt_ingest_mode = resolve_ingest_source_mode (env ''VIZ_API_INGEST_MODE'')\<rparr>)"

definition runtime_bootstrap_from_storage ::
  "(string \<Rightarrow> string option) \<Rightarrow> (anyhow + live_rpc_config) \<Rightarrow> in_memory_storage \<Rightarrow> runtime_bootstrap call" where
  "runtime_bootstrap_from_storage env live_rpc st =
     runtime_bootstrap_from_storage_and_rehydration env live_rpc st (rehydration_config_of env)"

section \<open>Replay metrics\<close>

record replay_runtime_metrics =
  rrm_lag_events :: u64
  rrm_checkpoint_duration_ms :: u64
  rrm_reorg_depth :: u64

text \<open>\<open>elapsed_ns\<close> is the time of building a checkpoint; it is only read when there are events.\<close>

definition build_replay_runtime_metrics :: "nat \<Rightarrow> in_memory_storage \<Rightarrow> replay_runtime_metrics" where
  "build_replay_runtime_metrics elapsed_ns st =
     (let latest = (case latest_seq_id st of Some i \<Rightarrow> i | None \<Rightarrow> 0);
          checkpoint_seq_id = (case im_scheduler_snapshot st of Some s \<Rightarrow> ps_event_seq_hi s | None \<Rightarrow> latest);
          replay_tail = scan_events st checkpoint_seq_id (max (length (im_event_index st)) 1);
          reorgs = length (filter (\<lambda>e. case ee_payload e of TxReorged _ \<Rightarrow> True | _ \<Rightarrow> False) replay_tail)
      in \<lparr>rrm_lag_events = sat_sub latest checkpoint_seq_id,
          rrm_checkpoint_duration_ms = (if latest = 0 then 0
            else of_nat (min ((elapsed_ns + 999999) div 1000000) (2 ^ 64 - 1))),
          rrm_reorg_depth = of_nat reorgs\<rparr>)"

section \<open>What a cleaned snapshot restores\<close>

lemma pending_fold_get:
  "distinct (map vt_hash txs) \<Longrightarrow>
    bt_get (fold (\<lambda>tx. bt_insert (vt_hash tx) tx) txs bt_empty) h = Some tx \<longleftrightarrow> tx \<in> set txs \<and> vt_hash tx = h"
  by (induction txs arbitrary: h tx rule: rev_induct) (auto simp: image_iff)

lemma retained_entries:
  "snapshot_entries (filter (\<lambda>queue. pq_queued queue \<noteq> [])
      (map (\<lambda>queue. queue\<lparr>pq_queued := filter (\<lambda>entry. pe_hash entry \<notin> R) (pq_queued queue)\<rparr>) qs)) =
    filter (\<lambda>x. pe_hash (snd x) \<notin> R) (snapshot_entries qs)"
  by (induction qs) (simp_all add: snapshot_entries_def filter_map comp_def)

lemma sanitize_fields:
  fixes es :: "event_envelope list"
  defines "R \<equiv> removed_hashes es"
  shows "ps_pending (sanitize_scheduler_snapshot_for_rehydration s es) =
      filter (\<lambda>tx. vt_hash tx \<notin> R) (ps_pending s)"
    and "ps_executable_frontier (sanitize_scheduler_snapshot_for_rehydration s es) =
      filter (\<lambda>hash. hash \<notin> R) (ps_executable_frontier s)"
    and "snapshot_entries (ps_sender_queues (sanitize_scheduler_snapshot_for_rehydration s es)) =
      filter (\<lambda>x. pe_hash (snd x) \<notin> R) (snapshot_entries (ps_sender_queues s))"
  by (simp_all add: sanitize_scheduler_snapshot_for_rehydration_def R_def Let_def retained_entries)

text \<open>The queues of a cleaned snapshot have no empty one.\<close>

lemma sanitize_no_empty_queue:
  assumes "\<forall>q \<in> set (ps_sender_queues s). pq_queued q \<noteq> []"
    and "snapshot_entries (ps_sender_queues (sanitize_scheduler_snapshot_for_rehydration s es)) = []"
  shows "ps_sender_queues (sanitize_scheduler_snapshot_for_rehydration s es) = []"
proof -
  let ?qs = "ps_sender_queues (sanitize_scheduler_snapshot_for_rehydration s es)"
  have "\<forall>q \<in> set ?qs. pq_queued q \<noteq> []"
    using assms(1) by (simp add: sanitize_scheduler_snapshot_for_rehydration_def Let_def)
  then show ?thesis
    using assms(2) by (cases ?qs) (auto simp: snapshot_entries_def)
qed


text \<open>
  A valid snapshot is rejected as a whole when a transaction before a nonce gap is confirmed: what
  is behind the gap becomes executable, and the frontier of another sender differs from it.
\<close>

lemma valid_snapshot_rejected:
  "(let st = snd (run_commands default_scheduler_config default_scheduler_state
        [Admit (legacy_tx 1 7 3 5), Admit (legacy_tx 2 7 5 5), Admit (legacy_tx 3 8 1 5)]);
      confirmed = \<lparr>ee_seq_id = 9, ee_ingest_ts_unix_ms = 0, ee_ingest_ts_mono_ns = 0,
        ee_source_id = SourceId ''rpc-live'', ee_payload = TxConfirmedFinal \<lparr>confirmed_hash = 1,
          confirmed_block_number = 4, confirmed_block_hash = 0\<rparr>\<rparr>
    in from_persisted_snapshot (sanitize_scheduler_snapshot_for_rehydration
        (persisted_snapshot st 0 0) [confirmed])) = Inl ExecutableFrontierMismatch"
  by code_simp

text \<open>
  The replayed transactions are not cleaned: one that is decoded and then confirmed in the replayed
  events is admitted again.
\<close>

lemma replay_readmits_settled:
  assumes "ee_payload e = TxDecoded decoded" and "ee_payload e' = TxConfirmedFinal confirmed"
    and "confirmed_hash confirmed = dec_hash decoded"
  shows "dec_hash decoded \<in> removed_hashes [e, e']"
    and "map vt_hash (List.map_filter (\<lambda>event. validated_transaction_from_event event st) [e, e']) =
      [dec_hash decoded]"
  using assms by (simp_all add: removed_hashes_def validated_transaction_from_event_def vt_hash_def
      List.map_filter_simps)

section \<open>The start succeeds\<close>

lemma resolve_positive: "0 < default_value \<Longrightarrow> 0 < resolve_positive_usize raw default_value"
  by (auto simp: resolve_positive_usize_def split: option.splits)

lemma resolved_config_valid:
  "validate_config (resolve_scheduler_config env) = Inr (resolve_scheduler_config env)"
proof -
  have "0 < resolve_positive_usize raw (cfg_handoff_queue_capacity default_scheduler_config)"
      "0 < resolve_positive_usize raw (cfg_max_pending_per_sender default_scheduler_config)" for raw
    by (rule resolve_positive, simp add: default_scheduler_config_def)+
  then show ?thesis by (simp add: validate_config_def resolve_scheduler_config_def Let_def)
qed


end
