(* ===== verification/Viz_Routes.thy ===== *)
theory Viz_Routes
  imports Viz_Views Builder_Relay
begin

text \<open>
  The routes of the HTTP server (\<^verbatim>\<open>src/crates/viz-api/src/lib.rs\<close>) and its
  authentication (\<^verbatim>\<open>auth.rs\<close>): keys, the token bucket of each key, the limits of the
  list routes, the replay of a range, which reads the events page by page, and the lookup of a
  bundle or a simulation. Parsing of requests and rendering of answers as JSON are not modelled;
  the operations of \<^verbatim>\<open>f64\<close> are a parameter.
\<close>

section \<open>Answers\<close>

datatype 'a reply = Answer 'a | BadRequest | NotFound | Unauthorized | TooManyRequests

section \<open>Keys\<close>

record api_auth_config =
  aac_enabled :: bool
  aac_api_keys :: "string set"
  aac_requests_per_minute :: u32

definition default_api_auth_config :: api_auth_config where
  "default_api_auth_config =
     \<lparr>aac_enabled = False, aac_api_keys = {}, aac_requests_per_minute = 600\<rparr>"

definition parse_env_bool :: "string \<Rightarrow> bool" where
  "parse_env_bool raw \<longleftrightarrow> to_ascii_lowercase raw \<in> {''1'', ''true'', ''yes'', ''on''}"

text \<open>\<^verbatim>\<open>str::split\<close> at a character, and \<^verbatim>\<open>str::parse::<u32>\<close>\<close>

fun split_at :: "char \<Rightarrow> string \<Rightarrow> string list" where
  "split_at sep [] = [[]]"
| "split_at sep (c # cs) =
     (if c = sep then [] # split_at sep cs
      else case split_at sep cs of [] \<Rightarrow> [[c]] | part # parts \<Rightarrow> (c # part) # parts)"

definition parse_u32 :: "string \<Rightarrow> u32 option" where
  "parse_u32 s =
     Option.bind (parse_u64 s) (\<lambda>value. if unat value < 2 ^ 32 then Some (ucast value) else None)"

definition auth_from_env :: "(string \<Rightarrow> string option) \<Rightarrow> api_auth_config" where
  "auth_from_env env =
     \<lparr>aac_enabled = (case env ''VIZ_API_AUTH_ENABLED'' of
        Some value \<Rightarrow> parse_env_bool (trim value) | None \<Rightarrow> False),
      aac_api_keys = (case env ''VIZ_API_API_KEYS'' of
        Some value \<Rightarrow> set (filter (\<lambda>key. key \<noteq> []) (map trim (split_at (CHR '','') value))) | None \<Rightarrow> {}),
      aac_requests_per_minute =
        (case Option.bind (env ''VIZ_API_RATE_LIMIT_PER_MINUTE'') (\<lambda>value. parse_u32 (trim value)) of
           Some value \<Rightarrow> if value > 0 then value else 600
         | None \<Rightarrow> 600)\<rparr>"

definition validates_key :: "api_auth_config \<Rightarrow> string \<Rightarrow> bool" where
  "validates_key config key \<longleftrightarrow> \<not> aac_enabled config \<or> key \<in> aac_api_keys config"

section \<open>The rate limiter\<close>

text \<open>The operations of \<^verbatim>\<open>f64\<close>, and the seconds of a duration in nanoseconds.\<close>

record 'f f64_ops =
  f64_of_u32 :: "u32 \<Rightarrow> 'f"
  f64_as_secs :: "nat \<Rightarrow> 'f"
  f64_add :: "'f \<Rightarrow> 'f \<Rightarrow> 'f"
  f64_sub :: "'f \<Rightarrow> 'f \<Rightarrow> 'f"
  f64_mul :: "'f \<Rightarrow> 'f \<Rightarrow> 'f"
  f64_div :: "'f \<Rightarrow> 'f \<Rightarrow> 'f"
  f64_min :: "'f \<Rightarrow> 'f \<Rightarrow> 'f"
  f64_less :: "'f \<Rightarrow> 'f \<Rightarrow> bool"

record 'f token_bucket =
  tkb_tokens :: 'f
  tkb_last_refill :: nat

record 'f api_rate_limiter =
  arl_capacity :: 'f
  arl_refill_per_sec :: 'f
  arl_buckets :: "(string, 'f token_bucket) btree_map"

definition new_rate_limiter :: "'f f64_ops \<Rightarrow> u32 \<Rightarrow> 'f api_rate_limiter" where
  "new_rate_limiter ops requests_per_minute =
     (let capacity = f64_of_u32 ops (max requests_per_minute 1)
      in \<lparr>arl_capacity = capacity, arl_refill_per_sec = f64_div ops capacity (f64_of_u32 ops 60),
          arl_buckets = bt_empty\<rparr>)"

text \<open>
  \<open>now\<close> is the instant in nanoseconds; \<^verbatim>\<open>duration_since\<close> saturates at zero.
\<close>

definition allow_request ::
  "'f f64_ops \<Rightarrow> 'f api_rate_limiter \<Rightarrow> nat \<Rightarrow> string \<Rightarrow> bool \<times> 'f api_rate_limiter" where
  "allow_request ops limiter now key =
     (let held = (case bt_get (arl_buckets limiter) key of
            Some held \<Rightarrow> held
          | None \<Rightarrow> \<lparr>tkb_tokens = arl_capacity limiter, tkb_last_refill = now\<rparr>);
          elapsed = f64_as_secs ops (now - tkb_last_refill held);
          replenished = f64_min ops
            (f64_add ops (tkb_tokens held) (f64_mul ops elapsed (arl_refill_per_sec limiter)))
            (arl_capacity limiter);
          one = f64_of_u32 ops 1;
          exhausted = f64_less ops replenished one;
          tokens = (if exhausted then replenished else f64_sub ops replenished one)
      in (\<not> exhausted, limiter\<lparr>arl_buckets :=
            bt_insert key \<lparr>tkb_tokens = tokens, tkb_last_refill = now\<rparr> (arl_buckets limiter)\<rparr>))"

text \<open>The key of a request: the header, if it is text, without surrounding spaces.\<close>

definition presented_key :: "string option \<Rightarrow> string option" where
  "presented_key header =
     (case map_option trim header of Some key \<Rightarrow> if key = [] then None else Some key | None \<Rightarrow> None)"

definition require_api_key ::
  "'f f64_ops \<Rightarrow> api_auth_config \<Rightarrow> 'f api_rate_limiter \<Rightarrow> nat \<Rightarrow> string option
    \<Rightarrow> unit reply \<times> 'f api_rate_limiter" where
  "require_api_key ops config limiter now header =
     (if \<not> aac_enabled config then (Answer (), limiter)
      else case presented_key header of
             None \<Rightarrow> (Unauthorized, limiter)
           | Some api_key \<Rightarrow>
               if \<not> validates_key config api_key then (Unauthorized, limiter)
               else let (allowed, limiter) = allow_request ops limiter now api_key
                    in (if allowed then Answer () else TooManyRequests, limiter))"

section \<open>Lists\<close>

definition clamp :: "nat \<Rightarrow> nat \<Rightarrow> nat \<Rightarrow> nat" where
  "clamp value low high = (if value < low then low else if value > high then high else value)"

definition limit_of :: "usize option \<Rightarrow> usize \<Rightarrow> usize \<Rightarrow> usize" where
  "limit_of limit default_limit high = clamp (case limit of Some n \<Rightarrow> n | None \<Rightarrow> default_limit) 1 high"

definition parse_event_type_filters :: "string option \<Rightarrow> string list" where
  "parse_event_type_filters raw =
     remdups_adj (sort (map to_ascii_lowercase (filter (\<lambda>value. value \<noteq> [])
       (map trim (split_at (CHR '','') (case raw of Some s \<Rightarrow> s | None \<Rightarrow> []))))))"

record events_query =
  evq_after :: "u64 option"
  evq_types :: "string option"
  evq_limit :: "usize option"

definition events_route :: "viz_data_provider \<Rightarrow> events_query \<Rightarrow> event_envelope list" where
  "events_route provider query =
     vdp_events provider (case evq_after query of Some i \<Rightarrow> i | None \<Rightarrow> 0)
       (parse_event_type_filters (evq_types query)) (limit_of (evq_limit query) 1000 5000)"

record transactions_query =
  txq_limit :: "usize option"
  txq_min_score :: "u32 option"
  txq_status :: "string option"
  txq_chain_id :: "u64 option"

definition features_recent_route :: "viz_data_provider \<Rightarrow> transactions_query \<Rightarrow> feature_detail list" where
  "features_recent_route provider query =
     (let limit = limit_of (txq_limit query) 100 5000; chain_id = txq_chain_id query
      in filter_feature_details_by_chain
           (vdp_feature_details provider (chain_filter_scan_limit limit chain_id)) chain_id limit)"

definition filter_transaction_summaries_by_chain ::
  "viz_data_provider \<Rightarrow> transaction_summary list \<Rightarrow> u64 option \<Rightarrow> usize \<Rightarrow> transaction_summary list" where
  "filter_transaction_summaries_by_chain provider values chain_id limit =
     take limit (filter (\<lambda>row. chain_id = None \<or>
         (case vdp_transaction_detail_by_hash provider (vts_hash row) of
            Some detail \<Rightarrow> chain_matches_filter (vtd_chain_id detail) chain_id
          | None \<Rightarrow> False)) values)"

definition transactions_route :: "viz_data_provider \<Rightarrow> transactions_query \<Rightarrow> transaction_summary list" where
  "transactions_route provider query =
     (let limit = limit_of (txq_limit query) 25 200; chain_id = txq_chain_id query
      in filter_transaction_summaries_by_chain provider
           (vdp_recent_transactions provider (chain_filter_scan_limit limit chain_id)) chain_id limit)"

definition filtered_opportunities :: "viz_data_provider \<Rightarrow> transactions_query \<Rightarrow> opportunity_detail list" where
  "filtered_opportunities provider query =
     (let limit = limit_of (txq_limit query) 100 5000;
          min_score = (case txq_min_score query of Some n \<Rightarrow> n | None \<Rightarrow> 0);
          chain_id = txq_chain_id query;
          values = vdp_opportunities provider (chain_filter_scan_limit limit chain_id) min_score;
          kept = (case presented_key (txq_status query) of
              Some status \<Rightarrow> filter (\<lambda>row. eq_ignore_ascii_case (vod_status row) status) values
            | None \<Rightarrow> values)
      in filter_opportunities_by_chain kept chain_id limit)"

definition transactions_all_route :: "in_memory_storage \<Rightarrow> transactions_query \<Rightarrow> transaction_detail list" where
  "transactions_all_route st query =
     (let limit = limit_of (txq_limit query) 1000 5000; chain_id = txq_chain_id query
      in filter_transaction_details_by_chain
           (transaction_details st (chain_filter_scan_limit limit chain_id)) chain_id limit)"

definition transaction_by_hash_route :: "in_memory_storage \<Rightarrow> string \<Rightarrow> transaction_detail reply call" where
  "transaction_by_hash_route st hash =
     call_bind (transaction_detail_by_hash st hash) (\<lambda>detail.
       Returns (case detail of Some d \<Rightarrow> Answer d | None \<Rightarrow> NotFound))"

record dashboard_snapshot_query =
  dsq_tx_limit :: "usize option"
  dsq_feature_limit :: "usize option"
  dsq_opp_limit :: "usize option"
  dsq_min_score :: "u32 option"
  dsq_chain_id :: "u64 option"

definition dashboard_snapshot_route ::
  "in_memory_storage \<Rightarrow> usize \<Rightarrow> live_rpc_chain_status list \<Rightarrow> dashboard_snapshot_query
    \<Rightarrow> dashboard_snapshot" where
  "dashboard_snapshot_route st downsample_limit statuses query =
     (dashboard_snapshot_v2 st (limit_of (dsq_tx_limit query) 250 500)
        (limit_of (dsq_feature_limit query) 600 2000) (limit_of (dsq_opp_limit query) 600 2000)
        (clamp downsample_limit 1 5000) (case dsq_min_score query of Some n \<Rightarrow> n | None \<Rightarrow> 0)
        (dsq_chain_id query))\<lparr>vds_chain_ingest_status := statuses\<rparr>"

definition propagation_route :: "viz_provider \<Rightarrow> usize \<Rightarrow> propagation_edge list" where
  "propagation_route provider downsample_limit = downsample (propagation_edges provider) downsample_limit"

definition features_route :: "viz_data_provider \<Rightarrow> usize \<Rightarrow> feature_summary list" where
  "features_route provider downsample_limit = downsample (vdp_feature_summary provider) downsample_limit"

definition alerts_evaluate_route ::
  "(u64 \<Rightarrow> u64 \<Rightarrow> u8) \<Rightarrow> in_memory_storage \<Rightarrow> alert_threshold_config \<Rightarrow> alert_decisions" where
  "alerts_evaluate_route coverage_f64 st thresholds =
     evaluate_alerts coverage_f64 (provider_metric_snapshot st) thresholds"

section \<open>Bundles and simulations\<close>

record bundle_detail =
  bnd_id :: string
  bnd_relay_url :: string
  bnd_accepted :: bool
  bnd_final_state :: string
  bnd_attempt_count :: usize
  bnd_started_unix_ms :: i64
  bnd_finished_unix_ms :: i64

record sim_detail =
  smd_id :: string
  smd_bundle_id :: string
  smd_status :: string
  smd_relay_url :: string
  smd_attempt_count :: usize
  smd_accepted :: bool
  smd_fail_category :: "string option"
  smd_started_unix_ms :: i64
  smd_finished_unix_ms :: i64

definition id_for_result :: "string \<Rightarrow> relay_dry_run_result \<Rightarrow> string" where
  "id_for_result prefix result =
     prefix @ show_int (rr_started_unix_ms result) @ ''-'' @ show_int (rr_finished_unix_ms result) @
     ''-'' @ dec_string (length (rr_attempts result))"

definition bundle_id_for_result :: "relay_dry_run_result \<Rightarrow> string" where
  "bundle_id_for_result result = id_for_result ''bundle-'' result"

definition sim_id_for_result :: "relay_dry_run_result \<Rightarrow> string" where
  "sim_id_for_result result = id_for_result ''sim-'' result"

definition bundle_by_id :: "relay_dry_run_status \<Rightarrow> string \<Rightarrow> bundle_detail reply" where
  "bundle_by_id relay key =
     (case rs_latest relay of
        None \<Rightarrow> NotFound
      | Some latest \<Rightarrow>
          let bundle_id = bundle_id_for_result latest
          in if key \<noteq> ''latest'' \<and> key \<noteq> bundle_id then NotFound
             else Answer \<lparr>bnd_id = bundle_id, bnd_relay_url = rr_relay_url latest,
               bnd_accepted = rr_accepted latest, bnd_final_state = rr_final_state latest,
               bnd_attempt_count = length (rr_attempts latest),
               bnd_started_unix_ms = rr_started_unix_ms latest,
               bnd_finished_unix_ms = rr_finished_unix_ms latest\<rparr>)"

definition sim_by_id ::
  "(string \<Rightarrow> simulation_status_snapshot option) \<Rightarrow> relay_dry_run_status \<Rightarrow> string \<Rightarrow> sim_detail reply" where
  "sim_by_id status_by_id relay key =
     (case status_by_id key of
        Some status \<Rightarrow>
          Answer \<lparr>smd_id = sss_id status, smd_bundle_id = sss_bundle_id status,
            smd_status = sss_status status, smd_relay_url = sss_relay_url status,
            smd_attempt_count = sss_attempt_count status, smd_accepted = sss_accepted status,
            smd_fail_category = sss_fail_category status,
            smd_started_unix_ms = sss_started_unix_ms status,
            smd_finished_unix_ms = sss_finished_unix_ms status\<rparr>
      | None \<Rightarrow>
          (case rs_latest relay of
             None \<Rightarrow> NotFound
           | Some latest \<Rightarrow>
               let bundle_id = bundle_id_for_result latest; sim_id = sim_id_for_result latest
               in if key \<noteq> ''latest'' \<and> key \<noteq> sim_id then NotFound
                  else Answer \<lparr>smd_id = sim_id, smd_bundle_id = bundle_id,
                    smd_status = (if rr_accepted latest then ''ok'' else ''fail''),
                    smd_relay_url = rr_relay_url latest,
                    smd_attempt_count = length (rr_attempts latest), smd_accepted = rr_accepted latest,
                    smd_fail_category = (if rr_accepted latest then None else Some ''relay_exhausted''),
                    smd_started_unix_ms = rr_started_unix_ms latest,
                    smd_finished_unix_ms = rr_finished_unix_ms latest\<rparr>))"

section \<open>The replay of a range\<close>

text \<open>
  The pages of events up to an id. The state of the loop over a page is the cursor, whether it
  has moved, and the events kept; the last component tells that the function returns.
\<close>

fun collect_page ::
  "u64 \<Rightarrow> u64 \<Rightarrow> bool \<Rightarrow> event_envelope list \<Rightarrow> event_envelope list
    \<Rightarrow> u64 \<times> bool \<times> event_envelope list \<times> bool" where
  "collect_page to_seq_id after_seq_id progressed out [] = (after_seq_id, progressed, out, False)"
| "collect_page to_seq_id after_seq_id progressed out (event # page) =
     (let seq_id = ee_seq_id event
      in if seq_id \<le> after_seq_id then collect_page to_seq_id after_seq_id progressed out page
         else let out = (if seq_id \<le> to_seq_id then out @ [event] else out)
              in if seq_id \<ge> to_seq_id then (seq_id, True, out, True)
                 else collect_page to_seq_id seq_id True out page)"

lemma collect_page_cursor:
  "collect_page to after progressed out page = (after', progressed', out', finished) \<Longrightarrow>
    after \<le> after' \<and> (progressed' \<longrightarrow> progressed \<or> after < after')"
proof (induction page arbitrary: after progressed out)
  case (Cons event page)
  show ?case
  proof (cases "ee_seq_id event \<le> after")
    case True
    then show ?thesis using Cons.IH [of after progressed out] Cons.prems by simp
  next
    case False
    then have "after < ee_seq_id event" by simp
    moreover have "ee_seq_id event \<le> after'"
      using Cons.prems Cons.IH False by (auto simp: Let_def split: if_splits)
    ultimately show ?thesis by (meson order.strict_trans2 less_imp_le)
  qed
qed simp

lemma collect_page_measure:
  assumes "(after', progressed, out', finished) = collect_page to after False out page" and progressed
  shows "2 ^ 64 - unat after' < 2 ^ 64 - unat after"
proof -
  have "after < after'" using assms collect_page_cursor by metis
  then show ?thesis using unat_le_max [of after'] by (simp add: word_less_nat_alt)
qed

definition page_size :: usize where
  "page_size = 2000"

definition max_scan_events :: usize where
  "max_scan_events = 200000"

function collect_loop ::
  "viz_data_provider \<Rightarrow> u64 \<Rightarrow> u64 \<Rightarrow> event_envelope list \<Rightarrow> event_envelope list" where
  "collect_loop provider to_seq_id after_seq_id out =
     (if length out \<ge> max_scan_events then out
      else
        let page = vdp_events provider after_seq_id [] page_size
        in if page = [] then out
           else case collect_page to_seq_id after_seq_id False out page of
                  (after_seq_id, progressed, out, finished) \<Rightarrow>
                    if finished \<or> \<not> progressed then out
                    else collect_loop provider to_seq_id after_seq_id out)"
  by pat_completeness auto

termination
  by (relation "measure (\<lambda>(_, _, after_seq_id, _). 2 ^ 64 - unat after_seq_id)")
    (simp, simp only: in_measure prod.case de_Morgan_disj not_not, blast intro: collect_page_measure)

declare collect_loop.simps [simp del]

definition collect_events_up_to_seq :: "viz_data_provider \<Rightarrow> u64 \<Rightarrow> event_envelope list" where
  "collect_events_up_to_seq provider to_seq_id = collect_loop provider to_seq_id 0 []"

record replay_range_diff_summary =
  rrd_from_pending_count :: usize
  rrd_to_pending_count :: usize
  rrd_added_pending_count :: usize
  rrd_removed_pending_count :: usize
  rrd_added_pending :: "string list"
  rrd_removed_pending :: "string list"

record replay_range_response =
  rrr_from_seq_id :: u64
  rrr_to_seq_id :: u64
  rrr_from_checkpoint_hash :: string
  rrr_to_checkpoint_hash :: string
  rrr_summary :: replay_range_diff_summary
  rrr_frames :: "replay_point list"

record replay_query =
  rpq_from :: "u64 option"
  rpq_to :: "u64 option"
  rpq_stride :: "usize option"

datatype replay_body = ReplayPoints "replay_point list" | ReplayRange replay_range_response

definition replay_point_of :: "replay_frame \<Rightarrow> replay_point" where
  "replay_point_of frame =
     \<lparr>vrp_seq_hi = rf_seq_hi frame, vrp_timestamp_unix_ms = rf_timestamp_unix_ms frame,
      vrp_pending_count = of_nat (length (rf_pending frame))\<rparr>"

definition range_response :: "replay_diff_summary \<Rightarrow> replay_point list \<Rightarrow> replay_range_response" where
  "range_response summary frames =
     \<lparr>rrr_from_seq_id = rds_from_seq_id summary, rrr_to_seq_id = rds_to_seq_id summary,
      rrr_from_checkpoint_hash = format_fixed_hex (rds_from_checkpoint_hash summary),
      rrr_to_checkpoint_hash = format_fixed_hex (rds_to_checkpoint_hash summary),
      rrr_summary =
        \<lparr>rrd_from_pending_count = rds_from_pending_count summary,
         rrd_to_pending_count = rds_to_pending_count summary,
         rrd_added_pending_count = length (rds_added_pending summary),
         rrd_removed_pending_count = length (rds_removed_pending summary),
         rrd_added_pending = map (\<lambda>h. hash_text h) (rds_added_pending summary),
         rrd_removed_pending = map (\<lambda>h. hash_text h) (rds_removed_pending summary)\<rparr>,
      rrr_frames = frames\<rparr>"

text \<open>The body of the route from the ordered bounds on.\<close>

definition replay_range ::
  "(u8 list \<Rightarrow> u8 list) \<Rightarrow> viz_data_provider \<Rightarrow> u64 \<Rightarrow> u64 \<Rightarrow> usize option \<Rightarrow> replay_body reply" where
  "replay_range sha256 provider from_seq_id to_seq_id stride =
     (let events = collect_events_up_to_seq provider to_seq_id
      in case replay_diff_summary_of sha256 events from_seq_id to_seq_id of
           None \<Rightarrow> NotFound
         | Some summary \<Rightarrow>
             (case lifecycle_snapshot events from_seq_id of
                None \<Rightarrow> NotFound
              | Some checkpoint \<Rightarrow>
                  let stride = clamp (case stride of Some n \<Rightarrow> n | None \<Rightarrow> 1) 1 5000;
                      frames = map replay_point_of (filter (\<lambda>frame. rf_seq_hi frame \<le> to_seq_id)
                        (replay_from_checkpoint events checkpoint stride))
                  in Answer (ReplayRange (range_response summary frames))))"

definition replay_route ::
  "(u8 list \<Rightarrow> u8 list) \<Rightarrow> viz_data_provider \<Rightarrow> replay_point list \<Rightarrow> usize \<Rightarrow> replay_query
    \<Rightarrow> replay_body reply" where
  "replay_route sha256 provider replay_points downsample_limit query =
     (case (rpq_from query, rpq_to query) of
        (Some from_seq_id, Some to_seq_id) \<Rightarrow>
          if from_seq_id \<le> to_seq_id
          then replay_range sha256 provider from_seq_id to_seq_id (rpq_stride query)
          else replay_range sha256 provider to_seq_id from_seq_id (rpq_stride query)
      | (None, None) \<Rightarrow> Answer (ReplayPoints (downsample replay_points downsample_limit))
      | _ \<Rightarrow> BadRequest)"


section \<open>Paging collects a prefix\<close>

lemma filter_sorted_split:
  fixes k :: "'a \<Rightarrow> 'k::linorder"
  assumes "sorted (map k xs)"
  shows "filter (\<lambda>x. k x \<le> c) xs @ filter (\<lambda>x. c < k x) xs = xs"
  using assms
proof (induction xs)
  case (Cons x xs)
  show ?case
  proof (cases "k x \<le> c")
    case False
    then have "filter (\<lambda>y. k y \<le> c) xs = []" and "filter (\<lambda>y. c < k y) xs = xs"
      using Cons.prems by (fastforce simp: filter_empty_conv filter_id_conv)+
    then show ?thesis using False by simp
  qed (use Cons in \<open>simp add: not_less\<close>)
qed simp

lemma collect_page_finishes:
  assumes "sorted_wrt (<) (map ee_seq_id page)" and "\<forall>e \<in> set page. after < ee_seq_id e"
    and "\<exists>e \<in> set page. to \<le> ee_seq_id e"
  shows "\<exists>a. collect_page to after p out page = (a, True, out @ filter (\<lambda>e. ee_seq_id e \<le> to) page, True)"
  using assms
proof (induction page arbitrary: after p out)
  case (Cons e page)
  have step: "\<not> ee_seq_id e \<le> after" using Cons.prems(2) by (simp add: not_le)
  show ?case
  proof (cases "to \<le> ee_seq_id e")
    case True
    then have "\<forall>x \<in> set page. \<not> ee_seq_id x \<le> to" using Cons.prems(1) by fastforce
    then show ?thesis using True step by (simp add: Let_def filter_empty_conv)
  next
    case False
    then show ?thesis
      using Cons.IH [of "ee_seq_id e" True "out @ [e]"] Cons.prems step by (auto simp: Let_def)
  qed
qed simp

lemma collect_page_continues:
  assumes "sorted_wrt (<) (map ee_seq_id page)" and "\<forall>e \<in> set page. after < ee_seq_id e"
    and "\<forall>e \<in> set page. ee_seq_id e < to"
  shows "collect_page to after p out page =
    (last (after # map ee_seq_id page), p \<or> page \<noteq> [], out @ page, False)"
  using assms
proof (induction page arbitrary: after p out)
  case (Cons e page)
  then have "\<not> ee_seq_id e \<le> after" "ee_seq_id e \<le> to" "\<not> to \<le> ee_seq_id e" by (auto simp: not_le)
  then show ?case
    using Cons.IH [of "ee_seq_id e" True "out @ [e]"] Cons.prems by (simp add: Let_def)
qed simp

text \<open>
  The pages of a provider that lists \<open>log\<close>: either a page is full, and then the events kept
  are a multiple of the page size, or the log ends.
\<close>

lemma collect_loop_prefix:
  assumes log: "sorted_wrt (<) (map ee_seq_id log)"
    and pages: "\<And>a. vdp_events provider a [] page_size = take page_size (filter (\<lambda>e. a < ee_seq_id e) log)"
    and aligned: "filter (\<lambda>e. after < ee_seq_id e) log \<noteq> [] \<Longrightarrow> length out = page_size * k"
  shows "collect_loop provider to after out = out @ take (max_scan_events - length out)
    (filter (\<lambda>e. ee_seq_id e \<le> to) (filter (\<lambda>e. after < ee_seq_id e) log))"
  using aligned
proof (induction "length (filter (\<lambda>e. after < ee_seq_id e) log)" arbitrary: after out k rule: less_induct)
  case less
  define K page where "K = filter (\<lambda>e. after < ee_seq_id e) log" and "page = take page_size K"
  have sorted: "sorted_wrt (<) (map ee_seq_id page)"
    using log by (simp add: page_def K_def sorted_wrt_map sorted_wrt_take sorted_wrt_filter)
  have above: "\<forall>e \<in> set page. after < ee_seq_id e" by (auto simp: page_def K_def dest: in_set_takeD)
  have K: "K = page @ drop page_size K" by (simp add: page_def)
  have events: "vdp_events provider after [] page_size = page" by (simp add: pages page_def K_def)
  have step: "collect_loop provider to after out =
      (if length out \<ge> max_scan_events then out else if page = [] then out
       else case collect_page to after False out page of
              (a, progressed, out, finished) \<Rightarrow>
                if finished \<or> \<not> progressed then out else collect_loop provider to a out)"
    by (subst collect_loop.simps) (simp only: events Let_def)
  consider "length out \<ge> max_scan_events" | "K = []" | "length out < max_scan_events" "K \<noteq> []"
    by linarith
  then show ?case
  proof cases
    case 1
    then show ?thesis by (simp add: step)
  next
    case 2
    then show ?thesis by (simp add: step page_def K_def [symmetric])
  next
    case 3
    then have ne: "page \<noteq> []" by (simp add: page_def page_size_def)
    have "length out = page_size * k" using less.prems 3 by (simp add: K_def)
    then have room: "page_size \<le> max_scan_events - length out"
      using 3(1) by (simp add: page_size_def max_scan_events_def)
    have short: "length page \<le> page_size" by (simp add: page_def)
    show ?thesis
    proof (cases "\<exists>e \<in> set page. to \<le> ee_seq_id e")
      case True
      then obtain e where e: "e \<in> set page" "to \<le> ee_seq_id e" by blast
      obtain a where a: "collect_page to after False out page =
          (a, True, out @ filter (\<lambda>e. ee_seq_id e \<le> to) page, True)"
        using collect_page_finishes [OF sorted above True] by blast
      have "sorted_wrt (<) (map ee_seq_id K)"
        using log by (simp add: K_def sorted_wrt_map sorted_wrt_filter)
      then have "sorted_wrt (<) (map ee_seq_id (page @ drop page_size K))"
        by (simp only: K [symmetric])
      then have "\<forall>x \<in> set (drop page_size K). \<not> ee_seq_id x \<le> to"
        using e by (fastforce simp: sorted_wrt_append)
      then have "filter (\<lambda>e. ee_seq_id e \<le> to) K = filter (\<lambda>e. ee_seq_id e \<le> to) page"
        by (subst K) (simp add: filter_empty_conv)
      moreover have "length (filter (\<lambda>e. ee_seq_id e \<le> to) page) \<le> max_scan_events - length out"
        using room short length_filter_le [of "\<lambda>e. ee_seq_id e \<le> to" page] by linarith
      ultimately show ?thesis using 3(1) ne a by (simp add: step K_def [symmetric])
    next
      case False
      then have below: "\<forall>e \<in> set page. ee_seq_id e < to" by (simp add: not_le)
      let ?a = "ee_seq_id (last page)"
      have a: "collect_page to after False out page = (?a, True, out @ page, False)"
        using collect_page_continues [OF sorted above below] ne by (simp add: last_map)
      have rest: "filter (\<lambda>e. ?a < ee_seq_id e) log = drop page_size K"
        unfolding K_def page_def using ne log [unfolded strict_sorted_iff]
        by (intro filter_after_last) (simp_all add: page_def K_def)
      have "length (filter (\<lambda>e. ?a < ee_seq_id e) log) < length K"
        using 3(2) by (simp add: rest page_size_def)
      moreover have "length (out @ page) = page_size * Suc k"
        if "filter (\<lambda>e. ?a < ee_seq_id e) log \<noteq> []"
        using that [unfolded rest] \<open>length out = page_size * k\<close> by (simp add: page_def)
      ultimately have "collect_loop provider to ?a (out @ page) = (out @ page) @
          take (max_scan_events - length (out @ page)) (filter (\<lambda>e. ee_seq_id e \<le> to) (drop page_size K))"
        using less.hyps [of ?a "out @ page" "Suc k"] unfolding K_def [symmetric] rest by blast
      moreover have "filter (\<lambda>e. ee_seq_id e \<le> to) K = page @ filter (\<lambda>e. ee_seq_id e \<le> to) (drop page_size K)"
        using below by (subst K) (simp add: filter_id_conv less_imp_le)
      moreover have "length page \<le> max_scan_events - length out" using room short by linarith
      ultimately show ?thesis using 3(1) ne a by (simp add: step K_def [symmetric] diff_diff_left)
    qed
  qed
qed

lemma collect_events_prefix:
  assumes "distinct (map ee_seq_id (list_events (storage_run config steps)))"
  shows "collect_events_up_to_seq (in_memory_viz (storage_run config steps)) to =
    take max_scan_events (filter (\<lambda>e. ee_seq_id e \<le> to)
      (filter (\<lambda>e. 0 < ee_seq_id e) (list_events (storage_run config steps))))"
proof -
  have "sorted_wrt (<) (map ee_seq_id (list_events (storage_run config steps)))"
    using index_seq_sorted [OF storage_events(2)] assms by (simp add: list_events_def strict_sorted_iff)
  then show ?thesis
    unfolding collect_events_up_to_seq_def
    using collect_loop_prefix [of "list_events (storage_run config steps)"
        "in_memory_viz (storage_run config steps)" 0 "[]" 0 to]
    by (simp add: in_memory_viz_def provider_events_def scan_events_filter page_size_def min_def)
qed

section \<open>The replay of a range agrees with the whole log\<close>

lemma checkpoints_below:
  assumes "sorted (map order_key log)" and "lo \<le> hi"
  shows "lifecycle_snapshot (filter (\<lambda>e. ee_seq_id e \<le> hi) log) lo = lifecycle_snapshot log lo"
proof -
  define step where "step = (\<lambda>(state, out) event. let state = fst (apply_event state event)
    in (state, if List.member [lo] (ee_seq_id event) then out @ [checkpoint_of state (ee_seq_id event)] else out))"
  have skip: "snd (foldl step (state, out) es) = out" if "\<forall>e \<in> set es. ee_seq_id e \<noteq> lo" for state out es
    using that by (induction es arbitrary: state out) (simp_all add: step_def Let_def)
  let ?below = "filter (\<lambda>e. ee_seq_id e \<le> hi) log" and ?above = "filter (\<lambda>e. hi < ee_seq_id e) log"
  have id: "sort_deterministic es = es" if "sorted (map order_key es)" for es
    using that by (simp add: sort_deterministic_key sort_key_id_if_sorted)
  have "sorted (map order_key ?below)" using assms(1) by (simp add: sorted_filter)
  moreover have "snd (foldl step (default_mempool_state, []) (?below @ ?above)) =
      snd (foldl step (default_mempool_state, []) ?below)"
  proof -
    obtain state out where "foldl step (default_mempool_state, []) ?below = (state, out)" by fastforce
    moreover have "\<forall>e \<in> set ?above. ee_seq_id e \<noteq> lo"
      using assms(2) by (auto simp flip: not_le)
    ultimately show ?thesis using skip [of ?above state out] by simp
  qed
  ultimately have "lifecycle_checkpoints log [lo] = lifecycle_checkpoints ?below [lo]"
    using id [OF assms(1)] id filter_sorted_split [OF index_seq_sorted [OF assms(1)], of hi]
    unfolding lifecycle_checkpoints_def step_def [symmetric] by simp
  then show ?thesis by (simp add: lifecycle_snapshot_def)
qed

lemma resumed_frames_below:
  assumes "f \<in> set (replay_from_checkpoint events checkpoint stride)" and "\<forall>e \<in> set events. ee_seq_id e \<le> hi"
  shows "rf_seq_hi f \<le> hi"
proof -
  let ?tail = "filter (\<lambda>e. lc_seq_id checkpoint < ee_seq_id e) (sort_deterministic events)"
  have "f \<in> set (deterministic_loop (tail_state checkpoint) ?tail (max stride 1))"
    using assms(1) by (simp add: replay_from_checkpoint_def Let_def split: if_splits)
  then obtain i where "i < length ?tail" "f = frame_of (state_at (tail_state checkpoint) ?tail i) (?tail ! i)"
    unfolding deterministic_loop_frames by auto
  moreover have "ee_seq_id e \<le> hi" if "e \<in> set ?tail" for e using that assms(2) by simp
  ultimately show ?thesis using nth_mem [of i ?tail] by (simp add: frame_of_def)
qed


section \<open>Keys do not disturb each other\<close>

definition auth_run ::
  "'f f64_ops \<Rightarrow> api_auth_config \<Rightarrow> 'f api_rate_limiter \<Rightarrow> (nat \<times> string option) list
    \<Rightarrow> unit reply list \<times> 'f api_rate_limiter" where
  "auth_run ops config limiter requests =
     foldl (\<lambda>(replies, limiter) (now, header).
         let (reply, limiter) = require_api_key ops config limiter now header
         in (replies @ [reply], limiter))
       ([], limiter) requests"

lemma allow_request_frame:
  "key' \<noteq> key \<Longrightarrow> bt_get (arl_buckets (snd (allow_request ops limiter now key))) key' =
    bt_get (arl_buckets limiter) key'"
  "arl_capacity (snd (allow_request ops limiter now key)) = arl_capacity limiter"
  "arl_refill_per_sec (snd (allow_request ops limiter now key)) = arl_refill_per_sec limiter"
  by (simp_all add: allow_request_def Let_def)

lemma allow_request_cong:
  assumes "bt_get (arl_buckets l) key = bt_get (arl_buckets l') key"
    and "arl_capacity l = arl_capacity l'" and "arl_refill_per_sec l = arl_refill_per_sec l'"
  shows "fst (allow_request ops l now key) = fst (allow_request ops l' now key)"
    and "bt_get (arl_buckets (snd (allow_request ops l now key))) key =
      bt_get (arl_buckets (snd (allow_request ops l' now key))) key"
  using assms by (cases "bt_get (arl_buckets l') key"; simp add: allow_request_def Let_def)+

text \<open>Limiters that treat a key in the same way.\<close>

definition same_for :: "string \<Rightarrow> 'f api_rate_limiter \<Rightarrow> 'f api_rate_limiter \<Rightarrow> bool" where
  "same_for key l l' \<longleftrightarrow>
     bt_get (arl_buckets l) key = bt_get (arl_buckets l') key \<and>
     arl_capacity l = arl_capacity l' \<and> arl_refill_per_sec l = arl_refill_per_sec l'"

lemma require_other_key:
  "presented_key header \<noteq> Some key \<Longrightarrow>
    same_for key (snd (require_api_key ops config l now header)) l"
  by (auto simp: require_api_key_def same_for_def allow_request_frame case_prod_unfold Let_def
      split: option.split)

lemma require_same_key:
  assumes "same_for key l l'" and "presented_key header = Some key"
  shows "fst (require_api_key ops config l now header) = fst (require_api_key ops config l' now header)"
    and "same_for key (snd (require_api_key ops config l now header)) (snd (require_api_key ops config l' now header))"
  using assms allow_request_cong [of l key l' ops now]
  by (auto simp: require_api_key_def same_for_def allow_request_frame(2,3) case_prod_unfold Let_def)

lemma auth_run_snoc:
  "auth_run ops config l (requests @ [request]) =
    (let (replies, l') = auth_run ops config l requests;
         (reply, l'') = require_api_key ops config l' (fst request) (snd request)
     in (replies @ [reply], l''))"
  by (simp add: auth_run_def case_prod_unfold Let_def)

lemma auth_run_length [simp]: "length (fst (auth_run ops config l requests)) = length requests"
  by (induction requests rule: rev_induct) (simp add: auth_run_def, simp add: auth_run_snoc case_prod_unfold Let_def)

lemma auth_run_isolated:
  fixes key :: string
  defines "about \<equiv> \<lambda>r :: nat \<times> string option. presented_key (snd r) = Some key"
  shows "map snd (filter (\<lambda>p. about (fst p)) (zip requests (fst (auth_run ops config l requests)))) =
      fst (auth_run ops config l (filter about requests)) \<and>
    same_for key (snd (auth_run ops config l requests)) (snd (auth_run ops config l (filter about requests)))"
proof (induction requests rule: rev_induct)
  case Nil
  then show ?case by (simp add: auth_run_def same_for_def)
next
  case (snoc r requests)
  note same = conjunct2 [OF snoc]
  show ?case
  proof (cases "about r")
    case True
    then have "presented_key (snd r) = Some key" by (simp add: about_def)
    note key = require_same_key [OF same this, of ops config "fst r"]
    show ?thesis
      using True snoc key by (simp add: auth_run_snoc case_prod_unfold Let_def)
  next
    case False
    then have "same_for key (snd (require_api_key ops config (snd (auth_run ops config l requests)) (fst r) (snd r)))
        (snd (auth_run ops config l requests))"
      by (intro require_other_key) (simp add: about_def)
    then show ?thesis
      using False snoc by (simp add: auth_run_snoc case_prod_unfold Let_def same_for_def)
  qed
qed

lemma require_keys:
  assumes "bt_get (arl_buckets (snd (require_api_key ops config l now header))) k \<noteq> None"
  shows "bt_get (arl_buckets l) k \<noteq> None \<or> k \<in> aac_api_keys config"
proof (cases "presented_key header = Some k")
  case True
  then show ?thesis
    using assms
    by (cases "k \<in> aac_api_keys config") (auto simp: require_api_key_def validates_key_def split: if_splits)
next
  case False
  then show ?thesis using assms require_other_key [OF False, of ops config l now] by (simp add: same_for_def)
qed

lemma auth_run_keys:
  "set (bt_keys (arl_buckets (snd (auth_run ops config (new_rate_limiter ops rate) requests)))) \<subseteq>
    aac_api_keys config"
proof (induction requests rule: rev_induct)
  case Nil
  then show ?case by (auto simp: auth_run_def new_rate_limiter_def bt_keys_set Let_def)
next
  case (snoc r requests)
  then show ?case
    using require_keys by (fastforce simp: auth_run_snoc case_prod_unfold Let_def bt_keys_set)
qed

text \<open>
  Property C28. The rate limits of keys do not disturb each other: among any requests, those
  that present a key are answered as if they were the only ones, whatever floating-point
  arithmetic does. A request is unauthorized exactly when it presents no valid key while
  authentication is on, and a bucket is kept for valid keys only.
\<close>

theorem rate_limits_isolated:
  "let run = auth_run ops config (new_rate_limiter ops rate); replies = fst (run requests);
      about = (\<lambda>r. presented_key (snd r) = Some key)
    in map snd (filter (\<lambda>p. about (fst p)) (zip requests replies)) = fst (run (filter about requests)) \<and>
       list_all2 (\<lambda>r reply. (reply = Unauthorized) =
         (aac_enabled config \<and> (case presented_key (snd r) of
            None \<Rightarrow> True | Some k \<Rightarrow> k \<notin> aac_api_keys config))) requests replies \<and>
       set (bt_keys (arl_buckets (snd (run requests)))) \<subseteq> aac_api_keys config"
proof -
  have reply: "(fst (require_api_key ops config l now header) = Unauthorized) =
      (aac_enabled config \<and> (case presented_key header of None \<Rightarrow> True | Some k \<Rightarrow> k \<notin> aac_api_keys config))"
    for l :: "'a api_rate_limiter" and now header
    by (simp add: require_api_key_def validates_key_def case_prod_unfold Let_def split: option.split)
  have "list_all2 (\<lambda>r reply. (reply = Unauthorized) = (aac_enabled config \<and> (case presented_key (snd r) of
      None \<Rightarrow> True | Some k \<Rightarrow> k \<notin> aac_api_keys config))) requests
      (fst (auth_run ops config l requests))" for l :: "'a api_rate_limiter"
    by (induction requests rule: rev_induct)
      (simp add: auth_run_def, simp add: auth_run_snoc case_prod_unfold Let_def reply list_all2_append)
  then show ?thesis
    unfolding Let_def using auth_run_isolated [of key requests ops config] auth_run_keys by blast
qed

section \<open>A replay\<close>

definition logged_at :: "u64 \<Rightarrow> TxHash \<Rightarrow> event_envelope" where
  "logged_at i h = \<lparr>ee_seq_id = i, ee_ingest_ts_unix_ms = 1000, ee_ingest_ts_mono_ns = 0,
     ee_source_id = SourceId ''peer-a'', ee_payload = TxDecoded (viz_decoded h)\<rparr>"

lemma mset_pair: "mset xs = {#a, b#} \<Longrightarrow> xs = [a, b] \<or> xs = [b, a]"
  by (cases xs) (auto simp: add_eq_conv_ex mset_single_iff)

lemma sample_log:
  "list_events (storage_run viz_config [AppendStep (0, 0, 0) (logged_at 3 7), AppendStep (0, 0, 0) (logged_at 4 8)]) =
    [logged_at 3 7, logged_at 4 8]"
proof -
  let ?steps = "[AppendStep (0, 0, 0) (logged_at 3 7), AppendStep (0, 0, 0) (logged_at 4 8)]"
  let ?ix = "list_events (storage_run viz_config ?steps)"
  have "mset ?ix = mset [logged_at 3 7, logged_at 4 8]"
    using storage_events(1,3) [of viz_config ?steps] by (simp add: list_events_def viz_config_def last_n_def events_of_def List.map_filter_simps)
  then have "?ix = [logged_at 3 7, logged_at 4 8] \<or> ?ix = [logged_at 4 8, logged_at 3 7]"
    by (intro mset_pair) simp
  moreover have "sorted (map ee_seq_id ?ix)"
    unfolding list_events_def by (rule index_seq_sorted [OF storage_events(2)])
  ultimately show ?thesis by (auto simp: logged_at_def)
qed


text \<open>
  More than two hundred thousand retained events are cut off without an error, so that a later
  range is answered as if it were not retained; the store retains two hundred and fifty
  thousand by default.
\<close>

lemma paging_stops_below_capacity: "max_scan_events < stc_event_capacity default_storage_config"
  by (simp add: max_scan_events_def default_storage_config_def)

end
