(* ===== verification/Spec2Isabelle.thy ===== *)
theory Spec2Isabelle
  imports Scheduler_Actor Builder_Relay Replay_Hash Replay_Candidates Storage_Writer Storage_Backfill
    Ingest_Decode Ingest_P2p Live_Rpc_Worker Live_Rpc_Tasks Live_Rpc_Session Live_Rpc_Simulation Live_Rpc_Gauges
    Viz_Stream Viz_Rehydration Viz_Routes
begin

text \<open>
  Mempulse watches the pending transactions of Ethereum chains, keeps the ones that can be
  executed, looks for opportunities among them, simulates these, assembles blocks of them, stores
  every step as an event, and shows the result on a dashboard. It is a Rust workspace
  (\<^verbatim>\<open>src/crates\<close>). This development models its crates and proves what makes them
  correct. Every definition is executable and follows the source function of the same name, with
  its guards, early returns and arithmetic; a comment in the theories names the function where the
  names differ.

  \<^bold>\<open>The parts of the program and the theories.\<close>

  \<^item> Basis. \<^verbatim>\<open>Prelude\<close> has the machine types, saturating and checked arithmetic, the
    ordered map, stable sorting, the interfaces for systems of steps, and the result types;
    \<^verbatim>\<open>Text\<close> and \<^verbatim>\<open>Hex\<close> have the text functions of the standard library
    that the sources use. \<^verbatim>\<open>Common\<close> is the crate \<^verbatim>\<open>common\<close>;
    \<^verbatim>\<open>Event_Log\<close> is \<^verbatim>\<open>event-log\<close>: every payload, the canonical order
    of events, and the sequencer.

  \<^item> The scheduler (\<^verbatim>\<open>scheduler/src/lib.rs\<close>) holds the pending transactions in one
    queue per sender. \<^verbatim>\<open>Scheduler\<close> has its state and operations,
    \<^verbatim>\<open>Scheduler_Queue\<close> the facts about queues, \<^verbatim>\<open>Scheduler_Admission\<close> the
    invariant, \<^verbatim>\<open>Scheduler_Pool\<close> the abstract pool it refines,
    \<^verbatim>\<open>Scheduler_Candidates\<close> the generations of simulation results,
    \<^verbatim>\<open>Scheduler_Frontier\<close> the executable transactions as clients see them,
    \<^verbatim>\<open>Scheduler_Rehydration\<close> snapshots, and \<^verbatim>\<open>Scheduler_Actor\<close> the bounded
    channel with the loop that serves it. The nonce-gap rule, which scheduler and replay implement
    separately, is \<^verbatim>\<open>Nonce_Gap\<close>.

  \<^item> From a transaction to a block: \<^verbatim>\<open>Feature_Engine\<close> (the crate
    \<^verbatim>\<open>feature-engine\<close>), \<^verbatim>\<open>Searcher\<close> (\<^verbatim>\<open>searcher\<close>),
    \<^verbatim>\<open>Sim_Engine\<close> (\<^verbatim>\<open>sim-engine\<close>), \<^verbatim>\<open>Builder_Assembly\<close> and
    \<^verbatim>\<open>Builder_Relay\<close> (\<^verbatim>\<open>builder/src/assembly.rs\<close>,
    \<^verbatim>\<open>relay_client.rs\<close>).

  \<^item> Storage (\<^verbatim>\<open>storage/src\<close>): \<^verbatim>\<open>Storage_Index\<close> and
    \<^verbatim>\<open>Storage_Tables\<close> have the index of events and the bounded tables,
    \<^verbatim>\<open>Storage\<close> and \<^verbatim>\<open>Storage_Facts\<close> the in-memory store,
    \<^verbatim>\<open>Storage_Wal\<close> the write-ahead log (\<^verbatim>\<open>wal.rs\<close>),
    \<^verbatim>\<open>Storage_Writer\<close> the single writer, and \<^verbatim>\<open>Storage_Backfill\<close> the
    backfill writer (\<^verbatim>\<open>backfill.rs\<close>).

  \<^item> Replay (\<^verbatim>\<open>replay/src\<close>): \<^verbatim>\<open>Replay_State\<close> and
    \<^verbatim>\<open>Replay_Invariant\<close> have the mempool state that events reconstruct
    (\<^verbatim>\<open>mempool_state.rs\<close>), \<^verbatim>\<open>Replay\<close> frames, checkpoints and
    differences (\<^verbatim>\<open>lib.rs\<close>), \<^verbatim>\<open>Replay_Hash\<close> what the digests identify, and
    \<^verbatim>\<open>Replay_Candidates\<close> the life of candidates.

  \<^item> Ingest (\<^verbatim>\<open>ingest/src\<close>): \<^verbatim>\<open>Ingest_Dedup\<close>,
    \<^verbatim>\<open>Ingest_Decode\<close>, \<^verbatim>\<open>Ingest_Rpc\<close> and \<^verbatim>\<open>Ingest_P2p\<close>.

  \<^item> The live pipeline (\<^verbatim>\<open>runtime-core/src\<close>): \<^verbatim>\<open>Runtime_State\<close> has the state
    that its tasks share, \<^verbatim>\<open>Live_Rpc_Config\<close>, \<^verbatim>\<open>Live_Rpc_Decode\<close> and
    \<^verbatim>\<open>Live_Rpc_Requests\<close> the pure functions, \<^verbatim>\<open>Live_Rpc_Worker\<close> the worker
    of a chain, \<^verbatim>\<open>Live_Rpc_Session\<close> a session over a web socket and the rebuild of the
    scheduler, \<^verbatim>\<open>Live_Rpc_Pipeline\<close> the processing of one hash, with
    \<^verbatim>\<open>Live_Rpc_Trace\<close> and \<^verbatim>\<open>Live_Rpc_Tasks\<close> on what it writes and enqueues,
    \<^verbatim>\<open>Live_Rpc_Simulation\<close> the simulation workers, and \<^verbatim>\<open>Live_Rpc_Gauges\<close>
    the gauges of their queue.

  \<^item> The dashboard (\<^verbatim>\<open>viz-api/src\<close>): \<^verbatim>\<open>Viz_Views\<close> has the read models and
    their cache, \<^verbatim>\<open>Viz_Stream\<close> the stream of updates, \<^verbatim>\<open>Viz_Routes\<close> the
    routes and the rate limits of keys, \<^verbatim>\<open>Viz_Rehydration\<close> the restart of the program.

  \<^bold>\<open>How they interact.\<close> A feed or the live pipeline hands each hash to a deduplicating cache, gets
  and decodes the transaction, and offers it to the scheduler. The scheduler answers with a verdict and
  the transactions that became ready or blocked; the pipeline writes the life of the transaction to
  the storage queue, builds opportunities and simulation requests from the executable transactions,
  registers candidates with the scheduler, and enqueues tasks. A simulation worker applies the
  outcome of a task to the scheduler, which lets a result through only for the current generation
  of a candidate, and what it lets through goes to the assembly. The writer numbers the events, logs
  them, stores them and sends them to the sink in batches. Replay reconstructs the mempool from the
  events; a restart reads the store, cleans the last snapshot, and starts the scheduler from it.
  The dashboard reads the store through a cache and publishes what changed since the last tick.

  \<^bold>\<open>Conventions.\<close> Integers of a fixed width are words and wrap, saturate or check as the source
  says; \<^verbatim>\<open>i64\<close> is \<open>int\<close> with its saturating operations, and \<^verbatim>\<open>usize\<close>
  is \<open>nat\<close>, because its values are lengths and limits. Hashes and addresses are words, with the
  bytes in big-endian order. \<^verbatim>\<open>BTreeMap\<close> is an abstract type with extensional equality,
  and a hash map is modelled by it, for no code depends on the order of a hash map where this
  matters. Strings are lists of bytes, so that slicing text that is not ASCII can panic, which is
  the value \<open>Panics\<close> of \<open>call\<close>. Errors are values of \<open>error + 'a\<close>. A lock
  makes the operations under it atomic; where a function takes several steps between which other
  tasks run, the state at each step is an argument (the \<open>surroundings\<close>), and the theorems
  hold for every choice of it, or the steps are an inductive relation over all interleavings.
  Endless loops of tasks are folds over the list of what each turn receives, so that a theorem
  about all lists is a theorem about every prefix of the run; retries and other bounded loops
  recurse with a measure, and no result depends on fuel.

  \<^bold>\<open>Parameters.\<close> Code outside the repository is an argument: \<^verbatim>\<open>serde_json\<close>, SHA-256, the
  EVM, HTTP answers, frames of a web socket, the file system's failures, clocks, the environment
  variables, and results of \<^verbatim>\<open>f64\<close> expressions. What is assumed of it is a hypothesis of the
  theorem that needs it (a decoder that inverts its encoder, a collision-free digest, a sink that
  accepts), and each such theorem has a witness with a concrete function. The channels of
  \<^verbatim>\<open>tokio\<close> are lists; a bounded one refuses when it is full.

  \<^bold>\<open>What is shown.\<close>

  \<^item> Contracts. The scheduler refines a map from sender and nonce to transactions; its counters equal
    a full classification; a snapshot restores the state; a stale simulation result never reaches
    the builder; any interleaving of senders has the effect of the accepted commands in order. The
    assembly keeps its invariant and decides like the selection in unbounded arithmetic. The
    in-memory store is a ring buffer of events in canonical order with tables of the last rows.
    The P2P feed refines a specification over hashes alone.

  \<^item> Durability. Appending to the log and recovering is the identity across rotation; recovery is all
    or nothing; the writer numbers events in order, delivers each exactly once to a sink that
    accepts, and after a crash continues from what was logged.

  \<^item> Ordering. Whatever the other tasks do, the pipeline writes along the life of a transaction, a
    refused write cuts the rest off, a simulation worker reports only what it was told to simulate,
    and every task carries candidates whose own request has its key. A subscriber of the dashboard
    that is sent no reset misses no dispatch.

  \<^item> Agreement of two versions: the two replay modes, resuming and replaying, the overriding and the
    default dashboard snapshot, the cached and the fresh views, the paged and the whole replay.

  \<^item> Termination and bounds: the retries of a fetch and their delays, the batches of a flush, the
    pages of a replay, the gauges of the simulation queue, the circuit breaker of the relay, and
    the isolation of keys from each other in the rate limiter.

  \<^item> Where the code departs from this, a lemma exhibits it: a late receipt that is counted first, a
    hash that is forgotten with its failed batch, a snapshot that is rejected as a whole, events the
    producer of the stream skips, and others.

  \<^bold>\<open>Interfaces.\<close> Each locale states a contract that several components share, and is interpreted on
  the model: \<open>ordered_map\<close> (the map of the basis), \<open>comparator\<close> (the orders of
  searcher and storage), \<open>step_system\<close>, \<open>started_system\<close> and \<open>simulation\<close>
  (invariants and refinement of scheduler, assembly, replay and stream), \<open>id_source\<close> (the
  sequencer), \<open>nonce_gap\<close> (scheduler and replay), \<open>ordered_index\<close> (the index of
  events), \<open>hash_table\<close> (the five tables of the store), \<open>dedup_cache\<close> (the three
  ingest paths), \<open>trace_property\<close> (what all writes of the pipeline keep), and
  \<open>prefix_code\<close> (the encodings under the digests).

  \<^bold>\<open>Not modelled.\<close> The parsing of HTTP requests and rendering of answers, the routes that return
  a state as it is, and the text of the Prometheus metrics; the ClickHouse client and schema; the process entry points (\<^verbatim>\<open>node-runtime\<close> and the binaries), which only
  wire components; spawning, aborting and respawning of tasks; logging; serde's derived formats;
  the benchmark harness, the tests, and the browser dashboard, which is JavaScript.
\<close>

end
